(* ===== verification/Prelude.thy ===== *)
theory Prelude
  imports Main "HOL-Library.List_Lexorder" "HOL-Library.Char_ord"
begin

text \<open>
  Shared material of the development.

  \<^item> the collections of facts the component theories add to (\<open>safe_intros\<close> for the
    rely-guarantee rules, \<open>run_simps\<close> for the evaluation of programs, \<open>table_simps\<close> for
    the SQL operations);
  \<^item> SQL tables as lists of rows: \<open>SELECT ... LIMIT 1\<close> is the library's \<open>find\<close>,
    \<open>UPDATE ... WHERE\<close> is \<open>update_where\<close>, \<open>DELETE ... WHERE\<close> is \<open>delete_where\<close>,
    \<open>INSERT ... ON CONFLICT DO NOTHING\<close> is \<open>insert_unless\<close>;
  \<^item> decimal numerals and \<open>lpad\<close>, on which the slot numbers of the event log rest;
  \<^item> the greatest element of a list, for \<open>ORDER BY id DESC LIMIT 1\<close>.
\<close>

named_theorems safe_intros "introduction rules for safe programs"
named_theorems run_simps "evaluation rules for programs"
named_theorems table_simps "rules for the SQL operations on tables"

type_synonym tenant_id = string
type_synonym run_id = string
type_synonym event_id = string
type_synonym timestamp = int
type_synonym blob = string

section \<open>Results\<close>

text \<open>Sequencing of pure code that may throw.\<close>

definition bindE :: "'e + 'a \<Rightarrow> ('a \<Rightarrow> 'e + 'b) \<Rightarrow> 'e + 'b" where
  "bindE x k = (case x of Inl e \<Rightarrow> Inl e | Inr a \<Rightarrow> k a)"

lemma bindE_simps [simp]: "bindE (Inl e) k = Inl e" "bindE (Inr a) k = k a"
  by (simp_all add: bindE_def)

lemma bindE_eq_Inr [simp]: "bindE x k = Inr b \<longleftrightarrow> (\<exists>a. x = Inr a \<and> k a = Inr b)"
  by (cases x) auto

section \<open>SQL tables as lists of rows\<close>

definition update_where :: "('r \<Rightarrow> bool) \<Rightarrow> ('r \<Rightarrow> 'r) \<Rightarrow> 'r list \<Rightarrow> 'r list" where
  "update_where P f t = map (\<lambda>r. if P r then f r else r) t"

definition delete_where :: "('r \<Rightarrow> bool) \<Rightarrow> 'r list \<Rightarrow> 'r list" where
  "delete_where P t = filter (\<lambda>r. \<not> P r) t"

definition has_row :: "('r \<Rightarrow> bool) \<Rightarrow> 'r list \<Rightarrow> bool" where
  "has_row P t = list_ex P t"

definition insert_unless :: "('r \<Rightarrow> bool) \<Rightarrow> 'r \<Rightarrow> 'r list \<Rightarrow> 'r list" where
  "insert_unless conflict r t = (if has_row conflict t then t else t @ [r])"

lemma set_update_where [table_simps]:
  "set (update_where P f t) = (\<lambda>r. if P r then f r else r) ` set t"
  by (simp add: update_where_def)

lemma set_delete_where [table_simps]: "set (delete_where P t) = {r \<in> set t. \<not> P r}"
  by (auto simp: delete_where_def)

lemma has_row_iff [table_simps]: "has_row P t \<longleftrightarrow> (\<exists>r \<in> set t. P r)"
  by (simp add: has_row_def list_ex_iff)

lemma map_key_update_where:
  assumes "\<And>r. P r \<Longrightarrow> k (f r) = k r"
  shows "map k (update_where P f t) = map k t"
  using assms by (simp add: update_where_def)

lemma filter_update_where_frame:
  assumes "\<And>r. P r \<Longrightarrow> \<not> Q r" and "\<And>r. P r \<Longrightarrow> \<not> Q (f r)"
  shows "filter Q (update_where P f t) = filter Q t"
  using assms by (induction t) (auto simp: update_where_def)

lemma filter_delete_where_frame:
  assumes "\<And>r. P r \<Longrightarrow> \<not> Q r"
  shows "filter Q (delete_where P t) = filter Q t"
  using assms by (induction t) (auto simp: delete_where_def)

lemma distinct_map_delete_where: "distinct (map k t) \<Longrightarrow> distinct (map k (delete_where P t))"
  by (simp add: delete_where_def distinct_map_filter)

lemma distinct_map_snoc:
  "distinct (map k (t @ [r])) \<longleftrightarrow> distinct (map k t) \<and> \<not> (\<exists>q \<in> set t. k q = k r)"
  by (auto simp: image_iff)

lemma distinct_map_unique:
  "distinct (map k t) \<Longrightarrow> q \<in> set t \<Longrightarrow> r \<in> set t \<Longrightarrow> k q = k r \<Longrightarrow> q = r"
  by (simp add: distinct_map inj_on_def)

text \<open>A table whose rows are never deleted, each only moving along an order.\<close>

definition evolves :: "('r \<Rightarrow> 'r \<Rightarrow> bool) \<Rightarrow> 'r list \<Rightarrow> 'r list \<Rightarrow> bool" where
  "evolves le t t' \<longleftrightarrow> (\<exists>us zs. t' = us @ zs \<and> list_all2 le t us)"

lemma evolves_refl: "(\<And>r. le r r) \<Longrightarrow> evolves le t t"
  unfolding evolves_def by (rule exI [of _ t]) (simp add: list_all2_refl)

lemma evolves_trans:
  assumes "\<And>a b c. le a b \<Longrightarrow> le b c \<Longrightarrow> le a c" and "evolves le t u" and "evolves le u v"
  shows "evolves le t v"
proof -
  obtain us zs vs ys where u: "u = us @ zs" "list_all2 le t us" and v: "v = vs @ ys" "list_all2 le u vs"
    using assms(2,3) unfolding evolves_def by blast
  then obtain v1 v2 where vs: "vs = v1 @ v2" "list_all2 le us v1"
    by (auto simp: list_all2_append1)
  have "list_all2 le t v1" by (rule list_all2_trans [OF assms(1) u(2) vs(2)])
  with v(1) vs(1) show ?thesis unfolding evolves_def by auto
qed

lemma evolves_append: "(\<And>r. le r r) \<Longrightarrow> evolves le t (t @ zs)"
  unfolding evolves_def by (metis list_all2_refl)

lemma evolves_update_where:
  assumes "\<And>r. le r r" and "\<And>r. P r \<Longrightarrow> le r (f r)"
  shows "evolves le t (update_where P f t)"
  unfolding evolves_def update_where_def
  using assms by (intro exI [of _ "map (\<lambda>r. if P r then f r else r) t"] exI [of _ "[]"])
    (simp add: list_all2_conv_all_nth)

lemma evolves_row: "evolves le t t' \<Longrightarrow> r \<in> set t \<Longrightarrow> \<exists>r' \<in> set t'. le r r'"
  unfolding evolves_def by (metis Un_iff in_set_conv_nth list_all2_conv_all_nth nth_mem set_append)

lemma distinct_set_single: "distinct xs \<Longrightarrow> set xs = {x} \<Longrightarrow> xs = [x]"
  by (cases xs; cases "tl xs") auto

lemma find_append: "find P (xs @ ys) = (case find P xs of None \<Rightarrow> find P ys | Some x \<Rightarrow> Some x)"
  by (induction xs) auto

lemma find_update_where:
  assumes "\<And>q. P (f q) = P q"
  shows "find P (update_where Q f xs) = map_option (\<lambda>q. if Q q then f q else q) (find P xs)"
  using assms by (induction xs) (auto simp: update_where_def)

lemma find_conj: "find P xs = Some x \<Longrightarrow> Q x \<Longrightarrow> find (\<lambda>y. P y \<and> Q y) xs = Some x"
  by (induction xs) (auto split: if_splits)

lemma find_conj_None: "(\<And>y. y \<in> set xs \<Longrightarrow> P y \<Longrightarrow> \<not> Q y) \<Longrightarrow> find (\<lambda>y. P y \<and> Q y) xs = None"
  by (auto simp: find_None_iff)

lemma find_SomeD: "find P t = Some r \<Longrightarrow> r \<in> set t \<and> P r"
  by (auto simp: find_Some_iff)

lemma find_NoneD: "find P t = None \<Longrightarrow> r \<in> set t \<Longrightarrow> \<not> P r"
  by (auto simp: find_None_iff)

lemma find_unique_key:
  assumes "distinct (map k t)" and "r \<in> set t"
  shows "find (\<lambda>q. k q = k r) t = Some r"
proof (cases "find (\<lambda>q. k q = k r) t")
  case None
  with assms(2) show ?thesis by (auto simp: find_None_iff)
next
  case (Some q)
  then have "q \<in> set t" "k q = k r" by (auto dest: find_SomeD)
  with assms have "q = r" by (blast intro: distinct_map_unique)
  with Some show ?thesis by simp
qed

section \<open>The greatest element of a list\<close>

fun max_list :: "('a::linorder) list \<Rightarrow> 'a option" where
  "max_list [] = None"
| "max_list (x # xs) = (case max_list xs of None \<Rightarrow> Some x | Some y \<Rightarrow> Some (max x y))"

lemma max_list_None [simp]: "max_list xs = None \<longleftrightarrow> xs = []"
  by (cases xs) (auto split: option.splits)

lemma max_list_Some: "max_list xs = Some m \<Longrightarrow> m \<in> set xs \<and> (\<forall>x \<in> set xs. x \<le> m)"
proof (induction xs arbitrary: m)
  case Nil
  then show ?case by simp
next
  case (Cons x xs)
  show ?case
  proof (cases "max_list xs")
    case None
    with Cons.prems show ?thesis by simp
  next
    case (Some y)
    with Cons.prems have m: "m = max x y" by simp
    from Cons.IH [OF Some] have "y \<in> set xs" "\<forall>z \<in> set xs. z \<le> y" by auto
    then show ?thesis unfolding m by (auto simp: max_def)
  qed
qed

lemma max_list_eqI:
  assumes "m \<in> set xs" and "\<And>x. x \<in> set xs \<Longrightarrow> x \<le> m"
  shows "max_list xs = Some m"
proof -
  from assms(1) have "xs \<noteq> []" by auto
  then obtain y where "max_list xs = Some y" by (cases "max_list xs") auto
  then have "y \<in> set xs" "m \<le> y" using max_list_Some [of xs y] assms(1) by auto
  with assms(2) have "y = m" by (simp add: order_antisym)
  with \<open>max_list xs = Some y\<close> show ?thesis by simp
qed

section \<open>Decimal numerals\<close>

definition digit_char :: "nat \<Rightarrow> char" where
  "digit_char d = char_of (48 + d)"

definition char_digit :: "char \<Rightarrow> nat option" where
  "char_digit ch = (let n = (of_char ch :: nat) in if 48 \<le> n \<and> n < 58 then Some (n - 48) else None)"

fun dec :: "nat \<Rightarrow> string" where
  "dec n = (if n < 10 then [digit_char n] else dec (n div 10) @ [digit_char (n mod 10)])"

declare dec.simps [simp del]

fun undec_acc :: "nat \<Rightarrow> string \<Rightarrow> nat option" where
  "undec_acc acc [] = Some acc"
| "undec_acc acc (ch # cs) =
     (case char_digit ch of None \<Rightarrow> None | Some d \<Rightarrow> undec_acc (10 * acc + d) cs)"

definition undec :: "string \<Rightarrow> nat option" where
  "undec cs = (if cs = [] then None else undec_acc 0 cs)"

text \<open>\<open>lpad(text, width, '0')\<close> of PostgreSQL: pads on the left, and truncates on the right.\<close>

definition lpad0 :: "nat \<Rightarrow> string \<Rightarrow> string" where
  "lpad0 w cs = (if w \<le> length cs then take w cs else replicate (w - length cs) (digit_char 0) @ cs)"

lemma of_char_digit: "d < 10 \<Longrightarrow> (of_char (digit_char d) :: nat) = 48 + d"
  by (simp add: digit_char_def)

lemma char_digit_digit_char [simp]: "d < 10 \<Longrightarrow> char_digit (digit_char d) = Some d"
  by (simp add: char_digit_def of_char_digit Let_def)

lemma digit_char_less: "d < 10 \<Longrightarrow> e < 10 \<Longrightarrow> digit_char d < digit_char e \<longleftrightarrow> d < e"
  by (simp add: less_char_def of_char_digit)

lemma digit_char_inject: "d < 10 \<Longrightarrow> e < 10 \<Longrightarrow> digit_char d = digit_char e \<longleftrightarrow> d = e"
  by (metis char_digit_digit_char option.inject)

lemma undec_acc_append:
  "undec_acc a (xs @ ys) = (case undec_acc a xs of None \<Rightarrow> None | Some b \<Rightarrow> undec_acc b ys)"
  by (induction xs arbitrary: a) (auto split: option.splits)

lemma undec_acc_zeros [simp]: "undec_acc 0 (replicate n (digit_char 0) @ ys) = undec_acc 0 ys"
  by (induction n) auto

lemma dec_nonempty [simp]: "dec n \<noteq> []"
  by (subst dec.simps) simp

lemma undec_acc_dec: "undec_acc 0 (dec n) = Some n"
proof (induction n rule: dec.induct)
  case (1 n)
  show ?case
  proof (cases "n < 10")
    case True
    then show ?thesis by (simp add: dec.simps [of n])
  next
    case False
    with "1" show ?thesis by (simp add: dec.simps [of n] undec_acc_append)
  qed
qed

lemma length_dec_le: "0 < w \<Longrightarrow> length (dec n) \<le> w \<longleftrightarrow> n < 10 ^ w"
proof (induction n arbitrary: w rule: dec.induct)
  case (1 n)
  show ?case
  proof (cases "n < 10")
    case True
    moreover have "(10::nat) \<le> 10 ^ w"
      using "1.prems" by (metis One_nat_def Suc_leI power_increasing power_one_right
          one_le_numeral)
    ultimately show ?thesis using "1.prems" by (simp add: dec.simps [of n])
  next
    case False
    then have len: "length (dec n) = Suc (length (dec (n div 10)))"
      by (simp add: dec.simps [of n])
    obtain v where w: "w = Suc v" using "1.prems" by (cases w) auto
    show ?thesis
    proof (cases "v = 0")
      case True
      with w False len show ?thesis by simp
    next
      case False
      with \<open>\<not> n < 10\<close> "1.IH" [of v] have "length (dec (n div 10)) \<le> v \<longleftrightarrow> n div 10 < 10 ^ v"
        by simp
      moreover have "n div 10 < 10 ^ v \<longleftrightarrow> n < 10 ^ w"
        using w by (simp add: less_mult_imp_div_less div_less_iff_less_mult mult.commute)
      ultimately show ?thesis using len w by simp
    qed
  qed
qed

lemma length_lpad0 [simp]: "length (lpad0 w cs) = w"
  by (simp add: lpad0_def)

lemma lpad0_dec: "0 < w \<Longrightarrow> n < 10 ^ w \<Longrightarrow> lpad0 w (dec n) = replicate (w - length (dec n)) (digit_char 0) @ dec n"
  using length_dec_le [of w n] by (auto simp: lpad0_def)

lemma undec_lpad0_dec: "0 < w \<Longrightarrow> n < 10 ^ w \<Longrightarrow> undec (lpad0 w (dec n)) = Some n"
  by (simp add: lpad0_dec undec_def undec_acc_dec)

lemma lpad0_dec_inject:
  "0 < w \<Longrightarrow> m < 10 ^ w \<Longrightarrow> n < 10 ^ w \<Longrightarrow> lpad0 w (dec m) = lpad0 w (dec n) \<longleftrightarrow> m = n"
  by (metis option.inject undec_lpad0_dec)

lemma less_append_same_length:
  fixes xs ys :: "('a::linorder) list"
  assumes "length xs = length ys"
  shows "xs @ [a] < ys @ [b] \<longleftrightarrow> xs < ys \<or> xs = ys \<and> a < b"
  using assms by (induction xs ys rule: list_induct2) auto

lemma lpad0_dec_Suc:
  assumes "0 < w" and "n < 10 ^ Suc w"
  shows "lpad0 (Suc w) (dec n) = lpad0 w (dec (n div 10)) @ [digit_char (n mod 10)]"
proof -
  have q: "n div 10 < 10 ^ w" using assms(2) by (simp add: less_mult_imp_div_less)
  show ?thesis
  proof (cases "n < 10")
    case True
    have "(n div 10) = 0" using True by simp
    moreover obtain v where "w = Suc v" using assms(1) by (cases w) auto
    ultimately show ?thesis using True assms
      by (simp add: lpad0_def dec.simps [of n] dec.simps [of 0] replicate_append_same)
  next
    case False
    then have "dec n = dec (n div 10) @ [digit_char (n mod 10)]" by (simp add: dec.simps [of n])
    then show ?thesis using q assms(1) length_dec_le [OF assms(1), of "n div 10"]
      by (simp add: lpad0_def)
  qed
qed

lemma div_mod_less_iff:
  fixes m n :: nat
  shows "m div 10 < n div 10 \<or> m div 10 = n div 10 \<and> m mod 10 < n mod 10 \<longleftrightarrow> m < n"
proof -
  define a b c d where defs: "a = m div 10" "b = m mod 10" "c = n div 10" "d = n mod 10"
  have "m = 10 * a + b" "n = 10 * c + d" "b < 10" "d < 10" by (simp_all add: defs)
  then show ?thesis unfolding defs [symmetric] by auto
qed

lemma lpad0_dec_less:
  "0 < w \<Longrightarrow> m < 10 ^ w \<Longrightarrow> n < 10 ^ w \<Longrightarrow> lpad0 w (dec m) < lpad0 w (dec n) \<longleftrightarrow> m < n"
proof (induction w arbitrary: m n)
  case 0
  then show ?case by simp
next
  case (Suc w)
  show ?case
  proof (cases "w = 0")
    case True
    with Suc.prems show ?thesis
      by (simp add: lpad0_def dec.simps [of m] dec.simps [of n] digit_char_less)
  next
    case False
    then have w: "0 < w" by simp
    from Suc.prems have q: "m div 10 < 10 ^ w" "n div 10 < 10 ^ w"
      by (simp_all add: less_mult_imp_div_less)
    have "lpad0 (Suc w) (dec m) < lpad0 (Suc w) (dec n) \<longleftrightarrow>
        m div 10 < n div 10 \<or> m div 10 = n div 10 \<and> m mod 10 < n mod 10"
      using Suc.IH [OF w q] lpad0_dec_inject [OF w q] Suc.prems w
      by (simp add: lpad0_dec_Suc less_append_same_length digit_char_less)
    also have "\<dots> \<longleftrightarrow> m < n"
      by (rule div_mod_less_iff)
    finally show ?thesis .
  qed
qed

text \<open>Overflow: a number one digit too long is cut to a smaller one.\<close>

lemma dec_power10: "dec (10 ^ w) = digit_char 1 # replicate w (digit_char 0)"
proof (induction w)
  case 0
  then show ?case by (simp add: dec.simps)
next
  case (Suc w)
  have "\<not> (10::nat) ^ Suc w < 10" by simp
  then have "dec (10 ^ Suc w) = dec (10 ^ Suc w div 10) @ [digit_char (10 ^ Suc w mod 10)]"
    by (subst dec.simps) simp
  then show ?case using Suc.IH by (simp add: replicate_append_same)
qed

lemma lpad0_overflow: "0 < w \<Longrightarrow> lpad0 w (dec (10 ^ w)) = lpad0 w (dec (10 ^ (w - 1)))"
proof -
  assume "0 < w"
  then obtain v where w: "w = Suc v" by (cases w) auto
  have "lpad0 w (dec (10 ^ w)) = take w (digit_char 1 # replicate w (digit_char 0))"
    unfolding lpad0_def dec_power10 by simp
  also have "\<dots> = lpad0 w (dec (10 ^ v))"
    unfolding lpad0_def dec_power10 w by (simp add: take_Cons' min_def replicate_Suc [symmetric] del: replicate_Suc)
  finally show ?thesis by (simp add: w)
qed

end
