(* ===== verification/Prog.thy ===== *)
theory Prog
  imports Prelude
begin

text \<open>
  Asynchronous TypeScript over PostgreSQL, as a shallow embedding.

  An operation of the storage layer awaits one SQL statement after another. Between two
  statements other operations, in this process or another, run theirs. A \<open>prog\<close> is such an
  operation: it returns, throws, or performs one atomic statement on the shared state and
  goes on. \<open>run\<close> executes a program on its own; \<open>pool_step\<close> interleaves any number of them,
  one statement at a time. \<open>txn\<close> is \<open>drizzle.transaction\<close>: the body commits as one
  statement, and an error rolls the state back.

  \<open>rg I R p s\<close> is a rely-guarantee condition with one invariant and one relation: when every
  other program keeps \<open>I\<close> and moves the state only along \<open>R\<close>, then so does every statement of
  \<open>p\<close>, started from a state reached from \<open>s\<close>. \<open>safe\<close> is that condition from every state. The
  locale \<open>state_order\<close> (a reflexive and transitive relation) carries the rules, and \<open>pool_steps_order\<close> is the
  soundness theorem for interleaved programs.
\<close>

section \<open>Programs\<close>

datatype (dead 's, dead 'e, 'a) prog =
    Ret 'a
  | Throw 'e
  | Atomic "'s \<Rightarrow> ('s, 'e, 'a) prog \<times> 's"

primrec bindP :: "('s, 'e, 'a) prog \<Rightarrow> ('a \<Rightarrow> ('s, 'e, 'b) prog) \<Rightarrow> ('s, 'e, 'b) prog" where
  "bindP (Ret a) k = k a"
| "bindP (Throw e) k = Throw e"
| "bindP (Atomic f) k = Atomic (\<lambda>s. map_prod (\<lambda>p. bindP p k) id (f s))"

primrec catchP :: "('s, 'e, 'a) prog \<Rightarrow> ('e \<Rightarrow> ('s, 'e, 'a) prog) \<Rightarrow> ('s, 'e, 'a) prog" where
  "catchP (Ret a) h = Ret a"
| "catchP (Throw e) h = h e"
| "catchP (Atomic f) h = Atomic (\<lambda>s. map_prod (\<lambda>p. catchP p h) id (f s))"

primrec run :: "('s, 'e, 'a) prog \<Rightarrow> 's \<Rightarrow> ('e + 'a) \<times> 's" where
  "run (Ret a) = (\<lambda>s. (Inr a, s))"
| "run (Throw e) = (\<lambda>s. (Inl e, s))"
| "run (Atomic f) = (\<lambda>s. (\<lambda>(r, s'). r s') (map_prod run id (f s)))"

definition query :: "('s \<Rightarrow> 'a) \<Rightarrow> ('s, 'e, 'a) prog" where
  "query f = Atomic (\<lambda>s. (Ret (f s), s))"

definition stmt :: "('s \<Rightarrow> 'a \<times> 's) \<Rightarrow> ('s, 'e, 'a) prog" where
  "stmt f = Atomic (\<lambda>s. case f s of (a, s') \<Rightarrow> (Ret a, s'))"

definition stmtE :: "('s \<Rightarrow> ('e + 'a) \<times> 's) \<Rightarrow> ('s, 'e, 'a) prog" where
  "stmtE f = Atomic (\<lambda>s. case f s of (Inl e, s') \<Rightarrow> (Throw e, s) | (Inr a, s') \<Rightarrow> (Ret a, s'))"

definition exec :: "('s \<Rightarrow> 's) \<Rightarrow> ('s, 'e, unit) prog" where
  "exec f = stmt (\<lambda>s. ((), f s))"

definition txn :: "('s, 'e, 'a) prog \<Rightarrow> ('s, 'e, 'a) prog" where
  "txn p = stmtE (run p)"

definition throw_if :: "bool \<Rightarrow> 'e \<Rightarrow> ('s, 'e, unit) prog" where
  "throw_if b e = (if b then Throw e else Ret ())"

fun mapM :: "('x \<Rightarrow> ('s, 'e, 'a) prog) \<Rightarrow> 'x list \<Rightarrow> ('s, 'e, 'a list) prog" where
  "mapM f [] = Ret []"
| "mapM f (x # xs) = bindP (f x) (\<lambda>a. bindP (mapM f xs) (\<lambda>as. Ret (a # as)))"

section \<open>Running a program on its own\<close>

text \<open>Structural induction, with the continuation after a statement named by its state.\<close>

lemma prog_induct [case_names Ret Throw Atomic]:
  assumes "\<And>a. P (Ret a)" and "\<And>e. P (Throw e)"
    and "\<And>f. (\<And>s. P (fst (f s))) \<Longrightarrow> P (Atomic f)"
  shows "P p"
proof (induction p)
  case (Atomic f)
  then have "P (fst (f s))" for s by (metis fsts.intros prod.collapse rangeI)
  then show ?case by (rule assms(3))
qed (use assms in auto)

lemma run_Atomic: "run (Atomic f) s = run (fst (f s)) (snd (f s))"
  by (simp add: prod.case_eq_if)

declare run.simps(3) [simp del] run_Atomic [simp]

lemma run_bindP [run_simps]:
  "run (bindP p k) s =
     (case run p s of (Inl e, s') \<Rightarrow> (Inl e, s') | (Inr a, s') \<Rightarrow> run (k a) s')"
  by (induction p arbitrary: s rule: prog_induct) (auto split: prod.splits)

lemma run_catchP [run_simps]:
  "run (catchP p h) s =
     (case run p s of (Inl e, s') \<Rightarrow> run (h e) s' | (Inr a, s') \<Rightarrow> (Inr a, s'))"
  by (induction p arbitrary: s rule: prog_induct) (auto split: prod.splits)

lemma run_query [run_simps]: "run (query f) s = (Inr (f s), s)"
  by (simp add: query_def)

lemma run_stmt [run_simps]: "run (stmt f) s = (Inr (fst (f s)), snd (f s))"
  by (simp add: stmt_def split: prod.splits)

lemma run_stmtE:
  "run (stmtE f) s = (case f s of (Inl e, s') \<Rightarrow> (Inl e, s) | (Inr a, s') \<Rightarrow> (Inr a, s'))"
  by (simp add: stmtE_def split: prod.splits sum.splits)

lemma run_exec [run_simps]: "run (exec f) s = (Inr (), f s)"
  by (simp add: exec_def run_simps)

lemma run_txn [run_simps]:
  "run (txn p) s = (case run p s of (Inl e, s') \<Rightarrow> (Inl e, s) | (Inr a, s') \<Rightarrow> (Inr a, s'))"
  by (simp add: txn_def run_stmtE)

lemma run_throw_if [run_simps]:
  "run (throw_if b e) s = (if b then (Inl e, s) else (Inr (), s))"
  by (simp add: throw_if_def)

lemma bindP_assoc: "bindP (bindP p k) h = bindP p (\<lambda>a. bindP (k a) h)"
  by (induction p rule: prog_induct) (auto simp: fun_eq_iff prod_eq_iff)

text \<open>An error of a transaction leaves the state as it was.\<close>

lemma txn_error_keeps_state: "run (txn p) s = (Inl e, s') \<Longrightarrow> s' = s"
  by (auto simp: run_simps split: prod.splits sum.splits)

section \<open>Interleaving\<close>

text \<open>
  A pool of programs over one state. A step runs one statement of one of them; \<open>E\<close> is what
  the environment may do on its own (the database clock advances).
\<close>

inductive pool_step ::
  "('s \<Rightarrow> 's \<Rightarrow> bool) \<Rightarrow> 's \<times> ('s, 'e, 'a) prog list \<Rightarrow> 's \<times> ('s, 'e, 'a) prog list \<Rightarrow> bool"
  for E where
  pool_prog: "i < length ps \<Longrightarrow> ps ! i = Atomic f \<Longrightarrow> f s = (p', s') \<Longrightarrow>
     pool_step E (s, ps) (s', ps[i := p'])"
| pool_env: "E s s' \<Longrightarrow> pool_step E (s, ps) (s', ps)"

inductive pool_steps ::
  "('s \<Rightarrow> 's \<Rightarrow> bool) \<Rightarrow> 's \<times> ('s, 'e, 'a) prog list \<Rightarrow> 's \<times> ('s, 'e, 'a) prog list \<Rightarrow> bool"
  for E where
  pool_refl: "pool_steps E c c"
| pool_trans: "pool_steps E c c' \<Longrightarrow> pool_step E c' c'' \<Longrightarrow> pool_steps E c c''"

inductive_cases pool_stepE: "pool_step E (s, ps) c'"

text \<open>Running a program alone is one of its interleavings.\<close>

definition finished :: "'e + 'a \<Rightarrow> ('s, 'e, 'a) prog" where
  "finished x = (case x of Inl e \<Rightarrow> Throw e | Inr a \<Rightarrow> Ret a)"

lemma pool_steps_trans: "pool_steps E c' c'' \<Longrightarrow> pool_steps E c c' \<Longrightarrow> pool_steps E c c''"
  by (induction rule: pool_steps.induct) (auto intro: pool_trans)

lemma pool_run: "pool_steps E (s, [p]) (snd (run p s), [finished (fst (run p s))])"
proof (induction p arbitrary: s rule: prog_induct)
  case (Atomic f)
  have "pool_step E (s, [Atomic f]) (snd (f s), [fst (f s)])"
    using pool_prog [of 0 "[Atomic f]" f s "fst (f s)" "snd (f s)" E] by simp
  then show ?case
    using pool_steps_trans [OF Atomic [of "snd (f s)" s] pool_trans [OF pool_refl]] by simp
qed (simp_all add: finished_def pool_refl)

text \<open>So is running one of several programs to its end.\<close>

lemma pool_run_at:
  "i < length ps \<Longrightarrow> ps ! i = p \<Longrightarrow> pool_steps E (s, ps) (snd (run p s), ps[i := finished (fst (run p s))])"
proof (induction p arbitrary: s ps rule: prog_induct)
  case (Atomic f)
  let ?qs = "ps[i := fst (f s)]"
  have "pool_step E (s, ps) (snd (f s), ?qs)"
    using pool_prog [of i ps f s "fst (f s)" "snd (f s)" E] Atomic.prems by simp
  moreover have "pool_steps E (snd (f s), ?qs) (snd (run (Atomic f) s), ps[i := finished (fst (run (Atomic f) s))])"
    using Atomic.IH [of ?qs s "snd (f s)"] Atomic.prems by simp
  ultimately show ?case by (blast intro: pool_steps_trans pool_trans pool_refl)
qed (auto simp: finished_def pool_refl list_update_same_conv [THEN iffD2])

text \<open>
  An interleaving given as the list of programs to advance, one statement each; a program that
  has finished stands still.
\<close>

fun pool_exec :: "nat list \<Rightarrow> 's \<times> ('s, 'e, 'a) prog list \<Rightarrow> 's \<times> ('s, 'e, 'a) prog list" where
  "pool_exec [] c = c"
| "pool_exec (i # is) (s, ps) =
     (if i < length ps then
        (case ps ! i of
           Atomic f \<Rightarrow> pool_exec is (snd (f s), ps[i := fst (f s)])
         | _ \<Rightarrow> pool_exec is (s, ps))
      else pool_exec is (s, ps))"

lemma pool_exec_steps: "pool_steps E c (pool_exec is c)"
proof (induction "is" arbitrary: c)
  case (Cons i "is")
  obtain s ps where c: "c = (s, ps)" by (cases c)
  show ?case
  proof (cases "i < length ps \<and> (\<exists>f. ps ! i = Atomic f)")
    case True
    then obtain f where f: "i < length ps" "ps ! i = Atomic f" by blast
    then have "pool_step E (s, ps) (snd (f s), ps[i := fst (f s)])" by (simp add: pool_prog)
    from pool_steps_trans [OF Cons.IH pool_trans [OF pool_refl this]] f show ?thesis
      by (simp add: c)
  next
    case False
    then show ?thesis using Cons.IH by (auto simp: c split: prog.split)
  qed
qed (simp add: pool_refl)

section \<open>Rely-guarantee\<close>

primrec rg :: "('s \<Rightarrow> bool) \<Rightarrow> ('s \<Rightarrow> 's \<Rightarrow> bool) \<Rightarrow> ('s, 'e, 'a) prog \<Rightarrow> 's \<Rightarrow> bool" where
  "rg I R (Ret a) = (\<lambda>s. True)"
| "rg I R (Throw e) = (\<lambda>s. True)"
| "rg I R (Atomic f) = (\<lambda>s. \<forall>s1. I s1 \<and> R s s1 \<longrightarrow>
     I (snd (f s1)) \<and> R s1 (snd (f s1)) \<and> (\<lambda>(g, s2). g s2) (map_prod (rg I R) id (f s1)))"

definition safe :: "('s \<Rightarrow> bool) \<Rightarrow> ('s \<Rightarrow> 's \<Rightarrow> bool) \<Rightarrow> ('s, 'e, 'a) prog \<Rightarrow> bool" where
  "safe I R p \<longleftrightarrow> (\<forall>s. rg I R p s)"

lemma rg_Atomic:
  "rg I R (Atomic f) s \<longleftrightarrow> (\<forall>s1. I s1 \<longrightarrow> R s s1 \<longrightarrow>
     I (snd (f s1)) \<and> R s1 (snd (f s1)) \<and> rg I R (fst (f s1)) (snd (f s1)))"
  by (auto simp: prod.case_eq_if)

declare rg.simps(3) [simp del]

lemma safeD: "safe I R p \<Longrightarrow> rg I R p s"
  by (simp add: safe_def)

lemma safe_Ret [safe_intros, simp]: "safe I R (Ret a)"
  by (simp add: safe_def)

lemma safe_Throw [safe_intros, simp]: "safe I R (Throw e)"
  by (simp add: safe_def)

lemma safe_throw_if [safe_intros, simp]: "safe I R (throw_if b e)"
  by (simp add: throw_if_def)

lemma rg_bindP: "rg I R p s \<Longrightarrow> (\<And>a. safe I R (k a)) \<Longrightarrow> rg I R (bindP p k) s"
  by (induction p arbitrary: s rule: prog_induct) (auto simp: rg_Atomic safeD)

lemma safe_bindP [safe_intros]: "safe I R p \<Longrightarrow> (\<And>a. safe I R (k a)) \<Longrightarrow> safe I R (bindP p k)"
  by (simp add: safe_def rg_bindP)

lemma rg_catchP: "rg I R p s \<Longrightarrow> (\<And>e. safe I R (h e)) \<Longrightarrow> rg I R (catchP p h) s"
  by (induction p arbitrary: s rule: prog_induct) (auto simp: rg_Atomic safeD)

lemma safe_catchP [safe_intros]: "safe I R p \<Longrightarrow> (\<And>e. safe I R (h e)) \<Longrightarrow> safe I R (catchP p h)"
  by (simp add: safe_def rg_catchP)

lemma safe_mapM [safe_intros]: "(\<And>x. safe I R (f x)) \<Longrightarrow> safe I R (mapM f xs)"
  by (induction xs) (auto intro!: safe_intros)

text \<open>What a program can return, whatever the state.\<close>

primrec rets :: "('a \<Rightarrow> bool) \<Rightarrow> ('s, 'e, 'a) prog \<Rightarrow> bool" where
  "rets P (Ret a) = P a"
| "rets P (Throw e) = True"
| "rets P (Atomic f) = (\<forall>s. fst (map_prod (rets P) id (f s)))"

lemma rets_bindP: "rets Q p \<Longrightarrow> (\<And>a. Q a \<Longrightarrow> rets P (k a)) \<Longrightarrow> rets P (bindP p k)"
  by (induction p rule: prog_induct) auto

lemma rets_bindP': "(\<And>a. rets P (k a)) \<Longrightarrow> rets P (bindP p k)"
  by (induction p rule: prog_induct) auto

lemma rets_if: "(b \<Longrightarrow> rets P p) \<Longrightarrow> (\<not> b \<Longrightarrow> rets P q) \<Longrightarrow> rets P (if b then p else q)"
  by simp

lemma rets_run: "rets P p \<Longrightarrow> run p s = (Inr a, s') \<Longrightarrow> P a"
  by (induction p arbitrary: s rule: prog_induct) auto

lemma rg_bindP_rets:
  "rg I R p s \<Longrightarrow> rets P p \<Longrightarrow> (\<And>a. P a \<Longrightarrow> safe I R (k a)) \<Longrightarrow> rg I R (bindP p k) s"
  by (induction p arbitrary: s rule: prog_induct) (auto simp: rg_Atomic safeD)

lemma safe_bindP_rets:
  "safe I R p \<Longrightarrow> rets P p \<Longrightarrow> (\<And>a. P a \<Longrightarrow> safe I R (k a)) \<Longrightarrow> safe I R (bindP p k)"
  by (simp add: safe_def rg_bindP_rets)

text \<open>What a program can return when every state it reads satisfies an invariant.\<close>

primrec rets_in :: "('s \<Rightarrow> bool) \<Rightarrow> ('a \<Rightarrow> bool) \<Rightarrow> ('s, 'e, 'a) prog \<Rightarrow> bool" where
  "rets_in I P (Ret a) = P a"
| "rets_in I P (Throw e) = True"
| "rets_in I P (Atomic f) = (\<forall>s. I s \<longrightarrow> fst (map_prod (rets_in I P) id (f s)))"

lemma rets_in_bindP': "(\<And>a. rets_in I P (k a)) \<Longrightarrow> rets_in I P (bindP p k)"
  by (induction p rule: prog_induct) auto

lemma rets_in_query: "(\<And>s. I s \<Longrightarrow> rets_in I P (k (f s))) \<Longrightarrow> rets_in I P (bindP (query f) k)"
  by (simp add: query_def)

lemma rets_in_True: "(\<And>a. P a) \<Longrightarrow> rets_in I P p"
  by (induction p rule: prog_induct) auto

lemma rg_bindP_rets_in:
  "rg I R p s \<Longrightarrow> rets_in I P p \<Longrightarrow> (\<And>a. P a \<Longrightarrow> safe I R (k a)) \<Longrightarrow> rg I R (bindP p k) s"
  by (induction p arbitrary: s rule: prog_induct) (auto simp: rg_Atomic safeD)

lemma safe_bindP_rets_in:
  "safe I R p \<Longrightarrow> rets_in I P p \<Longrightarrow> (\<And>a. P a \<Longrightarrow> safe I R (k a)) \<Longrightarrow> safe I R (bindP p k)"
  by (simp add: safe_def rg_bindP_rets_in)

text \<open>The rules follow the shape of a program: branches and local definitions.\<close>

lemma safe_if [safe_intros]:
  "(b \<Longrightarrow> safe I R p) \<Longrightarrow> (\<not> b \<Longrightarrow> safe I R q) \<Longrightarrow> safe I R (if b then p else q)"
  by simp

lemma safe_case_option [safe_intros]:
  "safe I R p \<Longrightarrow> (\<And>x. safe I R (f x)) \<Longrightarrow> safe I R (case m of None \<Rightarrow> p | Some x \<Rightarrow> f x)"
  by (simp split: option.split)

lemma safe_case_sum [safe_intros]:
  "(\<And>x. safe I R (f x)) \<Longrightarrow> (\<And>x. safe I R (g x)) \<Longrightarrow>
     safe I R (case m of Inl x \<Rightarrow> f x | Inr x \<Rightarrow> g x)"
  by (simp split: sum.split)

lemma safe_case_prod [safe_intros]:
  "(\<And>x y. safe I R (f x y)) \<Longrightarrow> safe I R (case m of (x, y) \<Rightarrow> f x y)"
  by (simp split: prod.split)

lemma safe_Let [safe_intros]: "safe I R (f m) \<Longrightarrow> safe I R (let x = m in f x)"
  by simp

text \<open>A statement that keeps the invariant and moves along the relation.\<close>

definition keeps :: "('s \<Rightarrow> bool) \<Rightarrow> ('s \<Rightarrow> 's \<Rightarrow> bool) \<Rightarrow> ('s \<Rightarrow> 's) \<Rightarrow> bool" where
  "keeps I R f \<longleftrightarrow> (\<forall>s. I s \<longrightarrow> I (f s) \<and> R s (f s))"

lemma keepsI: "(\<And>s. I s \<Longrightarrow> I (f s) \<and> R s (f s)) \<Longrightarrow> keeps I R f"
  by (simp add: keeps_def)

locale state_order =
  fixes I :: "'s \<Rightarrow> bool" and R :: "'s \<Rightarrow> 's \<Rightarrow> bool"
  assumes ord_refl: "R s s"
    and ord_trans: "R s t \<Longrightarrow> R t u \<Longrightarrow> R s u"
begin

lemma rg_later: "rg I R p s \<Longrightarrow> R s t \<Longrightarrow> rg I R p t"
  by (cases p) (auto simp: rg_Atomic intro: ord_trans)

lemma safe_query [safe_intros]: "safe I R (query f)"
  by (simp add: safe_def query_def rg_Atomic ord_refl)

lemma safe_stmt [safe_intros]: "keeps I R (\<lambda>s. snd (f s)) \<Longrightarrow> safe I R (stmt f)"
  by (simp add: safe_def stmt_def rg_Atomic prod.case_eq_if keeps_def)

lemma safe_exec [safe_intros]: "keeps I R f \<Longrightarrow> safe I R (exec f)"
  by (simp add: exec_def safe_stmt)

lemma safe_stmtE:
  "(\<And>s a s'. I s \<Longrightarrow> f s = (Inr a, s') \<Longrightarrow> I s' \<and> R s s') \<Longrightarrow> safe I R (stmtE f)"
  by (auto simp: safe_def stmtE_def rg_Atomic ord_refl split: prod.splits sum.splits)

lemma safe_stmtE_keeps [safe_intros]: "keeps I R (\<lambda>s. snd (f s)) \<Longrightarrow> safe I R (stmtE f)"
  by (rule safe_stmtE) (force simp: keeps_def)

lemma keeps_id [simp]: "keeps I R (\<lambda>s. s)"
  by (simp add: keeps_def ord_refl)

text \<open>A program that reads first may use what it read: the rest starts from that state.\<close>

lemma safe_bind_query: "(\<And>s. I s \<Longrightarrow> rg I R (k (f s)) s) \<Longrightarrow> safe I R (bindP (query f) k)"
  by (simp add: safe_def query_def rg_Atomic ord_refl)

lemma rg_bind_query:
  "(\<And>t. I t \<Longrightarrow> R s t \<Longrightarrow> rg I R (k (f t)) t) \<Longrightarrow> rg I R (bindP (query f) k) s"
  by (simp add: query_def rg_Atomic ord_refl)

lemma rg_bind_exec:
  "(\<And>t. I t \<Longrightarrow> R s t \<Longrightarrow> I (f t) \<and> R t (f t) \<and> rg I R (k ()) (f t)) \<Longrightarrow> rg I R (bindP (exec f) k) s"
  by (simp add: exec_def stmt_def rg_Atomic)

lemma rg_bind_stmtE:
  assumes "\<And>t a u. I t \<Longrightarrow> R s t \<Longrightarrow> f t = (Inr a, u) \<Longrightarrow> I u \<and> R t u \<and> rg I R (k a) u"
  shows "rg I R (bindP (stmtE f) k) s"
proof -
  have "I (snd (g t)) \<and> R t (snd (g t)) \<and> rg I R (bindP (fst (g t)) k) (snd (g t))"
    if "I t" "R s t" and g: "g = (\<lambda>s. case f s of (Inl e, s') \<Rightarrow> (Throw e, s) | (Inr a, s') \<Rightarrow> (Ret a, s'))"
    for t g
    using assms [OF that(1,2)] that(1) unfolding g by (auto simp: ord_refl split: prod.splits sum.splits)
  then show ?thesis by (simp add: stmtE_def rg_Atomic)
qed

lemma rg_run: "I s \<Longrightarrow> rg I R p s \<Longrightarrow> I (snd (run p s)) \<and> R s (snd (run p s))"
proof (induction p arbitrary: s rule: prog_induct)
  case (Atomic f)
  from Atomic.prems have step: "I (snd (f s))" "R s (snd (f s))" "rg I R (fst (f s)) (snd (f s))"
    by (simp_all add: rg_Atomic ord_refl)
  from Atomic.IH [OF step(1,3)] step(2) show ?case by (auto intro: ord_trans)
qed (auto simp: ord_refl)

lemma safe_run: "safe I R p \<Longrightarrow> I s \<Longrightarrow> I (snd (run p s)) \<and> R s (snd (run p s))"
  by (simp add: safeD rg_run)

lemma safe_txn [safe_intros]: "safe I R p \<Longrightarrow> safe I R (txn p)"
  unfolding txn_def by (rule safe_stmtE) (metis safe_run snd_conv)

lemma pool_step_order:
  assumes "pool_step E c c'" and "I (fst c)" and "\<forall>p \<in> set (snd c). rg I R p (fst c)"
    and env: "\<And>s t. E s t \<Longrightarrow> I s \<Longrightarrow> I t \<and> R s t"
  shows "I (fst c') \<and> R (fst c) (fst c') \<and> (\<forall>p \<in> set (snd c'). rg I R p (fst c'))"
  using assms(1,2,3)
proof (cases rule: pool_step.cases)
  case (pool_prog i ps f s p' s')
  then have mem: "Atomic f \<in> set ps" by (metis nth_mem)
  with pool_prog assms(3) have "rg I R (Atomic f) s" by auto
  then have step: "I s'" "R s s'" "rg I R p' s'"
    using pool_prog(1,5) assms(2) by (auto simp: rg_Atomic ord_refl dest: spec [of _ s])
  have "rg I R p s'" if "p \<in> set (ps[i := p'])" for p
    using that set_update_subset_insert [of ps i p'] step assms(3) pool_prog(1)
    by (auto intro: rg_later)
  with pool_prog step show ?thesis by auto
next
  case (pool_env s s' ps)
  with assms(2,3) env [of s s'] show ?thesis by (auto intro: rg_later)
qed

lemma pool_steps_inv:
  assumes "pool_steps E c c'" and "I (fst c)" and "\<forall>p \<in> set (snd c). rg I R p (fst c)"
    and env: "\<And>s t. E s t \<Longrightarrow> I s \<Longrightarrow> I t \<and> R s t"
  shows "I (fst c') \<and> R (fst c) (fst c') \<and> (\<forall>p \<in> set (snd c'). rg I R p (fst c'))"
  using assms(1,2,3)
proof (induction rule: pool_steps.induct)
  case (pool_refl c)
  then show ?case by (simp add: ord_refl)
next
  case (pool_trans c c' c'')
  then have IH: "I (fst c')" "R (fst c) (fst c')" "\<forall>p \<in> set (snd c'). rg I R p (fst c')" by auto
  with pool_step_order [OF pool_trans.hyps(2) _ _ env] show ?case by (blast intro: ord_trans)
qed

lemma pool_steps_order:
  assumes "pool_steps E (s, ps) (s', ps')" and "I s" and "\<And>p. p \<in> set ps \<Longrightarrow> safe I R p"
    and "\<And>s t. E s t \<Longrightarrow> I s \<Longrightarrow> I t \<and> R s t"
  shows "I s' \<and> R s s'"
  using pool_steps_inv [OF assms(1)] assms(2,3,4) by (simp add: safeD)

end

end
