(* ===== verification/Schema.thy ===== *)
theory Schema
  imports Prog
begin

text \<open>
  The data model: the tables of \<open>src/drizzle/schema.ts\<close>, the requests and results of the
  storage interface, the errors it throws, and the functions and constants it takes from
  the packages \<open>@workflow/world\<close>, \<open>@workflow/errors\<close> and \<open>ulid\<close>, which are not part of the
  repository and are therefore fields of the parameter record \<open>world_sdk\<close>.

  A JavaScript object with optional properties is a record with \<open>option\<close> fields; \<open>None\<close> is
  \<open>undefined\<close> (or SQL \<open>NULL\<close>). Timestamps are milliseconds. Serialized values (\<open>input\<close>,
  \<open>output\<close>, \<open>error\<close>, \<open>metadata\<close>) are opaque blobs: the code stores and returns them.
\<close>

section \<open>Statuses and event types\<close>

datatype run_status = Run_pending | Run_running | Run_completed_st | Run_failed_st | Run_cancelled_st
datatype step_status = Step_pending | Step_running | Step_completed_st | Step_failed_st | Step_cancelled_st
datatype wait_status = Wait_waiting | Wait_completed_st

datatype event_type =
    Run_created | Run_started | Run_completed | Run_failed | Run_cancelled
  | Step_created | Step_started | Step_completed | Step_failed | Step_retrying
  | Hook_created | Hook_received | Hook_disposed | Hook_conflict
  | Wait_created | Wait_completed | Attr_set
  | Other_event string

datatype retention_class = Scheduled | Interactive | Persistent

datatype resolve_data = Resolve_all | Resolve_none | Resolve_skip_step_inputs

section \<open>Payloads\<close>

record start_hook =
  sh_token :: string
  sh_metadata :: "blob option"
  sh_tokenRetentionUntil :: "timestamp option"
  sh_hookId :: "string option"

record claimed_from =
  cf_runId :: run_id
  cf_hookId :: string
  cf_workflowName :: "string option"
  cf_deploymentId :: "string option"
  cf_runSpecVersion :: "int option"

type_synonym attributes = "(string \<times> string) list"
type_synonym attr_change = "string \<times> string option"

record event_data =
  ed_deploymentId :: "string option"
  ed_workflowName :: "string option"
  ed_input :: "blob option"
  ed_executionContext :: "blob option"
  ed_attributes :: "attributes option"
  ed_allowReservedAttributes :: bool
  ed_encryptionPublicKey :: "string option"
  ed_retentionClass :: "string option"
  ed_startHook :: "start_hook option"
  ed_output :: "blob option"
  ed_error :: "blob option"
  ed_errorCode :: "string option"
  ed_changes :: "attr_change list"
  ed_writerType :: "string option"
  ed_stepName :: "string option"
  ed_result :: "blob option"
  ed_retryAfter :: "timestamp option"
  ed_ownerMessageId :: "string option"
  ed_token :: "string option"
  ed_metadata :: "blob option"
  ed_isWebhook :: "bool option"
  ed_isSystem :: "bool option"
  ed_tokenRetentionUntil :: "timestamp option"
  ed_force :: bool
  ed_resumeAt :: "timestamp option"
  ed_forceClaimedBy :: "(run_id \<times> string) option"
  ed_forceClaimedFrom :: "claimed_from option"
  ed_conflictingRunId :: "run_id option"
  ed_forceRefusedReason :: "string option"

definition no_data :: event_data where
  "no_data = \<lparr>ed_deploymentId = None, ed_workflowName = None, ed_input = None,
     ed_executionContext = None, ed_attributes = None, ed_allowReservedAttributes = False,
     ed_encryptionPublicKey = None, ed_retentionClass = None, ed_startHook = None,
     ed_output = None, ed_error = None, ed_errorCode = None, ed_changes = [],
     ed_writerType = None, ed_stepName = None, ed_result = None, ed_retryAfter = None,
     ed_ownerMessageId = None, ed_token = None, ed_metadata = None, ed_isWebhook = None,
     ed_isSystem = None, ed_tokenRetentionUntil = None, ed_force = False, ed_resumeAt = None,
     ed_forceClaimedBy = None, ed_forceClaimedFrom = None, ed_conflictingRunId = None,
     ed_forceRefusedReason = None\<rparr>"

text \<open>\<open>AnyEventRequest\<close>: what a caller passes to \<open>events.create\<close>.\<close>

record event_req =
  rq_eventType :: event_type
  rq_correlationId :: "string option"
  rq_specVersion :: "int option"
  rq_eventData :: "event_data option"

text \<open>\<open>CreateEventParams\<close>.\<close>

record create_params =
  pa_inBand :: bool
  pa_expectedSeqInBand :: "int option"
  pa_occurredAt :: "timestamp option"
  pa_resolveData :: "resolve_data option"
  pa_eventCount :: "int option"
  pa_sinceCursor :: "event_id option"
  pa_skipPreload :: bool

definition no_params :: create_params where
  "no_params = \<lparr>pa_inBand = False, pa_expectedSeqInBand = None, pa_occurredAt = None,
     pa_resolveData = None, pa_eventCount = None, pa_sinceCursor = None, pa_skipPreload = False\<rparr>"

section \<open>Rows\<close>

record run_row =
  r_tenantId :: tenant_id
  r_runId :: run_id
  r_outputJson :: "blob option"
  r_output :: "blob option"
  r_deploymentId :: string
  r_status :: run_status
  r_workflowName :: string
  r_queueNamespace :: "string option"
  r_specVersion :: "int option"
  r_executionContextJson :: "blob option"
  r_executionContext :: "blob option"
  r_encryptionPublicKey :: "string option"
  r_inputJson :: "blob option"
  r_input :: "blob option"
  r_errorJson :: "string option"
  r_error :: "blob option"
  r_errorCode :: "string option"
  r_attributes :: attributes
  r_createdAt :: timestamp
  r_updatedAt :: timestamp
  r_completedAt :: "timestamp option"
  r_startedAt :: "timestamp option"
  r_retentionClass :: retention_class
  r_retentionRootRunId :: run_id
  r_startHook :: "start_hook option"

definition run_key :: "run_row \<Rightarrow> tenant_id \<times> run_id" where
  "run_key x = (r_tenantId x, r_runId x)"

record event_row =
  e_tenantId :: tenant_id
  e_eventId :: event_id
  e_eventType :: event_type
  e_correlationId :: "string option"
  e_createdAt :: timestamp
  e_runId :: run_id
  e_eventDataJson :: "event_data option"
  e_eventData :: "event_data option"
  e_specVersion :: "int option"

record slots_row =
  sl_tenantId :: tenant_id
  sl_runId :: run_id
  sl_seqInBand :: int

record step_row =
  s_tenantId :: tenant_id
  s_runId :: run_id
  s_stepId :: string
  s_stepName :: string
  s_status :: step_status
  s_inputJson :: "blob option"
  s_input :: "blob option"
  s_outputJson :: "blob option"
  s_output :: "blob option"
  s_errorJson :: "string option"
  s_error :: "blob option"
  s_attempt :: int
  s_startedAt :: "timestamp option"
  s_completedAt :: "timestamp option"
  s_createdAt :: timestamp
  s_updatedAt :: timestamp
  s_retryAfter :: "timestamp option"
  s_specVersion :: "int option"
  s_ownerMessageId :: "string option"

record hook_row =
  h_tenantId :: tenant_id
  h_runId :: run_id
  h_hookId :: string
  h_token :: string
  h_ownerId :: string
  h_projectId :: string
  h_environment :: string
  h_createdAt :: timestamp
  h_tokenRetentionUntil :: "timestamp option"
  h_metadataJson :: "blob option"
  h_metadata :: "blob option"
  h_specVersion :: "int option"
  h_isWebhook :: "bool option"
  h_isSystem :: "bool option"
  h_claimedFrom :: "claimed_from option"
  h_claimsToken :: bool

datatype admission_decision = Accepted | Rejected

record admission_row =
  a_tenantId :: tenant_id
  a_runId :: run_id
  a_token :: string
  a_decision :: admission_decision
  a_conflictingRunId :: "run_id option"
  a_createdAt :: timestamp

record wait_row =
  w_tenantId :: tenant_id
  w_waitId :: string
  w_runId :: run_id
  w_status :: wait_status
  w_resumeAt :: "timestamp option"
  w_completedAt :: "timestamp option"
  w_createdAt :: timestamp
  w_updatedAt :: timestamp
  w_specVersion :: "int option"

section \<open>Errors\<close>

text \<open>
  Every error is a value. The texts of the messages are left out; where one class of error
  is thrown for several reasons, the reason is an argument.
\<close>

datatype world_error =
    Hook_retention_too_long | Slots_exhausted run_id | Missing_expected_seq run_id
  | Invalid_run_id_timestamp string | Step_not_found string | Wait_not_found string
  | Event_not_found event_id | Start_hook_reserved string | Token_changed_owner run_id
  | Token_changed_owner_repeatedly string | Decided_meanwhile run_id | Token_mismatch run_id
  | Candidate_expired run_id | Bad_retention_limit

datatype admission_reason = Reason_invalid | Reason_expired | Reason_token_mismatch

datatype error =
    EntityConflictError
  | HookForceClaimedError string run_id string
  | HookNotFoundError string
  | HookConflictError string run_id
  | InBandSupersededError run_id int int
  | RunExpiredError run_id run_status
  | RunNotSupportedError "int option" int
  | TooEarlyError int
  | WorkflowRunNotFoundError run_id
  | WorkflowWorldError world_error "nat option" "admission_reason option"
  | AttributeValidationError
  | TypeError
  | PlainError
  | RangeError
  | ZodError
  | PgError string string
  | Owner_changed

section \<open>Ambient fence\<close>

text \<open>The value of the \<open>AsyncLocalStorage\<close> \<open>pendingFence\<close>.\<close>

record pending_fence =
  pf_tenantId :: tenant_id
  pf_runId :: run_id
  pf_expected :: int
  pf_occurredAt :: "timestamp option"
  pf_consumed :: bool

section \<open>The shared state\<close>

text \<open>
  The tables, the database clock (\<open>now()\<close>), the ambient fence of the running fenced
  transaction, and graphile's job table as far as \<open>deliveryInFlight\<close> reads it: the message
  id and lock time of each locked job, and whether the table can be read at all.
\<close>

record st =
  runs :: "run_row list"
  events :: "event_row list"
  eventSlots :: "slots_row list"
  steps :: "step_row list"
  hooks :: "hook_row list"
  waits :: "wait_row list"
  startHookAdmissions :: "admission_row list"
  db_now :: timestamp
  pendingFence :: "pending_fence option"
  graphile_jobs :: "(string \<times> timestamp) list"
  graphile_readable :: bool

definition empty_st :: st where
  "empty_st = \<lparr>runs = [], events = [], eventSlots = [], steps = [], hooks = [], waits = [],
     startHookAdmissions = [], db_now = 0, pendingFence = None, graphile_jobs = [],
     graphile_readable = True\<rparr>"

type_synonym 'a io = "(st, error, 'a) prog"

text \<open>What the environment does on its own: the clock advances, graphile locks and releases jobs.\<close>

inductive environment :: "st \<Rightarrow> st \<Rightarrow> bool" where
  tick: "0 \<le> d \<Longrightarrow> environment s (s\<lparr>db_now := db_now s + d\<rparr>)"
| graphile: "environment s (s\<lparr>graphile_jobs := js, graphile_readable := b\<rparr>)"

text \<open>An \<open>undefined\<close> value in drizzle's \<open>set\<close> leaves the column as it was.\<close>

definition set_col :: "'a option \<Rightarrow> 'a option \<Rightarrow> 'a option" where
  "set_col new old = (case new of None \<Rightarrow> old | Some x \<Rightarrow> Some x)"

section \<open>The functions and constants of other packages\<close>

record world_sdk =
  isTerminalWorkflowRunStatus :: "run_status \<Rightarrow> bool"
  TERMINAL_WORKFLOW_RUN_STATUSES :: "run_status list"
  isTerminalStepStatus :: "step_status \<Rightarrow> bool"
  TERMINAL_STEP_STATUSES :: "step_status list"
  isTerminalRunEventType :: "event_type \<Rightarrow> bool"
  isChildEntityCreationEvent :: "event_req \<Rightarrow> bool"
  isChildEntityCreationEventType :: "event_type \<Rightarrow> bool"
  isHookEventRequiringExistence :: "event_type \<Rightarrow> bool"
  isLegacySpecVersion :: "int option \<Rightarrow> bool"
  requiresNewerWorld :: "int option \<Rightarrow> bool"
  validateAttributeChanges :: "attr_change list \<Rightarrow> string list \<Rightarrow> bool \<Rightarrow> bool"
  validateUlidTimestamp :: "run_id \<Rightarrow> timestamp \<Rightarrow> string option"
  ulidToDate :: "string \<Rightarrow> timestamp option"
  startHookId :: "run_id \<Rightarrow> string"
  isStartHookId :: "run_id \<Rightarrow> string \<Rightarrow> bool"
  stripEventDataRefs :: "event_row \<Rightarrow> resolve_data \<Rightarrow> event_row"
  slotToEventId :: "nat \<Rightarrow> event_id"
  eventIdToSlot :: "event_id \<Rightarrow> nat option"
  EVENT_ID_PREFIX :: string
  EVENT_ID_BODY_LENGTH :: nat
  FIRST_EVENT_SLOT :: nat
  ATTRIBUTE_MAX_PER_RUN :: nat
  SPEC_VERSION_LEGACY :: int
  SPEC_VERSION_MAX_SUPPORTED :: int
  SPEC_VERSION_SINGLE_ORCHESTRATOR :: int
  SPEC_VERSION_SUPPORTS_HOOK_FORCE_CLAIM :: int
  START_HOOK_CANDIDATE_MAX_AGE_MS :: int
  sha256_hex :: "string \<Rightarrow> string"

text \<open>
  The arguments of \<open>createEventsStorage\<close> and what one call of \<open>create\<close> takes from its
  surroundings: the tenant, the queue namespace, the declared version, the two limits read
  from the environment variables, the process clock, a fresh ULID of each generator, and the
  retention intent of the asynchronous context.
\<close>

record ctx =
  sdk :: world_sdk
  tenantId :: tenant_id
  queueNamespace :: "string option"
  specVersion :: int
  hookRetentionLimitMs :: int
  maxEventsPerRun :: nat
  now :: timestamp
  fresh_ulid :: string
  legacyEventUlid :: string
  retention_intent :: "retention_class option"

text \<open>
  What the properties rely on in those packages, as predicates on the parameter record: the
  list of terminal statuses and the test for one agree and hold the three terminal statuses;
  a slot's event id is the prefix and the slot number padded to the fixed width, numbered
  from 1, and reads back as that slot; a legacy id (\<open>wevt_\<close> and a ULID) is no slot id.
\<close>

definition terminal_laws :: "world_sdk \<Rightarrow> bool" where
  "terminal_laws W \<longleftrightarrow>
     (\<forall>x. x \<in> set (TERMINAL_WORKFLOW_RUN_STATUSES W) \<longleftrightarrow> isTerminalWorkflowRunStatus W x) \<and>
     (\<forall>x. x \<in> set (TERMINAL_STEP_STATUSES W) \<longleftrightarrow> isTerminalStepStatus W x) \<and>
     (\<forall>x. isTerminalWorkflowRunStatus W x \<longleftrightarrow>
        x = Run_completed_st \<or> x = Run_failed_st \<or> x = Run_cancelled_st) \<and>
     (\<forall>x. isTerminalStepStatus W x \<longleftrightarrow>
        x = Step_completed_st \<or> x = Step_failed_st \<or> x = Step_cancelled_st)"

definition slot_id :: "world_sdk \<Rightarrow> nat \<Rightarrow> event_id" where
  "slot_id W n = EVENT_ID_PREFIX W @ lpad0 (EVENT_ID_BODY_LENGTH W) (dec n)"

definition slot_laws :: "world_sdk \<Rightarrow> bool" where
  "slot_laws W \<longleftrightarrow> 0 < EVENT_ID_BODY_LENGTH W \<and> FIRST_EVENT_SLOT W = 1 \<and>
     (\<forall>n < 10 ^ EVENT_ID_BODY_LENGTH W. slotToEventId W n = slot_id W n) \<and>
     (\<forall>n < 10 ^ EVENT_ID_BODY_LENGTH W. eventIdToSlot W (slot_id W n) = Some n) \<and>
     (\<forall>u n. slot_id W n \<noteq> ''wevt_'' @ u)"

text \<open>A concrete record with the documented values, at which properties are exercised.\<close>

definition example_sdk :: world_sdk where
  "example_sdk = \<lparr>
     isTerminalWorkflowRunStatus = (\<lambda>x. x = Run_completed_st \<or> x = Run_failed_st \<or> x = Run_cancelled_st),
     TERMINAL_WORKFLOW_RUN_STATUSES = [Run_completed_st, Run_failed_st, Run_cancelled_st],
     isTerminalStepStatus = (\<lambda>x. x = Step_completed_st \<or> x = Step_failed_st \<or> x = Step_cancelled_st),
     TERMINAL_STEP_STATUSES = [Step_completed_st, Step_failed_st, Step_cancelled_st],
     isTerminalRunEventType = (\<lambda>t. t = Run_completed \<or> t = Run_failed \<or> t = Run_cancelled),
     isChildEntityCreationEvent = (\<lambda>q. rq_eventType q = Step_created \<or> rq_eventType q = Hook_created \<or>
        rq_eventType q = Wait_created \<or> rq_eventType q = Step_started \<and>
          (case rq_eventData q of None \<Rightarrow> False
           | Some d \<Rightarrow> ed_stepName d \<noteq> None \<and> ed_input d \<noteq> None)),
     isChildEntityCreationEventType = (\<lambda>t. t = Step_created \<or> t = Hook_created \<or> t = Wait_created),
     isHookEventRequiringExistence = (\<lambda>t. t = Hook_received \<or> t = Hook_disposed),
     isLegacySpecVersion = (\<lambda>v. case v of None \<Rightarrow> True | Some n \<Rightarrow> n < 2),
     requiresNewerWorld = (\<lambda>v. case v of None \<Rightarrow> False | Some n \<Rightarrow> 9 < n),
     validateAttributeChanges = (\<lambda>ch ks b. True),
     validateUlidTimestamp = (\<lambda>i t. None),
     ulidToDate = (\<lambda>u. None),
     startHookId = (\<lambda>r. r @ ''-start''),
     isStartHookId = (\<lambda>r h. h = r @ ''-start''),
     stripEventDataRefs = (\<lambda>e rd. e),
     slotToEventId = (\<lambda>n. ''evnt_'' @ lpad0 4 (dec n)),
     eventIdToSlot = (\<lambda>i. if take 5 i = ''evnt_'' then undec (drop 5 i) else None),
     EVENT_ID_PREFIX = ''evnt_'',
     EVENT_ID_BODY_LENGTH = 4,
     FIRST_EVENT_SLOT = 1,
     ATTRIBUTE_MAX_PER_RUN = 64,
     SPEC_VERSION_LEGACY = 1,
     SPEC_VERSION_MAX_SUPPORTED = 9,
     SPEC_VERSION_SINGLE_ORCHESTRATOR = 9,
     SPEC_VERSION_SUPPORTS_HOOK_FORCE_CLAIM = 8,
     START_HOOK_CANDIDATE_MAX_AGE_MS = 86400000,
     sha256_hex = (\<lambda>x. ''00000000'')\<rparr>"

definition example_ctx :: ctx where
  "example_ctx = \<lparr>sdk = example_sdk, tenantId = ''t'', queueNamespace = None, specVersion = 8,
     hookRetentionLimitMs = 2592000000, maxEventsPerRun = 25000, now = 1000, fresh_ulid = ''u'',
     legacyEventUlid = ''l'', retention_intent = None\<rparr>"

lemma example_terminal_laws: "terminal_laws example_sdk"
  by (auto simp: terminal_laws_def example_sdk_def)

lemma example_slot_laws: "slot_laws example_sdk"
proof -
  have "undec (lpad0 4 (dec n)) = Some n" if "n < 10 ^ 4" for n
    using that by (rule undec_lpad0_dec [rotated]) simp
  then show ?thesis by (auto simp: slot_laws_def slot_id_def example_sdk_def)
qed

lemma example_ctx_simps [simp]:
  "sdk example_ctx = example_sdk" "tenantId example_ctx = ''t''" "now example_ctx = 1000"
  "specVersion example_ctx = 8" "queueNamespace example_ctx = None"
  by (simp_all add: example_ctx_def)

end
