(* ===== verification/Slots.thy ===== *)
theory Slots
  imports Schema
begin

text \<open>
  The event log's identities (\<open>src/storage.ts\<close>, from \<open>pgErrorOf\<close> to
  \<open>insertRunWithCreatedEvent\<close>, with \<open>src/tenant.ts\<close>): slot numbers, the insert that retries
  slot collisions, the in-band writer fence, and the creation of a run together with its
  \<open>run_created\<close> event.

  \<open>INSERT\<close> of a slot-numbered event reads the highest slot and writes the next one in one
  SQL statement; under READ COMMITTED another writer can commit between the statement's
  snapshot and its write, in which case the primary key conflicts and the code tries again.
  The model keeps the two halves apart (\<open>nextSlotId\<close>, \<open>insert_event_stmt\<close>), so collisions
  happen in interleaved runs as they do in the database.
\<close>

section \<open>Tenants (src/tenant.ts)\<close>

definition safe_char :: "char \<Rightarrow> bool" where
  "safe_char ch = (let n = (of_char ch :: nat) in
     (97 \<le> n \<and> n \<le> 122) \<or> (48 \<le> n \<and> n \<le> 57) \<or> n = 95)"

definition lower_char :: "char \<Rightarrow> char" where
  "lower_char ch = (let n = (of_char ch :: nat) in if 65 \<le> n \<and> n \<le> 90 then char_of (n + 32) else ch)"

definition derivePartitionName :: "world_sdk \<Rightarrow> string \<Rightarrow> tenant_id \<Rightarrow> string" where
  "derivePartitionName W table t =
     (let safe = take 24 (map (\<lambda>ch. if safe_char ch then ch else CHR ''_'') (map lower_char t));
          digest = take 8 (sha256_hex W t)
      in table @ ''_t_'' @ safe @ ''_'' @ digest)"

definition tenant_char :: "char \<Rightarrow> bool" where
  "tenant_char ch = (let n = (of_char ch :: nat) in
     (97 \<le> n \<and> n \<le> 122) \<or> (65 \<le> n \<and> n \<le> 90) \<or> (48 \<le> n \<and> n \<le> 57) \<or> n = 95 \<or> n = 45)"

definition assertValidTenantId :: "tenant_id \<Rightarrow> error + unit" where
  "assertValidTenantId t =
     (if length t = 0 \<or> 128 < length t then Inl PlainError
      else if \<not> list_all tenant_char t then Inl PlainError
      else Inr ())"

definition tenantStreamChannel :: "world_sdk \<Rightarrow> tenant_id \<Rightarrow> string" where
  "tenantStreamChannel W t = derivePartitionName W ''wf_stream'' t"

definition dedupIndexName :: "world_sdk \<Rightarrow> tenant_id \<Rightarrow> string" where
  "dedupIndexName W t = derivePartitionName W ''wf_events_dedup'' t"

section \<open>Unique violations\<close>

definition HOOK_TOKEN_CLAIM_UNIQUE :: string where
  "HOOK_TOKEN_CLAIM_UNIQUE = ''workflow_hooks_token_claim_unique''"

definition isHookTokenClaimViolation :: "error \<Rightarrow> bool" where
  "isHookTokenClaimViolation e =
     (case e of PgError code constraint \<Rightarrow> code = ''23505'' \<and> constraint = HOOK_TOKEN_CLAIM_UNIQUE
      | _ \<Rightarrow> False)"

definition isCorrelatedEventUniqueViolation :: "world_sdk \<Rightarrow> string \<Rightarrow> tenant_id \<Rightarrow> bool" where
  "isCorrelatedEventUniqueViolation W constraint t =
     (constraint \<noteq> [] \<and>
      (constraint = ''workflow_events_entity_creation_unique'' \<or> constraint = dedupIndexName W t))"

definition is_correlated_violation :: "ctx \<Rightarrow> error \<Rightarrow> bool" where
  "is_correlated_violation c e =
     (case e of PgError code constraint \<Rightarrow>
        code = ''23505'' \<and> isCorrelatedEventUniqueViolation (sdk c) constraint (tenantId c)
      | _ \<Rightarrow> False)"

section \<open>Slots\<close>

definition SLOT_INSERT_MAX_ATTEMPTS :: nat where "SLOT_INSERT_MAX_ATTEMPTS = 40"

definition of_run :: "tenant_id \<Rightarrow> run_id \<Rightarrow> event_row \<Rightarrow> bool" where
  "of_run t r e \<longleftrightarrow> e_tenantId e = t \<and> e_runId e = r"

definition run_ids :: "tenant_id \<Rightarrow> run_id \<Rightarrow> st \<Rightarrow> event_id list" where
  "run_ids t r s = map e_eventId (filter (of_run t r) (events s))"

definition slotted :: "tenant_id \<Rightarrow> run_id \<Rightarrow> st \<Rightarrow> bool" where
  "slotted t r s = has_row (\<lambda>q. sl_tenantId q = t \<and> sl_runId q = r) (eventSlots s)"

definition nextSlotId :: "ctx \<Rightarrow> run_id \<Rightarrow> st \<Rightarrow> error + event_id" where
  "nextSlotId c r s =
     (let W = sdk c in
      case max_list (run_ids (tenantId c) r s) of
        None \<Rightarrow> Inr (EVENT_ID_PREFIX W @ lpad0 (EVENT_ID_BODY_LENGTH W) (dec (FIRST_EVENT_SLOT W)))
      | Some m \<Rightarrow>
          (case undec (drop (length (EVENT_ID_PREFIX W)) m) of
             None \<Rightarrow> Inl (PgError ''22P02'' [])
           | Some n \<Rightarrow> Inr (EVENT_ID_PREFIX W @ lpad0 (EVENT_ID_BODY_LENGTH W) (dec (n + 1)))))"

datatype id_source = Fixed_id event_id | Next_slot

definition allocateEventId :: "ctx \<Rightarrow> run_id \<Rightarrow> id_source io" where
  "allocateEventId c r = query (\<lambda>s. if slotted (tenantId c) r s then Next_slot
                                    else Fixed_id (''wevt_'' @ legacyEventUlid c))"

section \<open>The in-band fence\<close>

definition advanceFence :: "pending_fence \<Rightarrow> unit io" where
  "advanceFence f =
     (let mine = (\<lambda>q. sl_tenantId q = pf_tenantId f \<and> sl_runId q = pf_runId f);
          hit = (\<lambda>q. mine q \<and> sl_seqInBand q = pf_expected f)
      in bindP (stmt (\<lambda>s. (has_row hit (eventSlots s),
              s\<lparr>eventSlots := update_where hit (\<lambda>q. q\<lparr>sl_seqInBand := sl_seqInBand q + 1\<rparr>) (eventSlots s)\<rparr>)))
          (\<lambda>advanced. if advanced then Ret ()
             else bindP (query (\<lambda>s. find mine (eventSlots s)))
               (\<lambda>current. case current of
                  None \<Rightarrow> Ret ()
                | Some q \<Rightarrow> Throw (InBandSupersededError (pf_runId f) (pf_expected f) (sl_seqInBand q)))))"

section \<open>Inserting an event\<close>

text \<open>
  The unique index on child-entity creations and attribute writes
  (\<open>workflow_events_entity_creation_unique\<close>); a NULL correlation id conflicts with nothing.
\<close>

definition dedup_type :: "event_type \<Rightarrow> bool" where
  "dedup_type ty \<longleftrightarrow> ty = Step_created \<or> ty = Hook_created \<or> ty = Wait_created \<or> ty = Attr_set"

definition same_event_key :: "event_row \<Rightarrow> event_row \<Rightarrow> bool" where
  "same_event_key e q \<longleftrightarrow>
     e_tenantId q = e_tenantId e \<and> e_runId q = e_runId e \<and> e_eventId q = e_eventId e"

definition same_correlation :: "event_row \<Rightarrow> event_row \<Rightarrow> bool" where
  "same_correlation e q \<longleftrightarrow> dedup_type (e_eventType e) \<and> e_correlationId e \<noteq> None \<and>
     e_tenantId q = e_tenantId e \<and> e_runId q = e_runId e \<and>
     e_correlationId q = e_correlationId e \<and> e_eventType q = e_eventType e"

definition insert_event_stmt ::
  "world_sdk \<Rightarrow> event_row \<Rightarrow> st \<Rightarrow> (error + (event_id \<times> timestamp) option) \<times> st" where
  "insert_event_stmt W e s =
     (if has_row (same_event_key e) (events s) then (Inr None, s)
      else if has_row (same_correlation e) (events s)
        then (Inl (PgError ''23505'' (dedupIndexName W (e_tenantId e))), s)
      else (Inr (Some (e_eventId e, e_createdAt e)), s\<lparr>events := events s @ [e]\<rparr>))"

text \<open>\<open>createdAt\<close> is the column's default \<open>now()\<close> unless the write carries one.\<close>

definition stamp :: "event_row \<Rightarrow> event_id \<Rightarrow> timestamp option \<Rightarrow> st \<Rightarrow> event_row" where
  "stamp vals i occurred s =
     vals\<lparr>e_eventId := i, e_createdAt := (case occurred of None \<Rightarrow> db_now s | Some t \<Rightarrow> t)\<rparr>"

definition consume_fence :: "pending_fence \<Rightarrow> unit io" where
  "consume_fence f =
     bindP (exec (\<lambda>s. s\<lparr>pendingFence := Some (f\<lparr>pf_consumed := True\<rparr>)\<rparr>)) (\<lambda>_. advanceFence f)"

fun insert_slot_attempts ::
  "ctx \<Rightarrow> event_row \<Rightarrow> pending_fence option \<Rightarrow> nat \<Rightarrow> (event_id \<times> timestamp) option io" where
  "insert_slot_attempts c vals fence 0 =
     Throw (WorkflowWorldError (Slots_exhausted (e_runId vals)) (Some 503) None)"
| "insert_slot_attempts c vals fence (Suc n) =
     bindP (query (nextSlotId c (e_runId vals)))
       (\<lambda>next. case next of
          Inl e \<Rightarrow> Throw e
        | Inr i \<Rightarrow>
            bindP (stmtE (\<lambda>s. insert_event_stmt (sdk c)
                     (stamp vals i (Option.bind fence pf_occurredAt) s) s))
              (\<lambda>row. case row of
                 Some x \<Rightarrow>
                   (case fence of None \<Rightarrow> Ret (Some x)
                    | Some f \<Rightarrow> bindP (consume_fence f) (\<lambda>_. Ret (Some x)))
               | None \<Rightarrow> insert_slot_attempts c vals fence n))"

definition insertEventRow :: "ctx \<Rightarrow> event_row \<Rightarrow> id_source \<Rightarrow> (event_id \<times> timestamp) option io" where
  "insertEventRow c vals src =
     (case src of
        Fixed_id i \<Rightarrow> stmtE (\<lambda>s. insert_event_stmt (sdk c) (stamp vals i None s) s)
      | Next_slot \<Rightarrow>
          bindP (query pendingFence)
            (\<lambda>store. let fence = (case store of
                        None \<Rightarrow> None
                      | Some f \<Rightarrow> if \<not> pf_consumed f \<and> pf_tenantId f = e_tenantId vals \<and>
                                     pf_runId f = e_runId vals then Some f else None)
               in insert_slot_attempts c vals fence (Suc SLOT_INSERT_MAX_ATTEMPTS)))"

text \<open>The values object of an event insert.\<close>

definition event_values ::
  "ctx \<Rightarrow> run_id \<Rightarrow> string option \<Rightarrow> event_type \<Rightarrow> event_data option \<Rightarrow> int option \<Rightarrow> event_row" where
  "event_values c r cid ty d v =
     \<lparr>e_tenantId = tenantId c, e_eventId = [], e_eventType = ty, e_correlationId = cid,
      e_createdAt = 0, e_runId = r, e_eventDataJson = None, e_eventData = d, e_specVersion = v\<rparr>"

text \<open>
  \<open>insertEventRow(db, {..., eventId: await allocateEventId(...)})\<close>: how every handler appends
  an event to a run's log.
\<close>

definition write_event ::
  "ctx \<Rightarrow> run_id \<Rightarrow> string option \<Rightarrow> event_type \<Rightarrow> event_data option \<Rightarrow> int option \<Rightarrow>
   (event_id \<times> timestamp) option io" where
  "write_event c r cid ty d v =
     bindP (allocateEventId c r) (\<lambda>src. insertEventRow c (event_values c r cid ty d v) src)"

section \<open>Creating a run with its first event\<close>

definition openEventSlots :: "ctx \<Rightarrow> run_id \<Rightarrow> event_id io" where
  "openEventSlots c r =
     bindP (exec (\<lambda>s. s\<lparr>eventSlots := insert_unless (\<lambda>q. sl_tenantId q = tenantId c \<and> sl_runId q = r)
              \<lparr>sl_tenantId = tenantId c, sl_runId = r, sl_seqInBand = 1\<rparr> (eventSlots s)\<rparr>))
       (\<lambda>_. Ret (slotToEventId (sdk c) (FIRST_EVENT_SLOT (sdk c))))"

definition same_run_key :: "run_row \<Rightarrow> run_row \<Rightarrow> bool" where
  "same_run_key r q \<longleftrightarrow> r_tenantId q = r_tenantId r \<and> r_runId q = r_runId r"

text \<open>The plain \<open>INSERT\<close> of the \<open>run_created\<close> event raises on a taken primary key.\<close>

definition insert_created_stmt :: "world_sdk \<Rightarrow> event_row \<Rightarrow> st \<Rightarrow> (error + timestamp) \<times> st" where
  "insert_created_stmt W e s =
     (case insert_event_stmt W e s of
        (Inl err, s') \<Rightarrow> (Inl err, s')
      | (Inr None, s') \<Rightarrow> (Inl (PgError ''23505'' ''workflow_events_pkey''), s')
      | (Inr (Some (i, at)), s') \<Rightarrow> (Inr at, s'))"

definition insert_created_event ::
  "ctx \<Rightarrow> run_row \<Rightarrow> event_data \<Rightarrow> int option \<Rightarrow> (event_id \<times> timestamp) io" where
  "insert_created_event c row d v =
     bindP (openEventSlots c (r_runId row)) (\<lambda>eid.
     bindP (stmtE (\<lambda>s. insert_created_stmt (sdk c)
              (stamp (event_values c (r_runId row) None Run_created (Some d) v) eid None s) s))
       (\<lambda>at. Ret (eid, at)))"

definition insert_run_stmt :: "run_row \<Rightarrow> st \<Rightarrow> run_row option \<times> st" where
  "insert_run_stmt row s =
     (if has_row (same_run_key row) (runs s) then (None, s) else (Some row, s\<lparr>runs := runs s @ [row]\<rparr>))"

text \<open>
  \<open>admit\<close> decides inside the transaction whether to create the run; its closure also leaves
  the decision it made in a variable of the caller, which is the second component here.
\<close>

definition insertRunWithCreatedEvent ::
  "ctx \<Rightarrow> (st \<Rightarrow> run_row) \<Rightarrow> event_data \<Rightarrow> int option \<Rightarrow> (bool \<times> 'd) io option \<Rightarrow>
   ((run_row \<times> event_id \<times> timestamp) option \<times> 'd option) io" where
  "insertRunWithCreatedEvent c runValues d v admit = txn (
     bindP (case admit of None \<Rightarrow> Ret (True, None)
            | Some a \<Rightarrow> bindP a (\<lambda>(b, x). Ret (b, Some x)))
       (\<lambda>(admitted, decided). if \<not> admitted then Ret (None, decided) else
          bindP (stmt (\<lambda>s. insert_run_stmt (runValues s) s))
            (\<lambda>ins. case ins of
               None \<Rightarrow> Ret (None, decided)
             | Some row \<Rightarrow> bindP (insert_created_event c row d v)
                 (\<lambda>(eid, at). Ret (Some (row, eid, at), decided)))))"

end
