(* ===== verification/Start_Hook.thy ===== *)
theory Start_Hook
  imports Slots
begin

text \<open>
  Atomic start Hook admission (\<open>src/start-hook.ts\<close>), and the hook statements it shares with
  \<open>events.create\<close>: which hooks hold their token, the unique claim of a token, the release of
  an ended owner's token.
\<close>

section \<open>Who holds a token\<close>

definition owner_run_is_terminal :: "ctx \<Rightarrow> st \<Rightarrow> hook_row \<Rightarrow> bool" where
  "owner_run_is_terminal c s h =
     has_row (\<lambda>r. r_tenantId r = tenantId c \<and> r_runId r = h_runId h \<and>
       r_status r \<in> set (TERMINAL_WORKFLOW_RUN_STATUSES (sdk c))) (runs s)"

text \<open>\<open>tokenRetentionUntil > now()\<close>, false on NULL.\<close>

definition retained :: "st \<Rightarrow> hook_row \<Rightarrow> bool" where
  "retained s h = (case h_tokenRetentionUntil h of None \<Rightarrow> False | Some u \<Rightarrow> db_now s < u)"

text \<open>\<open>hookRetentionEnded\<close>: NULL or \<open>tokenRetentionUntil <= now()\<close>.\<close>

definition hookRetentionEnded :: "st \<Rightarrow> hook_row \<Rightarrow> bool" where
  "hookRetentionEnded s h = (case h_tokenRetentionUntil h of None \<Rightarrow> True | Some u \<Rightarrow> u \<le> db_now s)"

text \<open>\<open>available\<close>: retained, or the owning run is not terminal.\<close>

definition available :: "ctx \<Rightarrow> st \<Rightarrow> hook_row \<Rightarrow> bool" where
  "available c s h \<longleftrightarrow> retained s h \<or> \<not> owner_run_is_terminal c s h"

text \<open>
  \<open>hookTokenEquals\<close> compares an md5 digest and the token itself; the conjunction is equality
  of the tokens.
\<close>

definition hookTokenEquals :: "ctx \<Rightarrow> string \<Rightarrow> hook_row \<Rightarrow> bool" where
  "hookTokenEquals c token h \<longleftrightarrow> h_tenantId h = tenantId c \<and> h_token h = token"

section \<open>Statements on the hooks table\<close>

definition same_hook_id :: "hook_row \<Rightarrow> hook_row \<Rightarrow> bool" where
  "same_hook_id h q \<longleftrightarrow> h_tenantId q = h_tenantId h \<and> h_hookId q = h_hookId h"

definition same_claim :: "hook_row \<Rightarrow> hook_row \<Rightarrow> bool" where
  "same_claim h q \<longleftrightarrow> h_claimsToken h \<and> h_claimsToken q \<and> h_tenantId q = h_tenantId h \<and>
     h_token q = h_token h"

text \<open>
  \<open>INSERT INTO hooks ... ON CONFLICT (tenant_id, hook_id) DO NOTHING\<close>: a second row of the
  same id is skipped, a second claim of the token raises.
\<close>

definition insert_hook_stmt :: "hook_row \<Rightarrow> st \<Rightarrow> (error + hook_row option) \<times> st" where
  "insert_hook_stmt h s =
     (if has_row (same_hook_id h) (hooks s) then (Inr None, s)
      else if has_row (same_claim h) (hooks s) then (Inl (PgError ''23505'' HOOK_TOKEN_CLAIM_UNIQUE), s)
      else (Inr (Some h), s\<lparr>hooks := hooks s @ [h]\<rparr>))"

text \<open>A plain \<open>INSERT\<close> raises on a taken id as well.\<close>

definition insert_hook_strict_stmt :: "hook_row \<Rightarrow> st \<Rightarrow> (error + hook_row option) \<times> st" where
  "insert_hook_strict_stmt h s =
     (if has_row (same_hook_id h) (hooks s) then (Inl (PgError ''23505'' ''workflow_hooks_pkey''), s)
      else insert_hook_stmt h s)"

text \<open>\<open>ON CONFLICT DO NOTHING\<close> without a target skips every conflict.\<close>

definition insert_hook_lenient_stmt :: "hook_row \<Rightarrow> st \<Rightarrow> hook_row option \<times> st" where
  "insert_hook_lenient_stmt h s =
     (if has_row (\<lambda>q. same_hook_id h q \<or> same_claim h q) (hooks s) then (None, s)
      else (Some h, s\<lparr>hooks := hooks s @ [h]\<rparr>))"

definition release_ended_token :: "ctx \<Rightarrow> string \<Rightarrow> st \<Rightarrow> st" where
  "release_ended_token c token s =
     s\<lparr>hooks := delete_where (\<lambda>h. hookTokenEquals c token h \<and> owner_run_is_terminal c s h \<and>
        hookRetentionEnded s h) (hooks s)\<rparr>"

section \<open>Admission\<close>

datatype start_hook_decision =
    Decided_accepted bool  \<comment> \<open>whether it was replayed\<close>
  | Decided_rejected run_id
  | Decided_ordinary

definition admittedStartHook :: "world_sdk \<Rightarrow> run_id \<Rightarrow> start_hook \<Rightarrow> start_hook" where
  "admittedStartHook W r h = h\<lparr>sh_hookId := Some (startHookId W r)\<rparr>"

definition runStartHook :: "world_sdk \<Rightarrow> run_id \<Rightarrow> start_hook \<Rightarrow> start_hook" where
  "runStartHook W r h = h\<lparr>sh_metadata := None, sh_hookId := Some (startHookId W r)\<rparr>"

definition assertStartHookAdmissible :: "ctx \<Rightarrow> start_hook \<Rightarrow> unit io" where
  "assertStartHookAdmissible c h =
     (case sh_tokenRetentionUntil h of
        None \<Rightarrow> Ret ()
      | Some u \<Rightarrow> throw_if (now c + hookRetentionLimitMs c < u)
          (WorkflowWorldError Hook_retention_too_long (Some 400) (Some Reason_invalid)))"

definition startHookCandidateExpired :: "run_id \<Rightarrow> error" where
  "startHookCandidateExpired r =
     WorkflowWorldError (Candidate_expired r) (Some 400) (Some Reason_expired)"

definition startHookConflict :: "start_hook \<Rightarrow> run_id \<Rightarrow> error" where
  "startHookConflict h r = HookConflictError (sh_token h) r"

definition same_admission :: "ctx \<Rightarrow> run_id \<Rightarrow> admission_row \<Rightarrow> bool" where
  "same_admission c r a \<longleftrightarrow> a_tenantId a = tenantId c \<and> a_runId a = r"

definition recordedDecision :: "ctx \<Rightarrow> run_id \<Rightarrow> start_hook \<Rightarrow> start_hook_decision option io" where
  "recordedDecision c r h =
     bindP (query (\<lambda>s. find (same_admission c r) (startHookAdmissions s)))
       (\<lambda>existing. case existing of
          None \<Rightarrow> Ret None
        | Some a \<Rightarrow>
            if a_token a \<noteq> sh_token h
            then Throw (WorkflowWorldError (Token_mismatch r) (Some 400) (Some Reason_token_mismatch))
            else Ret (Some (case a_decision a of
                Accepted \<Rightarrow> Decided_accepted True
              | Rejected \<Rightarrow> Decided_rejected
                  (case a_conflictingRunId a of None \<Rightarrow> [] | Some x \<Rightarrow> x))))"

definition recordDecision ::
  "ctx \<Rightarrow> run_id \<Rightarrow> start_hook \<Rightarrow> admission_decision \<Rightarrow> run_id option \<Rightarrow> start_hook_decision \<Rightarrow>
   start_hook_decision io" where
  "recordDecision c r h d conflicting decided =
     bindP (stmt (\<lambda>s. if has_row (same_admission c r) (startHookAdmissions s) then (False, s)
               else (True, s\<lparr>startHookAdmissions := startHookAdmissions s @
                 [\<lparr>a_tenantId = tenantId c, a_runId = r, a_token = sh_token h, a_decision = d,
                   a_conflictingRunId = conflicting, a_createdAt = db_now s\<rparr>]\<rparr>)))
       (\<lambda>inserted. if inserted then Ret decided
          else bindP (recordedDecision c r h)
            (\<lambda>recorded. let again = Throw (WorkflowWorldError (Decided_meanwhile r) (Some 503) None) in
               case recorded of
                 None \<Rightarrow> again
               | Some x \<Rightarrow>
                   (case x of Decided_accepted b \<Rightarrow> Ret x
                    | _ \<Rightarrow> if d = Accepted then again else Ret x)))"

text \<open>
  \<open>delete from ... where (tenant, run) in (select ... where created_at < cutoff limit 100)\<close>:
  across tenants, at most 100 rows.
\<close>

definition deleteExpiredDecisions :: "ctx \<Rightarrow> unit io" where
  "deleteExpiredDecisions c =
     exec (\<lambda>s. let cutoff = now c - START_HOOK_CANDIDATE_MAX_AGE_MS (sdk c) - 60 * 60 * 1000;
                   batch = take 100 (filter (\<lambda>a. a_createdAt a < cutoff) (startHookAdmissions s));
                   keys = map (\<lambda>a. (a_tenantId a, a_runId a)) batch
               in s\<lparr>startHookAdmissions :=
                     delete_where (\<lambda>a. (a_tenantId a, a_runId a) \<in> set keys) (startHookAdmissions s)\<rparr>)"

definition findActiveTokenOwner :: "ctx \<Rightarrow> run_id \<Rightarrow> start_hook \<Rightarrow> run_id option io" where
  "findActiveTokenOwner c r h =
     query (\<lambda>s. map_option h_runId (find (\<lambda>q. hookTokenEquals c (sh_token h) q \<and> h_runId q \<noteq> r \<and>
        available c s q) (hooks s)))"

definition start_hook_row :: "ctx \<Rightarrow> run_id \<Rightarrow> start_hook \<Rightarrow> int \<Rightarrow> st \<Rightarrow> hook_row" where
  "start_hook_row c r h v s =
     \<lparr>h_tenantId = tenantId c, h_runId = r, h_hookId = startHookId (sdk c) r, h_token = sh_token h,
      h_ownerId = [], h_projectId = [], h_environment = [], h_createdAt = db_now s,
      h_tokenRetentionUntil = sh_tokenRetentionUntil h, h_metadataJson = None,
      h_metadata = sh_metadata h, h_specVersion = Some v, h_isWebhook = Some False,
      h_isSystem = Some False, h_claimedFrom = None, h_claimsToken = True\<rparr>"

text \<open>\<open>runId.replace(/^wrun_/, "")\<close>.\<close>

definition strip_wrun :: "run_id \<Rightarrow> string" where
  "strip_wrun r = (if take 5 r = ''wrun_'' then drop 5 r else r)"

definition candidate_expired :: "ctx \<Rightarrow> run_id \<Rightarrow> bool" where
  "candidate_expired c r =
     (case ulidToDate (sdk c) (strip_wrun r) of None \<Rightarrow> False
      | Some t \<Rightarrow> START_HOOK_CANDIDATE_MAX_AGE_MS (sdk c) < now c - t)"

definition decideStartHookAdmission ::
  "ctx \<Rightarrow> run_id \<Rightarrow> start_hook \<Rightarrow> int \<Rightarrow> start_hook_decision io" where
  "decideStartHookAdmission c r h v =
     bindP (recordedDecision c r h) (\<lambda>recorded. case recorded of
       Some d \<Rightarrow> Ret d
     | None \<Rightarrow>
       bindP (throw_if (candidate_expired c r) (startHookCandidateExpired r)) (\<lambda>_.
       bindP (query (\<lambda>s. has_row (\<lambda>q. r_tenantId q = tenantId c \<and> r_runId q = r) (runs s))) (\<lambda>exists.
       if exists then Ret Decided_ordinary else
       bindP (deleteExpiredDecisions c) (\<lambda>_.
       bindP (exec (release_ended_token c (sh_token h))) (\<lambda>_.
       bindP (findActiveTokenOwner c r h) (\<lambda>owner.
       bindP (case owner of Some o' \<Rightarrow> Ret None
              | None \<Rightarrow> stmt (\<lambda>s. insert_hook_lenient_stmt (start_hook_row c r h v s) s)) (\<lambda>row.
       case row of
         Some x \<Rightarrow> recordDecision c r h Accepted None (Decided_accepted False)
       | None \<Rightarrow>
           bindP (recordedDecision c r h) (\<lambda>raced. case raced of
             Some d \<Rightarrow> Ret d
           | None \<Rightarrow>
               bindP (case owner of Some o' \<Rightarrow> Ret (Some o') | None \<Rightarrow> findActiveTokenOwner c r h) (\<lambda>conf.
               case conf of
                 None \<Rightarrow> Throw (WorkflowWorldError (Token_changed_owner r) (Some 503) None)
               | Some o' \<Rightarrow> recordDecision c r h Rejected (Some o') (Decided_rejected o'))))))))))"

end
