(* ===== verification/Retention_Policy.thy ===== *)
theory Retention_Policy
  imports Schema
begin

text \<open>
  Run retention: the classes and deadlines of \<open>src/run-retention-policy.ts\<close> and the
  resolution of a new run's class and lineage of \<open>src/run-retention-resolution.ts\<close>.
  The ancestor lookup is an argument, as it is in the source.
\<close>

definition RUN_RETENTION_ATTRIBUTE :: string where
  "RUN_RETENTION_ATTRIBUTE = ''workflow-world.retention-class''"

definition ROOT_RUN_ID_ATTRIBUTE :: string where "ROOT_RUN_ID_ATTRIBUTE = ''$rootRunId''"
definition PARENT_RUN_ID_ATTRIBUTE :: string where "PARENT_RUN_ID_ATTRIBUTE = ''$parentRunId''"

definition MINUTE_MS :: int where "MINUTE_MS = 60 * 1000"
definition DAY_MS :: int where "DAY_MS = 24 * 60 * MINUTE_MS"

text \<open>\<open>attributes?.[key]\<close>.\<close>

definition attr_lookup :: "attributes option \<Rightarrow> string \<Rightarrow> string option" where
  "attr_lookup attrs k = (case attrs of None \<Rightarrow> None | Some xs \<Rightarrow> map_of xs k)"

definition resolveRunRetentionClass :: "string option \<Rightarrow> attributes option \<Rightarrow> error + retention_class" where
  "resolveRunRetentionClass v attrs =
     (let selected = (case v of Some x \<Rightarrow> x
        | None \<Rightarrow> (case attr_lookup attrs RUN_RETENTION_ATTRIBUTE of Some x \<Rightarrow> x | None \<Rightarrow> ''interactive''))
      in if selected = ''scheduled'' \<or> selected = ''ephemeral'' then Inr Scheduled
         else if selected = ''interactive'' then Inr Interactive
         else if selected = ''persistent'' then Inr Persistent
         else Inl TypeError)"

datatype terminal_status = Terminal_completed | Terminal_failed | Terminal_cancelled

record deadlines =
  compactAfter :: "timestamp option"
  expireAfter :: "timestamp option"
  detailExpireAfter :: "timestamp option"

definition retentionDeadlines :: "retention_class \<Rightarrow> terminal_status \<Rightarrow> timestamp \<Rightarrow> deadlines" where
  "retentionDeadlines cls status completed =
     (if cls = Persistent then \<lparr>compactAfter = None, expireAfter = None, detailExpireAfter = None\<rparr>
      else if cls = Scheduled then
        (let streamRetention = (if status = Terminal_completed then 15 * MINUTE_MS else 60 * MINUTE_MS);
             detailRetention = (if status = Terminal_completed then DAY_MS
                                else if status = Terminal_failed then 7 * DAY_MS else 3 * DAY_MS)
         in \<lparr>compactAfter = Some (completed + MINUTE_MS),
             expireAfter = Some (completed + streamRetention),
             detailExpireAfter = Some (completed + detailRetention)\<rparr>)
      else \<lparr>compactAfter = Some (completed + 5 * MINUTE_MS),
            expireAfter = Some (completed + DAY_MS),
            detailExpireAfter = Some (completed + 30 * DAY_MS)\<rparr>)"

section \<open>Resolution at creation\<close>

text \<open>
  The loop over \<open>new Set([rootRunId, parentRunId])\<close>: the distinct defined ids, root first.
\<close>

definition ancestor_ids :: "attributes option \<Rightarrow> run_id list" where
  "ancestor_ids attrs =
     (let root = attr_lookup attrs ROOT_RUN_ID_ATTRIBUTE;
          parent = attr_lookup attrs PARENT_RUN_ID_ATTRIBUTE
      in (case root of None \<Rightarrow> [] | Some x \<Rightarrow> [x]) @
         (case parent of None \<Rightarrow> [] | Some y \<Rightarrow> if root = Some y then [] else [y]))"

fun first_class :: "(run_id \<Rightarrow> retention_class option) \<Rightarrow> run_id list \<Rightarrow> retention_class option" where
  "first_class get [] = None"
| "first_class get (r # rs) = (case get r of Some k \<Rightarrow> Some k | None \<Rightarrow> first_class get rs)"

definition resolveRunRetentionClassForCreation ::
  "retention_class option \<Rightarrow> string option \<Rightarrow> attributes option \<Rightarrow>
   (run_id \<Rightarrow> retention_class option) \<Rightarrow> error + retention_class" where
  "resolveRunRetentionClassForCreation ambient v attrs getAncestor =
     (if v \<noteq> None \<or> attr_lookup attrs RUN_RETENTION_ATTRIBUTE \<noteq> None
      then resolveRunRetentionClass v attrs
      else if attr_lookup attrs ROOT_RUN_ID_ATTRIBUTE \<noteq> None \<or>
              attr_lookup attrs PARENT_RUN_ID_ATTRIBUTE \<noteq> None
      then (case first_class getAncestor (ancestor_ids attrs) of
              Some k \<Rightarrow> Inr k | None \<Rightarrow> Inl TypeError)
      else (case ambient of Some k \<Rightarrow> Inr k | None \<Rightarrow> Inr Interactive))"

record retention_identity =
  ri_class :: retention_class
  ri_rootRunId :: run_id

text \<open>The \<open>ancestors\<close> map, in insertion order.\<close>

definition ancestors_found ::
  "(run_id \<Rightarrow> retention_identity option) \<Rightarrow> attributes option \<Rightarrow> (run_id \<times> retention_identity) list" where
  "ancestors_found get attrs =
     List.map_filter (\<lambda>r. map_option (Pair r) (get r)) (ancestor_ids attrs)"

definition resolveRunRetentionForCreation ::
  "retention_class option \<Rightarrow> run_id \<Rightarrow> string option \<Rightarrow> attributes option \<Rightarrow>
   (run_id \<Rightarrow> retention_identity option) \<Rightarrow> error + retention_identity" where
  "resolveRunRetentionForCreation ambient r v attrs getAncestor =
     (let ancestors = ancestors_found getAncestor attrs in
      case resolveRunRetentionClassForCreation ambient v attrs
             (\<lambda>a. map_option ri_class (map_of ancestors a)) of
        Inl e \<Rightarrow> Inl e
      | Inr k \<Rightarrow> Inr \<lparr>ri_class = k,
          ri_rootRunId =
            (case ancestors of (_, a) # _ \<Rightarrow> ri_rootRunId a
             | [] \<Rightarrow> (case attr_lookup attrs ROOT_RUN_ID_ATTRIBUTE of Some x \<Rightarrow> x
                | None \<Rightarrow> (case attr_lookup attrs PARENT_RUN_ID_ATTRIBUTE of Some y \<Rightarrow> y
                   | None \<Rightarrow> r)))\<rparr>)"

end
