(* ===== verification/Create_Run.thy ===== *)
theory Create_Run
  imports Start_Hook Retention_Policy
begin

text \<open>
  \<open>events.create\<close> of \<open>src/storage.ts\<close>, first part: the checks ahead of any write, the
  creation of a run (directly or by a resilient \<open>run_started\<close>), the transitions of a run,
  its attributes, and the handler for runs older than event sourcing.
\<close>

section \<open>Results and local variables\<close>

record event_result =
  er_event :: "event_row option"
  er_run :: "run_row option"
  er_step :: "step_row option"
  er_hook :: "hook_row option"
  er_wait :: "wait_row option"
  er_stepCreated :: bool
  er_maxEvents :: "nat option"
  er_page :: "(event_row list \<times> event_id option \<times> bool) option"

definition no_result :: event_result where
  "no_result = \<lparr>er_event = None, er_run = None, er_step = None, er_hook = None, er_wait = None,
     er_stepCreated = False, er_maxEvents = None, er_page = None\<rparr>"

text \<open>
  The mutable variables of \<open>create\<close>: \<open>eventId\<close> with \<open>value\<close> (whose only field is \<open>createdAt\<close>;
  every branch assigns the two together), the entities for the result, \<open>stepCreatedLazily\<close>
  and \<open>storedEventData\<close>.
\<close>

record locals =
  lo_value :: "(event_id \<times> timestamp) option"
  lo_run :: "run_row option"
  lo_step :: "step_row option"
  lo_hook :: "hook_row option"
  lo_wait :: "wait_row option"
  lo_stepCreatedLazily :: bool
  lo_storedEventData :: "event_data option"

definition no_locals :: locals where
  "no_locals = \<lparr>lo_value = None, lo_run = None, lo_step = None, lo_hook = None,
     lo_wait = None, lo_stepCreatedLazily = False, lo_storedEventData = None\<rparr>"

text \<open>What validation reads of a run.\<close>

type_synonym current_run = "(run_status \<times> int option) option"

section \<open>Checks ahead of any write\<close>

definition check_hook_retention :: "ctx \<Rightarrow> event_req \<Rightarrow> unit io" where
  "check_hook_retention c q =
     (if rq_eventType q = Hook_created then
        (case Option.bind (rq_eventData q) ed_tokenRetentionUntil of
           None \<Rightarrow> Ret ()
         | Some u \<Rightarrow> throw_if (now c + hookRetentionLimitMs c < u)
             (WorkflowWorldError Hook_retention_too_long (Some 400) None))
      else Ret ())"

definition start_hook_of :: "event_req \<Rightarrow> start_hook option" where
  "start_hook_of q =
     (if rq_eventType q = Run_created \<or> rq_eventType q = Run_started
      then Option.bind (rq_eventData q) ed_startHook else None)"

definition effective_run_id :: "ctx \<Rightarrow> run_id option \<Rightarrow> event_req \<Rightarrow> run_id io" where
  "effective_run_id c runId q =
     (if rq_eventType q = Run_created \<and> (runId = None \<or> runId = Some [])
      then Ret (''wrun_'' @ fresh_ulid c)
      else (case runId of None \<Rightarrow> Throw PlainError
            | Some r \<Rightarrow> if r = [] then Throw PlainError else Ret r))"

definition check_run_id_timestamp :: "ctx \<Rightarrow> run_id option \<Rightarrow> event_req \<Rightarrow> run_id \<Rightarrow> unit io" where
  "check_run_id_timestamp c runId q r =
     (if rq_eventType q = Run_created \<and> runId \<noteq> None \<and> runId \<noteq> Some [] then
        (case validateUlidTimestamp (sdk c) r (now c) of
           None \<Rightarrow> Ret ()
         | Some msg \<Rightarrow> Throw (WorkflowWorldError (Invalid_run_id_timestamp msg)
             (if start_hook_of q = None then None else Some 400)
             (if start_hook_of q = None then None else Some Reason_expired)))
      else Ret ())"

definition effective_spec_version :: "ctx \<Rightarrow> event_req \<Rightarrow> int" where
  "effective_spec_version c q = (case rq_specVersion q of None \<Rightarrow> specVersion c | Some v \<Rightarrow> v)"

definition this_run :: "ctx \<Rightarrow> run_id \<Rightarrow> run_row \<Rightarrow> bool" where
  "this_run c r row \<longleftrightarrow> r_tenantId row = tenantId c \<and> r_runId row = r"

definition getRunForValidation :: "ctx \<Rightarrow> run_id \<Rightarrow> current_run io" where
  "getRunForValidation c r =
     query (\<lambda>s. map_option (\<lambda>row. (r_status row, r_specVersion row)) (find (this_run c r) (runs s)))"

definition full_run :: "ctx \<Rightarrow> run_id \<Rightarrow> run_row option io" where
  "full_run c r = query (\<lambda>s. find (this_run c r) (runs s))"

section \<open>Creating a run\<close>

definition getAncestorRetention :: "ctx \<Rightarrow> run_id \<Rightarrow> retention_identity option io" where
  "getAncestorRetention c a =
     query (\<lambda>s. map_option (\<lambda>row. \<lparr>ri_class = r_retentionClass row, ri_rootRunId = r_retentionRootRunId row\<rparr>)
       (find (this_run c a) (runs s)))"

definition resolveCreationRetention ::
  "ctx \<Rightarrow> run_id \<Rightarrow> string option \<Rightarrow> attributes option \<Rightarrow> retention_identity io" where
  "resolveCreationRetention c r cls attrs =
     bindP (mapM (\<lambda>a. bindP (getAncestorRetention c a) (\<lambda>x. Ret (a, x))) (ancestor_ids attrs))
       (\<lambda>found. case resolveRunRetentionForCreation (retention_intent c) r cls attrs
                    (\<lambda>a. Option.bind (map_of found a) id) of
          Inl e \<Rightarrow> Throw e | Inr x \<Rightarrow> Ret x)"

definition check_attributes :: "ctx \<Rightarrow> attr_change list \<Rightarrow> string list \<Rightarrow> bool \<Rightarrow> unit io" where
  "check_attributes c changes keys allowReserved =
     throw_if (\<not> validateAttributeChanges (sdk c) changes keys allowReserved) AttributeValidationError"

definition attribute_entries :: "event_data \<Rightarrow> attr_change list" where
  "attribute_entries d = map (\<lambda>(k, v). (k, Some v))
     (case ed_attributes d of None \<Rightarrow> [] | Some xs \<Rightarrow> xs)"

definition run_values ::
  "ctx \<Rightarrow> run_id \<Rightarrow> event_data \<Rightarrow> string \<Rightarrow> string \<Rightarrow> int \<Rightarrow> retention_identity \<Rightarrow> start_hook option \<Rightarrow>
   st \<Rightarrow> run_row" where
  "run_values c r d deployment name v ret h s =
     \<lparr>r_tenantId = tenantId c, r_runId = r, r_outputJson = None, r_output = None,
      r_deploymentId = deployment, r_status = Run_pending, r_workflowName = name,
      r_queueNamespace = Some (case queueNamespace c of None \<Rightarrow> [] | Some n \<Rightarrow> n),
      r_specVersion = Some v, r_executionContextJson = None,
      r_executionContext = ed_executionContext d, r_encryptionPublicKey = ed_encryptionPublicKey d,
      r_inputJson = None, r_input = ed_input d, r_errorJson = None, r_error = None,
      r_errorCode = None, r_attributes = (case ed_attributes d of None \<Rightarrow> [] | Some xs \<Rightarrow> xs),
      r_createdAt = db_now s, r_updatedAt = db_now s, r_completedAt = None, r_startedAt = None,
      r_retentionClass = ri_class ret, r_retentionRootRunId = ri_rootRunId ret,
      r_startHook = map_option (runStartHook (sdk c) r) h\<rparr>"

text \<open>The closure passed as \<open>admit\<close>, on both creating paths.\<close>

definition admit_start_hook ::
  "ctx \<Rightarrow> run_id \<Rightarrow> int \<Rightarrow> start_hook option \<Rightarrow> (bool \<times> start_hook_decision) io option" where
  "admit_start_hook c r v h = map_option (\<lambda>x.
     bindP (decideStartHookAdmission c r x v) (\<lambda>d. Ret (d = Decided_accepted False, d))) h"

text \<open>The refusal of a start Hook candidate, thrown after its decision has committed.\<close>

definition throw_rejected :: "start_hook option \<Rightarrow> start_hook_decision option \<Rightarrow> unit io" where
  "throw_rejected h decided =
     (case (h, decided) of
        (Some x, Some (Decided_rejected o')) \<Rightarrow> Throw (startHookConflict x o')
      | _ \<Rightarrow> Ret ())"

text \<open>
  The insert both creating paths make, with the columns that must not be NULL checked as the
  database does. \<open>stored\<close> is the data of the \<open>run_created\<close> event.
\<close>

definition create_run ::
  "ctx \<Rightarrow> run_id \<Rightarrow> event_data \<Rightarrow> event_data \<Rightarrow> int \<Rightarrow> start_hook option \<Rightarrow>
   ((run_row \<times> event_id \<times> timestamp) option \<times> start_hook_decision option) io" where
  "create_run c r d stored v h =
     bindP (check_attributes c (attribute_entries d) [] (ed_allowReservedAttributes d)) (\<lambda>_.
     bindP (resolveCreationRetention c r (ed_retentionClass d) (ed_attributes d)) (\<lambda>ret.
     case (ed_deploymentId d, ed_workflowName d) of
       (Some deployment, Some name) \<Rightarrow>
         insertRunWithCreatedEvent c (run_values c r d deployment name v ret h) stored (Some v)
           (admit_start_hook c r v h)
     | _ \<Rightarrow> Throw (PgError ''23502'' [])))"

text \<open>Resilient start: \<open>run_started\<close> on a run that does not exist creates it.\<close>

definition resilient_data :: "ctx \<Rightarrow> run_id \<Rightarrow> event_data \<Rightarrow> start_hook option \<Rightarrow> event_data" where
  "resilient_data c r d h =
     no_data\<lparr>ed_deploymentId := ed_deploymentId d, ed_workflowName := ed_workflowName d,
       ed_input := ed_input d, ed_executionContext := ed_executionContext d,
       ed_attributes := ed_attributes d, ed_allowReservedAttributes := ed_allowReservedAttributes d,
       ed_encryptionPublicKey := ed_encryptionPublicKey d, ed_retentionClass := ed_retentionClass d,
       ed_startHook := map_option (admittedStartHook (sdk c) r) h\<rparr>"

definition truthy_string :: "string option \<Rightarrow> bool" where
  "truthy_string x \<longleftrightarrow> x \<noteq> None \<and> x \<noteq> Some []"

definition resilient_start :: "ctx \<Rightarrow> run_id \<Rightarrow> event_data \<Rightarrow> int \<Rightarrow> start_hook option \<Rightarrow> current_run io" where
  "resilient_start c r d v h =
     (if truthy_string (ed_deploymentId d) \<and> truthy_string (ed_workflowName d) \<and> ed_input d \<noteq> None then
        bindP (create_run c r d (resilient_data c r d h) v h) (\<lambda>(created, decided).
        bindP (throw_rejected h decided) (\<lambda>_.
        case created of
          Some x \<Rightarrow> Ret (Some (Run_pending, Some v))
        | None \<Rightarrow> getRunForValidation c r))
      else Ret None)"

definition load_current_run :: "ctx \<Rightarrow> run_id \<Rightarrow> event_req \<Rightarrow> int \<Rightarrow> current_run io" where
  "load_current_run c r q v =
     (if rq_eventType q = Run_created \<or> rq_eventType q = Step_completed \<or> rq_eventType q = Step_retrying
      then Ret None
      else bindP (getRunForValidation c r) (\<lambda>cur.
        case (rq_eventData q, cur) of
          (Some d, None) \<Rightarrow>
            if rq_eventType q = Run_started then resilient_start c r d v (start_hook_of q) else Ret cur
        | _ \<Rightarrow> Ret cur))"

text \<open>The stored \<open>run_created\<close> names the start Hook's id.\<close>

definition with_start_hook :: "ctx \<Rightarrow> run_id \<Rightarrow> start_hook option \<Rightarrow> event_data \<Rightarrow> event_data" where
  "with_start_hook c r h d =
     (case h of None \<Rightarrow> d | Some x \<Rightarrow> d\<lparr>ed_startHook := Some (admittedStartHook (sdk c) r x)\<rparr>)"

definition handle_run_created :: "ctx \<Rightarrow> run_id \<Rightarrow> event_req \<Rightarrow> int \<Rightarrow> locals \<Rightarrow> locals io" where
  "handle_run_created c r q v lo =
     (case rq_eventData q of None \<Rightarrow> Throw TypeError | Some d \<Rightarrow>
      let h = start_hook_of q in
      bindP (create_run c r d (with_start_hook c r h d) v h) (\<lambda>(created, decided).
      bindP (throw_rejected h decided) (\<lambda>_.
      case created of
        Some (row, eid, at) \<Rightarrow>
          Ret (lo\<lparr>lo_value := Some (eid, at), lo_run := Some row\<rparr>)
      | None \<Rightarrow>
          if h \<noteq> None \<and> decided \<noteq> None then
            bindP (full_run c r) (\<lambda>existingRun.
            bindP (query (\<lambda>s. find (\<lambda>e. of_run (tenantId c) r e \<and> e_eventType e = Run_created) (events s)))
              (\<lambda>existingEvent. case (existingRun, existingEvent) of
                 (Some row, Some e) \<Rightarrow>
                   Ret (lo\<lparr>lo_value := Some (e_eventId e, e_createdAt e),
                           lo_run := Some row\<rparr>)
               | _ \<Rightarrow> Throw (WorkflowRunNotFoundError r)))
          else Throw EntityConflictError)))"

section \<open>Transitions of a run\<close>

definition set_run_started :: "ctx \<Rightarrow> run_id \<Rightarrow> st \<Rightarrow> st" where
  "set_run_started c r s =
     s\<lparr>runs := update_where (this_run c r)
        (\<lambda>row. row\<lparr>r_status := Run_running, r_startedAt := Some (now c), r_updatedAt := now c\<rparr>) (runs s)\<rparr>"

definition handle_run_started :: "ctx \<Rightarrow> run_id \<Rightarrow> current_run \<Rightarrow> locals \<Rightarrow> (event_result + locals) io" where
  "handle_run_started c r cur lo =
     (let start = bindP (stmt (\<lambda>s. let s' = set_run_started c r s in (find (this_run c r) (runs s'), s')))
                    (\<lambda>row. Ret (Inr (case row of None \<Rightarrow> lo | Some x \<Rightarrow> lo\<lparr>lo_run := Some x\<rparr>)))
      in if map_option fst cur = Some Run_running then
           bindP (full_run c r) (\<lambda>row. case row of
             Some x \<Rightarrow> Ret (Inl (no_result\<lparr>er_run := Some x, er_maxEvents := Some (maxEventsPerRun c)\<rparr>))
           | None \<Rightarrow> start)
         else start)"

definition not_terminal :: "ctx \<Rightarrow> run_status \<Rightarrow> bool" where
  "not_terminal c x \<longleftrightarrow> x \<notin> set (TERMINAL_WORKFLOW_RUN_STATUSES (sdk c))"

text \<open>
  \<open>UPDATE runs SET status = ... WHERE ... AND status NOT IN terminal\<close>: the assignment \<open>f\<close> is the
  terminal event's own.
\<close>

definition set_run_terminal :: "ctx \<Rightarrow> run_id \<Rightarrow> (run_row \<Rightarrow> run_row) \<Rightarrow> st \<Rightarrow> st" where
  "set_run_terminal c r f s =
     s\<lparr>runs := update_where (\<lambda>row. this_run c r row \<and> not_terminal c (r_status row)) f (runs s)\<rparr>"

definition completed_fields :: "ctx \<Rightarrow> event_data \<Rightarrow> run_row \<Rightarrow> run_row" where
  "completed_fields c d row = row\<lparr>r_status := Run_completed_st, r_output := set_col (ed_output d) (r_output row),
     r_completedAt := Some (now c), r_updatedAt := now c\<rparr>"

definition failed_fields :: "ctx \<Rightarrow> event_data \<Rightarrow> run_row \<Rightarrow> run_row" where
  "failed_fields c d row = row\<lparr>r_status := Run_failed_st, r_error := set_col (ed_error d) (r_error row),
     r_errorCode := set_col (ed_errorCode d) (r_errorCode row), r_completedAt := Some (now c), r_updatedAt := now c\<rparr>"

definition cancelled_fields :: "ctx \<Rightarrow> run_row \<Rightarrow> run_row" where
  "cancelled_fields c row = row\<lparr>r_status := Run_cancelled_st, r_completedAt := Some (now c),
     r_updatedAt := now c\<rparr>"

definition delete_run_hooks :: "ctx \<Rightarrow> run_id \<Rightarrow> st \<Rightarrow> st" where
  "delete_run_hooks c r s = s\<lparr>hooks := delete_where (\<lambda>h. h_tenantId h = tenantId c \<and> h_runId h = r \<and>
     hookRetentionEnded s h) (hooks s)\<rparr>"

definition delete_run_waits :: "ctx \<Rightarrow> run_id \<Rightarrow> st \<Rightarrow> st" where
  "delete_run_waits c r s = s\<lparr>waits := delete_where (\<lambda>w. w_tenantId w = tenantId c \<and> w_runId w = r) (waits s)\<rparr>"

definition transition_run :: "ctx \<Rightarrow> run_id \<Rightarrow> (run_row \<Rightarrow> run_row) \<Rightarrow> locals \<Rightarrow> locals io" where
  "transition_run c r f lo =
     bindP (stmt (\<lambda>s. (map_option f (find (\<lambda>row. this_run c r row \<and> not_terminal c (r_status row)) (runs s)),
                       set_run_terminal c r f s)))
       (\<lambda>row. bindP (case row of
            Some x \<Rightarrow> Ret (lo\<lparr>lo_run := Some x\<rparr>)
          | None \<Rightarrow> bindP (getRunForValidation c r) (\<lambda>existing. case existing of
              None \<Rightarrow> Throw (WorkflowRunNotFoundError r)
            | Some (status, _) \<Rightarrow>
                if isTerminalWorkflowRunStatus (sdk c) status then Throw EntityConflictError else Ret lo))
        (\<lambda>lo'. bindP (exec (delete_run_hooks c r)) (\<lambda>_.
               bindP (exec (delete_run_waits c r)) (\<lambda>_. Ret lo'))))"

definition handle_run_completed :: "ctx \<Rightarrow> run_id \<Rightarrow> event_req \<Rightarrow> locals \<Rightarrow> locals io" where
  "handle_run_completed c r q lo =
     (case rq_eventData q of None \<Rightarrow> Throw TypeError
      | Some d \<Rightarrow> transition_run c r (completed_fields c d) lo)"

definition handle_run_failed :: "ctx \<Rightarrow> run_id \<Rightarrow> event_req \<Rightarrow> locals \<Rightarrow> locals io" where
  "handle_run_failed c r q lo =
     (case rq_eventData q of None \<Rightarrow> Throw TypeError
      | Some d \<Rightarrow> transition_run c r (failed_fields c d) lo)"

definition handle_run_cancelled :: "ctx \<Rightarrow> run_id \<Rightarrow> locals \<Rightarrow> locals io" where
  "handle_run_cancelled c r lo = transition_run c r (cancelled_fields c) lo"

section \<open>Attributes\<close>

text \<open>The folded \<open>jsonb\<close> expression: \<open>- key\<close> removes, \<open>jsonb_set\<close> sets.\<close>

fun apply_change :: "attributes \<Rightarrow> attr_change \<Rightarrow> attributes" where
  "apply_change m (k, None) = filter (\<lambda>(k', _). k' \<noteq> k) m"
| "apply_change m (k, Some v) =
     (if k \<in> fst ` set m then map (\<lambda>(k', v'). if k' = k then (k', v) else (k', v')) m else m @ [(k, v)])"

definition apply_changes :: "attr_change list \<Rightarrow> attributes \<Rightarrow> attributes" where
  "apply_changes changes m = foldl apply_change m changes"

definition fits_cap :: "ctx \<Rightarrow> attr_change list \<Rightarrow> run_row \<Rightarrow> bool" where
  "fits_cap c changes row \<longleftrightarrow> length (apply_changes changes (r_attributes row)) \<le> ATTRIBUTE_MAX_PER_RUN (sdk c)"

definition set_attributes :: "ctx \<Rightarrow> run_id \<Rightarrow> attr_change list \<Rightarrow> st \<Rightarrow> st" where
  "set_attributes c r changes s =
     s\<lparr>runs := update_where (\<lambda>row. this_run c r row \<and> fits_cap c changes row)
        (\<lambda>row. row\<lparr>r_attributes := apply_changes changes (r_attributes row), r_updatedAt := now c\<rparr>)
        (runs s)\<rparr>"

text \<open>
  The part \<open>attr_set\<close> and \<open>experimentalSetAttributes\<close> share: load, validate, the guarded update,
  and the two reasons it may match no row.
\<close>

definition update_attributes :: "ctx \<Rightarrow> run_id \<Rightarrow> attr_change list \<Rightarrow> bool \<Rightarrow> run_row io" where
  "update_attributes c r changes allowReserved =
     bindP (full_run c r) (\<lambda>existing. case existing of
       None \<Rightarrow> Throw (WorkflowRunNotFoundError r)
     | Some row \<Rightarrow>
         bindP (check_attributes c changes (map fst (r_attributes row)) allowReserved) (\<lambda>_.
         bindP (stmt (\<lambda>s. let s' = set_attributes c r changes s in
             (if has_row (\<lambda>x. this_run c r x \<and> fits_cap c changes x) (runs s)
              then find (this_run c r) (runs s') else None, s'))) (\<lambda>updated.
         case updated of
           Some x \<Rightarrow> Ret x
         | None \<Rightarrow> bindP (full_run c r) (\<lambda>still. case still of
             None \<Rightarrow> Throw (WorkflowRunNotFoundError r) | Some _ \<Rightarrow> Throw AttributeValidationError))))"

definition handle_attr_set :: "ctx \<Rightarrow> run_id \<Rightarrow> event_req \<Rightarrow> locals \<Rightarrow> locals io" where
  "handle_attr_set c r q lo =
     (case rq_eventData q of None \<Rightarrow> Throw TypeError | Some d \<Rightarrow>
      bindP (if truthy_string (rq_correlationId q) \<and> ed_writerType d = Some ''workflow'' then
               bindP (query (\<lambda>s. has_row (\<lambda>e. of_run (tenantId c) r e \<and>
                   e_correlationId e = rq_correlationId q \<and> e_eventType e = Attr_set) (events s)))
                 (\<lambda>duplicate. throw_if duplicate EntityConflictError)
             else Ret ()) (\<lambda>_.
      bindP (update_attributes c r (ed_changes d) (ed_allowReservedAttributes d)) (\<lambda>row.
      Ret (lo\<lparr>lo_run := Some row\<rparr>))))"

definition experimentalSetAttributes :: "ctx \<Rightarrow> run_id \<Rightarrow> attr_change list \<Rightarrow> bool \<Rightarrow> attributes io" where
  "experimentalSetAttributes c r changes allowReserved =
     bindP (update_attributes c r changes allowReserved) (\<lambda>row. Ret (r_attributes row))"

section \<open>Legacy runs\<close>

definition delete_legacy_hooks :: "ctx \<Rightarrow> run_id \<Rightarrow> st \<Rightarrow> st" where
  "delete_legacy_hooks c r s = s\<lparr>hooks := delete_where (\<lambda>h. h_tenantId h = tenantId c \<and> h_runId h = r) (hooks s)\<rparr>"

definition set_legacy_cancelled :: "ctx \<Rightarrow> run_id \<Rightarrow> st \<Rightarrow> st" where
  "set_legacy_cancelled c r s = s\<lparr>runs := update_where (this_run c r) (cancelled_fields c) (runs s)\<rparr>"

definition data_event :: "ctx \<Rightarrow> run_id \<Rightarrow> event_req \<Rightarrow> event_data option \<Rightarrow> event_id \<Rightarrow> timestamp \<Rightarrow> event_row" where
  "data_event c r q stored i at =
     \<lparr>e_tenantId = tenantId c, e_eventId = i, e_eventType = rq_eventType q,
      e_correlationId = rq_correlationId q, e_createdAt = at, e_runId = r, e_eventDataJson = None,
      e_eventData = stored, e_specVersion = rq_specVersion q\<rparr>"

text \<open>The plain event \<open>INSERT\<close> of the legacy handler: a taken id raises.\<close>

definition insert_legacy_event :: "ctx \<Rightarrow> run_id \<Rightarrow> event_id \<Rightarrow> event_req \<Rightarrow> timestamp io" where
  "insert_legacy_event c r i q =
     stmtE (\<lambda>s. insert_created_stmt (sdk c) (stamp (event_values c r (rq_correlationId q)
       (rq_eventType q) (rq_eventData q) (Some (specVersion c))) i None s) s)"

definition handleLegacyEventPostgres ::
  "ctx \<Rightarrow> run_id \<Rightarrow> event_req \<Rightarrow> create_params \<Rightarrow> event_result io" where
  "handleLegacyEventPostgres c r q pa =
     (let eid = ''wevt_'' @ legacyEventUlid c;
          rd = (if pa_resolveData pa = Some Resolve_none then Resolve_none else Resolve_all);
          done = (\<lambda>at. no_result\<lparr>er_event := Some (stripEventDataRefs (sdk c)
                     (data_event c r q (rq_eventData q) eid at) rd)\<rparr>)
      in case rq_eventType q of
        Run_cancelled \<Rightarrow>
          bindP (exec (set_legacy_cancelled c r)) (\<lambda>_.
          bindP (exec (delete_legacy_hooks c r)) (\<lambda>_.
          bindP (exec (delete_run_waits c r)) (\<lambda>_.
          bindP (full_run c r) (\<lambda>row. Ret (no_result\<lparr>er_run := map_option
             (\<lambda>x. if rd = Resolve_none then x\<lparr>r_input := None, r_output := None\<rparr> else x) row\<rparr>)))))
      | Wait_completed \<Rightarrow> bindP (insert_legacy_event c r eid q) (\<lambda>at. Ret (done at))
      | Hook_received \<Rightarrow>
          bindP (txn (bindP (full_run c r) (\<lambda>row. case row of
              None \<Rightarrow> Throw (WorkflowRunNotFoundError r)
            | Some x \<Rightarrow>
                if isTerminalWorkflowRunStatus (sdk c) (r_status x) then Throw (RunExpiredError r (r_status x))
                else insert_legacy_event c r eid q))) (\<lambda>at. Ret (done at))
      | _ \<Rightarrow> Throw PlainError)"

end
