(* ===== verification/Create_Entity.thy ===== *)
theory Create_Entity
  imports Create_Run
begin

text \<open>
  \<open>events.create\<close> of \<open>src/storage.ts\<close>, second part: steps (with the lazy start and the
  ownership of a running step, \<open>src/delivery-liveness.ts\<close>) and waits.
\<close>

section \<open>Steps\<close>

definition this_step :: "ctx \<Rightarrow> run_id \<Rightarrow> string option \<Rightarrow> step_row \<Rightarrow> bool" where
  "this_step c r cid row \<longleftrightarrow> s_tenantId row = tenantId c \<and> s_runId row = r \<and> Some (s_stepId row) = cid"

definition step_live :: "ctx \<Rightarrow> step_row \<Rightarrow> bool" where
  "step_live c row \<longleftrightarrow> s_status row \<notin> set (TERMINAL_STEP_STATUSES (sdk c))"

definition getStepForValidation :: "ctx \<Rightarrow> run_id \<Rightarrow> string option \<Rightarrow> step_row option io" where
  "getStepForValidation c r cid = query (\<lambda>s. find (this_step c r cid) (steps s))"

text \<open>The primary key of steps is the tenant and the step id.\<close>

definition same_step_id :: "step_row \<Rightarrow> step_row \<Rightarrow> bool" where
  "same_step_id x q \<longleftrightarrow> s_tenantId q = s_tenantId x \<and> s_stepId q = s_stepId x"

definition insert_step_stmt :: "step_row \<Rightarrow> st \<Rightarrow> step_row option \<times> st" where
  "insert_step_stmt x s =
     (if has_row (same_step_id x) (steps s) then (None, s)
      else (Some x, s\<lparr>steps := steps s @ [x]\<rparr>))"

definition step_values :: "ctx \<Rightarrow> run_id \<Rightarrow> string \<Rightarrow> string \<Rightarrow> blob option \<Rightarrow> int \<Rightarrow> st \<Rightarrow> step_row" where
  "step_values c r stepId name inp v s =
     \<lparr>s_tenantId = tenantId c, s_runId = r, s_stepId = stepId, s_stepName = name,
      s_status = Step_pending, s_inputJson = None, s_input = inp, s_outputJson = None,
      s_output = None, s_errorJson = None, s_error = None, s_attempt = 0, s_startedAt = None,
      s_completedAt = None, s_createdAt = db_now s, s_updatedAt = db_now s, s_retryAfter = None,
      s_specVersion = Some v, s_ownerMessageId = None\<rparr>"

definition create_step :: "ctx \<Rightarrow> run_id \<Rightarrow> event_req \<Rightarrow> int \<Rightarrow> step_row option io" where
  "create_step c r q v =
     (case (rq_eventData q, rq_correlationId q) of
        (Some d, Some stepId) \<Rightarrow>
          (case ed_stepName d of
             None \<Rightarrow> Throw (PgError ''23502'' [])
           | Some name \<Rightarrow> stmt (\<lambda>s. insert_step_stmt (step_values c r stepId name (ed_input d) v s) s))
      | (None, _) \<Rightarrow> Throw TypeError
      | (Some _, None) \<Rightarrow> Throw (PgError ''23502'' []))"

definition handle_step_created :: "ctx \<Rightarrow> run_id \<Rightarrow> event_req \<Rightarrow> int \<Rightarrow> locals \<Rightarrow> locals io" where
  "handle_step_created c r q v lo =
     bindP (create_step c r q v) (\<lambda>row. Ret (case row of None \<Rightarrow> lo | Some x \<Rightarrow> lo\<lparr>lo_step := Some x\<rparr>))"

text \<open>
  Guarded updates: \<open>UPDATE steps SET ... WHERE ... AND status NOT IN terminal RETURNING\<close>.
\<close>

definition update_step_stmt ::
  "ctx \<Rightarrow> run_id \<Rightarrow> string option \<Rightarrow> (step_row \<Rightarrow> step_row) \<Rightarrow> st \<Rightarrow> step_row option \<times> st" where
  "update_step_stmt c r cid f s =
     (map_option f (find (\<lambda>x. this_step c r cid x \<and> step_live c x) (steps s)),
      s\<lparr>steps := update_where (\<lambda>x. this_step c r cid x \<and> step_live c x) f (steps s)\<rparr>)"

text \<open>When the guarded update matched nothing: the step is missing, or it is terminal.\<close>

definition explain_missed_step :: "ctx \<Rightarrow> run_id \<Rightarrow> string option \<Rightarrow> unit io" where
  "explain_missed_step c r cid =
     bindP (getStepForValidation c r cid) (\<lambda>existing. case existing of
       None \<Rightarrow> Throw (WorkflowWorldError (Step_not_found (case cid of None \<Rightarrow> [] | Some x \<Rightarrow> x)) None None)
     | Some x \<Rightarrow> throw_if (isTerminalStepStatus (sdk c) (s_status x)) EntityConflictError)"

definition transition_step ::
  "ctx \<Rightarrow> run_id \<Rightarrow> string option \<Rightarrow> (step_row \<Rightarrow> step_row) \<Rightarrow> locals \<Rightarrow> locals io" where
  "transition_step c r cid f lo =
     bindP (stmt (update_step_stmt c r cid f)) (\<lambda>row. case row of
       Some x \<Rightarrow> Ret (lo\<lparr>lo_step := Some x\<rparr>)
     | None \<Rightarrow> bindP (explain_missed_step c r cid) (\<lambda>_. Ret lo))"

definition step_completed_fields :: "ctx \<Rightarrow> event_data \<Rightarrow> step_row \<Rightarrow> step_row" where
  "step_completed_fields c d x = x\<lparr>s_status := Step_completed_st, s_output := set_col (ed_result d) (s_output x),
     s_completedAt := Some (now c), s_updatedAt := now c\<rparr>"

definition step_failed_fields :: "ctx \<Rightarrow> event_data \<Rightarrow> step_row \<Rightarrow> step_row" where
  "step_failed_fields c d x = x\<lparr>s_status := Step_failed_st,
     s_error := set_col (ed_error d) (s_error x),
     s_completedAt := Some (now c), s_updatedAt := now c\<rparr>"

definition step_retrying_fields :: "ctx \<Rightarrow> event_data \<Rightarrow> step_row \<Rightarrow> step_row" where
  "step_retrying_fields c d x = x\<lparr>s_status := Step_pending,
     s_error := set_col (ed_error d) (s_error x), s_retryAfter := set_col (ed_retryAfter d) (s_retryAfter x),
     s_updatedAt := now c\<rparr>"

definition handle_step_transition ::
  "ctx \<Rightarrow> run_id \<Rightarrow> event_req \<Rightarrow> (event_data \<Rightarrow> step_row \<Rightarrow> step_row) \<Rightarrow> locals \<Rightarrow> locals io" where
  "handle_step_transition c r q f lo =
     (case rq_eventData q of None \<Rightarrow> Throw TypeError
      | Some d \<Rightarrow> transition_step c r (rq_correlationId q) (f d) lo)"

definition handle_step_completed :: "ctx \<Rightarrow> run_id \<Rightarrow> event_req \<Rightarrow> locals \<Rightarrow> locals io" where
  "handle_step_completed c r q = handle_step_transition c r q (step_completed_fields c)"

definition handle_step_failed :: "ctx \<Rightarrow> run_id \<Rightarrow> event_req \<Rightarrow> locals \<Rightarrow> locals io" where
  "handle_step_failed c r q = handle_step_transition c r q (step_failed_fields c)"

definition handle_step_retrying :: "ctx \<Rightarrow> run_id \<Rightarrow> event_req \<Rightarrow> locals \<Rightarrow> locals io" where
  "handle_step_retrying c r q = handle_step_transition c r q (step_retrying_fields c)"

section \<open>Starting a step\<close>

definition lazy_step_start :: "ctx \<Rightarrow> event_req \<Rightarrow> bool" where
  "lazy_step_start c q \<longleftrightarrow> isChildEntityCreationEvent (sdk c) q \<and> rq_eventType q = Step_started"

definition start_creates_step :: "ctx \<Rightarrow> event_req \<Rightarrow> current_run \<Rightarrow> int \<Rightarrow> bool" where
  "start_creates_step c q cur v \<longleftrightarrow> lazy_step_start c q \<and>
     SPEC_VERSION_SINGLE_ORCHESTRATOR (sdk c) \<le>
       (case Option.bind cur snd of None \<Rightarrow> v | Some w \<Rightarrow> w)"

text \<open>\<open>src/delivery-liveness.ts\<close>: a locked job of this message, no older than four hours.\<close>

definition deliveryInFlight :: "string \<Rightarrow> st \<Rightarrow> bool" where
  "deliveryInFlight messageId s \<longleftrightarrow> graphile_readable s \<and>
     list_ex (\<lambda>(m, lockedAt). m = messageId \<and> db_now s - 4 * 60 * 60 * 1000 < lockedAt) (graphile_jobs s)"

text \<open>\<open>Math.ceil(a / b)\<close> for a positive divisor.\<close>

definition ceil_div :: "int \<Rightarrow> int \<Rightarrow> int" where
  "ceil_div a b = - ((- a) div b)"

definition ownerRecheckSeconds :: "timestamp option \<Rightarrow> timestamp \<Rightarrow> int" where
  "ownerRecheckSeconds startedAt at =
     (let runningMs = (case startedAt of None \<Rightarrow> 0 | Some t \<Rightarrow> at - t)
      in min 300 (max 30 (ceil_div runningMs 10000)))"

definition ownerMessageIdOf :: "event_data option \<Rightarrow> string option" where
  "ownerMessageIdOf d = Option.bind d ed_ownerMessageId"

definition step_started_fields :: "ctx \<Rightarrow> string option \<Rightarrow> step_row \<Rightarrow> step_row" where
  "step_started_fields c owner x = x\<lparr>s_status := Step_running, s_attempt := s_attempt x + 1,
     s_startedAt := (case s_startedAt x of None \<Rightarrow> Some (now c) | Some t \<Rightarrow> Some t),
     s_retryAfter := None, s_ownerMessageId := owner, s_updatedAt := now c\<rparr>"

text \<open>
  The ownership claim and, before spec 9, the synthetic \<open>step_created\<close>. The code catches a
  duplicate of that event, but the violation has aborted the transaction it runs in (the
  insert has no savepoint), so the next statement, the \<open>UPDATE\<close> of the step, raises
  \<open>25P02\<close> (in_failed_sql_transaction); nothing lies between the two.
\<close>

definition lazy_create :: "ctx \<Rightarrow> run_id \<Rightarrow> event_req \<Rightarrow> int \<Rightarrow> bool \<Rightarrow> unit io" where
  "lazy_create c r q v startCreates =
     bindP (create_step c r q v) (\<lambda>inserted. case inserted of
       None \<Rightarrow> Throw EntityConflictError
     | Some x \<Rightarrow>
         if startCreates then Ret ()
         else catchP
           (bindP (write_event c r (rq_correlationId q) Step_created
               (Some (no_data\<lparr>ed_stepName := Option.bind (rq_eventData q) ed_stepName,
                              ed_input := Option.bind (rq_eventData q) ed_input\<rparr>)) (Some v))
              (\<lambda>_. Ret ()))
           (\<lambda>e. if is_correlated_violation c e then Throw (PgError ''25P02'' []) else Throw e))"

text \<open>A running step keeps its owner while that delivery is in flight.\<close>

definition check_owner :: "ctx \<Rightarrow> run_id \<Rightarrow> event_req \<Rightarrow> step_row option \<Rightarrow> bool \<Rightarrow> unit io" where
  "check_owner c r q validated createdLazily =
     (let owner = ownerMessageIdOf (rq_eventData q) in
      case validated of
        None \<Rightarrow> Ret ()
      | Some x \<Rightarrow>
          if \<not> createdLazily \<and> s_status x = Step_running \<and> s_ownerMessageId x \<noteq> None \<and>
             s_ownerMessageId x \<noteq> owner then
            bindP (query (\<lambda>s. map_option (\<lambda>y. (y, case s_ownerMessageId y of None \<Rightarrow> False
                              | Some m \<Rightarrow> deliveryInFlight m s))
                            (find (this_step c r (rq_correlationId q)) (steps s))))
              (\<lambda>current. case current of
                 None \<Rightarrow> Ret ()
               | Some (y, inFlight) \<Rightarrow>
                   throw_if (s_status y = Step_running \<and> s_ownerMessageId y \<noteq> None \<and>
                       s_ownerMessageId y \<noteq> owner \<and> inFlight)
                     (TooEarlyError (ownerRecheckSeconds (s_startedAt y) (now c))))
          else Ret ())"

definition check_retry_after :: "ctx \<Rightarrow> step_row option \<Rightarrow> unit io" where
  "check_retry_after c validated =
     (case Option.bind validated s_retryAfter of
        None \<Rightarrow> Ret ()
      | Some t \<Rightarrow> throw_if (now c < t) (TooEarlyError (ceil_div (t - now c) 1000)))"

definition handle_step_started ::
  "ctx \<Rightarrow> run_id \<Rightarrow> event_req \<Rightarrow> int \<Rightarrow> current_run \<Rightarrow> step_row option \<Rightarrow> locals \<Rightarrow> locals io" where
  "handle_step_started c r q v cur validated lo =
     (let createsIt = (lazy_step_start c q \<and> validated = None) in
      txn (
        bindP (if createsIt then lazy_create c r q v (start_creates_step c q cur v) else Ret ()) (\<lambda>_.
        bindP (check_owner c r q validated createsIt) (\<lambda>_.
        bindP (check_retry_after c validated) (\<lambda>_.
        bindP (transition_step c r (rq_correlationId q)
                 (step_started_fields c (ownerMessageIdOf (rq_eventData q)))
                 (lo\<lparr>lo_stepCreatedLazily := createsIt\<rparr>)) (\<lambda>lo'.
        bindP (write_event c r (rq_correlationId q) Step_started
                 (lo_storedEventData lo) (Some v)) (\<lambda>value.
        case value of
          None \<Rightarrow> Throw EntityConflictError
        | Some x \<Rightarrow> Ret (lo'\<lparr>lo_value := Some x\<rparr>))))))))"

text \<open>The checks of \<open>step_started\<close> and \<open>step_retrying\<close> against the step as first read.\<close>

definition validate_step ::
  "ctx \<Rightarrow> run_id \<Rightarrow> event_req \<Rightarrow> current_run \<Rightarrow> step_row option io" where
  "validate_step c r q cur =
     (if (rq_eventType q = Step_started \<or> rq_eventType q = Step_retrying) \<and>
         truthy_string (rq_correlationId q) then
        bindP (getStepForValidation c r (rq_correlationId q)) (\<lambda>found. case found of
          None \<Rightarrow>
            bindP (throw_if (\<not> lazy_step_start c q)
              (WorkflowWorldError (Step_not_found (the (rq_correlationId q))) None None)) (\<lambda>_. Ret None)
        | Some x \<Rightarrow>
            bindP (throw_if (lazy_step_start c q) EntityConflictError) (\<lambda>_.
            bindP (throw_if (isTerminalStepStatus (sdk c) (s_status x)) EntityConflictError) (\<lambda>_.
            bindP (case cur of None \<Rightarrow> Ret ()
                   | Some (status, _) \<Rightarrow>
                       throw_if (isTerminalWorkflowRunStatus (sdk c) status \<and> s_status x \<noteq> Step_running)
                         (RunExpiredError r status)) (\<lambda>_. Ret (Some x)))))
      else Ret None)"

section \<open>Waits\<close>

text \<open>\<open>`${effectiveRunId}-${data.correlationId}`\<close>.\<close>

definition wait_id :: "run_id \<Rightarrow> string option \<Rightarrow> string" where
  "wait_id r cid = r @ ''-'' @ (case cid of None \<Rightarrow> ''undefined'' | Some x \<Rightarrow> x)"

definition this_wait :: "ctx \<Rightarrow> string \<Rightarrow> wait_row \<Rightarrow> bool" where
  "this_wait c wid w \<longleftrightarrow> w_tenantId w = tenantId c \<and> w_waitId w = wid"

definition insert_wait_stmt :: "ctx \<Rightarrow> wait_row \<Rightarrow> st \<Rightarrow> wait_row option \<times> st" where
  "insert_wait_stmt c w s =
     (if has_row (\<lambda>x. w_tenantId x = w_tenantId w \<and> w_waitId x = w_waitId w) (waits s) then (None, s)
      else (Some w, s\<lparr>waits := waits s @ [w]\<rparr>))"

definition handle_wait_created :: "ctx \<Rightarrow> run_id \<Rightarrow> event_req \<Rightarrow> int \<Rightarrow> locals \<Rightarrow> locals io" where
  "handle_wait_created c r q v lo =
     (case rq_eventData q of None \<Rightarrow> Throw TypeError | Some d \<Rightarrow>
      bindP (stmt (\<lambda>s. insert_wait_stmt c
          \<lparr>w_tenantId = tenantId c, w_waitId = wait_id r (rq_correlationId q), w_runId = r,
           w_status = Wait_waiting, w_resumeAt = ed_resumeAt d, w_completedAt = None,
           w_createdAt = db_now s, w_updatedAt = db_now s, w_specVersion = Some v\<rparr> s))
        (\<lambda>row. case row of
           None \<Rightarrow> Throw EntityConflictError
         | Some w \<Rightarrow> Ret (lo\<lparr>lo_wait := Some w\<rparr>)))"

definition wait_completed_fields :: "ctx \<Rightarrow> wait_row \<Rightarrow> wait_row" where
  "wait_completed_fields c w = w\<lparr>w_status := Wait_completed_st, w_completedAt := Some (now c),
     w_updatedAt := now c\<rparr>"

definition complete_wait_stmt :: "ctx \<Rightarrow> string \<Rightarrow> st \<Rightarrow> wait_row option \<times> st" where
  "complete_wait_stmt c wid s =
     (let hit = (\<lambda>w. this_wait c wid w \<and> w_status w = Wait_waiting)
      in (map_option (wait_completed_fields c) (find hit (waits s)),
          s\<lparr>waits := update_where hit (wait_completed_fields c) (waits s)\<rparr>))"

definition handle_wait_completed :: "ctx \<Rightarrow> run_id \<Rightarrow> event_req \<Rightarrow> locals \<Rightarrow> locals io" where
  "handle_wait_completed c r q lo =
     (let wid = wait_id r (rq_correlationId q) in
      bindP (stmt (complete_wait_stmt c wid)) (\<lambda>row. case row of
        Some w \<Rightarrow> Ret (lo\<lparr>lo_wait := Some w\<rparr>)
      | None \<Rightarrow> bindP (query (\<lambda>s. find (this_wait c wid) (waits s))) (\<lambda>existing. case existing of
          None \<Rightarrow> Throw (WorkflowWorldError (Wait_not_found (case rq_correlationId q of None \<Rightarrow> [] | Some x \<Rightarrow> x)) None None)
        | Some w \<Rightarrow> bindP (throw_if (w_status w = Wait_completed_st) EntityConflictError) (\<lambda>_. Ret lo))))"

end
