(* ===== verification/Create_Hook.thy ===== *)
theory Create_Hook
  imports Create_Entity
begin

text \<open>
  \<open>events.create\<close> of \<open>src/storage.ts\<close>, third part: hooks. A creation claims its token, or
  records a \<open>hook_conflict\<close>, or (forced) takes the token over from the run that holds it; a
  disposal deletes the hook and appends its event in one transaction; a delivery is appended
  only while the run and the hook are live, and is redirected when the hook was taken over.
\<close>

section \<open>Lookups\<close>

definition this_hook :: "ctx \<Rightarrow> string \<Rightarrow> hook_row \<Rightarrow> bool" where
  "this_hook c hookId h \<longleftrightarrow> h_tenantId h = tenantId c \<and> h_hookId h = hookId"

definition find_hook :: "ctx \<Rightarrow> string \<Rightarrow> hook_row option io" where
  "find_hook c hookId = query (\<lambda>s. find (this_hook c hookId) (hooks s))"

definition getHookByToken :: "ctx \<Rightarrow> string \<Rightarrow> hook_row option io" where
  "getHookByToken c token = query (\<lambda>s. find (\<lambda>h. hookTokenEquals c token h \<and> available c s h) (hooks s))"

definition getHookCreatedEvent :: "ctx \<Rightarrow> run_id \<Rightarrow> string \<Rightarrow> bool io" where
  "getHookCreatedEvent c r hookId = query (\<lambda>s. has_row (\<lambda>e. of_run (tenantId c) r e \<and>
     e_correlationId e = Some hookId \<and> e_eventType e = Hook_created) (events s))"

text \<open>\<open>forceClaimRefusal\<close>: the redirect for a delivery to a hook that was taken over.\<close>

definition disposal_data :: "ctx \<Rightarrow> run_id \<Rightarrow> string \<Rightarrow> st \<Rightarrow> event_data option" where
  "disposal_data c r hookId s =
     (case find (\<lambda>e. of_run (tenantId c) r e \<and> e_correlationId e = Some hookId \<and>
                     e_eventType e = Hook_disposed) (events s) of
        None \<Rightarrow> None
      | Some e \<Rightarrow> (case e_eventData e of None \<Rightarrow> e_eventDataJson e | Some d \<Rightarrow> Some d))"

definition forceClaimRefusal :: "ctx \<Rightarrow> run_id \<Rightarrow> string \<Rightarrow> event_data option \<Rightarrow> error option io" where
  "forceClaimRefusal c r hookId d =
     bindP (query (disposal_data c r hookId)) (\<lambda>disposal.
     case Option.bind disposal ed_forceClaimedBy of
       None \<Rightarrow> Ret None
     | Some (byRun, byHook) \<Rightarrow>
         let token = (case Option.bind d ed_token of Some t \<Rightarrow> Some t
                      | None \<Rightarrow> Option.bind disposal ed_token) in
         bindP (case token of
             None \<Rightarrow> Ret None
           | Some t \<Rightarrow> query (\<lambda>s. find (hookTokenEquals c t) (hooks s))) (\<lambda>successor.
         Ret (Some (HookForceClaimedError (case token of None \<Rightarrow> [] | Some t \<Rightarrow> t)
           (case successor of None \<Rightarrow> byRun | Some h \<Rightarrow> h_runId h)
           (case successor of None \<Rightarrow> byHook | Some h \<Rightarrow> h_hookId h)))))"

text \<open>The unlocked existence check ahead of \<open>hook_received\<close> and \<open>hook_disposed\<close>.\<close>

definition throw_hook_gone :: "ctx \<Rightarrow> run_id \<Rightarrow> string \<Rightarrow> bool \<Rightarrow> event_data option \<Rightarrow> 'a io" where
  "throw_hook_gone c r hookId received d =
     bindP (if received then forceClaimRefusal c r hookId d else Ret None) (\<lambda>refusal. case refusal of
       Some e \<Rightarrow> Throw e | None \<Rightarrow> Throw (HookNotFoundError hookId))"

definition validate_hook :: "ctx \<Rightarrow> run_id \<Rightarrow> event_req \<Rightarrow> unit io" where
  "validate_hook c r q =
     (if isHookEventRequiringExistence (sdk c) (rq_eventType q) \<and> truthy_string (rq_correlationId q) then
        bindP (find_hook c (the (rq_correlationId q))) (\<lambda>existing. case existing of
          Some h \<Rightarrow> Ret ()
        | None \<Rightarrow> throw_hook_gone c r (the (rq_correlationId q)) (rq_eventType q = Hook_received)
                    (rq_eventData q))
      else Ret ())"

section \<open>Creating a hook\<close>

definition hook_values ::
  "ctx \<Rightarrow> run_id \<Rightarrow> string \<Rightarrow> string \<Rightarrow> event_data \<Rightarrow> int \<Rightarrow> claimed_from option \<Rightarrow> st \<Rightarrow> hook_row" where
  "hook_values c r hookId token d v from s =
     \<lparr>h_tenantId = tenantId c, h_runId = r, h_hookId = hookId, h_token = token, h_ownerId = [],
      h_projectId = [], h_environment = [], h_createdAt = db_now s,
      h_tokenRetentionUntil = ed_tokenRetentionUntil d, h_metadataJson = None,
      h_metadata = ed_metadata d, h_specVersion = Some v,
      h_isWebhook = (case ed_isWebhook d of None \<Rightarrow> Some True | Some b \<Rightarrow> Some b),
      h_isSystem = Some (case ed_isSystem d of None \<Rightarrow> False | Some b \<Rightarrow> b),
      h_claimedFrom = from, h_claimsToken = True\<rparr>"

definition journaledHookCreated :: "ctx \<Rightarrow> 'a io \<Rightarrow> 'a io" where
  "journaledHookCreated c p =
     catchP p (\<lambda>e. if is_correlated_violation c e then Throw EntityConflictError else Throw e)"

text \<open>\<open>insertFreshHook\<close>: \<open>None\<close> when another hook claimed the token first.\<close>

definition insertFreshHook ::
  "ctx \<Rightarrow> run_id \<Rightarrow> string \<Rightarrow> string \<Rightarrow> event_data \<Rightarrow> int \<Rightarrow> locals \<Rightarrow> locals option io" where
  "insertFreshHook c r hookId token d v lo =
     catchP
       (journaledHookCreated c (txn (
          bindP (exec (release_ended_token c token)) (\<lambda>_.
          bindP (stmtE (\<lambda>s. insert_hook_stmt (hook_values c r hookId token d v None s) s)) (\<lambda>hookValue.
          bindP (write_event c r (Some hookId) Hook_created (lo_storedEventData lo) (Some v)) (\<lambda>value.
          case value of
            None \<Rightarrow> Throw EntityConflictError
          | Some x \<Rightarrow>
              Ret (Some (lo\<lparr>lo_hook := (case hookValue of None \<Rightarrow> lo_hook lo | Some h \<Rightarrow> Some h),
                            lo_value := Some x\<rparr>))))))))
       (\<lambda>e. if isHookTokenClaimViolation e then Ret None else Throw e)"

text \<open>
  The ways a creation can end in a \<open>hook_conflict\<close>: the reason (\<open>None\<close> for the plain conflict)
  and the run named on it.
\<close>

type_synonym conflict = "string option \<times> run_id option"

definition answerLostClaim :: "ctx \<Rightarrow> run_id \<Rightarrow> string \<Rightarrow> string \<Rightarrow> conflict io" where
  "answerLostClaim c r hookId token =
     bindP (getHookByToken c token) (\<lambda>owner. case owner of
       None \<Rightarrow> Throw (WorkflowWorldError (Token_changed_owner r) (Some 503) None)
     | Some h \<Rightarrow>
         if h_runId h = r \<and> h_hookId h = hookId then Throw EntityConflictError
         else Ret (None, Some (h_runId h)))"

definition fresh_or_lost ::
  "ctx \<Rightarrow> run_id \<Rightarrow> string \<Rightarrow> string \<Rightarrow> event_data \<Rightarrow> int \<Rightarrow> locals \<Rightarrow> (conflict + locals) io" where
  "fresh_or_lost c r hookId token d v lo =
     bindP (insertFreshHook c r hookId token d v lo) (\<lambda>created. case created of
       Some lo' \<Rightarrow> Ret (Inr lo')
     | None \<Rightarrow> bindP (answerLostClaim c r hookId token) (\<lambda>conf. Ret (Inl conf)))"

section \<open>Taking a token over\<close>

datatype takeover =
    Free
  | Owned
  | Refused string run_id
  | Taken hook_row event_data "event_id \<times> timestamp"

definition claimed_from_victim :: "hook_row \<Rightarrow> run_row option \<Rightarrow> bool \<Rightarrow> claimed_from" where
  "claimed_from_victim victim victimRun running =
     \<lparr>cf_runId = h_runId victim, cf_hookId = h_hookId victim,
      cf_workflowName = (if running then map_option r_workflowName victimRun else None),
      cf_deploymentId = (if running then map_option r_deploymentId victimRun else None),
      cf_runSpecVersion = (if running then Option.bind victimRun r_specVersion else None)\<rparr>"

text \<open>The writes of a takeover, once it is decided.\<close>

definition take_token ::
  "ctx \<Rightarrow> run_id \<Rightarrow> string \<Rightarrow> string \<Rightarrow> event_data \<Rightarrow> int \<Rightarrow> event_data option \<Rightarrow>
   hook_row \<Rightarrow> run_row option \<Rightarrow> bool \<Rightarrow> takeover io" where
  "take_token c r hookId token d v stored victim victimRun running =
     (let from = claimed_from_victim victim victimRun running;
          journaledData = (case stored of None \<Rightarrow> no_data | Some x \<Rightarrow> x)\<lparr>ed_forceClaimedFrom := Some from\<rparr>
      in
      bindP (if running then
               bindP (write_event c (h_runId victim) (Some (h_hookId victim)) Hook_disposed
                    (Some (no_data\<lparr>ed_token := Some token, ed_forceClaimedBy := Some (r, hookId)\<rparr>))
                    (Some (case Option.bind victimRun r_specVersion of None \<Rightarrow> v | Some w \<Rightarrow> w))) (\<lambda>disposed.
               throw_if (disposed = None) EntityConflictError)
             else Ret ()) (\<lambda>_.
      bindP (exec (\<lambda>s. s\<lparr>hooks := delete_where (this_hook c (h_hookId victim)) (hooks s)\<rparr>)) (\<lambda>_.
      bindP (stmtE (\<lambda>s. let row = hook_values c r hookId token d v (Some from) s in
               case insert_hook_strict_stmt row s of
                 (Inl e, s') \<Rightarrow> (Inl e, s') | (Inr x, s') \<Rightarrow> (Inr row, s'))) (\<lambda>inserted.
      bindP (write_event c r (Some hookId) Hook_created (Some journaledData) (Some v)) (\<lambda>value.
      case value of
        None \<Rightarrow> Throw EntityConflictError
      | Some x \<Rightarrow> Ret (Taken inserted journaledData x))))))"

text \<open>
  One attempt: the owner is read without a lock, then the transaction locks the owner's run
  and the hook and finds out whether the owner is still the same.
\<close>

definition takeoverAttempt ::
  "ctx \<Rightarrow> run_id \<Rightarrow> string \<Rightarrow> string \<Rightarrow> event_data \<Rightarrow> int \<Rightarrow> event_data option \<Rightarrow> takeover io" where
  "takeoverAttempt c r hookId token d v stored =
     bindP (query (\<lambda>s. find (hookTokenEquals c token) (hooks s))) (\<lambda>candidate. case candidate of
       None \<Rightarrow> Ret Free
     | Some cand \<Rightarrow> txn (
         bindP (full_run c (h_runId cand)) (\<lambda>victimRun.
         bindP (query (\<lambda>s. map_option (\<lambda>h. (h, retained s h)) (find (hookTokenEquals c token) (hooks s)))) (\<lambda>locked.
         case locked of
           None \<Rightarrow> Ret Free
         | Some (victim, isRetained) \<Rightarrow>
             if h_runId victim \<noteq> h_runId cand \<or> h_hookId victim \<noteq> h_hookId cand then Throw Owner_changed
             else if h_runId victim = r \<and> h_hookId victim = hookId then Ret Owned
             else let running = (case victimRun of None \<Rightarrow> False
                        | Some x \<Rightarrow> \<not> isTerminalWorkflowRunStatus (sdk c) (r_status x)) in
               if victimRun \<noteq> None \<and> \<not> running \<and> \<not> isRetained then Ret Free
               else if running \<and> (case Option.bind victimRun r_specVersion of
                                    None \<Rightarrow> SPEC_VERSION_LEGACY (sdk c) | Some w \<Rightarrow> w)
                                 < SPEC_VERSION_SUPPORTS_HOOK_FORCE_CLAIM (sdk c)
                 then Ret (Refused ''victim-spec-version'' (h_runId victim))
               else take_token c r hookId token d v stored victim victimRun running))))"

definition MAX_OWNER_CHANGES :: nat where "MAX_OWNER_CHANGES = 5"

fun takeover_loop ::
  "ctx \<Rightarrow> run_id \<Rightarrow> string \<Rightarrow> string \<Rightarrow> event_data \<Rightarrow> int \<Rightarrow> event_data option \<Rightarrow> nat \<Rightarrow> takeover io" where
  "takeover_loop c r hookId token d v stored 0 =
     Throw (WorkflowWorldError (Token_changed_owner_repeatedly token) (Some 503) None)"
| "takeover_loop c r hookId token d v stored (Suc n) =
     catchP (takeoverAttempt c r hookId token d v stored)
       (\<lambda>e. if e = Owner_changed \<or> isHookTokenClaimViolation e
            then takeover_loop c r hookId token d v stored n else Throw e)"

definition force_claim ::
  "ctx \<Rightarrow> run_id \<Rightarrow> string \<Rightarrow> string \<Rightarrow> event_data \<Rightarrow> int \<Rightarrow> locals \<Rightarrow> (conflict + locals) io" where
  "force_claim c r hookId token d v lo =
     bindP (journaledHookCreated c
              (takeover_loop c r hookId token d v (lo_storedEventData lo) (Suc MAX_OWNER_CHANGES)))
       (\<lambda>t. case t of
          Free \<Rightarrow> fresh_or_lost c r hookId token d v lo
        | Owned \<Rightarrow> Throw EntityConflictError
        | Refused reason conf \<Rightarrow> Ret (Inl (Some reason, Some conf))
        | Taken h jd x \<Rightarrow> Ret (Inr (lo\<lparr>lo_hook := Some h, lo_storedEventData := Some jd,
                                        lo_value := Some x\<rparr>)))"

text \<open>The row of a creation whose hook exists but whose event was never journaled.\<close>

definition recover_orphan :: "ctx \<Rightarrow> run_id \<Rightarrow> string \<Rightarrow> locals \<Rightarrow> (conflict + locals) io" where
  "recover_orphan c r hookId lo =
     bindP (getHookCreatedEvent c r hookId) (\<lambda>journaled.
     bindP (throw_if journaled EntityConflictError) (\<lambda>_.
     bindP (find_hook c hookId) (\<lambda>row.
     Ret (Inr (lo\<lparr>lo_hook := (case row of None \<Rightarrow> lo_hook lo | Some h \<Rightarrow> Some h)\<rparr>)))))"

definition create_hook ::
  "ctx \<Rightarrow> run_id \<Rightarrow> string \<Rightarrow> string \<Rightarrow> event_data \<Rightarrow> int \<Rightarrow> locals \<Rightarrow> (conflict + locals) io" where
  "create_hook c r hookId token d v lo =
     bindP (getHookByToken c token) (\<lambda>existing. case existing of
       None \<Rightarrow> fresh_or_lost c r hookId token d v lo
     | Some h \<Rightarrow>
         if h_runId h = r \<and> h_hookId h = hookId then recover_orphan c r hookId lo
         else if \<not> ed_force d then Ret (Inl (None, Some (h_runId h)))
         else force_claim c r hookId token d v lo)"

text \<open>The \<open>hook_conflict\<close> event, and the result returned with it.\<close>

definition record_conflict ::
  "ctx \<Rightarrow> run_id \<Rightarrow> string \<Rightarrow> string \<Rightarrow> int \<Rightarrow> create_params \<Rightarrow> conflict \<Rightarrow> event_result io" where
  "record_conflict c r hookId token v pa conf =
     (let d = no_data\<lparr>ed_token := Some token, ed_conflictingRunId := snd conf,
                      ed_forceRefusedReason := fst conf\<rparr> in
      bindP (write_event c r (Some hookId) Hook_conflict (Some d) (Some v)) (\<lambda>value.
      case value of
        None \<Rightarrow> Throw EntityConflictError
      | Some (i, at) \<Rightarrow>
          Ret (no_result\<lparr>er_event := Some (stripEventDataRefs (sdk c)
             \<lparr>e_tenantId = tenantId c, e_eventId = i, e_eventType = Hook_conflict,
              e_correlationId = Some hookId, e_createdAt = at, e_runId = r, e_eventDataJson = None,
              e_eventData = Some d, e_specVersion = None\<rparr>
             (case pa_resolveData pa of None \<Rightarrow> Resolve_all | Some x \<Rightarrow> x))\<rparr>)))"

definition handle_hook_created ::
  "ctx \<Rightarrow> run_id \<Rightarrow> event_req \<Rightarrow> int \<Rightarrow> create_params \<Rightarrow> locals \<Rightarrow> (event_result + locals) io" where
  "handle_hook_created c r q v pa lo =
     (case (rq_eventData q, rq_correlationId q) of
        (None, _) \<Rightarrow> Throw TypeError
      | (Some d, None) \<Rightarrow> Throw (PgError ''23502'' [])
      | (Some d, Some hookId) \<Rightarrow>
          bindP (throw_if (isStartHookId (sdk c) r hookId)
            (WorkflowWorldError (Start_hook_reserved hookId) (Some 400) None)) (\<lambda>_.
          case ed_token d of
            None \<Rightarrow> Throw (PgError ''23502'' [])
          | Some token \<Rightarrow>
              bindP (create_hook c r hookId token d v lo) (\<lambda>outcome. case outcome of
                Inr lo' \<Rightarrow> Ret (Inr lo')
              | Inl conf \<Rightarrow> bindP (record_conflict c r hookId token v pa conf) (\<lambda>res. Ret (Inl res)))))"

section \<open>Disposal and delivery\<close>

definition delete_hook_stmt :: "ctx \<Rightarrow> string \<Rightarrow> st \<Rightarrow> bool \<times> st" where
  "delete_hook_stmt c hookId s =
     (has_row (this_hook c hookId) (hooks s), s\<lparr>hooks := delete_where (this_hook c hookId) (hooks s)\<rparr>)"

definition handle_hook_disposed :: "ctx \<Rightarrow> run_id \<Rightarrow> event_req \<Rightarrow> int \<Rightarrow> locals \<Rightarrow> locals io" where
  "handle_hook_disposed c r q v lo =
     (if truthy_string (rq_correlationId q) then
        txn (
          bindP (stmt (delete_hook_stmt c (the (rq_correlationId q)))) (\<lambda>deleted.
          bindP (throw_if (\<not> deleted) EntityConflictError) (\<lambda>_.
          bindP (write_event c r (rq_correlationId q) Hook_disposed (lo_storedEventData lo) (Some v)) (\<lambda>value.
          case value of
            None \<Rightarrow> Throw EntityConflictError
          | Some x \<Rightarrow> Ret (lo\<lparr>lo_value := Some x\<rparr>)))))
      else Ret lo)"

definition handle_hook_received :: "ctx \<Rightarrow> run_id \<Rightarrow> event_req \<Rightarrow> int \<Rightarrow> locals \<Rightarrow> locals io" where
  "handle_hook_received c r q v lo = txn (
     bindP (full_run c r) (\<lambda>row. case row of
       None \<Rightarrow> Throw (WorkflowRunNotFoundError r)
     | Some x \<Rightarrow>
         bindP (throw_if (isTerminalWorkflowRunStatus (sdk c) (r_status x)) (RunExpiredError r (r_status x))) (\<lambda>_.
         bindP (if truthy_string (rq_correlationId q) then
                  bindP (find_hook c (the (rq_correlationId q))) (\<lambda>live. case live of
                    Some h \<Rightarrow> Ret ()
                  | None \<Rightarrow> throw_hook_gone c r (the (rq_correlationId q)) True (lo_storedEventData lo))
                else Ret ()) (\<lambda>_.
         bindP (write_event c r (rq_correlationId q) Hook_received (lo_storedEventData lo) (Some v)) (\<lambda>value.
         case value of
           None \<Rightarrow> Throw EntityConflictError
         | Some x \<Rightarrow> Ret (lo\<lparr>lo_value := Some x\<rparr>))))))"

end
