(* ===== verification/Create.thy ===== *)
theory Create
  imports Create_Hook
begin

text \<open>
  \<open>events.create\<close> of \<open>src/storage.ts\<close>, last part: the terminal-state validation, the data
  stored with the event, the dispatch on the event type, the generic insert with its
  translation of duplicate correlated events, the event page of the response, and the
  in-band fence around the whole.
\<close>

section \<open>Version and terminal-state validation\<close>

text \<open>\<open>Some\<close> is the early return of an idempotent \<open>run_cancelled\<close>.\<close>

definition resolve_of :: "create_params \<Rightarrow> resolve_data" where
  "resolve_of pa = (case pa_resolveData pa of None \<Rightarrow> Resolve_all | Some x \<Rightarrow> x)"

definition cancel_again ::
  "ctx \<Rightarrow> run_id \<Rightarrow> event_req \<Rightarrow> int \<Rightarrow> create_params \<Rightarrow> event_result io" where
  "cancel_again c r q v pa =
     bindP (full_run c r) (\<lambda>fullRun.
     bindP (write_event c r (rq_correlationId q) (rq_eventType q) (rq_eventData q) (Some v)) (\<lambda>value.
     case value of
       None \<Rightarrow> Throw EntityConflictError
     | Some (i, at) \<Rightarrow>
         Ret (no_result\<lparr>er_event := Some (stripEventDataRefs (sdk c)
                (data_event c r q (rq_eventData q) i at) (resolve_of pa)),
              er_run := fullRun,
              er_maxEvents := (if fullRun = None then None else Some (maxEventsPerRun c))\<rparr>)))"

definition validate_terminal ::
  "ctx \<Rightarrow> run_id \<Rightarrow> event_req \<Rightarrow> int \<Rightarrow> create_params \<Rightarrow> current_run \<Rightarrow> event_result option io" where
  "validate_terminal c r q v pa cur =
     (case cur of None \<Rightarrow> Ret None | Some (status, _) \<Rightarrow>
      if \<not> isTerminalWorkflowRunStatus (sdk c) status then Ret None
      else if rq_eventType q = Run_cancelled \<and> status = Run_cancelled_st
        then bindP (cancel_again c r q v pa) (\<lambda>res. Ret (Some res))
      else if rq_eventType q = Run_started then Throw (RunExpiredError r status)
      else if isTerminalRunEventType (sdk c) (rq_eventType q) then Throw EntityConflictError
      else if isChildEntityCreationEvent (sdk c) q then Throw EntityConflictError
      else if rq_eventType q = Attr_set then Throw EntityConflictError
      else Ret None)"

definition stored_event_data :: "ctx \<Rightarrow> run_id \<Rightarrow> event_req \<Rightarrow> bool \<Rightarrow> event_data option" where
  "stored_event_data c r q startCreates =
     (if rq_eventType q = Run_started then None
      else case rq_eventData q of
        None \<Rightarrow> None
      | Some d \<Rightarrow>
          if rq_eventType q = Step_started \<and> \<not> startCreates \<and> ed_input d \<noteq> None
            then Some (d\<lparr>ed_input := None\<rparr>)
          else if rq_eventType q = Run_created then Some (with_start_hook c r (start_hook_of q) d)
          else Some d)"

section \<open>Dispatch on the event type\<close>

definition continue :: "locals io \<Rightarrow> (event_result + locals) io" where
  "continue p = bindP p (\<lambda>lo. Ret (Inr lo))"

definition handle_entity ::
  "ctx \<Rightarrow> run_id \<Rightarrow> event_req \<Rightarrow> int \<Rightarrow> create_params \<Rightarrow> current_run \<Rightarrow> step_row option \<Rightarrow> locals \<Rightarrow>
   (event_result + locals) io" where
  "handle_entity c r q v pa cur validated lo =
     (case rq_eventType q of
        Run_created \<Rightarrow> continue (handle_run_created c r q v lo)
      | Run_started \<Rightarrow> handle_run_started c r cur lo
      | Run_completed \<Rightarrow> continue (handle_run_completed c r q lo)
      | Run_failed \<Rightarrow> continue (handle_run_failed c r q lo)
      | Run_cancelled \<Rightarrow> continue (handle_run_cancelled c r lo)
      | Attr_set \<Rightarrow> continue (handle_attr_set c r q lo)
      | Step_created \<Rightarrow> continue (handle_step_created c r q v lo)
      | Step_started \<Rightarrow> continue (handle_step_started c r q v cur validated lo)
      | Step_completed \<Rightarrow> continue (handle_step_completed c r q lo)
      | Step_failed \<Rightarrow> continue (handle_step_failed c r q lo)
      | Step_retrying \<Rightarrow> continue (handle_step_retrying c r q lo)
      | Hook_created \<Rightarrow> handle_hook_created c r q v pa lo
      | Hook_disposed \<Rightarrow> continue (handle_hook_disposed c r q v lo)
      | Wait_created \<Rightarrow> continue (handle_wait_created c r q v lo)
      | Wait_completed \<Rightarrow> continue (handle_wait_completed c r q lo)
      | Hook_received \<Rightarrow> continue (handle_hook_received c r q v lo)
      | Hook_conflict \<Rightarrow> Ret (Inr lo)
      | Other_event _ \<Rightarrow> Ret (Inr lo))"

section \<open>The generic insert\<close>

definition deduplicated :: "ctx \<Rightarrow> event_req \<Rightarrow> bool" where
  "deduplicated c q \<longleftrightarrow> isChildEntityCreationEventType (sdk c) (rq_eventType q) \<or>
     (rq_eventType q = Attr_set \<and> Option.bind (rq_eventData q) ed_writerType = Some ''workflow'')"

definition generic_insert :: "ctx \<Rightarrow> run_id \<Rightarrow> event_req \<Rightarrow> int \<Rightarrow> locals \<Rightarrow> locals io" where
  "generic_insert c r q v lo =
     (if lo_value lo \<noteq> None then Ret lo
      else catchP
        (bindP (write_event c r (rq_correlationId q) (rq_eventType q) (lo_storedEventData lo) (Some v)) (\<lambda>value.
         case value of
           None \<Rightarrow> Ret lo
         | Some x \<Rightarrow> Ret (lo\<lparr>lo_value := Some x\<rparr>)))
        (\<lambda>e. if deduplicated c q \<and> is_correlated_violation c e then Throw EntityConflictError
             else Throw e))"

section \<open>The response\<close>

text \<open>\<open>row.eventData ||= row.eventDataJson\<close>, parse, strip.\<close>

definition present_event :: "ctx \<Rightarrow> resolve_data \<Rightarrow> event_row \<Rightarrow> event_row" where
  "present_event c rd e = stripEventDataRefs (sdk c)
     (e\<lparr>e_eventData := (case e_eventData e of None \<Rightarrow> e_eventDataJson e | Some d \<Rightarrow> Some d)\<rparr>) rd"

text \<open>The events of a run, \<open>ORDER BY id\<close>.\<close>

definition run_log :: "ctx \<Rightarrow> run_id \<Rightarrow> st \<Rightarrow> event_row list" where
  "run_log c r s = sort_key e_eventId (filter (of_run (tenantId c) r) (events s))"

definition last_id :: "event_row list \<Rightarrow> event_id option" where
  "last_id es = (if es = [] then None else Some (e_eventId (last es)))"

definition reportSkippedSlots ::
  "ctx \<Rightarrow> run_id \<Rightarrow> event_id \<Rightarrow> int \<Rightarrow> resolve_data \<Rightarrow> (event_row list \<times> bool) option io" where
  "reportSkippedSlots c r committed askedFor rd =
     (case eventIdToSlot (sdk c) committed of
        None \<Rightarrow> Ret None
      | Some slot \<Rightarrow>
          if askedFor < int (FIRST_EVENT_SLOT (sdk c)) \<or> int slot \<le> askedFor + 1 then Ret None
          else bindP (query (\<lambda>s. filter (\<lambda>e. slotToEventId (sdk c) (nat askedFor) < e_eventId e \<and>
                        e_eventId e < committed) (run_log c r s))) (\<lambda>rows.
               Ret (Some (map (present_event c rd) rows, int (length rows) < int slot - askedFor - 1))))"

definition skipped_page ::
  "ctx \<Rightarrow> run_id \<Rightarrow> create_params \<Rightarrow> event_row \<Rightarrow> (event_row list \<times> event_id option \<times> bool) option io" where
  "skipped_page c r pa parsed =
     (case (pa_eventCount pa, pa_sinceCursor pa) of
        (Some n, None) \<Rightarrow>
          bindP (reportSkippedSlots c r (e_eventId parsed) n (resolve_of pa)) (\<lambda>report.
            Ret (map_option (\<lambda>(es, more). (es, None, more)) report))
      | _ \<Rightarrow> Ret None)"

definition preload_page ::
  "ctx \<Rightarrow> run_id \<Rightarrow> create_params \<Rightarrow> (event_row list \<times> event_id option \<times> bool) io" where
  "preload_page c r pa =
     bindP (query (run_log c r)) (\<lambda>rows.
       let es = map (present_event c (resolve_of pa)) rows in Ret (es, last_id es, False))"

definition delta_page ::
  "ctx \<Rightarrow> run_id \<Rightarrow> create_params \<Rightarrow> event_id \<Rightarrow> (event_row list \<times> event_id option \<times> bool) io" where
  "delta_page c r pa cursor =
     bindP (query (\<lambda>s. take 101 (filter (\<lambda>e. cursor < e_eventId e) (run_log c r s)))) (\<lambda>rows.
       let es = map (present_event c (resolve_of pa)) (take 100 rows)
       in Ret (es, last_id es, 100 < length rows))"

definition event_page ::
  "ctx \<Rightarrow> run_id \<Rightarrow> event_req \<Rightarrow> create_params \<Rightarrow> locals \<Rightarrow> event_row \<Rightarrow>
   (event_row list \<times> event_id option \<times> bool) option io" where
  "event_page c r q pa lo parsed =
     bindP (skipped_page c r pa parsed) (\<lambda>page1.
     bindP (if rq_eventType q = Run_started \<and> lo_run lo \<noteq> None \<and> \<not> pa_skipPreload pa
            then bindP (preload_page c r pa) (\<lambda>p. Ret (Some p)) else Ret page1) (\<lambda>page2.
     case pa_sinceCursor pa of
       None \<Rightarrow> Ret page2
     | Some cursor \<Rightarrow> bindP (delta_page c r pa cursor) (\<lambda>p. Ret (Some p))))"

definition finish ::
  "ctx \<Rightarrow> run_id \<Rightarrow> event_req \<Rightarrow> create_params \<Rightarrow> locals \<Rightarrow> event_result io" where
  "finish c r q pa lo =
     (case lo_value lo of
        Some (i, at) \<Rightarrow>
          let parsed = data_event c r q (lo_storedEventData lo) i at in
          bindP (event_page c r q pa lo parsed) (\<lambda>page.
          Ret \<lparr>er_event = Some (stripEventDataRefs (sdk c) parsed (resolve_of pa)), er_run = lo_run lo,
               er_step = lo_step lo, er_hook = lo_hook lo, er_wait = lo_wait lo,
               er_stepCreated = lo_stepCreatedLazily lo,
               er_maxEvents = (if lo_run lo = None then None else Some (maxEventsPerRun c)),
               er_page = page\<rparr>)
      | None \<Rightarrow> Throw EntityConflictError)"

section \<open>create\<close>

definition create_valid ::
  "ctx \<Rightarrow> run_id \<Rightarrow> event_req \<Rightarrow> create_params \<Rightarrow> int \<Rightarrow> current_run \<Rightarrow> event_result io" where
  "create_valid c r q pa v cur =
     bindP (throw_if (rq_eventType q = Attr_set \<and> cur = None) (WorkflowRunNotFoundError r)) (\<lambda>_.
     bindP (validate_terminal c r q v pa cur) (\<lambda>early. case early of
       Some res \<Rightarrow> Ret res
     | None \<Rightarrow>
         bindP (validate_step c r q cur) (\<lambda>validated.
         bindP (validate_hook c r q) (\<lambda>_.
         bindP (handle_entity c r q v pa cur validated
             (no_locals\<lparr>lo_storedEventData := stored_event_data c r q (start_creates_step c q cur v)\<rparr>))
           (\<lambda>outcome. case outcome of
              Inl res \<Rightarrow> Ret res
            | Inr lo \<Rightarrow> bindP (generic_insert c r q v lo) (\<lambda>lo'. finish c r q pa lo'))))))"

definition create_unfenced ::
  "ctx \<Rightarrow> run_id option \<Rightarrow> event_req \<Rightarrow> create_params \<Rightarrow> event_result io" where
  "create_unfenced c runId q pa =
     bindP (check_hook_retention c q) (\<lambda>_.
     bindP (case start_hook_of q of None \<Rightarrow> Ret () | Some h \<Rightarrow> assertStartHookAdmissible c h) (\<lambda>_.
     bindP (effective_run_id c runId q) (\<lambda>r.
     bindP (check_run_id_timestamp c runId q r) (\<lambda>_.
     let v = effective_spec_version c q in
     bindP (load_current_run c r q v) (\<lambda>cur.
     case cur of
       Some (status, ver) \<Rightarrow>
         if requiresNewerWorld (sdk c) ver
           then Throw (RunNotSupportedError ver (SPEC_VERSION_MAX_SUPPORTED (sdk c)))
         else if isLegacySpecVersion (sdk c) ver then handleLegacyEventPostgres c r q pa
         else create_valid c r q pa v cur
     | None \<Rightarrow> create_valid c r q pa v cur)))))"

text \<open>The largest safe integer of JavaScript.\<close>

definition MAX_SAFE_INTEGER :: int where "MAX_SAFE_INTEGER = 9007199254740991"

definition create_fenced ::
  "ctx \<Rightarrow> run_id \<Rightarrow> event_req \<Rightarrow> create_params \<Rightarrow> int \<Rightarrow> event_result io" where
  "create_fenced c r q pa expected = txn (
     bindP (query (\<lambda>s. find (\<lambda>x. sl_tenantId x = tenantId c \<and> sl_runId x = r) (eventSlots s))) (\<lambda>row.
     bindP (case row of None \<Rightarrow> Ret ()
            | Some x \<Rightarrow> throw_if (sl_seqInBand x \<noteq> expected) (InBandSupersededError r expected (sl_seqInBand x))) (\<lambda>_.
     bindP (exec (\<lambda>s. s\<lparr>pendingFence := Some \<lparr>pf_tenantId = tenantId c, pf_runId = r,
              pf_expected = expected, pf_occurredAt = pa_occurredAt pa, pf_consumed = False\<rparr>\<rparr>)) (\<lambda>_.
     bindP (create_unfenced c (Some r) q pa) (\<lambda>res.
     bindP (exec (\<lambda>s. s\<lparr>pendingFence := None\<rparr>)) (\<lambda>_. Ret res))))))"

definition create ::
  "ctx \<Rightarrow> run_id option \<Rightarrow> event_req \<Rightarrow> create_params \<Rightarrow> event_result io" where
  "create c runId q pa =
     (case runId of
        None \<Rightarrow> create_unfenced c runId q pa
      | Some r \<Rightarrow>
          if \<not> pa_inBand pa \<or> r = [] \<or> rq_eventType q = Run_created then create_unfenced c runId q pa
          else (case pa_expectedSeqInBand pa of
                  None \<Rightarrow> Throw (WorkflowWorldError (Missing_expected_seq r) (Some 400) None)
                | Some n \<Rightarrow>
                    if n < 0 \<or> MAX_SAFE_INTEGER < n
                    then Throw (WorkflowWorldError (Missing_expected_seq r) (Some 400) None)
                    else create_fenced c r q pa n))"

end
