(* ===== verification/Guarantee.thy ===== *)
theory Guarantee
  imports Create
begin

text \<open>
  The interface between \<open>events.create\<close> and the tables: \<open>create_guarantee\<close> lists the statements
  \<open>create\<close> issues, and \<open>create_safe\<close>, proved once inside the locale, says that an invariant and
  a relation kept by each of them are kept by \<open>create\<close>, in any interleaving. Every
  whole-program property of the development (the log only grows, slots are dense, a token
  has one claim, a terminal step stays terminal, tenants are isolated) is an interpretation
  of this locale.
\<close>

text \<open>A \<open>run_created\<close> that reaches the generic insert has its event already.\<close>

lemma handle_run_created_writes: "rets (\<lambda>lo. lo_value lo \<noteq> None) (handle_run_created c r q v lo)"
  unfolding handle_run_created_def Let_def
  by (auto split: option.split prod.split intro!: rets_bindP')

lemma handle_entity_writes_run_created:
  "rets (\<lambda>x. case x of Inl _ \<Rightarrow> True | Inr lo \<Rightarrow> rq_eventType q \<noteq> Run_created \<or> lo_value lo \<noteq> None)
     (handle_entity c r q v pa cur x lo)"
proof (cases "rq_eventType q = Run_created")
  case True
  then show ?thesis
    by (auto simp: handle_entity_def continue_def intro!: rets_bindP [OF handle_run_created_writes])
next
  case False
  have "rets (\<lambda>_. True) p" for p :: "(event_result + locals) io"
    by (induction p rule: prog_induct) auto
  with False show ?thesis by (simp add: sum.case_eq_if)
qed

lemma insert_created_stmtD:
  "insert_created_stmt W e s = (Inr at, u) \<Longrightarrow> \<exists>x. insert_event_stmt W e s = (Inr (Some x), u)"
  by (auto simp: insert_created_stmt_def split: prod.splits sum.splits option.splits)

text \<open>Either half of a contract may be trivial.\<close>

abbreviation always :: "st \<Rightarrow> bool" where
  "always s \<equiv> True"

abbreviation anywhere :: "st \<Rightarrow> st \<Rightarrow> bool" where
  "anywhere s s' \<equiv> True"

locale st_order = state_order I R for I :: "st \<Rightarrow> bool" and R :: "st \<Rightarrow> st \<Rightarrow> bool"
begin

lemma safe_created_stmt:
  assumes "keeps I R (\<lambda>s. snd (insert_event_stmt W (e s) s))"
  shows "safe I R (stmtE (\<lambda>s. insert_created_stmt W (e s) s))"
proof (rule safe_stmtE)
  fix s a u assume "I s" and "insert_created_stmt W (e s) s = (Inr a, u)"
  with assms show "I u \<and> R s u" unfolding keeps_def by (metis insert_created_stmtD snd_conv)
qed

lemma safe_insert_run:
  assumes "\<And>a. admit = Some a \<Longrightarrow> safe I R a"
    and "keeps I R (\<lambda>s. snd (insert_run_stmt (rv s) s))"
    and "\<And>row. safe I R (insert_created_event c row d v)"
  shows "safe I R (insertRunWithCreatedEvent c rv d v admit)"
proof -
  have "safe I R (case admit of None \<Rightarrow> Ret (True, None) | Some a \<Rightarrow> bindP a (\<lambda>(b, x). Ret (b, Some x)))"
    by (cases admit) (auto intro!: safe_intros assms(1))
  then show ?thesis
    unfolding insertRunWithCreatedEvent_def
    by (intro safe_txn, elim safe_bindP) (intro safe_intros assms(2,3))
qed

end

text \<open>The statements on the runs, steps, hooks, waits and admissions.\<close>

locale entity_guarantee = st_order I R for I :: "st \<Rightarrow> bool" and R :: "st \<Rightarrow> st \<Rightarrow> bool" +
  fixes c :: ctx
  assumes k_run_started: "keeps I R (set_run_started c r)"
    and k_run_completed: "keeps I R (set_run_terminal c r (completed_fields c ed))"
    and k_run_failed: "keeps I R (set_run_terminal c r (failed_fields c ed))"
    and k_run_cancelled: "keeps I R (set_run_terminal c r (cancelled_fields c))"
    and k_attributes: "keeps I R (set_attributes c r changes)"
    and k_legacy_cancelled: "keeps I R (set_legacy_cancelled c r)"
    and k_run_hooks: "keeps I R (delete_run_hooks c r)"
    and k_legacy_hooks: "keeps I R (delete_legacy_hooks c r)"
    and k_run_waits: "keeps I R (delete_run_waits c r)"
    and k_step_insert: "keeps I R (\<lambda>s. snd (insert_step_stmt (step_values c r sid name inp n s) s))"
    and k_step_started: "keeps I R (\<lambda>s. snd (update_step_stmt c r cid (step_started_fields c owner) s))"
    and k_step_completed: "keeps I R (\<lambda>s. snd (update_step_stmt c r cid (step_completed_fields c ed) s))"
    and k_step_failed: "keeps I R (\<lambda>s. snd (update_step_stmt c r cid (step_failed_fields c ed) s))"
    and k_step_retrying: "keeps I R (\<lambda>s. snd (update_step_stmt c r cid (step_retrying_fields c ed) s))"
    and k_wait_insert: "w_tenantId w = tenantId c \<Longrightarrow>
      keeps I R (\<lambda>s. snd (insert_wait_stmt c (w\<lparr>w_createdAt := db_now s, w_updatedAt := db_now s\<rparr>) s))"
    and k_wait_complete: "keeps I R (\<lambda>s. snd (complete_wait_stmt c wid s))"
    and k_hook_release: "keeps I R (release_ended_token c token)"
    and k_hook_insert: "keeps I R (\<lambda>s. snd (insert_hook_stmt (hook_values c r hid token ed n from s) s))"
    and k_hook_start: "keeps I R (\<lambda>s. snd (insert_hook_lenient_stmt (start_hook_row c r sh n s) s))"
    and k_hook_delete: "keeps I R (\<lambda>s. snd (delete_hook_stmt c hid s))"
    and k_admission: "a_tenantId a = tenantId c \<Longrightarrow>
      keeps I R (\<lambda>s. if has_row (same_admission c (a_runId a)) (startHookAdmissions s) then s
        else s\<lparr>startHookAdmissions := startHookAdmissions s @ [a\<lparr>a_createdAt := db_now s\<rparr>]\<rparr>)"
    and k_expired: "keeps I R (\<lambda>s. s\<lparr>startHookAdmissions := delete_where P (startHookAdmissions s)\<rparr>)"

text \<open>With them, the three ways an event reaches the log.\<close>

locale unfenced_guarantee = entity_guarantee +
  assumes write_safe: "ty \<noteq> Run_created \<Longrightarrow> safe I R (write_event c r cid ty d v)"
    and legacy_safe: "rq_eventType q \<noteq> Run_created \<Longrightarrow> I s \<Longrightarrow> x \<in> set (runs s) \<Longrightarrow>
      this_run c r x \<Longrightarrow> isLegacySpecVersion (sdk c) (r_specVersion x) \<Longrightarrow>
      safe I R (insert_legacy_event c r (''wevt_'' @ legacyEventUlid c) q)"
    and new_run_safe:
      "(\<And>a. admit = Some a \<Longrightarrow> safe I R (a :: (bool \<times> start_hook_decision) io)) \<Longrightarrow>
        safe I R (insertRunWithCreatedEvent c (run_values c r ed dep name n ret h) d' v admit)"
begin

lemmas statement_rules =
  k_run_started k_run_completed k_run_failed k_run_cancelled k_attributes k_legacy_cancelled
  k_run_hooks k_legacy_hooks k_run_waits k_step_insert k_step_started k_step_completed
  k_step_failed k_step_retrying k_wait_complete k_hook_release k_hook_insert k_hook_start
  k_hook_delete

lemmas write_rules =
  write_safe [of Step_created, simplified] write_safe [of Step_started, simplified]
  write_safe [of Hook_created, simplified] write_safe [of Hook_disposed, simplified]
  write_safe [of Hook_conflict, simplified] write_safe [of Hook_received, simplified]

lemma safe_recordedDecision: "safe I R (recordedDecision c r h)"
  unfolding recordedDecision_def by (intro safe_intros)

lemma safe_recordDecision: "safe I R (recordDecision c r h d conf x)"
proof -
  have "keeps I R (\<lambda>s. snd (if has_row (same_admission c r) (startHookAdmissions s) then (False, s)
      else (True, s\<lparr>startHookAdmissions := startHookAdmissions s @
        [\<lparr>a_tenantId = tenantId c, a_runId = r, a_token = sh_token h, a_decision = d,
          a_conflictingRunId = conf, a_createdAt = db_now s\<rparr>]\<rparr>)))"
    using k_admission [of "\<lparr>a_tenantId = tenantId c, a_runId = r, a_token = sh_token h,
      a_decision = d, a_conflictingRunId = conf, a_createdAt = 0\<rparr>"]
    by (simp add: if_distrib cong: if_cong)
  then show ?thesis
    unfolding recordDecision_def
    by (auto intro!: safe_intros safe_recordedDecision split: start_hook_decision.split)
qed

lemma safe_deleteExpired: "safe I R (deleteExpiredDecisions c)"
  unfolding deleteExpiredDecisions_def Let_def
  by (rule safe_exec) (use k_expired in \<open>simp add: keeps_def\<close>)

lemma safe_decide: "safe I R (decideStartHookAdmission c r h v)"
  unfolding decideStartHookAdmission_def findActiveTokenOwner_def
  by (intro safe_intros safe_recordedDecision safe_recordDecision safe_deleteExpired statement_rules)

lemma safe_check_attributes [safe_intros]: "safe I R (check_attributes c ch ks b)"
  by (simp add: check_attributes_def safe_intros)

lemma safe_lookups [safe_intros]:
  "safe I R (full_run c r)" "safe I R (getRunForValidation c r)" "safe I R (getAncestorRetention c r)"
  "safe I R (getStepForValidation c r cid)" "safe I R (find_hook c hid)"
  "safe I R (getHookByToken c token)" "safe I R (getHookCreatedEvent c r hid)"
  by (auto intro!: safe_intros simp: full_run_def getRunForValidation_def getAncestorRetention_def
      getStepForValidation_def find_hook_def getHookByToken_def getHookCreatedEvent_def)

lemma safe_create_run: "safe I R (create_run c r d stored v h)"
  unfolding create_run_def resolveCreationRetention_def admit_start_hook_def
  by (intro safe_intros new_run_safe) (auto split: option.splits intro!: safe_intros new_run_safe safe_decide)

lemma safe_throw_rejected [safe_intros]: "safe I R (throw_rejected h d)"
  by (auto simp: throw_rejected_def split: option.split start_hook_decision.split)

lemma safe_load_current_run: "safe I R (load_current_run c r q v)"
  unfolding load_current_run_def resilient_start_def
  by (auto split: option.split prod.split intro!: safe_intros safe_create_run)

lemma safe_run_created: "safe I R (handle_run_created c r q v lo)"
  unfolding handle_run_created_def Let_def
  by (auto split: option.split prod.split intro!: safe_intros safe_create_run)

lemma safe_run_started: "safe I R (handle_run_started c r cur lo)"
  unfolding handle_run_started_def Let_def
  by (intro safe_intros) (simp_all add: k_run_started)

lemma safe_transition_run:
  "keeps I R (set_run_terminal c r f) \<Longrightarrow> safe I R (transition_run c r f lo)"
  unfolding transition_run_def by (intro safe_intros statement_rules) simp_all

lemma safe_run_transitions:
  "safe I R (handle_run_completed c r q lo)" "safe I R (handle_run_failed c r q lo)"
  "safe I R (handle_run_cancelled c r lo)"
  unfolding handle_run_completed_def handle_run_failed_def handle_run_cancelled_def
  by (intro safe_intros safe_transition_run statement_rules)+

lemma safe_update_attributes: "safe I R (update_attributes c r ch b)"
  unfolding update_attributes_def Let_def by (intro safe_intros) (simp_all add: k_attributes)

lemma safe_attr_set: "safe I R (handle_attr_set c r q lo)"
  unfolding handle_attr_set_def by (intro safe_intros safe_update_attributes)

lemma legacy_row_read:
  "rets_in I (\<lambda>cur. \<forall>st ver. cur = Some (st, ver) \<longrightarrow> rq_eventType q \<noteq> Run_started \<longrightarrow>
     (\<exists>s x. I s \<and> x \<in> set (runs s) \<and> this_run c r x \<and> r_specVersion x = ver)) (load_current_run c r q v)"
proof (cases "rq_eventType q = Run_started")
  case False
  then have "load_current_run c r q v =
      (if rq_eventType q = Run_created \<or> rq_eventType q = Step_completed \<or> rq_eventType q = Step_retrying
       then Ret None else bindP (getRunForValidation c r) Ret)"
    by (auto simp: load_current_run_def split: option.split intro!: arg_cong [of _ _ "bindP (getRunForValidation c r)"])
  then show ?thesis
    by (auto simp: getRunForValidation_def intro!: rets_in_query dest!: find_SomeD) blast
qed (auto intro!: rets_in_True)

lemma safe_legacy:
  assumes "rq_eventType q \<noteq> Run_started \<Longrightarrow> \<exists>s x. I s \<and> x \<in> set (runs s) \<and> this_run c r x \<and> r_specVersion x = ver"
    and "isLegacySpecVersion (sdk c) ver"
  shows "safe I R (handleLegacyEventPostgres c r q pa)"
proof (cases "rq_eventType q = Wait_completed \<or> rq_eventType q = Hook_received")
  case True
  then obtain s x where "I s" "x \<in> set (runs s)" "this_run c r x" "isLegacySpecVersion (sdk c) (r_specVersion x)"
    using assms by auto
  then have "safe I R (insert_legacy_event c r (''wevt_'' @ legacyEventUlid c) q)"
    using True by (intro legacy_safe) auto
  with True show ?thesis
    unfolding handleLegacyEventPostgres_def Let_def by (auto intro!: safe_intros)
next
  case False
  then show ?thesis
    unfolding handleLegacyEventPostgres_def Let_def
    by (cases "rq_eventType q") (auto intro!: safe_intros statement_rules)
qed

lemma safe_create_step: "safe I R (create_step c r q v)"
  unfolding create_step_def
  by (auto split: option.split prod.split intro!: safe_intros statement_rules)

lemma safe_explain [safe_intros]: "safe I R (explain_missed_step c r cid)"
  unfolding explain_missed_step_def by (intro safe_intros)

lemma safe_transition_step:
  "keeps I R (\<lambda>s. snd (update_step_stmt c r cid f s)) \<Longrightarrow> safe I R (transition_step c r cid f lo)"
  unfolding transition_step_def by (intro safe_intros)

lemma safe_step_transitions:
  "safe I R (handle_step_completed c r q lo)" "safe I R (handle_step_failed c r q lo)"
  "safe I R (handle_step_retrying c r q lo)"
  unfolding handle_step_completed_def handle_step_failed_def handle_step_retrying_def
    handle_step_transition_def
  by (intro safe_intros safe_transition_step statement_rules)+

lemma safe_step_started: "safe I R (handle_step_started c r q v cur x lo)"
  unfolding handle_step_started_def lazy_create_def check_owner_def check_retry_after_def Let_def
  by (intro safe_intros safe_create_step safe_transition_step statement_rules write_rules)

lemma safe_validate_step: "safe I R (validate_step c r q cur)"
  unfolding validate_step_def by (intro safe_intros)

lemma safe_wait_created: "safe I R (handle_wait_created c r q v lo)"
proof -
  have "keeps I R (\<lambda>s. snd (insert_wait_stmt c
      \<lparr>w_tenantId = tenantId c, w_waitId = wid, w_runId = r, w_status = Wait_waiting,
       w_resumeAt = at, w_completedAt = None, w_createdAt = db_now s, w_updatedAt = db_now s,
       w_specVersion = Some v\<rparr> s))" for wid at
    using k_wait_insert [of "\<lparr>w_tenantId = tenantId c, w_waitId = wid, w_runId = r,
      w_status = Wait_waiting, w_resumeAt = at, w_completedAt = None, w_createdAt = 0,
      w_updatedAt = 0, w_specVersion = Some v\<rparr>"] by simp
  then show ?thesis unfolding handle_wait_created_def by (intro safe_intros)
qed

lemma safe_wait_completed: "safe I R (handle_wait_completed c r q lo)"
  unfolding handle_wait_completed_def Let_def by (intro safe_intros statement_rules)

lemma safe_forceClaimRefusal [safe_intros]: "safe I R (forceClaimRefusal c r hid d)"
  unfolding forceClaimRefusal_def Let_def by (intro safe_intros)

lemma safe_throw_hook_gone [safe_intros]: "safe I R (throw_hook_gone c r hid b d)"
  unfolding throw_hook_gone_def by (intro safe_intros)

lemma safe_validate_hook: "safe I R (validate_hook c r q)"
  unfolding validate_hook_def by (intro safe_intros)

lemma safe_insertFreshHook: "safe I R (insertFreshHook c r hid token d v lo)"
  unfolding insertFreshHook_def journaledHookCreated_def
  by (intro safe_intros statement_rules write_rules)

lemma safe_fresh_or_lost: "safe I R (fresh_or_lost c r hid token d v lo)"
  unfolding fresh_or_lost_def answerLostClaim_def by (intro safe_intros safe_insertFreshHook)

lemma keeps_hook_delete: "keeps I R (\<lambda>s. s\<lparr>hooks := delete_where (this_hook c hid) (hooks s)\<rparr>)"
  using k_hook_delete [of hid] by (simp add: delete_hook_stmt_def)

lemma keeps_hook_strict:
  "keeps I R (\<lambda>s. snd (let row = hook_values c r hid token d v from s in
     case insert_hook_strict_stmt row s of (Inl e, s') \<Rightarrow> (Inl e, s') | (Inr x, s') \<Rightarrow> (Inr row, s')))"
  using k_hook_insert [of r hid token d v "from"] ord_refl
  by (auto simp: keeps_def Let_def insert_hook_strict_stmt_def insert_hook_stmt_def)

lemma safe_take_token: "safe I R (take_token c r hid token d v stored victim vr running)"
  unfolding take_token_def
  by (subst Let_def, subst Let_def)
    (intro safe_intros statement_rules write_rules keeps_hook_delete keeps_hook_strict)

lemma safe_takeoverAttempt: "safe I R (takeoverAttempt c r hid token d v stored)"
  unfolding takeoverAttempt_def by (intro safe_intros safe_take_token)

lemma safe_takeover_loop: "safe I R (takeover_loop c r hid token d v stored n)"
  by (induction n) (auto intro!: safe_intros safe_takeoverAttempt)

lemma safe_hook_created: "safe I R (handle_hook_created c r q v pa lo)"
proof -
  have force: "safe I R (force_claim c r hid token d v lo)" for hid token d
    unfolding force_claim_def journaledHookCreated_def
    by (intro safe_intros safe_takeover_loop) (auto split: takeover.split intro!: safe_intros safe_fresh_or_lost)
  have "safe I R (create_hook c r hid token d v lo)" for hid token d
    unfolding create_hook_def recover_orphan_def
    by (intro safe_intros safe_fresh_or_lost force)
  then show ?thesis
    unfolding handle_hook_created_def record_conflict_def Let_def
    by (auto split: option.split prod.split intro!: safe_intros write_rules)
qed

lemma safe_hook_disposed: "safe I R (handle_hook_disposed c r q v lo)"
  unfolding handle_hook_disposed_def by (intro safe_intros statement_rules write_rules)

lemma safe_hook_received: "safe I R (handle_hook_received c r q v lo)"
  unfolding handle_hook_received_def by (intro safe_intros statement_rules write_rules)

lemma safe_handle_entity: "safe I R (handle_entity c r q v pa cur x lo)"
  unfolding handle_entity_def continue_def
  by (cases "rq_eventType q")
    (auto intro!: safe_bindP safe_run_created safe_run_started safe_run_transitions safe_attr_set
      safe_step_started safe_step_transitions safe_create_step safe_wait_created safe_wait_completed
      safe_hook_created safe_hook_disposed safe_hook_received simp: handle_step_created_def)

lemma safe_generic_insert:
  "rq_eventType q \<noteq> Run_created \<or> lo_value lo \<noteq> None \<Longrightarrow> safe I R (generic_insert c r q v lo)"
  unfolding generic_insert_def by (auto intro!: safe_intros write_safe)

lemma safe_finish: "safe I R (finish c r q pa lo)"
  unfolding finish_def event_page_def skipped_page_def reportSkippedSlots_def preload_page_def
    delta_page_def Let_def
  by (auto split: option.split prod.split intro!: safe_intros)

lemma safe_validate_terminal: "safe I R (validate_terminal c r q v pa cur)"
  unfolding validate_terminal_def cancel_again_def
  by (auto split: option.split prod.split intro!: safe_intros write_safe)

lemma safe_entity_and_write:
  "safe I R (bindP (handle_entity c r q v pa cur x lo) (\<lambda>outcome. case outcome of
     Inl res \<Rightarrow> Ret res
   | Inr lo' \<Rightarrow> bindP (generic_insert c r q v lo') (\<lambda>lo''. finish c r q pa lo'')))"
  by (rule safe_bindP_rets [OF safe_handle_entity handle_entity_writes_run_created])
    (auto split: sum.splits intro!: safe_bindP safe_generic_insert safe_finish)

lemma safe_create_valid: "safe I R (create_valid c r q pa v cur)"
  unfolding create_valid_def
  by (rule safe_bindP, rule safe_throw_if, rule safe_bindP, rule safe_validate_terminal,
      rule safe_case_option, rule safe_bindP, rule safe_validate_step, rule safe_bindP,
      rule safe_validate_hook, rule safe_entity_and_write, rule safe_Ret)

lemma safe_load_and_write:
  "safe I R (bindP (load_current_run c r q v) (\<lambda>cur. case cur of
     Some (status, ver) \<Rightarrow>
       if requiresNewerWorld (sdk c) ver then Throw (RunNotSupportedError ver (SPEC_VERSION_MAX_SUPPORTED (sdk c)))
       else if isLegacySpecVersion (sdk c) ver then handleLegacyEventPostgres c r q pa
       else create_valid c r q pa v cur
   | None \<Rightarrow> create_valid c r q pa v cur))"
  by (rule safe_bindP_rets_in [OF safe_load_current_run legacy_row_read])
    (auto split: option.split intro!: safe_create_valid safe_legacy)

lemma create_unfenced_safe: "safe I R (create_unfenced c runId q pa)"
  unfolding create_unfenced_def check_hook_retention_def assertStartHookAdmissible_def
    effective_run_id_def check_run_id_timestamp_def
  by (intro safe_intros safe_load_and_write)

lemma experimentalSetAttributes_safe: "safe I R (experimentalSetAttributes c r ch b)"
  unfolding experimentalSetAttributes_def by (intro safe_intros safe_update_attributes)

end

text \<open>A fenced call also sets and clears the ambient fence.\<close>

locale create_guarantee = unfenced_guarantee +
  assumes k_fence: "keeps I R (\<lambda>s. s\<lparr>pendingFence := x\<rparr>)"
begin

lemma create_safe: "safe I R (create c runId q pa)"
  unfolding create_def create_fenced_def
  by (intro safe_intros create_unfenced_safe k_fence)

end

section \<open>The log through its insert statement\<close>

text \<open>
  An invariant or relation that does not depend on which slot a write gets is checked on the
  insert statement itself, for any id; this gives the contract above.
\<close>

lemma event_values_simps [simp]:
  "e_tenantId (event_values c r cid ty d v) = tenantId c" "e_runId (event_values c r cid ty d v) = r"
  "e_eventType (event_values c r cid ty d v) = ty" "e_correlationId (event_values c r cid ty d v) = cid"
  by (simp_all add: event_values_def)

lemma stamp_simps [simp]:
  "e_eventId (stamp v i o' s) = i" "e_tenantId (stamp v i o' s) = e_tenantId v"
  "e_runId (stamp v i o' s) = e_runId v" "e_eventType (stamp v i o' s) = e_eventType v"
  "e_correlationId (stamp v i o' s) = e_correlationId v"
  by (simp_all add: stamp_def)

lemma slotted_advance:
  "slotted t r (s\<lparr>eventSlots := update_where P (\<lambda>q. q\<lparr>sl_seqInBand := f q\<rparr>) (eventSlots s)\<rparr>) = slotted t r s"
proof -
  have "(\<exists>q \<in> set (update_where P (\<lambda>q. q\<lparr>sl_seqInBand := f q\<rparr>) xs). sl_tenantId q = t \<and> sl_runId q = r) \<longleftrightarrow>
      (\<exists>q \<in> set xs. sl_tenantId q = t \<and> sl_runId q = r)" for xs
    by (induction xs) (auto simp: update_where_def)
  then show ?thesis by (simp add: slotted_def has_row_iff)
qed

locale event_statements = entity_guarantee +
  assumes k_ambient: "keeps I R (\<lambda>s. s\<lparr>pendingFence := x\<rparr>)"
    and k_event: "ty \<noteq> Run_created \<Longrightarrow> keeps I R (\<lambda>s. snd (insert_event_stmt (sdk c)
        (stamp (event_values c r cid ty d v) i o' s) s))"
    and k_advance: "pf_tenantId (f :: pending_fence) = tenantId c \<Longrightarrow> keeps I R (\<lambda>s. s\<lparr>eventSlots := update_where
        (\<lambda>q. (sl_tenantId q = pf_tenantId f \<and> sl_runId q = pf_runId f) \<and> sl_seqInBand q = pf_expected f)
        (\<lambda>q. q\<lparr>sl_seqInBand := sl_seqInBand q + 1\<rparr>) (eventSlots s)\<rparr>)"
begin

lemma safe_consume_fence: "pf_tenantId f = tenantId c \<Longrightarrow> safe I R (consume_fence f)"
  unfolding consume_fence_def advanceFence_def Let_def
  using k_advance [of f] by (intro safe_intros k_ambient) simp

lemma safe_slot_attempts:
  assumes "ty \<noteq> Run_created" and "\<And>f. fence = Some f \<Longrightarrow> pf_tenantId f = tenantId c"
  shows "safe I R (insert_slot_attempts c (event_values c r cid ty d v) fence n)"
proof (induction n)
  case (Suc n)
  have "safe I R (case fence of None \<Rightarrow> Ret x | Some f \<Rightarrow> bindP (consume_fence f) (\<lambda>_. Ret x))"
    for x :: "(event_id \<times> timestamp) option"
    using assms(2) by (auto split: option.split intro!: safe_intros safe_consume_fence)
  with Suc k_event [OF assms(1)] show ?case
    by (auto intro!: safe_bindP safe_query safe_stmtE_keeps split: sum.split option.split)
qed simp

lemma event_write_safe: "ty \<noteq> Run_created \<Longrightarrow> safe I R (write_event c r cid ty d v)"
  unfolding write_event_def allocateEventId_def insertEventRow_def Let_def
  by (auto intro!: safe_bindP safe_query safe_stmtE_keeps k_event safe_slot_attempts
      simp del: insert_slot_attempts.simps split: id_source.split option.splits if_splits)

lemma event_legacy_safe:
  "rq_eventType q \<noteq> Run_created \<Longrightarrow> safe I R (insert_legacy_event c r i q)"
  unfolding insert_legacy_event_def by (intro safe_created_stmt k_event)

end

locale event_guarantee = event_statements +
  assumes k_created: "keeps I R (\<lambda>s. snd (insert_event_stmt (sdk c)
        (stamp (event_values c r None Run_created d v) (slotToEventId (sdk c) (FIRST_EVENT_SLOT (sdk c))) None s) s))"
    and k_new_run: "keeps I R (\<lambda>s. snd (insert_run_stmt (run_values c r ed dep name n ret h s) s))"
    and k_open_slots: "keeps I R (\<lambda>s. s\<lparr>eventSlots :=
        insert_unless (\<lambda>q. sl_tenantId q = tenantId c \<and> sl_runId q = r)
          \<lparr>sl_tenantId = tenantId c, sl_runId = r, sl_seqInBand = 1\<rparr> (eventSlots s)\<rparr>)"
begin

lemma event_new_run_safe:
  assumes "\<And>a. admit = Some a \<Longrightarrow> safe I R (a :: (bool \<times> start_hook_decision) io)"
  shows "safe I R (insertRunWithCreatedEvent c (run_values c r ed dep name n ret h) d' v admit)"
proof -
  have "safe I R (insert_created_event c row d' v)" for row
    unfolding insert_created_event_def openEventSlots_def bindP_assoc bindP.simps
    by (intro safe_bindP safe_exec safe_created_stmt k_created k_open_slots safe_Ret)
  then show ?thesis by (intro safe_insert_run assms k_new_run)
qed

end

sublocale event_guarantee \<subseteq> create_guarantee
  by unfold_locales (fact event_write_safe event_new_run_safe k_ambient | (rule event_legacy_safe, assumption))+

section \<open>What each statement writes\<close>

lemmas statement_defs =
  set_run_started_def set_run_terminal_def set_attributes_def set_legacy_cancelled_def
  delete_run_hooks_def delete_legacy_hooks_def delete_run_waits_def insert_step_stmt_def
  update_step_stmt_def insert_wait_stmt_def complete_wait_stmt_def release_ended_token_def
  insert_hook_stmt_def insert_hook_lenient_stmt_def delete_hook_stmt_def insert_run_stmt_def

definition writes_only :: "(('x \<Rightarrow> 'x) \<Rightarrow> st \<Rightarrow> st) \<Rightarrow> (st \<Rightarrow> st) \<Rightarrow> bool" where
  "writes_only upd f \<longleftrightarrow> (\<forall>s. \<exists>x. f s = upd (\<lambda>_. x) s)"

lemma same_table [simp]:
  "\<exists>x. s = s\<lparr>runs := x\<rparr>" "\<exists>x. s = s\<lparr>steps := x\<rparr>" "\<exists>x. s = s\<lparr>hooks := x\<rparr>"
  "\<exists>x. s = s\<lparr>waits := x\<rparr>" "\<exists>x. s = s\<lparr>startHookAdmissions := x\<rparr>"
  by (metis (full_types) st.surjective st.update_convs)+

lemma some_table [simp]:
  "\<exists>y. s\<lparr>runs := x1\<rparr> = s\<lparr>runs := y\<rparr>" "\<exists>y. s\<lparr>steps := x2\<rparr> = s\<lparr>steps := y\<rparr>"
  "\<exists>y. s\<lparr>hooks := x3\<rparr> = s\<lparr>hooks := y\<rparr>" "\<exists>y. s\<lparr>waits := x4\<rparr> = s\<lparr>waits := y\<rparr>"
  "\<exists>y. s\<lparr>startHookAdmissions := x5\<rparr> = s\<lparr>startHookAdmissions := y\<rparr>"
  "\<exists>y. s\<lparr>pendingFence := x6\<rparr> = s\<lparr>pendingFence := y\<rparr>"
  by blast+

lemma writes_runs:
  "writes_only runs_update (set_run_started c r)" "writes_only runs_update (set_run_terminal c r f)"
  "writes_only runs_update (set_attributes c r changes)" "writes_only runs_update (set_legacy_cancelled c r)"
  "writes_only runs_update (\<lambda>s. snd (insert_run_stmt (rv s) s))"
  by (simp_all add: writes_only_def statement_defs)

lemma writes_steps:
  "writes_only steps_update (\<lambda>s. snd (insert_step_stmt (x s) s))"
  "writes_only steps_update (\<lambda>s. snd (update_step_stmt c r cid g s))"
  by (simp_all add: writes_only_def statement_defs)

lemma writes_hooks:
  "writes_only hooks_update (delete_run_hooks c r)" "writes_only hooks_update (delete_legacy_hooks c r)"
  "writes_only hooks_update (release_ended_token c token)"
  "writes_only hooks_update (\<lambda>s. snd (insert_hook_stmt (h s) s))"
  "writes_only hooks_update (\<lambda>s. snd (insert_hook_lenient_stmt (h s) s))"
  "writes_only hooks_update (\<lambda>s. snd (delete_hook_stmt c hid s))"
  by (simp_all add: writes_only_def statement_defs)

lemma writes_waits:
  "writes_only waits_update (delete_run_waits c r)"
  "writes_only waits_update (\<lambda>s. snd (insert_wait_stmt c (w s) s))"
  "writes_only waits_update (\<lambda>s. snd (complete_wait_stmt c wid s))"
  by (simp_all add: writes_only_def statement_defs Let_def)

lemma writes_other:
  "writes_only startHookAdmissions_update (\<lambda>s. if P s then s
     else s\<lparr>startHookAdmissions := startHookAdmissions s @ [a s]\<rparr>)"
  "writes_only startHookAdmissions_update (\<lambda>s. s\<lparr>startHookAdmissions := delete_where Q (startHookAdmissions s)\<rparr>)"
  "writes_only pendingFence_update (\<lambda>s. s\<lparr>pendingFence := x\<rparr>)"
  by (simp_all add: writes_only_def)

lemmas statement_writes = writes_runs writes_steps writes_hooks writes_waits writes_other

lemma keeps_writes:
  "writes_only upd f \<Longrightarrow> (\<And>s x. I s \<Longrightarrow> I (upd (\<lambda>_. x) s) \<and> R s (upd (\<lambda>_. x) s)) \<Longrightarrow> keeps I R f"
  unfolding keeps_def writes_only_def by metis

text \<open>The environment moves only the clock and graphile's jobs.\<close>

inductive_cases environmentE: "environment s t"

lemma environment_tables:
  assumes "environment s t"
  shows "runs t = runs s" "events t = events s" "eventSlots t = eventSlots s" "steps t = steps s"
    "hooks t = hooks s" "waits t = waits s" "startHookAdmissions t = startHookAdmissions s"
    "pendingFence t = pendingFence s"
  using assms by (auto elim: environmentE)

section \<open>Pools of calls\<close>

type_synonym call = "ctx \<times> run_id option \<times> event_req \<times> create_params"

text \<open>Any number of \<open>create\<close> calls, of any tenants, in flight at once.\<close>

definition pool_of :: "call list \<Rightarrow> event_result io list" where
  "pool_of calls = map (\<lambda>(c, r, q, pa). create c r q pa) calls"

definition same_world :: "world_sdk \<Rightarrow> call list \<Rightarrow> bool" where
  "same_world W calls \<longleftrightarrow> list_all (\<lambda>(c, _, _, _). sdk c = W) calls"

lemma same_worldD: "same_world W calls \<Longrightarrow> (c, r, q, pa) \<in> set calls \<Longrightarrow> sdk c = W"
  by (auto simp: same_world_def list_all_iff)

lemma pool_ofE:
  assumes "p \<in> set (pool_of calls)"
  obtains c r q pa where "(c, r, q, pa) \<in> set calls" "p = create c r q pa"
  using assms by (auto simp: pool_of_def)

context st_order
begin

lemma pool_of_order:
  assumes "pool_steps environment (s, pool_of calls) (s', ps)" and "I s"
    and "\<And>c r q pa. (c, r, q, pa) \<in> set calls \<Longrightarrow> create_guarantee I R c"
    and "\<And>s t. environment s t \<Longrightarrow> I s \<Longrightarrow> I t \<and> R s t"
  shows "I s' \<and> R s s'"
  using assms(1,2)
proof (rule pool_steps_order)
  show "safe I R p" if "p \<in> set (pool_of calls)" for p
    using that by (elim pool_ofE) (simp add: create_guarantee.create_safe assms(3))
qed (fact assms(4))

end

end
