(* ===== verification/Log_Invariant.thy ===== *)
theory Log_Invariant
  imports Guarantee
begin

text \<open>
  The event log under concurrency: it only grows; the ids of a slot-numbered run are exactly
  its slots \<open>1..n\<close>, in order; and \<open>run_created\<close> is written once per run, at the first slot.

  A call that finds no slot row for its run writes under a legacy id (the code accepts, say, a
  \<open>wait_created\<close> for a run that does not exist), so a run created meanwhile can hold one; such a
  log is called \<open>orphaned\<close>. A run that is \<open>numbered\<close> when the calls begin never becomes so: \<open>numbered_log\<close>
  carries any set of such runs through every interleaving.
\<close>

section \<open>Slots in order\<close>

definition grows :: "st \<Rightarrow> st \<Rightarrow> bool" where
  "grows s s' \<longleftrightarrow> (\<exists>zs. events s' = events s @ zs) \<and> (\<forall>t r. slotted t r s \<longrightarrow> slotted t r s')"

definition dense :: "world_sdk \<Rightarrow> event_id list \<Rightarrow> bool" where
  "dense W ids \<longleftrightarrow> (\<exists>n < 10 ^ EVENT_ID_BODY_LENGTH W. ids = map (slot_id W) [1..<Suc n])"

definition legacy_id :: "event_id \<Rightarrow> bool" where
  "legacy_id i \<longleftrightarrow> (\<exists>u. i = ''wevt_'' @ u)"

definition orphaned :: "event_id list \<Rightarrow> bool" where
  "orphaned ids \<longleftrightarrow> (\<exists>i \<in> set ids. legacy_id i)"

definition log_inv :: "world_sdk \<Rightarrow> st \<Rightarrow> bool" where
  "log_inv W s \<longleftrightarrow> (\<forall>t r.
     if slotted t r s then orphaned (run_ids t r s) \<or> dense W (run_ids t r s)
     else (\<forall>i \<in> set (run_ids t r s). legacy_id i))"

text \<open>The row of a run in the current format: its events are not written by the legacy handler.\<close>

definition current_row :: "world_sdk \<Rightarrow> tenant_id \<Rightarrow> run_id \<Rightarrow> st \<Rightarrow> bool" where
  "current_row W t r s \<longleftrightarrow> has_row (\<lambda>x. r_tenantId x = t \<and> r_runId x = r) (runs s) \<and>
     (\<forall>x \<in> set (runs s). r_tenantId x = t \<and> r_runId x = r \<longrightarrow> \<not> isLegacySpecVersion W (r_specVersion x))"

definition numbered :: "world_sdk \<Rightarrow> tenant_id \<Rightarrow> run_id \<Rightarrow> st \<Rightarrow> bool" where
  "numbered W t r s \<longleftrightarrow> current_row W t r s \<and> slotted t r s \<and> dense W (run_ids t r s)"

definition numbered_log :: "world_sdk \<Rightarrow> (tenant_id \<times> run_id) set \<Rightarrow> st \<Rightarrow> bool" where
  "numbered_log W N s \<longleftrightarrow> log_inv W s \<and> (\<forall>(t, r) \<in> N. numbered W t r s)"

lemma grows_refl: "grows s s"
  by (simp add: grows_def)

lemma grows_trans: "grows s t \<Longrightarrow> grows t u \<Longrightarrow> grows s u"
  by (fastforce simp: grows_def)

lemma slotted_cong: "eventSlots s = eventSlots s' \<Longrightarrow> slotted t r s = slotted t r s'"
  by (simp add: slotted_def)

lemma run_ids_cong: "events s = events s' \<Longrightarrow> run_ids t r s = run_ids t r s'"
  by (simp add: run_ids_def)

lemma grows_run_ids: "grows s s' \<Longrightarrow> \<exists>zs. run_ids t r s' = run_ids t r s @ zs"
  by (auto simp: grows_def run_ids_def)

lemma log_inv_cong:
  "events s' = events s \<Longrightarrow> eventSlots s' = eventSlots s \<Longrightarrow> log_inv W s' = log_inv W s"
  by (simp add: log_inv_def slotted_def run_ids_def)

lemma grows_cong: "events s' = events s \<Longrightarrow> eventSlots s' = eventSlots s \<Longrightarrow> grows s s'"
  by (simp add: grows_def slotted_def)

lemma orphaned_append: "orphaned ids \<Longrightarrow> orphaned (ids @ zs)"
  by (auto simp: orphaned_def)

lemma dense_not_orphaned: "slot_laws W \<Longrightarrow> dense W ids \<Longrightarrow> \<not> orphaned ids"
proof
  assume "slot_laws W" and "dense W ids" and "orphaned ids"
  then obtain u n where "''wevt_'' @ u = slot_id W n" by (auto simp: dense_def orphaned_def legacy_id_def)
  moreover have "slot_id W n \<noteq> ''wevt_'' @ u" using \<open>slot_laws W\<close> unfolding slot_laws_def by blast
  ultimately show False by metis
qed

text \<open>What \<open>current_row\<close> reads of a run row; every \<open>UPDATE\<close> of a run leaves these columns alone.\<close>

definition row_format :: "run_row \<Rightarrow> tenant_id \<times> run_id \<times> int option" where
  "row_format x = (r_tenantId x, r_runId x, r_specVersion x)"

lemma current_row_iff:
  "current_row W t r s \<longleftrightarrow> (\<exists>v. (t, r, v) \<in> row_format ` set (runs s)) \<and>
     (\<forall>v. (t, r, v) \<in> row_format ` set (runs s) \<longrightarrow> \<not> isLegacySpecVersion W v)"
  unfolding current_row_def has_row_iff row_format_def image_iff by (metis prod.inject)

lemma numbered_log_log_inv: "numbered_log W N s \<Longrightarrow> log_inv W s"
  by (simp add: numbered_log_def)

lemma numbered_log_cong:
  "events s' = events s \<Longrightarrow> eventSlots s' = eventSlots s \<Longrightarrow>
   row_format ` set (runs s') = row_format ` set (runs s) \<Longrightarrow> numbered_log W N s' = numbered_log W N s"
  by (simp add: numbered_log_def numbered_def current_row_iff log_inv_def slotted_def run_ids_def)

subsection \<open>The next slot\<close>

lemma slot_id_inject:
  "slot_laws W \<Longrightarrow> m < 10 ^ EVENT_ID_BODY_LENGTH W \<Longrightarrow> n < 10 ^ EVENT_ID_BODY_LENGTH W \<Longrightarrow>
     slot_id W m = slot_id W n \<longleftrightarrow> m = n"
  by (simp add: slot_id_def slot_laws_def lpad0_dec_inject)

lemma append_less_cancel: "(ps :: ('a::linorder) list) @ xs < ps @ ys \<longleftrightarrow> xs < ys"
  by (induction ps) auto

lemma slot_id_less:
  "slot_laws W \<Longrightarrow> m < 10 ^ EVENT_ID_BODY_LENGTH W \<Longrightarrow> n < 10 ^ EVENT_ID_BODY_LENGTH W \<Longrightarrow>
     slot_id W m < slot_id W n \<longleftrightarrow> m < n"
  by (simp add: slot_id_def slot_laws_def lpad0_dec_less append_less_cancel)

lemma slot_id_overflow:
  "slot_laws W \<Longrightarrow> slot_id W (10 ^ EVENT_ID_BODY_LENGTH W) = slot_id W (10 ^ (EVENT_ID_BODY_LENGTH W - 1))"
  by (simp add: slot_id_def slot_laws_def lpad0_overflow)

lemma max_list_slots:
  assumes "slot_laws W" and "0 < n" and "n < 10 ^ EVENT_ID_BODY_LENGTH W"
  shows "max_list (map (slot_id W) [1..<Suc n]) = Some (slot_id W n)"
proof (rule max_list_eqI)
  show "slot_id W n \<in> set (map (slot_id W) [1..<Suc n])" using assms(2) by simp
  fix x assume "x \<in> set (map (slot_id W) [1..<Suc n])"
  then obtain m where "x = slot_id W m" "m \<le> n" by auto
  then show "x \<le> slot_id W n"
    using slot_id_less [OF assms(1), of n m] assms(3) by (auto simp: not_less [symmetric])
qed

lemma nextSlotId_dense:
  assumes "slot_laws (sdk c)" and "n < 10 ^ EVENT_ID_BODY_LENGTH (sdk c)"
    and "run_ids (tenantId c) r s = map (slot_id (sdk c)) [1..<Suc n]"
  shows "nextSlotId c r s = Inr (slot_id (sdk c) (Suc n))"
proof (cases "n = 0")
  case True
  with assms show ?thesis by (simp add: nextSlotId_def slot_id_def slot_laws_def Let_def)
next
  case False
  then have "max_list (run_ids (tenantId c) r s) = Some (slot_id (sdk c) n)"
    using assms max_list_slots by simp
  moreover have "undec (drop (length (EVENT_ID_PREFIX (sdk c))) (slot_id (sdk c) n)) = Some n"
    using assms(1,2) by (simp add: slot_id_def slot_laws_def undec_lpad0_dec)
  ultimately show ?thesis by (simp add: nextSlotId_def slot_id_def Let_def)
qed

subsection \<open>Inserting keeps the log dense\<close>

lemma insert_event_stmt_grows:
  "insert_event_stmt W e s = (Inr a, s') \<Longrightarrow> grows s s'"
  by (auto simp: insert_event_stmt_def grows_def slotted_def split: if_splits)

lemma insert_event_cases:
  assumes "insert_event_stmt W e s = (Inr a, s')"
  shows "s' = s \<or> (\<not> has_row (same_event_key e) (events s) \<and> s' = s\<lparr>events := events s @ [e]\<rparr>)"
  using assms by (auto simp: insert_event_stmt_def split: if_splits)

lemma run_ids_snoc:
  "run_ids t r (s\<lparr>events := events s @ [e]\<rparr>) =
     run_ids t r s @ (if of_run t r e then [e_eventId e] else [])"
  by (simp add: run_ids_def)

lemma has_event_key_iff:
  "has_row (same_event_key e) (events s) \<longleftrightarrow> e_eventId e \<in> set (run_ids (e_tenantId e) (e_runId e) s)"
proof
  assume "has_row (same_event_key e) (events s)"
  then obtain q where q: "q \<in> set (events s)" "of_run (e_tenantId e) (e_runId e) q"
    "e_eventId q = e_eventId e"
    by (auto simp: table_simps same_event_key_def of_run_def)
  then show "e_eventId e \<in> set (run_ids (e_tenantId e) (e_runId e) s)"
    unfolding run_ids_def set_map set_filter by (metis (mono_tags, lifting) image_eqI mem_Collect_eq)
next
  assume "e_eventId e \<in> set (run_ids (e_tenantId e) (e_runId e) s)"
  then show "has_row (same_event_key e) (events s)"
    by (auto simp: table_simps same_event_key_def run_ids_def of_run_def)
qed

lemma log_inv_snoc:
  assumes inv: "log_inv W s"
    and new: "if slotted (e_tenantId e) (e_runId e) s
      then orphaned (run_ids (e_tenantId e) (e_runId e) s @ [e_eventId e]) \<or>
           dense W (run_ids (e_tenantId e) (e_runId e) s @ [e_eventId e])
      else legacy_id (e_eventId e)"
  shows "log_inv W (s\<lparr>events := events s @ [e]\<rparr>)"
proof -
  have "if slotted t r s
      then orphaned (run_ids t r s @ (if of_run t r e then [e_eventId e] else [])) \<or>
           dense W (run_ids t r s @ (if of_run t r e then [e_eventId e] else []))
      else (\<forall>i \<in> set (run_ids t r s @ (if of_run t r e then [e_eventId e] else [])). legacy_id i)"
    for t r
    using inv [unfolded log_inv_def, rule_format, of t r] new
    by (cases "of_run t r e") (auto simp: of_run_def split: if_splits)
  then show ?thesis
    unfolding log_inv_def run_ids_snoc slotted_def by simp
qed

lemma insert_wevt_keeps:
  assumes "log_inv W s" and "insert_event_stmt W' e s = (Inr a, s')" and "legacy_id (e_eventId e)"
  shows "log_inv W s' \<and> grows s s'"
proof -
  have "log_inv W (s\<lparr>events := events s @ [e]\<rparr>)"
    using assms(3) by (intro log_inv_snoc [OF assms(1)]) (auto simp: orphaned_def)
  with insert_event_cases [OF assms(2)] assms(1) insert_event_stmt_grows [OF assms(2)]
  show ?thesis by auto
qed

text \<open>
  The heart of the matter: a slot computed at an earlier state \<open>s\<close> either is still free, in
  which case it is the next one, or it is taken, in which case the insert does nothing.
\<close>

lemma insert_slot_keeps:
  assumes laws: "slot_laws W" and inv: "log_inv W s" "log_inv W s'" and grow: "grows s s'"
    and slotted: "slotted (e_tenantId e) (e_runId e) s"
    and fresh: "\<And>n. n < 10 ^ EVENT_ID_BODY_LENGTH W \<Longrightarrow>
        run_ids (e_tenantId e) (e_runId e) s = map (slot_id W) [1..<Suc n] \<Longrightarrow>
        \<exists>k. 1 \<le> k \<and> k \<le> Suc n \<and> e_eventId e = slot_id W k"
    and ins: "insert_event_stmt W' e s' = (Inr a, u)"
  shows "log_inv W u \<and> grows s' u"
proof -
  let ?t = "e_tenantId e" and ?r = "e_runId e" and ?w = "EVENT_ID_BODY_LENGTH W"
  have slotted': "slotted ?t ?r s'" using slotted grow by (simp add: grows_def)
  obtain zs where ids: "run_ids ?t ?r s' = run_ids ?t ?r s @ zs" using grows_run_ids [OF grow] by blast
  have new: "orphaned (run_ids ?t ?r s' @ [e_eventId e]) \<or> dense W (run_ids ?t ?r s' @ [e_eventId e])"
    if free: "e_eventId e \<notin> set (run_ids ?t ?r s')"
  proof (cases "orphaned (run_ids ?t ?r s')")
    case True
    then show ?thesis by (simp add: orphaned_append)
  next
    case False
    then have "\<not> orphaned (run_ids ?t ?r s)" using ids by (auto simp: orphaned_append)
    with False inv slotted slotted' have "dense W (run_ids ?t ?r s)" "dense W (run_ids ?t ?r s')"
      unfolding log_inv_def by (metis (full_types))+
    then obtain n m where n: "n < 10 ^ ?w" "run_ids ?t ?r s = map (slot_id W) [1..<Suc n]"
      and m: "m < 10 ^ ?w" "run_ids ?t ?r s' = map (slot_id W) [1..<Suc m]"
      by (auto simp: dense_def)
    obtain k where k: "1 \<le> k" "k \<le> Suc n" and "e_eventId e = slot_id W k" using fresh n by blast
    have "n \<le> m" using ids n(2) m(2) by (metis diff_Suc_1 le_add1 length_append length_map length_upt)
    moreover have "\<not> k \<le> m" using free k \<open>e_eventId e = slot_id W k\<close> unfolding m(2) by auto
    ultimately have mn: "m = n" and "k = Suc n" using k by auto
    with \<open>e_eventId e = slot_id W k\<close> have eid: "e_eventId e = slot_id W (Suc n)" by simp
    have "Suc n \<noteq> 10 ^ ?w"
    proof
      assume "Suc n = 10 ^ ?w"
      then have "e_eventId e = slot_id W (10 ^ (?w - 1))" using eid slot_id_overflow [OF laws] by simp
      moreover have "10 ^ (?w - 1) \<le> m" "0 < (10::nat) ^ (?w - 1)"
        using \<open>Suc n = 10 ^ ?w\<close> mn laws
        by (auto simp: slot_laws_def) (metis Suc_pred less_Suc_eq_le one_less_numeral_iff
            power_strict_increasing_iff semiring_norm(76) lessI)
      moreover have "slot_id W k' \<in> set (map (slot_id W) [1..<Suc m])" if "0 < k'" "k' \<le> m" for k'
        unfolding set_map by (rule imageI) (use that in auto)
      ultimately show False using free unfolding m(2) by metis
    qed
    then have "Suc n < 10 ^ ?w" using n(1) by simp
    moreover have "run_ids ?t ?r s' @ [e_eventId e] = map (slot_id W) [1..<Suc (Suc n)]"
      using m(2) mn eid by simp
    ultimately show ?thesis unfolding dense_def by blast
  qed
  from insert_event_cases [OF ins] show ?thesis
  proof
    assume "u = s'"
    with inv(2) show ?thesis by (simp add: grows_refl)
  next
    assume "\<not> has_row (same_event_key e) (events s') \<and> u = s'\<lparr>events := events s' @ [e]\<rparr>"
    with new slotted' log_inv_snoc [OF inv(2), of e] insert_event_stmt_grows [OF ins]
    show ?thesis by (simp add: has_event_key_iff)
  qed
qed

text \<open>A write to a numbered run under an id that is not a legacy one leaves it numbered.\<close>

lemma numbered_log_insert:
  assumes "slot_laws W" and "numbered_log W N s" and "insert_event_stmt W' e s = (Inr a, u)" and "log_inv W u"
    and "(e_tenantId e, e_runId e) \<in> N \<Longrightarrow> \<not> legacy_id (e_eventId e)"
  shows "numbered_log W N u"
proof -
  have same: "runs u = runs s" "eventSlots u = eventSlots s"
    using insert_event_cases [OF assms(3)] by auto
  have "numbered W t r u" if "(t, r) \<in> N" for t r
  proof -
    have num: "numbered W t r s" using that assms(2) by (auto simp: numbered_log_def)
    then have "\<not> orphaned (run_ids t r s)" by (simp add: numbered_def dense_not_orphaned [OF assms(1)])
    then have "\<not> orphaned (run_ids t r u)"
      using insert_event_cases [OF assms(3)] assms(5) that
      by (auto simp: run_ids_snoc orphaned_def of_run_def split: if_splits)
    moreover have "slotted t r u" using num by (simp add: numbered_def slotted_def same)
    ultimately have "dense W (run_ids t r u)" using assms(4) unfolding log_inv_def by metis
    with num \<open>slotted t r u\<close> show ?thesis by (simp add: numbered_def current_row_def same)
  qed
  with assms(4) show ?thesis by (auto simp: numbered_log_def)
qed

lemma insert_wevt_at:
  assumes "slot_laws W" and "numbered_log W N s" and "insert_event_stmt W' e s = (Inr a, u)"
    and "legacy_id (e_eventId e)" and "(e_tenantId e, e_runId e) \<notin> N"
  shows "numbered_log W N u \<and> grows s u"
  using insert_wevt_keeps [of W s W' e a u] numbered_log_insert [OF assms(1,2,3)] assms by (auto simp: numbered_log_def)

lemma insert_slot_at:
  assumes laws: "slot_laws W" and inv: "numbered_log W N s" "numbered_log W N s'" and grow: "grows s s'"
    and slotted: "slotted (e_tenantId e) (e_runId e) s"
    and fresh: "\<And>n. n < 10 ^ EVENT_ID_BODY_LENGTH W \<Longrightarrow>
        run_ids (e_tenantId e) (e_runId e) s = map (slot_id W) [1..<Suc n] \<Longrightarrow>
        \<exists>k. 1 \<le> k \<and> k \<le> Suc n \<and> e_eventId e = slot_id W k"
    and ins: "insert_event_stmt W' e s' = (Inr a, u)"
  shows "numbered_log W N u \<and> grows s' u"
proof -
  have u: "log_inv W u \<and> grows s' u"
    using inv by (intro insert_slot_keeps [OF laws _ _ grow slotted fresh ins]) (auto simp: numbered_log_def)
  have "\<not> legacy_id (e_eventId e)" if "(e_tenantId e, e_runId e) \<in> N"
  proof -
    have "dense W (run_ids (e_tenantId e) (e_runId e) s)"
      using that inv(1) by (auto simp: numbered_log_def numbered_def)
    with fresh obtain k where "e_eventId e = slot_id W k" by (auto simp: dense_def)
    with laws show ?thesis by (auto simp: slot_laws_def legacy_id_def)
  qed
  with u numbered_log_insert [OF laws inv(2) ins] show ?thesis by blast
qed

subsection \<open>The statements of create\<close>

interpretation log_order: st_order "numbered_log W N" grows for W N
  by unfold_locales (auto intro: grows_refl grows_trans)

lemma grows_fence [simp]: "grows s (s\<lparr>pendingFence := x\<rparr>)"
  by (rule grows_cong) simp_all

lemma numbered_log_fence [simp]: "numbered_log W N (s\<lparr>pendingFence := x\<rparr>) = numbered_log W N s"
  by (rule numbered_log_cong) simp_all

lemma numbered_log_advance [simp]:
  "numbered_log W N (s\<lparr>eventSlots := update_where P (\<lambda>q. q\<lparr>sl_seqInBand := f q\<rparr>) (eventSlots s)\<rparr>) = numbered_log W N s"
  by (simp add: numbered_log_def numbered_def current_row_def log_inv_def slotted_advance run_ids_def)

lemma grows_advance [simp]:
  "grows s (s\<lparr>eventSlots := update_where P (\<lambda>q. q\<lparr>sl_seqInBand := f q\<rparr>) (eventSlots s)\<rparr>)"
  by (simp add: grows_def slotted_advance)

lemma log_safe_consume_fence: "safe (numbered_log W N) grows (consume_fence f)"
  unfolding consume_fence_def advanceFence_def Let_def
  by (intro safe_intros) (simp_all add: keeps_def)

lemma log_rg_slot_attempts:
  assumes "slot_laws (sdk c)" and "e_tenantId vals = tenantId c"
  shows "slotted (tenantId c) (e_runId vals) s \<Longrightarrow>
    rg (numbered_log (sdk c) N) grows (insert_slot_attempts c vals fence n) s"
proof (induction n arbitrary: s)
  case (Suc n)
  let ?I = "numbered_log (sdk c) N"
  have "rg ?I grows (bindP (stmtE (\<lambda>s. insert_event_stmt (sdk c)
           (stamp vals i (Option.bind fence pf_occurredAt) s) s))
         (\<lambda>row. case row of
            Some x \<Rightarrow> (case fence of None \<Rightarrow> Ret (Some x) | Some f \<Rightarrow> bindP (consume_fence f) (\<lambda>_. Ret (Some x)))
          | None \<Rightarrow> insert_slot_attempts c vals fence n)) t"
    if t: "?I t" "grows s t" and i: "nextSlotId c (e_runId vals) t = Inr i" for t i
  proof (rule log_order.rg_bind_stmtE)
    fix t' row u
    assume t': "?I t'" "grows t t'"
      and ins: "insert_event_stmt (sdk c) (stamp vals i (Option.bind fence pf_occurredAt) t') t' = (Inr row, u)"
    have sl: "slotted (tenantId c) (e_runId vals) t" using Suc.prems t(2) by (simp add: grows_def)
    have "?I u \<and> grows t' u"
      using insert_slot_at [OF assms(1) t(1) t' _ _ ins] sl i assms(2)
      by (force dest: nextSlotId_dense [OF assms(1)])
    moreover have "slotted (tenantId c) (e_runId vals) u"
      using sl t'(2) calculation by (simp add: grows_def)
    ultimately show "?I u \<and> grows t' u \<and> rg ?I grows (case row of
            Some x \<Rightarrow> (case fence of None \<Rightarrow> Ret (Some x) | Some f \<Rightarrow> bindP (consume_fence f) (\<lambda>_. Ret (Some x)))
          | None \<Rightarrow> insert_slot_attempts c vals fence n) u"
      using Suc.IH by (auto split: option.split intro!: rg_bindP safeD [OF log_safe_consume_fence])
  qed
  then show ?case
    by (auto intro!: log_order.rg_bind_query split: sum.split)
qed simp

lemma log_safe_write_event:
  assumes "slot_laws (sdk c)"
  shows "safe (numbered_log (sdk c) N) grows (write_event c r cid ty d v)"
  unfolding write_event_def allocateEventId_def
proof (rule log_order.safe_bind_query)
  fix s
  let ?I = "numbered_log (sdk c) N" and ?vals = "event_values c r cid ty d v"
  assume "?I s"
  have fixed: "safe ?I grows (insertEventRow c ?vals (Fixed_id i))" if "legacy_id i" "\<not> slotted (tenantId c) r s" for i
    unfolding insertEventRow_def id_source.case
  proof (rule log_order.safe_stmtE)
    fix t a u assume "?I t" and "insert_event_stmt (sdk c) (stamp ?vals i None t) t = (Inr a, u)"
    moreover have "(tenantId c, r) \<notin> N" using \<open>?I s\<close> that(2) by (auto simp: numbered_log_def numbered_def)
    ultimately show "?I u \<and> grows t u" using insert_wevt_at [OF assms, of N t] that(1) by simp
  qed
  have "rg ?I grows (insertEventRow c ?vals Next_slot) s" if "slotted (tenantId c) r s"
    unfolding insertEventRow_def id_source.case
    by (rule log_order.rg_bind_query)
      (use that in \<open>auto simp: Let_def grows_def simp del: insert_slot_attempts.simps
         intro!: log_rg_slot_attempts [OF assms]\<close>)
  moreover have "legacy_id (''wevt_'' @ legacyEventUlid c)" by (auto simp: legacy_id_def)
  ultimately show "rg ?I grows (insertEventRow c ?vals
      (if slotted (tenantId c) r s then Next_slot else Fixed_id (''wevt_'' @ legacyEventUlid c))) s"
    using fixed [THEN safeD] by presburger
qed

text \<open>The legacy handler writes only to a run whose row it found in the legacy format.\<close>

lemma log_safe_legacy:
  assumes "slot_laws (sdk c)" and "numbered_log (sdk c) N s" and "x \<in> set (runs s)" and "this_run c r x"
    and "isLegacySpecVersion (sdk c) (r_specVersion x)"
  shows "safe (numbered_log (sdk c) N) grows (insert_legacy_event c r (''wevt_'' @ u) q)"
  unfolding insert_legacy_event_def
proof (rule log_order.safe_stmtE)
  let ?e = "\<lambda>t. stamp (event_values c r (rq_correlationId q) (rq_eventType q) (rq_eventData q) (Some (specVersion c)))
    (''wevt_'' @ u) None t"
  fix t a t' assume t: "numbered_log (sdk c) N t" and "insert_created_stmt (sdk c) (?e t) t = (Inr a, t')"
  then obtain y where ins: "insert_event_stmt (sdk c) (?e t) t = (Inr (Some y), t')"
    using insert_created_stmtD by blast
  have "\<not> current_row (sdk c) (tenantId c) r s"
    using assms(3-5) by (auto simp: current_row_def this_run_def)
  then have "(tenantId c, r) \<notin> N" using assms(2) by (auto simp: numbered_log_def numbered_def)
  moreover have "legacy_id (''wevt_'' @ u)" by (auto simp: legacy_id_def)
  ultimately show "numbered_log (sdk c) N t' \<and> grows t t'" using insert_wevt_at [OF assms(1) t ins] by simp
qed

lemma log_inv_open_slots:
  fixes t r
  assumes "log_inv W s"
  defines "u \<equiv> s\<lparr>eventSlots := insert_unless (\<lambda>q. sl_tenantId q = t \<and> sl_runId q = r)
     \<lparr>sl_tenantId = t, sl_runId = r, sl_seqInBand = 1\<rparr> (eventSlots s)\<rparr>"
  shows "log_inv W u" and "grows s u" and "slotted t r u"
proof -
  have sl: "slotted t' r' u \<longleftrightarrow> slotted t' r' s \<or> (t' = t \<and> r' = r)" for t' r'
    by (auto simp: u_def slotted_def insert_unless_def table_simps)
  have ids: "run_ids t' r' u = run_ids t' r' s" for t' r' by (simp add: u_def run_ids_def)
  show "slotted t r u" by (simp add: sl)
  show "grows s u" by (simp add: grows_def sl) (simp add: u_def)
  have "dense W []" unfolding dense_def by (rule exI [of _ 0]) simp
  then have "orphaned ids \<or> dense W ids" if "\<forall>i \<in> set ids. legacy_id i" for ids
    using that by (cases ids) (auto simp: orphaned_def)
  then show "log_inv W u"
    using assms(1) unfolding log_inv_def sl ids by (metis (full_types))
qed

lemma numbered_log_open_slots:
  "numbered_log W N s \<Longrightarrow> numbered_log W N (s\<lparr>eventSlots := insert_unless (\<lambda>q. sl_tenantId q = t \<and> sl_runId q = r)
     \<lparr>sl_tenantId = t, sl_runId = r, sl_seqInBand = 1\<rparr> (eventSlots s)\<rparr>)"
  using log_inv_open_slots(1,2) [of W s t r]
  by (auto simp: numbered_log_def numbered_def current_row_def run_ids_def grows_def)

text \<open>A run whose row exists is not created again, so its format stays.\<close>

lemma current_row_insert:
  "current_row W t r s \<Longrightarrow> current_row W t r (snd (insert_run_stmt row s))"
  by (auto simp: current_row_def insert_run_stmt_def same_run_key_def table_simps)

lemma numbered_log_new_row:
  assumes "numbered_log W N s"
  shows "numbered_log W N (snd (insert_run_stmt row s)) \<and> grows s (snd (insert_run_stmt row s))"
proof -
  have "events (snd (insert_run_stmt row s)) = events s" "eventSlots (snd (insert_run_stmt row s)) = eventSlots s"
    by (simp_all add: insert_run_stmt_def)
  with assms show ?thesis
    using log_inv_cong [of "snd (insert_run_stmt row s)" s W] current_row_insert [of W _ _ s row]
    by (auto simp: numbered_log_def numbered_def grows_cong slotted_def run_ids_def)
qed

lemma log_safe_new_run:
  assumes laws: "slot_laws (sdk c)"
    and admit: "\<And>a. admit = Some a \<Longrightarrow> safe (numbered_log (sdk c) N) grows a"
  shows "safe (numbered_log (sdk c) N) grows (insertRunWithCreatedEvent c rv d v admit)"
proof -
  let ?I = "numbered_log (sdk c) N" and ?W = "sdk c"
  have first: "slotToEventId ?W (FIRST_EVENT_SLOT ?W) = slot_id ?W 1"
    using laws by (auto simp: slot_laws_def) (metis One_nat_def one_less_numeral_iff one_less_power
        semiring_norm(76))
  have created: "rg ?I grows (bindP (stmtE (\<lambda>s. insert_created_stmt ?W
       (stamp (event_values c r None Run_created (Some d) v) (slot_id ?W 1) None s) s)) (\<lambda>at. Ret (k at))) s"
    if "slotted (tenantId c) r s" for s r and k :: "timestamp \<Rightarrow> 'z"
  proof (rule log_order.rg_bind_stmtE)
    fix t at u
    assume t: "?I t" "grows s t" and ins: "insert_created_stmt ?W
       (stamp (event_values c r None Run_created (Some d) v) (slot_id ?W 1) None t) t = (Inr at, u)"
    obtain x where ins': "insert_event_stmt ?W
       (stamp (event_values c r None Run_created (Some d) v) (slot_id ?W 1) None t) t = (Inr (Some x), u)"
      using insert_created_stmtD [OF ins] by blast
    have "slotted (tenantId c) r t" using that t(2) by (simp add: grows_def)
    then have "?I u \<and> grows t u"
      using insert_slot_at [OF laws t(1) t(1) grows_refl _ _ ins'] by force
    then show "?I u \<and> grows t u \<and> rg ?I grows (Ret (k at)) u" by simp
  qed
  have "safe ?I grows (insert_created_event c row d v)" for row
    unfolding insert_created_event_def openEventSlots_def bindP_assoc bindP.simps first safe_def
    by (intro allI log_order.rg_bind_exec conjI created)
      (auto simp: numbered_log_open_slots dest: numbered_log_log_inv intro!: log_inv_open_slots(2,3))
  moreover have "keeps ?I grows (\<lambda>s. snd (insert_run_stmt (rv s) s))"
    by (simp add: keeps_def numbered_log_new_row)
  ultimately show ?thesis using admit by (intro log_order.safe_insert_run)
qed

lemma log_frames:
  "writes_only steps_update f \<Longrightarrow> keeps (numbered_log W N) grows f"
  "writes_only hooks_update f \<Longrightarrow> keeps (numbered_log W N) grows f"
  "writes_only waits_update f \<Longrightarrow> keeps (numbered_log W N) grows f"
  "writes_only startHookAdmissions_update f \<Longrightarrow> keeps (numbered_log W N) grows f"
  "writes_only pendingFence_update f \<Longrightarrow> keeps (numbered_log W N) grows f"
  by (erule keeps_writes, rule conjI, erule numbered_log_cong [THEN iffD2, rotated 3], simp, simp, simp,
      rule grows_cong; simp)+

lemma log_run_update:
  assumes "\<And>x. row_format (f x) = row_format x"
  shows "keeps (numbered_log W N) grows (\<lambda>s. s\<lparr>runs := update_where P f (runs s)\<rparr>)"
proof -
  have "row_format ` set (update_where P f xs) = row_format ` set xs" for xs
    using assms by (induction xs) (simp_all add: update_where_def)
  then have "numbered_log W N (s\<lparr>runs := update_where P f (runs s)\<rparr>) = numbered_log W N s" for s
    by (intro numbered_log_cong) simp_all
  then show ?thesis by (simp add: keeps_def grows_cong)
qed

lemma log_runs:
  "keeps (numbered_log W N) grows (set_run_started c r)"
  "keeps (numbered_log W N) grows (set_run_terminal c r (completed_fields c ed))"
  "keeps (numbered_log W N) grows (set_run_terminal c r (failed_fields c ed))"
  "keeps (numbered_log W N) grows (set_run_terminal c r (cancelled_fields c))"
  "keeps (numbered_log W N) grows (set_attributes c r ch)"
  "keeps (numbered_log W N) grows (set_legacy_cancelled c r)"
  unfolding set_run_started_def set_run_terminal_def set_attributes_def set_legacy_cancelled_def
  by (rule log_run_update, simp add: row_format_def completed_fields_def failed_fields_def cancelled_fields_def)+

lemma log_guarantee:
  assumes "slot_laws (sdk c)"
  shows "create_guarantee (numbered_log (sdk c) N) grows c"
  by unfold_locales
    (rule log_safe_write_event [OF assms] log_runs
      | (rule log_safe_legacy [OF assms], assumption+)
      | (rule log_safe_new_run [OF assms], blast)
      | (rule log_frames, rule statement_writes))+

lemma log_environment: "environment s t \<Longrightarrow> numbered_log W N s \<Longrightarrow> numbered_log W N t \<and> grows s t"
  using environment_tables [of s t] numbered_log_cong [of t s W N] by (simp add: grows_cong)

lemma log_pool:
  assumes "slot_laws W" and "same_world W calls" and "numbered_log W N s"
    and "pool_steps environment (s, pool_of calls) (s', ps)"
  shows "numbered_log W N s' \<and> grows s s'"
proof (rule log_order.pool_of_order [OF assms(4,3)])
  show "create_guarantee (numbered_log W N) grows c" if "(c, r, q, pa) \<in> set calls" for c r q pa
    using log_guarantee [of c] same_worldD [OF assms(2) that] assms(1) by simp
qed (rule log_environment)

end
