(* ===== verification/Keys.thy ===== *)
theory Keys
  imports Guarantee
begin

text \<open>
  The constraints of the tables, kept by every statement of \<open>create\<close> in every interleaving:
  the primary keys of \<open>src/drizzle/schema.ts\<close>, one claim per hook token, one correlated
  creation event per entity; and that a \<open>run_created\<close> event is only ever written under the
  id of the first slot, so that a run has at most one.
\<close>

section \<open>The invariant, table by table\<close>

definition event_key :: "event_row \<Rightarrow> tenant_id \<times> run_id \<times> event_id" where
  "event_key e = (e_tenantId e, e_runId e, e_eventId e)"

definition correlated :: "event_row \<Rightarrow> bool" where
  "correlated e \<longleftrightarrow> dedup_type (e_eventType e) \<and> e_correlationId e \<noteq> None"

definition correlation_key :: "event_row \<Rightarrow> tenant_id \<times> run_id \<times> string option \<times> event_type" where
  "correlation_key e = (e_tenantId e, e_runId e, e_correlationId e, e_eventType e)"

definition slots_key :: "slots_row \<Rightarrow> tenant_id \<times> run_id" where
  "slots_key x = (sl_tenantId x, sl_runId x)"

definition step_key :: "step_row \<Rightarrow> tenant_id \<times> string" where
  "step_key x = (s_tenantId x, s_stepId x)"

definition hook_key :: "hook_row \<Rightarrow> tenant_id \<times> string" where
  "hook_key h = (h_tenantId h, h_hookId h)"

definition claim_key :: "hook_row \<Rightarrow> tenant_id \<times> string" where
  "claim_key h = (h_tenantId h, h_token h)"

definition wait_key :: "wait_row \<Rightarrow> tenant_id \<times> string" where
  "wait_key w = (w_tenantId w, w_waitId w)"

definition admission_key :: "admission_row \<Rightarrow> tenant_id \<times> run_id" where
  "admission_key a = (a_tenantId a, a_runId a)"

lemmas key_defs = run_key_def event_key_def correlated_def correlation_key_def slots_key_def
  step_key_def hook_key_def claim_key_def wait_key_def admission_key_def

definition events_ok :: "world_sdk \<Rightarrow> event_row list \<Rightarrow> bool" where
  "events_ok W es \<longleftrightarrow> distinct (map event_key es) \<and>
     distinct (map correlation_key (filter correlated es)) \<and>
     (\<forall>e \<in> set es. e_eventType e = Run_created \<longrightarrow> e_eventId e = slotToEventId W (FIRST_EVENT_SLOT W))"

definition hooks_ok :: "hook_row list \<Rightarrow> bool" where
  "hooks_ok hs \<longleftrightarrow> distinct (map hook_key hs) \<and> distinct (map claim_key (filter h_claimsToken hs))"

definition key_inv :: "world_sdk \<Rightarrow> st \<Rightarrow> bool" where
  "key_inv W s \<longleftrightarrow> distinct (map run_key (runs s)) \<and> events_ok W (events s) \<and>
     distinct (map slots_key (eventSlots s)) \<and> distinct (map step_key (steps s)) \<and>
     hooks_ok (hooks s) \<and> distinct (map wait_key (waits s)) \<and>
     distinct (map admission_key (startHookAdmissions s))"

subsection \<open>Writes on one table\<close>

lemma distinct_insert_unless:
  "(\<And>q. conflict q \<longleftrightarrow> k q = k r) \<Longrightarrow> distinct (map k t) \<Longrightarrow> distinct (map k (insert_unless conflict r t))"
  by (auto simp: insert_unless_def has_row_iff distinct_map_snoc)

lemma distinct_update_where:
  "(\<And>r. k (f r) = k r) \<Longrightarrow> distinct (map k (update_where P f t)) = distinct (map k t)"
  by (simp add: map_key_update_where)

lemma key_fields:
  "run_key (completed_fields c ed x) = run_key x" "run_key (failed_fields c ed x) = run_key x"
  "run_key (cancelled_fields c x) = run_key x"
  "step_key (step_started_fields c ow y) = step_key y" "step_key (step_completed_fields c ed y) = step_key y"
  "step_key (step_failed_fields c ed y) = step_key y" "step_key (step_retrying_fields c ed y) = step_key y"
  "wait_key (wait_completed_fields c w) = wait_key w"
  by (simp_all add: key_defs completed_fields_def failed_fields_def cancelled_fields_def
      step_started_fields_def step_completed_fields_def step_failed_fields_def
      step_retrying_fields_def wait_completed_fields_def)

lemma keep_run_update:
  "(\<And>x. run_key (f x) = run_key x) \<Longrightarrow>
     keeps (key_inv W) anywhere (\<lambda>s. s\<lparr>runs := update_where (P s) f (runs s)\<rparr>)"
  by (simp add: keeps_def key_inv_def distinct_update_where)

lemma keep_runs:
  "keeps (key_inv W) anywhere (set_run_started c r)"
  "(\<And>x. run_key (f x) = run_key x) \<Longrightarrow> keeps (key_inv W) anywhere (set_run_terminal c r f)"
  "keeps (key_inv W) anywhere (set_attributes c r ch)"
  "keeps (key_inv W) anywhere (set_legacy_cancelled c r)"
  unfolding set_run_started_def set_run_terminal_def set_attributes_def set_legacy_cancelled_def
  by (rule keep_run_update, simp add: run_key_def cancelled_fields_def)+

lemma keep_new_run: "keeps (key_inv W) anywhere (\<lambda>s. snd (insert_run_stmt (x s) s))"
  by (auto simp: keeps_def key_inv_def insert_run_stmt_def same_run_key_def distinct_map_snoc key_defs
      has_row_iff simp del: map_append)

lemma keep_steps:
  "keeps (key_inv W) anywhere (\<lambda>s. snd (insert_step_stmt (x s) s))"
  "(\<And>x. step_key (g x) = step_key x) \<Longrightarrow> keeps (key_inv W) anywhere (\<lambda>s. snd (update_step_stmt c r cid g s))"
  by (auto simp: keeps_def key_inv_def insert_step_stmt_def update_step_stmt_def same_step_id_def
      distinct_map_snoc key_defs has_row_iff distinct_update_where simp del: map_append)

lemma keep_waits:
  "keeps (key_inv W) anywhere (delete_run_waits c r)"
  "keeps (key_inv W) anywhere (\<lambda>s. snd (insert_wait_stmt c (w s) s))"
  "keeps (key_inv W) anywhere (\<lambda>s. snd (complete_wait_stmt c wid s))"
  by (auto simp: keeps_def key_inv_def delete_run_waits_def insert_wait_stmt_def complete_wait_stmt_def
      Let_def distinct_map_snoc has_row_iff distinct_update_where key_fields distinct_map_delete_where
      simp del: map_append) (auto simp: wait_key_def)

lemma hooks_ok_delete: "hooks_ok hs \<Longrightarrow> hooks_ok (delete_where P hs)"
  by (simp add: hooks_ok_def delete_where_def distinct_map_filter filter_filter conj_commute)
    (metis distinct_map_filter filter_filter conj_commute)

lemma hooks_ok_snoc:
  "hooks_ok hs \<Longrightarrow> \<not> has_row (same_hook_id h) hs \<Longrightarrow> \<not> has_row (same_claim h) hs \<Longrightarrow> hooks_ok (hs @ [h])"
  by (auto simp: hooks_ok_def has_row_iff same_hook_id_def same_claim_def key_defs)

lemma keep_hooks:
  "keeps (key_inv W) anywhere (delete_run_hooks c r)"
  "keeps (key_inv W) anywhere (delete_legacy_hooks c r)"
  "keeps (key_inv W) anywhere (release_ended_token c token)"
  "keeps (key_inv W) anywhere (\<lambda>s. snd (insert_hook_stmt (h s) s))"
  "keeps (key_inv W) anywhere (\<lambda>s. snd (insert_hook_lenient_stmt (h s) s))"
  "keeps (key_inv W) anywhere (\<lambda>s. snd (delete_hook_stmt c hid s))"
  unfolding keeps_def delete_run_hooks_def delete_legacy_hooks_def release_ended_token_def
    insert_hook_stmt_def insert_hook_lenient_stmt_def delete_hook_stmt_def key_inv_def
  by (auto simp: hooks_ok_delete hooks_ok_snoc) (auto intro!: hooks_ok_snoc simp: has_row_iff)

lemma keep_other:
  "keeps (key_inv W) anywhere (\<lambda>s. s\<lparr>pendingFence := x\<rparr>)"
  "keeps (key_inv W) anywhere (\<lambda>s. s\<lparr>startHookAdmissions := delete_where P (startHookAdmissions s)\<rparr>)"
  "a_tenantId a = tenantId c \<Longrightarrow> keeps (key_inv W) anywhere (\<lambda>s.
     if has_row (same_admission c (a_runId a)) (startHookAdmissions s) then s
     else s\<lparr>startHookAdmissions := startHookAdmissions s @ [a\<lparr>a_createdAt := db_now s\<rparr>]\<rparr>)"
  "keeps (key_inv W) anywhere (\<lambda>s. s\<lparr>eventSlots :=
     insert_unless (\<lambda>q. sl_tenantId q = tenantId c \<and> sl_runId q = r)
       \<lparr>sl_tenantId = tenantId c, sl_runId = r, sl_seqInBand = 1\<rparr> (eventSlots s)\<rparr>)"
  "keeps (key_inv W) anywhere (\<lambda>s. s\<lparr>eventSlots := update_where Q
     (\<lambda>q. q\<lparr>sl_seqInBand := sl_seqInBand q + 1\<rparr>) (eventSlots s)\<rparr>)"
  by (auto simp: keeps_def key_inv_def distinct_map_delete_where distinct_map_snoc has_row_iff
      same_admission_def distinct_update_where key_defs insert_unless_def simp del: map_append)

lemma events_ok_insert:
  assumes "events_ok W (events s)"
    and "e_eventType e = Run_created \<longrightarrow> e_eventId e = slotToEventId W (FIRST_EVENT_SLOT W)"
  shows "events_ok W (events (snd (insert_event_stmt W' e s)))"
  using assms
  by (auto simp: insert_event_stmt_def events_ok_def has_row_iff same_event_key_def
      same_correlation_def key_defs)

lemma keep_events:
  "(\<And>s. e_eventType (e s) = Run_created \<Longrightarrow> e_eventId (e s) = slotToEventId W (FIRST_EVENT_SLOT W)) \<Longrightarrow>
     keeps (key_inv W) anywhere (\<lambda>s. snd (insert_event_stmt W' (e s) s))"
  unfolding keeps_def key_inv_def
  by (auto simp: events_ok_insert) (simp_all add: insert_event_stmt_def)

interpretation key_order: st_order "key_inv W" anywhere for W
  by unfold_locales simp_all

interpretation key: event_guarantee "key_inv (sdk c)" anywhere c for c
  by unfold_locales
    (auto intro!: keep_runs keep_new_run keep_steps keep_waits keep_hooks keep_other keep_events
      simp: key_fields)

lemma key_environment: "environment s t \<Longrightarrow> key_inv W s \<Longrightarrow> key_inv W t \<and> anywhere s t"
  using environment_tables [of s t] by (simp add: key_inv_def)

lemma key_pool:
  assumes "same_world W calls" and "key_inv W s" and "pool_steps environment (s, pool_of calls) (s', ps)"
  shows "key_inv W s'"
proof -
  have "key_inv W s' \<and> anywhere s s'"
  proof (rule key_order.pool_of_order [OF assms(3,2)])
    show "create_guarantee (key_inv W) anywhere c" if "(c, r, q, pa) \<in> set calls" for c r q pa
      using key.create_guarantee_axioms [of c] same_worldD [OF assms(1) that] by simp
  qed (rule key_environment)
  then show ?thesis by simp
qed

lemma run_created_unique:
  assumes "key_inv W s" and "e \<in> set (events s)" "e' \<in> set (events s)" and "of_run t r e" "of_run t r e'"
    and "e_eventType e = Run_created" "e_eventType e' = Run_created"
  shows "e = e'"
  using assms unfolding key_inv_def events_ok_def
  by (elim conjE) (rule distinct_map_unique [of event_key], auto simp: event_key_def of_run_def)

end
