(* ===== verification/Evolution.thy ===== *)
theory Evolution
  imports Guarantee
begin

text \<open>
  How rows may move while any number of \<open>create\<close> calls interleave: a run keeps its
  provenance, a terminal step keeps every column, and a call touches only its tenant's rows.
\<close>

section \<open>Runs and steps\<close>

text \<open>
  The columns of a run an event may change; the rest (input, deployment, workflow, spec
  version, namespace, encryption key, retention, start hook) is fixed at creation. A run never
  returns to \<open>pending\<close>, its \<open>startedAt\<close> and \<open>completedAt\<close> are not cleared, and its attributes
  do not grow past the cap.
\<close>

definition run_le :: "world_sdk \<Rightarrow> run_row \<Rightarrow> run_row \<Rightarrow> bool" where
  "run_le W x y \<longleftrightarrow>
     y = x\<lparr>r_status := r_status y, r_output := r_output y, r_error := r_error y,
           r_errorCode := r_errorCode y, r_attributes := r_attributes y, r_updatedAt := r_updatedAt y,
           r_completedAt := r_completedAt y, r_startedAt := r_startedAt y\<rparr> \<and>
     (r_status x \<noteq> Run_pending \<longrightarrow> r_status y \<noteq> Run_pending) \<and>
     (r_completedAt x \<noteq> None \<longrightarrow> r_completedAt y \<noteq> None) \<and>
     (r_startedAt x \<noteq> None \<longrightarrow> r_startedAt y \<noteq> None) \<and>
     length (r_attributes y) \<le> max (ATTRIBUTE_MAX_PER_RUN W) (length (r_attributes x))"

text \<open>
  A step: its identity, name and input are fixed; a terminal one is final; the attempt count
  never falls and the first start is the one that counts.
\<close>

definition step_le :: "world_sdk \<Rightarrow> step_row \<Rightarrow> step_row \<Rightarrow> bool" where
  "step_le W x y \<longleftrightarrow>
     y = x\<lparr>s_status := s_status y, s_output := s_output y, s_error := s_error y,
           s_attempt := s_attempt y, s_startedAt := s_startedAt y, s_completedAt := s_completedAt y,
           s_updatedAt := s_updatedAt y, s_retryAfter := s_retryAfter y,
           s_ownerMessageId := s_ownerMessageId y\<rparr> \<and>
     (s_status x \<in> set (TERMINAL_STEP_STATUSES W) \<longrightarrow> y = x) \<and>
     s_attempt x \<le> s_attempt y \<and>
     (s_startedAt x \<noteq> None \<longrightarrow> s_startedAt y = s_startedAt x)"

definition table_order :: "world_sdk \<Rightarrow> st \<Rightarrow> st \<Rightarrow> bool" where
  "table_order W s s' \<longleftrightarrow> evolves (run_le W) (runs s) (runs s') \<and> evolves (step_le W) (steps s) (steps s')"

lemma run_le_refl: "run_le W x x"
  by (simp add: run_le_def)

lemma run_le_trans: "run_le W x y \<Longrightarrow> run_le W y z \<Longrightarrow> run_le W x z"
  unfolding run_le_def by (elim conjE, intro conjI)
    ((cases x; cases y; cases z; simp), simp_all)

lemma step_le_refl: "step_le W x x"
  by (simp add: step_le_def)

lemma step_le_trans: "step_le W x y \<Longrightarrow> step_le W y z \<Longrightarrow> step_le W x z"
  unfolding step_le_def by (elim conjE, intro conjI)
    ((cases x; cases y; cases z; simp), auto)

lemma step_le_same:
  assumes "step_le W x y"
  shows "s_tenantId y = s_tenantId x" "s_runId y = s_runId x" "s_stepId y = s_stepId x"
    "s_stepName y = s_stepName x" "s_input y = s_input x"
  using assms by (cases x; cases y; simp add: step_le_def)+

lemma run_le_same:
  assumes "run_le W x y"
  shows "r_tenantId y = r_tenantId x" "r_runId y = r_runId x" "r_deploymentId y = r_deploymentId x"
    "r_workflowName y = r_workflowName x" "r_specVersion y = r_specVersion x" "r_input y = r_input x"
    "r_queueNamespace y = r_queueNamespace x" "r_retentionClass y = r_retentionClass x"
    "r_retentionRootRunId y = r_retentionRootRunId x" "r_createdAt y = r_createdAt x"
    "r_startHook y = r_startHook x" "r_encryptionPublicKey y = r_encryptionPublicKey x"
  using assms by (cases x; cases y; simp add: run_le_def)+

lemma table_order_refl: "table_order W s s"
  by (simp add: table_order_def evolves_refl run_le_refl step_le_refl)

lemma table_order_trans: "table_order W s t \<Longrightarrow> table_order W t u \<Longrightarrow> table_order W s u"
  unfolding table_order_def by (blast intro: evolves_trans run_le_trans step_le_trans)

lemma table_order_cong: "runs s' = runs s \<Longrightarrow> steps s' = steps s \<Longrightarrow> table_order W s s'"
  by (simp add: table_order_def evolves_refl run_le_refl step_le_refl)

subsection \<open>The statements\<close>

lemma run_le_fields:
  "run_le W x (completed_fields c d x)" "run_le W x (failed_fields c d x)"
  "run_le W x (cancelled_fields c x)"
  by (simp_all add: run_le_def completed_fields_def failed_fields_def cancelled_fields_def)

lemma step_le_fields:
  assumes "step_live c x" and "W = sdk c"
  shows "step_le W x (step_started_fields c ow x)" "step_le W x (step_completed_fields c d x)"
    "step_le W x (step_failed_fields c d x)" "step_le W x (step_retrying_fields c d x)"
  using assms
  by (auto simp: step_le_def step_live_def step_started_fields_def step_completed_fields_def
      step_failed_fields_def step_retrying_fields_def)

lemma order_run_update:
  "(\<And>x. P x \<Longrightarrow> run_le W x (f x)) \<Longrightarrow>
     keeps always (table_order W) (\<lambda>s. s\<lparr>runs := update_where P f (runs s)\<rparr>)"
  by (simp add: keeps_def table_order_def evolves_refl step_le_refl evolves_update_where run_le_refl)

lemma order_runs:
  "keeps always (table_order (sdk c)) (set_run_started c r)"
  "(\<And>x. run_le (sdk c) x (f x)) \<Longrightarrow> keeps always (table_order (sdk c)) (set_run_terminal c r f)"
  "keeps always (table_order (sdk c)) (set_attributes c r ch)"
  "keeps always (table_order (sdk c)) (set_legacy_cancelled c r)"
  unfolding set_run_started_def set_run_terminal_def set_attributes_def set_legacy_cancelled_def
  by (rule order_run_update, simp add: run_le_def fits_cap_def cancelled_fields_def max_def)+

lemma order_new_run: "keeps always (table_order W) (\<lambda>s. snd (insert_run_stmt (x s) s))"
  by (auto simp: keeps_def insert_run_stmt_def table_order_def
      intro!: evolves_refl evolves_append run_le_refl step_le_refl)

lemma order_steps:
  "keeps always (table_order W) (\<lambda>s. snd (insert_step_stmt (x s) s))"
  "(\<And>y. step_live c y \<Longrightarrow> step_le W y (g y)) \<Longrightarrow>
     keeps always (table_order W) (\<lambda>s. snd (update_step_stmt c r cid g s))"
  by (auto simp: keeps_def insert_step_stmt_def update_step_stmt_def table_order_def
      intro!: evolves_refl evolves_append evolves_update_where run_le_refl step_le_refl)

lemma order_frames:
  "writes_only hooks_update f \<Longrightarrow> keeps always (table_order W) f"
  "writes_only waits_update f \<Longrightarrow> keeps always (table_order W) f"
  "writes_only startHookAdmissions_update f \<Longrightarrow> keeps always (table_order W) f"
  "writes_only pendingFence_update f \<Longrightarrow> keeps always (table_order W) f"
  by (erule keeps_writes, simp add: table_order_cong)+

lemma order_log:
  "keeps always (table_order W) (\<lambda>s. s\<lparr>eventSlots := x s\<rparr>)"
  "keeps always (table_order W) (\<lambda>s. snd (insert_event_stmt W' (e s) s))"
  by (auto simp: keeps_def insert_event_stmt_def intro!: table_order_cong)

interpretation row_order: st_order always "table_order W" for W
  by unfold_locales (auto intro: table_order_refl table_order_trans)

interpretation row: event_guarantee always "table_order (sdk c)" c for c
  by unfold_locales
    (rule table_order_refl | (erule table_order_trans, assumption)
      | rule order_runs(1,3,4) order_steps(1) order_log order_new_run
      | (rule order_runs(2), rule run_le_fields)
      | (rule order_steps(2), erule step_le_fields, rule refl)
      | (rule order_frames, rule statement_writes))+

lemma row_environment: "environment s t \<Longrightarrow> always s \<Longrightarrow> always t \<and> table_order W s t"
  using environment_tables [of s t] by (simp add: table_order_cong)

lemma row_pool:
  assumes "same_world W calls" and "pool_steps environment (s, pool_of calls) (s', ps)"
  shows "table_order W s s'"
proof -
  have "always s' \<and> table_order W s s'"
  proof (rule row_order.pool_of_order [OF assms(2)])
    show "create_guarantee always (table_order W) c" if "(c, r, q, pa) \<in> set calls" for c r q pa
      using row.create_guarantee_axioms [of c] same_worldD [OF assms(1) that] by simp
  qed (rule TrueI, rule row_environment)
  then show ?thesis by simp
qed

end
