(* ===== verification/Isolation.thy ===== *)
theory Isolation
  imports Guarantee
begin

text \<open>
  Tenant isolation: \<open>create\<close> for one tenant neither changes, deletes nor adds a run, event,
  slot row, step, hook or wait of another. (The ledger of start-hook decisions is left out:
  \<open>deleteExpiredDecisions\<close> removes expired rows of every tenant.)
\<close>

record tenant_view =
  tv_runs :: "run_row list"
  tv_events :: "event_row list"
  tv_slots :: "slots_row list"
  tv_steps :: "step_row list"
  tv_hooks :: "hook_row list"
  tv_waits :: "wait_row list"

definition tenant_view :: "tenant_id \<Rightarrow> st \<Rightarrow> tenant_view" where
  "tenant_view t s = \<lparr>tv_runs = filter (\<lambda>x. r_tenantId x = t) (runs s),
     tv_events = filter (\<lambda>x. e_tenantId x = t) (events s),
     tv_slots = filter (\<lambda>x. sl_tenantId x = t) (eventSlots s),
     tv_steps = filter (\<lambda>x. s_tenantId x = t) (steps s),
     tv_hooks = filter (\<lambda>x. h_tenantId x = t) (hooks s),
     tv_waits = filter (\<lambda>x. w_tenantId x = t) (waits s)\<rparr>"

definition isolated :: "tenant_id set \<Rightarrow> st \<Rightarrow> st \<Rightarrow> bool" where
  "isolated T s s' \<longleftrightarrow> (\<forall>t. t \<notin> T \<longrightarrow> tenant_view t s' = tenant_view t s)"

named_theorems isolation_rules

lemma isolated_refl: "isolated T s s"
  by (simp add: isolated_def)

lemma isolated_trans: "isolated T s t \<Longrightarrow> isolated T t u \<Longrightarrow> isolated T s u"
  by (simp add: isolated_def)

section \<open>The statements\<close>

lemma own_rows:
  "r_tenantId (completed_fields c d x) = r_tenantId x" "r_tenantId (failed_fields c d x) = r_tenantId x"
  "r_tenantId (cancelled_fields c x) = r_tenantId x" "s_tenantId (step_started_fields c ow y) = s_tenantId y"
  "s_tenantId (step_completed_fields c d y) = s_tenantId y" "s_tenantId (step_failed_fields c d y) = s_tenantId y"
  "s_tenantId (step_retrying_fields c d y) = s_tenantId y" "w_tenantId (wait_completed_fields c w) = w_tenantId w"
  by (simp_all add: completed_fields_def failed_fields_def cancelled_fields_def step_started_fields_def
      step_completed_fields_def step_failed_fields_def step_retrying_fields_def wait_completed_fields_def)

lemma isolated_runs [isolation_rules]:
  assumes "tenantId c \<in> T"
  shows "keeps always (isolated T) (set_run_started c r)"
    "(\<And>x. r_tenantId (f x) = r_tenantId x) \<Longrightarrow> keeps always (isolated T) (set_run_terminal c r f)"
    "keeps always (isolated T) (set_attributes c r ch)"
    "keeps always (isolated T) (set_legacy_cancelled c r)"
    "(\<And>s. r_tenantId (x s) = tenantId c) \<Longrightarrow> keeps always (isolated T) (\<lambda>s. snd (insert_run_stmt (x s) s))"
  using assms
  by (auto simp: keeps_def isolated_def tenant_view_def statement_defs this_run_def own_rows
      intro!: filter_update_where_frame)

lemma isolated_steps [isolation_rules]:
  assumes "tenantId c \<in> T"
  shows "(\<And>s. s_tenantId (x s) = tenantId c) \<Longrightarrow> keeps always (isolated T) (\<lambda>s. snd (insert_step_stmt (x s) s))"
    "(\<And>y. s_tenantId (g y) = s_tenantId y) \<Longrightarrow>
       keeps always (isolated T) (\<lambda>s. snd (update_step_stmt c r cid g s))"
  using assms
  by (auto simp: keeps_def isolated_def tenant_view_def statement_defs this_step_def
      intro!: filter_update_where_frame)

lemma isolated_waits [isolation_rules]:
  assumes "tenantId c \<in> T"
  shows "keeps always (isolated T) (delete_run_waits c r)"
    "(\<And>s. w_tenantId (w s) = tenantId c) \<Longrightarrow> keeps always (isolated T) (\<lambda>s. snd (insert_wait_stmt c (w s) s))"
    "keeps always (isolated T) (\<lambda>s. snd (complete_wait_stmt c wid s))"
  using assms
  by (auto simp: keeps_def isolated_def tenant_view_def statement_defs this_wait_def own_rows Let_def
      intro!: filter_update_where_frame filter_delete_where_frame)

lemma isolated_hooks [isolation_rules]:
  assumes "tenantId c \<in> T"
  shows "keeps always (isolated T) (delete_run_hooks c r)"
    "keeps always (isolated T) (delete_legacy_hooks c r)"
    "keeps always (isolated T) (release_ended_token c token)"
    "(\<And>s. h_tenantId (h s) = tenantId c) \<Longrightarrow> keeps always (isolated T) (\<lambda>s. snd (insert_hook_stmt (h s) s))"
    "(\<And>s. h_tenantId (h s) = tenantId c) \<Longrightarrow> keeps always (isolated T) (\<lambda>s. snd (insert_hook_lenient_stmt (h s) s))"
    "keeps always (isolated T) (\<lambda>s. snd (delete_hook_stmt c hid s))"
  using assms
  by (auto simp: keeps_def isolated_def tenant_view_def statement_defs this_hook_def hookTokenEquals_def
      intro!: filter_delete_where_frame)

lemma isolated_log [isolation_rules]:
  assumes "tenantId c \<in> T"
  shows "keeps always (isolated T) (\<lambda>s. s\<lparr>eventSlots :=
        insert_unless (\<lambda>q. sl_tenantId q = tenantId c \<and> sl_runId q = r)
          \<lparr>sl_tenantId = tenantId c, sl_runId = r, sl_seqInBand = 1\<rparr> (eventSlots s)\<rparr>)"
    "t = tenantId c \<Longrightarrow> keeps always (isolated T) (\<lambda>s. s\<lparr>eventSlots := update_where
        (\<lambda>q. (sl_tenantId q = t \<and> sl_runId q = r) \<and> sl_seqInBand q = n)
        (\<lambda>q. q\<lparr>sl_seqInBand := sl_seqInBand q + 1\<rparr>) (eventSlots s)\<rparr>)"
    "(\<And>s. e_tenantId (e s) = tenantId c) \<Longrightarrow> keeps always (isolated T) (\<lambda>s. snd (insert_event_stmt W (e s) s))"
  using assms
  by (auto simp: keeps_def isolated_def tenant_view_def insert_unless_def insert_event_stmt_def
      intro!: filter_update_where_frame)

lemma isolated_frames:
  "writes_only startHookAdmissions_update f \<Longrightarrow> keeps always (isolated T) f"
  "writes_only pendingFence_update f \<Longrightarrow> keeps always (isolated T) f"
  by (erule keeps_writes, simp add: isolated_def tenant_view_def)+

interpretation tenant_order: st_order always "isolated T" for T
  by unfold_locales (auto intro: isolated_refl isolated_trans)

interpretation tenants: event_guarantee always "isolated (insert (tenantId c) T)" c for c T
  by unfold_locales
    (rule isolated_refl | (erule isolated_trans, assumption)
      | (rule isolated_frames, rule statement_writes)
      | (rule isolation_rules, rule insertI1; simp add: own_rows run_values_def step_values_def
          hook_values_def start_hook_row_def))+

lemma tenant_environment: "environment s t \<Longrightarrow> always s \<Longrightarrow> always t \<and> isolated T s t"
  using environment_tables [of s t] by (simp add: isolated_def tenant_view_def)

definition pool_tenants :: "call list \<Rightarrow> tenant_id set" where
  "pool_tenants calls = (\<lambda>(c, _, _, _). tenantId c) ` set calls"

lemma tenant_pool:
  assumes "pool_steps environment (s, pool_of calls) (s', ps)"
  shows "isolated (pool_tenants calls) s s'"
proof -
  have "always s' \<and> isolated (pool_tenants calls) s s'"
  proof (rule tenant_order.pool_of_order [OF assms])
    show "create_guarantee always (isolated (pool_tenants calls)) c" if "(c, r, q, pa) \<in> set calls" for c r q pa
    proof -
      have "tenantId c \<in> pool_tenants calls" using that by (force simp: pool_tenants_def)
      then show ?thesis using tenants.create_guarantee_axioms [of c "pool_tenants calls"] by (simp add: insert_absorb)
    qed
  qed (rule TrueI, rule tenant_environment)
  then show ?thesis by simp
qed

end
