(* ===== verification/Journal.thy ===== *)
theory Journal
  imports Guarantee
begin

text \<open>
  A run and its log begin together: \<open>insertRunWithCreatedEvent\<close> writes the run row, its slot
  row and its \<open>run_created\<close> event in one transaction, and nothing else inserts a run. So in
  every reachable state every run has a slot row and a journaled \<open>run_created\<close>.
\<close>

definition journaled_run :: "run_row \<Rightarrow> st \<Rightarrow> bool" where
  "journaled_run x s \<longleftrightarrow> slotted (r_tenantId x) (r_runId x) s \<and>
     (\<exists>e \<in> set (events s). of_run (r_tenantId x) (r_runId x) e \<and> e_eventType e = Run_created)"

definition journaled :: "st \<Rightarrow> bool" where
  "journaled s \<longleftrightarrow> (\<forall>x \<in> set (runs s). journaled_run x s)"

lemma journaled_run_cong:
  "r_tenantId x = r_tenantId y \<Longrightarrow> r_runId x = r_runId y \<Longrightarrow> journaled_run x s = journaled_run y s"
  by (simp add: journaled_run_def)

lemma journaled_run_mono:
  assumes "journaled_run x s" and "set (events s) \<subseteq> set (events s')"
    and "\<And>t r. slotted t r s \<Longrightarrow> slotted t r s'"
  shows "journaled_run x s'"
  using assms unfolding journaled_run_def by blast

lemma insert_event_more: "set (events s) \<subseteq> set (events (snd (insert_event_stmt W e s)))"
  by (auto simp: insert_event_stmt_def)

lemma insert_event_rest:
  "runs (snd (insert_event_stmt W e s)) = runs s"
  "slotted t r (snd (insert_event_stmt W e s)) = slotted t r s"
  by (simp_all add: insert_event_stmt_def slotted_def)

interpretation journal_order: st_order journaled anywhere
  by unfold_locales simp_all

lemma journal_update:
  "(\<And>x. r_tenantId (f x) = r_tenantId x \<and> r_runId (f x) = r_runId x) \<Longrightarrow>
     keeps journaled anywhere (\<lambda>s. s\<lparr>runs := update_where P f (runs s)\<rparr>)"
  by (auto simp: keeps_def journaled_def journaled_run_def slotted_def update_where_def)

lemma journal_runs:
  "keeps journaled anywhere (set_run_started c r)"
  "(\<And>x. r_tenantId (f x) = r_tenantId x \<and> r_runId (f x) = r_runId x) \<Longrightarrow>
     keeps journaled anywhere (set_run_terminal c r f)"
  "keeps journaled anywhere (set_attributes c r ch)"
  "keeps journaled anywhere (set_legacy_cancelled c r)"
  unfolding set_run_started_def set_run_terminal_def set_attributes_def set_legacy_cancelled_def
  by (rule journal_update, simp add: cancelled_fields_def)+

lemma journal_frames:
  "writes_only steps_update f \<Longrightarrow> keeps journaled anywhere f"
  "writes_only hooks_update f \<Longrightarrow> keeps journaled anywhere f"
  "writes_only waits_update f \<Longrightarrow> keeps journaled anywhere f"
  "writes_only startHookAdmissions_update f \<Longrightarrow> keeps journaled anywhere f"
  "writes_only pendingFence_update f \<Longrightarrow> keeps journaled anywhere f"
  by (erule keeps_writes, simp add: journaled_def journaled_run_def slotted_def)+

lemma journal_event: "keeps journaled anywhere (\<lambda>s. snd (insert_event_stmt W (e s) s))"
  unfolding keeps_def journaled_def insert_event_rest
  by (auto intro: journaled_run_mono [OF _ insert_event_more] simp: insert_event_rest)

lemma journal_slots:
  assumes "\<And>s t r. slotted t r s \<Longrightarrow> slotted t r (s\<lparr>eventSlots := f s\<rparr>)"
  shows "keeps journaled anywhere (\<lambda>s. s\<lparr>eventSlots := f s\<rparr>)"
  using assms by (auto simp: keeps_def journaled_def intro: journaled_run_mono)

text \<open>The one transaction that passes through a state with an unjournaled run.\<close>

lemma run_insert_created_event:
  assumes "run (insert_created_event c row d v) s = (Inr (eid, at), u)"
  shows "runs u = runs s \<and> set (events s) \<subseteq> set (events u) \<and> (\<forall>t r. slotted t r s \<longrightarrow> slotted t r u) \<and>
    slotted (tenantId c) (r_runId row) u \<and>
    (\<exists>e \<in> set (events u). of_run (tenantId c) (r_runId row) e \<and> e_eventType e = Run_created)"
  using assms
  by (auto simp: insert_created_event_def openEventSlots_def run_simps run_stmtE insert_created_stmt_def
      insert_event_stmt_def slotted_def insert_unless_def table_simps of_run_def
      split: if_splits prod.splits sum.splits option.splits)

lemma journal_new_run:
  assumes "\<And>a. admit = Some a \<Longrightarrow> safe journaled anywhere a" and tenant: "\<And>s. r_tenantId (rv s) = tenantId c"
  shows "safe journaled anywhere (insertRunWithCreatedEvent c rv d v admit)"
  unfolding insertRunWithCreatedEvent_def txn_def
proof (rule journal_order.safe_stmtE)
  fix s a u
  let ?adm = "case admit of None \<Rightarrow> Ret (True, None) | Some a \<Rightarrow> bindP a (\<lambda>(b, x). Ret (b, Some x))"
  assume s: "journaled s" and r: "run (bindP ?adm (\<lambda>(admitted, decided). if \<not> admitted then Ret (None, decided) else
          bindP (stmt (\<lambda>s. insert_run_stmt (rv s) s))
            (\<lambda>ins. case ins of
               None \<Rightarrow> Ret (None, decided)
             | Some row \<Rightarrow> bindP (insert_created_event c row d v)
                 (\<lambda>(eid, at). Ret (Some (row, eid, at), decided))))) s = (Inr a, u)"
  have "safe journaled anywhere ?adm"
    by (cases admit) (auto intro!: safe_intros assms(1))
  then have adm: "journaled (snd (run ?adm s))" using journal_order.safe_run s by blast
  obtain b x s1 where s1: "run ?adm s = (Inr (b, x), s1)"
    using r by (auto simp: run_bindP split: prod.splits sum.splits)
  then have j1: "journaled s1" using adm by simp
  show "journaled u \<and> anywhere s u"
  proof (cases "b \<and> \<not> has_row (same_run_key (rv s1)) (runs s1)")
    case False
    with r s1 j1 show ?thesis by (auto simp: run_simps insert_run_stmt_def split: if_splits)
  next
    case True
    then obtain eid at where "run (insert_created_event c (rv s1) d v) (s1\<lparr>runs := runs s1 @ [rv s1]\<rparr>) = (Inr (eid, at), u)"
      using r s1 by (auto simp: run_simps insert_run_stmt_def split: prod.splits sum.splits)
    note u = run_insert_created_event [OF this]
    have "journaled_run x u" if "x \<in> set (runs s1)" for x
      by (rule journaled_run_mono [of _ s1]) (use j1 that u in \<open>auto simp: journaled_def slotted_def\<close>)
    moreover have "journaled_run (rv s1) u" using u by (simp add: journaled_run_def tenant)
    ultimately show ?thesis using u by (auto simp: journaled_def)
  qed
qed

interpretation journal_events: event_statements journaled anywhere c for c
  by unfold_locales
    (rule journal_runs(1,3,4) journal_event
      | (rule journal_runs(2), simp add: completed_fields_def failed_fields_def cancelled_fields_def)
      | (rule journal_frames, rule statement_writes)
      | (rule journal_slots, simp only: slotted_advance))+

interpretation journal: create_guarantee journaled anywhere c for c
  by unfold_locales
    (fact journal_events.event_write_safe journal_events.k_ambient
      | (rule journal_events.event_legacy_safe, assumption)
      | (rule journal_new_run, blast, simp add: run_values_def))+

lemma journal_environment: "environment s t \<Longrightarrow> journaled s \<Longrightarrow> journaled t \<and> anywhere s t"
  using environment_tables [of s t] by (simp add: journaled_def journaled_run_def slotted_def)

lemma journal_pool:
  assumes "journaled s" and "pool_steps environment (s, pool_of calls) (s', ps)"
  shows "journaled s'"
  using journal_order.pool_of_order [OF assms(2,1) journal.create_guarantee_axioms journal_environment] by simp

end
