(* ===== verification/Evaluate.thy ===== *)
theory Evaluate
  imports Create
begin

text \<open>
  Evaluating calls inside the logic: with the rules below the simplifier runs a call of
  \<open>create\<close> on a concrete state, statement by statement. The congruence rules keep it from
  entering the continuation of a statement before its result is known.
\<close>

lemma bindP_lazy: "p = p' \<Longrightarrow> bindP p k = bindP p' k" by simp
lemma catchP_lazy: "p = p' \<Longrightarrow> catchP p k = catchP p' k" by simp
lemma stmt_lazy: "stmt f = stmt f" by simp
lemma stmtE_lazy: "stmtE f = stmtE f" by simp
lemma query_lazy: "query f = query f" by simp
lemma exec_lazy: "exec f = exec f" by simp

lemmas lazy = bindP_lazy catchP_lazy stmt_lazy stmtE_lazy query_lazy exec_lazy

text \<open>One statement of a program at a time, for interleavings.\<close>

lemma bindP_steps:
  "bindP (query f) k = Atomic (\<lambda>s. (k (f s), s))"
  "bindP (stmt g) k = Atomic (\<lambda>s. (k (fst (g s)), snd (g s)))"
  "bindP (exec h) k' = Atomic (\<lambda>s. (k' (), h s))"
  "bindP (throw_if b e) k' = (if b then Throw e else k' ())"
  "bindP (bindP p k1) k2 = bindP p (\<lambda>a. bindP (k1 a) k2)"
  "bindP (stmtE m) k = Atomic (\<lambda>s. case m s of (Inl e, s') \<Rightarrow> (Throw e, s) | (Inr a, s') \<Rightarrow> (k a, s'))"
  by (auto simp: query_def stmt_def exec_def throw_if_def bindP_assoc stmtE_def fun_eq_iff split: prod.splits sum.splits)
lemma catchP_steps: 
  "catchP (Atomic f) h = Atomic (\<lambda>s. (catchP (fst (f s)) h, snd (f s)))" by (auto simp: fun_eq_iff prod_eq_iff)

lemmas step_simps = bindP_steps catchP_steps

lemma Atomic_lazy: "Atomic f = Atomic f" by simp

lemmas create_defs =
  safe_char_def lower_char_def derivePartitionName_def tenant_char_def 
  assertValidTenantId_def tenantStreamChannel_def dedupIndexName_def 
  HOOK_TOKEN_CLAIM_UNIQUE_def isHookTokenClaimViolation_def 
  isCorrelatedEventUniqueViolation_def is_correlated_violation_def 
  SLOT_INSERT_MAX_ATTEMPTS_def of_run_def run_ids_def slotted_def nextSlotId_def 
  allocateEventId_def advanceFence_def dedup_type_def same_event_key_def 
  same_correlation_def insert_event_stmt_def stamp_def consume_fence_def insertEventRow_def 
  event_values_def write_event_def openEventSlots_def same_run_key_def 
  insert_created_stmt_def insert_created_event_def insert_run_stmt_def 
  insertRunWithCreatedEvent_def owner_run_is_terminal_def retained_def 
  hookRetentionEnded_def available_def hookTokenEquals_def same_hook_id_def same_claim_def 
  insert_hook_stmt_def insert_hook_strict_stmt_def insert_hook_lenient_stmt_def 
  release_ended_token_def admittedStartHook_def runStartHook_def 
  assertStartHookAdmissible_def startHookCandidateExpired_def startHookConflict_def 
  same_admission_def recordedDecision_def recordDecision_def deleteExpiredDecisions_def 
  findActiveTokenOwner_def start_hook_row_def strip_wrun_def candidate_expired_def 
  decideStartHookAdmission_def RUN_RETENTION_ATTRIBUTE_def ROOT_RUN_ID_ATTRIBUTE_def 
  PARENT_RUN_ID_ATTRIBUTE_def MINUTE_MS_def DAY_MS_def attr_lookup_def 
  resolveRunRetentionClass_def retentionDeadlines_def ancestor_ids_def 
  resolveRunRetentionClassForCreation_def ancestors_found_def 
  resolveRunRetentionForCreation_def no_result_def no_locals_def check_hook_retention_def 
  start_hook_of_def effective_run_id_def check_run_id_timestamp_def 
  effective_spec_version_def this_run_def getRunForValidation_def full_run_def 
  getAncestorRetention_def resolveCreationRetention_def check_attributes_def 
  attribute_entries_def run_values_def admit_start_hook_def throw_rejected_def 
  create_run_def resilient_data_def truthy_string_def resilient_start_def 
  load_current_run_def with_start_hook_def handle_run_created_def set_run_started_def 
  handle_run_started_def not_terminal_def set_run_terminal_def completed_fields_def 
  failed_fields_def cancelled_fields_def delete_run_hooks_def delete_run_waits_def 
  transition_run_def handle_run_completed_def handle_run_failed_def 
  handle_run_cancelled_def apply_changes_def fits_cap_def set_attributes_def 
  update_attributes_def handle_attr_set_def experimentalSetAttributes_def 
  delete_legacy_hooks_def set_legacy_cancelled_def data_event_def insert_legacy_event_def 
  handleLegacyEventPostgres_def this_step_def step_live_def getStepForValidation_def 
  same_step_id_def insert_step_stmt_def step_values_def create_step_def 
  handle_step_created_def update_step_stmt_def explain_missed_step_def transition_step_def 
  step_completed_fields_def step_failed_fields_def step_retrying_fields_def 
  handle_step_transition_def handle_step_completed_def handle_step_failed_def 
  handle_step_retrying_def lazy_step_start_def start_creates_step_def deliveryInFlight_def 
  ceil_div_def ownerRecheckSeconds_def ownerMessageIdOf_def step_started_fields_def 
  lazy_create_def check_owner_def check_retry_after_def handle_step_started_def 
  validate_step_def wait_id_def this_wait_def insert_wait_stmt_def handle_wait_created_def 
  wait_completed_fields_def complete_wait_stmt_def handle_wait_completed_def this_hook_def 
  find_hook_def getHookByToken_def getHookCreatedEvent_def disposal_data_def 
  forceClaimRefusal_def throw_hook_gone_def validate_hook_def hook_values_def 
  journaledHookCreated_def insertFreshHook_def answerLostClaim_def fresh_or_lost_def 
  claimed_from_victim_def take_token_def takeoverAttempt_def MAX_OWNER_CHANGES_def 
  force_claim_def recover_orphan_def create_hook_def record_conflict_def 
  handle_hook_created_def delete_hook_stmt_def handle_hook_disposed_def 
  handle_hook_received_def resolve_of_def cancel_again_def validate_terminal_def 
  stored_event_data_def continue_def handle_entity_def deduplicated_def generic_insert_def 
  present_event_def run_log_def last_id_def reportSkippedSlots_def skipped_page_def 
  preload_page_def delta_page_def event_page_def finish_def create_valid_def 
  create_unfenced_def MAX_SAFE_INTEGER_def create_fenced_def create_def 

lemmas table_defs = has_row_def update_where_def delete_where_def insert_unless_def

lemma digits: "digit_char 0 = CHR ''0''" "digit_char (Suc 0) = CHR ''1''" "digit_char 2 = CHR ''2''"
  "digit_char 3 = CHR ''3''" "digit_char 4 = CHR ''4''" "digit_char 5 = CHR ''5''"
  "digit_char 6 = CHR ''6''" "digit_char 7 = CHR ''7''" "digit_char 8 = CHR ''8''" "digit_char 9 = CHR ''9''"
  by (simp_all add: digit_char_def char_of_def bit_Suc_0_iff)

lemma small_digits: "digit_char (Suc (Suc 0)) = CHR ''2''" "digit_char (Suc (Suc (Suc 0))) = CHR ''3''"
  "digit_char (Suc (Suc (Suc (Suc 0)))) = CHR ''4''"
  using digits by (simp_all add: numeral_eq_Suc)

lemma char_digits: "char_digit CHR ''0'' = Some 0" "char_digit CHR ''1'' = Some 1" "char_digit CHR ''2'' = Some 2"
  "char_digit CHR ''3'' = Some 3" "char_digit CHR ''4'' = Some 4" "char_digit CHR ''5'' = Some 5"
  by (simp_all add: char_digit_def)

lemma replicate_numeral: "replicate (numeral k) x = x # replicate (pred_numeral k) x"
  by (simp add: numeral_eq_Suc)

lemmas text_defs = replicate_numeral dec.simps lpad0_def digits small_digits char_digits less_char_def less_eq_char_def
  undec_def

lemmas loop_numerals =
  insert_slot_attempts.simps(2) [where n = "pred_numeral k" for k, folded numeral_eq_Suc]
  takeover_loop.simps(2) [where n = "pred_numeral k" for k, folded numeral_eq_Suc]

lemmas eval_simps = loop_numerals create_defs run_simps run_stmtE table_defs text_defs no_data_def no_params_def
  empty_st_def example_ctx_def example_sdk_def set_col_def Let_def

section \<open>Example states\<close>

definition example_run :: "run_status \<Rightarrow> run_row" where
  "example_run x = \<lparr>r_tenantId = ''t'', r_runId = ''wrun_1'', r_outputJson = None, r_output = None,
     r_deploymentId = ''d'', r_status = x, r_workflowName = ''w'', r_queueNamespace = Some [],
     r_specVersion = Some 8, r_executionContextJson = None, r_executionContext = None,
     r_encryptionPublicKey = None, r_inputJson = None, r_input = None, r_errorJson = None,
     r_error = None, r_errorCode = None, r_attributes = [], r_createdAt = 0, r_updatedAt = 0,
     r_completedAt = None, r_startedAt = None, r_retentionClass = Interactive,
     r_retentionRootRunId = ''wrun_1'', r_startHook = None\<rparr>"

definition example_created :: event_row where
  "example_created = \<lparr>e_tenantId = ''t'', e_eventId = ''evnt_0001'', e_eventType = Run_created,
     e_correlationId = None, e_createdAt = 0, e_runId = ''wrun_1'', e_eventDataJson = None,
     e_eventData = Some no_data, e_specVersion = Some 8\<rparr>"

definition example_step :: "step_status \<Rightarrow> step_row" where
  "example_step x = \<lparr>s_tenantId = ''t'', s_runId = ''wrun_1'', s_stepId = ''s1'', s_stepName = ''go'',
     s_status = x, s_inputJson = None, s_input = None, s_outputJson = None, s_output = None,
     s_errorJson = None, s_error = None, s_attempt = 1, s_startedAt = Some 0, s_completedAt = None,
     s_createdAt = 0, s_updatedAt = 0, s_retryAfter = None, s_specVersion = Some 8,
     s_ownerMessageId = None\<rparr>"

text \<open>A run of status \<open>x\<close> with its \<open>run_created\<close> event and one step of status \<open>y\<close>.\<close>

definition example_st :: "run_status \<Rightarrow> step_status \<Rightarrow> st" where
  "example_st x y = empty_st\<lparr>runs := [example_run x], events := [example_created],
     eventSlots := [\<lparr>sl_tenantId = ''t'', sl_runId = ''wrun_1'', sl_seqInBand = 1\<rparr>],
     steps := [example_step y]\<rparr>"

definition example_req :: "event_type \<Rightarrow> string option \<Rightarrow> event_req" where
  "example_req ty cid = \<lparr>rq_eventType = ty, rq_correlationId = cid, rq_specVersion = Some 8,
     rq_eventData = Some no_data\<rparr>"

lemmas example_defs = example_run_def example_created_def example_step_def example_st_def example_req_def

end
