(* ===== verification/Fence.thy ===== *)
theory Fence
  imports Guarantee Evaluate
begin

text \<open>
  The in-band writer fence: a call that carries \<open>inBand\<close> states the sequence number it read;
  a stale one is refused, an error leaves no trace, and a call that succeeds moves the number
  by at most one.
\<close>

definition seq_of :: "tenant_id \<Rightarrow> run_id \<Rightarrow> st \<Rightarrow> int option" where
  "seq_of t r s = map_option sl_seqInBand (find (\<lambda>q. sl_tenantId q = t \<and> sl_runId q = r) (eventSlots s))"

definition fenced_call :: "run_id \<Rightarrow> event_req \<Rightarrow> create_params \<Rightarrow> int \<Rightarrow> bool" where
  "fenced_call r q pa n \<longleftrightarrow> pa_inBand pa \<and> r \<noteq> [] \<and> rq_eventType q \<noteq> Run_created \<and>
     pa_expectedSeqInBand pa = Some n \<and> 0 \<le> n \<and> n \<le> MAX_SAFE_INTEGER"

lemma create_fenced_call: "fenced_call r q pa n \<Longrightarrow> create c (Some r) q pa = create_fenced c r q pa n"
  by (simp add: fenced_call_def create_def)

section \<open>The invariant of a fenced transaction\<close>

definition fence_inv :: "tenant_id \<Rightarrow> run_id \<Rightarrow> int \<Rightarrow> st \<Rightarrow> bool" where
  "fence_inv t r n s \<longleftrightarrow> (\<exists>f. pendingFence s = Some f \<and> pf_tenantId f = t \<and> pf_runId f = r \<and>
     pf_expected f = n) \<and> (seq_of t r s = Some n \<or> seq_of t r s = Some (n + 1))"

lemma fence_inv_cong:
  "eventSlots s' = eventSlots s \<Longrightarrow> pendingFence s' = pendingFence s \<Longrightarrow> fence_inv t r n s' = fence_inv t r n s"
  by (simp add: fence_inv_def seq_of_def)

interpretation fence_order: st_order "fence_inv t r n" anywhere for t r n
  by unfold_locales simp_all

lemma fence_frames:
  "writes_only runs_update f \<Longrightarrow> keeps (fence_inv t r n) anywhere f"
  "writes_only steps_update f \<Longrightarrow> keeps (fence_inv t r n) anywhere f"
  "writes_only hooks_update f \<Longrightarrow> keeps (fence_inv t r n) anywhere f"
  "writes_only waits_update f \<Longrightarrow> keeps (fence_inv t r n) anywhere f"
  "writes_only startHookAdmissions_update f \<Longrightarrow> keeps (fence_inv t r n) anywhere f"
  by (erule keeps_writes, rule conjI, erule fence_inv_cong [THEN iffD2, rotated 2]; simp)+

lemma fence_event: "keeps (fence_inv t r n) anywhere (\<lambda>s. snd (insert_event_stmt W (e s) s))"
  unfolding keeps_def by (intro allI impI conjI TrueI, erule fence_inv_cong [THEN iffD2, rotated 2])
    (simp_all add: insert_event_stmt_def)

lemma seq_of_advance:
  "seq_of t r (s\<lparr>eventSlots := update_where (\<lambda>q. (sl_tenantId q = t' \<and> sl_runId q = r') \<and> sl_seqInBand q = m)
      (\<lambda>q. q\<lparr>sl_seqInBand := sl_seqInBand q + 1\<rparr>) (eventSlots s)\<rparr>) =
   (if t = t' \<and> r = r' \<and> seq_of t r s = Some m then Some (m + 1) else seq_of t r s)"
proof (cases "find (\<lambda>q. sl_tenantId q = t \<and> sl_runId q = r) (eventSlots s)")
  case (Some q)
  then have "sl_tenantId q = t \<and> sl_runId q = r" using find_SomeD by fastforce
  with Some show ?thesis by (auto simp: seq_of_def find_update_where)
qed (simp add: seq_of_def find_update_where)

lemma seq_of_open:
  "seq_of t r s \<noteq> None \<Longrightarrow> seq_of t r (s\<lparr>eventSlots := insert_unless P q (eventSlots s)\<rparr>) = seq_of t r s"
  by (auto simp: seq_of_def insert_unless_def find_append split: option.split)

lemma fence_consume:
  assumes "pf_tenantId f = t" "pf_runId f = r" "pf_expected f = n"
  shows "safe (fence_inv t r n) anywhere (consume_fence f)"
proof -
  let ?adv = "\<lambda>s. s\<lparr>eventSlots := update_where
      (\<lambda>q. (sl_tenantId q = pf_tenantId f \<and> sl_runId q = pf_runId f) \<and> sl_seqInBand q = pf_expected f)
      (\<lambda>q. q\<lparr>sl_seqInBand := sl_seqInBand q + 1\<rparr>) (eventSlots s)\<rparr>"
  have "fence_inv t r n (?adv s)" if "fence_inv t r n s" for s
    using that unfolding fence_inv_def seq_of_advance using assms by auto
  moreover have "fence_inv t r n (s\<lparr>pendingFence := Some (f\<lparr>pf_consumed := True\<rparr>)\<rparr>)" if "fence_inv t r n s" for s
    using that assms by (auto simp: fence_inv_def seq_of_def)
  ultimately show ?thesis
    unfolding consume_fence_def advanceFence_def Let_def
    by (intro safe_intros) (blast intro: keepsI, simp only: snd_conv, blast intro: keepsI)
qed

lemma fence_slot_attempts:
  assumes "\<And>f. fence = Some f \<Longrightarrow> pf_tenantId f = t \<and> pf_runId f = r \<and> pf_expected f = n"
  shows "safe (fence_inv t r n) anywhere (insert_slot_attempts c vals fence k)"
proof (induction k)
  case (Suc k)
  have "safe (fence_inv t r n) anywhere (case fence of None \<Rightarrow> Ret x | Some f \<Rightarrow> bindP (consume_fence f) (\<lambda>_. Ret x))"
    for x :: "(event_id \<times> timestamp) option"
    using assms by (auto split: option.split intro!: safe_intros fence_consume)
  with Suc show ?case
    by (auto intro!: safe_bindP fence_order.safe_query fence_order.safe_stmtE_keeps fence_event
        split: sum.split option.split)
qed simp

lemma fence_write: "safe (fence_inv t r n) anywhere (write_event c r' cid ty d v)"
proof -
  have "safe (fence_inv t r n) anywhere (bindP (query pendingFence) (\<lambda>store.
      let fence = (case store of None \<Rightarrow> None
         | Some f \<Rightarrow> if \<not> pf_consumed f \<and> pf_tenantId f = e_tenantId vals \<and> pf_runId f = e_runId vals
             then Some f else None)
       in insert_slot_attempts c vals fence k))" for vals k
    unfolding Let_def
    by (intro fence_order.safe_bind_query safeD fence_slot_attempts) (auto simp: fence_inv_def split: if_splits)
  then show ?thesis
    unfolding write_event_def allocateEventId_def insertEventRow_def
    by (auto intro!: safe_bindP fence_order.safe_query fence_order.safe_stmtE_keeps fence_event
        split: id_source.split simp del: insert_slot_attempts.simps)
qed

lemma fence_new_run:
  assumes "\<And>a. admit = Some a \<Longrightarrow> safe (fence_inv t r n) anywhere a"
  shows "safe (fence_inv t r n) anywhere (insertRunWithCreatedEvent c rv d v admit)"
proof -
  have "keeps (fence_inv t r n) anywhere (\<lambda>s. s\<lparr>eventSlots := insert_unless P q (eventSlots s)\<rparr>)" for P q
    by (auto simp: keeps_def fence_inv_def seq_of_open)
  then have "safe (fence_inv t r n) anywhere (insert_created_event c row d v)" for row
    unfolding insert_created_event_def openEventSlots_def bindP_assoc bindP.simps
    by (intro safe_intros fence_order.safe_created_stmt fence_event)
  then show ?thesis
    by (intro fence_order.safe_insert_run assms) (simp_all add: fence_frames writes_runs)
qed

interpretation fence: unfenced_guarantee "fence_inv t r n" anywhere c for t r n c
  by unfold_locales
    (rule fence_write | (rule fence_frames, rule statement_writes) | (rule fence_new_run, blast)
      | (unfold insert_legacy_event_def, rule fence_order.safe_created_stmt, rule fence_event))+

section \<open>What a fenced call does\<close>

text \<open>
  A fenced call with a stale sequence number is refused with both numbers, and nothing of
  it is written.
\<close>

theorem stale_fence_refused:
  assumes "fenced_call r q pa n" and "seq_of (tenantId c) r s = Some m" and "m \<noteq> n"
  shows "run (create c (Some r) q pa) s = (Inl (InBandSupersededError r n m), s)"
  using assms
  by (auto simp: create_fenced_call create_fenced_def seq_of_def run_simps)

theorem stale_fence_refused_witness:
  "run (create example_ctx (Some ''wrun_1'') (example_req Step_completed (Some ''s1''))
      (no_params\<lparr>pa_inBand := True, pa_expectedSeqInBand := Some 7\<rparr>)) (example_st Run_running Step_running) =
   (Inl (InBandSupersededError ''wrun_1'' 7 1), example_st Run_running Step_running)"
  by (rule stale_fence_refused)
    (simp_all add: fenced_call_def MAX_SAFE_INTEGER_def example_defs no_params_def seq_of_def)

text \<open>
  C7. A fenced call is all or nothing: an error leaves the state as it was; on success the
  ambient fence is gone and the run's sequence number, which was the expected one, moved by
  at most one, so of two calls that expect the same number only the first can move it.
\<close>

theorem fenced_call_atomic:
  assumes "fenced_call r q pa n" and "seq_of (tenantId c) r s \<noteq> None"
    and "run (create c (Some r) q pa) s = (res, s')"
  shows "case res of Inl e \<Rightarrow> s' = s
    | Inr x \<Rightarrow> seq_of (tenantId c) r s = Some n \<and> pendingFence s' = None \<and>
        (seq_of (tenantId c) r s' = Some n \<or> seq_of (tenantId c) r s' = Some (n + 1))"
proof (cases res)
  case (Inl e)
  with assms(3) show ?thesis
    using txn_error_keeps_state by (fastforce simp: create_fenced_call [OF assms(1)] create_fenced_def)
next
  case (Inr x)
  let ?f = "\<lparr>pf_tenantId = tenantId c, pf_runId = r, pf_expected = n, pf_occurredAt = pa_occurredAt pa,
    pf_consumed = False\<rparr>" and ?I = "fence_inv (tenantId c) r n"
  obtain q' where q': "find (\<lambda>x. sl_tenantId x = tenantId c \<and> sl_runId x = r) (eventSlots s) = Some q'"
    using assms(2) by (auto simp: seq_of_def)
  then have seq: "seq_of (tenantId c) r s = Some n"
    using assms(3) Inr
    by (auto simp: create_fenced_call [OF assms(1)] create_fenced_def run_simps seq_of_def split: if_splits)
  then have "?I (s\<lparr>pendingFence := Some ?f\<rparr>)" by (simp add: fence_inv_def seq_of_def)
  with fence_order.safe_run [OF fence.create_unfenced_safe]
  have "?I (snd (run (create_unfenced c (Some r) q pa) (s\<lparr>pendingFence := Some ?f\<rparr>)))" by blast
  moreover obtain u where "run (create_unfenced c (Some r) q pa) (s\<lparr>pendingFence := Some ?f\<rparr>) = (Inr x, u)"
    and "s' = u\<lparr>pendingFence := None\<rparr>"
    using assms(3) Inr q'
    by (auto simp: create_fenced_call [OF assms(1)] create_fenced_def run_simps split: if_splits prod.splits sum.splits)
  ultimately show ?thesis using Inr seq by (auto simp: fence_inv_def seq_of_def)
qed

definition example_fenced :: create_params where
  "example_fenced = no_params\<lparr>pa_inBand := True, pa_expectedSeqInBand := Some 1\<rparr>"

theorem fenced_call_atomic_witness:
  "\<exists>x s'. run (create example_ctx (Some ''wrun_1'') (example_req Step_completed (Some ''s1'')) example_fenced)
       (example_st Run_running Step_running) = (Inr x, s') \<and>
     seq_of ''t'' ''wrun_1'' s' = Some 2 \<and> pendingFence s' = None"
proof -
  let ?c = "run (create example_ctx (Some ''wrun_1'') (example_req Step_completed (Some ''s1'')) example_fenced)
    (example_st Run_running Step_running)"
  have ok: "\<exists>x. fst ?c = Inr x" and two: "seq_of ''t'' ''wrun_1'' (snd ?c) = Some 2"
    by (simp_all add: seq_of_def example_fenced_def example_defs eval_simps cong: lazy split del: if_split)
  have "fenced_call ''wrun_1'' (example_req Step_completed (Some ''s1'')) example_fenced 1"
    by (simp add: fenced_call_def example_fenced_def MAX_SAFE_INTEGER_def example_defs no_params_def)
  moreover have "seq_of (tenantId example_ctx) ''wrun_1'' (example_st Run_running Step_running) \<noteq> None"
    by (simp add: seq_of_def example_st_def)
  ultimately show ?thesis
    using fenced_call_atomic [of "''wrun_1''" "example_req Step_completed (Some ''s1'')" example_fenced 1
        example_ctx "example_st Run_running Step_running" "fst ?c" "snd ?c"] ok two
    by (cases ?c) auto
qed

end
