(* ===== verification/Handlers.thy ===== *)
theory Handlers
  imports Log_Invariant Evaluate
begin

text \<open>
  What one call of \<open>create\<close> does on its own, event type by event type: the exact state after a
  successful call, and the error and the untouched state after a refused one.
\<close>

section \<open>Appending one event\<close>

text \<open>The log of a run, at its first \<open>n\<close> slots and with room for one more.\<close>

definition log_at :: "ctx \<Rightarrow> run_id \<Rightarrow> nat \<Rightarrow> st \<Rightarrow> bool" where
  "log_at c r n s \<longleftrightarrow> slotted (tenantId c) r s \<and> pendingFence s = None \<and>
     Suc n < 10 ^ EVENT_ID_BODY_LENGTH (sdk c) \<and>
     run_ids (tenantId c) r s = map (slot_id (sdk c)) [1..<Suc n]"

definition next_event ::
  "ctx \<Rightarrow> run_id \<Rightarrow> nat \<Rightarrow> string option \<Rightarrow> event_type \<Rightarrow> event_data option \<Rightarrow> int option \<Rightarrow> st \<Rightarrow> event_row" where
  "next_event c r n cid ty d v s = stamp (event_values c r cid ty d v) (slot_id (sdk c) (Suc n)) None s"

lemma run_write_event:
  assumes "slot_laws (sdk c)" and "log_at c r n s"
    and "\<not> has_row (same_correlation (next_event c r n cid ty d v s)) (events s)"
  shows "run (write_event c r cid ty d v) s =
    (Inr (Some (slot_id (sdk c) (Suc n), db_now s)), s\<lparr>events := events s @ [next_event c r n cid ty d v s]\<rparr>)"
proof -
  have next_slot: "nextSlotId c r s = Inr (slot_id (sdk c) (Suc n))"
    using assms(2) by (intro nextSlotId_dense [OF assms(1)]) (auto simp: log_at_def)
  have "\<not> has_row (same_event_key (next_event c r n cid ty d v s)) (events s)"
    unfolding has_event_key_iff using assms(2) slot_id_inject [OF assms(1)]
    by (auto simp: log_at_def next_event_def)
  then show ?thesis
    using assms(2,3) next_slot
    by (simp add: write_event_def allocateEventId_def insertEventRow_def run_simps log_at_def Let_def
        run_stmtE insert_event_stmt_def next_event_def) (simp add: stamp_def)
qed

lemma not_correlated [simp]:
  "\<not> dedup_type ty \<Longrightarrow> \<not> has_row (same_correlation (next_event c r n cid ty d v s)) es"
  by (auto simp: has_row_iff same_correlation_def next_event_def)

text \<open>Writes on other tables do not move the log.\<close>

lemma log_at_frame [simp]:
  "log_at c r n (s\<lparr>runs := x1\<rparr>) = log_at c r n s" "log_at c r n (s\<lparr>steps := x2\<rparr>) = log_at c r n s"
  "log_at c r n (s\<lparr>hooks := x3\<rparr>) = log_at c r n s" "log_at c r n (s\<lparr>waits := x4\<rparr>) = log_at c r n s"
  by (simp_all add: log_at_def slotted_def run_ids_def)

lemma next_event_frame [simp]:
  "next_event c r n cid ty d v (s\<lparr>runs := x1\<rparr>) = next_event c r n cid ty d v s"
  "next_event c r n cid ty d v (s\<lparr>steps := x2\<rparr>) = next_event c r n cid ty d v s"
  "next_event c r n cid ty d v (s\<lparr>hooks := x3\<rparr>) = next_event c r n cid ty d v s"
  "next_event c r n cid ty d v (s\<lparr>waits := x4\<rparr>) = next_event c r n cid ty d v s"
  by (simp_all add: next_event_def stamp_def)

section \<open>From create to the handler\<close>

text \<open>A call outside the fence, for a run of the current format, that asks for no event page.\<close>

definition plain_call :: "ctx \<Rightarrow> run_id \<Rightarrow> event_req \<Rightarrow> create_params \<Rightarrow> bool" where
  "plain_call c r q pa \<longleftrightarrow> \<not> pa_inBand pa \<and> r \<noteq> [] \<and> rq_eventType q \<noteq> Run_created \<and> start_hook_of q = None \<and>
     (rq_eventType q = Hook_created \<longrightarrow> Option.bind (rq_eventData q) ed_tokenRetentionUntil = None) \<and>
     pa_eventCount pa = None \<and> pa_sinceCursor pa = None"

definition current_format :: "ctx \<Rightarrow> run_row \<Rightarrow> bool" where
  "current_format c x \<longleftrightarrow> \<not> requiresNewerWorld (sdk c) (r_specVersion x) \<and>
     \<not> isLegacySpecVersion (sdk c) (r_specVersion x)"

lemma run_plain_create:
  assumes "plain_call c r q pa" and "find (this_run c r) (runs s) = Some x" and "current_format c x"
  shows "run (create c (Some r) q pa) s = run (create_valid c r q pa (effective_spec_version c q)
    (if rq_eventType q = Step_completed \<or> rq_eventType q = Step_retrying then None
     else Some (r_status x, r_specVersion x))) s"
  using assms
  by (auto simp: create_def create_unfenced_def plain_call_def current_format_def check_hook_retention_def
      effective_run_id_def check_run_id_timestamp_def load_current_run_def
      getRunForValidation_def run_simps Let_def split: option.split)

text \<open>The result of such a call, with no event page.\<close>

definition plain_result :: "ctx \<Rightarrow> run_id \<Rightarrow> event_req \<Rightarrow> create_params \<Rightarrow> locals \<Rightarrow> event_id \<Rightarrow> timestamp \<Rightarrow> event_result" where
  "plain_result c r q pa lo i at =
     \<lparr>er_event = Some (stripEventDataRefs (sdk c) (data_event c r q (lo_storedEventData lo) i at) (resolve_of pa)),
      er_run = lo_run lo, er_step = lo_step lo, er_hook = lo_hook lo, er_wait = lo_wait lo,
      er_stepCreated = lo_stepCreatedLazily lo,
      er_maxEvents = (if lo_run lo = None then None else Some (maxEventsPerRun c)), er_page = None\<rparr>"

lemma run_finish_plain:
  "plain_call c r q pa \<Longrightarrow> rq_eventType q \<noteq> Run_started \<Longrightarrow> lo_value lo = Some (i, at) \<Longrightarrow>
     run (finish c r q pa lo) s = (Inr (plain_result c r q pa lo i at), s)"
  by (simp add: finish_def plain_call_def event_page_def skipped_page_def run_simps plain_result_def Let_def)

lemma hookRetentionEnded_frame [simp]: "hookRetentionEnded (s\<lparr>runs := x\<rparr>) h = hookRetentionEnded s h"
  by (simp add: hookRetentionEnded_def cong: option.case_cong)

lemma stored_plain:
  "rq_eventType q \<notin> {Run_created, Run_started, Step_started} \<Longrightarrow> stored_event_data c r q b = rq_eventData q"
  "rq_eventType q = Step_started \<Longrightarrow> rq_eventData q = Some d \<Longrightarrow> ed_input d = None \<Longrightarrow>
     stored_event_data c r q b = Some d"
  by (auto simp: stored_event_data_def split: option.split)

lemmas handler_simps = run_plain_create create_valid_def validate_terminal_def validate_step_def
  validate_hook_def handle_entity_def continue_def run_simps generic_insert_def run_write_event
  dedup_type_def run_finish_plain no_locals_def stored_plain Let_def

text \<open>The example state as such a call.\<close>

lemma example_plain: "ty \<noteq> Run_created \<Longrightarrow> plain_call example_ctx ''wrun_1'' (example_req ty cid) no_params"
  by (simp add: plain_call_def start_hook_of_def example_req_def no_params_def no_data_def)

lemma example_find: "find (this_run example_ctx ''wrun_1'') (runs (example_st x y)) = Some (example_run x)"
  "find (this_run example_ctx ''wrun_1'') [example_run x] = Some (example_run x)"
  by (simp_all add: this_run_def example_defs)

lemma example_find_step: "find (this_step example_ctx ''wrun_1'' (Some ''s1'')) [example_step y] = Some (example_step y)"
  "step_live example_ctx (example_step y) \<longleftrightarrow> y = Step_pending \<or> y = Step_running"
  by (cases y; simp_all add: this_step_def example_defs step_live_def example_sdk_def)+

lemma example_format: "current_format example_ctx (example_run x)"
  by (simp add: current_format_def example_run_def example_sdk_def)

lemma example_fields [simp]:
  "r_status (example_run x) = x" "s_status (example_step y) = y" "rq_eventType (example_req ty cid) = ty"
  "rq_correlationId (example_req ty cid) = cid" "rq_eventData (example_req ty cid) = Some no_data"
  "s_attempt (example_step y) = 1" "s_retryAfter (example_step y) = None" "s_startedAt (example_step y) = Some 0"
  "s_ownerMessageId (example_step y) = None" "ed_input no_data = None"
  by (simp_all add: example_defs no_data_def)

lemma example_log_at: "log_at example_ctx ''wrun_1'' (Suc 0) (example_st x y)"
  by (simp add: log_at_def slotted_def run_ids_def of_run_def example_defs has_row_def empty_st_def
      slot_id_def example_sdk_def text_defs)

lemma example_terminal [simp]:
  "isTerminalWorkflowRunStatus example_sdk x \<longleftrightarrow> x = Run_completed_st \<or> x = Run_failed_st \<or> x = Run_cancelled_st"
  "isHookEventRequiringExistence example_sdk ty \<longleftrightarrow> ty = Hook_received \<or> ty = Hook_disposed"
  "isTerminalRunEventType example_sdk ty \<longleftrightarrow> ty = Run_completed \<or> ty = Run_failed \<or> ty = Run_cancelled"
  by (simp_all add: example_sdk_def)

lemma example_live: "this_run example_ctx ''wrun_1'' (example_run x)"
  "not_terminal example_ctx x \<longleftrightarrow> x = Run_pending \<or> x = Run_running"
  by (cases x; simp add: this_run_def example_run_def not_terminal_def example_sdk_def)+

lemma example_child: "isChildEntityCreationEvent example_sdk (example_req ty cid) \<longleftrightarrow>
    ty = Step_created \<or> ty = Hook_created \<or> ty = Wait_created"
  "s_tenantId (example_step y) = ''t''" "s_runId (example_step y) = ''wrun_1''" "s_stepId (example_step y) = ''s1''"
  by (auto simp: example_sdk_def example_req_def no_data_def example_step_def)

lemma example_tables [simp]:
  "runs (example_st x y) = [example_run x]" "events (example_st x y) = [example_created]"
  "steps (example_st x y) = [example_step y]" "e_eventType example_created = Run_created"
  by (simp_all add: example_st_def example_created_def)

lemmas example_call = example_live example_child example_find example_find_step example_slot_laws example_terminal_laws example_plain example_format example_log_at

section \<open>A terminal run\<close>

text \<open>
  C8. A run in the current format that has completed, failed or been cancelled accepts no further
  transition, no new step, hook or wait and no attribute write: an unfenced call is refused
  (\<open>RunExpiredError\<close> for \<open>run_started\<close>, \<open>EntityConflictError\<close> otherwise) and the state does not
  change. Two cases are excluded: \<open>run_cancelled\<close> on a run that is cancelled already is accepted and
  journaled (\<open>cancel_is_idempotent\<close> below), and runs in the legacy format, whose cancellation the code
  does not check.
\<close>

theorem terminal_run_refuses:
  assumes "plain_call c r q pa" and "find (this_run c r) (runs s) = Some x" and "current_format c x"
    and "isTerminalWorkflowRunStatus (sdk c) (r_status x)"
    and "rq_eventType q \<noteq> Step_completed" and "rq_eventType q \<noteq> Step_retrying"
    and "\<not> (rq_eventType q = Run_cancelled \<and> r_status x = Run_cancelled_st)"
    and "rq_eventType q = Run_started \<or> isTerminalRunEventType (sdk c) (rq_eventType q) \<or>
         isChildEntityCreationEvent (sdk c) q \<or> rq_eventType q = Attr_set"
  shows "run (create c (Some r) q pa) s =
    (Inl (if rq_eventType q = Run_started then RunExpiredError r (r_status x) else EntityConflictError), s)"
  using assms
  by (auto simp: run_plain_create create_valid_def validate_terminal_def run_simps)

theorem terminal_run_refuses_witness:
  "run (create example_ctx (Some ''wrun_1'') (example_req Run_completed None) no_params)
     (example_st Run_cancelled_st Step_running) = (Inl EntityConflictError, example_st Run_cancelled_st Step_running)"
  by (subst terminal_run_refuses [OF example_plain example_find(1) example_format]) simp_all

text \<open>
  Cancelling a cancelled run again is accepted: the duplicate \<open>run_cancelled\<close> is appended
  to the log, and no other table changes.
\<close>

theorem cancel_is_idempotent:
  assumes "slot_laws (sdk c)" and "plain_call c r q pa" and "rq_eventType q = Run_cancelled"
    and "find (this_run c r) (runs s) = Some x" and "current_format c x" and "r_status x = Run_cancelled_st"
    and "isTerminalWorkflowRunStatus (sdk c) Run_cancelled_st" and "log_at c r n s"
  shows "\<exists>res. run (create c (Some r) q pa) s = (Inr res, s\<lparr>events := events s @
       [next_event c r n (rq_correlationId q) Run_cancelled (rq_eventData q) (Some (effective_spec_version c q)) s]\<rparr>) \<and>
     er_run res = Some x"
  using assms
  by (simp add: run_plain_create create_valid_def validate_terminal_def cancel_again_def full_run_def
      run_simps run_write_event dedup_type_def no_result_def)

theorem cancel_is_idempotent_witness:
  "\<exists>res s'. run (create example_ctx (Some ''wrun_1'') (example_req Run_cancelled None) no_params)
     (example_st Run_cancelled_st Step_running) = (Inr res, s') \<and> length (events s') = 2"
  using cancel_is_idempotent [of example_ctx "''wrun_1''" "example_req Run_cancelled None" no_params
      "example_st Run_cancelled_st Step_running" "example_run Run_cancelled_st" 1]
  by (auto simp: example_call)

section \<open>Ending a run\<close>

definition end_fields :: "ctx \<Rightarrow> event_req \<Rightarrow> event_data \<Rightarrow> run_row \<Rightarrow> run_row" where
  "end_fields c q d = (if rq_eventType q = Run_completed then completed_fields c d
     else if rq_eventType q = Run_failed then failed_fields c d else cancelled_fields c)"

lemma run_terminal_effect:
  assumes "slot_laws (sdk c)" and "plain_call c r q pa"
    and "rq_eventType q \<in> {Run_completed, Run_failed, Run_cancelled}" and "rq_eventData q = Some d"
    and "find (this_run c r) (runs s) = Some x" and "current_format c x"
    and "\<not> isTerminalWorkflowRunStatus (sdk c) (r_status x)" and "terminal_laws (sdk c)"
    and "\<not> isHookEventRequiringExistence (sdk c) (rq_eventType q)" and "log_at c r n s"
  shows "\<exists>res. run (create c (Some r) q pa) s = (Inr res,
      s\<lparr>runs := update_where (\<lambda>row. this_run c r row \<and> not_terminal c (r_status row)) (end_fields c q d) (runs s),
        hooks := delete_where (\<lambda>h. h_tenantId h = tenantId c \<and> h_runId h = r \<and> hookRetentionEnded s h) (hooks s),
        waits := delete_where (\<lambda>w. w_tenantId w = tenantId c \<and> w_runId w = r) (waits s),
        events := events s @ [next_event c r n (rq_correlationId q) (rq_eventType q) (Some d)
          (Some (effective_spec_version c q)) s]\<rparr>) \<and>
      er_run res = Some (end_fields c q d x)"
proof -
  have "find (\<lambda>row. this_run c r row \<and> not_terminal c (r_status row)) (runs s) = Some x"
    using assms(5,7,8) by (intro find_conj) (auto simp: not_terminal_def terminal_laws_def)
  moreover have "rq_eventType q = Run_completed \<or> rq_eventType q = Run_failed \<or> rq_eventType q = Run_cancelled"
    using assms(3) by simp
  ultimately show ?thesis
    using assms
    by (elim disjE; simp add: handler_simps handle_run_completed_def handle_run_failed_def
        handle_run_cancelled_def transition_run_def end_fields_def set_run_terminal_def
        delete_run_hooks_def delete_run_waits_def plain_result_def)
qed



section \<open>Steps\<close>

definition step_fields :: "ctx \<Rightarrow> event_req \<Rightarrow> event_data \<Rightarrow> step_row \<Rightarrow> step_row" where
  "step_fields c q d = (if rq_eventType q = Step_completed then step_completed_fields c d
     else if rq_eventType q = Step_failed then step_failed_fields c d else step_retrying_fields c d)"

text \<open>
  Completing, failing or retrying a live step updates exactly that step, appends exactly
  that event at the next slot and returns the updated step.
\<close>

theorem step_transition_effect:
  assumes "slot_laws (sdk c)" and "terminal_laws (sdk c)" and "plain_call c r q pa"
    and "rq_eventType q \<in> {Step_completed, Step_failed, Step_retrying}" and "rq_eventData q = Some d"
    and "find (this_run c r) (runs s) = Some x" and "current_format c x"
    and "\<not> isTerminalWorkflowRunStatus (sdk c) (r_status x)"
    and "\<not> isHookEventRequiringExistence (sdk c) (rq_eventType q)" and "\<not> isChildEntityCreationEvent (sdk c) q"
    and "find (this_step c r (rq_correlationId q)) (steps s) = Some y" and "step_live c y" and "log_at c r n s"
  shows "\<exists>res. run (create c (Some r) q pa) s = (Inr res,
      s\<lparr>steps := update_where (\<lambda>z. this_step c r (rq_correlationId q) z \<and> step_live c z) (step_fields c q d) (steps s),
        events := events s @ [next_event c r n (rq_correlationId q) (rq_eventType q) (Some d)
          (Some (effective_spec_version c q)) s]\<rparr>) \<and>
      er_step res = Some (step_fields c q d y)"
proof -
  have "find (\<lambda>z. this_step c r (rq_correlationId q) z \<and> step_live c z) (steps s) = Some y"
    using assms(11,12) by (rule find_conj)
  moreover have "\<not> isTerminalStepStatus (sdk c) (s_status y)"
    using assms(2,12) by (simp add: terminal_laws_def step_live_def)
  moreover have "rq_eventType q = Step_completed \<or> rq_eventType q = Step_failed \<or> rq_eventType q = Step_retrying"
    using assms(4) by simp
  ultimately show ?thesis
    using assms
    by (elim disjE; simp add: handler_simps handle_step_completed_def handle_step_failed_def
        handle_step_retrying_def handle_step_transition_def transition_step_def update_step_stmt_def
        step_fields_def plain_result_def getStepForValidation_def lazy_step_start_def)
qed

theorem step_transition_effect_witness:
  "\<exists>res s'. run (create example_ctx (Some ''wrun_1'') (example_req Step_completed (Some ''s1'')) no_params)
     (example_st Run_running Step_running) = (Inr res, s') \<and>
     map s_status (steps s') = [Step_completed_st] \<and> map e_eventType (events s') = [Run_created, Step_completed]"
  using step_transition_effect [of example_ctx "''wrun_1''" "example_req Step_completed (Some ''s1'')" no_params no_data
      "example_st Run_running Step_running" "example_run Run_running" "example_step Step_running" 1]
  by (auto simp: example_call next_event_def step_fields_def step_completed_fields_def update_where_def
      this_step_def example_child)

text \<open>
  A late completion, failure or retry of a step that is already terminal is refused with
  \<open>EntityConflictError\<close>; nothing is written.
\<close>

theorem late_step_refused:
  assumes "terminal_laws (sdk c)" and "plain_call c r q pa"
    and "rq_eventType q \<in> {Step_completed, Step_failed, Step_retrying}" and "rq_eventData q = Some d"
    and "find (this_run c r) (runs s) = Some x" and "current_format c x"
    and "\<not> isHookEventRequiringExistence (sdk c) (rq_eventType q)" and "\<not> isChildEntityCreationEvent (sdk c) q"
    and "\<not> isTerminalRunEventType (sdk c) (rq_eventType q)"
    and "distinct (map (\<lambda>z. (s_tenantId z, s_stepId z)) (steps s))"
    and "find (this_step c r (rq_correlationId q)) (steps s) = Some y" and "\<not> step_live c y"
  shows "run (create c (Some r) q pa) s = (Inl EntityConflictError, s)"
proof -
  have y: "y \<in> set (steps s)" "this_step c r (rq_correlationId q) y" using find_SomeD [OF assms(11)] by auto
  have none: "\<not> (this_step c r (rq_correlationId q) z \<and> step_live c z)" if "z \<in> set (steps s)" for z
    using distinct_map_unique [OF assms(10) that y(1)] y(2) assms(12) by (metis option.inject this_step_def)
  then have "find (\<lambda>z. this_step c r (rq_correlationId q) z \<and> step_live c z) (steps s) = None"
    by (auto simp: find_None_iff)
  moreover have "update_where (\<lambda>z. this_step c r (rq_correlationId q) z \<and> step_live c z) f (steps s) = steps s" for f
    unfolding update_where_def by (rule map_idI) (use none in auto)
  moreover have "isTerminalStepStatus (sdk c) (s_status y)"
    using assms(1,12) by (simp add: terminal_laws_def step_live_def)
  moreover have "rq_eventType q = Step_completed \<or> rq_eventType q = Step_failed \<or> rq_eventType q = Step_retrying"
    using assms(3) by simp
  ultimately show ?thesis
    using assms
    by (elim disjE; simp add: handler_simps handle_step_completed_def handle_step_failed_def
        handle_step_retrying_def handle_step_transition_def transition_step_def update_step_stmt_def
        explain_missed_step_def truthy_string_def getStepForValidation_def lazy_step_start_def this_step_def
        split: if_splits)
qed

theorem late_step_refused_witness:
  "run (create example_ctx (Some ''wrun_1'') (example_req Step_failed (Some ''s1'')) no_params)
     (example_st Run_running Step_completed_st) = (Inl EntityConflictError, example_st Run_running Step_completed_st)"
  by (rule late_step_refused [where x = "example_run Run_running" and d = no_data and y = "example_step Step_completed_st"])
    (simp_all add: example_call this_step_def)

end
