(* ===== verification/Step_Wait.thy ===== *)
theory Step_Wait
  imports Handlers
begin

text \<open>
  Starting a step (with the ownership rule that keeps a second delivery from running a step
  whose owner is still in flight), and waits.
\<close>

section \<open>Starting a step\<close>

text \<open>A second delivery may not take a running step while its owner's delivery is locked.\<close>

definition owned_by_another :: "event_req \<Rightarrow> step_row \<Rightarrow> st \<Rightarrow> bool" where
  "owned_by_another q y s \<longleftrightarrow> s_status y = Step_running \<and>
     (\<exists>m. s_ownerMessageId y = Some m \<and> ownerMessageIdOf (rq_eventData q) \<noteq> Some m \<and> deliveryInFlight m s)"

definition bare_start :: "ctx \<Rightarrow> run_id \<Rightarrow> event_req \<Rightarrow> create_params \<Rightarrow> run_row \<Rightarrow> step_row \<Rightarrow> st \<Rightarrow> bool" where
  "bare_start c r q pa x y s \<longleftrightarrow> plain_call c r q pa \<and> rq_eventType q = Step_started \<and>
     truthy_string (rq_correlationId q) \<and> \<not> isChildEntityCreationEvent (sdk c) q \<and>
     \<not> isTerminalRunEventType (sdk c) Step_started \<and> \<not> isHookEventRequiringExistence (sdk c) Step_started \<and>
     find (this_run c r) (runs s) = Some x \<and> current_format c x \<and>
     \<not> isTerminalWorkflowRunStatus (sdk c) (r_status x) \<and>
     find (this_step c r (rq_correlationId q)) (steps s) = Some y"

text \<open>
  While the delivery that owns a running step is in flight, another delivery's
  \<open>step_started\<close> is refused with \<open>TooEarlyError\<close>, to be retried in 30 to 300 seconds, and
  nothing is written: the step's body is not run twice.
\<close>

theorem owned_step_not_restarted:
  assumes "bare_start c r q pa x y s" and "terminal_laws (sdk c)" and "owned_by_another q y s"
  shows "\<exists>k. run (create c (Some r) q pa) s = (Inl (TooEarlyError k), s) \<and> 30 \<le> k \<and> k \<le> 300"
proof -
  have bounds: "30 \<le> ownerRecheckSeconds a b \<and> ownerRecheckSeconds a b \<le> 300" for a b
    by (simp add: ownerRecheckSeconds_def Let_def)
  have "\<not> isTerminalStepStatus (sdk c) (s_status y)"
    using assms(2,3) by (auto simp: terminal_laws_def owned_by_another_def)
  with assms show ?thesis
    by (auto simp: bare_start_def owned_by_another_def handler_simps getStepForValidation_def
        lazy_step_start_def handle_step_started_def check_owner_def bounds)
qed

definition example_delivery :: event_req where
  "example_delivery = (example_req Step_started (Some ''s1''))
     \<lparr>rq_eventData := Some (no_data\<lparr>ed_ownerMessageId := Some ''m2''\<rparr>)\<rparr>"

definition example_owned :: st where
  "example_owned = (example_st Run_running Step_running)
     \<lparr>steps := [(example_step Step_running)\<lparr>s_ownerMessageId := Some ''m1''\<rparr>], graphile_jobs := [(''m1'', 0)]\<rparr>"

lemma example_bare_start:
  "bare_start example_ctx ''wrun_1'' example_delivery no_params (example_run Run_running)
     ((example_step Step_running)\<lparr>s_ownerMessageId := Some ''m1''\<rparr>) example_owned"
  using example_plain [of Step_started "Some ''s1''"]
  by (simp add: bare_start_def example_delivery_def example_owned_def example_call truthy_string_def
      this_step_def plain_call_def start_hook_of_def no_data_def example_req_def)
    (simp add: example_sdk_def)

theorem owned_step_not_restarted_witness:
  "\<exists>k. run (create example_ctx (Some ''wrun_1'') example_delivery no_params) example_owned =
     (Inl (TooEarlyError k), example_owned) \<and> 30 \<le> k \<and> k \<le> 300"
  by (rule owned_step_not_restarted [OF example_bare_start])
    (simp_all add: example_terminal_laws owned_by_another_def ownerMessageIdOf_def example_delivery_def
      deliveryInFlight_def example_owned_def example_st_def empty_st_def)

text \<open>
  A \<open>step_started\<close> that is not refused for ownership or for a \<open>retryAfter\<close> in the future
  makes the step running, counts one more attempt, keeps the first start time, clears
  \<open>retryAfter\<close>, records the starting delivery as owner, and appends exactly its event.
\<close>

theorem step_started_effect:
  assumes "bare_start c r q pa x y s" and "slot_laws (sdk c)" and "terminal_laws (sdk c)"
    and "\<not> owned_by_another q y s" and "step_live c y" and "log_at c r n s"
    and "case s_retryAfter y of None \<Rightarrow> True | Some t \<Rightarrow> t \<le> now c"
    and "rq_eventData q = Some d" and "ed_input d = None"
  shows "\<exists>res. run (create c (Some r) q pa) s = (Inr res,
      s\<lparr>steps := update_where (\<lambda>z. this_step c r (rq_correlationId q) z \<and> step_live c z)
          (step_started_fields c (ed_ownerMessageId d)) (steps s),
        events := events s @ [next_event c r n (rq_correlationId q) Step_started (Some d)
          (Some (effective_spec_version c q)) s]\<rparr>) \<and>
    er_step res = Some (step_started_fields c (ed_ownerMessageId d) y)"
proof -
  have live: "\<not> isTerminalStepStatus (sdk c) (s_status y)"
    using assms(3,5) by (simp add: terminal_laws_def step_live_def)
  have found: "find (\<lambda>z. this_step c r (rq_correlationId q) z \<and> step_live c z) (steps s) = Some y"
    using assms(1,5) by (intro find_conj) (simp add: bare_start_def)
  show ?thesis
    using assms(1,2,4-) live found
    by (cases "s_retryAfter y"; cases "s_ownerMessageId y")
      (auto simp: bare_start_def owned_by_another_def handler_simps getStepForValidation_def
        lazy_step_start_def handle_step_started_def check_owner_def check_retry_after_def
        transition_step_def update_step_stmt_def ownerMessageIdOf_def plain_result_def)
qed

lemma example_fresh_start:
  "bare_start example_ctx ''wrun_1'' example_delivery no_params (example_run Run_running)
     (example_step Step_pending) (example_st Run_running Step_pending)"
  using example_plain [of Step_started "Some ''s1''"]
  by (simp add: bare_start_def example_delivery_def example_call truthy_string_def
      this_step_def plain_call_def start_hook_of_def no_data_def example_req_def)
    (simp add: example_sdk_def)

theorem step_started_effect_witness:
  "\<exists>res s'. run (create example_ctx (Some ''wrun_1'') example_delivery no_params) (example_st Run_running Step_pending) =
     (Inr res, s') \<and> map s_attempt (steps s') = [2] \<and> map s_ownerMessageId (steps s') = [Some ''m2''] \<and>
     map e_eventType (events s') = [Run_created, Step_started]"
  using step_started_effect [OF example_fresh_start example_slot_laws [folded example_ctx_simps(1)]
      example_terminal_laws [folded example_ctx_simps(1)], where n = "Suc 0" and d = "no_data\<lparr>ed_ownerMessageId := Some ''m2''\<rparr>"]
  by (auto simp: owned_by_another_def example_call example_delivery_def update_where_def this_step_def
      step_started_fields_def next_event_def)

section \<open>Waits\<close>

definition wait_call :: "ctx \<Rightarrow> run_id \<Rightarrow> event_req \<Rightarrow> create_params \<Rightarrow> run_row \<Rightarrow> st \<Rightarrow> bool" where
  "wait_call c r q pa x s \<longleftrightarrow> plain_call c r q pa \<and> rq_eventType q = Wait_completed \<and>
     \<not> isChildEntityCreationEvent (sdk c) q \<and> \<not> isTerminalRunEventType (sdk c) Wait_completed \<and>
     \<not> isHookEventRequiringExistence (sdk c) Wait_completed \<and>
     find (this_run c r) (runs s) = Some x \<and> current_format c x"

text \<open>
  A wait is completed exactly once: on a waiting wait \<open>wait_completed\<close> marks it and appends
  its event; on a completed one it is refused with \<open>EntityConflictError\<close>, and on a missing one
  as not found, and then nothing is written.
\<close>

theorem wait_completes_once:
  assumes "wait_call c r q pa x s" and "slot_laws (sdk c)" and "log_at c r n s"
    and "distinct (map (\<lambda>w. (w_tenantId w, w_waitId w)) (waits s))"
  shows "case find (this_wait c (wait_id r (rq_correlationId q))) (waits s) of
      None \<Rightarrow> \<exists>e. run (create c (Some r) q pa) s = (Inl (WorkflowWorldError (Wait_not_found e) None None), s)
    | Some w \<Rightarrow> if w_status w = Wait_completed_st
        then run (create c (Some r) q pa) s = (Inl EntityConflictError, s)
        else \<exists>res. er_wait res = Some (wait_completed_fields c w) \<and>
          run (create c (Some r) q pa) s = (Inr res, s\<lparr>
            waits := update_where (\<lambda>v. this_wait c (wait_id r (rq_correlationId q)) v \<and> w_status v = Wait_waiting)
              (wait_completed_fields c) (waits s),
            events := events s @ [next_event c r n (rq_correlationId q) Wait_completed (rq_eventData q)
              (Some (effective_spec_version c q)) s]\<rparr>)"
proof -
  let ?mine = "this_wait c (wait_id r (rq_correlationId q))"
  have missed: "find (\<lambda>v. ?mine v \<and> w_status v = Wait_waiting) (waits s) = None \<and>
      update_where (\<lambda>v. ?mine v \<and> w_status v = Wait_waiting) f (waits s) = waits s"
    if "\<And>v. v \<in> set (waits s) \<Longrightarrow> ?mine v \<Longrightarrow> w_status v \<noteq> Wait_waiting" for f
    using that unfolding update_where_def by (auto simp: find_None_iff intro!: map_idI)
  show ?thesis
  proof (cases "find ?mine (waits s)")
    case None
    then have "\<And>v. v \<in> set (waits s) \<Longrightarrow> ?mine v \<Longrightarrow> w_status v \<noteq> Wait_waiting" by (auto dest: find_NoneD)
    from missed [OF this] None assms(1) show ?thesis
      by (auto simp: wait_call_def handler_simps handle_wait_completed_def complete_wait_stmt_def)
  next
    case (Some w)
    then have w: "w \<in> set (waits s)" "?mine w" using find_SomeD by fast+
    show ?thesis
    proof (cases "w_status w")
      case Wait_waiting
      with Some have "find (\<lambda>v. ?mine v \<and> w_status v = Wait_waiting) (waits s) = Some w" by (intro find_conj)
      with Some Wait_waiting assms(1,2,3) show ?thesis
        by (auto simp: wait_call_def handler_simps handle_wait_completed_def complete_wait_stmt_def plain_result_def)
    next
      case Wait_completed_st
      have "w_status v \<noteq> Wait_waiting" if "v \<in> set (waits s)" "?mine v" for v
        using distinct_map_unique [OF assms(4) that(1) w(1)] that(2) w(2) Wait_completed_st
        by (auto simp: this_wait_def)
      from missed [OF this] Some Wait_completed_st assms(1) show ?thesis
        by (auto simp: wait_call_def handler_simps handle_wait_completed_def complete_wait_stmt_def)
    qed
  qed
qed

definition example_wait :: "wait_status \<Rightarrow> wait_row" where
  "example_wait x = \<lparr>w_tenantId = ''t'', w_waitId = ''wrun_1-w1'', w_runId = ''wrun_1'', w_status = x,
     w_resumeAt = None, w_completedAt = None, w_createdAt = 0, w_updatedAt = 0, w_specVersion = Some 8\<rparr>"

theorem wait_completes_once_witness:
  "run (create example_ctx (Some ''wrun_1'') (example_req Wait_completed (Some ''w1'')) no_params)
     ((example_st Run_running Step_running)\<lparr>waits := [example_wait Wait_completed_st]\<rparr>) =
   (Inl EntityConflictError, (example_st Run_running Step_running)\<lparr>waits := [example_wait Wait_completed_st]\<rparr>)"
proof -
  have "wait_call example_ctx ''wrun_1'' (example_req Wait_completed (Some ''w1'')) no_params (example_run Run_running)
      ((example_st Run_running Step_running)\<lparr>waits := [example_wait Wait_completed_st]\<rparr>)"
    by (simp add: wait_call_def example_call)
  from wait_completes_once [OF this, where n = "Suc 0"] show ?thesis
    by (simp add: example_call this_wait_def wait_id_def example_wait_def)
qed

end
