(* ===== verification/Hook_Spec.thy ===== *)
theory Hook_Spec
  imports Handlers
begin

text \<open>
  Hooks: deliveries are appended only to live hooks and redirected after a takeover, a
  disposal happens once, a token in use leads to a recorded conflict, and a forced creation
  takes the token over in one transaction.
\<close>

definition hook_call :: "ctx \<Rightarrow> run_id \<Rightarrow> event_req \<Rightarrow> create_params \<Rightarrow> event_type \<Rightarrow> string \<Rightarrow> run_row \<Rightarrow> st \<Rightarrow> bool" where
  "hook_call c r q pa ty hookId x s \<longleftrightarrow> plain_call c r q pa \<and> rq_eventType q = ty \<and>
     rq_correlationId q = Some hookId \<and> hookId \<noteq> [] \<and> find (this_run c r) (runs s) = Some x \<and>
     current_format c x \<and> \<not> isTerminalWorkflowRunStatus (sdk c) (r_status x)"

definition claim_call :: "ctx \<Rightarrow> run_id \<Rightarrow> event_req \<Rightarrow> create_params \<Rightarrow> string \<Rightarrow> string \<Rightarrow> event_data \<Rightarrow> run_row \<Rightarrow>
    hook_row \<Rightarrow> st \<Rightarrow> bool" where
  "claim_call c r q pa hookId token d x v s \<longleftrightarrow> hook_call c r q pa Hook_created hookId x s \<and>
     rq_eventData q = Some d \<and> ed_token d = Some token \<and> \<not> isStartHookId (sdk c) r hookId \<and>
     \<not> isHookEventRequiringExistence (sdk c) Hook_created \<and>
     filter (hookTokenEquals c token) (hooks s) = [v] \<and> available c s v \<and> (h_runId v \<noteq> r \<or> h_hookId v \<noteq> hookId)"

section \<open>Example state\<close>

text \<open>A run with a hook, and a second run that has none.\<close>

definition example_hook :: hook_row where
  "example_hook = \<lparr>h_tenantId = ''t'', h_runId = ''wrun_1'', h_hookId = ''h1'', h_token = ''tok'', h_ownerId = [],
     h_projectId = [], h_environment = [], h_createdAt = 0, h_tokenRetentionUntil = None, h_metadataJson = None,
     h_metadata = None, h_specVersion = Some 8, h_isWebhook = Some True, h_isSystem = Some False,
     h_claimedFrom = None, h_claimsToken = True\<rparr>"

definition example_two :: "hook_row list \<Rightarrow> st" where
  "example_two hs = (example_st Run_running Step_running)\<lparr>
     runs := [example_run Run_running, (example_run Run_running)\<lparr>r_runId := ''wrun_2''\<rparr>],
     events := [example_created, example_created\<lparr>e_runId := ''wrun_2''\<rparr>],
     eventSlots := [\<lparr>sl_tenantId = ''t'', sl_runId = ''wrun_1'', sl_seqInBand = 1\<rparr>,
       \<lparr>sl_tenantId = ''t'', sl_runId = ''wrun_2'', sl_seqInBand = 1\<rparr>], hooks := hs\<rparr>"

definition example_claim :: "bool \<Rightarrow> event_data" where
  "example_claim force = no_data\<lparr>ed_token := Some ''tok'', ed_force := force\<rparr>"

definition example_claim_req :: "bool \<Rightarrow> event_req" where
  "example_claim_req force = (example_req Hook_created (Some ''h2''))\<lparr>rq_eventData := Some (example_claim force)\<rparr>"

lemma example_two_logs:
  "log_at example_ctx ''wrun_1'' (Suc 0) (example_two hs)" "log_at example_ctx ''wrun_2'' (Suc 0) (example_two hs)"
  by (simp_all add: log_at_def slotted_def run_ids_def of_run_def example_two_def example_defs has_row_def empty_st_def
      slot_id_def example_sdk_def text_defs)

lemma example_two_tables [simp]:
  "runs (example_two hs) = [example_run Run_running, (example_run Run_running)\<lparr>r_runId := ''wrun_2''\<rparr>]"
  "events (example_two hs) = [example_created, example_created\<lparr>e_runId := ''wrun_2''\<rparr>]" "hooks (example_two hs) = hs"
  by (simp_all add: example_two_def)

lemma example_two_run1: "find (this_run example_ctx ''wrun_1'') (runs (example_two hs)) = Some (example_run Run_running)"
  by (simp add: this_run_def example_run_def)

lemma example_two_run2: "find (this_run example_ctx ''wrun_2'') (runs (example_two hs)) =
    Some ((example_run Run_running)\<lparr>r_runId := ''wrun_2''\<rparr>)"
  by (simp add: this_run_def example_run_def)

lemma example_hook_call:
  "ty \<noteq> Run_created \<Longrightarrow>
    hook_call example_ctx ''wrun_1'' (example_req ty (Some ''h1'')) no_params ty ''h1'' (example_run Run_running) (example_two hs)"
  unfolding hook_call_def example_two_run1 using example_plain example_format by simp

lemma example_claim_call:
  "claim_call example_ctx ''wrun_2'' (example_claim_req b) no_params ''h2'' ''tok'' (example_claim b)
     ((example_run Run_running)\<lparr>r_runId := ''wrun_2''\<rparr>) example_hook (example_two [example_hook])"
  unfolding claim_call_def hook_call_def example_two_run2
  by (simp add: plain_call_def start_hook_of_def example_claim_req_def example_claim_def no_params_def no_data_def
      current_format_def hookTokenEquals_def example_hook_def available_def owner_run_is_terminal_def has_row_def
      example_defs example_sdk_def)

section \<open>Delivery and disposal\<close>

text \<open>
  A delivery to a live hook of a live run appends its \<open>hook_received\<close> event and changes
  nothing else; the hook stays.
\<close>

theorem hook_delivery:
  assumes "hook_call c r q pa Hook_received hookId x s" and "find (this_hook c hookId) (hooks s) = Some h"
    and "slot_laws (sdk c)" and "log_at c r n s"
  shows "\<exists>res. run (create c (Some r) q pa) s = (Inr res, s\<lparr>events := events s @
    [next_event c r n (Some hookId) Hook_received (rq_eventData q) (Some (effective_spec_version c q)) s]\<rparr>)"
  using assms
  by (auto simp: hook_call_def handler_simps find_hook_def handle_hook_received_def full_run_def
      truthy_string_def)

theorem hook_delivery_witness:
  "\<exists>res s'. run (create example_ctx (Some ''wrun_1'') (example_req Hook_received (Some ''h1'')) no_params)
     (example_two [example_hook]) = (Inr res, s') \<and> hooks s' = [example_hook] \<and> length (events s') = 3"
  using hook_delivery [OF example_hook_call [of Hook_received "[example_hook]"], of example_hook "Suc 0"] example_slot_laws
    example_two_logs(1) by (auto simp: this_hook_def example_hook_def)

text \<open>
  A delivery to a hook that is gone writes nothing. If another run took the hook's token
  over, the refusal names the hook that holds the token now (or the one that took it), so the
  caller can redirect; otherwise the hook is reported as not found.
\<close>

theorem hook_gone:
  assumes "hook_call c r q pa Hook_received hookId x s" and "find (this_hook c hookId) (hooks s) = None"
    and "isHookEventRequiringExistence (sdk c) Hook_received" and "disposal_data c r hookId s = Some d"
    and "ed_forceClaimedBy d = Some (byRun, byHook)" and "ed_token d = Some t"
    and "Option.bind (rq_eventData q) ed_token = None"
  shows "run (create c (Some r) q pa) s = (Inl (case find (hookTokenEquals c t) (hooks s) of
      None \<Rightarrow> HookForceClaimedError t byRun byHook
    | Some h \<Rightarrow> HookForceClaimedError t (h_runId h) (h_hookId h)), s)"
  using assms
  by (auto simp: hook_call_def handler_simps find_hook_def throw_hook_gone_def forceClaimRefusal_def
      truthy_string_def split: option.split)

theorem hook_gone_witness:
  "run (create example_ctx (Some ''wrun_1'') (example_req Hook_received (Some ''h1'')) no_params)
     ((example_two [])\<lparr>events := [example_created\<lparr>e_eventType := Hook_disposed, e_correlationId := Some ''h1'',
        e_eventData := Some (no_data\<lparr>ed_token := Some ''tok'', ed_forceClaimedBy := Some (''wrun_2'', ''h2'')\<rparr>)\<rparr>]\<rparr>) =
   (Inl (HookForceClaimedError ''tok'' ''wrun_2'' ''h2''),
    (example_two [])\<lparr>events := [example_created\<lparr>e_eventType := Hook_disposed, e_correlationId := Some ''h1'',
        e_eventData := Some (no_data\<lparr>ed_token := Some ''tok'', ed_forceClaimedBy := Some (''wrun_2'', ''h2'')\<rparr>)\<rparr>]\<rparr>)"
  by (subst hook_gone [where hookId = "''h1''" and x = "example_run Run_running" and t = "''tok''" and byRun = "''wrun_2''"
        and byHook = "''h2''" and d = "no_data\<lparr>ed_token := Some ''tok'', ed_forceClaimedBy := Some (''wrun_2'', ''h2'')\<rparr>"])
    (use example_hook_call [of Hook_received "[]"] in \<open>simp_all add: hook_call_def disposal_data_def of_run_def
      example_created_def no_data_def\<close>)

text \<open>
  A hook is disposed once: the first \<open>hook_disposed\<close> deletes the row and appends its event
  together; a second is refused with \<open>HookNotFoundError\<close> and writes nothing.
\<close>

theorem hook_disposed_once:
  assumes "hook_call c r q pa Hook_disposed hookId x s" and "isHookEventRequiringExistence (sdk c) Hook_disposed"
    and "slot_laws (sdk c)" and "log_at c r n s"
  shows "if has_row (this_hook c hookId) (hooks s)
    then \<exists>res. run (create c (Some r) q pa) s = (Inr res, s\<lparr>hooks := delete_where (this_hook c hookId) (hooks s),
        events := events s @
          [next_event c r n (Some hookId) Hook_disposed (rq_eventData q) (Some (effective_spec_version c q)) s]\<rparr>)
    else run (create c (Some r) q pa) s = (Inl (HookNotFoundError hookId), s)"
proof (cases "find (this_hook c hookId) (hooks s)")
  case None
  then have "\<not> has_row (this_hook c hookId) (hooks s)" by (auto simp: has_row_iff find_None_iff)
  with assms None show ?thesis
    by (auto simp: hook_call_def handler_simps find_hook_def throw_hook_gone_def truthy_string_def)
next
  case (Some h)
  then have "has_row (this_hook c hookId) (hooks s)" using find_SomeD by (fastforce simp: has_row_iff)
  with assms Some show ?thesis
    by (auto simp: hook_call_def handler_simps find_hook_def handle_hook_disposed_def delete_hook_stmt_def
        truthy_string_def)
qed

theorem hook_disposed_once_witness:
  "\<exists>res s'. run (create example_ctx (Some ''wrun_1'') (example_req Hook_disposed (Some ''h1'')) no_params)
     (example_two [example_hook]) = (Inr res, s') \<and> hooks s' = []"
  using hook_disposed_once [OF example_hook_call [of Hook_disposed "[example_hook]"], of "Suc 0"] example_slot_laws
    example_two_logs(1) by (auto simp: this_hook_def example_hook_def has_row_def delete_where_def)

section \<open>A token in use\<close>

lemma find_filter: "find P xs = (case filter P xs of [] \<Rightarrow> None | y # ys \<Rightarrow> Some y)"
  by (induction xs) auto

lemma claim_call_owner:
  assumes "claim_call c r q pa hookId token d x v s"
  shows "find (hookTokenEquals c token) (hooks s) = Some v"
    and "find (\<lambda>h. hookTokenEquals c token h \<and> available c s h) (hooks s) = Some v"
proof -
  show "find (hookTokenEquals c token) (hooks s) = Some v"
    using assms by (simp add: claim_call_def find_filter)
  then show "find (\<lambda>h. hookTokenEquals c token h \<and> available c s h) (hooks s) = Some v"
    using assms by (intro find_conj) (simp_all add: claim_call_def)
qed

text \<open>
  Creating a hook, without force, under a token another hook holds records a
  \<open>hook_conflict\<close> that names the holder's run; the call succeeds, and no hook changes.
\<close>

theorem hook_conflict_recorded:
  assumes "claim_call c r q pa hookId token d x v s" and "\<not> ed_force d" and "slot_laws (sdk c)" and "log_at c r n s"
  shows "\<exists>res. run (create c (Some r) q pa) s = (Inr res, s\<lparr>events := events s @
    [next_event c r n (Some hookId) Hook_conflict
      (Some (no_data\<lparr>ed_token := Some token, ed_conflictingRunId := Some (h_runId v)\<rparr>))
      (Some (effective_spec_version c q)) s]\<rparr>) \<and> er_hook res = None"
proof -
  have "(no_data\<lparr>ed_token := Some token, ed_conflictingRunId := Some (h_runId v), ed_forceRefusedReason := None\<rparr>) =
      no_data\<lparr>ed_token := Some token, ed_conflictingRunId := Some (h_runId v)\<rparr>"
    by (simp add: no_data_def)
  with assms claim_call_owner [OF assms(1)] show ?thesis
    by (auto simp: claim_call_def hook_call_def handler_simps handle_hook_created_def create_hook_def
        getHookByToken_def record_conflict_def no_result_def)
qed

theorem hook_conflict_recorded_witness:
  "\<exists>res s'. run (create example_ctx (Some ''wrun_2'') (example_claim_req False) no_params)
     (example_two [example_hook]) = (Inr res, s') \<and> hooks s' = [example_hook] \<and>
     map e_eventType (events s') = [Run_created, Run_created, Hook_conflict]"
  using hook_conflict_recorded [OF example_claim_call, of False "Suc 0"] example_slot_laws example_two_logs(2)
  by (auto simp: example_claim_def no_data_def next_event_def)

section \<open>Taking a token over\<close>

lemma log_at_other:
  "log_at c r n s \<Longrightarrow> e_runId e \<noteq> r \<Longrightarrow> log_at c r n (s\<lparr>events := events s @ [e]\<rparr>)"
  by (simp add: log_at_def slotted_def run_ids_def of_run_def)

definition victim_disposal :: "run_id \<Rightarrow> string \<Rightarrow> string \<Rightarrow> event_data" where
  "victim_disposal r hookId token = no_data\<lparr>ed_token := Some token, ed_forceClaimedBy := Some (r, hookId)\<rparr>"

lemma hook_values_frame [simp]:
  "hook_values c r hookId token d v f (s\<lparr>hooks := y\<rparr>) = hook_values c r hookId token d v f s"
  "hook_values c r hookId token d v f (s\<lparr>events := z\<rparr>) = hook_values c r hookId token d v f s"
  by (simp_all add: hook_values_def)

text \<open>The writes of a takeover, run on their own.\<close>

lemma run_take_token:
  assumes laws: "slot_laws (sdk c)" and claimer: "log_at c r n s" and victim: "log_at c (h_runId v) m s"
    and "h_runId v \<noteq> r" and spec: "r_specVersion vr = Some w"
    and one: "filter (hookTokenEquals c token) (hooks s) = [v]"
    and fresh_id: "\<not> has_row (this_hook c hookId) (hooks s)"
    and fresh_event: "\<not> has_row (\<lambda>e. of_run (tenantId c) r e \<and> e_correlationId e = Some hookId \<and>
        e_eventType e = Hook_created) (events s)"
  defines "from \<equiv> claimed_from_victim v (Some vr) True"
  shows "\<exists>at. run (take_token c r hookId token d u (Some d) v (Some vr) True) s =
    (Inr (Taken (hook_values c r hookId token d u (Some from) s) (d\<lparr>ed_forceClaimedFrom := Some from\<rparr>) at),
     s\<lparr>events := (events s @ [next_event c (h_runId v) m (Some (h_hookId v)) Hook_disposed
          (Some (victim_disposal r hookId token)) (Some w) s]) @
        [next_event c r n (Some hookId) Hook_created (Some (d\<lparr>ed_forceClaimedFrom := Some from\<rparr>)) (Some u) s],
       hooks := delete_where (this_hook c (h_hookId v)) (hooks s) @ [hook_values c r hookId token d u (Some from) s]\<rparr>)"
proof -
  let ?s1 = "s\<lparr>events := events s @ [next_event c (h_runId v) m (Some (h_hookId v)) Hook_disposed
      (Some (victim_disposal r hookId token)) (Some w) s]\<rparr>"
  let ?hooks = "delete_where (this_hook c (h_hookId v)) (hooks s)"
  let ?row = "hook_values c r hookId token d u (Some from) s"
  have "hookTokenEquals c token v" using one by (metis list.set_intros(1) mem_Collect_eq set_filter)
  moreover have "h = v" if "h \<in> set (hooks s)" "hookTokenEquals c token h" for h
    using that one by (metis (mono_tags, lifting) list.set_intros(1) mem_Collect_eq set_filter set_ConsD empty_iff list.set(1))
  ultimately have "\<not> has_row (same_claim ?row) ?hooks"
    by (auto simp: table_simps same_claim_def hook_values_def hookTokenEquals_def this_hook_def)
  moreover have "\<not> has_row (same_hook_id ?row) ?hooks"
    using fresh_id by (auto simp: table_simps same_hook_id_def hook_values_def this_hook_def)
  moreover have "run (write_event c (h_runId v) (Some (h_hookId v)) Hook_disposed
        (Some (no_data\<lparr>ed_token := Some token, ed_forceClaimedBy := Some (r, hookId)\<rparr>)) (Some w)) s =
      (Inr (Some (slot_id (sdk c) (Suc m), db_now s)), ?s1)"
    unfolding victim_disposal_def by (rule run_write_event [OF laws victim]) (simp add: dedup_type_def)
  moreover have "run (write_event c r (Some hookId) Hook_created (Some (d\<lparr>ed_forceClaimedFrom := Some from\<rparr>)) (Some u))
        (?s1\<lparr>hooks := y\<rparr>) = (Inr (Some (slot_id (sdk c) (Suc n), db_now s)), ?s1\<lparr>hooks := y, events := events ?s1 @
        [next_event c r n (Some hookId) Hook_created (Some (d\<lparr>ed_forceClaimedFrom := Some from\<rparr>)) (Some u) s]\<rparr>)" for y
    using run_write_event [OF laws, of r n "?s1\<lparr>hooks := y\<rparr>" "Some hookId" Hook_created] claimer assms(4) fresh_event
    by (simp add: log_at_other next_event_def has_row_def same_correlation_def of_run_def list_ex_iff)
      (auto simp: stamp_def)
  ultimately show ?thesis
    using spec
    by (simp add: take_token_def run_simps run_stmtE Let_def insert_hook_strict_stmt_def insert_hook_stmt_def
        from_def)
qed

text \<open>
  C6. A forced creation of a hook, by a live run in the current format, under a token that the
  hook of another live run holds, where that run's spec version takes part in force claims and
  the new hook's id is unused, takes the token over: the victim's log ends with a
  \<open>hook_disposed\<close> that names the claimer, the victim's hook is gone, the new hook holds the token
  and remembers whom it was claimed from, the claimer's log ends with \<open>hook_created\<close>, and nothing
  else changes.
\<close>

theorem forced_takeover:
  assumes claim: "claim_call c r q pa hookId token d x v s" and "ed_force d"
    and laws: "slot_laws (sdk c)" and claimer: "log_at c r n s" and victim: "log_at c (h_runId v) m s"
    and vr: "find (this_run c (h_runId v)) (runs s) = Some vr" "\<not> isTerminalWorkflowRunStatus (sdk c) (r_status vr)"
    and "h_runId v \<noteq> r" and spec: "r_specVersion vr = Some w" "SPEC_VERSION_SUPPORTS_HOOK_FORCE_CLAIM (sdk c) \<le> w"
    and fresh_id: "\<not> has_row (this_hook c hookId) (hooks s)"
    and fresh_event: "\<not> has_row (\<lambda>e. of_run (tenantId c) r e \<and> e_correlationId e = Some hookId \<and>
        e_eventType e = Hook_created) (events s)"
  defines "from \<equiv> claimed_from_victim v (Some vr) True"
  shows "\<exists>res. run (create c (Some r) q pa) s = (Inr res, s\<lparr>
      events := (events s @ [next_event c (h_runId v) m (Some (h_hookId v)) Hook_disposed
          (Some (victim_disposal r hookId token)) (Some w) s]) @
        [next_event c r n (Some hookId) Hook_created (Some (d\<lparr>ed_forceClaimedFrom := Some from\<rparr>))
          (Some (effective_spec_version c q)) s],
      hooks := delete_where (this_hook c (h_hookId v)) (hooks s) @
        [hook_values c r hookId token d (effective_spec_version c q) (Some from) s]\<rparr>)"
proof -
  let ?v = "effective_spec_version c q"
  have one: "filter (hookTokenEquals c token) (hooks s) = [v]" and d: "rq_eventData q = Some d"
    and other: "h_runId v \<noteq> r \<or> h_hookId v \<noteq> hookId" using claim by (simp_all add: claim_call_def)
  obtain at u where take: "run (take_token c r hookId token d ?v (Some d) v (Some vr) True) s =
      (Inr (Taken (hook_values c r hookId token d ?v (Some from) s) (d\<lparr>ed_forceClaimedFrom := Some from\<rparr>) at), u)"
    and u: "u = s\<lparr>events := (events s @ [next_event c (h_runId v) m (Some (h_hookId v)) Hook_disposed
          (Some (victim_disposal r hookId token)) (Some w) s]) @
        [next_event c r n (Some hookId) Hook_created (Some (d\<lparr>ed_forceClaimedFrom := Some from\<rparr>)) (Some ?v) s],
       hooks := delete_where (this_hook c (h_hookId v)) (hooks s) @ [hook_values c r hookId token d ?v (Some from) s]\<rparr>"
    using run_take_token [OF laws claimer victim assms(8) spec(1) one fresh_id fresh_event] unfolding from_def by blast
  have "run (takeoverAttempt c r hookId token d ?v (Some d)) s =
      (Inr (Taken (hook_values c r hookId token d ?v (Some from) s) (d\<lparr>ed_forceClaimedFrom := Some from\<rparr>) at), u)"
    using claim_call_owner [OF claim] vr spec other take
    by (simp add: takeoverAttempt_def run_simps full_run_def Let_def)
  with claim claim_call_owner [OF claim] assms(2) other d show ?thesis
    unfolding u [symmetric]
    by (cases at) (auto simp: claim_call_def hook_call_def handler_simps handle_hook_created_def create_hook_def
        getHookByToken_def force_claim_def journaledHookCreated_def)
qed

theorem forced_takeover_witness:
  "\<exists>res s'. run (create example_ctx (Some ''wrun_2'') (example_claim_req True) no_params)
     (example_two [example_hook]) = (Inr res, s') \<and> map h_runId (hooks s') = [''wrun_2''] \<and>
     map (\<lambda>e. (e_runId e, e_eventType e)) (events s') = [(''wrun_1'', Run_created), (''wrun_2'', Run_created),
       (''wrun_1'', Hook_disposed), (''wrun_2'', Hook_created)]"
  using forced_takeover [OF example_claim_call, of True "Suc 0" "Suc 0" "example_run Run_running" 8]
    example_slot_laws example_two_logs example_two_run1
  by (auto simp: example_claim_def example_hook_def no_data_def next_event_def this_hook_def has_row_def delete_where_def
      hook_values_def of_run_def example_run_def example_created_def example_sdk_def)

end
