(* ===== verification/Admission.thy ===== *)
theory Admission
  imports Hook_Spec
begin

text \<open>
  Admission of a start Hook (\<open>src/start-hook.ts\<close>): a candidate run is decided once, from who
  holds the token, and every later attempt of the same candidate replays that decision.
\<close>

section \<open>The decision\<close>

text \<open>A candidate never decided before, young enough, whose run and hook do not exist.\<close>

definition fresh_candidate :: "ctx \<Rightarrow> run_id \<Rightarrow> st \<Rightarrow> bool" where
  "fresh_candidate c r s \<longleftrightarrow> \<not> has_row (same_admission c r) (startHookAdmissions s) \<and> \<not> candidate_expired c r \<and>
     \<not> has_row (this_run c r) (runs s) \<and>
     \<not> has_row (\<lambda>h. h_tenantId h = tenantId c \<and> (h_runId h = r \<or> h_hookId h = startHookId (sdk c) r)) (hooks s)"

text \<open>The state after the two sweeps ahead of the decision: old decisions, then ended tokens.\<close>

definition swept :: "ctx \<Rightarrow> start_hook \<Rightarrow> st \<Rightarrow> st" where
  "swept c h s = release_ended_token c (sh_token h) (snd (run (deleteExpiredDecisions c) s))"

definition token_holder :: "ctx \<Rightarrow> start_hook \<Rightarrow> st \<Rightarrow> hook_row option" where
  "token_holder c h s = find (\<lambda>q. hookTokenEquals c (sh_token h) q \<and> available c s q) (hooks s)"

definition decision_row ::
  "ctx \<Rightarrow> run_id \<Rightarrow> start_hook \<Rightarrow> hook_row option \<Rightarrow> st \<Rightarrow> admission_row" where
  "decision_row c r h holder s = \<lparr>a_tenantId = tenantId c, a_runId = r, a_token = sh_token h,
     a_decision = (if holder = None then Accepted else Rejected),
     a_conflictingRunId = map_option h_runId holder, a_createdAt = db_now s\<rparr>"

definition decided_state :: "ctx \<Rightarrow> run_id \<Rightarrow> start_hook \<Rightarrow> int \<Rightarrow> st \<Rightarrow> st" where
  "decided_state c r h v s = (let s1 = swept c h s; holder = token_holder c h s in
     s1\<lparr>hooks := hooks s1 @ (if holder = None then [start_hook_row c r h v s1] else []),
        startHookAdmissions := startHookAdmissions s1 @ [decision_row c r h holder s]\<rparr>)"

lemma find_delete_where: "(\<And>x. x \<in> set xs \<Longrightarrow> P x \<Longrightarrow> \<not> Q x) \<Longrightarrow> find P (delete_where Q xs) = find P xs"
  unfolding delete_where_def by (induction xs) (auto)

lemma find_admission: "\<not> has_row (same_admission c r) xs \<Longrightarrow> find (same_admission c r) xs = None"
  "\<not> has_row P ys \<Longrightarrow> \<not> has_row P (delete_where Q ys)"
  by (auto simp: has_row_iff find_None_iff delete_where_def)

lemma not_available: "hookRetentionEnded s h \<Longrightarrow> owner_run_is_terminal c s h \<Longrightarrow> \<not> available c s h"
  "\<not> available c s h \<Longrightarrow> hookRetentionEnded s h \<and> owner_run_is_terminal c s h"
  by (auto simp: hookRetentionEnded_def available_def retained_def split: option.splits)

lemma swept_fields:
  "runs (swept c h s) = runs s" "db_now (swept c h s) = db_now s"
  "hooks (swept c h s) = delete_where (\<lambda>q. hookTokenEquals c (sh_token h) q \<and> owner_run_is_terminal c s q \<and>
     hookRetentionEnded s q) (hooks s)"
  by (simp_all add: swept_def release_ended_token_def deleteExpiredDecisions_def run_simps Let_def
      owner_run_is_terminal_def hookRetentionEnded_def cong: option.case_cong)

lemma swept_available: "available c (swept c h s) = available c s"
  by (simp add: fun_eq_iff available_def retained_def owner_run_is_terminal_def swept_fields cong: option.case_cong)

lemma swept_undecided:
  "\<not> has_row (same_admission c r) (startHookAdmissions s) \<Longrightarrow>
     \<not> has_row (same_admission c r) (startHookAdmissions (swept c h s))"
  by (simp add: swept_def release_ended_token_def deleteExpiredDecisions_def run_simps Let_def find_admission(2))

lemma run_undecided:
  "\<not> has_row (same_admission c r) (startHookAdmissions s) \<Longrightarrow> run (recordedDecision c r h) s = (Inr None, s)"
  by (simp add: recordedDecision_def run_simps find_admission(1))

lemma run_active_owner:
  assumes "fresh_candidate c r s"
  shows "run (findActiveTokenOwner c r h) (swept c h s) = (Inr (map_option h_runId (token_holder c h s)), swept c h s)"
proof -
  have "find (\<lambda>q. hookTokenEquals c (sh_token h) q \<and> h_runId q \<noteq> r \<and> available c s q) (hooks s) = token_holder c h s"
    unfolding token_holder_def using assms
    by (intro find_cong) (auto simp: fresh_candidate_def has_row_iff hookTokenEquals_def)
  moreover have "find (\<lambda>q. hookTokenEquals c (sh_token h) q \<and> h_runId q \<noteq> r \<and> available c s q) (hooks (swept c h s)) =
      find (\<lambda>q. hookTokenEquals c (sh_token h) q \<and> h_runId q \<noteq> r \<and> available c s q) (hooks s)"
    unfolding swept_fields by (rule find_delete_where) (auto dest: not_available(1))
  ultimately show ?thesis by (simp add: findActiveTokenOwner_def run_simps swept_available)
qed

text \<open>With no holder the swept table has no conflicting row left.\<close>

lemma free_token_inserts:
  assumes "fresh_candidate c r s" and "token_holder c h s = None"
  shows "insert_hook_lenient_stmt (start_hook_row c r h v (swept c h s)) (swept c h s) =
    (Some (start_hook_row c r h v (swept c h s)),
     (swept c h s)\<lparr>hooks := hooks (swept c h s) @ [start_hook_row c r h v (swept c h s)]\<rparr>)"
proof -
  have "\<not> has_row (\<lambda>q. same_hook_id (start_hook_row c r h v (swept c h s)) q \<or>
      same_claim (start_hook_row c r h v (swept c h s)) q) (hooks (swept c h s))"
    using assms not_available(2) [of c s]
    by (fastforce simp: has_row_iff swept_fields set_delete_where fresh_candidate_def token_holder_def find_None_iff
        same_hook_id_def same_claim_def start_hook_row_def hookTokenEquals_def)
  then show ?thesis by (simp add: insert_hook_lenient_stmt_def)
qed

text \<open>
  A fresh start Hook candidate is accepted exactly when no available hook holds its token,
  and rejected in favour of the holder otherwise. The decision is recorded with the new hook
  in the same transaction; it never ends in the retry error.
\<close>

theorem start_hook_decided:
  assumes "fresh_candidate c r s"
  shows "run (decideStartHookAdmission c r h v) s = (Inr (case token_holder c h s of
      Some q \<Rightarrow> Decided_rejected (h_runId q) | None \<Rightarrow> Decided_accepted False), decided_state c r h v s)"
proof -
  let ?s = "swept c h s"
  have fresh: "\<not> has_row (same_admission c r) (startHookAdmissions s)"
    "\<not> has_row (same_admission c r) (startHookAdmissions ?s)" "\<not> candidate_expired c r"
    "\<not> has_row (\<lambda>q. r_tenantId q = tenantId c \<and> r_runId q = r) (runs s)"
    using assms swept_undecided by (auto simp: fresh_candidate_def this_run_def [abs_def])
  obtain s0 where sweeps: "run (deleteExpiredDecisions c) s = (Inr (), s0)"
    "run (exec (release_ended_token c (sh_token h)) :: unit io) s0 = (Inr (), ?s)"
    by (simp add: swept_def run_simps deleteExpiredDecisions_def)
  note undecided = run_undecided [OF fresh(1)] run_undecided [OF fresh(2)]
  show ?thesis
  proof (cases "token_holder c h s")
    case None
    then show ?thesis
      using fresh free_token_inserts [OF assms None] run_active_owner [OF assms, of h] undecided sweeps
      by (simp add: decideStartHookAdmission_def run_bindP run_throw_if run_query run_stmt recordDecision_def
          decided_state_def decision_row_def swept_fields Let_def)
  next
    case (Some q)
    then show ?thesis
      using fresh run_active_owner [OF assms, of h] undecided sweeps
      by (simp add: decideStartHookAdmission_def run_bindP run_throw_if run_query run_stmt recordDecision_def
          decided_state_def decision_row_def swept_fields Let_def)
  qed
qed

definition example_start_hook :: start_hook where
  "example_start_hook = \<lparr>sh_token = ''tok'', sh_metadata = None, sh_tokenRetentionUntil = None, sh_hookId = None\<rparr>"

lemma example_fresh: "fresh_candidate example_ctx ''wrun_3'' (example_two hs)" if "hs = [] \<or> hs = [example_hook]"
  using that
  by (auto simp: fresh_candidate_def candidate_expired_def strip_wrun_def example_two_def example_st_def empty_st_def has_row_def
      this_run_def example_run_def example_hook_def example_ctx_def example_sdk_def)

lemma example_holder: "token_holder example_ctx example_start_hook (example_two [example_hook]) = Some example_hook"
  by (simp add: token_holder_def hookTokenEquals_def example_start_hook_def example_two_def example_hook_def available_def
      owner_run_is_terminal_def has_row_def example_ctx_def example_st_def example_run_def example_sdk_def)

theorem start_hook_decided_witness:
  "fst (run (decideStartHookAdmission example_ctx ''wrun_3'' example_start_hook 8) (example_two [example_hook])) =
     Inr (Decided_rejected ''wrun_1'') \<and>
   fst (run (decideStartHookAdmission example_ctx ''wrun_3'' example_start_hook 8) (example_two [])) =
     Inr (Decided_accepted False)"
  using start_hook_decided [OF example_fresh, of "[example_hook]" example_start_hook 8] example_holder
    start_hook_decided [OF example_fresh, of "[]" example_start_hook 8]
  by (simp add: example_hook_def) (simp add: token_holder_def example_two_def)

section \<open>Creating a run under a start Hook\<close>

lemma run_mapM_queries:
  "run (mapM (\<lambda>a. bindP (query (f a)) (\<lambda>x. Ret (a, x))) as) s = (Inr (map (\<lambda>a. (a, f a s)) as), s)"
  by (induction as) (simp_all add: run_simps)

definition ancestor :: "ctx \<Rightarrow> st \<Rightarrow> run_id \<Rightarrow> retention_identity option" where
  "ancestor c s a = map_option (\<lambda>row. \<lparr>ri_class = r_retentionClass row, ri_rootRunId = r_retentionRootRunId row\<rparr>)
     (find (this_run c a) (runs s))"

lemma run_resolveCreationRetention:
  "run (resolveCreationRetention c r cls attrs) s =
     (resolveRunRetentionForCreation (retention_intent c) r cls attrs
        (\<lambda>a. if a \<in> set (ancestor_ids attrs) then ancestor c s a else None), s)"
proof -
  have "(\<lambda>a. Option.bind (map_of (map (\<lambda>a. (a, f a)) as) a) id) = (\<lambda>a. if a \<in> set as then f a else None)"
    for f :: "run_id \<Rightarrow> retention_identity option" and as
    by (auto simp: fun_eq_iff map_of_map_restrict)
  then show ?thesis
    unfolding ancestor_def
    by (simp add: resolveCreationRetention_def getAncestorRetention_def run_bindP run_mapM_queries split: sum.split)
qed

text \<open>
  A run created without an explicit class takes the class and the retention root of its
  nearest known ancestor, the root run first and then the parent; when it names ancestors and
  none of them is known, the creation is refused; when it names none, it has the ambient class
  (or \<open>interactive\<close>) and is its own root.
\<close>

theorem retention_inherited:
  assumes "attr_lookup attrs RUN_RETENTION_ATTRIBUTE = None"
  shows "run (resolveCreationRetention c r None attrs) s =
    (case List.map_filter (\<lambda>a. find (this_run c a) (runs s)) (ancestor_ids attrs) of
       x # _ \<Rightarrow> (Inr \<lparr>ri_class = r_retentionClass x, ri_rootRunId = r_retentionRootRunId x\<rparr>, s)
     | [] \<Rightarrow> if ancestor_ids attrs = []
         then (Inr \<lparr>ri_class = (case retention_intent c of Some k \<Rightarrow> k | None \<Rightarrow> Interactive), ri_rootRunId = r\<rparr>, s)
         else (Inl TypeError, s))"
  using assms
  by (auto simp: run_resolveCreationRetention resolveRunRetentionForCreation_def resolveRunRetentionClassForCreation_def
      ancestors_found_def ancestor_ids_def ancestor_def List.map_filter_simps Let_def split: option.splits)

theorem retention_inherited_witness:
  "run (resolveCreationRetention example_ctx ''wrun_3'' None (Some [(''$parentRunId'', ''wrun_1'')]))
     (example_st Run_running Step_pending) =
   (Inr \<lparr>ri_class = Interactive, ri_rootRunId = ''wrun_1''\<rparr>, example_st Run_running Step_pending)"
  using retention_inherited [of "Some [(''$parentRunId'', ''wrun_1'')]" example_ctx "''wrun_3''" "example_st Run_running Step_pending"]
  by (simp add: attr_lookup_def RUN_RETENTION_ATTRIBUTE_def ancestor_ids_def ROOT_RUN_ID_ATTRIBUTE_def
      PARENT_RUN_ID_ATTRIBUTE_def List.map_filter_simps example_st_def this_run_def example_run_def example_ctx_def)

text \<open>
  Retention deadlines follow the run's end in order: streams are compacted first, expire
  later, and the run's details go last; a failed or cancelled scheduled run is kept at least as
  long as a completed one, and a persistent run has no deadline at all.
\<close>

theorem retention_deadlines_ordered:
  shows "case (compactAfter (retentionDeadlines k x t), expireAfter (retentionDeadlines k x t),
      detailExpireAfter (retentionDeadlines k x t), detailExpireAfter (retentionDeadlines k Terminal_completed t)) of
    (Some a, Some b, Some d, Some e) \<Rightarrow> k \<noteq> Persistent \<and> t < a \<and> a < b \<and> b < d \<and> e \<le> d
  | (None, None, None, None) \<Rightarrow> k = Persistent
  | _ \<Rightarrow> False"
  by (cases k; cases x) (simp_all add: retentionDeadlines_def MINUTE_MS_def DAY_MS_def Let_def)

text \<open>A \<open>run_created\<close> call that carries a start Hook and passes every check ahead of admission.\<close>

definition start_call :: "ctx \<Rightarrow> run_id \<Rightarrow> event_req \<Rightarrow> event_data \<Rightarrow> start_hook \<Rightarrow> retention_identity \<Rightarrow> st \<Rightarrow> bool" where
  "start_call c r q d h ret s \<longleftrightarrow> r \<noteq> [] \<and> rq_eventType q = Run_created \<and> rq_correlationId q = None \<and>
     rq_eventData q = Some d \<and> ed_startHook d = Some h \<and> ed_deploymentId d \<noteq> None \<and> ed_workflowName d \<noteq> None \<and>
     (case sh_tokenRetentionUntil h of None \<Rightarrow> True | Some u \<Rightarrow> u \<le> now c + hookRetentionLimitMs c) \<and>
     validateUlidTimestamp (sdk c) r (now c) = None \<and>
     validateAttributeChanges (sdk c) (attribute_entries d) [] (ed_allowReservedAttributes d) \<and>
     run (resolveCreationRetention c r (ed_retentionClass d) (ed_attributes d)) s = (Inr ret, s)"

text \<open>The admission of a rejected candidate is all such a call comes to.\<close>

lemma run_start_rejected:
  assumes "start_call c r q d h ret s"
    and "run (decideStartHookAdmission c r h (effective_spec_version c q)) s = (Inr (Decided_rejected o'), s')"
  shows "run (create c (Some r) q pa) s = (Inl (HookConflictError (sh_token h) o'), s')"
  using assms
  by (auto simp: start_call_def create_def create_unfenced_def check_hook_retention_def start_hook_of_def
      assertStartHookAdmissible_def effective_run_id_def check_run_id_timestamp_def load_current_run_def
      create_valid_def validate_terminal_def validate_step_def validate_hook_def truthy_string_def handle_entity_def continue_def
      handle_run_created_def create_run_def check_attributes_def insertRunWithCreatedEvent_def
      admit_start_hook_def throw_rejected_def startHookConflict_def run_simps Let_def
      split: option.splits)

text \<open>
  C11. A run started under a token another run holds is not created: the call fails with
  \<open>HookConflictError\<close> naming the holder, runs and events are untouched and the decision stays
  recorded, so that the same start tried again fails the same way and writes nothing at all.
\<close>

theorem rejected_start_replayed:
  assumes "start_call c r q d h ret s" and "fresh_candidate c r s" and "token_holder c h s = Some holder"
  shows "\<exists>s'. run (create c (Some r) q pa) s = (Inl (HookConflictError (sh_token h) (h_runId holder)), s') \<and>
    runs s' = runs s \<and> events s' = events s \<and> steps s' = steps s \<and> token_holder c h s' = Some holder \<and>
    run (create c (Some r) q pa') s' = (Inl (HookConflictError (sh_token h) (h_runId holder)), s')"
proof -
  define s' where "s' = decided_state c r h (effective_spec_version c q) s"
  have same: "runs s' = runs s" "events s' = events s" "steps s' = steps s" "db_now s' = db_now s"
    "hooks s' = hooks (swept c h s)"
    using assms(3) by (simp_all add: s'_def decided_state_def Let_def swept_def release_ended_token_def
        deleteExpiredDecisions_def run_simps)
  have first: "run (create c (Some r) q pa) s = (Inl (HookConflictError (sh_token h) (h_runId holder)), s')"
    using start_hook_decided [OF assms(2), of h "effective_spec_version c q"] assms(3)
    by (intro run_start_rejected [OF assms(1)]) (simp add: s'_def)
  have "find (same_admission c r) (startHookAdmissions s') = Some (decision_row c r h (Some holder) s)"
    using assms(2,3) swept_undecided [of c r s h]
    by (simp add: s'_def decided_state_def Let_def find_append fresh_candidate_def find_admission(1))
      (simp add: same_admission_def decision_row_def)
  then have "run (decideStartHookAdmission c r h (effective_spec_version c q)) s' =
      (Inr (Decided_rejected (h_runId holder)), s')"
    by (simp add: decideStartHookAdmission_def recordedDecision_def run_simps decision_row_def)
  moreover have "start_call c r q d h ret s'"
    using assms(1) same(1) by (simp add: start_call_def run_resolveCreationRetention ancestor_def cong: if_cong)
  ultimately have again: "run (create c (Some r) q pa') s' = (Inl (HookConflictError (sh_token h) (h_runId holder)), s')"
    by (rule run_start_rejected [rotated])
  have avail: "available c s' = available c s"
    using same by (simp add: fun_eq_iff available_def retained_def owner_run_is_terminal_def cong: option.case_cong)
  have "token_holder c h s' = token_holder c h s"
    unfolding token_holder_def same(5) swept_fields(3) avail
    by (rule find_delete_where) (auto dest: not_available(1))
  with first again same assms(3) show ?thesis by auto
qed

definition example_candidate :: event_req where
  "example_candidate = \<lparr>rq_eventType = Run_created, rq_correlationId = None, rq_specVersion = Some 8,
     rq_eventData = Some (no_data\<lparr>ed_deploymentId := Some ''d'', ed_workflowName := Some ''w'',
       ed_startHook := Some example_start_hook\<rparr>)\<rparr>"

lemma example_start_call:
  "start_call example_ctx ''wrun_3'' example_candidate (the (rq_eventData example_candidate)) example_start_hook
     \<lparr>ri_class = Interactive, ri_rootRunId = ''wrun_3''\<rparr> s"
  by (simp add: start_call_def example_candidate_def example_start_hook_def example_ctx_def example_sdk_def no_data_def
      attribute_entries_def run_resolveCreationRetention resolveRunRetentionForCreation_def ancestors_found_def
      resolveRunRetentionClassForCreation_def ancestor_ids_def attr_lookup_def List.map_filter_simps)

theorem rejected_start_replayed_witness:
  "\<exists>s'. run (create example_ctx (Some ''wrun_3'') example_candidate no_params) (example_two [example_hook]) =
       (Inl (HookConflictError ''tok'' ''wrun_1''), s') \<and> runs s' = runs (example_two [example_hook]) \<and>
     run (create example_ctx (Some ''wrun_3'') example_candidate no_params) s' =
       (Inl (HookConflictError ''tok'' ''wrun_1''), s')"
  using rejected_start_replayed [OF example_start_call example_fresh example_holder, of no_params no_params]
  by (auto simp: example_hook_def example_start_hook_def)

end
