(* ===== verification/Stream_Blocks.thy ===== *)
theory Stream_Blocks
  imports Prelude "HOL-Library.Word"
begin

text \<open>
  Packed stream blocks (\<open>src/stream-blocks.ts\<close>): many logical chunks of a stream in one
  physical row. A block is a sequence of entries, each a two byte id length, a four byte data
  length, the id and the data.

  A string stands for its UTF-8 bytes, one \<open>char\<close> per byte, so that \<open>Buffer.from(id, "utf8")\<close>,
  \<open>Buffer.byteLength\<close> and \<open>toString("utf8")\<close> on the bytes of an id are the conversions below
  (\<open>toString\<close> would replace bytes that are not UTF-8; chunk ids are ASCII). Buffers are lists of
  bytes; a buffer write happens at an offset, and raises when the value or the offset does not fit.
\<close>

section \<open>Buffers\<close>

type_synonym byte = "8 word"

definition bytes_of :: "string \<Rightarrow> byte list" where
  "bytes_of s = map (\<lambda>x. of_nat (of_char x)) s"

definition text_of :: "byte list \<Rightarrow> string" where
  "text_of bs = map (\<lambda>b. char_of (unat b)) bs"

lemma length_bytes_of [simp]: "length (bytes_of s) = length s"
  by (simp add: bytes_of_def)

lemma text_of_bytes_of [simp]: "text_of (bytes_of s) = s"
proof -
  have "unat (of_nat (of_char x) :: byte) = of_char x" for x
    by (simp add: unat_of_nat take_bit_eq_mod)
  then show ?thesis by (simp add: text_of_def bytes_of_def o_def)
qed

lemma bytes_of_text_of [simp]: "bytes_of (text_of bs) = bs"
proof -
  have "of_nat (of_char (char_of (unat b))) = b" for b :: byte
    using unsigned_less [of b, where ?'a = nat] by (simp add: of_char_of)
  then show ?thesis by (simp add: text_of_def bytes_of_def o_def)
qed

text \<open>Big-endian numbers of \<open>w\<close> bytes.\<close>

fun be :: "nat \<Rightarrow> nat \<Rightarrow> byte list" where
  "be 0 v = []"
| "be (Suc w) v = be w (v div 256) @ [of_nat v]"

definition readUIntBE :: "byte list \<Rightarrow> nat" where
  "readUIntBE bs = foldl (\<lambda>a b. a * 256 + unat b) 0 bs"

lemma length_be [simp]: "length (be w v) = w"
  by (induction w v rule: be.induct) auto

lemma readUIntBE_snoc: "readUIntBE (bs @ [b]) = readUIntBE bs * 256 + unat b"
  by (simp add: readUIntBE_def)

lemma readUIntBE_be [simp]: "v < 256 ^ w \<Longrightarrow> readUIntBE (be w v) = v"
proof (induction w v rule: be.induct)
  case (1 v) then show ?case by (simp add: readUIntBE_def)
next
  case (2 w v)
  then have "v div 256 < 256 ^ w" by (simp add: less_mult_imp_div_less mult.commute)
  then show ?case using 2 by (simp add: readUIntBE_snoc unat_of_nat take_bit_eq_mod)
qed

lemma be_readUIntBE: "be (length bs) (readUIntBE bs) = bs"
proof (induction bs rule: rev_induct)
  case Nil then show ?case by simp
next
  case (snoc b bs)
  have "unat b < 256" using unsigned_less [of b, where ?'a = nat] by simp
  then have "(readUIntBE bs * 256 + unat b) div 256 = readUIntBE bs" by simp
  moreover have "(of_nat (readUIntBE bs * 256 + unat b) :: byte) = b"
  proof -
    have "(256 :: byte) = 0" by simp
    then show ?thesis by (simp only: of_nat_add of_nat_mult of_nat_numeral) simp
  qed
  ultimately show ?case using snoc by (simp add: readUIntBE_snoc)
qed

section \<open>Packing\<close>

datatype block_error = Chunk_id_too_long | Not_positive | Unsupported_codec | Malformed_block | Out_of_range

record logical_chunk =
  ck_id :: string
  ck_data :: "byte list"

record packed_block =
  pb_firstChunkId :: string
  pb_lastChunkId :: string
  pb_chunkCount :: nat
  pb_codecVersion :: int
  pb_data :: "byte list"

record physical_row =
  pr_chunkId :: string
  pr_lastChunkId :: "string option"
  pr_chunkCount :: "int option"
  pr_codecVersion :: "int option"
  pr_data :: "byte list"
  pr_eof :: bool

definition PACKED_STREAM_CODEC_VERSION :: int where "PACKED_STREAM_CODEC_VERSION = 2"
definition DEFAULT_STREAM_BLOCK_CHUNKS :: int where "DEFAULT_STREAM_BLOCK_CHUNKS = 64"
definition DEFAULT_STREAM_BLOCK_BYTES :: int where "DEFAULT_STREAM_BLOCK_BYTES = 256 * 1024"
definition ENTRY_HEADER_BYTES :: nat where "ENTRY_HEADER_BYTES = 6"

definition writeUIntBE :: "nat \<Rightarrow> nat \<Rightarrow> nat \<Rightarrow> byte list \<Rightarrow> block_error + byte list" where
  "writeUIntBE w v offset buf =
     (if 256 ^ w \<le> v \<or> length buf < offset + w then Inl Out_of_range
      else Inr (take offset buf @ be w v @ drop (offset + w) buf))"

text \<open>\<open>source.copy(buffer, offset)\<close>, cut off at the buffer's end.\<close>

definition copy_into :: "byte list \<Rightarrow> nat \<Rightarrow> byte list \<Rightarrow> byte list" where
  "copy_into src offset buf =
     take offset buf @ take (length buf - offset) src @ drop (offset + length src) buf"

fun encode_entries :: "logical_chunk list \<Rightarrow> nat \<Rightarrow> byte list \<Rightarrow> block_error + byte list" where
  "encode_entries [] offset data = Inr data"
| "encode_entries (chunk # chunks) offset data =
     (let id = bytes_of (ck_id chunk) in
      bindE (writeUIntBE 2 (length id) offset data) (\<lambda>data.
      bindE (writeUIntBE 4 (length (ck_data chunk)) (offset + 2) data) (\<lambda>data.
      let data = copy_into id (offset + ENTRY_HEADER_BYTES) data;
          data = copy_into (ck_data chunk) (offset + ENTRY_HEADER_BYTES + length id) data
      in encode_entries chunks (offset + ENTRY_HEADER_BYTES + length id + length (ck_data chunk)) data)))"

text \<open>
  \<open>allocUnsafe n\<close> is a buffer of \<open>n\<close> bytes of any content: the model takes it as a parameter.
  The caller never passes an empty list.
\<close>

definition encodeBlock ::
  "(nat \<Rightarrow> byte list) \<Rightarrow> logical_chunk list \<Rightarrow> nat \<Rightarrow> block_error + packed_block" where
  "encodeBlock allocUnsafe chunks byteLength =
     bindE (encode_entries chunks 0 (allocUnsafe byteLength)) (\<lambda>data.
       Inr \<lparr>pb_firstChunkId = ck_id (hd chunks), pb_lastChunkId = ck_id (last chunks),
            pb_chunkCount = length chunks, pb_codecVersion = PACKED_STREAM_CODEC_VERSION, pb_data = data\<rparr>)"

definition flush ::
  "(nat \<Rightarrow> byte list) \<Rightarrow> logical_chunk list \<Rightarrow> nat \<Rightarrow> block_error + packed_block list" where
  "flush allocUnsafe pending pendingBytes =
     (if pending = [] then Inr [] else bindE (encodeBlock allocUnsafe pending pendingBytes) (\<lambda>b. Inr [b]))"

definition encodedBytes :: "logical_chunk \<Rightarrow> nat" where
  "encodedBytes chunk = ENTRY_HEADER_BYTES + length (bytes_of (ck_id chunk)) + length (ck_data chunk)"

fun pack_loop ::
  "(nat \<Rightarrow> byte list) \<Rightarrow> int \<Rightarrow> int \<Rightarrow> logical_chunk list \<Rightarrow> logical_chunk list \<Rightarrow> nat \<Rightarrow>
   block_error + packed_block list" where
  "pack_loop allocUnsafe maxChunks maxBytes [] pending pendingBytes = flush allocUnsafe pending pendingBytes"
| "pack_loop allocUnsafe maxChunks maxBytes (chunk # chunks) pending pendingBytes =
     (if 0xffff < length (bytes_of (ck_id chunk)) then Inl Chunk_id_too_long
      else if pending \<noteq> [] \<and> (maxChunks \<le> int (length pending) \<or>
                maxBytes < int (pendingBytes + encodedBytes chunk))
      then bindE (flush allocUnsafe pending pendingBytes) (\<lambda>done.
           bindE (pack_loop allocUnsafe maxChunks maxBytes chunks [chunk] (encodedBytes chunk)) (\<lambda>blocks.
             Inr (done @ blocks)))
      else pack_loop allocUnsafe maxChunks maxBytes chunks (pending @ [chunk]) (pendingBytes + encodedBytes chunk))"

definition positive_safe :: "int \<Rightarrow> bool" where
  "positive_safe v \<longleftrightarrow> 0 < v \<and> v \<le> 2 ^ 53 - 1"

definition packStreamChunks ::
  "(nat \<Rightarrow> byte list) \<Rightarrow> logical_chunk list \<Rightarrow> int option \<Rightarrow> int option \<Rightarrow> block_error + packed_block list" where
  "packStreamChunks allocUnsafe chunks maxChunks maxBytes =
     (let mc = (case maxChunks of Some n \<Rightarrow> n | None \<Rightarrow> DEFAULT_STREAM_BLOCK_CHUNKS);
          mb = (case maxBytes of Some n \<Rightarrow> n | None \<Rightarrow> DEFAULT_STREAM_BLOCK_BYTES)
      in if \<not> positive_safe mc \<or> \<not> positive_safe mb then Inl Not_positive
         else pack_loop allocUnsafe mc mb chunks [] 0)"

section \<open>Unpacking\<close>

definition subarray :: "byte list \<Rightarrow> nat \<Rightarrow> nat \<Rightarrow> byte list" where
  "subarray data i j = take (j - i) (drop i data)"

definition starts_with :: "string \<Rightarrow> string \<Rightarrow> bool" where
  "starts_with s p \<longleftrightarrow> take (length p) s = p"

function unpack_entries :: "byte list \<Rightarrow> nat \<Rightarrow> block_error + logical_chunk list" where
  "unpack_entries data offset =
     (if offset < length data then
        if length data - offset < ENTRY_HEADER_BYTES then Inl Malformed_block
        else
          let idLength = readUIntBE (subarray data offset (offset + 2));
              dataLength = readUIntBE (subarray data (offset + 2) (offset + 6));
              stop = offset + ENTRY_HEADER_BYTES + idLength + dataLength;
              id = text_of (subarray data (offset + ENTRY_HEADER_BYTES) (offset + ENTRY_HEADER_BYTES + idLength))
          in if length data < stop then Inl Malformed_block
             else if \<not> starts_with id ''chnk_'' then Inl Malformed_block
             else bindE (unpack_entries data stop) (\<lambda>chunks.
               Inr (\<lparr>ck_id = id, ck_data = subarray data (offset + ENTRY_HEADER_BYTES + idLength) stop\<rparr> # chunks))
      else Inr [])"
  by auto
termination
  by (relation "measure (\<lambda>(data, offset). length data - offset)") (auto simp: ENTRY_HEADER_BYTES_def)

declare unpack_entries.simps [simp del]

definition unpackStreamRow :: "physical_row \<Rightarrow> block_error + logical_chunk list" where
  "unpackStreamRow row =
     (if pr_eof row then Inr []
      else if pr_codecVersion row = None \<or> pr_codecVersion row = Some 1
      then Inr [\<lparr>ck_id = pr_chunkId row, ck_data = pr_data row\<rparr>]
      else if pr_codecVersion row \<noteq> Some PACKED_STREAM_CODEC_VERSION then Inl Unsupported_codec
      else case pr_chunkCount row of
        None \<Rightarrow> Inl Malformed_block
      | Some expectedCount \<Rightarrow>
          if \<not> positive_safe expectedCount then Inl Malformed_block
          else bindE (unpack_entries (pr_data row) 0) (\<lambda>chunks.
            if int (length chunks) \<noteq> expectedCount \<or> chunks = [] \<or> ck_id (hd chunks) \<noteq> pr_chunkId row \<or>
               Some (ck_id (last chunks)) \<noteq> pr_lastChunkId row
            then Inl Malformed_block else Inr chunks))"

section \<open>The encoding\<close>

definition entry :: "logical_chunk \<Rightarrow> byte list" where
  "entry x = be 2 (length (ck_id x)) @ be 4 (length (ck_data x)) @ bytes_of (ck_id x) @ ck_data x"

text \<open>A chunk whose lengths fit the header.\<close>

definition fits :: "logical_chunk \<Rightarrow> bool" where
  "fits x \<longleftrightarrow> length (ck_id x) \<le> 0xffff \<and> length (ck_data x) < 2 ^ 32"

lemma length_entry [simp]: "length (entry x) = encodedBytes x"
  by (simp add: entry_def encodedBytes_def ENTRY_HEADER_BYTES_def)

lemma encodedBytes_pos: "ENTRY_HEADER_BYTES \<le> encodedBytes x" "0 < encodedBytes x"
  by (simp_all add: encodedBytes_def ENTRY_HEADER_BYTES_def)

definition overlay :: "nat \<Rightarrow> byte list \<Rightarrow> byte list \<Rightarrow> byte list" where
  "overlay offset bs buf = take offset buf @ bs @ drop (offset + length bs) buf"

lemma length_overlay [simp]: "offset + length bs \<le> length buf \<Longrightarrow> length (overlay offset bs buf) = length buf"
  by (simp add: overlay_def)

lemma overlay_overlay:
  assumes "offset + length a + length b \<le> length buf" and "o' = offset + length a"
  shows "overlay o' b (overlay offset a buf) = overlay offset (a @ b) buf"
  using assms by (cases a) (auto simp: overlay_def min_def ac_simps)

lemma writeUIntBE_overlay:
  "v < 256 ^ w \<Longrightarrow> offset + w \<le> length buf \<Longrightarrow> writeUIntBE w v offset buf = Inr (overlay offset (be w v) buf)"
  by (simp add: writeUIntBE_def overlay_def)

lemma copy_into_overlay:
  "offset + length src \<le> length buf \<Longrightarrow> copy_into src offset buf = overlay offset src buf"
  by (simp add: copy_into_def overlay_def)

lemma encode_entries_concat:
  assumes "list_all fits xs" and "length buf = offset + sum_list (map encodedBytes xs)"
  shows "encode_entries xs offset buf = Inr (take offset buf @ concat (map entry xs))"
  using assms
proof (induction xs arbitrary: offset buf)
  case (Cons x xs)
  let ?b = "overlay offset (entry x) buf"
  have room: "offset + encodedBytes x \<le> length buf" using Cons.prems(2) by simp
  have "encode_entries (x # xs) offset buf = encode_entries xs (offset + encodedBytes x) ?b"
    using Cons.prems(1) room
    by (simp add: Let_def fits_def writeUIntBE_overlay copy_into_overlay overlay_overlay encodedBytes_def
        ENTRY_HEADER_BYTES_def entry_def add.assoc)
  also have "\<dots> = Inr (take (offset + encodedBytes x) ?b @ concat (map entry xs))"
    using Cons.prems room by (intro Cons.IH) auto
  also have "take (offset + encodedBytes x) ?b = take offset buf @ entry x"
    using room by (simp add: overlay_def)
  finally show ?case by simp
qed simp

text \<open>Reading a list of entries back, and what any accepted list of bytes must be.\<close>

lemma subarray_append [simp]: "i = length a \<Longrightarrow> j = i + length b \<Longrightarrow> subarray (a @ b @ d) i j = b"
  by (simp add: subarray_def)

lemma drop_subarray: "i \<le> j \<Longrightarrow> j \<le> length data \<Longrightarrow> drop i data = subarray data i j @ drop j data"
  by (metis subarray_def append_take_drop_id drop_drop le_add_diff_inverse2)

lemma length_subarray [simp]: "j \<le> length data \<Longrightarrow> length (subarray data i j) = j - i"
  by (simp add: subarray_def)

lemma unpack_entries_concat:
  assumes "list_all (\<lambda>x. fits x \<and> starts_with (ck_id x) ''chnk_'') xs"
  shows "unpack_entries (pre @ concat (map entry xs)) (length pre) = Inr xs"
  using assms
proof (induction xs arbitrary: pre)
  case Nil then show ?case by (simp add: unpack_entries.simps)
next
  case (Cons x xs)
  let ?rest = "concat (map entry xs)" and ?n = "length pre"
  let ?data = "pre @ entry x @ ?rest" and ?l = "length (ck_id x)"
  have IH: "unpack_entries ?data (?n + 6 + ?l + length (ck_data x)) = Inr xs"
    using Cons.IH [of "pre @ entry x"] Cons.prems by (simp add: encodedBytes_def ENTRY_HEADER_BYTES_def add.assoc)
  have parts: "subarray ?data ?n (?n + 2) = be 2 ?l" "subarray ?data (?n + 2) (?n + 6) = be 4 (length (ck_data x))"
    "subarray ?data (?n + 6) (?n + 6 + ?l) = bytes_of (ck_id x)"
    "subarray ?data (?n + 6 + ?l) (?n + 6 + ?l + length (ck_data x)) = ck_data x"
    using subarray_append [of "?n + 2" "pre @ be 2 ?l" "?n + 6" "be 4 (length (ck_data x))"]
      subarray_append [of "?n + 6" "pre @ be 2 ?l @ be 4 (length (ck_data x))" "?n + 6 + ?l" "bytes_of (ck_id x)"]
      subarray_append [of "?n + 6 + ?l" "pre @ be 2 ?l @ be 4 (length (ck_data x)) @ bytes_of (ck_id x)"
        "?n + 6 + ?l + length (ck_data x)" "ck_data x"]
    by (simp_all add: entry_def)
  have "unpack_entries ?data ?n = Inr (x # xs)"
    using Cons.prems IH
    by (subst unpack_entries.simps)
      (simp add: parts ENTRY_HEADER_BYTES_def encodedBytes_def fits_def Let_def del: add_2_eq_Suc add_2_eq_Suc')
  then show ?case by simp
qed

lemma unpack_entries_sound:
  assumes "unpack_entries data offset = Inr xs" and "offset \<le> length data"
  shows "drop offset data = concat (map entry xs)"
  using assms
proof (induction "length data - offset" arbitrary: offset xs rule: less_induct)
  case less
  show ?case
  proof (cases "offset < length data")
    case False
    with less show ?thesis by (simp add: unpack_entries.simps)
  next
    case True
    define l where "l = readUIntBE (subarray data offset (offset + 2))"
    define m where "m = readUIntBE (subarray data (offset + 2) (offset + 6))"
    define stop where "stop = offset + 6 + l + m"
    from less(2) True obtain ys where ys: "unpack_entries data stop = Inr ys" "stop \<le> length data"
      "xs = \<lparr>ck_id = text_of (subarray data (offset + 6) (offset + 6 + l)),
             ck_data = subarray data (offset + 6 + l) stop\<rparr> # ys"
      by (subst (asm) unpack_entries.simps) (auto simp: ENTRY_HEADER_BYTES_def Let_def l_def m_def stop_def split: if_splits)
    have room: "\<not> length data - offset < 6" "offset + 6 \<le> length data" using ys(2) by (simp_all add: stop_def)
    have IH: "drop stop data = concat (map entry ys)"
      using True ys by (intro less(1)) (auto simp: stop_def)
    have "length (subarray data offset (offset + 2)) = 2" "length (subarray data (offset + 2) (offset + 6)) = 4"
      using room by simp_all
    then have "subarray data offset (offset + 2) = be 2 l" "subarray data (offset + 2) (offset + 6) = be 4 m"
      unfolding l_def m_def by (metis be_readUIntBE)+
    moreover have "length (subarray data (offset + 6) (offset + 6 + l)) = l" "length (subarray data (offset + 6 + l) stop) = m"
      using ys(2) by (simp_all add: stop_def)
    moreover have "length (text_of bs) = length bs" for bs by (simp add: text_of_def)
    moreover have "drop offset data = subarray data offset (offset + 2) @ subarray data (offset + 2) (offset + 6) @
        subarray data (offset + 6) (offset + 6 + l) @ subarray data (offset + 6 + l) stop @ drop stop data"
      using ys(2) drop_subarray [of offset "offset + 2" data] drop_subarray [of "offset + 2" "offset + 6" data]
        drop_subarray [of "offset + 6" "offset + 6 + l" data] drop_subarray [of "offset + 6 + l" stop data]
      by (simp add: stop_def)
    ultimately show ?thesis using IH ys(3) by (simp add: entry_def)
  qed
qed

section \<open>Blocks\<close>

definition bytes_in :: "logical_chunk list \<Rightarrow> nat" where
  "bytes_in xs = sum_list (map encodedBytes xs)"

lemma bytes_in_simps [simp]: "bytes_in [] = 0" "bytes_in (x # xs) = encodedBytes x + bytes_in xs"
  "bytes_in (xs @ ys) = bytes_in xs + bytes_in ys"
  by (simp_all add: bytes_in_def)

lemma length_entries: "length (concat (map entry xs)) = bytes_in xs"
  by (induction xs) simp_all

definition block_of :: "logical_chunk list \<Rightarrow> packed_block" where
  "block_of g = \<lparr>pb_firstChunkId = ck_id (hd g), pb_lastChunkId = ck_id (last g), pb_chunkCount = length g,
     pb_codecVersion = PACKED_STREAM_CODEC_VERSION, pb_data = concat (map entry g)\<rparr>"

text \<open>A group of chunks within the limits; a chunk over the byte limit is a group of its own.\<close>

definition within :: "int \<Rightarrow> int \<Rightarrow> logical_chunk list \<Rightarrow> bool" where
  "within mc mb g \<longleftrightarrow> g \<noteq> [] \<and> int (length g) \<le> mc \<and> (int (bytes_in g) \<le> mb \<or> length g = 1)"

lemma encodeBlock_eq:
  assumes "list_all fits g" and "length (alloc (bytes_in g)) = bytes_in g"
  shows "encodeBlock alloc g (bytes_in g) = Inr (block_of g)"
  using encode_entries_concat [OF assms(1), of "alloc (bytes_in g)" 0] assms(2)
  by (simp add: encodeBlock_def block_of_def bytes_in_def)

lemma flush_eq:
  assumes "list_all fits g" and "\<And>n. length (alloc n) = n"
  shows "flush alloc g (bytes_in g) = Inr (map block_of (if g = [] then [] else [g]))"
  using assms by (simp add: flush_def encodeBlock_eq)

lemma pack_loop_groups:
  assumes "\<And>n. length (alloc n) = n" and "0 < mc"
    and "list_all fits (pending @ xs)" and "pending \<noteq> [] \<longrightarrow> within mc mb pending"
  shows "\<exists>gs. pack_loop alloc mc mb xs pending (bytes_in pending) = Inr (map block_of gs) \<and>
    concat gs = pending @ xs \<and> list_all (within mc mb) gs"
  using assms(3,4)
proof (induction xs arbitrary: pending)
  case Nil
  with assms(1) show ?case by (auto simp: flush_eq intro: exI [of _ "if pending = [] then [] else [pending]"])
next
  case (Cons x xs)
  have short: "length (bytes_of (ck_id x)) \<le> 0xffff" using Cons.prems(1) by (simp add: fits_def)
  have single: "within mc mb [x]" using assms(2) by (simp add: within_def)
  show ?case
  proof (cases "pending \<noteq> [] \<and> (mc \<le> int (length pending) \<or> mb < int (bytes_in pending + encodedBytes x))")
    case True
    obtain gs where gs: "pack_loop alloc mc mb xs [x] (encodedBytes x) = Inr (map block_of gs)"
      "concat gs = x # xs" "list_all (within mc mb) gs"
      using Cons.IH [of "[x]"] Cons.prems(1) single by auto
    then show ?thesis
      using True short Cons.prems assms(1)
      by (intro exI [of _ "pending # gs"]) (simp add: flush_eq)
  next
    case False
    then have "within mc mb (pending @ [x])"
      using Cons.prems(2) single by (cases "pending = []") (auto simp: within_def)
    then show ?thesis
      using Cons.IH [of "pending @ [x]"] Cons.prems(1) short False by auto
  qed
qed

text \<open>Only chunks that fit are packed: the header writes raise on any other.\<close>

lemma encode_entries_fits: "encode_entries xs offset buf = Inr b \<Longrightarrow> list_all fits xs"
  by (induction xs arbitrary: offset buf) (auto simp: Let_def writeUIntBE_def fits_def split: if_splits)

lemma pack_loop_fits: "pack_loop alloc mc mb xs pending n = Inr bs \<Longrightarrow> list_all fits (pending @ xs)"
proof (induction xs arbitrary: pending n bs)
  case Nil
  then show ?case by (auto simp: flush_def encodeBlock_def split: if_splits dest: encode_entries_fits)
next
  case (Cons x xs)
  from Cons.prems consider
    (Flush) ds blocks where "flush alloc pending n = Inr ds" "pending \<noteq> []"
      "pack_loop alloc mc mb xs [x] (encodedBytes x) = Inr blocks"
  | (Add) "pack_loop alloc mc mb xs (pending @ [x]) (n + encodedBytes x) = Inr bs"
    by (auto split: if_splits)
  then show ?case
  proof cases
    case Flush
    then have "list_all fits pending" by (auto simp: flush_def encodeBlock_def dest: encode_entries_fits)
    with Cons.IH [OF Flush(3)] show ?thesis by simp
  next
    case Add
    with Cons.IH [OF Add] show ?thesis by simp
  qed
qed

section \<open>Round trip, limits and what is accepted\<close>

text \<open>The row \<open>writeMulti\<close> stores for a block, and \<open>rows.flatMap(unpackStreamRow)\<close>.\<close>

definition block_row :: "packed_block \<Rightarrow> physical_row" where
  "block_row b = \<lparr>pr_chunkId = pb_firstChunkId b, pr_lastChunkId = Some (pb_lastChunkId b),
     pr_chunkCount = Some (int (pb_chunkCount b)), pr_codecVersion = Some (pb_codecVersion b),
     pr_data = pb_data b, pr_eof = False\<rparr>"

fun unpack_rows :: "physical_row list \<Rightarrow> block_error + logical_chunk list" where
  "unpack_rows [] = Inr []"
| "unpack_rows (row # rows) = bindE (unpackStreamRow row) (\<lambda>xs. bindE (unpack_rows rows) (\<lambda>ys. Inr (xs @ ys)))"

definition packable :: "logical_chunk \<Rightarrow> bool" where
  "packable x \<longleftrightarrow> fits x \<and> starts_with (ck_id x) ''chnk_''"

lemma unpack_block:
  assumes "list_all packable g" and "g \<noteq> []" and "int (length g) \<le> 2 ^ 53 - 1"
  shows "unpackStreamRow (block_row (block_of g)) = Inr g"
proof -
  have "unpack_entries (concat (map entry g)) 0 = Inr g"
    using unpack_entries_concat [of g "[]"] assms(1) by (simp add: packable_def [abs_def])
  then show ?thesis
    using assms(2,3) by (simp add: unpackStreamRow_def block_row_def block_of_def positive_safe_def PACKED_STREAM_CODEC_VERSION_def)
qed

lemma unpack_blocks:
  assumes "list_all packable (concat gs)" and "list_all (\<lambda>g. g \<noteq> [] \<and> int (length g) \<le> 2 ^ 53 - 1) gs"
  shows "unpack_rows (map (\<lambda>g. block_row (block_of g)) gs) = Inr (concat gs)"
  using assms by (induction gs) (simp_all add: unpack_block)

text \<open>
  C12. Packing is lossless: chunks with well-formed ids and lengths that fit the header are
  packed into blocks under any positive limits, and unpacking the stored rows one after the
  other gives back exactly the chunks, whatever the allocated buffers held before.
\<close>

theorem pack_unpack:
  assumes "\<And>n. length (allocUnsafe n) = n" and "list_all packable chunks"
    and "positive_safe mc" and "positive_safe mb"
  shows "\<exists>blocks. packStreamChunks allocUnsafe chunks (Some mc) (Some mb) = Inr blocks \<and>
    unpack_rows (map block_row blocks) = Inr chunks"
proof -
  have "list_all fits chunks" using assms(2) by (simp add: list_all_iff packable_def)
  then obtain gs where gs: "pack_loop allocUnsafe mc mb chunks [] 0 = Inr (map block_of gs)"
    "concat gs = chunks" "list_all (within mc mb) gs"
    using pack_loop_groups [of allocUnsafe mc "[]" chunks mb] assms by (auto simp: positive_safe_def)
  have "list_all (\<lambda>g. g \<noteq> [] \<and> int (length g) \<le> 2 ^ 53 - 1) gs"
    using gs(3) assms(3) by (auto simp: list_all_iff within_def positive_safe_def)
  with unpack_blocks [of gs] gs assms show ?thesis by (auto simp: packStreamChunks_def o_def)
qed

text \<open>
  Every block holds at least one chunk and at most \<open>maxChunks\<close>, and at most \<open>maxBytes\<close>
  encoded bytes unless it is a single chunk that is larger by itself.
\<close>

theorem pack_limits:
  assumes "\<And>n. length (allocUnsafe n) = n"
    and "packStreamChunks allocUnsafe chunks (Some mc) (Some mb) = Inr blocks" and "b \<in> set blocks"
  shows "1 \<le> pb_chunkCount b \<and> int (pb_chunkCount b) \<le> mc \<and>
    (int (length (pb_data b)) \<le> mb \<or> pb_chunkCount b = 1)"
proof -
  from assms(2) have "0 < mc" and loop: "pack_loop allocUnsafe mc mb chunks [] 0 = Inr blocks"
    by (auto simp: packStreamChunks_def positive_safe_def split: if_splits)
  moreover have "list_all fits ([] @ chunks)" by (rule pack_loop_fits [OF loop])
  ultimately obtain gs where "blocks = map block_of gs" "list_all (within mc mb) gs"
    using pack_loop_groups [of allocUnsafe mc "[]" chunks mb] assms(1) by auto
  with assms(3) show ?thesis
    by (auto simp: list_all_iff block_of_def within_def length_entries Suc_le_eq)
qed

text \<open>
  A packed row is accepted only if it is exactly the encoding of the chunks it is read as,
  in number and bytes, with its first and last id in the row's columns: truncated, padded or
  relabelled blocks are refused.
\<close>

theorem unpack_accepts_only_blocks:
  assumes "unpackStreamRow row = Inr chunks" and "pr_codecVersion row = Some PACKED_STREAM_CODEC_VERSION"
    and "\<not> pr_eof row"
  shows "row = block_row (block_of chunks) \<and> chunks \<noteq> []"
proof -
  from assms obtain count where c: "pr_chunkCount row = Some count" "count = int (length chunks)"
    "unpack_entries (pr_data row) 0 = Inr chunks" "chunks \<noteq> []" "pr_chunkId row = ck_id (hd chunks)"
    "pr_lastChunkId row = Some (ck_id (last chunks))"
    by (auto simp: unpackStreamRow_def PACKED_STREAM_CODEC_VERSION_def split: option.splits if_splits)
  have "pr_data row = concat (map entry chunks)" using unpack_entries_sound [OF c(3)] by simp
  with c assms(2,3) show ?thesis
    by (auto simp: block_row_def block_of_def intro!: physical_row.equality)
qed

section \<open>Examples\<close>

definition example_chunks :: "logical_chunk list" where
  "example_chunks = [\<lparr>ck_id = ''chnk_1'', ck_data = [1, 2]\<rparr>, \<lparr>ck_id = ''chnk_2'', ck_data = []\<rparr>]"

definition zeros :: "nat \<Rightarrow> byte list" where
  "zeros n = replicate n 0"

lemma example_packable: "list_all packable example_chunks" "length (zeros n) = n"
  "positive_safe 1" "positive_safe 64"
  by (simp_all add: example_chunks_def packable_def fits_def starts_with_def zeros_def positive_safe_def)

theorem pack_unpack_witness:
  "\<exists>blocks. packStreamChunks zeros example_chunks (Some 1) (Some 64) = Inr blocks \<and>
     unpack_rows (map block_row blocks) = Inr example_chunks"
  using pack_unpack [OF example_packable(2,1,3,4)] .

lemma example_packed: "packStreamChunks zeros example_chunks (Some 64) (Some 64) = Inr [block_of example_chunks]"
proof -
  have "pack_loop zeros 64 64 example_chunks [] 0 = flush zeros example_chunks (bytes_in example_chunks)"
    by (simp add: example_chunks_def encodedBytes_def ENTRY_HEADER_BYTES_def)
  also have "\<dots> = Inr [block_of example_chunks]"
    by (subst flush_eq) (simp_all add: example_packable example_chunks_def fits_def)
  finally show ?thesis by (simp add: packStreamChunks_def example_packable)
qed

theorem pack_limits_witness:
  "pb_chunkCount (block_of example_chunks) \<le> 64 \<and> length (pb_data (block_of example_chunks)) \<le> 64"
  using pack_limits [OF example_packable(2) example_packed, of "block_of example_chunks"]
  by (simp add: block_of_def) (simp add: example_chunks_def)

theorem unpack_accepts_only_blocks_witness:
  "pr_data (block_row (block_of example_chunks)) = concat (map entry example_chunks) \<and>
   pr_lastChunkId (block_row (block_of example_chunks)) = Some ''chnk_2''"
proof -
  have "block_row (block_of example_chunks) = block_row (block_of example_chunks) \<and> example_chunks \<noteq> []"
    by (rule unpack_accepts_only_blocks [OF unpack_block [OF example_packable(1)]])
      (simp_all add: example_chunks_def block_row_def block_of_def)
  then show ?thesis by (simp add: block_row_def block_of_def) (simp add: example_chunks_def)
qed

end
