(* ===== verification/Store.thy ===== *)
theory Store
  imports Create Stream_Blocks
begin

text \<open>
  The database as the stream and maintenance components see it: the tables of \<open>events.create\<close>
  with the stream tables of \<open>src/drizzle/schema.ts\<close>, the deadline columns of the runs table,
  the advisory locks held, and the notifications sent.
\<close>

record chunk_row =
  k_tenantId :: tenant_id
  k_streamId :: string
  k_runId :: "run_id option"
  k_chunkId :: string
  k_data :: "byte list"
  k_createdAt :: timestamp
  k_eof :: bool
  k_codecVersion :: "int option"
  k_chunkCount :: "int option"
  k_lastChunkId :: "string option"

text \<open>A legacy checkpoint: the columns any code still reads.\<close>

record checkpoint_row =
  cp_tenantId :: tenant_id
  cp_streamId :: string
  cp_runId :: "run_id option"

text \<open>
  \<open>deadline_columns\<close> holds \<open>compact_after\<close>, \<open>expire_after\<close> and \<open>detail_expire_after\<close> of a run
  by its key. A notification is its channel, stream and chunk id.
\<close>

record store = st +
  streams :: "chunk_row list"
  checkpoints :: "checkpoint_row list"
  deadline_columns :: "((tenant_id \<times> run_id) \<times> deadlines) list"
  locks :: "int list"
  notifications :: "(string \<times> string \<times> string) list"

type_synonym 'a sio = "(store, error, 'a) prog"

definition no_deadlines :: deadlines where
  "no_deadlines = \<lparr>compactAfter = None, expireAfter = None, detailExpireAfter = None\<rparr>"

definition deadlines_of :: "store \<Rightarrow> run_row \<Rightarrow> deadlines" where
  "deadlines_of s x = (case map_of (deadline_columns s) (r_tenantId x, r_runId x) of
     Some d \<Rightarrow> d | None \<Rightarrow> no_deadlines)"

section \<open>The deadline trigger\<close>

text \<open>
  \<open>workflow.set_run_retention_deadlines\<close> of \<open>migrations/0012_run_retention_lineage.sql\<close>, run
  before every insert of a run and update of its status, completion time or class. The status
  and class are the row's new ones; \<open>updated_at\<close> is never NULL.
\<close>

definition run_ended :: "run_row \<Rightarrow> bool" where
  "run_ended x \<longleftrightarrow> r_status x \<in> {Run_completed_st, Run_failed_st, Run_cancelled_st}"

definition ended_at :: "run_row \<Rightarrow> timestamp" where
  "ended_at x = (case r_completedAt x of Some t \<Rightarrow> t | None \<Rightarrow> r_updatedAt x)"

definition set_run_retention_deadlines :: "run_row \<Rightarrow> deadlines" where
  "set_run_retention_deadlines x =
     (if \<not> run_ended x then no_deadlines
      else let terminal_at = ended_at x; minutes = (\<lambda>n. n * 60000); hours = (\<lambda>n. n * 3600000);
               days = (\<lambda>n. n * 86400000) in
        if r_retentionClass x = Scheduled then
          (if r_status x = Run_completed_st then
             \<lparr>compactAfter = Some (terminal_at + minutes 1), expireAfter = Some (terminal_at + minutes 15),
              detailExpireAfter = Some (terminal_at + hours 24)\<rparr>
           else if r_status x = Run_failed_st then
             \<lparr>compactAfter = Some (terminal_at + minutes 1), expireAfter = Some (terminal_at + hours 1),
              detailExpireAfter = Some (terminal_at + days 7)\<rparr>
           else
             \<lparr>compactAfter = Some (terminal_at + minutes 1), expireAfter = Some (terminal_at + hours 1),
              detailExpireAfter = Some (terminal_at + days 3)\<rparr>)
        else if r_retentionClass x = Interactive then
          \<lparr>compactAfter = Some (terminal_at + minutes 5), expireAfter = Some (terminal_at + hours 24),
           detailExpireAfter = Some (terminal_at + days 30)\<rparr>
        else no_deadlines)"

fun terminal_status_of :: "run_status \<Rightarrow> terminal_status option" where
  "terminal_status_of Run_completed_st = Some Terminal_completed"
| "terminal_status_of Run_failed_st = Some Terminal_failed"
| "terminal_status_of Run_cancelled_st = Some Terminal_cancelled"
| "terminal_status_of _ = None"

text \<open>
  The database trigger and the TypeScript policy give a run the same deadlines; a run that
  has not ended has none.
\<close>

theorem trigger_agrees_with_policy:
  "set_run_retention_deadlines x = (case terminal_status_of (r_status x) of
     Some k \<Rightarrow> retentionDeadlines (r_retentionClass x) k (ended_at x) | None \<Rightarrow> no_deadlines)"
  by (cases "r_status x"; cases "r_retentionClass x")
    (simp_all add: set_run_retention_deadlines_def retentionDeadlines_def run_ended_def no_deadlines_def
      MINUTE_MS_def DAY_MS_def Let_def)

section \<open>Locks and inserts\<close>

text \<open>\<open>select pg_try_advisory_lock(key)\<close> and \<open>pg_advisory_unlock(key)\<close>.\<close>

definition try_lock :: "int \<Rightarrow> store \<Rightarrow> bool \<times> store" where
  "try_lock key s = (if key \<in> set (locks s) then (False, s) else (True, s\<lparr>locks := key # locks s\<rparr>))"

definition unlock :: "int \<Rightarrow> store \<Rightarrow> store" where
  "unlock key s = s\<lparr>locks := remove1 key (locks s)\<rparr>"

text \<open>\<open>try { ... } finally { ... }\<close> around a body that may throw.\<close>

definition finallyP :: "('s, 'e, 'a) prog \<Rightarrow> ('s, 'e, unit) prog \<Rightarrow> ('s, 'e, 'a) prog" where
  "finallyP p q = bindP (catchP (bindP p (\<lambda>a. Ret (Inr a))) (\<lambda>e. Ret (Inl e)))
     (\<lambda>x. bindP q (\<lambda>_. case x of Inl e \<Rightarrow> Throw e | Inr a \<Rightarrow> Ret a))"

lemma run_finallyP [run_simps]:
  "run (finallyP p q) s = (case run p s of (x, s') \<Rightarrow>
     (case run q s' of (Inl e, s'') \<Rightarrow> (Inl e, s'') | (Inr _, s'') \<Rightarrow> (x, s'')))"
  by (auto simp: finallyP_def run_simps split: prod.split sum.split)

definition chunk_key :: "chunk_row \<Rightarrow> tenant_id \<times> string \<times> string" where
  "chunk_key k = (k_tenantId k, k_streamId k, k_chunkId k)"

text \<open>One \<open>INSERT\<close> of several rows: all of them, or the unique violation of the primary key.\<close>

definition insert_chunks :: "chunk_row list \<Rightarrow> store \<Rightarrow> (error + unit) \<times> store" where
  "insert_chunks new s =
     (if distinct (map chunk_key new) \<and> set (map chunk_key new) \<inter> set (map chunk_key (streams s)) = {}
      then (Inr (), s\<lparr>streams := streams s @ new\<rparr>)
      else (Inl (PgError ''23505'' ''workflow_stream_chunks_pkey''), s))"

definition physical :: "chunk_row \<Rightarrow> physical_row" where
  "physical k = \<lparr>pr_chunkId = k_chunkId k, pr_lastChunkId = k_lastChunkId k, pr_chunkCount = k_chunkCount k,
     pr_codecVersion = k_codecVersion k, pr_data = k_data k, pr_eof = k_eof k\<rparr>"

fun block_exception :: "block_error \<Rightarrow> error" where
  "block_exception Chunk_id_too_long = TypeError"
| "block_exception Not_positive = TypeError"
| "block_exception Unsupported_codec = PlainError"
| "block_exception Malformed_block = PlainError"
| "block_exception Out_of_range = RangeError"

definition liftE :: "block_error + 'a \<Rightarrow> 'a sio" where
  "liftE x = (case x of Inl e \<Rightarrow> Throw (block_exception e) | Inr a \<Rightarrow> Ret a)"

lemma run_liftE [run_simps]:
  "run (liftE x) s = (case x of Inl e \<Rightarrow> (Inl (block_exception e), s) | Inr a \<Rightarrow> (Inr a, s))"
  by (simp add: liftE_def split: sum.split)

end
