(* ===== verification/Paging.thy ===== *)
theory Paging
  imports Prelude
begin

text \<open>
  Reading a list page by page. A page is asked for with a cursor, and answers with some items
  and the next cursor, or none at the end. The locale \<open>paged\<close> is the contract of a listing
  operation (a cursor names a position; a page is the next \<open>limit\<close> items from there); a client
  that follows the cursors then reads the whole list, in order, without gap or repetition, and
  stops.
\<close>

fun read_pages :: "('c option \<Rightarrow> 'a list \<times> 'c option) \<Rightarrow> nat \<Rightarrow> 'c option \<Rightarrow> 'a list option" where
  "read_pages page 0 c = None"
| "read_pages page (Suc n) c =
     (case page c of (xs, None) \<Rightarrow> Some xs
      | (xs, Some c') \<Rightarrow> map_option (\<lambda>ys. xs @ ys) (read_pages page n (Some c')))"

locale paged =
  fixes ok :: "'s \<Rightarrow> bool" and page :: "'s \<Rightarrow> 'c option \<Rightarrow> 'a list \<times> 'c option" and items :: "'s \<Rightarrow> 'a list"
    and at :: "'s \<Rightarrow> nat \<Rightarrow> 'c option" and limit :: "'s \<Rightarrow> nat"
  assumes limit_pos: "ok s \<Longrightarrow> 0 < limit s"
    and at_start: "ok s \<Longrightarrow> at s 0 = None"
    and at_later: "ok s \<Longrightarrow> 0 < k \<Longrightarrow> k < length (items s) \<Longrightarrow> at s k \<noteq> None"
    and page_at: "ok s \<Longrightarrow> k \<le> length (items s) \<Longrightarrow> page s (at s k) = (take (limit s) (drop k (items s)),
      if k + limit s < length (items s) then at s (k + limit s) else None)"
begin

lemma read_from:
  assumes "ok s"
  shows "k \<le> length (items s) \<Longrightarrow> length (items s) < k + n * limit s \<Longrightarrow>
     read_pages (page s) n (at s k) = Some (drop k (items s))"
proof (induction n arbitrary: k)
  case 0
  then show ?case by simp
next
  case (Suc n)
  show ?case
  proof (cases "k + limit s < length (items s)")
    case True
    then obtain c where c: "at s (k + limit s) = Some c"
      using at_later [OF assms, of "k + limit s"] limit_pos [OF assms] by auto
    have "read_pages (page s) n (at s (k + limit s)) = Some (drop (k + limit s) (items s))"
      using Suc.prems True by (intro Suc.IH) (auto simp: algebra_simps)
    with c True page_at [OF assms Suc.prems(1)] show ?thesis
      by simp (metis append_take_drop_id drop_drop add.commute)
  next
    case False
    with page_at [OF assms Suc.prems(1)] show ?thesis by simp
  qed
qed

lemma read_all:
  assumes "ok s"
  shows "read_pages (page s) (Suc (length (items s) div limit s)) None = Some (items s)"
proof -
  have "length (items s) < Suc (length (items s) div limit s) * limit s"
    using limit_pos [OF assms] by (metis div_less_iff_less_mult lessI)
  then show ?thesis
    using read_from [OF assms, of 0 "Suc (length (items s) div limit s)"]
    by (simp del: read_pages.simps add: at_start [OF assms])
qed

end

end
