(* ===== verification/Streamer.thy ===== *)
theory Streamer
  imports Store Paging
begin

text \<open>
  The stream operations of \<open>src/streamer.ts\<close> (\<open>createStreamer\<close>): writing chunks one by one or
  packed, closing, reading page by page, counting, and the live reader.

  \<open>compact\<close> is the closure of the same name, the identity or \<open>compactStreamChunk\<close>; the ids a
  call takes from the monotonic ULID factory are arguments, and so is the channel
  (\<open>tenantStreamChannel\<close>). A cursor is the object \<open>{c, i}\<close> inside the base64 JSON text; a text
  that does not decode is the cursor without either field.
\<close>

section \<open>Writing\<close>

definition chunk_values ::
  "tenant_id \<Rightarrow> run_id \<Rightarrow> string \<Rightarrow> string \<Rightarrow> byte list \<Rightarrow> bool \<Rightarrow> int option \<Rightarrow> int option \<Rightarrow> string option \<Rightarrow>
   store \<Rightarrow> chunk_row" where
  "chunk_values t r name i data eof codec count lst s =
     \<lparr>k_tenantId = t, k_streamId = name, k_runId = Some r, k_chunkId = i, k_data = data, k_createdAt = db_now s,
      k_eof = eof, k_codecVersion = codec, k_chunkCount = count, k_lastChunkId = lst\<rparr>"

definition notifyStream :: "string \<Rightarrow> string \<Rightarrow> string \<Rightarrow> unit sio" where
  "notifyStream channel name i = exec (\<lambda>s. s\<lparr>notifications := notifications s @ [(channel, name, i)]\<rparr>)"

definition stream_write ::
  "string \<Rightarrow> (byte list \<Rightarrow> byte list) \<Rightarrow> tenant_id \<Rightarrow> run_id \<Rightarrow> string \<Rightarrow> string \<Rightarrow> byte list \<Rightarrow> unit sio" where
  "stream_write channel compact t r name chunkId chunk =
     bindP (stmtE (\<lambda>s. insert_chunks
        [chunk_values t r name chunkId (compact chunk) False (Some 1) (Some 1) (Some chunkId) s] s)) (\<lambda>_.
       notifyStream channel name chunkId)"

definition writeMulti ::
  "(nat \<Rightarrow> byte list) \<Rightarrow> string \<Rightarrow> (byte list \<Rightarrow> byte list) \<Rightarrow> tenant_id \<Rightarrow> run_id \<Rightarrow> string \<Rightarrow> string list \<Rightarrow>
   byte list list \<Rightarrow> unit sio" where
  "writeMulti allocUnsafe channel compact t r name chunkIds chunks =
     (if chunks = [] then Ret ()
      else bindP (liftE (packStreamChunks allocUnsafe
             (map (\<lambda>(i, chunk). \<lparr>ck_id = i, ck_data = compact chunk\<rparr>) (zip chunkIds chunks)) None None)) (\<lambda>blocks.
        bindP (stmtE (\<lambda>s. insert_chunks (map (\<lambda>b. chunk_values t r name (pb_firstChunkId b) (pb_data b) False
            (Some (pb_codecVersion b)) (Some (int (pb_chunkCount b))) (Some (pb_lastChunkId b)) s) blocks) s)) (\<lambda>_.
        bindP (mapM (\<lambda>b. notifyStream channel name (pb_firstChunkId b)) blocks) (\<lambda>_. Ret ()))))"

definition stream_close :: "string \<Rightarrow> tenant_id \<Rightarrow> run_id \<Rightarrow> string \<Rightarrow> string \<Rightarrow> unit sio" where
  "stream_close channel t r name chunkId =
     bindP (stmtE (\<lambda>s. insert_chunks [chunk_values t r name chunkId [] True None None None s] s)) (\<lambda>_.
       notifyStream channel name chunkId)"

section \<open>Reading\<close>

definition of_stream :: "tenant_id \<Rightarrow> string \<Rightarrow> chunk_row \<Rightarrow> bool" where
  "of_stream t name k \<longleftrightarrow> k_tenantId k = t \<and> k_streamId k = name"

definition by_id :: "chunk_row list \<Rightarrow> chunk_row list" where
  "by_id rows = sort_key k_chunkId rows"

definition first_eof :: "tenant_id \<Rightarrow> string \<Rightarrow> store \<Rightarrow> string option" where
  "first_eof t name s = (case by_id (filter (\<lambda>k. of_stream t name k \<and> k_eof k) (streams s)) of
     [] \<Rightarrow> None | k # _ \<Rightarrow> Some (k_chunkId k))"

definition findFirstEofChunkId :: "tenant_id \<Rightarrow> string \<Rightarrow> string option sio" where
  "findFirstEofChunkId t name = query (first_eof t name)"

text \<open>The data rows ahead of the first EOF, in order.\<close>

definition before_eof :: "string option \<Rightarrow> chunk_row \<Rightarrow> bool" where
  "before_eof eof k \<longleftrightarrow> \<not> k_eof k \<and> (case eof of None \<Rightarrow> True | Some e \<Rightarrow> k_chunkId k < e)"

definition data_rows :: "tenant_id \<Rightarrow> string \<Rightarrow> string option \<Rightarrow> store \<Rightarrow> chunk_row list" where
  "data_rows t name eof s = by_id (filter (\<lambda>k. of_stream t name k \<and> before_eof eof k) (streams s))"

definition last_or_id :: "chunk_row \<Rightarrow> string" where
  "last_or_id k = (case k_lastChunkId k of Some i \<Rightarrow> i | None \<Rightarrow> k_chunkId k)"

record stream_page =
  sp_data :: "(int \<times> byte list) list"
  sp_cursor :: "(string \<times> int) option"
  sp_hasMore :: bool
  sp_done :: bool

text \<open>\<open>cursorChunkId\<close> and \<open>baseIndex\<close> of a cursor's two fields.\<close>

definition cursor_chunk :: "(string option \<times> int option) option \<Rightarrow> string option" where
  "cursor_chunk cur = (case cur of Some (Some i, _) \<Rightarrow> if starts_with i ''chnk_'' then Some i else None | _ \<Rightarrow> None)"

definition cursor_index :: "(string option \<times> int option) option \<Rightarrow> int" where
  "cursor_index cur = (case cur of Some (_, Some n) \<Rightarrow> if 0 \<le> n \<and> n \<le> 2 ^ 53 - 1 then n else 0 | _ \<Rightarrow> 0)"

definition after_cursor :: "string option \<Rightarrow> string \<Rightarrow> bool" where
  "after_cursor cur i \<longleftrightarrow> (case cur of None \<Rightarrow> True | Some x \<Rightarrow> x < i)"

definition getChunks ::
  "tenant_id \<Rightarrow> string \<Rightarrow> nat option \<Rightarrow> (string option \<times> int option) option \<Rightarrow> stream_page sio" where
  "getChunks t name limitOption cursor =
     (let limit = (case limitOption of None \<Rightarrow> 100 | Some n \<Rightarrow> n);
          cursorChunkId = cursor_chunk cursor; baseIndex = cursor_index cursor in
      bindP (findFirstEofChunkId t name) (\<lambda>firstEofChunkId.
      bindP (query (\<lambda>s. take (limit + 1)
          (filter (\<lambda>k. after_cursor cursorChunkId (last_or_id k)) (data_rows t name firstEofChunkId s)))) (\<lambda>rows.
      bindP (liftE (unpack_rows (map physical rows))) (\<lambda>unpacked.
        let logicalRows = filter (\<lambda>x. after_cursor cursorChunkId (ck_id x)) unpacked;
            hasMore = limit < length logicalRows;
            pageRows = take limit logicalRows
        in Ret \<lparr>sp_data = zip [baseIndex..baseIndex + int (length pageRows) - 1] (map ck_data pageRows),
                sp_cursor = (if hasMore \<and> pageRows \<noteq> []
                             then Some (ck_id (last pageRows), baseIndex + int (length pageRows)) else None),
                sp_hasMore = hasMore, sp_done = (firstEofChunkId \<noteq> None)\<rparr>))))"

definition getInfo :: "tenant_id \<Rightarrow> string \<Rightarrow> (int \<times> bool) sio" where
  "getInfo t name =
     bindP (findFirstEofChunkId t name) (\<lambda>firstEofChunkId.
     bindP (query (\<lambda>s. sum_list (map (\<lambda>k. case k_chunkCount k of None \<Rightarrow> 1 | Some n \<Rightarrow> n)
         (data_rows t name firstEofChunkId s)))) (\<lambda>dataCount.
       Ret (dataCount - 1, firstEofChunkId \<noteq> None)))"

definition stream_list :: "tenant_id \<Rightarrow> run_id \<Rightarrow> string list sio" where
  "stream_list t r = query (\<lambda>s. remdups (map k_streamId
     (filter (\<lambda>k. k_tenantId k = t \<and> k_runId k = Some r) (streams s))))"

section \<open>The live reader\<close>

text \<open>
  What the notification handler emits for a payload: the row under the payload's key, chunk by
  chunk. (\<open>listenerCount\<close> only skips this work when nobody listens, and the mutex per stream
  keeps the handlers of one stream in order.)
\<close>

record chunk_event =
  ce_id :: string
  ce_data :: "byte list"
  ce_eof :: bool

definition row_events :: "chunk_row \<Rightarrow> block_error + chunk_event list" where
  "row_events k =
     (if k_eof k then Inr [\<lparr>ce_id = k_chunkId k, ce_data = k_data k, ce_eof = True\<rparr>]
      else bindE (unpackStreamRow (physical k)) (\<lambda>xs.
        Inr (map (\<lambda>x. \<lparr>ce_id = ck_id x, ce_data = ck_data x, ce_eof = False\<rparr>) xs)))"

definition on_notification :: "tenant_id \<Rightarrow> string \<Rightarrow> string \<Rightarrow> chunk_event list sio" where
  "on_notification t name i =
     bindP (query (\<lambda>s. find (\<lambda>k. of_stream t name k \<and> k_chunkId k = i) (streams s))) (\<lambda>value.
       case value of None \<Rightarrow> Ret [] | Some k \<Rightarrow> liftE (row_events k))"

text \<open>
  The variables of \<open>start(controller)\<close> and what the controller was given: the chunks enqueued,
  and \<open>closed\<close> once it was closed.
\<close>

record reader =
  rd_lastChunkId :: string
  rd_offset :: int
  rd_buffer :: "chunk_event list option"
  rd_closed :: bool
  rd_sent :: "byte list list"

definition open_reader :: "int option \<Rightarrow> reader" where
  "open_reader startIndex = \<lparr>rd_lastChunkId = [], rd_offset = (case startIndex of None \<Rightarrow> 0 | Some n \<Rightarrow> n),
     rd_buffer = Some [], rd_closed = False, rd_sent = []\<rparr>"

definition enqueue :: "chunk_event \<Rightarrow> reader \<Rightarrow> reader" where
  "enqueue msg rd =
     (if rd_closed rd \<or> ce_id msg \<le> rd_lastChunkId rd then rd
      else let rd = rd\<lparr>rd_lastChunkId := ce_id msg\<rparr> in
        if ce_eof msg then rd\<lparr>rd_closed := True\<rparr>
        else if 0 < rd_offset rd then rd\<lparr>rd_offset := rd_offset rd - 1\<rparr>
        else if ce_data msg \<noteq> [] then rd\<lparr>rd_sent := rd_sent rd @ [ce_data msg]\<rparr> else rd)"

definition onData :: "chunk_event \<Rightarrow> reader \<Rightarrow> reader" where
  "onData msg rd = (case rd_buffer rd of
     Some b \<Rightarrow> rd\<lparr>rd_buffer := Some (b @ [msg])\<rparr> | None \<Rightarrow> enqueue msg rd)"

text \<open>The rest of \<open>start\<close>, once the select of the stream's rows has returned.\<close>

fun rows_events :: "chunk_row list \<Rightarrow> block_error + chunk_event list" where
  "rows_events [] = Inr []"
| "rows_events (k # ks) = bindE (row_events k) (\<lambda>xs. bindE (rows_events ks) (\<lambda>ys. Inr (xs @ ys)))"

definition negative_offset :: "chunk_event list \<Rightarrow> int \<Rightarrow> int" where
  "negative_offset chunks offset =
     (if offset < 0 then max 0 (int (length (takeWhile (\<lambda>x. \<not> ce_eof x) chunks)) + offset) else offset)"

definition reader_loaded :: "chunk_row list \<Rightarrow> reader \<Rightarrow> block_error + reader" where
  "reader_loaded physicalRows rd =
     bindE (rows_events physicalRows) (\<lambda>chunks.
       let rd = rd\<lparr>rd_offset := negative_offset chunks (rd_offset rd)\<rparr>;
           rd = fold enqueue (chunks @ (case rd_buffer rd of None \<Rightarrow> [] | Some b \<Rightarrow> b)) rd
       in Inr (rd\<lparr>rd_buffer := None\<rparr>))"

definition stream_get :: "tenant_id \<Rightarrow> string \<Rightarrow> reader \<Rightarrow> reader sio" where
  "stream_get t name rd =
     bindP (query (\<lambda>s. by_id (filter (of_stream t name) (streams s)))) (\<lambda>physicalRows. liftE (reader_loaded physicalRows rd))"

end
