(* ===== verification/Stream_Spec.thy ===== *)
theory Stream_Spec
  imports Streamer
begin

text \<open>
  What readers of a stream see. \<open>stream_view\<close> is the abstract stream: its logical chunks ahead of
  the first EOF, whatever rows and blocks hold them. A listing reads it page by page, \<open>getInfo\<close>
  counts it, writes extend it, and \<open>stream_close\<close> ends it.
\<close>

section \<open>The abstract stream\<close>

definition unpacked :: "chunk_row \<Rightarrow> logical_chunk list" where
  "unpacked k = (case unpackStreamRow (physical k) of Inr xs \<Rightarrow> xs | Inl e \<Rightarrow> [])"

definition row_ok :: "chunk_row \<Rightarrow> bool" where
  "row_ok k \<longleftrightarrow> (case unpackStreamRow (physical k) of Inl e \<Rightarrow> False
     | Inr xs \<Rightarrow> xs \<noteq> [] \<and> ck_id (last xs) = last_or_id k \<and> ck_id (hd xs) = k_chunkId k \<and>
         (case k_chunkCount k of None \<Rightarrow> 1 | Some n \<Rightarrow> n) = int (length xs) \<and>
         list_all (\<lambda>x. starts_with (ck_id x) ''chnk_'') xs)"

definition stream_rows :: "tenant_id \<Rightarrow> string \<Rightarrow> store \<Rightarrow> chunk_row list" where
  "stream_rows t name s = data_rows t name (first_eof t name s) s"

definition stream_view :: "tenant_id \<Rightarrow> string \<Rightarrow> store \<Rightarrow> logical_chunk list" where
  "stream_view t name s = concat (map unpacked (stream_rows t name s))"

text \<open>Every row reads, and the ids of the chunks ascend across the rows.\<close>

definition stream_ok :: "tenant_id \<Rightarrow> string \<Rightarrow> store \<Rightarrow> bool" where
  "stream_ok t name s \<longleftrightarrow> list_all row_ok (stream_rows t name s) \<and>
     sorted_wrt (<) (map ck_id (stream_view t name s))"

lemma row_okE:
  assumes "row_ok k"
  obtains xs where "unpackStreamRow (physical k) = Inr xs" "unpacked k = xs" "xs \<noteq> []"
    "ck_id (last xs) = last_or_id k" "ck_id (hd xs) = k_chunkId k"
    "(case k_chunkCount k of None \<Rightarrow> 1 | Some n \<Rightarrow> n) = int (length xs)" 
    "list_all (\<lambda>x. starts_with (ck_id x) ''chnk_'') xs"
  using assms by (auto simp: row_ok_def unpacked_def split: sum.splits)

lemma unpack_rows_ok: "list_all row_ok rows \<Longrightarrow> unpack_rows (map physical rows) = Inr (concat (map unpacked rows))"
  by (induction rows) (auto elim!: row_okE)

section \<open>Pages\<close>

lemma take_concat_nonempty:
  "(\<And>g. g \<in> set gs \<Longrightarrow> f g \<noteq> []) \<Longrightarrow> take n (concat (map f (take n gs))) = take n (concat (map f gs))"
proof (induction gs arbitrary: n)
  case (Cons g gs)
  show ?case
  proof (cases n)
    case (Suc m)
    have "n - length (f g) \<le> m" using Cons.prems [of g] Suc by (cases "f g") auto
    then have "take (n - length (f g)) (concat (map f (take m gs))) = take (n - length (f g)) (concat (map f gs))"
      using Cons.IH [of m] Cons.prems by (metis list.set_intros(2) min.absorb1 take_take)
    then show ?thesis by (simp add: Suc)
  qed simp
qed simp

text \<open>The rows a page selects hold its first chunks after the cursor, and one more if there is one.\<close>

lemma selected_rows:
  assumes "list_all row_ok rows" and "sorted_wrt (<) (map ck_id (concat (map unpacked rows)))"
  shows "take n (filter (\<lambda>x. after_cursor c (ck_id x)) (concat (map unpacked
      (take n (filter (\<lambda>k. after_cursor c (last_or_id k)) rows))))) =
    take n (filter (\<lambda>x. after_cursor c (ck_id x)) (concat (map unpacked rows)))"
proof -
  let ?P = "\<lambda>x. after_cursor c (ck_id x)" and ?Q = "\<lambda>k. after_cursor c (last_or_id k)"
  let ?f = "\<lambda>k. filter ?P (unpacked k)"
  have some: "?f k \<noteq> []" if "k \<in> set (filter ?Q rows)" for k
    using that assms(1) by (auto simp: list_all_iff filter_empty_conv elim!: row_okE intro!: bexI [of _ "last (unpacked k)"])
  have none: "?f k = []" if "k \<in> set rows" "\<not> ?Q k" for k
  proof -
    from that(1) obtain pre post where rows: "rows = pre @ k # post" by (meson split_list)
    have "sorted_wrt (<) (map ck_id (unpacked k))"
      using assms(2) unfolding rows by (simp add: sorted_wrt_append)
    moreover have ne: "unpacked k \<noteq> []" "ck_id (last (unpacked k)) = last_or_id k"
      using assms(1) that(1) by (auto simp: list_all_iff elim: row_okE)
    ultimately have "ck_id x \<le> last_or_id k" if "x \<in> set (unpacked k)" for x
    proof -
      from ne(1) obtain ys z where split: "unpacked k = ys @ [z]" by (metis rev_exhaust)
      with ne(2) have "last_or_id k = ck_id z" by simp
      moreover have "\<forall>y \<in> set ys. ck_id y < ck_id z" "x \<in> set ys \<or> x = z"
        using \<open>sorted_wrt (<) (map ck_id (unpacked k))\<close> that by (auto simp: split sorted_wrt_append)
      ultimately show ?thesis by (auto intro: less_imp_le)
    qed
    with that(2) show ?thesis
      by (auto simp: filter_empty_conv after_cursor_def split: option.splits dest: order.strict_trans2)
  qed
  have keep: "concat (map ?f (filter ?Q rows)) = concat (map ?f rows)"
    using none by (induction rows) auto
  have "take n (concat (map ?f (take n (filter ?Q rows)))) = take n (concat (map ?f (filter ?Q rows)))"
    by (rule take_concat_nonempty [OF some])
  then show ?thesis by (simp only: keep filter_concat map_map o_def)
qed

lemma filter_after_cursor:
  assumes "sorted_wrt (<) (map ck_id xs)" and "0 < k" and "k \<le> length xs"
  shows "filter (\<lambda>x. after_cursor (Some (ck_id (xs ! (k - 1)))) (ck_id x)) xs = drop k xs"
proof -
  have lt: "ck_id (xs ! i) < ck_id (xs ! j)" if "i < j" "j < length xs" for i j
    using sorted_wrt_nth_less [OF assms(1), of i j] that by simp
  have "\<not> ck_id (xs ! (k - 1)) < ck_id (xs ! i)" if "i < k" for i
    using lt [of i "k - 1"] that assms(2,3) by (cases "i = k - 1") (auto dest: order.asym)
  then have "filter (\<lambda>x. ck_id (xs ! (k - 1)) < ck_id x) (take k xs) = []"
    using assms(3) by (auto simp: filter_empty_conv in_set_conv_nth)
  moreover have "filter (\<lambda>x. ck_id (xs ! (k - 1)) < ck_id x) (drop k xs) = drop k xs"
    using assms(2,3) lt by (auto simp: filter_id_conv in_set_conv_nth)
  ultimately show ?thesis
    unfolding after_cursor_def option.case by (metis append_Nil append_take_drop_id filter_append)
qed

definition page_of :: "nat \<Rightarrow> int \<Rightarrow> bool \<Rightarrow> logical_chunk list \<Rightarrow> stream_page" where
  "page_of limit base eof rest =
     \<lparr>sp_data = zip [base..base + int (length (take limit rest)) - 1] (map ck_data (take limit rest)),
      sp_cursor = (if limit < length rest \<and> 0 < limit then Some (ck_id (rest ! (limit - 1)), base + int limit) else None),
      sp_hasMore = (limit < length rest), sp_done = eof\<rparr>"

lemma take_one_more:
  assumes "take (n + 1) xs = take (n + 1) ys"
  shows "take n xs = take n ys" "(n < length xs) = (n < length ys)"
  using arg_cong [OF assms, of "take n"] arg_cong [OF assms, of length] by (simp_all add: min_def split: if_splits)

lemma run_getChunks:
  assumes "stream_ok t name s"
  shows "run (getChunks t name (Some limit) cur) s = (Inr (page_of limit (cursor_index cur) (first_eof t name s \<noteq> None)
    (filter (\<lambda>x. after_cursor (cursor_chunk cur) (ck_id x)) (stream_view t name s))), s)"
proof -
  let ?P = "\<lambda>x. after_cursor (cursor_chunk cur) (ck_id x)"
  let ?rows = "take (limit + 1) (filter (\<lambda>k. after_cursor (cursor_chunk cur) (last_or_id k)) (stream_rows t name s))"
  let ?got = "filter ?P (concat (map unpacked ?rows))" and ?rest = "filter ?P (stream_view t name s)"
  have same: "take (limit + 1) ?got = take (limit + 1) ?rest"
    using selected_rows [of "stream_rows t name s" "limit + 1"] assms by (simp add: stream_ok_def stream_view_def)
  note eq = take_one_more [OF same]
  have rows: "list_all row_ok ?rows"
    using assms by (auto simp: stream_ok_def list_all_iff dest: in_set_takeD)
  have "run (getChunks t name (Some limit) cur) s = (Inr
    \<lparr>sp_data = zip [cursor_index cur..cursor_index cur + int (length (take limit ?got)) - 1] (map ck_data (take limit ?got)),
     sp_cursor = (if limit < length ?got \<and> take limit ?got \<noteq> []
       then Some (ck_id (last (take limit ?got)), cursor_index cur + int (length (take limit ?got))) else None),
     sp_hasMore = (limit < length ?got), sp_done = (first_eof t name s \<noteq> None)\<rparr>, s)"
    unfolding getChunks_def findFirstEofChunkId_def Let_def option.case run_bindP run_query prod.case sum.case
      stream_rows_def [symmetric] run_liftE unpack_rows_ok [OF rows] run.simps ..
  also have "\<dots> = (Inr (page_of limit (cursor_index cur) (first_eof t name s \<noteq> None) ?rest), s)"
    unfolding eq page_of_def by (auto simp: last_conv_nth min_def)
  finally show ?thesis .
qed

definition chunk_page ::
  "tenant_id \<times> string \<times> nat \<times> store \<Rightarrow> (string \<times> int) option \<Rightarrow> (int \<times> byte list) list \<times> (string \<times> int) option" where
  "chunk_page = (\<lambda>(t, name, limit, s) cur.
     case fst (run (getChunks t name (Some limit) (map_option (map_prod Some Some) cur)) s) of
       Inr p \<Rightarrow> (sp_data p, sp_cursor p) | Inl e \<Rightarrow> ([], None))"

definition indexed :: "logical_chunk list \<Rightarrow> (int \<times> byte list) list" where
  "indexed xs = zip [0..int (length xs) - 1] (map ck_data xs)"

definition position :: "logical_chunk list \<Rightarrow> nat \<Rightarrow> (string \<times> int) option" where
  "position xs k = (if k = 0 then None else Some (ck_id (xs ! (k - 1)), int k))"

lemma indexed_part:
  assumes "k \<le> length xs"
  shows "zip [int k..int k + int (length (take n (drop k xs))) - 1] (map ck_data (take n (drop k xs))) =
    take n (drop k (indexed xs))"
  using assms by (intro nth_equalityI) (auto simp: indexed_def)

text \<open>A position within the safe integers reads back as itself.\<close>

lemma cursor_position:
  assumes "list_all (\<lambda>x. starts_with (ck_id x) ''chnk_'') xs" and "k \<le> length xs" and "int (length xs) \<le> 2 ^ 53 - 1"
  shows "cursor_index (map_option (map_prod Some Some) (position xs k)) = int k"
    "cursor_chunk (map_option (map_prod Some Some) (position xs k)) =
      (if k = 0 then None else Some (ck_id (xs ! (k - 1))))"
  using assms by (auto simp: position_def cursor_index_def cursor_chunk_def list_all_length)

definition listable :: "tenant_id \<times> string \<times> nat \<times> store \<Rightarrow> bool" where
  "listable = (\<lambda>(t, name, limit, s). 0 < limit \<and> stream_ok t name s \<and> int (length (stream_view t name s)) \<le> 2 ^ 53 - 1)"

lemma stream_ok_ids: "stream_ok t name s \<Longrightarrow> list_all (\<lambda>x. starts_with (ck_id x) ''chnk_'') (stream_view t name s)"
  by (auto simp: stream_ok_def stream_view_def list_all_iff elim!: row_okE)

lemma chunk_page_at:
  assumes "listable (t, name, limit, s)" and "k \<le> length (stream_view t name s)"
  shows "chunk_page (t, name, limit, s) (position (stream_view t name s) k) =
    (take limit (drop k (indexed (stream_view t name s))),
     if k + limit < length (stream_view t name s) then position (stream_view t name s) (k + limit) else None)"
proof -
  let ?xs = "stream_view t name s"
  have ok: "stream_ok t name s" "0 < limit" "int (length ?xs) \<le> 2 ^ 53 - 1" using assms(1) by (auto simp: listable_def)
  note cur = cursor_position [OF stream_ok_ids [OF ok(1)] assms(2) ok(3)]
  have "filter (\<lambda>x. after_cursor (if k = 0 then None else Some (ck_id (?xs ! (k - 1)))) (ck_id x)) ?xs = drop k ?xs"
    using filter_after_cursor [of ?xs k] ok(1) assms(2) by (auto simp: stream_ok_def after_cursor_def)
  with run_getChunks [OF ok(1), of limit "map_option (map_prod Some Some) (position ?xs k)"]
  have "run (getChunks t name (Some limit) (map_option (map_prod Some Some) (position ?xs k))) s =
      (Inr (page_of limit (int k) (first_eof t name s \<noteq> None) (drop k ?xs)), s)"
    by (simp add: cur)
  then show ?thesis
    using ok(2) assms(2) indexed_part [OF assms(2), of limit]
    by (auto simp: chunk_page_def page_of_def position_def less_diff_conv add.commute)
qed

lemma length_indexed [simp]: "length (indexed xs) = length xs"
  by (simp add: indexed_def)

interpretation chunk_pages: paged listable chunk_page
    "\<lambda>(t, name, limit, s). indexed (stream_view t name s)"
    "\<lambda>(t, name, limit, s). position (stream_view t name s)" "\<lambda>(t, name, limit, s). limit"
proof (unfold_locales, goal_cases)
  case (4 x k)
  then show ?case by (cases x) (simp add: chunk_page_at)
qed (auto simp: listable_def position_def)

text \<open>
  C13. A reader that follows the cursors of \<open>getChunks\<close> reads every chunk of the stream up to its
  first EOF exactly once and in order, numbered from 0, however the chunks are spread over rows
  and blocks and whatever the page size, and stops after at most \<open>n div limit + 1\<close> pages.
\<close>

theorem chunk_pages_complete:
  assumes "stream_ok t name s" and "0 < limit" and "int (length (stream_view t name s)) \<le> 2 ^ 53 - 1"
  shows "read_pages (chunk_page (t, name, limit, s)) (Suc (length (stream_view t name s) div limit)) None =
    Some (zip [0..int (length (stream_view t name s)) - 1] (map ck_data (stream_view t name s)))"
  using chunk_pages.read_all [of "(t, name, limit, s)"] assms by (simp add: listable_def indexed_def)

lemma run_getInfo:
  assumes "stream_ok t name s"
  shows "run (getInfo t name) s = (Inr (int (length (stream_view t name s)) - 1, first_eof t name s \<noteq> None), s)"
proof -
  have "list_all row_ok rows \<Longrightarrow> sum_list (map (\<lambda>k. case k_chunkCount k of None \<Rightarrow> 1 | Some n \<Rightarrow> n) rows) =
      int (length (concat (map unpacked rows)))" for rows
    by (induction rows) (auto elim!: row_okE)
  with assms show ?thesis
    by (simp add: getInfo_def findFirstEofChunkId_def run_simps stream_ok_def stream_view_def stream_rows_def)
qed

section \<open>Writes extend the stream\<close>

lemma sort_key_append_max:
  assumes "sorted (map f ys)" and "\<forall>x \<in> set xs. \<forall>y \<in> set ys. f x \<le> f y"
  shows "sort_key f (xs @ ys) = sort_key f xs @ ys"
proof -
  have ins: "insort_key f x (zs @ ys) = insort_key f x zs @ ys" if "\<forall>y \<in> set ys. f x \<le> f y" for x zs
    using that by (induction zs) (cases ys; auto)+
  show ?thesis using assms(2) by (induction xs) (simp_all add: ins sort_key_id_if_sorted [OF assms(1)])
qed

lemma row_ids_sorted:
  "list_all row_ok rows \<Longrightarrow> sorted_wrt (<) (map ck_id (concat (map unpacked rows))) \<Longrightarrow>
     sorted_wrt (<) (map k_chunkId rows)"
proof (induction rows)
  case (Cons k rows)
  have "k_chunkId k < k_chunkId q" if "q \<in> set rows" for q
  proof -
    have "row_ok k" "row_ok q" using Cons.prems(1) that by (auto simp: list_all_iff)
    then have "k_chunkId k \<in> ck_id ` set (unpacked k)" "k_chunkId q \<in> ck_id ` set (unpacked q)"
      by (metis row_okE hd_in_set imageI)+
    with Cons.prems(2) that show ?thesis by (auto simp: sorted_wrt_append)
  qed
  with Cons show ?case by (simp add: sorted_wrt_append)
qed simp

lemma open_stream_rows:
  assumes "first_eof t name s = None"
  shows "stream_rows t name s = by_id (filter (of_stream t name) (streams s))"
    "filter (\<lambda>k. of_stream t name k \<and> k_eof k) (streams s) = []"
proof -
  show none: "filter (\<lambda>k. of_stream t name k \<and> k_eof k) (streams s) = []"
    using assms by (auto simp: first_eof_def by_id_def split: list.splits dest: arg_cong [where f = set])
  then have "filter (\<lambda>k. of_stream t name k \<and> before_eof None k) (streams s) = filter (of_stream t name) (streams s)"
    by (intro filter_cong) (auto simp: before_eof_def filter_empty_conv)
  with assms show "stream_rows t name s = by_id (filter (of_stream t name) (streams s))"
    by (simp add: stream_rows_def data_rows_def)
qed

text \<open>New rows of a stream, none of them an EOF, later than everything in the stream.\<close>

lemma append_rows:
  assumes ok: "stream_ok t name s" and open_stream: "first_eof t name s = None"
    and new: "list_all (\<lambda>k. of_stream t name k \<and> \<not> k_eof k \<and> row_ok k) new"
    and ids: "sorted_wrt (<) (map ck_id (stream_view t name s @ concat (map unpacked new)))"
  shows "stream_ok t name (s\<lparr>streams := streams s @ new\<rparr>) \<and>
    stream_view t name (s\<lparr>streams := streams s @ new\<rparr>) = stream_view t name s @ concat (map unpacked new) \<and>
    first_eof t name (s\<lparr>streams := streams s @ new\<rparr>) = None \<and>
    set (map chunk_key new) \<inter> set (map chunk_key (streams s)) = {} \<and> distinct (map chunk_key new)"
proof -
  let ?s = "s\<lparr>streams := streams s @ new\<rparr>"
  note rows = open_stream_rows [OF open_stream]
  have oks: "list_all row_ok (stream_rows t name s @ new)"
    using ok new by (auto simp: stream_ok_def list_all_iff)
  have "sorted_wrt (<) (map k_chunkId (stream_rows t name s @ new))"
    using ids by (intro row_ids_sorted [OF oks]) (simp add: stream_view_def)
  then have less: "\<forall>x \<in> set (filter (of_stream t name) (streams s)). \<forall>y \<in> set new. k_chunkId x < k_chunkId y"
    and sorted: "sorted_wrt (<) (map k_chunkId new)"
    by (auto simp: sorted_wrt_append rows(1) by_id_def)
  have new_of: "filter (of_stream t name) new = new" "filter (\<lambda>k. of_stream t name k \<and> k_eof k) new = []"
    using new by (auto simp: list_all_iff filter_id_conv filter_empty_conv)
  have eof: "first_eof t name ?s = None"
    using rows(2) new_of(2) by (simp add: first_eof_def by_id_def)
  have "stream_rows t name ?s = stream_rows t name s @ new"
    unfolding open_stream_rows(1) [OF eof] rows(1) by_id_def
    using less sorted by (simp add: new_of(1)) (subst sort_key_append_max, auto simp: strict_sorted_iff intro: less_imp_le)
  then have view: "stream_view t name ?s = stream_view t name s @ concat (map unpacked new)"
    and "stream_ok t name ?s"
    using oks ids by (simp_all add: stream_view_def stream_ok_def)
  moreover have "set (map chunk_key new) \<inter> set (map chunk_key (streams s)) = {}"
    using less new by (fastforce simp: chunk_key_def list_all_iff of_stream_def)
  moreover have "distinct (map chunk_key new)"
    using sorted new by (auto simp: chunk_key_def strict_sorted_iff distinct_map inj_on_def)
  ultimately show ?thesis using eof by simp
qed

definition block_values :: "tenant_id \<Rightarrow> run_id \<Rightarrow> string \<Rightarrow> store \<Rightarrow> packed_block \<Rightarrow> chunk_row" where
  "block_values t r name s b = chunk_values t r name (pb_firstChunkId b) (pb_data b) False (Some (pb_codecVersion b))
     (Some (int (pb_chunkCount b))) (Some (pb_lastChunkId b)) s"

lemma block_values_ok:
  assumes "list_all packable g" and "g \<noteq> []" and "int (length g) \<le> 2 ^ 53 - 1"
  shows "unpacked (block_values t r name s (block_of g)) = g" "row_ok (block_values t r name s (block_of g))"
    "of_stream t name (block_values t r name s b)" "\<not> k_eof (block_values t r name s b)"
proof -
  have "physical (block_values t r name s (block_of g)) = block_row (block_of g)"
    by (simp add: physical_def block_values_def chunk_values_def block_row_def)
  with unpack_block [OF assms] show "unpacked (block_values t r name s (block_of g)) = g"
    "row_ok (block_values t r name s (block_of g))"
    using assms by (auto simp: unpacked_def row_ok_def last_or_id_def block_values_def chunk_values_def block_of_def
        packable_def list_all_iff)
qed (simp_all add: block_values_def chunk_values_def of_stream_def)

definition tagged :: "(byte list \<Rightarrow> byte list) \<Rightarrow> string list \<Rightarrow> byte list list \<Rightarrow> logical_chunk list" where
  "tagged compact ids chunks = map (\<lambda>(i, chunk). \<lparr>ck_id = i, ck_data = compact chunk\<rparr>) (zip ids chunks)"

lemma run_notifications:
  "\<exists>s'. run (mapM (\<lambda>b. notifyStream channel name (f b)) bs) s = (Inr (map (\<lambda>_. ()) bs), s') \<and> streams s' = streams s"
proof (induction bs arbitrary: s)
  case (Cons b bs)
  obtain s1 where s1: "run (notifyStream channel name (f b)) s = (Inr (), s1)" "streams s1 = streams s"
    by (simp add: notifyStream_def run_simps)
  from Cons [of s1] s1 show ?case by (auto simp: run_simps)
qed simp

lemma stream_frame:
  assumes "streams s' = streams s"
  shows "stream_ok t name s' = stream_ok t name s" "stream_view t name s' = stream_view t name s"
    "first_eof t name s' = first_eof t name s"
  using assms by (simp_all add: stream_ok_def stream_view_def stream_rows_def data_rows_def first_eof_def)

text \<open>
  C14. \<open>writeMulti\<close> on an open stream, with ids later than the stream's, appends exactly the given
  chunks to what readers see, compacted, in order and under their ids, however they are packed;
  the stream stays well-formed, and \<open>getInfo\<close> counts them.
\<close>

theorem writes_extend_stream:
  assumes "\<And>n. length (allocUnsafe n) = n" and "stream_ok t name s" and "first_eof t name s = None"
    and "chunks \<noteq> []" and "list_all packable (tagged compact ids chunks)"
    and "sorted_wrt (<) (map ck_id (stream_view t name s @ tagged compact ids chunks))"
  shows "\<exists>s'. run (writeMulti allocUnsafe channel compact t r name ids chunks) s = (Inr (), s') \<and>
    stream_view t name s' = stream_view t name s @ tagged compact ids chunks \<and> stream_ok t name s' \<and>
    run (getInfo t name) s' =
      (Inr (int (length (stream_view t name s)) + int (length (tagged compact ids chunks)) - 1, False), s')"
proof -
  let ?new = "tagged compact ids chunks"
  have "list_all fits ?new" using assms(5) by (simp add: list_all_iff packable_def)
  then obtain gs where gs: "pack_loop allocUnsafe DEFAULT_STREAM_BLOCK_CHUNKS DEFAULT_STREAM_BLOCK_BYTES ?new [] 0 =
      Inr (map block_of gs)" "concat gs = ?new" "list_all (within DEFAULT_STREAM_BLOCK_CHUNKS DEFAULT_STREAM_BLOCK_BYTES) gs"
    using pack_loop_groups [of allocUnsafe DEFAULT_STREAM_BLOCK_CHUNKS "[]" ?new] assms(1)
    by (auto simp: DEFAULT_STREAM_BLOCK_CHUNKS_def)
  let ?rows = "map (block_values t r name s) (map block_of gs)"
  have group: "list_all packable g \<and> g \<noteq> [] \<and> int (length g) \<le> 2 ^ 53 - 1" if "g \<in> set gs" for g
    using that gs(2,3) assms(5) by (auto simp: list_all_iff within_def DEFAULT_STREAM_BLOCK_CHUNKS_def simp flip: gs(2))
  have "map unpacked ?rows = gs" using group block_values_ok(1) by (induction gs) auto
  then have new: "concat (map unpacked ?rows) = ?new" by (simp add: gs(2))
  have "list_all (\<lambda>k. of_stream t name k \<and> \<not> k_eof k \<and> row_ok k) ?rows"
    using group block_values_ok(2) by (auto simp: list_all_iff block_values_def chunk_values_def of_stream_def)
  from append_rows [OF assms(2,3) this] assms(6)
  have app: "stream_ok t name (s\<lparr>streams := streams s @ ?rows\<rparr>)"
    "stream_view t name (s\<lparr>streams := streams s @ ?rows\<rparr>) = stream_view t name s @ ?new"
    "first_eof t name (s\<lparr>streams := streams s @ ?rows\<rparr>) = None"
    "insert_chunks ?rows s = (Inr (), s\<lparr>streams := streams s @ ?rows\<rparr>)"
    unfolding new by (simp_all add: insert_chunks_def)
  obtain s' where s': "run (mapM (\<lambda>b. notifyStream channel name (pb_firstChunkId b)) (map block_of gs))
      (s\<lparr>streams := streams s @ ?rows\<rparr>) = (Inr (map (\<lambda>_. ()) (map block_of gs)), s')"
    "streams s' = streams (s\<lparr>streams := streams s @ ?rows\<rparr>)"
    using run_notifications by blast
  have "run (writeMulti allocUnsafe channel compact t r name ids chunks) s = (Inr (), s')"
    using assms(4) gs(1) app(4) s'(1)
    by (simp add: writeMulti_def packStreamChunks_def tagged_def [symmetric] run_simps run_stmtE
        block_values_def [symmetric, abs_def] positive_safe_def DEFAULT_STREAM_BLOCK_CHUNKS_def DEFAULT_STREAM_BLOCK_BYTES_def)
  moreover have "stream_ok t name s'" "stream_view t name s' = stream_view t name s @ ?new" "first_eof t name s' = None"
    using stream_frame [OF s'(2)] app by simp_all
  ultimately show ?thesis using run_getInfo by fastforce
qed

section \<open>The first EOF ends the stream\<close>

lemma sort_key_min_first:
  "\<forall>y \<in> set ys. f x < f y \<Longrightarrow> sort_key f (x # ys) = x # sort_key f ys"
proof -
  have "\<forall>y \<in> set zs. f x < f y \<Longrightarrow> insort_key f x zs = x # zs" for zs by (cases zs) auto
  then show "\<forall>y \<in> set ys. f x < f y \<Longrightarrow> sort_key f (x # ys) = x # sort_key f ys" by simp
qed

lemma row_id_in_view:
  assumes "stream_ok t name s" and "first_eof t name s = None" and "k \<in> set (streams s)" and "of_stream t name k"
  shows "k_chunkId k \<in> ck_id ` set (stream_view t name s)"
proof -
  have "k \<in> set (stream_rows t name s)" using assms(3,4) by (simp add: open_stream_rows(1) [OF assms(2)] by_id_def)
  moreover from this assms(1) have "row_ok k" by (simp add: stream_ok_def list_all_iff)
  then have "hd (unpacked k) \<in> set (unpacked k)" "ck_id (hd (unpacked k)) = k_chunkId k"
    by (auto elim!: row_okE)
  ultimately show ?thesis by (force simp: stream_view_def)
qed

text \<open>
  After \<open>close\<close> the stream is done and holds what it held, and stays so: chunks and further
  EOF rows that a retried or overlapping producer writes under later ids are never seen, neither
  as data nor in the count.
\<close>

theorem close_ends_stream:
  assumes "stream_ok t name s" and "first_eof t name s = None"
    and "\<forall>x \<in> set (stream_view t name s). ck_id x < i"
    and "list_all (\<lambda>k. of_stream t name k \<longrightarrow> i < k_chunkId k) later"
  shows "\<exists>s'. run (stream_close channel t r name i) s = (Inr (), s') \<and>
    (let s'' = s'\<lparr>streams := streams s' @ later\<rparr> in
      stream_view t name s'' = stream_view t name s \<and>
      run (getInfo t name) s'' = (Inr (int (length (stream_view t name s)) - 1, True), s''))"
proof -
  let ?eof = "chunk_values t r name i [] True None None None s"
  let ?rows = "streams s @ [?eof] @ later"
  note rows = open_stream_rows [OF assms(2)]
  have old: "k_chunkId k < i" if "k \<in> set (streams s)" "of_stream t name k" for k
    using row_id_in_view [OF assms(1,2) that] assms(3) by auto
  have eof: "of_stream t name ?eof" "k_eof ?eof" "k_chunkId ?eof = i"
    by (simp_all add: chunk_values_def of_stream_def)
  have later: "\<forall>k \<in> set (filter (\<lambda>k. of_stream t name k \<and> k_eof k) later). k_chunkId ?eof < k_chunkId k"
    using assms(4) eof(3) by (auto simp: list_all_iff)
  have "filter (\<lambda>k. of_stream t name k \<and> k_eof k) ?rows = ?eof # filter (\<lambda>k. of_stream t name k \<and> k_eof k) later"
    using rows(2) eof by simp
  then have first: "first_eof t name s'' = Some i" if "streams s'' = ?rows" for s''
    using sort_key_min_first [OF later] eof(3) by (simp add: that first_eof_def by_id_def del: sort_key_simps)
  have "filter (\<lambda>k. of_stream t name k \<and> before_eof (Some i) k) ?rows = filter (of_stream t name) (streams s)"
  proof -
    have "filter (\<lambda>k. of_stream t name k \<and> before_eof (Some i) k) (streams s) = filter (of_stream t name) (streams s)"
      using old rows(2) by (intro filter_cong) (auto simp: before_eof_def filter_empty_conv)
    moreover have "filter (\<lambda>k. of_stream t name k \<and> before_eof (Some i) k) ([?eof] @ later) = []"
      using assms(4) eof by (auto simp: before_eof_def filter_empty_conv list_all_iff)
    ultimately show ?thesis by simp
  qed
  then have same: "stream_rows t name s'' = stream_rows t name s" if "streams s'' = ?rows" for s''
    by (simp add: that first [OF that] stream_rows_def [of t name s''] data_rows_def rows(1))
  have "chunk_key ?eof \<notin> set (map chunk_key (streams s))"
    using old eof by (auto simp: chunk_key_def of_stream_def)
  then obtain s' where s': "run (stream_close channel t r name i) s = (Inr (), s')" "streams s' = streams s @ [?eof]"
    by (simp add: stream_close_def run_simps run_stmtE insert_chunks_def notifyStream_def)
  let ?s = "s'\<lparr>streams := streams s' @ later\<rparr>"
  have "streams ?s = ?rows" by (simp add: s'(2))
  with same first assms(1) have "stream_view t name ?s = stream_view t name s" "stream_ok t name ?s" "first_eof t name ?s = Some i"
    by (simp_all add: stream_view_def stream_ok_def)
  with s'(1) run_getInfo [of t name ?s] show ?thesis by (auto simp: Let_def)
qed

section \<open>Examples\<close>

definition example_store :: "chunk_row list \<Rightarrow> store" where
  "example_store rows = \<lparr>runs = [], events = [], eventSlots = [], steps = [], hooks = [], waits = [],
     startHookAdmissions = [], db_now = 0, pendingFence = None, graphile_jobs = [], graphile_readable = True,
     streams = rows, checkpoints = [], deadline_columns = [], locks = [], notifications = []\<rparr>"

definition example_chunk :: "string \<Rightarrow> byte list \<Rightarrow> chunk_row" where
  "example_chunk i d = chunk_values ''t'' ''wrun_1'' ''log'' i d False (Some 1) (Some 1) (Some i) (example_store [])"

lemma example_chunk_id [simp]: "k_chunkId (example_chunk i d) = i"
  by (simp add: example_chunk_def chunk_values_def)

lemma example_stream:
  "stream_ok ''t'' ''log'' (example_store [])" "first_eof ''t'' ''log'' (example_store []) = None"
  "stream_view ''t'' ''log'' (example_store []) = []"
  "stream_ok ''t'' ''log'' (example_store [example_chunk ''chnk_1'' [7], example_chunk ''chnk_2'' [8]])"
  "first_eof ''t'' ''log'' (example_store [example_chunk ''chnk_1'' [7], example_chunk ''chnk_2'' [8]]) = None"
  "stream_view ''t'' ''log'' (example_store [example_chunk ''chnk_1'' [7], example_chunk ''chnk_2'' [8]]) =
     [\<lparr>ck_id = ''chnk_1'', ck_data = [7]\<rparr>, \<lparr>ck_id = ''chnk_2'', ck_data = [8]\<rparr>]"
  by (simp_all add: stream_ok_def stream_view_def stream_rows_def data_rows_def first_eof_def by_id_def example_store_def
      example_chunk_def chunk_values_def of_stream_def before_eof_def row_ok_def unpacked_def unpackStreamRow_def
      physical_def last_or_id_def starts_with_def less_char_def)

theorem chunk_pages_complete_witness:
  "read_pages (chunk_page (''t'', ''log'', 1, example_store [example_chunk ''chnk_1'' [7], example_chunk ''chnk_2'' [8]]))
     (Suc (2 div 1)) None = Some [(0, [7]), (1, [8])]"
  using chunk_pages_complete [OF example_stream(4), of 1] by (simp add: example_stream(6) upto.simps numeral_3_eq_3 del: read_pages.simps)

theorem writes_extend_stream_witness:
  "\<exists>s'. run (writeMulti zeros ''ch'' (\<lambda>x. x) ''t'' ''wrun_1'' ''log'' [''chnk_3''] [[9]])
       (example_store [example_chunk ''chnk_1'' [7], example_chunk ''chnk_2'' [8]]) = (Inr (), s') \<and>
     map ck_data (stream_view ''t'' ''log'' s') = [[7], [8], [9]]"
  using writes_extend_stream [OF example_packable(2) example_stream(4,5), of "[[9]]" "\<lambda>x. x" "[''chnk_3'']" "''ch''" "''wrun_1''"]
  by (auto simp: tagged_def packable_def fits_def starts_with_def example_stream(6) less_char_def)

theorem close_ends_stream_witness:
  "\<exists>s'. run (stream_close ''ch'' ''t'' ''wrun_1'' ''log'' ''chnk_3'')
       (example_store [example_chunk ''chnk_1'' [7], example_chunk ''chnk_2'' [8]]) = (Inr (), s') \<and>
     fst (run (getInfo ''t'' ''log'') (s'\<lparr>streams := streams s' @ [example_chunk ''chnk_4'' [9]]\<rparr>)) = Inr (1, True)"
  using close_ends_stream [OF example_stream(4,5), of "''chnk_3''" "[example_chunk ''chnk_4'' [9]]" "''ch''" "''wrun_1''"]
  by (auto simp: example_stream(6) less_char_def Let_def)

end
