(* ===== verification/Stream_Reader.thy ===== *)
theory Stream_Reader
  imports Stream_Spec
begin

text \<open>
  The live reader (\<open>streams.get\<close>) delivers a stream exactly once: it registers for notifications,
  loads the rows written so far, then replays what was notified meanwhile and follows the rest.
  The same chunk may reach it from the load and from a notification, or from two notifications.
\<close>

section \<open>Events in the order of the stream\<close>

text \<open>
  A sequence of events over the stream's events \<open>log\<close>, when the first \<open>k\<close> of them have been
  seen: each is the next one of the log, or one seen before.
\<close>

fun follows :: "chunk_event list \<Rightarrow> nat \<Rightarrow> chunk_event list \<Rightarrow> nat option" where
  "follows log k [] = Some k"
| "follows log k (e # es) =
     (if k < length log \<and> e = log ! k then follows log (Suc k) es
      else if e \<in> set (take k log) then follows log k es else None)"

definition data_of :: "chunk_event list \<Rightarrow> chunk_event list" where
  "data_of es = takeWhile (\<lambda>x. \<not> ce_eof x) es"

definition reader_at :: "int \<Rightarrow> chunk_event list \<Rightarrow> reader" where
  "reader_at offset seen =
     \<lparr>rd_lastChunkId = (if seen = [] then [] else if data_of seen = seen then ce_id (last seen)
        else ce_id (seen ! length (data_of seen))),
      rd_offset = max 0 (offset - int (length (data_of seen))), rd_buffer = None, rd_closed = (data_of seen \<noteq> seen),
      rd_sent = filter (\<lambda>d. d \<noteq> []) (map ce_data (drop (nat offset) (data_of seen)))\<rparr>"

definition log_ok :: "chunk_event list \<Rightarrow> bool" where
  "log_ok log \<longleftrightarrow> sorted_wrt (<) (map ce_id log) \<and> list_all (\<lambda>x. ce_id x \<noteq> []) log"

lemma data_of_snoc:
  "data_of (xs @ [x]) = (if data_of xs = xs \<and> \<not> ce_eof x then xs @ [x] else data_of xs)"
proof (cases "\<forall>y \<in> set xs. \<not> ce_eof y")
  case True
  then have all: "takeWhile (\<lambda>x. \<not> ce_eof x) xs = xs" by (simp add: takeWhile_eq_all_conv)
  from True show ?thesis by (simp add: data_of_def all)
next
  case False
  then have "data_of xs \<noteq> xs" by (simp add: data_of_def takeWhile_eq_all_conv)
  with False show ?thesis by (auto simp: data_of_def)
qed

text \<open>Everything seen so far is at or below the last id of an open reader.\<close>

lemma seen_below:
  assumes "log_ok seen" and "x \<in> set seen" and "data_of seen = seen"
  shows "ce_id x \<le> ce_id (last seen)"
proof -
  obtain ys z where seen: "seen = ys @ [z]" using assms(2) by (cases seen rule: rev_exhaust) auto
  with assms(1,2) show ?thesis by (auto simp: log_ok_def sorted_wrt_append intro: less_imp_le)
qed

lemma enqueue_seen:
  assumes "log_ok seen" and "x \<in> set seen"
  shows "enqueue x (reader_at offset seen) = reader_at offset seen"
  using seen_below [OF assms] assms(2) by (auto simp: enqueue_def reader_at_def)

lemma enqueue_next:
  assumes "log_ok (seen @ [x])" and "0 \<le> offset"
  shows "enqueue x (reader_at offset seen) = reader_at offset (seen @ [x])"
proof (cases "data_of seen = seen")
  case False
  then have "data_of (seen @ [x]) = data_of seen" "length (data_of seen) < length seen"
    by (simp_all add: data_of_snoc) (metis data_of_def length_takeWhile_le nat_less_le takeWhile_eq_take take_all_iff)
  with False show ?thesis by (auto simp: enqueue_def reader_at_def nth_append data_of_snoc)
next
  case True
  have new: "\<not> ce_id x \<le> (if seen = [] then [] else ce_id (last seen))"
    using assms(1) by (auto simp: log_ok_def sorted_wrt_append not_le neq_Nil_conv)
  show ?thesis
  proof (cases "ce_eof x")
    case True
    with \<open>data_of seen = seen\<close> new show ?thesis
      by (auto simp: enqueue_def reader_at_def data_of_snoc)
  next
    case False
    then have d: "data_of (seen @ [x]) = seen @ [x]" using True by (simp add: data_of_snoc)
    have "nat offset \<le> length seen" if "offset \<le> int (length seen)" using that by simp
    with True False d new assms(2) show ?thesis
      by (auto simp: enqueue_def reader_at_def max_def)
  qed
qed

lemma log_ok_take: "log_ok log \<Longrightarrow> log_ok (take k log)"
  by (auto simp: log_ok_def list_all_iff take_map [symmetric] sorted_wrt_take dest: in_set_takeD)

lemma fold_enqueue_follows:
  assumes "log_ok log" and "0 \<le> offset"
  shows "follows log k es = Some p \<Longrightarrow> k \<le> length log \<Longrightarrow>
    fold enqueue es (reader_at offset (take k log)) = reader_at offset (take p log)"
proof (induction es arbitrary: k)
  case (Cons e es)
  show ?case
  proof (cases "k < length log \<and> e = log ! k")
    case True
    then have "take k log @ [e] = take (Suc k) log" by (simp add: take_Suc_conv_app_nth)
    then have "enqueue e (reader_at offset (take k log)) = reader_at offset (take (Suc k) log)"
      using enqueue_next [of "take k log" e offset] log_ok_take [OF assms(1), of "Suc k"] assms(2) by simp
    with Cons True show ?thesis by auto
  next
    case False
    with Cons.prems have "e \<in> set (take k log)" "follows log k es = Some p" by (auto split: if_splits)
    with Cons.IH [OF this(2)] Cons.prems(2) enqueue_seen [OF log_ok_take [OF assms(1)]] show ?thesis by simp
  qed
qed simp

lemma follows_self: "follows log k (drop k (take m log)) = Some (max k (min m (length log)))" if "k \<le> length log"
  using that
proof (induction "min m (length log) - k" arbitrary: k)
  case 0
  then have "drop k (take m log) = []" "max k (min m (length log)) = k" by auto
  then show ?case by simp
next
  case (Suc n)
  then have "k < min m (length log)" by linarith
  then have "drop k (take m log) = log ! k # drop (Suc k) (take m log)"
    by (metis Cons_nth_drop_Suc length_take min.commute nth_take min_less_iff_conj)
  with Suc(1) [of "Suc k"] Suc(2) show ?case by auto
qed

lemma follows_append: "follows log k (xs @ ys) = Option.bind (follows log k xs) (\<lambda>j. follows log j ys)"
  by (induction xs arbitrary: k) auto

section \<open>Delivery\<close>

text \<open>
  C15. When notifications come in the order of the chunk ids and skip none (each is the next event
  of the stream or repeats one seen before), the live reader delivers every nonempty chunk exactly
  once and in order. Whatever part of the stream's events the load of the rows covers, and however the
  notifications before and after it repeat events: the chunks delivered are the nonempty ones up to
  the first EOF among the events reached, from the start index on (counted from the end of the load
  when it is negative), and the reader is closed exactly when an EOF was reached. An id that arrives
  after a later one is outside the hypothesis: \<open>enqueue\<close> drops it as already sent or out of order.
\<close>

theorem live_reader_exact:
  assumes "log_ok log" and "rows_events rows = Inr (take m log)" and "m \<le> length log"
    and "follows log m (buffered @ live) = Some p"
  shows "\<exists>rd. reader_loaded rows (fold onData buffered (open_reader start)) = Inr rd \<and>
    (let offset = negative_offset (take m log) (case start of None \<Rightarrow> 0 | Some n \<Rightarrow> n); rd' = fold onData live rd in
      rd_sent rd' = filter (\<lambda>d. d \<noteq> []) (map ce_data (drop (nat offset) (data_of (take p log)))) \<and>
      rd_closed rd' = list_ex ce_eof (take p log))"
proof -
  let ?o = "negative_offset (take m log) (case start of None \<Rightarrow> 0 | Some n \<Rightarrow> n)"
  have buffer: "rd_buffer rd = Some b \<Longrightarrow> fold onData es rd = rd\<lparr>rd_buffer := Some (b @ es)\<rparr>" for es rd b
    by (induction es arbitrary: rd b) (simp_all add: onData_def)
  have live: "rd_buffer rd = None \<Longrightarrow> fold onData es rd = fold enqueue es rd" for es rd
  proof (induction es arbitrary: rd)
    case (Cons e es)
    moreover have "rd_buffer (enqueue e rd) = rd_buffer rd" by (simp add: enqueue_def Let_def)
    ultimately show ?case by (simp add: onData_def)
  qed simp
  have off: "0 \<le> ?o" by (simp add: negative_offset_def)
  have start: "(open_reader start)\<lparr>rd_buffer := None, rd_offset := ?o\<rparr> = reader_at ?o (take 0 log)"
    using off by (simp add: open_reader_def reader_at_def data_of_def)
  have unbuffered: "fold enqueue es (rd\<lparr>rd_buffer := x\<rparr>) = (fold enqueue es rd)\<lparr>rd_buffer := x\<rparr>" for es rd x
  proof (induction es arbitrary: rd)
    case (Cons e es)
    moreover have "enqueue e (rd\<lparr>rd_buffer := x\<rparr>) = (enqueue e rd)\<lparr>rd_buffer := x\<rparr>" by (simp add: enqueue_def Let_def)
    ultimately show ?case by simp
  qed simp
  let ?rd = "fold enqueue (take m log @ buffered) ((open_reader start)\<lparr>rd_offset := ?o\<rparr>)"
  have loaded: "reader_loaded rows (fold onData buffered (open_reader start)) = Inr (?rd\<lparr>rd_buffer := None\<rparr>)"
    using assms(2) buffer [of "open_reader start" "[]" buffered]
      unbuffered [of "take m log @ buffered" "Some buffered" "(open_reader start)\<lparr>rd_offset := ?o\<rparr>"]
    by (simp add: reader_loaded_def open_reader_def Let_def)
  have "follows log 0 ((take m log @ buffered) @ live) = Some p"
    using follows_self [of 0 log m] assms(3,4) by (simp add: follows_append)
  then have "fold enqueue ((take m log @ buffered) @ live) (reader_at ?o (take 0 log)) = reader_at ?o (take p log)"
    using fold_enqueue_follows [OF assms(1) off] by blast
  moreover have "fold onData live (?rd\<lparr>rd_buffer := None\<rparr>) =
      fold enqueue ((take m log @ buffered) @ live) ((open_reader start)\<lparr>rd_buffer := None, rd_offset := ?o\<rparr>)"
    using live [of "?rd\<lparr>rd_buffer := None\<rparr>" live] unbuffered [of "take m log @ buffered" None "(open_reader start)\<lparr>rd_offset := ?o\<rparr>"]
    by (simp add: open_reader_def)
  ultimately have "fold onData live (?rd\<lparr>rd_buffer := None\<rparr>) = reader_at ?o (take p log)" by (simp only: start)
  moreover have "data_of es \<noteq> es \<longleftrightarrow> list_ex ce_eof es" for es
    by (simp add: data_of_def takeWhile_eq_all_conv list_ex_iff)
  ultimately show ?thesis by (auto simp: loaded Let_def reader_at_def)
qed

section \<open>The stream's events\<close>

text \<open>A stream without EOF: its events are its chunks, and a load of its rows covers all of them.\<close>

definition chunk_events :: "logical_chunk list \<Rightarrow> chunk_event list" where
  "chunk_events xs = map (\<lambda>x. \<lparr>ce_id = ck_id x, ce_data = ck_data x, ce_eof = False\<rparr>) xs"

lemma rows_events_open:
  assumes "stream_ok t name s" and "first_eof t name s = None"
  shows "rows_events (by_id (filter (of_stream t name) (streams s))) = Inr (chunk_events (stream_view t name s))"
    "log_ok (chunk_events (stream_view t name s))"
proof -
  have "list_all row_ok rows \<Longrightarrow> list_all (\<lambda>k. \<not> k_eof k) rows \<Longrightarrow>
      rows_events rows = Inr (chunk_events (concat (map unpacked rows)))" for rows
    by (induction rows) (auto simp: row_events_def chunk_events_def elim!: row_okE)
  moreover have "list_all (\<lambda>k. \<not> k_eof k) (by_id (filter (of_stream t name) (streams s)))"
    using open_stream_rows(2) [OF assms(2)] by (auto simp: by_id_def list_all_iff filter_empty_conv)
  ultimately show "rows_events (by_id (filter (of_stream t name) (streams s))) = Inr (chunk_events (stream_view t name s))"
    using assms open_stream_rows(1) [OF assms(2)] by (simp add: stream_ok_def stream_view_def)
  have "i \<noteq> []" if "starts_with i ''chnk_''" for i using that by (auto simp: starts_with_def)
  then show "log_ok (chunk_events (stream_view t name s))"
    using assms(1) stream_ok_ids [OF assms(1)]
    by (auto simp: log_ok_def chunk_events_def stream_ok_def o_def list_all_iff)
qed

definition example_log :: "chunk_event list" where
  "example_log = chunk_events [\<lparr>ck_id = ''chnk_1'', ck_data = [7]\<rparr>, \<lparr>ck_id = ''chnk_2'', ck_data = [8]\<rparr>] @
     [\<lparr>ce_id = ''chnk_3'', ce_data = [], ce_eof = True\<rparr>, \<lparr>ce_id = ''chnk_4'', ce_data = [9], ce_eof = False\<rparr>]"

theorem live_reader_exact_witness:
  "\<exists>rd. reader_loaded [example_chunk ''chnk_1'' [7]] (fold onData [example_log ! 0] (open_reader None)) = Inr rd \<and>
     rd_sent (fold onData [example_log ! 1, example_log ! 0, example_log ! 2, example_log ! 3] rd) = [[7], [8]] \<and>
     rd_closed (fold onData [example_log ! 1, example_log ! 0, example_log ! 2, example_log ! 3] rd)"
proof -
  have "rows_events [example_chunk ''chnk_1'' [7]] = Inr (take 1 example_log)"
    by (simp add: example_log_def chunk_events_def row_events_def example_chunk_def chunk_values_def unpackStreamRow_def physical_def)
  moreover have "log_ok example_log"
    by (simp add: log_ok_def example_log_def chunk_events_def less_char_def)
  moreover have "follows example_log 1 ([example_log ! 0] @ [example_log ! 1, example_log ! 0, example_log ! 2, example_log ! 3]) = Some 4"
    by (simp add: example_log_def chunk_events_def)
  ultimately show ?thesis
    using live_reader_exact [of example_log "[example_chunk ''chnk_1'' [7]]" 1 "[example_log ! 0]"
        "[example_log ! 1, example_log ! 0, example_log ! 2, example_log ! 3]" 4 None]
    by (auto simp: Let_def negative_offset_def data_of_def) (simp_all add: example_log_def chunk_events_def)
qed

end
