(* ===== verification/Stream_Maintenance.thy ===== *)
theory Stream_Maintenance
  imports Stream_Reader
begin

text \<open>
  Packing the closed streams of ended runs (\<open>src/stream-block-maintenance.ts\<close>): each stream's
  data rows are replaced by blocks in one transaction, under an advisory lock.
\<close>

definition STREAM_BLOCK_PACK_LOCK_KEY :: int where "STREAM_BLOCK_PACK_LOCK_KEY = 0x65766270"

record pack_options =
  po_maxStreams :: int
  po_maxChunksPerBlock :: "int option"
  po_maxBlockBytes :: "int option"

record pack_result =
  pk_streamsCompacted :: nat
  pk_logicalChunks :: nat
  pk_physicalRowsBefore :: nat
  pk_physicalRowsAfter :: nat
  pk_hitStreamLimit :: bool
  pk_lockAcquired :: bool

definition emptyResult :: "bool \<Rightarrow> pack_result" where
  "emptyResult locked = \<lparr>pk_streamsCompacted = 0, pk_logicalChunks = 0, pk_physicalRowsBefore = 0,
     pk_physicalRowsAfter = 0, pk_hitStreamLimit = False, pk_lockAcquired = locked\<rparr>"

text \<open>
  A candidate is a tenant, stream and run. The inner select keeps, of each stream, the first EOF
  row whose run is due; the outer one orders the streams by the run's deadline. An EOF row of
  codec version 2 is a stream packed before.
\<close>

definition due_eof :: "store \<Rightarrow> chunk_row \<Rightarrow> run_row \<Rightarrow> bool" where
  "due_eof s k x \<longleftrightarrow> r_tenantId x = k_tenantId k \<and> Some (r_runId x) = k_runId k \<and> k_eof k \<and>
     k_codecVersion k \<noteq> Some 2 \<and> run_ended x \<and>
     (case compactAfter (deadlines_of s x) of None \<Rightarrow> False | Some d \<Rightarrow> d \<le> db_now s)"

definition eof_joined :: "store \<Rightarrow> (chunk_row \<times> timestamp) list" where
  "eof_joined s = List.map_filter (\<lambda>k. map_option (\<lambda>x. (k, the (compactAfter (deadlines_of s x))))
     (find (due_eof s k) (runs s))) (by_id (streams s))"

fun distinct_on :: "('a \<Rightarrow> 'k) \<Rightarrow> 'a list \<Rightarrow> 'a list" where
  "distinct_on f [] = []"
| "distinct_on f (x # xs) = x # distinct_on f (filter (\<lambda>y. f y \<noteq> f x) xs)"

definition pack_candidates :: "nat \<Rightarrow> store \<Rightarrow> (tenant_id \<times> string \<times> run_id option) list" where
  "pack_candidates n s = take n (map (\<lambda>(k, d). (k_tenantId k, k_streamId k, k_runId k))
     (sort_key (\<lambda>(k, d). d) (sort_key (\<lambda>(k, d). k_tenantId k) (sort_key (\<lambda>(k, d). k_streamId k)
       (distinct_on (\<lambda>(k, d). (k_tenantId k, k_streamId k)) (eof_joined s))))))"

definition block_insert :: "tenant_id \<Rightarrow> string \<Rightarrow> run_id option \<Rightarrow> store \<Rightarrow> packed_block \<Rightarrow> chunk_row" where
  "block_insert t name r s b =
     \<lparr>k_tenantId = t, k_streamId = name, k_runId = r, k_chunkId = pb_firstChunkId b, k_data = pb_data b,
      k_createdAt = db_now s, k_eof = False, k_codecVersion = Some (pb_codecVersion b),
      k_chunkCount = Some (int (pb_chunkCount b)), k_lastChunkId = Some (pb_lastChunkId b)\<rparr>"

definition mark_packed :: "tenant_id \<Rightarrow> string \<Rightarrow> string option \<Rightarrow> store \<Rightarrow> store" where
  "mark_packed t name lst s = s\<lparr>streams := update_where (\<lambda>k. of_stream t name k \<and> k_eof k)
     (\<lambda>k. k\<lparr>k_codecVersion := Some 2, k_chunkCount := Some 0, k_lastChunkId := lst\<rparr>) (streams s)\<rparr>"

definition compactOneStream ::
  "(nat \<Rightarrow> byte list) \<Rightarrow> (byte list \<Rightarrow> byte list) \<Rightarrow> int \<Rightarrow> int \<Rightarrow> tenant_id \<times> string \<times> run_id option \<Rightarrow>
   (nat \<times> nat \<times> nat) sio" where
  "compactOneStream allocUnsafe compact maxChunks maxBytes = (\<lambda>(t, name, r). txn (
     bindP (stmt (\<lambda>s. (filter (\<lambda>k. of_stream t name k \<and> \<not> k_eof k) (streams s),
         s\<lparr>streams := delete_where (\<lambda>k. of_stream t name k \<and> \<not> k_eof k) (streams s)\<rparr>))) (\<lambda>rows.
     bindP (liftE (unpack_rows (map physical (by_id rows)))) (\<lambda>unpacked.
     let logical = map (\<lambda>x. x\<lparr>ck_data := compact (ck_data x)\<rparr>) unpacked in
     bindP (liftE (packStreamChunks allocUnsafe logical (Some maxChunks) (Some maxBytes))) (\<lambda>blocks.
     bindP (mapM (\<lambda>b. stmtE (\<lambda>s. insert_chunks [block_insert t name r s b] s)) blocks) (\<lambda>_.
     bindP (exec (mark_packed t name (if logical = [] then None else Some (ck_id (last logical))))) (\<lambda>_.
       Ret (length logical, length rows, length blocks))))))))"

definition packTerminalStreamBlocks ::
  "(nat \<Rightarrow> byte list) \<Rightarrow> (byte list \<Rightarrow> byte list) \<Rightarrow> pack_options \<Rightarrow> pack_result sio" where
  "packTerminalStreamBlocks allocUnsafe compact opts =
     (let maxChunks = (case po_maxChunksPerBlock opts of Some n \<Rightarrow> n | None \<Rightarrow> DEFAULT_STREAM_BLOCK_CHUNKS);
          maxBytes = (case po_maxBlockBytes opts of Some n \<Rightarrow> n | None \<Rightarrow> DEFAULT_STREAM_BLOCK_BYTES) in
      bindP (throw_if (\<not> positive_safe (po_maxStreams opts) \<or> \<not> positive_safe maxChunks \<or> \<not> positive_safe maxBytes)
        TypeError) (\<lambda>_.
      bindP (stmt (try_lock STREAM_BLOCK_PACK_LOCK_KEY)) (\<lambda>lockAcquired.
      if \<not> lockAcquired then Ret (emptyResult False)
      else finallyP (
        bindP (query (pack_candidates (nat (po_maxStreams opts)))) (\<lambda>candidates.
        bindP (mapM (compactOneStream allocUnsafe compact maxChunks maxBytes) candidates) (\<lambda>done.
          Ret \<lparr>pk_streamsCompacted = length done, pk_logicalChunks = sum_list (map (\<lambda>(a, b, d). a) done),
               pk_physicalRowsBefore = sum_list (map (\<lambda>(a, b, d). b) done),
               pk_physicalRowsAfter = sum_list (map (\<lambda>(a, b, d). d) done),
               pk_hitStreamLimit = (int (length candidates) = po_maxStreams opts), pk_lockAcquired = True\<rparr>)))
        (exec (unlock STREAM_BLOCK_PACK_LOCK_KEY)))))"

section \<open>Packing one stream\<close>

abbreviation stream_data :: "tenant_id \<Rightarrow> string \<Rightarrow> store \<Rightarrow> chunk_row list" where
  "stream_data t name s \<equiv> filter (\<lambda>k. of_stream t name k \<and> \<not> k_eof k) (streams s)"

definition compacted :: "(byte list \<Rightarrow> byte list) \<Rightarrow> logical_chunk list \<Rightarrow> logical_chunk list" where
  "compacted compact xs = map (\<lambda>x. x\<lparr>ck_data := compact (ck_data x)\<rparr>) xs"

lemma compacted_ids [simp]: "map ck_id (compacted compact xs) = map ck_id xs" "compacted compact xs = [] \<longleftrightarrow> xs = []"
  by (simp_all add: compacted_def o_def)

lemma run_insert_blocks:
  assumes "distinct (map chunk_key (map (block_insert t name r s) bs))"
    and "set (map chunk_key (map (block_insert t name r s) bs)) \<inter> set (map chunk_key (streams s)) = {}"
  shows "run (mapM (\<lambda>b. stmtE (\<lambda>s. insert_chunks [block_insert t name r s b] s)) bs) s =
    (Inr (map (\<lambda>_. ()) bs), s\<lparr>streams := streams s @ map (block_insert t name r s) bs\<rparr>)"
  using assms
proof (induction bs arbitrary: s)
  case (Cons b bs)
  let ?s = "s\<lparr>streams := streams s @ [block_insert t name r s b]\<rparr>"
  have same: "block_insert t name r ?s = block_insert t name r s" by (simp add: fun_eq_iff block_insert_def)
  have "run (mapM (\<lambda>b. stmtE (\<lambda>s. insert_chunks [block_insert t name r s b] s)) bs) ?s =
      (Inr (map (\<lambda>_. ()) bs), ?s\<lparr>streams := streams ?s @ map (block_insert t name r ?s) bs\<rparr>)"
    using Cons.prems by (intro Cons.IH) (auto simp: same)
  with Cons.prems show ?case by (simp add: run_simps run_stmtE insert_chunks_def same)
qed simp

text \<open>The blocks' rows, their ids and what they hold.\<close>

lemma block_insert_ok:
  assumes "list_all packable g" and "g \<noteq> []" and "int (length g) \<le> 2 ^ 53 - 1"
  shows "unpacked (block_insert t name r s (block_of g)) = g" "row_ok (block_insert t name r s (block_of g))"
proof -
  have "physical (block_insert t name r s (block_of g)) = block_row (block_of g)"
    by (simp add: physical_def block_insert_def block_row_def)
  with unpack_block [OF assms] show "unpacked (block_insert t name r s (block_of g)) = g"
    "row_ok (block_insert t name r s (block_of g))"
    using assms by (auto simp: unpacked_def row_ok_def last_or_id_def block_insert_def block_of_def packable_def list_all_iff)
qed

text \<open>The whole transaction: the data rows give way to blocks of the same chunks, compacted.\<close>

lemma run_compactOneStream:
  assumes alloc: "\<And>n. length (allocUnsafe n) = n" and limits: "positive_safe mc" "positive_safe mb"
    and rows: "list_all row_ok (by_id (stream_data t name s))"
    and xs: "concat (map unpacked (by_id (stream_data t name s))) = xs" "sorted_wrt (<) (map ck_id xs)"
    and pack: "list_all packable (compacted compact xs)"
    and apart: "\<forall>k \<in> set (streams s). of_stream t name k \<and> k_eof k \<longrightarrow> k_chunkId k \<notin> ck_id ` set xs"
  obtains new where "concat (map unpacked new) = compacted compact xs"
    "list_all (\<lambda>k. row_ok k \<and> of_stream t name k \<and> \<not> k_eof k) new"
    "run (compactOneStream allocUnsafe compact mc mb (t, name, r)) s =
      (Inr (length xs, length (stream_data t name s), length new), mark_packed t name (if xs = [] then None else Some (ck_id (last xs)))
        (s\<lparr>streams := delete_where (\<lambda>k. of_stream t name k \<and> \<not> k_eof k) (streams s) @ new\<rparr>))"
proof -
  let ?ys = "compacted compact xs"
  have "list_all fits ?ys" using pack by (simp add: list_all_iff packable_def)
  then obtain gs where gs: "pack_loop allocUnsafe mc mb ?ys [] 0 = Inr (map block_of gs)" "concat gs = ?ys"
      "list_all (within mc mb) gs"
    using pack_loop_groups [of allocUnsafe mc "[]" ?ys mb] alloc limits by (auto simp: positive_safe_def)
  have group: "list_all packable g \<and> g \<noteq> [] \<and> int (length g) \<le> 2 ^ 53 - 1" if "g \<in> set gs" for g
    using that gs(2,3) pack limits by (auto simp: list_all_iff within_def positive_safe_def simp flip: gs(2))
  let ?s = "s\<lparr>streams := delete_where (\<lambda>k. of_stream t name k \<and> \<not> k_eof k) (streams s)\<rparr>"
  define new where "new = map (block_insert t name r ?s) (map block_of gs)"
  have "map unpacked new = gs" unfolding new_def using group block_insert_ok(1) by (induction gs) auto
  then have content: "concat (map unpacked new) = ?ys" by (simp add: gs(2))
  have ok: "list_all (\<lambda>k. row_ok k \<and> of_stream t name k \<and> \<not> k_eof k) new"
    unfolding new_def using group block_insert_ok(2) by (auto simp: list_all_iff block_insert_def of_stream_def)
  then have oks: "list_all row_ok new" by (simp add: list_all_iff)
  have sorted: "sorted_wrt (<) (map k_chunkId new)"
    by (rule row_ids_sorted [OF oks]) (simp add: content xs(2))
  have ids: "k_chunkId k \<in> ck_id ` set xs" if "k \<in> set new" for k
  proof -
    have "row_ok k" using oks that by (simp add: list_all_iff)
    then have "k_chunkId k \<in> ck_id ` set (unpacked k)" by (metis row_okE hd_in_set imageI)
    with that content have "k_chunkId k \<in> set (map ck_id ?ys)" by (auto simp flip: content)
    then show ?thesis by simp
  qed
  have "distinct (map chunk_key new)"
    using sorted ok by (auto simp: chunk_key_def strict_sorted_iff distinct_map inj_on_def)
  moreover have "set (map chunk_key new) \<inter> set (map chunk_key (streams ?s)) = {}"
  proof -
    have "chunk_key k \<noteq> chunk_key q" if "k \<in> set new" "q \<in> set (streams ?s)" for k q
    proof
      assume eq: "chunk_key k = chunk_key q"
      have "of_stream t name k" using ok that(1) by (simp add: list_all_iff)
      with eq have q: "of_stream t name q" "k_chunkId q = k_chunkId k" by (auto simp: chunk_key_def of_stream_def)
      with that(2) have "q \<in> set (streams s)" "k_eof q" by (auto simp: delete_where_def)
      with apart q ids [OF that(1)] show False by auto
    qed
    then show ?thesis by (auto simp del: split_paired_All) metis
  qed
  ultimately have ins: "run (mapM (\<lambda>b. stmtE (\<lambda>s. insert_chunks [block_insert t name r s b] s)) (map block_of gs)) ?s =
      (Inr (map (\<lambda>_. ()) (map block_of gs)), ?s\<lparr>streams := streams ?s @ new\<rparr>)"
    unfolding new_def by (rule run_insert_blocks)
  have "run (compactOneStream allocUnsafe compact mc mb (t, name, r)) s =
      (Inr (length xs, length (stream_data t name s), length new), mark_packed t name (if xs = [] then None else Some (ck_id (last xs)))
        (s\<lparr>streams := delete_where (\<lambda>k. of_stream t name k \<and> \<not> k_eof k) (streams s) @ new\<rparr>))"
    using unpack_rows_ok [OF rows] gs(1) limits ins
    by (simp add: compactOneStream_def run_simps xs(1) compacted_def [symmetric] packStreamChunks_def new_def)
       (simp add: compacted_def last_map run_simps)
  with content ok show ?thesis by (rule that)
qed

lemma first_eof_least:
  assumes "first_eof t name s = Some e" and "k \<in> set (streams s)" and "of_stream t name k" and "k_eof k"
  shows "e \<le> k_chunkId k"
proof -
  let ?E = "filter (\<lambda>k. of_stream t name k \<and> k_eof k) (streams s)"
  from assms(1) obtain q qs where q: "by_id ?E = q # qs" "k_chunkId q = e"
    by (auto simp: first_eof_def split: list.splits)
  have "sorted (map k_chunkId (by_id ?E))" "set (by_id ?E) = set ?E" by (simp_all add: by_id_def)
  with q assms(2-4) show ?thesis by fastforce
qed

lemma sort_key_map_same:
  assumes "\<And>x. k (f x) = k x"
  shows "sort_key k (map f xs) = map f (sort_key k xs)"
proof -
  have "insort_key k (f x) (map f ys) = map f (insort_key k x ys)" for x ys
    using assms by (induction ys) auto
  then show ?thesis by (induction xs) simp_all
qed

lemma marked_frame:
  "first_eof t name (mark_packed t name l s) = first_eof t name s"
  "data_rows t name e (mark_packed t name l s) = data_rows t name e s"
proof -
  let ?f = "\<lambda>k. if of_stream t name k \<and> k_eof k then k\<lparr>k_codecVersion := Some 2, k_chunkCount := Some 0, k_lastChunkId := l\<rparr> else k"
  have ids: "k_chunkId (?f k) = k_chunkId k" "of_stream t name (?f k) = of_stream t name k" "k_eof (?f k) = k_eof k" for k
    by (auto simp: of_stream_def)
  have streams: "streams (mark_packed t name l s) = map ?f (streams s)"
    by (simp add: mark_packed_def update_where_def)
  have "filter (\<lambda>k. of_stream t name k \<and> before_eof e k) (map ?f ks) = filter (\<lambda>k. of_stream t name k \<and> before_eof e k) ks" for ks
    by (induction ks) (auto simp: before_eof_def of_stream_def split: option.split)
  then show "data_rows t name e (mark_packed t name l s) = data_rows t name e s" by (simp add: data_rows_def streams)
  have "filter (\<lambda>k. of_stream t name k \<and> k_eof k) (map ?f ks) = map ?f (filter (\<lambda>k. of_stream t name k \<and> k_eof k) ks)" for ks
    using ids(2,3) by (induction ks) auto
  then show "first_eof t name (mark_packed t name l s) = first_eof t name s"
    using sort_key_map_same [of k_chunkId ?f] ids(1)
    by (auto simp: first_eof_def streams by_id_def split: list.splits)
qed

text \<open>
  C16. Packing a closed stream changes nothing that readers see, compaction aside: on a stream whose
  data all lies ahead of its first EOF, the transaction succeeds, the same chunks are read under
  the same ids in the same order, the end of the stream stays where it was, and no row of any other
  stream changes.
\<close>

theorem packing_preserves_stream:
  assumes "\<And>n. length (allocUnsafe n) = n" and "positive_safe mc" and "positive_safe mb"
    and ok: "stream_ok t name s" and eof: "first_eof t name s = Some e"
    and ahead: "\<forall>k \<in> set (streams s). of_stream t name k \<and> \<not> k_eof k \<longrightarrow> k_chunkId k < e"
    and below: "\<forall>x \<in> set (stream_view t name s). ck_id x < e"
    and pack: "list_all packable (compacted compact (stream_view t name s))"
  shows "\<exists>n s'. run (compactOneStream allocUnsafe compact mc mb (t, name, r)) s =
      (Inr (length (stream_view t name s), length (stream_rows t name s), n), s') \<and>
    stream_view t name s' = compacted compact (stream_view t name s) \<and> stream_ok t name s' \<and>
    first_eof t name s' = Some e \<and>
    filter (\<lambda>k. \<not> of_stream t name k) (streams s') = filter (\<lambda>k. \<not> of_stream t name k) (streams s)"
proof -
  let ?xs = "stream_view t name s"
  have "filter (\<lambda>k. of_stream t name k \<and> before_eof (Some e) k) (streams s) = stream_data t name s"
    using ahead by (intro filter_cong) (auto simp: before_eof_def)
  then have rows: "by_id (stream_data t name s) = stream_rows t name s"
    by (simp add: stream_rows_def data_rows_def eof)
  have apart: "\<forall>k \<in> set (streams s). of_stream t name k \<and> k_eof k \<longrightarrow> k_chunkId k \<notin> ck_id ` set ?xs"
    using first_eof_least [OF eof] below by (metis image_iff leD)
  obtain new where new: "concat (map unpacked new) = compacted compact ?xs"
    "list_all (\<lambda>k. row_ok k \<and> of_stream t name k \<and> \<not> k_eof k) new"
    "run (compactOneStream allocUnsafe compact mc mb (t, name, r)) s =
      (Inr (length ?xs, length (stream_data t name s), length new), mark_packed t name (if ?xs = [] then None else Some (ck_id (last ?xs)))
        (s\<lparr>streams := delete_where (\<lambda>k. of_stream t name k \<and> \<not> k_eof k) (streams s) @ new\<rparr>))"
    by (rule run_compactOneStream [OF assms(1-3), where xs = ?xs and s = s and t = t and name = name and r = r])
      (use ok pack apart in \<open>simp_all add: rows stream_ok_def stream_view_def\<close>)
  let ?s = "s\<lparr>streams := delete_where (\<lambda>k. of_stream t name k \<and> \<not> k_eof k) (streams s) @ new\<rparr>"
  have oks: "list_all row_ok new" using new(2) by (simp add: list_all_iff)
  have sorted: "sorted_wrt (<) (map k_chunkId new)"
    by (rule row_ids_sorted [OF oks]) (use ok in \<open>simp add: new(1) stream_ok_def\<close>)
  have less: "k_chunkId k < e" if "k \<in> set new" for k
  proof -
    have "row_ok k" using oks that by (simp add: list_all_iff)
    then have "k_chunkId k \<in> ck_id ` set (unpacked k)" by (metis row_okE hd_in_set imageI)
    with that have "k_chunkId k \<in> set (map ck_id (compacted compact ?xs))" by (auto simp flip: new(1))
    with below show ?thesis by auto
  qed
  have eof': "first_eof t name ?s = Some e"
  proof -
    have "filter (\<lambda>k. of_stream t name k \<and> k_eof k) (streams ?s) = filter (\<lambda>k. of_stream t name k \<and> k_eof k) (streams s)"
      using new(2) by (auto simp: delete_where_def filter_empty_conv list_all_iff intro: filter_cong)
    with eof show ?thesis by (simp add: first_eof_def)
  qed
  have "filter (\<lambda>k. of_stream t name k \<and> before_eof (Some e) k) (streams ?s) = new"
    using new(2) less by (auto simp: delete_where_def before_eof_def filter_empty_conv filter_id_conv list_all_iff)
  then have "stream_rows t name ?s = new"
    using sorted by (simp add: stream_rows_def eof' data_rows_def by_id_def sort_key_id_if_sorted strict_sorted_iff)
  then have "stream_view t name ?s = compacted compact ?xs" "stream_ok t name ?s"
    using oks ok by (simp_all add: stream_view_def stream_ok_def new(1))
  moreover have "filter (\<lambda>k. \<not> of_stream t name k) (streams (mark_packed t name l ?s)) =
      filter (\<lambda>k. \<not> of_stream t name k) (streams s)" for l
  proof -
    have "filter (\<lambda>k. \<not> of_stream t name k) (update_where (\<lambda>k. of_stream t name k \<and> k_eof k) f ks) =
        filter (\<lambda>k. \<not> of_stream t name k) ks" if "\<And>k. of_stream t name (f k) = of_stream t name k" for f ks
      using that by (induction ks) (auto simp: update_where_def)
    moreover have "filter (\<lambda>k. \<not> of_stream t name k) (streams ?s) = filter (\<lambda>k. \<not> of_stream t name k) (streams s)"
      using new(2) by (auto simp: delete_where_def filter_empty_conv list_all_iff intro: filter_cong)
    ultimately show ?thesis by (simp add: mark_packed_def of_stream_def)
  qed
  moreover have "length (stream_data t name s) = length (stream_rows t name s)"
    using arg_cong [OF rows, of length] by (simp add: by_id_def)
  ultimately show ?thesis
    using new(3) eof' by (auto simp: marked_frame stream_view_def stream_rows_def stream_ok_def)
qed

section \<open>Chunks behind the first EOF\<close>

text \<open>
  A producer that overlaps the close of its stream leaves a data row behind the EOF. Readers
  ignore it; the packer does not.
\<close>

definition example_eof :: "string \<Rightarrow> chunk_row" where
  "example_eof i = chunk_values ''t'' ''wrun_1'' ''log'' i [] True None None None (example_store [])"

definition late_store :: store where
  "late_store = example_store [example_chunk ''chnk_1'' [7], example_eof ''chnk_2'', example_chunk ''chnk_3'' [9]]"

definition late_chunks :: "logical_chunk list" where
  "late_chunks = [\<lparr>ck_id = ''chnk_1'', ck_data = [7]\<rparr>, \<lparr>ck_id = ''chnk_3'', ck_data = [9]\<rparr>]"

definition packed_store :: store where
  "packed_store = example_store [(example_eof ''chnk_2'')\<lparr>k_codecVersion := Some 2, k_chunkCount := Some 0,
      k_lastChunkId := Some ''chnk_3''\<rparr>, block_insert ''t'' ''log'' (Some ''wrun_1'') (example_store []) (block_of late_chunks)]"

lemma late_packable: "list_all packable late_chunks" "late_chunks \<noteq> []" "int (length late_chunks) \<le> 2 ^ 53 - 1"
  by (simp_all add: late_chunks_def packable_def fits_def starts_with_def)

lemma late_pack: "packStreamChunks zeros late_chunks (Some 64) (Some 262144) = Inr [block_of late_chunks]"
proof -
  have "pack_loop zeros 64 262144 late_chunks [] 0 = flush zeros late_chunks (bytes_in late_chunks)"
    by (simp add: late_chunks_def encodedBytes_def ENTRY_HEADER_BYTES_def)
  also have "\<dots> = Inr [block_of late_chunks]"
    by (subst flush_eq) (use late_packable in \<open>simp_all add: zeros_def list_all_iff packable_def\<close>)
  finally show ?thesis by (simp add: packStreamChunks_def positive_safe_def)
qed

lemma late_unpack:
  "unpack_rows (map physical (by_id (filter (\<lambda>k. of_stream ''t'' ''log'' k \<and> \<not> k_eof k) (streams late_store)))) = Inr late_chunks"
  by (simp add: late_store_def example_store_def example_chunk_def example_eof_def chunk_values_def of_stream_def by_id_def
      unpackStreamRow_def physical_def late_chunks_def)

lemma run_late_pack:
  "run (compactOneStream zeros (\<lambda>x. x) 64 262144 (''t'', ''log'', Some ''wrun_1'')) late_store = (Inr (2, 2, 1), packed_store)"
proof -
  have "map (\<lambda>x. x\<lparr>ck_data := ck_data x\<rparr>) late_chunks = late_chunks" by (simp add: late_chunks_def)
  then show ?thesis
    using late_unpack late_pack
    by (simp add: compactOneStream_def run_simps run_stmtE late_packable(2))
      (simp add: late_store_def packed_store_def example_store_def example_chunk_def example_eof_def chunk_values_def
        of_stream_def delete_where_def insert_chunks_def chunk_key_def block_insert_def mark_packed_def update_where_def
        block_of_def late_chunks_def run_simps)
qed

lemma packed_rows:
  "unpackStreamRow (physical (block_insert ''t'' ''log'' (Some ''wrun_1'') (example_store []) (block_of late_chunks))) = Inr late_chunks"
proof -
  have "physical (block_insert t name r s b) = block_row b" for t name r s b
    by (simp add: physical_def block_insert_def block_row_def)
  then show ?thesis using unpack_block [OF late_packable] by simp
qed

text \<open>
  Packing brings back chunks that were written behind a stream's first EOF. Before it, readers
  see the one chunk ahead of the EOF; after it, that chunk and the late one share a block ahead of
  the EOF, so both the pages and the count show two chunks; and a live reader is never closed,
  because the EOF's id is below the last id it was given.
\<close>

theorem packing_revives_late_chunks:
  "map ck_data (stream_view ''t'' ''log'' late_store) = [[7]] \<and>
   fst (run (getInfo ''t'' ''log'') late_store) = Inr (0, True) \<and>
   (\<exists>s. run (compactOneStream zeros (\<lambda>x. x) 64 262144 (''t'', ''log'', Some ''wrun_1'')) late_store = (Inr (2, 2, 1), s) \<and>
     map ck_data (stream_view ''t'' ''log'' s) = [[7], [9]] \<and> fst (run (getInfo ''t'' ''log'') s) = Inr (1, True) \<and>
     (\<exists>rd. run (stream_get ''t'' ''log'' (open_reader None)) s = (Inr rd, s) \<and> rd_sent rd = [[7], [9]] \<and> \<not> rd_closed rd))"
proof -
  note tables = example_store_def example_eof_def chunk_values_def of_stream_def before_eof_def first_eof_def by_id_def
    data_rows_def stream_rows_def stream_view_def less_char_def
  have before: "map ck_data (stream_view ''t'' ''log'' late_store) = [[7]]" "fst (run (getInfo ''t'' ''log'') late_store) = Inr (0, True)"
    by (simp_all add: late_store_def example_chunk_def tables getInfo_def findFirstEofChunkId_def run_simps unpacked_def
        unpackStreamRow_def physical_def)
  have after: "map ck_data (stream_view ''t'' ''log'' packed_store) = [[7], [9]]"
    "fst (run (getInfo ''t'' ''log'') packed_store) = Inr (1, True)"
    using packed_rows
    by (simp_all add: packed_store_def tables getInfo_def findFirstEofChunkId_def run_simps unpacked_def block_insert_def
        block_of_def late_chunks_def)
  have reader: "\<exists>rd. run (stream_get ''t'' ''log'' (open_reader None)) packed_store = (Inr rd, packed_store) \<and>
      rd_sent rd = [[7], [9]] \<and> \<not> rd_closed rd"
  proof -
    have ev: "rows_events (by_id (filter (of_stream ''t'' ''log'') (streams packed_store))) =
        Inr [\<lparr>ce_id = ''chnk_1'', ce_data = [7], ce_eof = False\<rparr>, \<lparr>ce_id = ''chnk_3'', ce_data = [9], ce_eof = False\<rparr>,
          \<lparr>ce_id = ''chnk_2'', ce_data = [], ce_eof = True\<rparr>]"
      using packed_rows
      by (simp add: packed_store_def tables row_events_def block_insert_def block_of_def late_chunks_def)
    have later: "enqueue msg rd = rd\<lparr>rd_lastChunkId := ce_id msg, rd_sent := rd_sent rd @ [ce_data msg]\<rparr>"
      if "\<not> rd_closed rd" "rd_lastChunkId rd < ce_id msg" "\<not> ce_eof msg" "rd_offset rd = 0" "ce_data msg \<noteq> []" for rd msg
      using that by (simp add: enqueue_def Let_def not_le [symmetric])
    have stale: "enqueue msg rd = rd" if "ce_id msg \<le> rd_lastChunkId rd" for rd msg
      using that by (simp add: enqueue_def)
    show ?thesis
      by (simp add: stream_get_def run_simps reader_loaded_def ev negative_offset_def open_reader_def Let_def
          later stale less_eq_char_def less_char_def)
  qed
  from before show ?thesis
    by (intro conjI exI [of _ packed_store]) (rule run_late_pack after reader | assumption)+
qed

definition closed_store :: store where
  "closed_store = example_store [example_chunk ''chnk_1'' [7], example_chunk ''chnk_2'' [8], example_eof ''chnk_3'']"

lemma closed_stream:
  "stream_ok ''t'' ''log'' closed_store" "first_eof ''t'' ''log'' closed_store = Some ''chnk_3''"
  "stream_view ''t'' ''log'' closed_store = [\<lparr>ck_id = ''chnk_1'', ck_data = [7]\<rparr>, \<lparr>ck_id = ''chnk_2'', ck_data = [8]\<rparr>]"
  by (simp_all add: stream_ok_def stream_view_def stream_rows_def data_rows_def first_eof_def by_id_def closed_store_def
      example_store_def example_chunk_def example_eof_def chunk_values_def of_stream_def before_eof_def row_ok_def
      unpacked_def unpackStreamRow_def physical_def last_or_id_def starts_with_def less_char_def)

theorem packing_preserves_stream_witness:
  "\<exists>n s'. run (compactOneStream zeros (\<lambda>x. x) 64 64 (''t'', ''log'', Some ''wrun_1'')) closed_store = (Inr (2, 2, n), s') \<and>
     map ck_data (stream_view ''t'' ''log'' s') = [[7], [8]]"
proof -
  have "\<forall>k \<in> set (streams closed_store). of_stream ''t'' ''log'' k \<and> \<not> k_eof k \<longrightarrow> k_chunkId k < ''chnk_3''"
    "length (stream_rows ''t'' ''log'' closed_store) = 2"
    by (simp_all add: stream_rows_def data_rows_def first_eof_def by_id_def closed_store_def example_store_def example_chunk_def
        example_eof_def chunk_values_def of_stream_def before_eof_def less_char_def)
  with packing_preserves_stream [OF example_packable(2,4,4) closed_stream(1,2), of "\<lambda>x. x" "Some ''wrun_1''"] show ?thesis
    by (auto simp: closed_stream(3) compacted_def packable_def fits_def starts_with_def less_char_def)
qed

end
