(* ===== verification/Dispatch_Contract.thy ===== *)
theory Dispatch_Contract
  imports Slots Complex_Main "HOL-Library.Word"
begin

unbundle bit_operations_syntax

text \<open>
  The contract between the World and the dispatcher: \<open>src/dispatch-contract.ts\<close>,
  \<open>src/message.ts\<close>, \<open>src/queue-policy.ts\<close> and \<open>src/inflight.ts\<close>.

  A JSON value is a datatype; \<open>None\<close> is \<open>undefined\<close>. A message's \<open>data\<close> (bytes) is
  represented by what \<open>JSON.parse\<close> makes of it, \<open>None\<close> when it throws. Seconds that come out of
  JSON are rationals. The functions of \<open>@workflow/world\<close> the queue uses are fields of
  \<open>queue_sdk\<close>, which extends the parameter record of the storage layer.
\<close>

section \<open>Values\<close>

datatype json = JNull | JBool bool | JNumber rat | JString string | JArray "json list"
  | JObject "(string \<times> json) list"

fun field :: "string \<Rightarrow> json option \<Rightarrow> json option" where
  "field k (Some (JObject kvs)) = map_of kvs k"
| "field k _ = None"

record queue_sdk = world_sdk +
  isSingleOrchestratorMessage :: "json option \<Rightarrow> bool"
  messageRunSpecVersion :: "json option \<Rightarrow> int option"
  singleOrchestratorRunIdOf :: "json option \<Rightarrow> run_id option"
  WorkflowInvokePayload_safeParse :: "json option \<Rightarrow> json option"
  QueuePayload_accepts :: "json option \<Rightarrow> bool"
  parseQueueName :: "string \<Rightarrow> error + string"
  getQueueTopicPrefix :: "string option \<Rightarrow> error + string"

text \<open>
  What the properties rely on there: the run's spec version is read off the field
  \<open>runSpecVersion\<close>, and the run an orchestrator message names is its \<open>runId\<close>.
\<close>

definition message_laws :: "'a queue_sdk_scheme \<Rightarrow> bool" where
  "message_laws W \<longleftrightarrow> (\<forall>b. field ''runSpecVersion'' b = None \<longrightarrow> messageRunSpecVersion W b = None) \<and>
     (\<forall>b r. singleOrchestratorRunIdOf W b = Some r \<longrightarrow> field ''runId'' b = Some (JString r))"

section \<open>The stored message\<close>

record message =
  m_attempt :: int
  m_deliveryOffset :: "int option"
  m_attemptOffset :: "int option"
  m_messageId :: string
  m_idempotencyKey :: "string option"
  m_headers :: "(string \<times> string) list option"
  m_id :: string
  m_data :: "json option"
  m_tenantId :: tenant_id
  m_deploymentId :: string
  m_queueNamespace :: "string option"

text \<open>
  A graphile payload: a message, with the queue a timer returns to (\<open>runQueue\<close>) beside it;
  \<open>None\<close> is a payload that is no message. \<open>MessageData.parse\<close> checks the two offsets.
\<close>

type_synonym payload = "(message \<times> string option) option"

definition parse_message :: "payload \<Rightarrow> error + message" where
  "parse_message p = (case p of None \<Rightarrow> Inl ZodError
     | Some (m, _) \<Rightarrow> if (case m_deliveryOffset m of None \<Rightarrow> True | Some n \<Rightarrow> 0 \<le> n) \<and>
         (case m_attemptOffset m of None \<Rightarrow> True | Some n \<Rightarrow> 0 \<le> n) then Inr m else Inl ZodError)"

definition encode_message :: "message \<Rightarrow> payload" where
  "encode_message m = Some (m, None)"

definition readBody :: "message \<Rightarrow> json option" where
  "readBody m = m_data m"

text \<open>The two readers of the run id: a string \<open>runId\<close> or else a string \<open>workflowRunId\<close>.\<close>

definition bodyRunId :: "json option \<Rightarrow> run_id option" where
  "bodyRunId b = (case field ''runId'' b of Some (JString r) \<Rightarrow> Some r
     | _ \<Rightarrow> (case field ''workflowRunId'' b of Some (JString r) \<Rightarrow> Some r | _ \<Rightarrow> None))"

definition readRunId :: "message \<Rightarrow> run_id option" where
  "readRunId m = (case m_data m of Some JNull \<Rightarrow> None | b \<Rightarrow> bodyRunId b)"

section \<open>Names and flags\<close>

definition MAX_GRAPHILE_JOB_ATTEMPTS :: int where "MAX_GRAPHILE_JOB_ATTEMPTS = 49"
definition FLOW_JOB_NAME :: string where "FLOW_JOB_NAME = ''eveland_wf_flows''"
definition TIMER_JOB_NAME :: string where "TIMER_JOB_NAME = ''eveland_wf_timers''"

definition runQueueName :: "tenant_id \<Rightarrow> run_id \<Rightarrow> string" where
  "runQueueName t r = ''wfrun:'' @ t @ '':'' @ r"

definition tenantFlag :: "tenant_id \<Rightarrow> string" where "tenantFlag t = ''project:'' @ t"
definition wakeFlag :: "tenant_id \<Rightarrow> string" where "wakeFlag t = ''wake:'' @ t"

definition isHookWake :: "json \<Rightarrow> bool" where
  "isHookWake v \<longleftrightarrow> field ''stepId'' (Some v) = None \<and>
     (field ''hookInput'' (Some v) \<noteq> None \<or> field ''hookResumeTiming'' (Some v) \<noteq> None)"

section \<open>Version and secret\<close>

datatype rejection = Invalid_version string | Newer_version rat

text \<open>
  Both refusals carry status 400. \<open>num\<close> is JavaScript's \<open>Number\<close> on a string, \<open>None\<close> for
  \<open>NaN\<close> and the infinities.
\<close>

definition DISPATCH_VERSION :: rat where "DISPATCH_VERSION = 1"

definition checkDispatchVersion :: "(string \<Rightarrow> rat option) \<Rightarrow> string option \<Rightarrow> rejection option" where
  "checkDispatchVersion num header = (case header of None \<Rightarrow> None
     | Some h \<Rightarrow> if h = [] then None else (case num h of None \<Rightarrow> Some (Invalid_version h)
        | Some v \<Rightarrow> if v \<notin> \<int> \<or> v \<le> 0 then Some (Invalid_version h)
            else if DISPATCH_VERSION < v then Some (Newer_version v) else None))"

definition RUNTIME_SECRET_ENV_NAMES :: "string list" where
  "RUNTIME_SECRET_ENV_NAMES = [''WORKFLOW_WORLD_RUNTIME_SECRET'', ''EVELAND_SCHEDULER_RUNTIME_SECRET'']"

fun first_value :: "(string \<Rightarrow> string option) \<Rightarrow> string list \<Rightarrow> string option" where
  "first_value env [] = None"
| "first_value env (x # xs) = (case env x of Some v \<Rightarrow> if v \<noteq> [] then Some v else first_value env xs
     | None \<Rightarrow> first_value env xs)"

definition readRuntimeSecretFromEnv :: "(string \<Rightarrow> string option) \<Rightarrow> string option" where
  "readRuntimeSecretFromEnv env = first_value env RUNTIME_SECRET_ENV_NAMES"

fun mismatch :: "32 word \<Rightarrow> string \<Rightarrow> string \<Rightarrow> 32 word" where
  "mismatch acc (x # xs) (y # ys) = mismatch (acc OR (of_char x XOR of_char y)) xs ys"
| "mismatch acc _ _ = acc"

definition secretMatches :: "string \<Rightarrow> string option \<Rightarrow> bool" where
  "secretMatches expected received = (case received of None \<Rightarrow> False
     | Some r \<Rightarrow> r \<noteq> [] \<and> length expected = length r \<and> mismatch 0 expected r = 0)"

section \<open>Run queues\<close>

definition isSingleOrchestratorRunMessage :: "'a queue_sdk_scheme \<Rightarrow> json option \<Rightarrow> bool" where
  "isSingleOrchestratorRunMessage W b \<longleftrightarrow>
     SPEC_VERSION_SINGLE_ORCHESTRATOR W \<le> (case messageRunSpecVersion W b of Some v \<Rightarrow> v | None \<Rightarrow> 0)"

definition runQueueFor :: "'a queue_sdk_scheme \<Rightarrow> tenant_id \<Rightarrow> json option \<Rightarrow> string option" where
  "runQueueFor W t b = map_option (runQueueName t)
     (if isSingleOrchestratorRunMessage W b then singleOrchestratorRunIdOf W b else bodyRunId b)"

definition mayBypassRunQueue :: "'a queue_sdk_scheme \<Rightarrow> json \<Rightarrow> bool" where
  "mayBypassRunQueue W v \<longleftrightarrow> isHookWake v \<and> \<not> isSingleOrchestratorRunMessage W (Some v)"

datatype job_key_mode = Unsafe_dedupe

definition jobKeyModeFor :: "'a queue_sdk_scheme \<Rightarrow> json option \<Rightarrow> string option \<Rightarrow> job_key_mode option" where
  "jobKeyModeFor W b key = (if key \<noteq> None \<and> isSingleOrchestratorMessage W b then Some Unsafe_dedupe else None)"

section \<open>Counting deliveries\<close>

record delivery =
  d_attempt :: int
  d_deliveryCount :: int

definition deliveryAccounting :: "message \<Rightarrow> int option \<Rightarrow> delivery" where
  "deliveryAccounting m jobAttempts = (case jobAttempts of
     None \<Rightarrow> \<lparr>d_attempt = m_attempt m, d_deliveryCount = m_attempt m\<rparr>
   | Some a \<Rightarrow> \<lparr>d_attempt = a + (case m_attemptOffset m of Some n \<Rightarrow> n | None \<Rightarrow> 0),
       d_deliveryCount = a + (case m_deliveryOffset m of Some n \<Rightarrow> n
          | None \<Rightarrow> (case m_attemptOffset m of Some n \<Rightarrow> n | None \<Rightarrow> 0))\<rparr>)"

text \<open>An offset that is absent or 0 is left out.\<close>

definition positive_offset :: "int option \<Rightarrow> int option" where
  "positive_offset x = (if x = Some 0 then None else x)"

definition continuationOf :: "'a queue_sdk_scheme \<Rightarrow> message \<Rightarrow> delivery \<Rightarrow> rat \<Rightarrow> json option \<Rightarrow> message" where
  "continuationOf W m d timeoutSeconds b =
     (let handoff = timeoutSeconds = 0 \<and> isSingleOrchestratorMessage W b;
          attemptOffset = (if handoff then Some (d_attempt d - 1) else m_attemptOffset m)
      in m\<lparr>m_attempt := (if handoff then d_attempt d else d_attempt d + 1),
           m_attemptOffset := positive_offset attemptOffset,
           m_deliveryOffset := Some (d_deliveryCount d)\<rparr>)"

section \<open>Facts\<close>

lemma readRunId_body: "readRunId m = bodyRunId (readBody m)"
  by (auto simp: readRunId_def readBody_def bodyRunId_def split: option.splits json.splits)

lemma mismatch_zero:
  "length xs = length ys \<Longrightarrow> mismatch acc xs ys = 0 \<longleftrightarrow> acc = 0 \<and> xs = ys"
proof (induction acc xs ys rule: mismatch.induct)
  case (1 acc x xs y ys)
  have small: "of_char c mod 4294967296 = (of_char c :: nat)" for c
  proof -
    have "of_char c mod 256 < (256 :: nat)" by (rule mod_less_divisor) simp
    then have "of_char c < (256 :: nat)" by (simp only: of_char_mod_256)
    then show ?thesis by (intro mod_less) linarith
  qed
  have "(of_char x XOR of_char y :: 32 word) = 0 \<longleftrightarrow> x = y"
  proof
    assume "(of_char x XOR of_char y :: 32 word) = 0"
    then have "((of_char x XOR of_char y) XOR of_char y :: 32 word) = of_char y" by (simp only: xor.left_neutral)
    then have "(of_char x :: 32 word) = of_char y" by (simp only: xor.assoc xor_self_eq xor.right_neutral)
    then have "unat (of_nat (of_char x) :: 32 word) = unat (of_nat (of_char y) :: 32 word)"
      by (simp only: of_nat_of_char)
    then show "x = y" by (simp add: unat_of_nat small)
  qed simp
  with 1 show ?case by (auto simp: or_eq_0_iff)
qed auto

lemma secretMatches_iff: "secretMatches expected received \<longleftrightarrow> received = Some expected \<and> expected \<noteq> []"
  by (auto simp: secretMatches_def mismatch_zero split: option.splits)

end
