(* ===== verification/Host.thy ===== *)
theory Host
  imports Store Dispatch_Contract
begin

text \<open>
  The database as the queue, the dispatcher and the host's maintenance see it: the tables of
  \<open>store\<close>, the dead letters of \<open>workflow.dispatch_dead_letters\<close>, the columns of graphile's
  private tables the SQL of the repository touches, and the calls of graphile's \<open>addJob\<close>, oldest
  first. What graphile does with a call is its own; whether it takes one is a parameter
  (\<open>accepts\<close>), since the call may throw.
\<close>

section \<open>Reasons\<close>

text \<open>Why a delivery was dead-lettered or is retried; the texts are left out.\<close>

datatype reason =
    Not_activatable string string
  | Activation_failed int string
  | Unusable_address string
  | Rejected_dispatch int string
  | Executor_failing int int int string
  | Dispatch_failed int string
  | Dispatch_threw error
  | Retries_exhausted reason
  | Host_reason string

record dead_letter =
  dl_tenantId :: tenant_id
  dl_deploymentId :: string
  dl_runId :: "run_id option"
  dl_messageId :: string
  dl_jobName :: "string option"
  dl_queueName :: "string option"
  dl_attempt :: int
  dl_reason :: reason
  dl_payload :: payload
  dl_resolvedAt :: "timestamp option"

section \<open>Graphile\<close>

record job_spec =
  js_jobKey :: "string option"
  js_jobKeyMode :: "job_key_mode option"
  js_runAt :: "timestamp option"
  js_queueName :: "string option"
  js_maxAttempts :: int
  js_flags :: "string list option"

record job_request =
  jr_identifier :: string
  jr_payload :: payload
  jr_spec :: job_spec

record task_row =
  t_id :: int
  t_identifier :: string

record queue_row =
  q_id :: int
  q_queueName :: string
  q_lockedBy :: "string option"
  q_lockedAt :: "timestamp option"

record job_row =
  j_id :: int
  j_taskId :: int
  j_queueId :: "int option"
  j_payload :: payload
  j_flags :: "string list option"
  j_key :: "string option"
  j_attempts :: int
  j_maxAttempts :: int
  j_runAt :: timestamp
  j_lockedBy :: "string option"
  j_lockedAt :: "timestamp option"
  j_revision :: int
  j_updatedAt :: timestamp

record host = store +
  dead_letters :: "dead_letter list"
  tasks :: "task_row list"
  job_queues :: "queue_row list"
  jobs :: "job_row list"
  added :: "job_request list"

type_synonym 'a hio = "(host, error, 'a) prog"

definition addJob :: "(job_request \<Rightarrow> bool) \<Rightarrow> string \<Rightarrow> payload \<Rightarrow> job_spec \<Rightarrow> (('s host_scheme, error, unit) prog)" where
  "addJob accepts identifier p spec =
     (let request = \<lparr>jr_identifier = identifier, jr_payload = p, jr_spec = spec\<rparr>
      in if accepts request then exec (\<lambda>s. s\<lparr>added := added s @ [request]\<rparr>) else Throw PlainError)"

lemma run_addJob [run_simps]:
  "run (addJob accepts i p spec) s =
     (let request = \<lparr>jr_identifier = i, jr_payload = p, jr_spec = spec\<rparr>
      in if accepts request then (Inr (), s\<lparr>added := added s @ [request]\<rparr>) else (Inl PlainError, s))"
  by (simp add: addJob_def run_simps Let_def)

section \<open>Quarantine\<close>

text \<open>An unresolved dead letter of the run.\<close>

definition unresolved :: "tenant_id \<Rightarrow> run_id \<Rightarrow> dead_letter \<Rightarrow> bool" where
  "unresolved t r d \<longleftrightarrow> dl_tenantId d = t \<and> dl_runId d = Some r \<and> dl_resolvedAt d = None"

definition quarantined :: "tenant_id \<Rightarrow> run_id \<Rightarrow> 's host_scheme \<Rightarrow> bool" where
  "quarantined t r s = has_row (unresolved t r) (dead_letters s)"

definition active :: "run_row \<Rightarrow> bool" where
  "active x \<longleftrightarrow> r_status x \<in> {Run_pending, Run_running}"

lemma active_iff: "active x \<longleftrightarrow> \<not> run_ended x"
  by (cases "r_status x") (simp_all add: active_def run_ended_def)

end
