(* ===== verification/Delivery.thy ===== *)
theory Delivery
  imports Dispatch_Contract
begin

text \<open>
  The deliveries of one message. A message starts on a job of its own; graphile claims the job
  (again after a failed delivery), each claim raising the job's attempts by one and giving one
  delivery; an answer \<open>{ timeoutSeconds }\<close> moves the message to a fresh job through
  \<open>continuationOf\<close>. \<open>delivered W m0 ds m a\<close>: after the deliveries \<open>ds\<close> of \<open>m0\<close>, the current job
  holds \<open>m\<close> and has been claimed \<open>a\<close> times.
\<close>

definition fresh_message :: "message \<Rightarrow> bool" where
  "fresh_message m \<longleftrightarrow> m_attempt m = 1 \<and> m_deliveryOffset m = None \<and> m_attemptOffset m = None"

inductive delivered :: "'a queue_sdk_scheme \<Rightarrow> message \<Rightarrow> delivery list \<Rightarrow> message \<Rightarrow> int \<Rightarrow> bool"
  for W m0 where
  sent: "fresh_message m0 \<Longrightarrow> delivered W m0 [] m0 0"
| claimed: "delivered W m0 ds m a \<Longrightarrow>
     delivered W m0 (ds @ [deliveryAccounting m (Some (a + 1))]) m (a + 1)"
| rescheduled: "delivered W m0 ds m a \<Longrightarrow> 0 < a \<Longrightarrow> 0 \<le> t \<Longrightarrow>
     delivered W m0 ds (continuationOf W m (deliveryAccounting m (Some a)) t (readBody m)) 0"

definition offset :: "int option \<Rightarrow> int" where
  "offset x = (case x of Some n \<Rightarrow> n | None \<Rightarrow> 0)"

lemma accounting_simps:
  "d_attempt (deliveryAccounting m (Some a)) = a + offset (m_attemptOffset m)"
  "m_deliveryOffset m = None \<Longrightarrow> d_deliveryCount (deliveryAccounting m (Some a)) = a + offset (m_attemptOffset m)"
  "m_deliveryOffset m = Some n \<Longrightarrow> d_deliveryCount (deliveryAccounting m (Some a)) = a + n"
  by (simp_all add: deliveryAccounting_def offset_def split: option.split)

lemma offset_positive [simp]: "offset None = 0" "offset (positive_offset x) = offset x"
  by (simp_all add: offset_def positive_offset_def)

lemma continuation_fields [simp]:
  "m_deliveryOffset (continuationOf W m d t b) = Some (d_deliveryCount d)"
  "offset (m_attemptOffset (continuationOf W m d t b)) =
     (if t = 0 \<and> isSingleOrchestratorMessage W b then d_attempt d - 1 else offset (m_attemptOffset m))"
  "m_messageId (continuationOf W m d t b) = m_messageId m"
  "m_tenantId (continuationOf W m d t b) = m_tenantId m"
  "m_deploymentId (continuationOf W m d t b) = m_deploymentId m"
  "m_idempotencyKey (continuationOf W m d t b) = m_idempotencyKey m"
  "m_data (continuationOf W m d t b) = m_data m"
  "m_id (continuationOf W m d t b) = m_id m"
  "m_queueNamespace (continuationOf W m d t b) = m_queueNamespace m"
  by (simp_all add: continuationOf_def Let_def) (simp add: offset_def)

lemma upto_snoc: "[1..int n] @ [int n + 1] = [1..int n + 1]"
  by (simp add: upto_rec2)

text \<open>
  The state of a history: the job's attempts and the stored offset add up to the deliveries so
  far, and no more attempts are carried over than deliveries were made.
\<close>

lemma delivered_offsets:
  assumes "delivered W m0 ds m a"
  shows "0 \<le> a \<and> 0 \<le> offset (m_attemptOffset m) \<and>
     (case m_deliveryOffset m of None \<Rightarrow> m_attemptOffset m = None \<and> a = int (length ds)
      | Some n \<Rightarrow> a + n = int (length ds) \<and> offset (m_attemptOffset m) \<le> n) \<and>
     map d_deliveryCount ds = [1..int (length ds)] \<and>
     (\<forall>d \<in> set ds. 1 \<le> d_attempt d \<and> d_attempt d \<le> d_deliveryCount d)"
  using assms
proof induction
  case sent
  then show ?case by (simp add: fresh_message_def offset_def)
next
  case (claimed ds m a)
  let ?d = "deliveryAccounting m (Some (a + 1))"
  have "d_deliveryCount ?d = int (length ds) + 1 \<and> 1 \<le> d_attempt ?d \<and> d_attempt ?d \<le> d_deliveryCount ?d"
    using claimed.IH by (cases "m_deliveryOffset m") (simp_all add: accounting_simps offset_def)
  then show ?case
    using claimed.IH upto_snoc [of "length ds"] by (cases "m_deliveryOffset m") (auto simp: algebra_simps)
next
  case (rescheduled ds m a t)
  then show ?case
    by (cases "m_deliveryOffset m") (auto simp: accounting_simps)
qed

text \<open>
  C19. Every delivery of a message is counted, whatever caused it: the \<open>deliveryCount\<close>s of its
  deliveries are 1, 2, 3, ..., across retries, reschedules and handoffs, so that only the first
  one reports 1; and the \<open>attempt\<close> the runtime's cap counts is at least 1 and never more than the
  deliveries so far.
\<close>

theorem deliveries_counted:
  assumes "delivered W m0 ds m a"
  shows "map d_deliveryCount ds = [1..int (length ds)] \<and>
     (\<forall>d \<in> set ds. 1 \<le> d_attempt d \<and> d_attempt d \<le> d_deliveryCount d)"
  using delivered_offsets [OF assms] by simp

text \<open>
  A message that is no orchestrator message is never handed off: its attempts are those of its
  current job, and start over with every reschedule.
\<close>

lemma attempts_start_over:
  "delivered W m0 ds m a \<Longrightarrow> \<not> isSingleOrchestratorMessage W (m_data m0) \<Longrightarrow>
     m_data m = m_data m0 \<and> d_attempt (deliveryAccounting m (Some k)) = k"
  by (induction rule: delivered.induct)
    (simp_all add: accounting_simps fresh_message_def readBody_def)

section \<open>A history\<close>

definition example_queue_sdk :: queue_sdk where
  "example_queue_sdk = world_sdk.extend example_sdk (queue_sdk.fields
     (\<lambda>b. field ''runSpecVersion'' b = Some (JNumber 9))
     (\<lambda>b. case field ''runSpecVersion'' b of Some (JNumber n) \<Rightarrow> Some \<lfloor>n\<rfloor> | _ \<Rightarrow> None)
     (\<lambda>b. case field ''runId'' b of Some (JString r) \<Rightarrow> Some r | _ \<Rightarrow> None)
     (\<lambda>b. case field ''runId'' b of Some (JString r) \<Rightarrow> b | _ \<Rightarrow> None)
     (\<lambda>b. b \<noteq> None) (\<lambda>q. Inr (drop 15 q)) (\<lambda>ns. Inr ''__wkf_workflow_''))"

definition example_message :: message where
  "example_message = \<lparr>m_attempt = 1, m_deliveryOffset = None, m_attemptOffset = None, m_messageId = ''msg_1'',
     m_idempotencyKey = None, m_headers = None, m_id = ''wf'',
     m_data = Some (JObject [(''runId'', JString ''r''), (''runSpecVersion'', JNumber 9)]),
     m_tenantId = ''t'', m_deploymentId = ''d'', m_queueNamespace = None\<rparr>"

text \<open>A failed delivery, a retry that hands off, a delivery that sleeps, and the one after the sleep.\<close>

definition handed_off :: message where
  "handed_off = continuationOf example_queue_sdk example_message \<lparr>d_attempt = 2, d_deliveryCount = 2\<rparr> 0
     (m_data example_message)"

definition slept :: message where
  "slept = continuationOf example_queue_sdk handed_off \<lparr>d_attempt = 2, d_deliveryCount = 3\<rparr> 60 (m_data example_message)"

lemmas history_simps = handed_off_def slept_def example_message_def example_queue_sdk_def world_sdk.defs
  queue_sdk.defs continuationOf_def deliveryAccounting_def positive_offset_def fresh_message_def readBody_def

lemma example_history:
  "delivered example_queue_sdk example_message [\<lparr>d_attempt = 1, d_deliveryCount = 1\<rparr>,
     \<lparr>d_attempt = 2, d_deliveryCount = 2\<rparr>, \<lparr>d_attempt = 2, d_deliveryCount = 3\<rparr>,
     \<lparr>d_attempt = 2, d_deliveryCount = 4\<rparr>] slept 1"
proof -
  let ?W = example_queue_sdk and ?m = example_message
  have "delivered ?W ?m [] ?m 0" by (rule sent) (simp add: history_simps)
  from claimed [OF this] have "delivered ?W ?m [\<lparr>d_attempt = 1, d_deliveryCount = 1\<rparr>] ?m 1"
    by (simp add: history_simps)
  from claimed [OF this] have "delivered ?W ?m [\<lparr>d_attempt = 1, d_deliveryCount = 1\<rparr>,
      \<lparr>d_attempt = 2, d_deliveryCount = 2\<rparr>] ?m 2" by (simp add: history_simps)
  from rescheduled [OF this, of 0] have "delivered ?W ?m [\<lparr>d_attempt = 1, d_deliveryCount = 1\<rparr>,
      \<lparr>d_attempt = 2, d_deliveryCount = 2\<rparr>] handed_off 0" by (simp add: history_simps)
  from claimed [OF this] have "delivered ?W ?m [\<lparr>d_attempt = 1, d_deliveryCount = 1\<rparr>,
      \<lparr>d_attempt = 2, d_deliveryCount = 2\<rparr>, \<lparr>d_attempt = 2, d_deliveryCount = 3\<rparr>] handed_off 1"
    by (simp add: history_simps)
  from rescheduled [OF this, of 60] have "delivered ?W ?m [\<lparr>d_attempt = 1, d_deliveryCount = 1\<rparr>,
      \<lparr>d_attempt = 2, d_deliveryCount = 2\<rparr>, \<lparr>d_attempt = 2, d_deliveryCount = 3\<rparr>] slept 0"
    by (simp add: history_simps)
  from claimed [OF this] show ?thesis by (simp add: history_simps)
qed

theorem deliveries_counted_witness:
  "map d_deliveryCount [\<lparr>d_attempt = 1, d_deliveryCount = 1\<rparr>,
     \<lparr>d_attempt = 2, d_deliveryCount = 2\<rparr>, \<lparr>d_attempt = 2, d_deliveryCount = 3\<rparr>,
     \<lparr>d_attempt = 2, d_deliveryCount = 4\<rparr>] = [1..int 4]"
  using deliveries_counted [OF example_history] by simp

text \<open>
  The comment on \<open>deliveryAccounting\<close> says that the attempt starts over on a reschedule with a
  positive delay. On a run that was handed off before, it does not: the carried attempts stay.
\<close>

lemma attempts_outlast_sleep:
  "m_attemptOffset slept = Some 1 \<and> d_attempt (deliveryAccounting slept (Some 1)) = 2"
  by (simp add: history_simps)

end
