(* ===== verification/Timers.thy ===== *)
theory Timers
  imports Host Delivery
begin

text \<open>
  Delayed deliveries held outside their run's queue: \<open>src/timers.ts\<close>.
\<close>

section \<open>Operations\<close>

definition TIMER_HORIZON_SECONDS :: rat where "TIMER_HORIZON_SECONDS = 60"

definition holdsAsTimer :: "string option \<Rightarrow> rat option \<Rightarrow> bool" where
  "holdsAsTimer runQueue delaySeconds \<longleftrightarrow> runQueue \<noteq> None \<and>
     (case delaySeconds of None \<Rightarrow> False | Some d \<Rightarrow> TIMER_HORIZON_SECONDS \<le> d)"

definition runQueueOfMessage :: "'a queue_sdk_scheme \<Rightarrow> message \<Rightarrow> string option" where
  "runQueueOfMessage W m = runQueueFor W (m_tenantId m) (readBody m)"

definition timerPayload :: "payload \<Rightarrow> string \<Rightarrow> payload" where
  "timerPayload encoded q = map_option (\<lambda>(m, _). (m, Some q)) encoded"

text \<open>\<open>new Date(now + delaySeconds * 1000)\<close>: a date holds whole milliseconds.\<close>

definition due_at :: "timestamp \<Rightarrow> rat \<Rightarrow> timestamp" where
  "due_at t delaySeconds = t + \<lfloor>delaySeconds * 1000\<rfloor>"

definition addDelayedDelivery :: "'a queue_sdk_scheme \<Rightarrow> (job_request \<Rightarrow> bool) \<Rightarrow> timestamp \<Rightarrow> string \<Rightarrow> message \<Rightarrow>
    rat \<Rightarrow> string \<Rightarrow> ('s host_scheme, error, unit) prog" where
  "addDelayedDelivery W accepts t jobName m delaySeconds jobKey =
     (let runQueue = runQueueOfMessage W m; runAt = due_at t delaySeconds in
      case runQueue of
        Some q \<Rightarrow>
          if q \<noteq> [] \<and> jobName = FLOW_JOB_NAME \<and> holdsAsTimer runQueue (Some delaySeconds)
          then addJob accepts TIMER_JOB_NAME (timerPayload (encode_message m) q)
            \<lparr>js_jobKey = Some jobKey, js_jobKeyMode = None, js_runAt = Some runAt, js_queueName = None,
             js_maxAttempts = MAX_GRAPHILE_JOB_ATTEMPTS, js_flags = None\<rparr>
          else addJob accepts jobName (encode_message m)
            \<lparr>js_jobKey = Some jobKey, js_jobKeyMode = None, js_runAt = Some runAt,
             js_queueName = (if q \<noteq> [] then Some q else None),
             js_maxAttempts = MAX_GRAPHILE_JOB_ATTEMPTS, js_flags = Some [tenantFlag (m_tenantId m)]\<rparr>
      | None \<Rightarrow> addJob accepts jobName (encode_message m)
            \<lparr>js_jobKey = Some jobKey, js_jobKeyMode = None, js_runAt = Some runAt, js_queueName = None,
             js_maxAttempts = MAX_GRAPHILE_JOB_ATTEMPTS, js_flags = Some [tenantFlag (m_tenantId m)]\<rparr>)"

text \<open>\<open>TimerTarget.parse\<close>: the recorded queue, which must not be empty.\<close>

definition timer_target :: "payload \<Rightarrow> error + string option" where
  "timer_target p = (case p of None \<Rightarrow> Inl ZodError
     | Some (_, q) \<Rightarrow> if q = Some [] then Inl ZodError else Inr q)"

definition readJobKey :: "job_row option \<Rightarrow> string option" where
  "readJobKey job = (case job of None \<Rightarrow> None
     | Some j \<Rightarrow> (case j_key j of Some k \<Rightarrow> if k \<noteq> [] then Some k else None | None \<Rightarrow> None))"

definition timer_handler :: "'a queue_sdk_scheme \<Rightarrow> (job_request \<Rightarrow> bool) \<Rightarrow> string \<Rightarrow> payload \<Rightarrow> job_row option \<Rightarrow>
    ('s host_scheme, error, unit) prog" where
  "timer_handler W accepts flowJobName p job =
     (case bindE (parse_message p) (\<lambda>m. bindE (timer_target p) (\<lambda>q. Inr (m, q))) of
        Inl e \<Rightarrow> Throw e
      | Inr (m, target) \<Rightarrow>
          let runQueue = (case target of Some q \<Rightarrow> Some q | None \<Rightarrow> runQueueOfMessage W m) in
          addJob accepts flowJobName (encode_message m)
            \<lparr>js_jobKey = readJobKey job, js_jobKeyMode = None, js_runAt = None, js_queueName = runQueue,
             js_maxAttempts = MAX_GRAPHILE_JOB_ATTEMPTS, js_flags = Some [tenantFlag (m_tenantId m)]\<rparr>)"

text \<open>
  The sweep, one \<open>UPDATE ... FROM\<close> over the private tables: \<open>movable\<close> is its \<open>WHERE\<close>
  clause, \<open>queue_of\<close> and \<open>task_id\<close> its joins. A payload that is no JSON object is \<open>None\<close>.
\<close>

definition queue_of :: "'s host_scheme \<Rightarrow> job_row \<Rightarrow> queue_row option" where
  "queue_of s j = find (\<lambda>q. j_queueId j = Some (q_id q)) (job_queues s)"

definition task_id :: "'s host_scheme \<Rightarrow> string \<Rightarrow> int option" where
  "task_id s name = map_option t_id (find (\<lambda>t. t_identifier t = name) (tasks s))"

definition movable :: "string \<Rightarrow> rat \<Rightarrow> 's host_scheme \<Rightarrow> job_row \<Rightarrow> bool" where
  "movable flow horizon s j \<longleftrightarrow> task_id s flow = Some (j_taskId j) \<and>
     (case queue_of s j of None \<Rightarrow> False | Some q \<Rightarrow> take 6 (q_queueName q) = ''wfrun:'') \<and>
     j_lockedAt j = None \<and> j_attempts j = 0 \<and> due_at (db_now s) horizon < j_runAt j \<and> j_payload j \<noteq> None"

definition to_timer :: "int \<Rightarrow> 's host_scheme \<Rightarrow> job_row \<Rightarrow> job_row" where
  "to_timer timer s j = j\<lparr>j_taskId := timer, j_queueId := None, j_flags := None,
     j_payload := (case queue_of s j of Some q \<Rightarrow> timerPayload (j_payload j) (q_queueName q) | None \<Rightarrow> j_payload j),
     j_revision := j_revision j + 1, j_updatedAt := db_now s\<rparr>"

definition moveDelayedJobsToTimers :: "string \<Rightarrow> string \<Rightarrow> rat \<Rightarrow> ('s host_scheme, error, nat) prog" where
  "moveDelayedJobsToTimers flow timer horizon = stmt (\<lambda>s. case task_id s timer of
     None \<Rightarrow> (0, s)
   | Some i \<Rightarrow> (length (filter (movable flow horizon s) (jobs s)),
       s\<lparr>jobs := update_where (movable flow horizon s) (to_timer i s) (jobs s)\<rparr>))"

definition registerTimerTask :: "int \<Rightarrow> string \<Rightarrow> ('s host_scheme, error, unit) prog" where
  "registerTimerTask fresh name = exec (\<lambda>s. s\<lparr>tasks :=
     insert_unless (\<lambda>t. t_identifier t = name) \<lparr>t_id = fresh, t_identifier = name\<rparr> (tasks s)\<rparr>)"

section \<open>A delay is only a delay\<close>

lemma payload_parse:
  "parse_message p = Inr m \<Longrightarrow> \<exists>q. p = Some (m, q)"
  by (auto simp: parse_message_def split: option.splits prod.splits if_splits)

lemma parse_timerPayload [simp]: "parse_message (timerPayload p q) = parse_message p"
  by (auto simp: parse_message_def timerPayload_def split: option.splits)

lemma runQueueName_nonempty [simp]: "runQueueName t r \<noteq> []"
  by (simp add: runQueueName_def)

lemma runQueueFor_nonempty: "runQueueFor W t b = Some q \<Longrightarrow> q \<noteq> []"
  by (auto simp: runQueueFor_def)

lemma moved_fields [simp]:
  "j_queueId (to_timer i s j) = None" "j_key (to_timer i s j) = j_key j" "j_runAt (to_timer i s j) = j_runAt j"
  "j_attempts (to_timer i s j) = j_attempts j" "j_maxAttempts (to_timer i s j) = j_maxAttempts j"
  "j_taskId (to_timer i s j) = i" "j_lockedAt (to_timer i s j) = j_lockedAt j"
  "queue_of s j = Some q \<Longrightarrow> j_payload (to_timer i s j) = timerPayload (j_payload j) (q_queueName q)"
  by (simp_all add: to_timer_def)

lemma run_sweep:
  "task_id s timer = Some i \<Longrightarrow> run (moveDelayedJobsToTimers flow timer horizon) s =
     (Inr (length (filter (movable flow horizon s) (jobs s))),
      s\<lparr>jobs := update_where (movable flow horizon s) (to_timer i s) (jobs s)\<rparr>)"
  by (simp add: moveDelayedJobsToTimers_def run_simps)

lemma movable_frame [simp]:
  "movable flow horizon (s\<lparr>jobs := js\<rparr>) j = movable flow horizon s j"
  by (simp add: movable_def task_id_def queue_of_def)

lemma run_promotion:
  assumes "parse_message p = Inr m" and "timer_target p = Inr (Some q)"
    and "accepts \<lparr>jr_identifier = flow, jr_payload = encode_message m,
       jr_spec = \<lparr>js_jobKey = readJobKey job, js_jobKeyMode = None, js_runAt = None, js_queueName = Some q,
         js_maxAttempts = MAX_GRAPHILE_JOB_ATTEMPTS, js_flags = Some [tenantFlag (m_tenantId m)]\<rparr>\<rparr>"
  shows "run (timer_handler W accepts flow p job) s = (Inr (), s\<lparr>added := added s @
     [\<lparr>jr_identifier = flow, jr_payload = encode_message m,
       jr_spec = \<lparr>js_jobKey = readJobKey job, js_jobKeyMode = None, js_runAt = None, js_queueName = Some q,
         js_maxAttempts = MAX_GRAPHILE_JOB_ATTEMPTS, js_flags = Some [tenantFlag (m_tenantId m)]\<rparr>\<rparr>]\<rparr>)"
  using assms by (simp add: timer_handler_def run_simps Let_def)

lemma swept_job_returns_facts:
  assumes timer: "task_id s timer = Some i" and flow: "task_id s flow \<noteq> Some i"
    and j: "j \<in> set (jobs s)" "movable flow horizon s j" and q: "queue_of s j = Some q"
    and m: "parse_message (j_payload j) = Inr m"
  defines "s' \<equiv> snd (run (moveDelayedJobsToTimers flow timer horizon) s)"
    and "j' \<equiv> to_timer i s j"
  shows "fst (run (moveDelayedJobsToTimers flow timer horizon) s) = Inr (length (filter (movable flow horizon s) (jobs s)))"
    "fst (run (moveDelayedJobsToTimers flow timer horizon) s') = Inr 0"
    "list_all2 (\<lambda>x y. if movable flow horizon s x then y = to_timer i s x else y = x) (jobs s) (jobs s')"
    "j' \<in> set (jobs s') \<and> j_queueId j' = None \<and> j_runAt j' = j_runAt j \<and> j_key j' = j_key j \<and> j_attempts j' = 0"
    "run (timer_handler W (\<lambda>_. True) flow (j_payload j') (Some j')) s' = (Inr (), s'\<lparr>added := added s' @
       [\<lparr>jr_identifier = flow, jr_payload = encode_message m,
         jr_spec = \<lparr>js_jobKey = readJobKey (Some j), js_jobKeyMode = None, js_runAt = None,
           js_queueName = Some (q_queueName q), js_maxAttempts = MAX_GRAPHILE_JOB_ATTEMPTS,
           js_flags = Some [tenantFlag (m_tenantId m)]\<rparr>\<rparr>]\<rparr>)"
proof -
  have s': "s' = s\<lparr>jobs := update_where (movable flow horizon s) (to_timer i s) (jobs s)\<rparr>"
    by (simp add: s'_def run_sweep [OF timer])
  show "fst (run (moveDelayedJobsToTimers flow timer horizon) s) = Inr (length (filter (movable flow horizon s) (jobs s)))"
    by (simp add: run_sweep [OF timer])
  have "task_id s' timer = Some i" using timer by (simp add: s' task_id_def)
  moreover have "\<not> movable flow horizon s (to_timer i s x)" for x
    using flow by (simp add: movable_def)
  ultimately show "fst (run (moveDelayedJobsToTimers flow timer horizon) s') = Inr 0"
    by (auto simp: run_sweep s' update_where_def filter_empty_conv)
  show "list_all2 (\<lambda>x y. if movable flow horizon s x then y = to_timer i s x else y = x) (jobs s) (jobs s')"
    by (simp add: s' update_where_def list_all2_conv_all_nth)
  show "j' \<in> set (jobs s') \<and> j_queueId j' = None \<and> j_runAt j' = j_runAt j \<and> j_key j' = j_key j \<and> j_attempts j' = 0"
    using j by (auto simp: s' j'_def table_simps movable_def)
  have "timer_target (j_payload j') = Inr (Some (q_queueName q))"
    using payload_parse [OF m] j(2) q
    by (auto simp: j'_def timer_target_def timerPayload_def movable_def)
  then show "run (timer_handler W (\<lambda>_. True) flow (j_payload j') (Some j')) s' = (Inr (), s'\<lparr>added := added s' @
       [\<lparr>jr_identifier = flow, jr_payload = encode_message m,
         jr_spec = \<lparr>js_jobKey = readJobKey (Some j), js_jobKeyMode = None, js_runAt = None,
           js_queueName = Some (q_queueName q), js_maxAttempts = MAX_GRAPHILE_JOB_ATTEMPTS,
           js_flags = Some [tenantFlag (m_tenantId m)]\<rparr>\<rparr>]\<rparr>)"
    using m q by (subst run_promotion [where m = m and q = "q_queueName q"]) (simp_all add: j'_def readJobKey_def)
qed

text \<open>
  C20. The sweep moves exactly the flow jobs that wait unclaimed on a run queue and are due
  beyond the horizon, changes no other job, and a second sweep moves nothing. A moved job keeps
  its message, key, due time and attempts and leaves its queue; when it comes due, the timer task
  adds the very message, under the same key, back to the very queue it left.
\<close>

theorem swept_job_returns:
  assumes "task_id s timer = Some i" and "task_id s flow \<noteq> Some i"
    and "j \<in> set (jobs s)" and "movable flow horizon s j" and "queue_of s j = Some q"
    and "parse_message (j_payload j) = Inr m"
    and "run (moveDelayedJobsToTimers flow timer horizon) s = (n, s')"
  shows "n = Inr (length (filter (movable flow horizon s) (jobs s))) \<and>
    fst (run (moveDelayedJobsToTimers flow timer horizon) s') = Inr 0 \<and>
    list_all2 (\<lambda>x y. if movable flow horizon s x then y = to_timer i s x else y = x) (jobs s) (jobs s') \<and>
    (\<exists>j' \<in> set (jobs s'). j' = to_timer i s j \<and> j_queueId j' = None \<and> j_runAt j' = j_runAt j \<and> j_key j' = j_key j \<and>
       j_attempts j' = 0 \<and>
       run (timer_handler W (\<lambda>_. True) flow (j_payload j') (Some j')) s' = (Inr (), s'\<lparr>added := added s' @
         [\<lparr>jr_identifier = flow, jr_payload = encode_message m,
           jr_spec = \<lparr>js_jobKey = readJobKey (Some j), js_jobKeyMode = None, js_runAt = None,
             js_queueName = Some (q_queueName q), js_maxAttempts = MAX_GRAPHILE_JOB_ATTEMPTS,
             js_flags = Some [tenantFlag (m_tenantId m)]\<rparr>\<rparr>]\<rparr>))"
proof -
  have s': "s' = snd (run (moveDelayedJobsToTimers flow timer horizon) s)"
    and n: "n = fst (run (moveDelayedJobsToTimers flow timer horizon) s)" using assms(7) by simp_all
  note facts = swept_job_returns_facts [OF assms(1-6), folded s' n]
  show ?thesis using facts(4) by (intro conjI facts(1-3) bexI [of _ "to_timer i s j"] facts(5)) simp_all
qed


end
