(* ===== verification/Recency.thy ===== *)
theory Recency
  imports Prelude
begin

text \<open>
  Bounded caches over JavaScript's insertion-ordered collections. A \<open>Set\<close> is the list of its
  elements and a \<open>Map\<close> the list of its entries, oldest first; the code keeps recency by deleting
  a key before it adds it again, and evicts the first key when the collection outgrows its limit.
  The locale \<open>recency\<close> is that contract. Its client lemma says what such a cache holds after any
  sequence of additions: exactly the \<open>limit\<close> most recently added keys.
\<close>

section \<open>Insertion-ordered collections\<close>

definition set_add :: "'k \<Rightarrow> 'k list \<Rightarrow> 'k list" where
  "set_add k s = (if k \<in> set s then s else s @ [k])"

definition set_delete :: "'k \<Rightarrow> 'k list \<Rightarrow> 'k list" where
  "set_delete k s = filter (\<lambda>x. x \<noteq> k) s"

definition map_delete :: "'k \<Rightarrow> ('k \<times> 'v) list \<Rightarrow> ('k \<times> 'v) list" where
  "map_delete k m = filter (\<lambda>x. fst x \<noteq> k) m"

definition map_set :: "'k \<Rightarrow> 'v \<Rightarrow> ('k \<times> 'v) list \<Rightarrow> ('k \<times> 'v) list" where
  "map_set k v m = (if k \<in> fst ` set m then map (\<lambda>x. if fst x = k then (k, v) else x) m else m @ [(k, v)])"

lemma set_delete_keys [simp]: "set (set_delete k s) = set s - {k}"
  by (auto simp: set_delete_def)

lemma set_add_deleted [simp]: "set_add k (set_delete k s) = set_delete k s @ [k]"
  by (simp add: set_add_def)

lemma map_delete_keys: "map fst (map_delete k m) = set_delete k (map fst m)"
  by (simp add: map_delete_def set_delete_def filter_map comp_def)

lemma map_set_keys: "map fst (map_set k v m) = set_add k (map fst m)"
  by (auto simp: map_set_def set_add_def)

lemma map_of_replaced:
  "map_of (map (\<lambda>x. if fst x = k then (k, v) else x) m) k' =
     (if k' = k then if k \<in> fst ` set m then Some v else None else map_of m k')"
proof (induction m)
  case (Cons x m)
  obtain a b where "x = (a, b)" by fastforce
  then show ?case using Cons by (cases "k' = k"; cases "a = k") simp_all
qed simp

lemma map_of_set [simp]: "map_of (map_set k v m) k' = (if k' = k then Some v else map_of m k')"
proof (cases "k \<in> fst ` set m")
  case False
  then have "map_of m k = None" by (simp add: map_of_eq_None_iff)
  with False show ?thesis by (auto simp: map_set_def map_add_def split: option.splits)
qed (simp add: map_set_def map_of_replaced)

lemma map_of_delete [simp]: "map_of (map_delete k m) k' = (if k' = k then None else map_of m k')"
  unfolding map_delete_def by (induction m) auto

lemma map_set_deleted [simp]: "map_set k v (map_delete k m) = map_delete k m @ [(k, v)]"
  by (auto simp: map_set_def map_delete_def)

lemma distinct_map_delete [simp]: "distinct (map fst m) \<Longrightarrow> distinct (map fst (map_delete k m))"
  by (simp add: map_delete_keys set_delete_def)

lemma distinct_map_set [simp]: "distinct (map fst m) \<Longrightarrow> distinct (map fst (map_set k v m))"
  by (simp add: map_set_keys set_add_def)

lemma set_map_set: "x \<in> set (map_set k v m) \<Longrightarrow> x \<in> set m \<or> x = (k, v)"
  by (auto simp: map_set_def split: if_splits)

lemma set_map_delete: "x \<in> set (map_delete k m) \<Longrightarrow> x \<in> set m"
  by (simp add: map_delete_def)

lemma map_set_set: "map_set k v (map_set k w m) = map_set k v m"
proof (cases "k \<in> fst ` set m")
  case True
  have "fst ` set (map (\<lambda>x. if fst x = k then (k, w) else x) m) = fst ` set m"
    unfolding set_map image_image by (rule image_cong) auto
  with True show ?thesis by (auto simp: map_set_def)
qed (force simp: map_set_def intro!: map_idI)

lemma map_set_same:
  assumes "map_of m k = Some v" and "distinct (map fst m)"
  shows "map_set k v m = m"
proof -
  have "map (\<lambda>x. if fst x = k then (k, v) else x) m = m"
  proof (rule map_idI)
    fix x assume "x \<in> set m"
    then have "map_of m (fst x) = Some (snd x)" using assms(2) by simp
    with assms(1) show "(if fst x = k then (k, v) else x) = x" by auto
  qed
  moreover have "k \<in> fst ` set m" using assms(1) by (metis domI dom_map_of_conv_image_fst)
  ultimately show ?thesis by (simp add: map_set_def)
qed

lemma map_delete_added:
  assumes "map_of m k = None"
  shows "map_delete k (map_set k v m) = m"
proof -
  have "k \<notin> fst ` set m" using assms by (simp add: map_of_eq_None_iff)
  then show ?thesis by (auto simp: map_set_def map_delete_def filter_id_conv)
qed

section \<open>The newest keys\<close>

definition newest :: "nat \<Rightarrow> 'k list \<Rightarrow> 'k list" where
  "newest n xs = drop (length xs - n) xs"

lemma newest_all: "length xs \<le> n \<Longrightarrow> newest n xs = xs"
  by (simp add: newest_def)

lemma length_newest: "length (newest n xs) = min n (length xs)"
  by (simp add: newest_def)

lemma newest_append: "n \<le> length ys \<Longrightarrow> newest n (xs @ ys) = newest n ys"
  by (simp add: newest_def)

lemma newest_touched:
  assumes "distinct xs" and "0 < n"
  shows "newest n (set_delete k (newest n xs) @ [k]) = newest n (set_delete k xs @ [k])"
proof (cases "length xs \<le> n")
  case False
  define ps qs where "ps = take (length xs - n) xs" and "qs = newest n xs"
  have xs: "xs = ps @ qs" and len: "length qs = n"
    using False by (simp_all add: ps_def qs_def newest_def)
  have split: "set_delete k xs = set_delete k ps @ set_delete k qs" by (simp add: xs set_delete_def)
  have "n \<le> length (set_delete k qs @ [k])"
  proof (cases "k \<in> set qs")
    case True
    have "distinct qs" using assms(1) xs by simp
    then have "length (set_delete k qs) = card (set qs - {k})"
      using distinct_card [of "set_delete k qs"] by (simp add: set_delete_def set_diff_eq)
    then show ?thesis using True len distinct_card [OF \<open>distinct qs\<close>] by simp
  next
    case False
    then have "set_delete k qs = qs" unfolding set_delete_def by (auto simp: filter_id_conv)
    then show ?thesis by (simp add: len)
  qed
  then show ?thesis
    using newest_append [of n "set_delete k qs @ [k]" "set_delete k ps"]
    by (simp add: split flip: qs_def)
qed (simp add: newest_all)

lemma remdups_snoc: "remdups (ks @ [k]) = set_delete k (remdups ks) @ [k]"
  by (induction ks) (auto simp: set_delete_def)

text \<open>Eviction, as the code writes it: delete the first key when there is one too many.\<close>

lemma evict_newest:
  assumes "distinct c" and "length c \<le> n"
  shows "(if n < length (set_delete k c @ [k]) then set_delete (hd (set_delete k c @ [k])) (set_delete k c @ [k])
     else set_delete k c @ [k]) = newest n (set_delete k c @ [k])"
proof -
  obtain x xs where xs: "set_delete k c @ [k] = x # xs" by (cases "set_delete k c @ [k]") auto
  have "distinct (x # xs)" using assms(1) unfolding xs [symmetric] by (simp add: set_delete_def)
  moreover have "length xs \<le> n"
    using order.trans [OF length_filter_le assms(2), of "\<lambda>x. x \<noteq> k"] arg_cong [OF xs, of length]
    by (simp add: set_delete_def)
  moreover have "filter (\<lambda>y. y \<noteq> x) xs = xs" if "x \<notin> set xs" using that by (auto simp: filter_id_conv)
  ultimately show ?thesis unfolding xs
    by (cases "length xs = n") (auto simp: set_delete_def newest_def)
qed

section \<open>The contract\<close>

locale recency =
  fixes ok :: "'k \<Rightarrow> bool" and limit :: nat and keys :: "'c \<Rightarrow> 'k list" and touch :: "'k \<Rightarrow> 'c \<Rightarrow> 'c"
  assumes limit_pos: "0 < limit"
    and keys_touch: "ok k \<Longrightarrow> list_all ok (keys c) \<Longrightarrow> distinct (keys c) \<Longrightarrow> length (keys c) \<le> limit \<Longrightarrow>
      keys (touch k c) = newest limit (set_delete k (keys c) @ [k])"
begin

definition bounded :: "'c \<Rightarrow> bool" where
  "bounded c \<longleftrightarrow> list_all ok (keys c) \<and> distinct (keys c) \<and> length (keys c) \<le> limit"

lemma keys_newest_ok: "list_all ok xs \<Longrightarrow> list_all ok (newest n xs)"
  by (auto simp: newest_def list_all_iff dest: in_set_dropD)

lemma bounded_touch:
  assumes "bounded c" and "ok k"
  shows "bounded (touch k c)"
proof -
  have "distinct (set_delete k (keys c) @ [k])" "list_all ok (set_delete k (keys c) @ [k])"
    using assms by (auto simp: bounded_def set_delete_def list_all_iff)
  then have "distinct (newest limit (set_delete k (keys c) @ [k]))"
    "list_all ok (newest limit (set_delete k (keys c) @ [k]))"
    by (metis newest_def distinct_drop, metis keys_newest_ok)
  then show ?thesis
    using assms keys_touch [of k c] by (simp add: bounded_def length_newest)
qed

lemma touched_present:
  assumes "bounded c" and "ok k"
  shows "k \<in> set (keys (touch k c))"
proof -
  have "newest limit (set_delete k (keys c) @ [k]) = newest (limit - 1) (set_delete k (keys c)) @ [k]"
    using limit_pos by (cases limit) (simp_all add: newest_def Suc_diff_le)
  then show ?thesis using assms keys_touch [of k c] by (simp add: bounded_def)
qed

lemma holds_newest:
  assumes "keys c = []" and "list_all ok ks"
  shows "keys (fold touch ks c) = newest limit (remdups ks) \<and> bounded (fold touch ks c)"
  using assms(2)
proof (induction ks rule: rev_induct)
  case Nil
  then show ?case by (simp add: bounded_def assms newest_def)
next
  case (snoc k ks)
  then have IH: "keys (fold touch ks c) = newest limit (remdups ks)" "bounded (fold touch ks c)" and k: "ok k"
    by simp_all
  then have "keys (touch k (fold touch ks c)) = newest limit (set_delete k (newest limit (remdups ks)) @ [k])"
    using keys_touch [of k "fold touch ks c"] by (simp add: bounded_def)
  then show ?case
    using bounded_touch [OF IH(2) k] by (simp add: newest_touched limit_pos remdups_snoc)
qed

end

end
