(* ===== verification/Task_Pool.thy ===== *)
theory Task_Pool
  imports Recency
begin

text \<open>
  Concurrent deliveries inside one process. The embedded runner (\<open>createTaskHandler\<close> of
  \<open>src/queue.ts\<close>) and the dispatcher (\<open>createMessageDedup\<close> of \<open>src/dispatcher/dispatcher.ts\<close>)
  keep the same two structures: a bounded set of completed idempotency keys, and maps from a key
  to the promise of the execution in flight. A delivery with a key runs unless the key is
  completed or in flight, in which case it returns at once or with the one in flight; the runner
  also chains the deliveries of a run, each waiting for the promise it found in the map.

  A delivery is a task, its number standing for its promise. Between two awaits JavaScript runs
  alone, so the state changes in four atomic ways: a task arrives, a waiting one starts, a
  running one settles, a joined one returns.
\<close>

section \<open>The machine\<close>

datatype lane = Free | Serial string | Keyed string

datatype phase = Waiting "nat option" | Running | Joined nat | Settled

datatype outcome = Completed | Rescheduled | Failed

record task =
  tk_lane :: lane
  tk_phase :: phase

record pool =
  pool_tasks :: "task list"
  completedMessages :: "string list"
  inflightMessages :: "(string \<times> nat) list"
  inflightWorkflowRuns :: "(string \<times> nat) list"

definition empty_pool :: pool where
  "empty_pool = \<lparr>pool_tasks = [], completedMessages = [], inflightMessages = [], inflightWorkflowRuns = []\<rparr>"

text \<open>A task arrives: the synchronous code up to the first \<open>await\<close> of an execution.\<close>

fun arrive :: "lane \<Rightarrow> pool \<Rightarrow> pool" where
  "arrive Free s = s\<lparr>pool_tasks := pool_tasks s @ [\<lparr>tk_lane = Free, tk_phase = Running\<rparr>]\<rparr>"
| "arrive (Serial q) s =
     (let i = length (pool_tasks s); previous = map_of (inflightWorkflowRuns s) q
      in s\<lparr>pool_tasks := pool_tasks s @ [\<lparr>tk_lane = Serial q, tk_phase = Waiting previous\<rparr>],
           inflightWorkflowRuns := map_set q i (inflightWorkflowRuns s)\<rparr>)"
| "arrive (Keyed k) s =
     (if k \<in> set (completedMessages s)
      then s\<lparr>pool_tasks := pool_tasks s @ [\<lparr>tk_lane = Keyed k, tk_phase = Settled\<rparr>]\<rparr>
      else (case map_of (inflightMessages s) k of
          Some existing \<Rightarrow> s\<lparr>pool_tasks := pool_tasks s @ [\<lparr>tk_lane = Keyed k, tk_phase = Joined existing\<rparr>]\<rparr>
        | None \<Rightarrow> s\<lparr>pool_tasks := pool_tasks s @ [\<lparr>tk_lane = Keyed k, tk_phase = Running\<rparr>],
             inflightMessages := map_set k (length (pool_tasks s)) (inflightMessages s)\<rparr>))"

definition set_phase :: "nat \<Rightarrow> phase \<Rightarrow> pool \<Rightarrow> pool" where
  "set_phase i p s = s\<lparr>pool_tasks := (pool_tasks s)[i := (pool_tasks s ! i)\<lparr>tk_phase := p\<rparr>]\<rparr>"

text \<open>An execution settles: the \<open>then\<close> and \<open>finally\<close> callbacks of its promise. \<open>mark\<close> is
  \<open>markMessageCompleted\<close>.\<close>

definition settle :: "(string \<Rightarrow> string list \<Rightarrow> string list) \<Rightarrow> nat \<Rightarrow> outcome \<Rightarrow> pool \<Rightarrow> pool" where
  "settle mark i out s = (case tk_lane (pool_tasks s ! i) of
     Free \<Rightarrow> set_phase i Settled s
   | Serial q \<Rightarrow> (set_phase i Settled s)\<lparr>inflightWorkflowRuns :=
       (if map_of (inflightWorkflowRuns s) q = Some i then map_delete q (inflightWorkflowRuns s)
        else inflightWorkflowRuns s)\<rparr>
   | Keyed k \<Rightarrow> (set_phase i Settled s)\<lparr>
       completedMessages := (if out = Completed then mark k (completedMessages s) else completedMessages s),
       inflightMessages := map_delete k (inflightMessages s)\<rparr>)"

definition unsettled :: "pool \<Rightarrow> nat \<Rightarrow> bool" where
  "unsettled s i \<longleftrightarrow> i < length (pool_tasks s) \<and> tk_phase (pool_tasks s ! i) \<noteq> Settled"

inductive pool_moves :: "(string \<Rightarrow> string list \<Rightarrow> string list) \<Rightarrow> pool \<Rightarrow> pool \<Rightarrow> bool" for mark where
  task_arrives: "pool_moves mark s (arrive l s)"
| task_starts: "i < length (pool_tasks s) \<Longrightarrow> tk_phase (pool_tasks s ! i) = Waiting p \<Longrightarrow>
     (\<And>j. p = Some j \<Longrightarrow> \<not> unsettled s j) \<Longrightarrow> pool_moves mark s (set_phase i Running s)"
| task_settles: "i < length (pool_tasks s) \<Longrightarrow> tk_phase (pool_tasks s ! i) = Running \<Longrightarrow>
     pool_moves mark s (settle mark i out s)"
| task_returns: "i < length (pool_tasks s) \<Longrightarrow> tk_phase (pool_tasks s ! i) = Joined j \<Longrightarrow> \<not> unsettled s j \<Longrightarrow>
     pool_moves mark s (set_phase i Settled s)"

inductive pool_reached :: "(string \<Rightarrow> string list \<Rightarrow> string list) \<Rightarrow> pool \<Rightarrow> bool" for mark where
  pool_empty: "pool_reached mark empty_pool"
| pool_next: "pool_reached mark s \<Longrightarrow> pool_moves mark s s' \<Longrightarrow> pool_reached mark s'"

section \<open>The invariant\<close>

definition on_lane :: "pool \<Rightarrow> lane \<Rightarrow> nat \<Rightarrow> bool" where
  "on_lane s l i \<longleftrightarrow> unsettled s i \<and> tk_lane (pool_tasks s ! i) = l"

text \<open>The last link of a run's chain is the one in the map; every earlier unsettled task of the
  run is waited for.\<close>

definition chained :: "pool \<Rightarrow> bool" where
  "chained s \<longleftrightarrow> (\<forall>q i. on_lane s (Serial q) i \<longrightarrow>
      (\<exists>p. map_of (inflightWorkflowRuns s) q = Some p \<and> i \<le> p \<and> on_lane s (Serial q) p)) \<and>
     (\<forall>q i j. on_lane s (Serial q) i \<longrightarrow> on_lane s (Serial q) j \<longrightarrow> i < j \<longrightarrow>
      (\<exists>p. tk_phase (pool_tasks s ! j) = Waiting (Some p) \<and> i \<le> p \<and> p < j \<and> on_lane s (Serial q) p))"

definition runs_key :: "pool \<Rightarrow> string \<Rightarrow> nat \<Rightarrow> bool" where
  "runs_key s k i \<longleftrightarrow> i < length (pool_tasks s) \<and> tk_lane (pool_tasks s ! i) = Keyed k \<and>
     tk_phase (pool_tasks s ! i) = Running"

definition keyed :: "pool \<Rightarrow> bool" where
  "keyed s \<longleftrightarrow> (\<forall>k i. runs_key s k i \<longleftrightarrow> map_of (inflightMessages s) k = Some i)"

lemma set_phase_simps [simp]:
  "length (pool_tasks (set_phase i p s)) = length (pool_tasks s)"
  "inflightWorkflowRuns (set_phase i p s) = inflightWorkflowRuns s"
  "inflightMessages (set_phase i p s) = inflightMessages s"
  "completedMessages (set_phase i p s) = completedMessages s"
  "j < length (pool_tasks s) \<Longrightarrow> pool_tasks (set_phase i p s) ! j =
     (if j = i then (pool_tasks s ! i)\<lparr>tk_phase := p\<rparr> else pool_tasks s ! j)"
  by (auto simp: set_phase_def)

lemma settle_simps [simp]:
  "pool_tasks (settle mark i out s) = pool_tasks (set_phase i Settled s)"
  by (simp add: settle_def split: lane.split)

lemma arrive_tasks: "\<exists>t. pool_tasks (arrive l s) = pool_tasks s @ [t] \<and> tk_lane t = l"
  by (cases l) (auto simp: Let_def split: option.split)

lemma on_lane_arrive:
  "on_lane (arrive l s) l' i \<longleftrightarrow> on_lane s l' i \<or>
     i = length (pool_tasks s) \<and> l' = l \<and> tk_phase (pool_tasks (arrive l s) ! i) \<noteq> Settled"
  using arrive_tasks [of l s] by (auto simp: on_lane_def unsettled_def nth_append less_Suc_eq)

lemma on_lane_phase:
  "i < length (pool_tasks s) \<Longrightarrow> on_lane (set_phase i p s) l j \<longleftrightarrow>
     (if j = i then p \<noteq> Settled \<and> tk_lane (pool_tasks s ! i) = l else on_lane s l j)"
  by (auto simp: on_lane_def unsettled_def)

lemma on_lane_bound: "on_lane s l i \<Longrightarrow> i < length (pool_tasks s)"
  by (simp add: on_lane_def unsettled_def)

lemma chainedD:
  assumes "chained s" and "on_lane s (Serial q) i"
  shows "\<exists>p. map_of (inflightWorkflowRuns s) q = Some p \<and> i \<le> p \<and> on_lane s (Serial q) p"
    and "on_lane s (Serial q) j \<Longrightarrow> i < j \<Longrightarrow>
      \<exists>p. tk_phase (pool_tasks s ! j) = Waiting (Some p) \<and> i \<le> p \<and> p < j \<and> on_lane s (Serial q) p"
  using assms unfolding chained_def by blast+

text \<open>A task that runs, or may start, is the first unsettled one of its run.\<close>

lemma first_on_lane:
  assumes "chained s" and "on_lane s (Serial q) j"
    and "\<And>p. tk_phase (pool_tasks s ! j) = Waiting (Some p) \<Longrightarrow> \<not> unsettled s p"
  shows "\<not> (on_lane s (Serial q) i \<and> i < j)"
  using chainedD(2) [OF assms(1) _ assms(2), of i] assms(3) by (auto simp: on_lane_def)

lemma chained_phase:
  assumes s: "chained s" and i: "i < length (pool_tasks s)" "tk_phase (pool_tasks s ! i) \<noteq> Settled"
    and free: "\<And>p. tk_phase (pool_tasks s ! i) = Waiting (Some p) \<Longrightarrow> \<not> unsettled s p"
    and ph: "ph = Running \<or> (\<nexists>q. tk_lane (pool_tasks s ! i) = Serial q)"
  shows "chained (set_phase i ph s)"
proof -
  have same: "on_lane (set_phase i ph s) (Serial q) j \<longleftrightarrow> on_lane s (Serial q) j" for q j
    unfolding on_lane_phase [OF i(1)] using ph i by (auto simp: on_lane_def unsettled_def)
  show ?thesis unfolding chained_def same set_phase_simps
  proof (intro conjI allI impI)
    fix q k j
    assume kj: "on_lane s (Serial q) k" "on_lane s (Serial q) j" "k < j"
    show "\<exists>p. tk_phase (pool_tasks (set_phase i ph s) ! j) = Waiting (Some p) \<and> k \<le> p \<and> p < j \<and> on_lane s (Serial q) p"
      using chainedD(2) [OF s kj] first_on_lane [OF s kj(2), of k] free kj on_lane_bound [OF kj(2)]
      by (cases "j = i") auto
  qed (use chainedD(1) [OF s] in blast)
qed

lemma chained_settle:
  assumes s: "chained s" and i: "i < length (pool_tasks s)" "tk_phase (pool_tasks s ! i) = Running"
    and q: "tk_lane (pool_tasks s ! i) = Serial q"
  shows "chained (settle mark i out s)"
proof -
  have on: "on_lane s (Serial q) i" using i q by (simp add: on_lane_def unsettled_def)
  have first: "\<not> (on_lane s (Serial q) k \<and> k < i)" for k
    by (rule first_on_lane [OF s on]) (simp add: i)
  have same: "on_lane (settle mark i out s) (Serial q') j \<longleftrightarrow> on_lane s (Serial q') j \<and> j \<noteq> i" for q' j
    using i on_lane_phase [OF i(1), of Settled "Serial q'" j] by (auto simp: on_lane_def unsettled_def)
  have kept: "map_of (inflightWorkflowRuns (settle mark i out s)) q' = Some p"
    if "map_of (inflightWorkflowRuns s) q' = Some p" "p \<noteq> i" for q' p
    using that by (auto simp: settle_def q)
  show ?thesis unfolding chained_def same
  proof (intro conjI allI impI; elim conjE)
    fix q' k
    assume k: "on_lane s (Serial q') k" "k \<noteq> i"
    obtain p where p: "map_of (inflightWorkflowRuns s) q' = Some p" "k \<le> p" "on_lane s (Serial q') p"
      using chainedD(1) [OF s k(1)] by blast
    have "p \<noteq> i"
    proof
      assume "p = i"
      then have "q' = q" using p(3) q by (simp add: on_lane_def)
      with first [of k] k p(2) \<open>p = i\<close> show False by simp
    qed
    with p kept show "\<exists>p. map_of (inflightWorkflowRuns (settle mark i out s)) q' = Some p \<and> k \<le> p \<and>
        on_lane s (Serial q') p \<and> p \<noteq> i" by blast
  next
    fix q' k j
    assume kj: "on_lane s (Serial q') k" "k \<noteq> i" "on_lane s (Serial q') j" "j \<noteq> i" "k < j"
    obtain p where p: "tk_phase (pool_tasks s ! j) = Waiting (Some p)" "k \<le> p" "p < j" "on_lane s (Serial q') p"
      using chainedD(2) [OF s kj(1) kj(3) kj(5)] by blast
    have "p \<noteq> i"
    proof
      assume "p = i"
      then have "q' = q" using p(4) q by (simp add: on_lane_def)
      with first [of k] kj p(2) \<open>p = i\<close> show False by simp
    qed
    with p kj(4) on_lane_bound [OF kj(3)]
    show "\<exists>p. tk_phase (pool_tasks (settle mark i out s) ! j) = Waiting (Some p) \<and> k \<le> p \<and> p < j \<and>
        on_lane s (Serial q') p \<and> p \<noteq> i" by auto
  qed
qed

lemma chained_arrive:
  assumes s: "chained s"
  shows "chained (arrive l s)"
proof (cases "\<exists>q. l = Serial q")
  case False
  then have "on_lane (arrive l s) (Serial q) i \<longleftrightarrow> on_lane s (Serial q) i" for q i
    by (auto simp: on_lane_arrive)
  moreover have "inflightWorkflowRuns (arrive l s) = inflightWorkflowRuns s"
    using False by (cases l) (auto split: option.split)
  moreover have "on_lane s l' j \<Longrightarrow> pool_tasks (arrive l s) ! j = pool_tasks s ! j" for l' j
    using arrive_tasks [of l s] on_lane_bound [of s l' j] by (auto simp: nth_append)
  ultimately show ?thesis using s unfolding chained_def by (metis (no_types, lifting))
next
  case True
  then obtain q where l: "l = Serial q" by blast
  let ?n = "length (pool_tasks s)"
  have on: "on_lane (arrive l s) (Serial q') i \<longleftrightarrow> on_lane s (Serial q') i \<or> i = ?n \<and> q' = q" for q' i
    unfolding on_lane_arrive by (auto simp: l Let_def nth_append)
  have old: "j < ?n \<Longrightarrow> pool_tasks (arrive l s) ! j = pool_tasks s ! j" for j
    by (simp add: l Let_def nth_append)
  show ?thesis unfolding chained_def on
  proof (intro conjI allI impI)
    fix q' i
    assume "on_lane s (Serial q') i \<or> i = ?n \<and> q' = q"
    then show "\<exists>p. map_of (inflightWorkflowRuns (arrive l s)) q' = Some p \<and> i \<le> p \<and>
        (on_lane s (Serial q') p \<or> p = ?n \<and> q' = q)"
      using chainedD(1) [OF s, of q' i] on_lane_bound [of s "Serial q'" i] by (auto simp: l Let_def)
  next
    fix q' i j
    assume i: "on_lane s (Serial q') i \<or> i = ?n \<and> q' = q" and j: "on_lane s (Serial q') j \<or> j = ?n \<and> q' = q"
      and "i < j"
    then have i': "on_lane s (Serial q') i" using on_lane_bound [of s "Serial q'" j] by auto
    show "\<exists>p. tk_phase (pool_tasks (arrive l s) ! j) = Waiting (Some p) \<and> i \<le> p \<and> p < j \<and>
        (on_lane s (Serial q') p \<or> p = ?n \<and> q' = q)"
    proof (cases "j = ?n")
      case True
      with j have "q' = q" using on_lane_bound [of s "Serial q'" j] by auto
      with chainedD(1) [OF s i'] True show ?thesis
        using on_lane_bound by (fastforce simp: l Let_def)
    next
      case False
      with j have "on_lane s (Serial q') j" by simp
      with chainedD(2) [OF s i' this \<open>i < j\<close>] old [of j] on_lane_bound [OF this] show ?thesis by auto
    qed
  qed
qed

lemma runs_key_phase:
  assumes "i < length (pool_tasks s)"
  shows "runs_key (set_phase i ph s) k j \<longleftrightarrow>
     (if j = i then tk_lane (pool_tasks s ! i) = Keyed k \<and> ph = Running else runs_key s k j)"
  using assms by (auto simp: runs_key_def)

lemma runs_key_settle:
  assumes "i < length (pool_tasks s)"
  shows "runs_key (settle mark i out s) k j \<longleftrightarrow> runs_key s k j \<and> j \<noteq> i"
  using runs_key_phase [OF assms, of Settled k j] by (simp add: runs_key_def split: if_splits)

lemma runs_key_arrive:
  "runs_key (arrive l s) k j \<longleftrightarrow> runs_key s k j \<or> j = length (pool_tasks s) \<and> l = Keyed k \<and>
     k \<notin> set (completedMessages s) \<and> map_of (inflightMessages s) k = None"
  by (cases l) (auto simp: runs_key_def nth_append less_Suc_eq Let_def split: option.splits if_splits)

lemma inflight_arrive:
  "map_of (inflightMessages (arrive l s)) k =
     (if l = Keyed k \<and> k \<notin> set (completedMessages s) \<and> map_of (inflightMessages s) k = None
      then Some (length (pool_tasks s)) else map_of (inflightMessages s) k)"
  by (cases l) (auto simp: Let_def split: option.splits)

lemma runs_key_bound: "runs_key s k i \<Longrightarrow> i < length (pool_tasks s)"
  by (simp add: runs_key_def)

lemma keyed_arrive: "keyed s \<Longrightarrow> keyed (arrive l s)"
  unfolding keyed_def runs_key_arrive inflight_arrive
  by (metis option.inject option.distinct(1))

lemma keyed_phase:
  assumes "keyed s" and i: "i < length (pool_tasks s)" and "tk_phase (pool_tasks s ! i) \<noteq> Running"
    and "ph = Running \<Longrightarrow> (\<nexists>k. tk_lane (pool_tasks s ! i) = Keyed k)"
  shows "keyed (set_phase i ph s)"
proof -
  have "runs_key (set_phase i ph s) k j \<longleftrightarrow> runs_key s k j" for k j
    unfolding runs_key_phase [OF i] using assms by (auto simp: runs_key_def)
  then show ?thesis using assms(1) by (simp add: keyed_def)
qed

lemma keyed_settle:
  assumes s: "keyed s" and i: "i < length (pool_tasks s)" "tk_phase (pool_tasks s ! i) = Running"
  shows "keyed (settle mark i out s)"
proof -
  have "map_of (inflightMessages (settle mark i out s)) k = (if runs_key s k i then None else map_of (inflightMessages s) k)" for k
    using i by (auto simp: settle_def runs_key_def split: lane.split)
  then show ?thesis using s unfolding keyed_def runs_key_settle [OF i(1)]
    by (metis option.inject option.distinct(1))
qed

text \<open>Only the tasks of a run wait, for earlier tasks, and only keyed ones join another.\<close>

definition task_ok :: "nat \<Rightarrow> task \<Rightarrow> bool" where
  "task_ok i t \<longleftrightarrow> (case tk_phase t of
     Waiting p \<Rightarrow> (\<exists>q. tk_lane t = Serial q) \<and> (case p of None \<Rightarrow> True | Some j \<Rightarrow> j < i)
   | Joined j \<Rightarrow> (\<exists>k. tk_lane t = Keyed k) \<and> j < i | _ \<Rightarrow> True)"

definition waits_ok :: "pool \<Rightarrow> bool" where
  "waits_ok s \<longleftrightarrow> (\<forall>i < length (pool_tasks s). task_ok i (pool_tasks s ! i)) \<and>
     (\<forall>q j. map_of (inflightWorkflowRuns s) q = Some j \<longrightarrow> j < length (pool_tasks s)) \<and>
     (\<forall>k j. map_of (inflightMessages s) k = Some j \<longrightarrow> j < length (pool_tasks s))"

lemma task_okD:
  "task_ok i t \<Longrightarrow> tk_phase t = Waiting p \<Longrightarrow> (\<exists>q. tk_lane t = Serial q) \<and> (\<forall>j. p = Some j \<longrightarrow> j < i)"
  "task_ok i t \<Longrightarrow> tk_phase t = Joined j \<Longrightarrow> (\<exists>k. tk_lane t = Keyed k) \<and> j < i"
  by (auto simp: task_ok_def)

lemma waits_okD: "waits_ok s \<Longrightarrow> i < length (pool_tasks s) \<Longrightarrow> task_ok i (pool_tasks s ! i)"
  by (simp add: waits_ok_def)

lemma task_ok_arrive: "waits_ok s \<Longrightarrow> task_ok (length (pool_tasks s)) (pool_tasks (arrive l s) ! length (pool_tasks s))"
  by (cases l) (auto simp: task_ok_def waits_ok_def nth_append Let_def split: option.split)

lemma waits_ok_arrive:
  assumes "waits_ok s"
  shows "waits_ok (arrive l s)"
proof -
  obtain t where t: "pool_tasks (arrive l s) = pool_tasks s @ [t]" using arrive_tasks by blast
  have "map_of (inflightWorkflowRuns (arrive l s)) q = Some j \<Longrightarrow> j < Suc (length (pool_tasks s))" for q j
    using assms by (cases l) (auto simp: waits_ok_def Let_def less_Suc_eq split: option.splits if_splits)
  moreover have "map_of (inflightMessages (arrive l s)) k = Some j \<Longrightarrow> j < Suc (length (pool_tasks s))" for k j
    using assms by (auto simp: inflight_arrive waits_ok_def less_Suc_eq split: if_splits)
  ultimately show ?thesis using assms task_ok_arrive [OF assms, of l]
    by (auto simp: waits_ok_def t nth_append less_Suc_eq)
qed

lemma waits_ok_phase:
  "waits_ok s \<Longrightarrow> i < length (pool_tasks s) \<Longrightarrow> ph = Running \<or> ph = Settled \<Longrightarrow> waits_ok (set_phase i ph s)"
  by (auto simp: waits_ok_def task_ok_def)

lemma waits_ok_settle:
  assumes "waits_ok s" and i: "i < length (pool_tasks s)"
  shows "waits_ok (settle mark i out s)"
proof -
  have "map_of (inflightWorkflowRuns (settle mark i out s)) q = Some j \<Longrightarrow> map_of (inflightWorkflowRuns s) q = Some j" for q j
    by (auto simp: settle_def split: lane.splits if_splits)
  moreover have "map_of (inflightMessages (settle mark i out s)) k = Some j \<Longrightarrow> map_of (inflightMessages s) k = Some j" for k j
    by (auto simp: settle_def split: lane.splits if_splits)
  moreover have "waits_ok (set_phase i Settled s)" by (rule waits_ok_phase) (use assms in auto)
  ultimately show ?thesis unfolding waits_ok_def settle_simps set_phase_simps by blast
qed

lemma pool_move_keeps:
  assumes "pool_moves mark s s'" and s: "chained s" "keyed s" "waits_ok s"
  shows "chained s' \<and> keyed s' \<and> waits_ok s'"
  using assms(1)
proof cases
  case (task_arrives l)
  then show ?thesis using s chained_arrive keyed_arrive waits_ok_arrive by simp
next
  case (task_starts i p)
  then obtain q where "tk_lane (pool_tasks s ! i) = Serial q" using waits_okD [OF s(3)] task_okD(1) by blast
  with task_starts show ?thesis
    using chained_phase [OF s(1), of i Running] keyed_phase [OF s(2), of i Running] waits_ok_phase [OF s(3), of i Running]
    by auto
next
  case (task_settles i out)
  have "chained s'"
  proof (cases "\<exists>q. tk_lane (pool_tasks s ! i) = Serial q")
    case False
    then have "chained (set_phase i Settled s)"
      using task_settles chained_phase [OF s(1), of i Settled] by auto
    moreover have "inflightWorkflowRuns s' = inflightWorkflowRuns s"
      using False task_settles by (cases "tk_lane (pool_tasks s ! i)") (auto simp: settle_def)
    ultimately show ?thesis
      using task_settles by (simp add: chained_def on_lane_def unsettled_def)
  qed (use task_settles s chained_settle in blast)
  then show ?thesis using task_settles s keyed_settle waits_ok_settle by blast
next
  case (task_returns i j)
  then obtain k where "tk_lane (pool_tasks s ! i) = Keyed k" using waits_okD [OF s(3)] task_okD(2) by metis
  with task_returns show ?thesis
    using chained_phase [OF s(1), of i Settled] keyed_phase [OF s(2), of i Settled] waits_ok_phase [OF s(3), of i Settled]
    by auto
qed

lemma pool_invariant: "pool_reached mark s \<Longrightarrow> chained s \<and> keyed s \<and> waits_ok s"
proof (induction rule: pool_reached.induct)
  case pool_empty
  then show ?case
    by (simp add: chained_def keyed_def waits_ok_def empty_pool_def on_lane_def unsettled_def runs_key_def)
next
  case (pool_next s s')
  then show ?case using pool_move_keeps by blast
qed

section \<open>Exclusion and progress\<close>

text \<open>No two executions of one run, or of one idempotency key, overlap.\<close>

lemma executions_exclusive:
  assumes "pool_reached mark s" and "i < length (pool_tasks s)" "j < length (pool_tasks s)"
    and "tk_phase (pool_tasks s ! i) = Running" "tk_phase (pool_tasks s ! j) = Running"
    and "tk_lane (pool_tasks s ! i) = tk_lane (pool_tasks s ! j)" "tk_lane (pool_tasks s ! i) \<noteq> Free"
  shows "i = j"
proof (cases "tk_lane (pool_tasks s ! i)")
  case (Serial q)
  then have on: "on_lane s (Serial q) i" "on_lane s (Serial q) j"
    using assms by (simp_all add: on_lane_def unsettled_def)
  have "chained s" using pool_invariant [OF assms(1)] by blast
  then have "\<not> i < j" "\<not> j < i"
    using first_on_lane [OF _ on(2), of i] first_on_lane [OF _ on(1), of j] on assms(4,5) by auto
  then show ?thesis by simp
next
  case (Keyed k)
  then have "runs_key s k i" "runs_key s k j" using assms by (simp_all add: runs_key_def)
  then show ?thesis using pool_invariant [OF assms(1)] unfolding keyed_def by (metis option.inject)
qed (use assms in simp)

text \<open>Nothing is stuck: while a task is unsettled, some task can move.\<close>

lemma pool_progress:
  assumes "pool_reached mark s" and "unsettled s i"
  shows "\<exists>j \<le> i. unsettled s j \<and> (tk_phase (pool_tasks s ! j) = Running \<or>
     (\<exists>p. tk_phase (pool_tasks s ! j) = Waiting p \<and> (\<forall>k. p = Some k \<longrightarrow> \<not> unsettled s k)) \<or>
     (\<exists>k. tk_phase (pool_tasks s ! j) = Joined k \<and> \<not> unsettled s k))"
proof -
  define j where "j = (LEAST j. unsettled s j)"
  have j: "unsettled s j" "j \<le> i" using assms(2) by (auto simp: j_def intro: LeastI Least_le)
  have ok: "task_ok j (pool_tasks s ! j)"
    using pool_invariant [OF assms(1)] j(1) by (auto simp: waits_ok_def unsettled_def)
  have "\<not> unsettled s k" if "k < j" for k using that not_less_Least unfolding j_def by blast
  with ok j show ?thesis
    by (cases "tk_phase (pool_tasks s ! j)") (auto simp: task_ok_def unsettled_def split: option.splits)
qed

end
