(* ===== verification/Queue.thy ===== *)
theory Queue
  imports Timers Task_Pool
begin

text \<open>
  The World's queue: \<open>src/queue.ts\<close> and \<open>src/inflight.ts\<close>. The HTTP client, graphile and the
  local world's handler are parameters; a sent message is its JSON value. \<open>start\<close>, \<open>close\<close> and
  the polling of the loopback port are not modelled: \<open>utils\<close> says whether graphile's utilities
  are initialised.
\<close>

record queue_config =
  qc_tenantId :: tenant_id
  qc_deploymentId :: string
  qc_embedded :: bool
  qc_queueNamespace :: "string option"

section \<open>Inbound dispatch\<close>

text \<open>The deliveries this process is executing.\<close>

record process =
  inflight_count :: int

definition trackDelivery :: "('s process_scheme, 'e, 'a) prog \<Rightarrow> ('s process_scheme, 'e, 'a) prog" where
  "trackDelivery deliver = bindP (exec (\<lambda>s. s\<lparr>inflight_count := inflight_count s + 1\<rparr>))
     (\<lambda>_. finallyP deliver (exec (\<lambda>s. s\<lparr>inflight_count := inflight_count s - 1\<rparr>)))"

definition DISPATCH_VERSION_HEADER :: string where "DISPATCH_VERSION_HEADER = ''x-eveland-dispatch-version''"
definition RUNTIME_SECRET_HEADER :: string where "RUNTIME_SECRET_HEADER = ''x-eveland-runtime-secret''"
definition DEPLOYMENT_HEADER :: string where "DEPLOYMENT_HEADER = ''x-eveland-deployment-id''"

datatype 'r response = Response 'r | Refused nat

type_synonym headers = "string \<Rightarrow> string option"

definition queue_handler :: "(string \<Rightarrow> rat option) \<Rightarrow> (string \<Rightarrow> string option) \<Rightarrow> queue_config \<Rightarrow>
    (headers \<Rightarrow> ('s process_scheme, 'e, 'r) prog) \<Rightarrow> headers \<Rightarrow> ('s process_scheme, 'e, 'r response) prog" where
  "queue_handler num env cfg inner req =
     (let declaredVersion = req DISPATCH_VERSION_HEADER;
          deliver = bindP (trackDelivery (inner req)) (\<lambda>r. Ret (Response r)) in
      case checkDispatchVersion num declaredVersion of
        Some rejection \<Rightarrow> Ret (Refused 400)
      | None \<Rightarrow>
          if declaredVersion \<noteq> None \<and> declaredVersion \<noteq> Some [] then
            (case readRuntimeSecretFromEnv env of
               None \<Rightarrow> Ret (Refused 401)
             | Some expected \<Rightarrow>
                 if \<not> secretMatches expected (req RUNTIME_SECRET_HEADER) then Ret (Refused 401)
                 else (case req DEPLOYMENT_HEADER of
                     Some target \<Rightarrow> if target \<noteq> [] \<and> target \<noteq> qc_deploymentId cfg then Ret (Refused 401) else deliver
                   | None \<Rightarrow> deliver))
          else deliver)"

section \<open>Sending\<close>

definition isExactDeploymentId :: "string option \<Rightarrow> bool" where
  "isExactDeploymentId d \<longleftrightarrow> (case d of None \<Rightarrow> False | Some x \<Rightarrow> 0 < length x \<and> x \<noteq> ''latest'')"

definition getJobQueueName :: "'a queue_sdk_scheme \<Rightarrow> queue_config \<Rightarrow> string" where
  "getJobQueueName W cfg = (if qc_embedded cfg then derivePartitionName (world_sdk.truncate W) FLOW_JOB_NAME (qc_tenantId cfg)
     else FLOW_JOB_NAME)"

definition getTimerJobName :: "'a queue_sdk_scheme \<Rightarrow> queue_config \<Rightarrow> string" where
  "getTimerJobName W cfg = derivePartitionName (world_sdk.truncate W) TIMER_JOB_NAME (qc_tenantId cfg)"

text \<open>A failed read of graphile's private table (\<open>graphile_readable\<close>) queues the wake as usual.\<close>

definition bypassesRunQueue :: "'a queue_sdk_scheme \<Rightarrow> queue_config \<Rightarrow> json \<Rightarrow> run_id \<Rightarrow> ('s host_scheme, error, bool) prog" where
  "bypassesRunQueue W cfg invoke r =
     (if \<not> mayBypassRunQueue W invoke then Ret False
      else query (\<lambda>s. graphile_readable s \<and>
        has_row (\<lambda>q. q_queueName q = runQueueName (qc_tenantId cfg) r \<and> q_lockedAt q \<noteq> None) (job_queues s)))"

record send_options =
  so_idempotencyKey :: "string option"
  so_headers :: "(string \<times> string) list option"
  so_delaySeconds :: "rat option"
  so_deploymentId :: "string option"

record placed =
  pl_jobKey :: string
  pl_jobKeyMode :: "job_key_mode option"
  pl_runQueue :: "string option"
  pl_bypassingWake :: bool

definition placeInvoke :: "'a queue_sdk_scheme \<Rightarrow> queue_config \<Rightarrow> json \<Rightarrow> string \<Rightarrow> send_options \<Rightarrow>
    ('s host_scheme, error, placed) prog" where
  "placeInvoke W cfg message messageId opts =
     (let key = so_idempotencyKey opts;
          usual = \<lparr>pl_jobKey = (case key of Some k \<Rightarrow> k | None \<Rightarrow> messageId),
            pl_jobKeyMode = jobKeyModeFor W (Some message) key,
            pl_runQueue = runQueueFor W (qc_tenantId cfg) (Some message), pl_bypassingWake = False\<rparr> in
      case WorkflowInvokePayload_safeParse W (Some message) of
        None \<Rightarrow> Ret usual
      | Some invoke \<Rightarrow>
         (case field ''runId'' (Some invoke) of
            Some (JString runId) \<Rightarrow>
              if 0 < (case so_delaySeconds opts of Some d \<Rightarrow> d | None \<Rightarrow> 0) then Ret usual
              else bindP (bypassesRunQueue W cfg invoke runId) (\<lambda>bypasses.
                if \<not> bypasses then Ret usual
                else let wakeKey = (if field ''hookInput'' (Some invoke) = None
                       then ''wfwake:'' @ qc_tenantId cfg @ '':'' @ runId else messageId)
                  in Ret \<lparr>pl_jobKey = (case key of Some k \<Rightarrow> k | None \<Rightarrow> wakeKey), pl_jobKeyMode = None,
                          pl_runQueue = None, pl_bypassingWake = True\<rparr>)
          | _ \<Rightarrow> Ret usual))"

record graphile_job =
  gj_queueId :: string
  gj_body :: "json option"
  gj_messageId :: string
  gj_attempt :: int
  gj_idempotencyKey :: "string option"
  gj_headers :: "(string \<times> string) list option"
  gj_delaySeconds :: "rat option"
  gj_jobKey :: string
  gj_jobKeyMode :: "job_key_mode option"
  gj_runQueue :: "string option"
  gj_deliveryOffset :: "int option"
  gj_attemptOffset :: "int option"
  gj_deploymentId :: "string option"
  gj_bypassingWake :: bool

definition job_message :: "queue_config \<Rightarrow> graphile_job \<Rightarrow> message" where
  "job_message cfg g = \<lparr>m_attempt = gj_attempt g, m_deliveryOffset = positive_offset (gj_deliveryOffset g),
     m_attemptOffset = positive_offset (gj_attemptOffset g), m_messageId = gj_messageId g,
     m_idempotencyKey = gj_idempotencyKey g, m_headers = gj_headers g, m_id = gj_queueId g, m_data = gj_body g,
     m_tenantId = qc_tenantId cfg,
     m_deploymentId = (case gj_deploymentId g of Some d \<Rightarrow> d | None \<Rightarrow> qc_deploymentId cfg),
     m_queueNamespace = qc_queueNamespace cfg\<rparr>"

definition addGraphileJob :: "'a queue_sdk_scheme \<Rightarrow> (job_request \<Rightarrow> bool) \<Rightarrow> bool \<Rightarrow> timestamp \<Rightarrow> queue_config \<Rightarrow>
    graphile_job \<Rightarrow> ('s host_scheme, error, unit) prog" where
  "addGraphileJob W accepts utils t cfg g = bindP (throw_if (\<not> utils) PlainError) (\<lambda>_.
     let runAt = (case gj_delaySeconds g of Some d \<Rightarrow> if 0 < d then Some (due_at t d) else None | None \<Rightarrow> None);
         holdAsTimer = qc_embedded cfg \<and> holdsAsTimer (gj_runQueue g) (gj_delaySeconds g);
         encoded = encode_message (job_message cfg g);
         jobKey = (if gj_jobKey g = [] then None else Some (gj_jobKey g));
         mode = (if gj_jobKey g = [] then None else gj_jobKeyMode g);
         queued = addJob accepts (getJobQueueName W cfg) encoded
           \<lparr>js_jobKey = jobKey, js_jobKeyMode = mode, js_runAt = runAt,
            js_queueName = (if gj_runQueue g = Some [] then None else gj_runQueue g),
            js_maxAttempts = MAX_GRAPHILE_JOB_ATTEMPTS,
            js_flags = Some [if gj_bypassingWake g then wakeFlag (qc_tenantId cfg) else tenantFlag (qc_tenantId cfg)]\<rparr>
     in case gj_runQueue g of
          Some q \<Rightarrow> if holdAsTimer \<and> q \<noteq> [] then addJob accepts (getTimerJobName W cfg) (timerPayload encoded q)
             \<lparr>js_jobKey = jobKey, js_jobKeyMode = mode, js_runAt = runAt, js_queueName = None,
              js_maxAttempts = MAX_GRAPHILE_JOB_ATTEMPTS, js_flags = None\<rparr> else queued
        | None \<Rightarrow> queued)"

definition queue_send :: "'a queue_sdk_scheme \<Rightarrow> (job_request \<Rightarrow> bool) \<Rightarrow> bool \<Rightarrow> timestamp \<Rightarrow> queue_config \<Rightarrow> string \<Rightarrow>
    string \<Rightarrow> json \<Rightarrow> send_options \<Rightarrow> ('s host_scheme, error, string) prog" where
  "queue_send W accepts utils t cfg ulid queue message opts =
     (case parseQueueName W queue of Inl e \<Rightarrow> Throw e
      | Inr queueId \<Rightarrow>
          let messageId = ''msg_'' @ ulid in
          bindP (placeInvoke W cfg message messageId opts) (\<lambda>p.
          bindP (addGraphileJob W accepts utils t cfg
            \<lparr>gj_queueId = queueId, gj_body = Some message, gj_messageId = messageId, gj_attempt = 1,
             gj_idempotencyKey = so_idempotencyKey opts, gj_headers = so_headers opts,
             gj_delaySeconds = so_delaySeconds opts, gj_jobKey = pl_jobKey p, gj_jobKeyMode = pl_jobKeyMode p,
             gj_runQueue = pl_runQueue p, gj_deliveryOffset = None, gj_attemptOffset = None,
             gj_deploymentId = (if isExactDeploymentId (so_deploymentId opts) then so_deploymentId opts else None),
             gj_bypassingWake = pl_bypassingWake p\<rparr>) (\<lambda>_. Ret messageId)))"

section \<open>Executing over HTTP\<close>

record http_response =
  rs_status :: int
  rs_text :: string
  rs_json :: "json option"

definition response_ok :: "http_response \<Rightarrow> bool" where
  "response_ok r \<longleftrightarrow> 200 \<le> rs_status r \<and> rs_status r \<le> 299"

text \<open>\<open>Number(JSON.parse(text).timeoutSeconds)\<close> when it is finite and not negative; \<open>number\<close> is
  JavaScript's \<open>Number\<close>, \<open>None\<close> for \<open>NaN\<close> and the infinities.\<close>

definition timeout_of :: "(json \<Rightarrow> rat option) \<Rightarrow> http_response \<Rightarrow> rat option" where
  "timeout_of number r = (case field ''timeoutSeconds'' (rs_json r) of None \<Rightarrow> None
     | Some v \<Rightarrow> (case number v of Some n \<Rightarrow> if 0 \<le> n then Some n else None | None \<Rightarrow> None))"

record http_request =
  hr_url :: string
  hr_headers :: "(string \<times> string) list"
  hr_body :: "json option"

datatype http_result = Http_completed | Http_reschedule rat | Http_error int string

definition decimal :: "int \<Rightarrow> string" where
  "decimal n = (if n < 0 then ''-'' @ dec (nat (- n)) else dec (nat n))"

definition executeMessageOverHttp :: "(json \<Rightarrow> rat option) \<Rightarrow> (http_request \<Rightarrow> error + http_response) \<Rightarrow> string option \<Rightarrow>
    string \<Rightarrow> message \<Rightarrow> delivery \<Rightarrow> error + http_result" where
  "executeMessageOverHttp number fetch baseUrl queueName m d =
     (case baseUrl of None \<Rightarrow> Inl PlainError
      | Some url \<Rightarrow>
         let headers = fold (\<lambda>(k, v). map_set k v)
               [(''content-type'', ''application/json''), (''x-vqs-queue-name'', queueName),
                (''x-vqs-message-id'', m_messageId m), (''x-vqs-message-attempt'', decimal (d_attempt d)),
                (''x-vqs-message-delivery-count'', decimal (d_deliveryCount d))]
               (case m_headers m of Some h \<Rightarrow> h | None \<Rightarrow> []) in
         bindE (fetch \<lparr>hr_url = url, hr_headers = headers, hr_body = m_data m\<rparr>) (\<lambda>r.
         if \<not> response_ok r then Inr (Http_error (rs_status r) (rs_text r))
         else case timeout_of number r of Some n \<Rightarrow> Inr (Http_reschedule n) | None \<Rightarrow> Inr Http_completed))"

section \<open>The task handler of the embedded runner\<close>

definition COMPLETED_IDEMPOTENCY_CACHE_LIMIT :: nat where "COMPLETED_IDEMPOTENCY_CACHE_LIMIT = 10000"

definition markMessageCompleted :: "string \<Rightarrow> string list \<Rightarrow> string list" where
  "markMessageCompleted key completed =
     (let added = set_add key (set_delete key completed) in
      if COMPLETED_IDEMPOTENCY_CACHE_LIMIT < length added
      then (case added of oldest # _ \<Rightarrow> if oldest \<noteq> [] then set_delete oldest added else added | [] \<Rightarrow> added)
      else added)"

definition executeTask :: "'a queue_sdk_scheme \<Rightarrow> (json \<Rightarrow> rat option) \<Rightarrow> (job_request \<Rightarrow> bool) \<Rightarrow>
    (http_request \<Rightarrow> error + http_response) \<Rightarrow> string option \<Rightarrow> bool \<Rightarrow> timestamp \<Rightarrow> queue_config \<Rightarrow> string \<Rightarrow>
    message \<Rightarrow> delivery \<Rightarrow> ('s host_scheme, error, outcome) prog" where
  "executeTask W number accepts fetch baseUrl utils t cfg prefix m d =
     (case executeMessageOverHttp number fetch baseUrl (prefix @ m_id m) m d of
        Inl e \<Rightarrow> Throw e
      | Inr Http_completed \<Rightarrow> Ret Completed
      | Inr (Http_reschedule n) \<Rightarrow>
          let c = continuationOf W m d n (m_data m) in
          bindP (addGraphileJob W accepts utils t cfg
            \<lparr>gj_queueId = m_id m, gj_body = m_data m, gj_messageId = m_messageId m, gj_attempt = m_attempt c,
             gj_idempotencyKey = m_idempotencyKey m, gj_headers = m_headers m, gj_delaySeconds = Some n,
             gj_jobKey = (case m_idempotencyKey m of Some k \<Rightarrow> k | None \<Rightarrow> m_messageId m), gj_jobKeyMode = None,
             gj_runQueue = runQueueFor W (qc_tenantId cfg) (m_data m),
             gj_deliveryOffset = m_deliveryOffset c, gj_attemptOffset = m_attemptOffset c,
             gj_deploymentId = Some (m_deploymentId m), gj_bypassingWake = False\<rparr>) (\<lambda>_. Ret Rescheduled)
      | Inr (Http_error status text) \<Rightarrow> Throw PlainError)"

text \<open>The lane a delivery runs in: under its key, after the earlier deliveries of its run, or freely.\<close>

definition task_lane :: "'a queue_sdk_scheme \<Rightarrow> queue_config \<Rightarrow> message \<Rightarrow> lane" where
  "task_lane W cfg m =
     (let runQueue = runQueueFor W (qc_tenantId cfg) (m_data m);
          bypasses = (case WorkflowInvokePayload_safeParse W (m_data m) of
            Some v \<Rightarrow> mayBypassRunQueue W v | None \<Rightarrow> False);
          serial = (if runQueue \<noteq> None \<and> \<not> bypasses then runQueue else None) in
      case m_idempotencyKey m of
        Some key \<Rightarrow> if key \<noteq> [] then Keyed key
          else (case serial of Some q \<Rightarrow> if q \<noteq> [] then Serial q else Free | None \<Rightarrow> Free)
      | None \<Rightarrow> (case serial of Some q \<Rightarrow> if q \<noteq> [] then Serial q else Free | None \<Rightarrow> Free))"

definition task_handler :: "'a queue_sdk_scheme \<Rightarrow> (json \<Rightarrow> rat option) \<Rightarrow> (job_request \<Rightarrow> bool) \<Rightarrow>
    (http_request \<Rightarrow> error + http_response) \<Rightarrow> string option \<Rightarrow> bool \<Rightarrow> timestamp \<Rightarrow> queue_config \<Rightarrow> string \<Rightarrow>
    payload \<Rightarrow> int option \<Rightarrow> error + lane \<times> ('s host_scheme, error, outcome) prog" where
  "task_handler W number accepts fetch baseUrl utils t cfg prefix p jobAttempts =
     bindE (parse_message p) (\<lambda>m.
     if m_data m = None then Inl PlainError
     else if \<not> QueuePayload_accepts W (m_data m) then Inl ZodError
     else Inr (task_lane W cfg m,
       executeTask W number accepts fetch baseUrl utils t cfg prefix m (deliveryAccounting m jobAttempts)))"

end
