(* ===== verification/Lease.thy ===== *)
theory Lease
  imports Prelude Complex_Main
begin

text \<open>
  Activation leases: \<open>src/dispatcher/lease.ts\<close>. The interval timer renews the lease every
  \<open>renewIntervalMs\<close>; a renewal answers \<open>true\<close>, or fails (\<open>false\<close>, or the call throws). The
  state is the count of consecutive failures and whether the request was aborted.
\<close>

section \<open>Renewal\<close>

definition allowedFailures :: "int option \<Rightarrow> int \<Rightarrow> int" where
  "allowedFailures leaseTtlMs renewIntervalMs = (case leaseTtlMs of None \<Rightarrow> 0
     | Some ttl \<Rightarrow> if 0 < renewIntervalMs then max 0 (ttl div renewIntervalMs - 2) else 0)"

record lease_state =
  consecutiveFailures :: int
  aborted :: bool

definition fresh_lease :: lease_state where
  "fresh_lease = \<lparr>consecutiveFailures = 0, aborted = False\<rparr>"

definition on_renewal :: "int \<Rightarrow> bool \<Rightarrow> lease_state \<Rightarrow> lease_state" where
  "on_renewal allowed renewed s =
     (if renewed then s\<lparr>consecutiveFailures := 0\<rparr>
      else let n = consecutiveFailures s + 1
        in s\<lparr>consecutiveFailures := n, aborted := aborted s \<or> allowed < n\<rparr>)"

definition renewals :: "int \<Rightarrow> bool list \<Rightarrow> lease_state" where
  "renewals allowed answers = fold (on_renewal allowed) answers fresh_lease"

section \<open>How long a lease goes unrenewed\<close>

text \<open>The failures at the end of a list of answers.\<close>

definition failing_since :: "bool list \<Rightarrow> nat" where
  "failing_since answers = length (takeWhile Not (rev answers))"

lemma failing_since_simps [simp]:
  "failing_since [] = 0" "failing_since (xs @ [True]) = 0" "failing_since (xs @ [False]) = Suc (failing_since xs)"
  by (simp_all add: failing_since_def)

lemma renewals_snoc [simp]: "renewals allowed (xs @ [b]) = on_renewal allowed b (renewals allowed xs)"
  by (simp add: renewals_def)

lemma renewals_state:
  assumes "0 \<le> allowed"
  shows "consecutiveFailures (renewals allowed answers) = int (failing_since answers) \<and>
   (aborted (renewals allowed answers) \<longleftrightarrow>
     (\<exists>k \<le> length answers. allowed < int (failing_since (take k answers))))"
proof (induction answers rule: rev_induct)
  case Nil
  then show ?case using assms by (simp add: renewals_def fresh_lease_def)
next
  case (snoc b xs)
  have split: "(\<exists>k \<le> length (xs @ [b]). P (take k (xs @ [b]))) \<longleftrightarrow>
      (\<exists>k \<le> length xs. P (take k xs)) \<or> P (xs @ [b])" for P
    by (auto simp: le_Suc_eq)
  show ?case unfolding split [of "\<lambda>xs. allowed < int (failing_since xs)"] using snoc assms
    by (cases b) (auto simp: on_renewal_def Let_def)
qed

text \<open>The request is aborted by the first renewal that is one failure too many.\<close>

lemma aborted_first:
  assumes "0 \<le> allowed" and "aborted (renewals allowed answers)"
  shows "\<exists>k \<le> length answers. int (failing_since (take k answers)) = allowed + 1"
proof -
  obtain k where k: "k \<le> length answers" "allowed < int (failing_since (take k answers))"
    using assms renewals_state [OF assms(1), of answers] by auto
  define k0 where "k0 = (LEAST k. allowed < int (failing_since (take k answers)))"
  have k0: "allowed < int (failing_since (take k0 answers))" unfolding k0_def by (rule LeastI) (rule k(2))
  have "k0 \<le> k" unfolding k0_def by (rule Least_le) (rule k(2))
  then have le: "k0 \<le> length answers" using k(1) by simp
  have "k0 \<noteq> 0" using k0 assms(1) by (cases k0) auto
  then obtain k1 where k1: "k0 = Suc k1" by (cases k0) auto
  have "int (failing_since (take k1 answers)) \<le> allowed"
    using not_less_Least [of k1 "\<lambda>k. allowed < int (failing_since (take k answers))"] k1
    unfolding k0_def by simp
  moreover have "take k0 answers = take k1 answers @ [answers ! k1]" using le k1 by (simp add: take_Suc_conv_app_nth)
  ultimately have "int (failing_since (take k0 answers)) = allowed + 1"
    using k0 assms(1) by (cases "answers ! k1") auto
  with le show ?thesis by blast
qed

lemma tolerated_failures:
  "0 \<le> allowed \<Longrightarrow> \<not> aborted (renewals allowed answers) \<Longrightarrow> int (failing_since answers) \<le> allowed"
  using renewals_state [of allowed answers] by (metis linorder_not_le order_refl take_all)

lemma allowed_bounds:
  assumes "0 < i" and "2 * i \<le> ttl"
  shows "0 \<le> allowedFailures (Some ttl) i" "(allowedFailures (Some ttl) i + 2) * i \<le> ttl"
    "ttl < (allowedFailures (Some ttl) i + 3) * i"
proof -
  have "2 \<le> ttl div i" using zdiv_mono1 [OF assms(2,1)] assms(1) by simp
  then have eq: "allowedFailures (Some ttl) i = ttl div i - 2" using assms by (simp add: allowedFailures_def)
  show "0 \<le> allowedFailures (Some ttl) i" using \<open>2 \<le> ttl div i\<close> eq by simp
  have "i * (ttl div i) \<le> ttl" "ttl < i + i * (ttl div i)"
    using mult_div_mod_eq [of i ttl] pos_mod_sign [OF assms(1), of ttl] pos_mod_bound [OF assms(1), of ttl]
    by linarith+
  then show "(allowedFailures (Some ttl) i + 2) * i \<le> ttl" "ttl < (allowedFailures (Some ttl) i + 3) * i"
    unfolding eq by (simp_all add: algebra_simps)
qed

lemma lease_protected_facts:
  assumes "0 < i" and "2 * i \<le> ttl"
  defines "allowed \<equiv> allowedFailures (Some ttl) i"
  shows "\<not> aborted (renewals allowed answers) \<Longrightarrow> (int (failing_since answers) + 1) * i + i \<le> ttl"
    "aborted (renewals allowed answers) \<Longrightarrow> \<exists>k \<le> length answers.
       ttl < (int (failing_since (take k answers)) + 2) * i \<and> (int (failing_since (take k answers)) + 1) * i \<le> ttl"
proof -
  note bounds = allowed_bounds [OF assms(1,2), folded allowed_def]
  show "(int (failing_since answers) + 1) * i + i \<le> ttl" if "\<not> aborted (renewals allowed answers)"
  proof -
    have "int (failing_since answers) \<le> allowed" using bounds(1) that by (rule tolerated_failures)
    then have "(int (failing_since answers) + 2) * i \<le> (allowed + 2) * i" using assms(1) by simp
    with bounds(2) show ?thesis by (simp add: algebra_simps)
  qed
  assume "aborted (renewals allowed answers)"
  then obtain k where k: "k \<le> length answers" and eq: "int (failing_since (take k answers)) = allowed + 1"
    using aborted_first [OF bounds(1)] by blast
  have "ttl < (int (failing_since (take k answers)) + 2) * i \<and> (int (failing_since (take k answers)) + 1) * i \<le> ttl"
    unfolding eq using bounds by (simp add: algebra_simps)
  with k show "\<exists>k \<le> length answers. ttl < (int (failing_since (take k answers)) + 2) * i \<and>
      (int (failing_since (take k answers)) + 1) * i \<le> ttl" by blast
qed

text \<open>An interval below the lease's time is enough for the lease to be valid whenever a renewal is due.\<close>

lemma allowed_fits:
  assumes "0 < i" and "i \<le> ttl"
  shows "0 \<le> allowedFailures (Some ttl) i" and "(allowedFailures (Some ttl) i + 1) * i \<le> ttl"
proof -
  show "0 \<le> allowedFailures (Some ttl) i" by (simp add: allowedFailures_def)
  show "(allowedFailures (Some ttl) i + 1) * i \<le> ttl"
  proof (cases "2 * i \<le> ttl")
    case True
    then show ?thesis using allowed_bounds(2) [OF assms(1) True] assms(1) by (simp add: algebra_simps)
  next
    case False
    then have "i * (ttl div i) < i * 2"
      using mult_div_mod_eq [of i ttl] pos_mod_sign [OF assms(1), of ttl] by linarith
    then have "ttl div i < 2" using assms(1) by simp
    then show ?thesis using assms by (simp add: allowedFailures_def)
  qed
qed

lemma lease_valid:
  assumes "0 < i" and "i \<le> ttl"
  defines "allowed \<equiv> allowedFailures (Some ttl) i"
  shows "\<not> aborted (renewals allowed answers) \<Longrightarrow> (int (failing_since answers) + 1) * i \<le> ttl"
    and "aborted (renewals allowed answers) \<Longrightarrow> \<exists>k \<le> length answers.
      int (failing_since (take k answers)) = allowed + 1 \<and> int (failing_since (take k answers)) * i \<le> ttl"
proof -
  note fits = allowed_fits [OF assms(1,2), folded allowed_def]
  show "(int (failing_since answers) + 1) * i \<le> ttl" if "\<not> aborted (renewals allowed answers)"
  proof -
    have "(int (failing_since answers) + 1) * i \<le> (allowed + 1) * i"
      using tolerated_failures [OF fits(1) that] assms(1) by (simp add: mult_right_mono)
    with fits(2) show ?thesis by simp
  qed
  show "\<exists>k \<le> length answers. int (failing_since (take k answers)) = allowed + 1 \<and> int (failing_since (take k answers)) * i \<le> ttl"
    if "aborted (renewals allowed answers)"
    using aborted_first [OF fits(1) that] fits(2) by auto
qed

text \<open>
  A lease of \<open>ttl\<close> ms, renewed every \<open>i\<close> ms (at most half of it), is protected: while the
  request is not aborted, even if the next renewal fails too there is a full interval left before
  the lease lapses. The request is aborted only when the renewals have failed so long that two
  more intervals would outlast the lease, and always while it is still valid.
\<close>

theorem lease_protected:
  assumes "0 < i" and "2 * i \<le> ttl"
  shows "(\<not> aborted (renewals (allowedFailures (Some ttl) i) answers) \<longrightarrow> (int (failing_since answers) + 1) * i + i \<le> ttl) \<and>
    (aborted (renewals (allowedFailures (Some ttl) i) answers) \<longrightarrow> (\<exists>k \<le> length answers.
       ttl < (int (failing_since (take k answers)) + 2) * i \<and> (int (failing_since (take k answers)) + 1) * i \<le> ttl))"
  using lease_protected_facts [OF assms] by blast


text \<open>A lease of 180 s renewed every 60 s survives one failed renewal, not two in a row.\<close>

theorem lease_protected_witness:
  "\<not> aborted (renewals 1 [True, False]) \<and> (int (failing_since [True, False]) + 1) * 60000 + 60000 \<le> 180000 \<and>
   aborted (renewals 1 [False, False])"
proof -
  have "\<not> aborted (renewals (allowedFailures (Some 180000) 60000) [True, False])"
    by (simp add: allowedFailures_def renewals_def on_renewal_def fresh_lease_def)
  with lease_protected [of 60000 180000 "[True, False]"] show ?thesis
    by (simp add: renewals_def on_renewal_def fresh_lease_def)
qed

end
