(* ===== verification/Dispatcher.thy ===== *)
theory Dispatcher
  imports Queue Lease
begin

text \<open>
  The dispatcher: \<open>src/dispatcher/dispatcher.ts\<close>, \<open>vqs-client.ts\<close> and the handler of
  \<open>runner.ts\<close>. The control plane (activation), the HTTP client, the run lookup and graphile are
  fields of \<open>deps\<close>. The process keeps the failure streaks, the in-flight counts and the completed
  keys, completed and in flight, in memory; they are fields of the state, beside a log of the leases
  taken and given back.
\<close>

section \<open>Posting a delivery\<close>

record url =
  url_protocol :: string
  url_username :: string
  url_password :: string
  url_pathname :: string
  url_search :: string
  url_hash :: string
  url_origin :: string

datatype endpoint_error = Not_a_url | Bad_protocol | Carries_credentials | Not_an_origin | No_endpoint

definition parseEndpointUrl :: "(string \<Rightarrow> url option) \<Rightarrow> string \<Rightarrow> endpoint_error + string" where
  "parseEndpointUrl parse_url v = (case parse_url v of None \<Rightarrow> Inl Not_a_url
     | Some u \<Rightarrow>
        if url_protocol u \<noteq> ''http:'' \<and> url_protocol u \<noteq> ''https:'' then Inl Bad_protocol
        else if url_username u \<noteq> [] \<or> url_password u \<noteq> [] then Inl Carries_credentials
        else if url_pathname u \<noteq> ''/'' \<and> url_pathname u \<noteq> [] \<or> url_search u \<noteq> [] \<or> url_hash u \<noteq> [] then Inl Not_an_origin
        else Inr (url_origin u))"

definition WORKFLOW_ROUTE_BASE :: string where "WORKFLOW_ROUTE_BASE = ''/.well-known/workflow/v1''"

record activation =
  ac_leaseId :: string
  ac_endpointPort :: "int option"
  ac_endpointUrl :: "string option"

definition flowUrl :: "(string \<Rightarrow> url option) \<Rightarrow> activation \<Rightarrow> endpoint_error + string" where
  "flowUrl parse_url a = (case ac_endpointUrl a of
     Some v \<Rightarrow> bindE (parseEndpointUrl parse_url v) (\<lambda>origin. Inr (origin @ WORKFLOW_ROUTE_BASE @ ''/flow''))
   | None \<Rightarrow> (case ac_endpointPort a of None \<Rightarrow> Inl No_endpoint
       | Some port \<Rightarrow> Inr (''http://127.0.0.1:'' @ decimal port @ WORKFLOW_ROUTE_BASE @ ''/flow'')))"

datatype vqs_result = Vqs_completed | Vqs_reschedule rat | Vqs_error int string bool

record vqs_request =
  vq_activation :: activation
  vq_queueName :: string
  vq_message :: message
  vq_attempt :: int
  vq_deliveryCount :: int
  vq_deploymentId :: string
  vq_runId :: "run_id option"
  vq_runtimeSecret :: string

definition vqs_headers :: "vqs_request \<Rightarrow> (string \<times> string) list" where
  "vqs_headers q = (let m = vq_message q in
     fold (\<lambda>(k, v). map_set k v)
       ([(''content-type'', ''application/json''), (''x-vqs-queue-name'', vq_queueName q),
         (''x-vqs-message-id'', m_messageId m), (''x-vqs-message-attempt'', decimal (vq_attempt q)),
         (''x-vqs-message-delivery-count'', decimal (vq_deliveryCount q)),
         (RUNTIME_SECRET_HEADER, vq_runtimeSecret q), (DISPATCH_VERSION_HEADER, ''1''),
         (''x-eveland-project-id'', m_tenantId m), (DEPLOYMENT_HEADER, vq_deploymentId q)] @
        (case vq_runId q of Some r \<Rightarrow> if r \<noteq> [] then [(''x-eveland-run-id'', r)] else [] | None \<Rightarrow> []))
       (case m_headers m of Some h \<Rightarrow> h | None \<Rightarrow> []))"

text \<open>
  \<open>fetch\<close> fails with the text of the transport error (a timeout or an abort too), or answers; then
  reading the body (\<open>response.text()\<close>) may still fail, which nothing catches here.
\<close>

definition postVqsMessage :: "(string \<Rightarrow> url option) \<Rightarrow> (json \<Rightarrow> rat option) \<Rightarrow>
    (http_request \<Rightarrow> string + (error + http_response)) \<Rightarrow> (endpoint_error \<Rightarrow> string) \<Rightarrow> vqs_request \<Rightarrow> error + vqs_result" where
  "postVqsMessage parse_url number fetch describe q = (case flowUrl parse_url (vq_activation q) of
     Inl e \<Rightarrow> Inr (Vqs_error 0 (describe e) False)
   | Inr url \<Rightarrow> (case fetch \<lparr>hr_url = url, hr_headers = vqs_headers q, hr_body = m_data (vq_message q)\<rparr> of
       Inl text \<Rightarrow> Inr (Vqs_error 0 text True)
     | Inr (Inl e) \<Rightarrow> Inl e
     | Inr (Inr r) \<Rightarrow> if \<not> response_ok r then Inr (Vqs_error (rs_status r) (rs_text r) (500 \<le> rs_status r))
        else (case timeout_of number r of Some n \<Rightarrow> Inr (Vqs_reschedule n) | None \<Rightarrow> Inr Vqs_completed)))"

section \<open>State and dependencies\<close>

record streak =
  sk_count :: int
  sk_firstAt :: timestamp

datatype lease_event = Lease_taken string string | Lease_released string

record dispatcher = host +
  streaks :: "(string \<times> streak) list"
  delivery_lane :: "(tenant_id \<times> int) list"
  wake_lane :: "(tenant_id \<times> int) list"
  dedup_completed :: "string list"
  dedup_inflight :: "string list"
  lease_log :: "lease_event list"
  posted :: "vqs_request list"

type_synonym 'a dio = "(dispatcher, error, 'a) prog"

datatype activation_outcome = Activated activation | Cannot_activate int string | Unavailable int string

record lookup =
  lk_deploymentId :: string
  lk_status :: run_status
  lk_quarantined :: bool

record tracker =
  tr_limit :: int
  tr_minSpanMs :: int
  tr_trackedRuns :: nat

text \<open>
  \<open>dp_post\<close> is \<open>postVqsMessage\<close> under a signal that may abort it; \<open>dp_renewals\<close> are the answers to
  the renewals made while a request is open; \<open>dp_tracker\<close> is absent when the containment is off.
  \<open>dp_letterError\<close> says how the insert of a dead letter fails, if it does; \<open>dp_joined\<close>, how the
  promise of an execution that is in flight under a key is rejected, if it is.
\<close>

record deps =
  dp_sdk :: queue_sdk
  dp_activate :: "string \<Rightarrow> string \<Rightarrow> error + activation_outcome"
  dp_lookup :: "tenant_id \<Rightarrow> run_id \<Rightarrow> dispatcher \<Rightarrow> error + lookup option"
  dp_post :: "bool \<Rightarrow> vqs_request \<Rightarrow> error + vqs_result"
  dp_renewals :: "bool list"
  dp_runtimeSecret :: string
  dp_leaseRenewIntervalMs :: int
  dp_activationLeaseTtlMs :: int
  dp_accepts :: "job_request \<Rightarrow> bool"
  dp_tracker :: "tracker option"
  dp_letterError :: "dead_letter \<Rightarrow> error option"
  dp_joined :: "string \<Rightarrow> error option"
  dp_now :: timestamp

text \<open>The default lookup: one \<open>SELECT\<close> over the runs and the unresolved dead letters.\<close>

definition createRunLookup :: "tenant_id \<Rightarrow> run_id \<Rightarrow> dispatcher \<Rightarrow> error + lookup option" where
  "createRunLookup t r s = Inr (map_option (\<lambda>x. \<lparr>lk_deploymentId = r_deploymentId x, lk_status = r_status x,
       lk_quarantined = quarantined t r s\<rparr>)
     (find (\<lambda>x. r_tenantId x = t \<and> r_runId x = r) (runs s)))"

section \<open>Failure streaks\<close>

definition tracker_record :: "tracker \<Rightarrow> timestamp \<Rightarrow> string \<Rightarrow> (string \<times> streak) list \<Rightarrow>
    (int \<times> int \<times> bool) \<times> (string \<times> streak) list" where
  "tracker_record T t key sks =
     (let k = (case map_of sks key of Some p \<Rightarrow> \<lparr>sk_count = sk_count p + 1, sk_firstAt = sk_firstAt p\<rparr>
            | None \<Rightarrow> \<lparr>sk_count = 1, sk_firstAt = t\<rparr>);
          kept = map_set key k (map_delete key sks);
          bounded = (if tr_trackedRuns T < length kept
            then (case kept of oldest # _ \<Rightarrow> map_delete (fst oldest) kept | [] \<Rightarrow> kept) else kept);
          spanMs = max 0 (t - sk_firstAt k)
      in ((sk_count k, spanMs, tr_limit T \<le> sk_count k \<and> tr_minSpanMs T \<le> spanMs), bounded))"

definition tracker_reset :: "string \<Rightarrow> (string \<times> streak) list \<Rightarrow> (string \<times> streak) list" where
  "tracker_reset key sks = map_delete key sks"

section \<open>One message\<close>

datatype affinity = To_deployment string "run_id option" | Unroutable

fun terminal :: "run_status \<Rightarrow> bool" where
  "terminal Run_completed_st = True"
| "terminal Run_failed_st = True"
| "terminal Run_cancelled_st = True"
| "terminal _ = False"

definition resolveAffinity :: "deps \<Rightarrow> message \<Rightarrow> affinity dio" where
  "resolveAffinity D m = (case readRunId m of
     None \<Rightarrow> Ret (To_deployment (m_deploymentId m) None)
   | Some r \<Rightarrow> if r = [] then Ret (To_deployment (m_deploymentId m) None)
      else bindP (query (dp_lookup D (m_tenantId m) r)) (\<lambda>x. case x of
          Inl e \<Rightarrow> Throw e
        | Inr None \<Rightarrow> Ret (To_deployment (m_deploymentId m) (Some r))
        | Inr (Some found) \<Rightarrow>
            if terminal (lk_status found) then Ret Unroutable
            else if lk_quarantined found then Ret Unroutable
            else Ret (To_deployment (lk_deploymentId found) (Some r))))"

datatype dispatch_outcome = Dispatch_completed | Dispatch_rescheduled rat | Dead_letter reason | Retry reason

definition reenqueue :: "deps \<Rightarrow> string \<Rightarrow> message \<Rightarrow> rat \<Rightarrow> unit dio" where
  "reenqueue D jobName m delaySeconds = addDelayedDelivery (dp_sdk D) (dp_accepts D) (dp_now D) jobName m delaySeconds
     (case m_idempotencyKey m of Some k \<Rightarrow> k | None \<Rightarrow> m_messageId m)"

definition failure_key :: "message \<Rightarrow> run_id option \<Rightarrow> string option" where
  "failure_key m r = map_option (\<lambda>x. m_tenantId m @ '':'' @ x) r"

definition reset_streak :: "deps \<Rightarrow> string option \<Rightarrow> unit dio" where
  "reset_streak D key = (case key of Some k \<Rightarrow> if dp_tracker D = None then Ret ()
       else exec (\<lambda>s. s\<lparr>streaks := tracker_reset k (streaks s)\<rparr>) | None \<Rightarrow> Ret ())"

text \<open>\<open>withRenewedLease\<close> around the post: the lease is released however the post ends.\<close>

definition renewal_aborts :: "deps \<Rightarrow> bool" where
  "renewal_aborts D =
     aborted (renewals (allowedFailures (Some (dp_activationLeaseTtlMs D)) (dp_leaseRenewIntervalMs D)) (dp_renewals D))"

definition leased_post :: "deps \<Rightarrow> vqs_request \<Rightarrow> vqs_result dio" where
  "leased_post D q =
     finallyP (bindP (exec (\<lambda>s. s\<lparr>posted := posted s @ [q]\<rparr>)) (\<lambda>_.
         case dp_post D (renewal_aborts D) q of Inl e \<Rightarrow> Throw e | Inr result \<Rightarrow> Ret result))
       (exec (\<lambda>s. s\<lparr>lease_log := lease_log s @ [Lease_released (ac_leaseId (vq_activation q))]\<rparr>))"

definition after_post :: "deps \<Rightarrow> string \<Rightarrow> message \<Rightarrow> delivery \<Rightarrow> run_id option \<Rightarrow> vqs_result \<Rightarrow> dispatch_outcome dio" where
  "after_post D jobName m d r result = (let key = failure_key m r in case result of
     Vqs_completed \<Rightarrow> bindP (reset_streak D key) (\<lambda>_. Ret Dispatch_completed)
   | Vqs_reschedule n \<Rightarrow> bindP (reset_streak D key) (\<lambda>_.
       bindP (reenqueue D jobName (continuationOf (dp_sdk D) m d n (readBody m)) n) (\<lambda>_. Ret (Dispatch_rescheduled n)))
   | Vqs_error status text retryable \<Rightarrow>
       if \<not> retryable then Ret (Dead_letter (if status = 0 then Unusable_address text else Rejected_dispatch status text))
       else (case (key, dp_tracker D) of
           (Some k, Some T) \<Rightarrow> if 500 \<le> status then
               bindP (stmt (\<lambda>s. map_prod id (\<lambda>sks. s\<lparr>streaks := sks\<rparr>) (tracker_record T (dp_now D) k (streaks s))))
                 (\<lambda>(count, spanMs, exhausted). if exhausted
                    then bindP (reset_streak D key) (\<lambda>_. Ret (Dead_letter (Executor_failing status count spanMs text)))
                    else Ret (Retry (Dispatch_failed status text)))
             else Ret (Retry (Dispatch_failed status text))
         | _ \<Rightarrow> Ret (Retry (Dispatch_failed status text))))"

definition dispatchMessage :: "deps \<Rightarrow> string \<Rightarrow> string \<Rightarrow> message \<Rightarrow> delivery \<Rightarrow> dispatch_outcome dio" where
  "dispatchMessage D jobName queueName m d =
     bindP (resolveAffinity D m) (\<lambda>affinity. case affinity of
       Unroutable \<Rightarrow> Ret Dispatch_completed
     | To_deployment deployment r \<Rightarrow>
        (case dp_activate D deployment (''workflow-dispatcher:'' @ m_messageId m) of
           Inl e \<Rightarrow> Throw e
         | Inr (Cannot_activate status msg) \<Rightarrow> Ret (Dead_letter (Not_activatable deployment msg))
         | Inr (Unavailable status msg) \<Rightarrow> Ret (Retry (Activation_failed status msg))
         | Inr (Activated a) \<Rightarrow>
             bindP (exec (\<lambda>s. s\<lparr>lease_log := lease_log s @ [Lease_taken deployment (ac_leaseId a)]\<rparr>)) (\<lambda>_.
             bindP (leased_post D \<lparr>vq_activation = a, vq_queueName = queueName, vq_message = m, vq_attempt = d_attempt d,
               vq_deliveryCount = d_deliveryCount d, vq_deploymentId = deployment, vq_runId = r,
               vq_runtimeSecret = dp_runtimeSecret D\<rparr>)
             (after_post D jobName m d r))))"

section \<open>Fairness\<close>

datatype fairness_lane = Delivery_lane | Wake_lane

definition lane_acquire :: "tenant_id \<Rightarrow> (tenant_id \<times> int) list \<Rightarrow> (tenant_id \<times> int) list" where
  "lane_acquire t l = map_set t ((case map_of l t of Some n \<Rightarrow> n | None \<Rightarrow> 0) + 1) l"

definition lane_release :: "tenant_id \<Rightarrow> (tenant_id \<times> int) list \<Rightarrow> (tenant_id \<times> int) list" where
  "lane_release t l = (let n = (case map_of l t of Some n \<Rightarrow> n | None \<Rightarrow> 1) - 1
     in if n \<le> 0 then map_delete t l else map_set t n l)"

definition on_fairness :: "fairness_lane \<Rightarrow> ((tenant_id \<times> int) list \<Rightarrow> (tenant_id \<times> int) list) \<Rightarrow> dispatcher \<Rightarrow> dispatcher" where
  "on_fairness lane f s = (case lane of Delivery_lane \<Rightarrow> s\<lparr>delivery_lane := f (delivery_lane s)\<rparr>
     | Wake_lane \<Rightarrow> s\<lparr>wake_lane := f (wake_lane s)\<rparr>)"

definition forbiddenFlags :: "int \<Rightarrow> dispatcher \<Rightarrow> string list" where
  "forbiddenFlags maxInFlight s =
     map (\<lambda>(t, _). tenantFlag t) (filter (\<lambda>(_, n). maxInFlight \<le> n) (delivery_lane s)) @
     map (\<lambda>(t, _). wakeFlag t) (filter (\<lambda>(_, n). maxInFlight \<le> n) (wake_lane s))"

section \<open>Deduplication\<close>

definition DEDUP_LIMIT :: nat where "DEDUP_LIMIT = 10000"

definition markCompleted :: "nat \<Rightarrow> string \<Rightarrow> string list \<Rightarrow> string list" where
  "markCompleted limit key completed =
     (let added = set_add key (set_delete key completed) in
      if limit < length added then (case added of oldest # _ \<Rightarrow> set_delete oldest added | [] \<Rightarrow> added) else added)"

text \<open>
  \<open>run\<close>: a key that has completed is passed over; one that is in flight is awaited, and the
  delivery ends as that execution's promise does; otherwise the key is in flight until the
  execution settles, and is remembered only if it completed.
\<close>

datatype dedup_state = Key_completed | Key_in_flight | Key_started

definition dedup_enter :: "string \<Rightarrow> dispatcher \<Rightarrow> dedup_state \<times> dispatcher" where
  "dedup_enter k s = (if k \<in> set (dedup_completed s) then (Key_completed, s)
     else if k \<in> set (dedup_inflight s) then (Key_in_flight, s)
     else (Key_started, s\<lparr>dedup_inflight := set_add k (dedup_inflight s)\<rparr>))"

definition dedup_run :: "deps \<Rightarrow> nat \<Rightarrow> string option \<Rightarrow> dispatch_outcome dio \<Rightarrow> dispatch_outcome option dio" where
  "dedup_run D limit key execute = (case key of
     None \<Rightarrow> bindP execute (\<lambda>x. Ret (Some x))
   | Some k \<Rightarrow> bindP (stmt (dedup_enter k)) (\<lambda>state. case state of
       Key_completed \<Rightarrow> Ret None
     | Key_in_flight \<Rightarrow> (case dp_joined D k of Some e \<Rightarrow> Throw e | None \<Rightarrow> Ret None)
     | Key_started \<Rightarrow>
         finallyP
           (bindP execute (\<lambda>x.
              bindP (if x = Dispatch_completed then exec (\<lambda>s. s\<lparr>dedup_completed := markCompleted limit k (dedup_completed s)\<rparr>) else Ret ())
                (\<lambda>_. Ret (Some x))))
           (exec (\<lambda>s. s\<lparr>dedup_inflight := set_delete k (dedup_inflight s)\<rparr>))))"

section \<open>The handler\<close>

record claimed_job =
  cj_attempts :: "int option"
  cj_maxAttempts :: "int option"
  cj_flags :: "string list"

definition readFairnessLane :: "claimed_job \<Rightarrow> tenant_id \<Rightarrow> fairness_lane" where
  "readFairnessLane j t = (if wakeFlag t \<in> set (cj_flags j) then Wake_lane else Delivery_lane)"

definition readIsFinalAttempt :: "claimed_job \<Rightarrow> bool" where
  "readIsFinalAttempt j = (case (cj_attempts j, cj_maxAttempts j) of (Some a, Some n) \<Rightarrow> n \<le> a | _ \<Rightarrow> False)"

definition letter :: "message \<Rightarrow> string \<Rightarrow> string \<Rightarrow> reason \<Rightarrow> dead_letter" where
  "letter m jobName queueName why = \<lparr>dl_tenantId = m_tenantId m, dl_deploymentId = m_deploymentId m,
     dl_runId = readRunId m, dl_messageId = m_messageId m, dl_jobName = Some jobName, dl_queueName = Some queueName,
     dl_attempt = m_attempt m, dl_reason = why, dl_payload = encode_message m, dl_resolvedAt = None\<rparr>"

definition onDeadLetter :: "deps \<Rightarrow> message \<Rightarrow> reason \<Rightarrow> string \<Rightarrow> string \<Rightarrow> unit dio" where
  "onDeadLetter D m why jobName queueName = (case dp_letterError D (letter m jobName queueName why) of
     Some e \<Rightarrow> Throw e
   | None \<Rightarrow> exec (\<lambda>s. s\<lparr>dead_letters := dead_letters s @ [letter m jobName queueName why]\<rparr>))"

definition settle_outcome :: "deps \<Rightarrow> claimed_job \<Rightarrow> message \<Rightarrow> string \<Rightarrow> string \<Rightarrow> dispatch_outcome \<Rightarrow> unit dio" where
  "settle_outcome D j m jobName queueName x = (case x of
     Dispatch_completed \<Rightarrow> Ret ()
   | Dispatch_rescheduled _ \<Rightarrow> Ret ()
   | Dead_letter why \<Rightarrow> onDeadLetter D m why jobName queueName
   | Retry why \<Rightarrow> if readIsFinalAttempt j then onDeadLetter D m (Retries_exhausted why) jobName queueName
       else Throw PlainError)"

text \<open>What the handler reads of a job: the message and the full name of its queue.\<close>

definition read_job :: "deps \<Rightarrow> payload \<Rightarrow> error + (message \<times> string)" where
  "read_job D p = bindE (parse_message p) (\<lambda>m.
     bindE (getQueueTopicPrefix (dp_sdk D) (m_queueNamespace m)) (\<lambda>prefix. Inr (m, prefix @ m_id m)))"

definition makeHandler :: "deps \<Rightarrow> string \<Rightarrow> payload \<Rightarrow> claimed_job \<Rightarrow> unit dio" where
  "makeHandler D jobName p j = (case read_job D p of
     Inl e \<Rightarrow> Throw e
   | Inr (m, queueName) \<Rightarrow>
       let d = deliveryAccounting m (cj_attempts j); lane = readFairnessLane j (m_tenantId m) in
       bindP (exec (on_fairness lane (lane_acquire (m_tenantId m)))) (\<lambda>_.
       finallyP
         (bindP (catchP (dedup_run D DEDUP_LIMIT (m_idempotencyKey m) (dispatchMessage D jobName queueName m d))
                        (\<lambda>e. Ret (Some (Retry (Dispatch_threw e)))))
           (\<lambda>x. case x of None \<Rightarrow> Ret () | Some out \<Rightarrow> settle_outcome D j m jobName queueName out))
         (exec (on_fairness lane (lane_release (m_tenantId m))))))"

end
