(* ===== verification/Dispatcher_Spec.thy ===== *)
theory Dispatcher_Spec
  imports Dispatcher "HOL-Library.Multiset"
begin

text \<open>
  What the dispatcher promises: where a message goes, that none is lost, when a run is given up.
\<close>

section \<open>Routing\<close>

definition unroutable :: "deps \<Rightarrow> message \<Rightarrow> dispatcher \<Rightarrow> bool" where
  "unroutable D m s \<longleftrightarrow> (\<exists>r x. readRunId m = Some r \<and> r \<noteq> [] \<and> dp_lookup D (m_tenantId m) r s = Inr (Some x) \<and>
     (terminal (lk_status x) \<or> lk_quarantined x))"

text \<open>Where a routable message goes: to its run's deployment, or to the one it is addressed to.\<close>

definition home :: "deps \<Rightarrow> message \<Rightarrow> dispatcher \<Rightarrow> string" where
  "home D m s = (case readRunId m of None \<Rightarrow> m_deploymentId m
     | Some r \<Rightarrow> if r = [] then m_deploymentId m else (case dp_lookup D (m_tenantId m) r s of
         Inr (Some x) \<Rightarrow> lk_deploymentId x | _ \<Rightarrow> m_deploymentId m))"

definition run_of :: "message \<Rightarrow> run_id option" where
  "run_of m = (if readRunId m = Some [] then None else readRunId m)"

lemma run_resolveAffinity:
  "run (resolveAffinity D m) s = (case readRunId m of
     Some r \<Rightarrow> (if r = [] then (Inr (To_deployment (m_deploymentId m) None), s)
       else case dp_lookup D (m_tenantId m) r s of Inl e \<Rightarrow> (Inl e, s)
        | Inr _ \<Rightarrow> (Inr (if unroutable D m s then Unroutable else To_deployment (home D m s) (run_of m)), s))
   | None \<Rightarrow> (Inr (To_deployment (m_deploymentId m) None), s))"
  by (auto simp: resolveAffinity_def run_simps unroutable_def home_def run_of_def split: option.split sum.split)

lemma run_leased_post [run_simps]:
  "run (leased_post D q) s = (dp_post D (renewal_aborts D) q,
     s\<lparr>posted := posted s @ [q], lease_log := lease_log s @ [Lease_released (ac_leaseId (vq_activation q))]\<rparr>)"
  by (cases "dp_post D (renewal_aborts D) q") (simp_all add: leased_post_def run_simps)

lemma run_reset_streak [run_simps]:
  "run (reset_streak D key) s = (Inr (), case key of
     Some k \<Rightarrow> if dp_tracker D = None then s else s\<lparr>streaks := tracker_reset k (streaks s)\<rparr> | None \<Rightarrow> s)"
  by (auto simp: reset_streak_def run_simps split: option.split)

text \<open>What \<open>addDelayedDelivery\<close> asks graphile for.\<close>

lemma run_addDelayedDelivery:
  "\<exists>req q. run (addDelayedDelivery W accepts t jobName m n key) s =
     (if accepts req then (Inr (), s\<lparr>added := added s @ [req]\<rparr>) else (Inl PlainError, s)) \<and>
     jr_payload req = Some (m, q) \<and> js_jobKey (jr_spec req) = Some key \<and> js_runAt (jr_spec req) = Some (due_at t n)"
  by (cases "runQueueOfMessage W m")
    (auto simp: addDelayedDelivery_def run_simps Let_def encode_message_def timerPayload_def)

text \<open>The request that puts the message \<open>m\<close> of the delivery \<open>d\<close> back with a delay.\<close>

definition continues :: "deps \<Rightarrow> message \<Rightarrow> delivery \<Rightarrow> rat \<Rightarrow> job_request \<Rightarrow> bool" where
  "continues D m d n req \<longleftrightarrow> (\<exists>q. jr_payload req = Some (continuationOf (dp_sdk D) m d n (readBody m), q)) \<and>
     js_jobKey (jr_spec req) = Some (case m_idempotencyKey m of Some k \<Rightarrow> k | None \<Rightarrow> m_messageId m) \<and>
     js_runAt (jr_spec req) = Some (due_at (dp_now D) n)"

lemma run_reenqueue:
  "\<exists>req. run (reenqueue D jobName (continuationOf (dp_sdk D) m d n (readBody m)) n) s =
     (if dp_accepts D req then (Inr (), s\<lparr>added := added s @ [req]\<rparr>) else (Inl PlainError, s)) \<and> continues D m d n req"
proof -
  let ?c = "continuationOf (dp_sdk D) m d n (readBody m)"
  have key: "(case m_idempotencyKey ?c of Some k \<Rightarrow> k | None \<Rightarrow> m_messageId ?c) =
      (case m_idempotencyKey m of Some k \<Rightarrow> k | None \<Rightarrow> m_messageId m)"
    by (simp split: option.split)
  show ?thesis unfolding reenqueue_def continues_def key
    using run_addDelayedDelivery [of "dp_sdk D" "dp_accepts D" "dp_now D" jobName ?c n _ s] by blast
qed

text \<open>The jobs a post that ended with \<open>x\<close> added.\<close>

fun added_after :: "deps \<Rightarrow> message \<Rightarrow> delivery \<Rightarrow> error + vqs_result \<Rightarrow> error + dispatch_outcome \<Rightarrow> job_request list \<Rightarrow> bool" where
  "added_after D m d result (Inr Dispatch_completed) new \<longleftrightarrow> new = [] \<and> result = Inr Vqs_completed"
| "added_after D m d result (Inr (Dispatch_rescheduled n)) new \<longleftrightarrow> (\<exists>req. new = [req] \<and> continues D m d n req)"
| "added_after D m d result _ new \<longleftrightarrow> new = []"

text \<open>How a dispatch ends, on every branch.\<close>

inductive dispatch_ends :: "deps \<Rightarrow> message \<Rightarrow> delivery \<Rightarrow> dispatcher \<Rightarrow> error + dispatch_outcome \<Rightarrow> dispatcher \<Rightarrow> bool"
  for D m d s where
  dropped: "unroutable D m s \<Longrightarrow> dispatch_ends D m d s (Inr Dispatch_completed) s"
| untouched: "\<not> unroutable D m s \<Longrightarrow> x \<noteq> Inr Dispatch_completed \<Longrightarrow> (\<And>n. x \<noteq> Inr (Dispatch_rescheduled n)) \<Longrightarrow>
     dispatch_ends D m d s x s"
| sent: "\<not> unroutable D m s \<Longrightarrow> vq_message q = m \<Longrightarrow> vq_deploymentId q = home D m s \<Longrightarrow> vq_runId q = run_of m \<Longrightarrow>
     l = ac_leaseId (vq_activation q) \<Longrightarrow>
     added_after D m d (dp_post D (renewal_aborts D) q) x new \<Longrightarrow>
     dispatch_ends D m d s x (s\<lparr>posted := posted s @ [q],
       lease_log := lease_log s @ [Lease_taken (home D m s) l, Lease_released l], added := added s @ new, streaks := sks\<rparr>)"

lemma run_after_post:
  assumes "run (after_post D jobName m d r result) s = (x, s')"
  shows "\<exists>sks new. s' = s\<lparr>added := added s @ new, streaks := sks\<rparr> \<and> added_after D m d (Inr result) x new"
proof (cases result)
  case Vqs_completed
  with assms show ?thesis
    by (intro exI [of _ "streaks s'"] exI [of _ "[] :: job_request list"])
      (auto simp: after_post_def run_simps Let_def split: option.splits)
next
  case (Vqs_reschedule n)
  let ?s = "snd (run (reset_streak D (failure_key m r)) s)"
  obtain sks where s: "?s = s\<lparr>streaks := sks\<rparr>"
    by (rule that [of "streaks ?s"]) (auto simp: run_simps split: option.split)
  obtain req where req: "run (reenqueue D jobName (continuationOf (dp_sdk D) m d n (readBody m)) n) ?s =
      (if dp_accepts D req then (Inr (), ?s\<lparr>added := added ?s @ [req]\<rparr>) else (Inl PlainError, ?s))" "continues D m d n req"
    using run_reenqueue by blast
  have "run (after_post D jobName m d r result) s =
      (if dp_accepts D req then (Inr (Dispatch_rescheduled n), ?s\<lparr>added := added ?s @ [req]\<rparr>) else (Inl PlainError, ?s))"
    using req(1) by (simp add: after_post_def Vqs_reschedule Let_def run_simps)
  with assms req(2) s show ?thesis
    by (intro exI [of _ sks] exI [of _ "if dp_accepts D req then [req] else []"]) (auto split: if_splits)
next
  case (Vqs_error status msg retryable)
  with assms show ?thesis
    by (intro exI [of _ "streaks s'"] exI [of _ "[] :: job_request list"])
      (auto simp: after_post_def run_simps Let_def split: option.splits if_splits prod.splits)
qed

lemma dispatch_dropped:
  "unroutable D m s \<Longrightarrow> run (dispatchMessage D jobName queueName m d) s = (Inr Dispatch_completed, s)"
  by (auto simp: dispatchMessage_def run_simps run_resolveAffinity unroutable_def split: option.splits sum.splits)

text \<open>The shape of a dispatch: dropped, not sent, or one leased post and what follows its answer.\<close>

lemma dispatch_shape:
  assumes "run (dispatchMessage D jobName queueName m d) s = (x, s')"
  obtains (drop) "unroutable D m s" "x = Inr Dispatch_completed" "s' = s"
  | (unsent) "\<not> unroutable D m s" "s' = s"
      "(\<exists>e. x = Inl e) \<or> (\<exists>dep msg. x = Inr (Dead_letter (Not_activatable dep msg))) \<or> (\<exists>why. x = Inr (Retry why))"
  | (post) q u where "\<not> unroutable D m s" "vq_message q = m" "vq_deploymentId q = home D m s" "vq_runId q = run_of m"
      "u = s\<lparr>posted := posted s @ [q], lease_log := lease_log s @
         [Lease_taken (home D m s) (ac_leaseId (vq_activation q)), Lease_released (ac_leaseId (vq_activation q))]\<rparr>"
      "case dp_post D (renewal_aborts D) q of Inl e \<Rightarrow> x = Inl e \<and> s' = u
       | Inr result \<Rightarrow> run (after_post D jobName m d (run_of m) result) u = (x, s')"
proof (cases "unroutable D m s")
  case True
  show ?thesis by (rule drop [OF True]) (use assms dispatch_dropped [OF True] in simp_all)
next
  case False
  show ?thesis
  proof (cases "fst (run (resolveAffinity D m) s)")
    case (Inl e)
    then have "run (resolveAffinity D m) s = (Inl e, s)"
      by (auto simp: run_resolveAffinity split: option.splits sum.splits if_splits)
    then have "(x, s') = (Inl e, s)" using assms by (simp add: dispatchMessage_def run_simps)
    then show ?thesis by (intro unsent [OF False]) simp_all
  next
    case (Inr a)
    have a: "run (resolveAffinity D m) s = (Inr (To_deployment (home D m s) (run_of m)), s)"
      using Inr False by (auto simp: run_resolveAffinity home_def run_of_def split: option.splits sum.splits if_splits)
    show ?thesis
    proof (cases "\<exists>ac. dp_activate D (home D m s) (''workflow-dispatcher:'' @ m_messageId m) = Inr (Activated ac)")
      case False
      then have "s' = s" "(\<exists>e. x = Inl e) \<or> (\<exists>dep msg. x = Inr (Dead_letter (Not_activatable dep msg))) \<or> (\<exists>why. x = Inr (Retry why))"
        using assms a by (auto simp: dispatchMessage_def run_simps split: sum.splits activation_outcome.splits)
      then show ?thesis by (rule unsent [OF \<open>\<not> unroutable D m s\<close>])
    next
      case True
      then obtain ac where ac: "dp_activate D (home D m s) (''workflow-dispatcher:'' @ m_messageId m) = Inr (Activated ac)" ..
      let ?q = "\<lparr>vq_activation = ac, vq_queueName = queueName, vq_message = m, vq_attempt = d_attempt d,
        vq_deliveryCount = d_deliveryCount d, vq_deploymentId = home D m s, vq_runId = run_of m,
        vq_runtimeSecret = dp_runtimeSecret D\<rparr>"
      show ?thesis
      proof (rule post [of ?q, OF \<open>\<not> unroutable D m s\<close> _ _ _ refl])
        let ?u = "s\<lparr>posted := posted s @ [?q], lease_log := lease_log s @ [Lease_taken (home D m s) (ac_leaseId (vq_activation ?q)),
          Lease_released (ac_leaseId (vq_activation ?q))]\<rparr>"
        show "case dp_post D (renewal_aborts D) ?q of Inl e \<Rightarrow> x = Inl e \<and> s' = ?u
           | Inr result \<Rightarrow> run (after_post D jobName m d (run_of m) result) ?u = (x, s')"
          using assms a ac by (cases "dp_post D (renewal_aborts D) ?q") (simp_all add: dispatchMessage_def run_simps)
      qed simp_all
    qed
  qed
qed

lemma dispatch_cases:
  assumes "run (dispatchMessage D jobName queueName m d) s = (x, s')"
  shows "dispatch_ends D m d s x s'"
  using assms
proof (cases rule: dispatch_shape)
  case drop
  then show ?thesis by (simp add: dropped)
next
  case unsent
  then show ?thesis by (auto intro: untouched)
next
  case (post q u)
  let ?post = "dp_post D (renewal_aborts D) q"
  have "\<exists>sks new. s' = u\<lparr>added := added s @ new, streaks := sks\<rparr> \<and> added_after D m d ?post x new"
  proof (cases ?post)
    case (Inl e)
    then show ?thesis using post(5,6) by (intro exI [of _ "streaks s"] exI [of _ "[] :: job_request list"]) simp
  next
    case (Inr result)
    then show ?thesis using run_after_post [of D jobName m d "run_of m" result u x s'] post(5,6) by auto
  qed
  then show ?thesis unfolding post(5) by (auto intro!: sent post(1-4) refl)
qed

lemma unroutable_lookup:
  assumes "dp_lookup D = createRunLookup" and "readRunId m = Some r" "r \<noteq> []"
  shows "unroutable D m s \<longleftrightarrow> (\<exists>y. find (\<lambda>x. r_tenantId x = m_tenantId m \<and> r_runId x = r) (runs s) = Some y \<and>
     (run_ended y \<or> quarantined (m_tenantId m) r s))"
proof -
  have "terminal (r_status y) \<longleftrightarrow> run_ended y" for y by (cases "r_status y") (simp_all add: run_ended_def)
  then show ?thesis using assms by (auto simp: unroutable_def createRunLookup_def)
qed

text \<open>
  C23. Routing under the default lookup. A message of a run that has ended, or that has an
  unresolved dead letter, is dropped as done: nothing is activated, posted or counted. Any other
  message is posted, if at all, exactly once, to the deployment of its run (before the run's row
  exists, the one it is addressed to), under a lease on that deployment that is given back
  however the post ends.
\<close>

theorem dispatch_routed:
  assumes D: "dp_lookup D = createRunLookup" and r: "readRunId m = Some r" "r \<noteq> []"
    and run: "run (dispatchMessage D jobName queueName m d) s = (x, s')"
  defines "row \<equiv> find (\<lambda>x. r_tenantId x = m_tenantId m \<and> r_runId x = r) (runs s)"
  shows "case row of
      Some y \<Rightarrow> if run_ended y \<or> quarantined (m_tenantId m) r s then x = Inr Dispatch_completed \<and> s' = s
        else (\<exists>q l. posted s' = posted s \<and> lease_log s' = lease_log s \<or> posted s' = posted s @ [q] \<and>
          lease_log s' = lease_log s @ [Lease_taken (r_deploymentId y) l, Lease_released l] \<and>
          vq_message q = m \<and> vq_deploymentId q = r_deploymentId y \<and> vq_runId q = Some r)
    | None \<Rightarrow> (\<exists>q l. posted s' = posted s \<and> lease_log s' = lease_log s \<or> posted s' = posted s @ [q] \<and>
          lease_log s' = lease_log s @ [Lease_taken (m_deploymentId m) l, Lease_released l] \<and>
          vq_message q = m \<and> vq_deploymentId q = m_deploymentId m \<and> vq_runId q = Some r)"
proof -
  note un = unroutable_lookup [OF D r, of s, folded row_def]
  have home: "home D m s = (case row of Some y \<Rightarrow> r_deploymentId y | None \<Rightarrow> m_deploymentId m)"
    using r by (auto simp: home_def D createRunLookup_def row_def split: option.split)
  from dispatch_cases [OF run] show ?thesis
  proof cases
    case dropped
    then show ?thesis using un by auto
  next
    case untouched
    then show ?thesis using un by (auto split: option.split)
  next
    case (sent q l new sks)
    have "run_of m = Some r" using r by (simp add: run_of_def)
    with sent un home show ?thesis by (auto split: option.split)
  qed
qed

section \<open>Fairness\<close>

text \<open>The in-flight counts as a multiset of tenants.\<close>

definition lane_ok :: "(tenant_id \<times> int) list \<Rightarrow> bool" where
  "lane_ok l \<longleftrightarrow> distinct (map fst l) \<and> (\<forall>x \<in> set l. 0 < snd x)"

definition in_flight :: "(tenant_id \<times> int) list \<Rightarrow> tenant_id multiset" where
  "in_flight l = (\<Sum>(t, n) \<leftarrow> l. replicate_mset (nat n) t)"

lemma lane_ok_map_of: "lane_ok l \<Longrightarrow> map_of l t = Some n \<Longrightarrow> 0 < n"
  by (auto simp: lane_ok_def dest: map_of_SomeD)

lemma count_in_flight:
  assumes "distinct (map fst l)"
  shows "count (in_flight l) t = nat (case map_of l t of Some n \<Rightarrow> n | None \<Rightarrow> 0)"
  using assms
proof (induction l)
  case Nil
  then show ?case by (simp add: in_flight_def)
next
  case (Cons x l)
  obtain u n where x: "x = (u, n)" by fastforce
  have "map_of l u = None" using Cons.prems x by (simp add: map_of_eq_None_iff)
  with Cons x show ?case by (simp add: in_flight_def)
qed

lemma lane_ok_set: "lane_ok l \<Longrightarrow> 0 < n \<Longrightarrow> lane_ok (map_set t n l)"
  by (auto simp: lane_ok_def dest!: set_map_set)

lemma lane_ok_delete: "lane_ok l \<Longrightarrow> lane_ok (map_delete t l)"
  by (auto simp: lane_ok_def dest!: set_map_delete)

lemma lane_ok_acquire: "lane_ok l \<Longrightarrow> lane_ok (lane_acquire t l)"
  unfolding lane_acquire_def using lane_ok_map_of [of l t]
  by (intro lane_ok_set) (auto split: option.split)

lemma lane_ok_release: "lane_ok l \<Longrightarrow> lane_ok (lane_release t l)"
  by (simp add: lane_release_def Let_def lane_ok_set lane_ok_delete)

lemma map_of_acquire:
  "map_of (lane_acquire t l) u = (if u = t then Some ((case map_of l t of Some n \<Rightarrow> n | None \<Rightarrow> 0) + 1) else map_of l u)"
  by (simp add: lane_acquire_def)

lemma map_of_release:
  "lane_ok l \<Longrightarrow> map_of (lane_release t l) u =
     (if u = t then case map_of l t of Some n \<Rightarrow> if n = 1 then None else Some (n - 1) | None \<Rightarrow> None else map_of l u)"
  using lane_ok_map_of [of l t] by (auto simp: lane_release_def Let_def split: option.split)

lemma acquire_release:
  assumes "lane_ok l"
  shows "lane_release t (lane_acquire t l) = l"
  using assms lane_ok_map_of [OF assms, of t]
  by (cases "map_of l t")
    (simp_all add: lane_release_def map_of_acquire,
     simp_all add: lane_acquire_def map_delete_added map_set_set map_set_same lane_ok_def)

lemma fairness_counts_facts:
  assumes "lane_ok (delivery_lane s)" and "lane_ok (wake_lane s)" and "0 < cap"
  shows "in_flight (lane_acquire t (delivery_lane s)) = add_mset t (in_flight (delivery_lane s))"
    "in_flight (lane_release t (delivery_lane s)) = in_flight (delivery_lane s) - {#t#}"
    "lane_ok (lane_acquire t (delivery_lane s)) \<and> lane_ok (lane_release t (delivery_lane s))"
    "tenantFlag t \<in> set (forbiddenFlags cap s) \<longleftrightarrow> cap \<le> int (count (in_flight (delivery_lane s)) t)"
    "wakeFlag t \<in> set (forbiddenFlags cap s) \<longleftrightarrow> cap \<le> int (count (in_flight (wake_lane s)) t)"
proof -
  note ok = lane_ok_acquire [OF assms(1), of t] lane_ok_release [OF assms(1), of t]
  have dist: "lane_ok l \<Longrightarrow> distinct (map fst l)" for l by (simp add: lane_ok_def)
  show "in_flight (lane_acquire t (delivery_lane s)) = add_mset t (in_flight (delivery_lane s))"
    using lane_ok_map_of [OF assms(1), of t]
    by (intro multiset_eqI)
      (auto simp: count_in_flight [OF dist [OF assms(1)]] count_in_flight [OF dist [OF ok(1)]] map_of_acquire
        nat_add_distrib split: option.split)
  show "in_flight (lane_release t (delivery_lane s)) = in_flight (delivery_lane s) - {#t#}"
    using lane_ok_map_of [OF assms(1), of t]
    by (intro multiset_eqI)
      (auto simp: count_in_flight [OF dist [OF assms(1)]] count_in_flight [OF dist [OF ok(2)]] map_of_release [OF assms(1)]
        split: option.split)
  show "lane_ok (lane_acquire t (delivery_lane s)) \<and> lane_ok (lane_release t (delivery_lane s))" using ok by simp
  have mem: "t \<in> fst ` {x \<in> set l. cap \<le> snd x} \<longleftrightarrow> cap \<le> int (count (in_flight l) t)" if "lane_ok l" for l
  proof -
    have "(t, n) \<in> set l \<longleftrightarrow> map_of l t = Some n" for n using that by (simp add: lane_ok_def)
    then show ?thesis using assms(3) that
      by (cases "map_of l t") (auto simp: count_in_flight [OF dist [OF that]] image_iff)
  qed
  have flags: "tenantFlag t \<noteq> wakeFlag u" "tenantFlag t = tenantFlag u \<longleftrightarrow> t = u" "wakeFlag t = wakeFlag u \<longleftrightarrow> t = u" for t u
    by (simp_all add: tenantFlag_def wakeFlag_def)
  have set: "set (forbiddenFlags cap s) = tenantFlag ` fst ` {x \<in> set (delivery_lane s). cap \<le> snd x} \<union>
      wakeFlag ` fst ` {x \<in> set (wake_lane s). cap \<le> snd x}"
    by (force simp: forbiddenFlags_def image_iff)
  show "tenantFlag t \<in> set (forbiddenFlags cap s) \<longleftrightarrow> cap \<le> int (count (in_flight (delivery_lane s)) t)"
    unfolding set using mem [OF assms(1)] flags by (metis (no_types, lifting) UnE UnI1 imageE imageI)
  show "wakeFlag t \<in> set (forbiddenFlags cap s) \<longleftrightarrow> cap \<le> int (count (in_flight (wake_lane s)) t)"
    unfolding set using mem [OF assms(2)] flags by (metis (no_types, lifting) UnE UnI2 imageE imageI)
qed

text \<open>
  The dispatcher's in-flight counts are a multiset of tenants: taking a delivery adds its
  tenant, giving it back removes one, and the flags forbidden to the next claim are exactly
  those of the tenants at their cap.
\<close>

theorem fairness_counts:
  assumes "lane_ok (delivery_lane s)" and "lane_ok (wake_lane s)" and "0 < cap"
  shows "in_flight (lane_acquire t (delivery_lane s)) = add_mset t (in_flight (delivery_lane s)) \<and>
    in_flight (lane_release t (delivery_lane s)) = in_flight (delivery_lane s) - {#t#} \<and>
    lane_ok (lane_acquire t (delivery_lane s)) \<and> lane_ok (lane_release t (delivery_lane s)) \<and>
    (tenantFlag t \<in> set (forbiddenFlags cap s) \<longleftrightarrow> cap \<le> int (count (in_flight (delivery_lane s)) t)) \<and>
    (wakeFlag t \<in> set (forbiddenFlags cap s) \<longleftrightarrow> cap \<le> int (count (in_flight (wake_lane s)) t))"
  using fairness_counts_facts [OF assms] by blast


section \<open>No delivery is lost\<close>

definition remembered :: "message \<Rightarrow> dispatcher \<Rightarrow> bool" where
  "remembered m s \<longleftrightarrow> (\<exists>k. m_idempotencyKey m = Some k \<and> k \<in> set (dedup_completed s))"

text \<open>A delivery of a message that another one has in flight, whose execution settles without an error.\<close>

definition joined :: "deps \<Rightarrow> message \<Rightarrow> dispatcher \<Rightarrow> bool" where
  "joined D m s \<longleftrightarrow> (\<exists>k. m_idempotencyKey m = Some k \<and> k \<in> set (dedup_inflight s) \<and> dp_joined D k = None)"

text \<open>
  How the deduplicated execution ends: passed over, as the one in flight, or by executing, in
  which case the two key caches are all that changes beside.
\<close>

lemma run_dedup_cases:
  assumes "run (dedup_run D limit (m_idempotencyKey m) execute) s = (x, s')"
  obtains "remembered m s \<or> joined D m s" "x = Inr None" "s' = s"
  | e where "x = Inl e" "s' = s"
  | ks y u where "run execute (s\<lparr>dedup_inflight := ks\<rparr>) = (y, u)" "x = map_sum id Some y"
      "\<exists>c ks'. s' = u\<lparr>dedup_completed := c, dedup_inflight := ks'\<rparr>"
proof (cases "m_idempotencyKey m")
  case None
  then have "x = map_sum id Some (fst (run execute s)) \<and> run execute s = (fst (run execute s), s')"
    using assms by (auto simp: dedup_run_def run_simps split: prod.splits sum.splits)
  moreover have "s' = s'\<lparr>dedup_completed := dedup_completed s', dedup_inflight := dedup_inflight s'\<rparr>" by simp
  moreover have "s = s\<lparr>dedup_inflight := dedup_inflight s\<rparr>" by simp
  ultimately show ?thesis using that(3) by metis
next
  case (Some k)
  consider (known) "k \<in> set (dedup_completed s)" | (wait) "k \<notin> set (dedup_completed s)" "k \<in> set (dedup_inflight s)"
    | (start) "k \<notin> set (dedup_completed s)" "k \<notin> set (dedup_inflight s)" by blast
  then show ?thesis
  proof cases
    case known
    then show ?thesis using that(1) assms Some by (simp add: dedup_run_def dedup_enter_def run_simps remembered_def)
  next
    case wait
    have eq: "run (dedup_run D limit (m_idempotencyKey m) execute) s =
        (case dp_joined D k of Some e \<Rightarrow> (Inl e, s) | None \<Rightarrow> (Inr None, s))"
      using wait by (simp add: Some dedup_run_def dedup_enter_def run_simps split: option.split)
    show ?thesis
    proof (cases "dp_joined D k")
      case None
      then have "joined D m s" using wait Some by (simp add: joined_def)
      with None eq assms that(1) show ?thesis by simp
    next
      case (Some e)
      with eq assms that(2) show ?thesis by simp
    qed
  next
    case start
    let ?s = "s\<lparr>dedup_inflight := set_add k (dedup_inflight s)\<rparr>"
    obtain y u where y: "run execute ?s = (y, u)" by fastforce
    let ?c = "if y = Inr Dispatch_completed then markCompleted limit k (dedup_completed u) else dedup_completed u"
    have "run (dedup_run D limit (m_idempotencyKey m) execute) s =
        (map_sum id Some y, u\<lparr>dedup_completed := ?c, dedup_inflight := set_delete k (dedup_inflight u)\<rparr>)"
      using start y by (cases y) (simp_all add: Some dedup_run_def dedup_enter_def run_simps run_finallyP)
    with assms have "x = map_sum id Some y"
      and "s' = u\<lparr>dedup_completed := ?c, dedup_inflight := set_delete k (dedup_inflight u)\<rparr>" by simp_all
    then show ?thesis by (intro that(3) [OF y]) blast+
  qed
qed

text \<open>The lookup reads the database, not what the dispatcher holds in memory.\<close>

definition database_lookup :: "deps \<Rightarrow> bool" where
  "database_lookup D \<longleftrightarrow> (\<forall>t r s lane f ks. dp_lookup D t r ((on_fairness lane f s)\<lparr>dedup_inflight := ks\<rparr>) = dp_lookup D t r s)"

lemma createRunLookup_database: "dp_lookup D = createRunLookup \<Longrightarrow> database_lookup D"
  by (auto simp: database_lookup_def createRunLookup_def quarantined_def on_fairness_def split: fairness_lane.split)

lemma on_fairness_fields [simp]:
  "posted (on_fairness lane f s) = posted s" "lease_log (on_fairness lane f s) = lease_log s"
  "added (on_fairness lane f s) = added s" "dead_letters (on_fairness lane f s) = dead_letters s"
  "streaks (on_fairness lane f s) = streaks s" "dedup_completed (on_fairness lane f s) = dedup_completed s"
  "dedup_inflight (on_fairness lane f s) = dedup_inflight s"
  "runs (on_fairness lane f s) = runs s"
  by (simp_all add: on_fairness_def split: fairness_lane.split)

lemma fairness_restored:
  assumes "delivery_lane s' = delivery_lane (on_fairness lane (lane_acquire t) s)"
    "wake_lane s' = wake_lane (on_fairness lane (lane_acquire t) s)"
    and "lane_ok (delivery_lane s)" "lane_ok (wake_lane s)"
  shows "delivery_lane (on_fairness lane (lane_release t) s') = delivery_lane s \<and>
     wake_lane (on_fairness lane (lane_release t) s') = wake_lane s"
  using assms by (cases lane) (simp_all add: on_fairness_def acquire_release)

text \<open>What is made of an outcome: nothing, a dead letter, or an error, at the last attempt the letter's own.\<close>

lemma run_settle_outcome:
  assumes "run (settle_outcome D j m jobName queueName out) s = (x, s')"
  shows "case x of
      Inl e \<Rightarrow> s' = s \<and> (readIsFinalAttempt j \<longrightarrow> (\<exists>why. dp_letterError D (letter m jobName queueName why) = Some e))
    | Inr _ \<Rightarrow> s' = s \<and> (out = Dispatch_completed \<or> (\<exists>n. out = Dispatch_rescheduled n)) \<or>
        (\<exists>why. s' = s\<lparr>dead_letters := dead_letters s @ [letter m jobName queueName why]\<rparr>)"
  using assms
  by (cases out) (auto simp: settle_outcome_def onDeadLetter_def run_simps split: if_splits option.splits)

lemma letter_written: "s \<noteq> s\<lparr>dead_letters := dead_letters s @ [l]\<rparr>"
  by (cases s) auto

text \<open>The end of a delivery, given the end of its deduplicated execution.\<close>

definition settles :: "deps \<Rightarrow> claimed_job \<Rightarrow> message \<Rightarrow> string \<Rightarrow> string \<Rightarrow> error + dispatch_outcome option \<Rightarrow> unit dio" where
  "settles D j m jobName queueName x = (case x of
     Inl e \<Rightarrow> settle_outcome D j m jobName queueName (Retry (Dispatch_threw e))
   | Inr None \<Rightarrow> Ret ()
   | Inr (Some out) \<Rightarrow> settle_outcome D j m jobName queueName out)"

lemma run_makeHandler:
  assumes "read_job D p = Inr (m, queueName)"
    and lane: "lane = readFairnessLane j (m_tenantId m)"
  obtains y s1 x s2 where
    "run (dedup_run D DEDUP_LIMIT (m_idempotencyKey m) (dispatchMessage D jobName queueName m (deliveryAccounting m (cj_attempts j))))
       (on_fairness lane (lane_acquire (m_tenantId m)) s) = (y, s1)"
    "run (settles D j m jobName queueName y) s1 = (x, s2)"
    "run (makeHandler D jobName p j) s = (x, on_fairness lane (lane_release (m_tenantId m)) s2)"
proof -
  let ?d = "dispatchMessage D jobName queueName m (deliveryAccounting m (cj_attempts j))"
  obtain y s1 where y: "run (dedup_run D DEDUP_LIMIT (m_idempotencyKey m) ?d)
      (on_fairness lane (lane_acquire (m_tenantId m)) s) = (y, s1)" by fastforce
  obtain x s2 where x: "run (settles D j m jobName queueName y) s1 = (x, s2)" by fastforce
  have "run (makeHandler D jobName p j) s = (x, on_fairness lane (lane_release (m_tenantId m)) s2)"
    using x by (cases y; cases "projr y")
      (auto simp: makeHandler_def assms Let_def run_exec run_bindP run_finallyP run_catchP y [unfolded lane]
        settles_def split: prod.split option.splits)
  with that y x show ?thesis by blast
qed

text \<open>What the handler leaves of a message it has read.\<close>

definition accounted :: "deps \<Rightarrow> claimed_job \<Rightarrow> message \<Rightarrow> string \<Rightarrow> string \<Rightarrow> dispatcher \<Rightarrow> dispatcher \<Rightarrow> bool" where
  "accounted D j m jobName queueName s s' \<longleftrightarrow> remembered m s \<or> joined D m s \<or> unroutable D m s \<or>
     (\<exists>q. posted s' = posted s @ [q] \<and> vq_message q = m \<and> dp_post D (renewal_aborts D) q = Inr Vqs_completed) \<or>
     (\<exists>n req. added s' = added s @ [req] \<and> continues D m (deliveryAccounting m (cj_attempts j)) n req) \<or>
     (\<exists>why. dead_letters s' = dead_letters s @ [letter m jobName queueName why])"

text \<open>The deduplicated dispatch on its own.\<close>

lemma dedup_dispatch_ends:
  assumes "run (dedup_run D limit (m_idempotencyKey m) (dispatchMessage D jobName queueName m (deliveryAccounting m (cj_attempts j))))
      (on_fairness lane f s) = (y, s1)"
    and lookup: "database_lookup D"
  shows "dead_letters s1 = dead_letters s \<and> delivery_lane s1 = delivery_lane (on_fairness lane f s) \<and>
      wake_lane s1 = wake_lane (on_fairness lane f s)"
    and "y = Inr None \<or> y = Inr (Some Dispatch_completed) \<or> (\<exists>n. y = Inr (Some (Dispatch_rescheduled n))) \<Longrightarrow>
      accounted D j m jobName queueName s s1"
proof -
  have "(dead_letters s1 = dead_letters s \<and> delivery_lane s1 = delivery_lane (on_fairness lane f s) \<and>
      wake_lane s1 = wake_lane (on_fairness lane f s)) \<and>
    (y = Inr None \<or> y = Inr (Some Dispatch_completed) \<or> (\<exists>n. y = Inr (Some (Dispatch_rescheduled n))) \<longrightarrow>
      accounted D j m jobName queueName s s1)"
    using assms(1)
  proof (cases rule: run_dedup_cases)
    case 1
    then show ?thesis by (auto simp: accounted_def remembered_def joined_def)
  next
    case 2
    then show ?thesis by simp
  next
    case (3 ks z u)
    let ?s = "(on_fairness lane f s)\<lparr>dedup_inflight := ks\<rparr>"
    have un: "unroutable D m ?s = unroutable D m s" using lookup by (simp add: unroutable_def database_lookup_def)
    have z: "y \<noteq> Inr None" "y = Inr (Some w) \<Longrightarrow> z = Inr w" for w using 3(2) by (cases z; auto)+
    from dispatch_cases [OF 3(1)] show ?thesis
      using 3(3) un z by cases (auto simp: accounted_def)
  qed
  then show "dead_letters s1 = dead_letters s \<and> delivery_lane s1 = delivery_lane (on_fairness lane f s) \<and>
      wake_lane s1 = wake_lane (on_fairness lane f s)"
    and "y = Inr None \<or> y = Inr (Some Dispatch_completed) \<or> (\<exists>n. y = Inr (Some (Dispatch_rescheduled n))) \<Longrightarrow>
      accounted D j m jobName queueName s s1" by blast+
qed

text \<open>
  C24. No delivery is lost without a trace, but for one case. A job whose payload cannot be read
  is refused and nothing else happens. Otherwise, when the handler returns, which ends the job, the
  message's key had completed or was in flight in another delivery that settled, or the run needs
  no delivery (it has ended, or waits behind a dead letter), or the executor answered that it is
  done, or the message was added again, under its key and with its count carried on, or a dead
  letter holds it. When the handler throws, no dead letter was written, and graphile has an attempt
  left, or the database refused the dead letter itself. Either way the in-flight counts are as before.
\<close>

theorem no_delivery_lost:
  assumes "lane_ok (delivery_lane s)" and "lane_ok (wake_lane s)" and "database_lookup D"
    and "run (makeHandler D jobName p j) s = (x, s')"
  shows "case read_job D p of
      Inl e \<Rightarrow> x = Inl e \<and> s' = s
    | Inr (m, queueName) \<Rightarrow> delivery_lane s' = delivery_lane s \<and> wake_lane s' = wake_lane s \<and>
       (case x of
          Inl e \<Rightarrow> dead_letters s' = dead_letters s \<and> (readIsFinalAttempt j \<longrightarrow>
            (\<exists>why. dp_letterError D (letter m jobName queueName why) = Some e))
        | Inr _ \<Rightarrow> accounted D j m jobName queueName s s')"
proof (cases "read_job D p")
  case (Inl e)
  with assms(4) show ?thesis by (simp add: makeHandler_def)
next
  case (Inr mq)
  obtain m queueName where mq: "mq = (m, queueName)" by fastforce
  let ?lane = "readFairnessLane j (m_tenantId m)"
  obtain y s1 x' s2 where y: "run (dedup_run D DEDUP_LIMIT (m_idempotencyKey m)
        (dispatchMessage D jobName queueName m (deliveryAccounting m (cj_attempts j))))
       (on_fairness ?lane (lane_acquire (m_tenantId m)) s) = (y, s1)"
    and s2: "run (settles D j m jobName queueName y) s1 = (x', s2)"
    and "run (makeHandler D jobName p j) s = (x', on_fairness ?lane (lane_release (m_tenantId m)) s2)"
    by (rule run_makeHandler [OF Inr [unfolded mq] refl])
  then have x: "x' = x" and s': "s' = on_fairness ?lane (lane_release (m_tenantId m)) s2" using assms(4) by simp_all
  note ends = dedup_dispatch_ends [OF y assms(3)]
  have kept: "s2 = s1 \<or> (\<exists>why. s2 = s1\<lparr>dead_letters := dead_letters s1 @ [letter m jobName queueName why]\<rparr>)"
    using s2 run_settle_outcome [of D j m jobName queueName _ s1 x' s2]
    by (cases x') (auto simp: settles_def split: sum.splits option.splits)
  then have "delivery_lane s' = delivery_lane s \<and> wake_lane s' = wake_lane s"
    unfolding s' using ends(1) assms(1,2) by (intro fairness_restored) auto
  moreover have "dead_letters s' = dead_letters s \<and> (readIsFinalAttempt j \<longrightarrow>
      (\<exists>why. dp_letterError D (letter m jobName queueName why) = Some e))" if "x = Inl e" for e
    using s2 run_settle_outcome [of D j m jobName queueName _ s1 x' s2] ends(1) that x
    unfolding s' by (auto simp: settles_def split: sum.splits option.splits)
  moreover have "accounted D j m jobName queueName s s'" if "x = Inr v" for v
  proof (cases "s2 = s1")
    case True
    then have "y = Inr None \<or> y = Inr (Some Dispatch_completed) \<or> (\<exists>n. y = Inr (Some (Dispatch_rescheduled n)))"
      using s2 run_settle_outcome [of D j m jobName queueName _ s1 x' s2] that x
      by (fastforce simp: settles_def simp: letter_written split: sum.splits option.splits)
    from ends(2) [OF this] True show ?thesis by (simp add: s' accounted_def)
  next
    case False
    with kept ends(1) show ?thesis by (auto simp: s' accounted_def)
  qed
  ultimately show ?thesis using Inr mq by (cases x) auto
qed

end
