(* ===== verification/Queue_Spec.thy ===== *)
theory Queue_Spec
  imports Queue
begin

text \<open>
  What the World's queue promises: who may deliver, which deliveries overlap, which completed
  keys are remembered.
\<close>

section \<open>Authentication\<close>

lemma run_trackDelivery [run_simps]:
  "run (trackDelivery p) s = (case run p (s\<lparr>inflight_count := inflight_count s + 1\<rparr>) of
     (x, s') \<Rightarrow> (x, s'\<lparr>inflight_count := inflight_count s' - 1\<rparr>))"
  by (simp add: trackDelivery_def run_simps split: prod.split)

definition dispatch_allowed :: "(string \<Rightarrow> rat option) \<Rightarrow> (string \<Rightarrow> string option) \<Rightarrow> queue_config \<Rightarrow> headers \<Rightarrow> bool" where
  "dispatch_allowed num env cfg req \<longleftrightarrow> (case req DISPATCH_VERSION_HEADER of None \<Rightarrow> True | Some v \<Rightarrow> v = [] \<or>
     num v = Some 1 \<and> req RUNTIME_SECRET_HEADER \<noteq> None \<and>
     readRuntimeSecretFromEnv env = req RUNTIME_SECRET_HEADER \<and>
     req DEPLOYMENT_HEADER \<in> {None, Some [], Some (qc_deploymentId cfg)})"

lemma first_value_nonempty: "first_value env xs = Some v \<Longrightarrow> v \<noteq> []"
  by (induction xs) (auto split: option.splits if_splits)

lemma version_one: "v \<in> \<int> \<Longrightarrow> 0 < v \<Longrightarrow> v \<le> (1 :: rat) \<Longrightarrow> v = 1"
  by (auto elim!: Ints_cases)

lemma version_check:
  "checkDispatchVersion num h = None \<longleftrightarrow> h = None \<or> h = Some [] \<or> (\<exists>v. h = Some v \<and> num v = Some 1)"
  by (auto simp: checkDispatchVersion_def DISPATCH_VERSION_def version_one not_le not_less split: option.splits if_splits)

text \<open>
  C21. A request that declares a dispatch version reaches the executor only if it declares the
  version 1, carries the runtime secret of the environment, and names no deployment but this one;
  any other such request is refused with 400 or 401 and runs nothing. A request without the header
  (the embedded runner's) is let through. However the executor ends, the count of deliveries in
  flight is one higher while it runs and restored afterwards.
\<close>

theorem dispatch_authenticated:
  "run (queue_handler num env cfg inner req) s =
     (if dispatch_allowed num env cfg req
      then case run (inner req) (s\<lparr>inflight_count := inflight_count s + 1\<rparr>) of
         (Inl e, s') \<Rightarrow> (Inl e, s'\<lparr>inflight_count := inflight_count s' - 1\<rparr>)
       | (Inr r, s') \<Rightarrow> (Inr (Response r), s'\<lparr>inflight_count := inflight_count s' - 1\<rparr>)
      else (Inr (Refused (if checkDispatchVersion num (req DISPATCH_VERSION_HEADER) = None then 401 else 400)), s))"
proof -
  have deliver: "run (bindP (trackDelivery (inner req)) (\<lambda>r. Ret (Response r))) s =
      (case run (inner req) (s\<lparr>inflight_count := inflight_count s + 1\<rparr>) of
         (Inl e, s') \<Rightarrow> (Inl e, s'\<lparr>inflight_count := inflight_count s' - 1\<rparr>)
       | (Inr r, s') \<Rightarrow> (Inr (Response r), s'\<lparr>inflight_count := inflight_count s' - 1\<rparr>))"
    by (simp add: run_simps split: prod.split sum.split)
  show ?thesis
  proof (cases "checkDispatchVersion num (req DISPATCH_VERSION_HEADER)")
    case (Some x)
    then have "\<not> dispatch_allowed num env cfg req"
      using version_check [of num "req DISPATCH_VERSION_HEADER"]
      by (auto simp: dispatch_allowed_def split: option.splits)
    with Some show ?thesis by (simp add: queue_handler_def Let_def)
  next
    case None
    with version_check [of num "req DISPATCH_VERSION_HEADER"] show ?thesis
      using first_value_nonempty [of env RUNTIME_SECRET_ENV_NAMES]
      by (auto simp: queue_handler_def Let_def deliver dispatch_allowed_def secretMatches_iff
          readRuntimeSecretFromEnv_def split: option.split)
  qed
qed

section \<open>Completed keys\<close>

interpretation completed_keys: recency "\<lambda>k. k \<noteq> []" COMPLETED_IDEMPOTENCY_CACHE_LIMIT "\<lambda>c. c" markMessageCompleted
proof
  show "0 < COMPLETED_IDEMPOTENCY_CACHE_LIMIT" by (simp add: COMPLETED_IDEMPOTENCY_CACHE_LIMIT_def)
next
  fix k :: string and c :: "string list"
  assume k: "k \<noteq> []" and c: "list_all (\<lambda>k. k \<noteq> []) c" "distinct c" "length c \<le> COMPLETED_IDEMPOTENCY_CACHE_LIMIT"
  have "hd (set_delete k c @ [k]) \<in> set c \<union> {k}"
    using list.set_sel(1) [of "set_delete k c @ [k]"] by auto
  then have "hd (set_delete k c @ [k]) \<noteq> []" using k c(1) by (auto simp: list_all_iff)
  then show "markMessageCompleted k c = newest COMPLETED_IDEMPOTENCY_CACHE_LIMIT (set_delete k c @ [k])"
    using evict_newest [OF c(2,3), of k]
    by (cases "set_delete k c @ [k]") (auto simp: markMessageCompleted_def Let_def)
qed

text \<open>
  After any sequence of completed deliveries the embedded runner remembers exactly the
  10,000 most recently completed keys: no key twice, a repeated completion counting as the newest.
\<close>

theorem completed_keys_newest:
  assumes "list_all (\<lambda>k. k \<noteq> []) ks"
  shows "fold markMessageCompleted ks [] = newest COMPLETED_IDEMPOTENCY_CACHE_LIMIT (remdups ks)"
    "length (fold markMessageCompleted ks []) \<le> COMPLETED_IDEMPOTENCY_CACHE_LIMIT"
  using completed_keys.holds_newest [of "[]" ks] assms by (simp_all add: length_newest)

theorem completed_keys_newest_witness:
  "fold markMessageCompleted [''a'', ''b'', ''a''] [] = [''b'', ''a'']"
  using completed_keys_newest(1) [of "[''a'', ''b'', ''a'']"]
  by (simp add: newest_all COMPLETED_IDEMPOTENCY_CACHE_LIMIT_def)

section \<open>One delivery of a run at a time\<close>

lemma task_lane_run:
  "m_idempotencyKey m = None \<Longrightarrow> runQueueFor W (qc_tenantId cfg) (m_data m) = Some q \<Longrightarrow>
     (\<And>v. WorkflowInvokePayload_safeParse W (m_data m) = Some v \<Longrightarrow> \<not> mayBypassRunQueue W v) \<Longrightarrow>
     task_lane W cfg m = Serial q"
  by (auto simp: task_lane_def Let_def dest: runQueueFor_nonempty split: option.split)

lemma at_most_one:
  assumes "\<And>i j. i < length xs \<Longrightarrow> j < length xs \<Longrightarrow> P (xs ! i) \<Longrightarrow> P (xs ! j) \<Longrightarrow> i = j"
  shows "length (filter P xs) \<le> 1"
  using assms by (auto simp: length_filter_conv_card card_le_Suc0_iff_eq)

lemma run_deliveries_serialized_facts:
  assumes "pool_reached markMessageCompleted s"
  shows "task_lane W cfg m \<noteq> Free \<Longrightarrow>
      length (filter (\<lambda>t. tk_phase t = Running \<and> tk_lane t = task_lane W cfg m) (pool_tasks s)) \<le> 1"
    "m_idempotencyKey m = None \<Longrightarrow> runQueueFor W (qc_tenantId cfg) (m_data m) = Some q \<Longrightarrow>
      (\<And>v. WorkflowInvokePayload_safeParse W (m_data m) = Some v \<Longrightarrow> \<not> mayBypassRunQueue W v) \<Longrightarrow>
      task_lane W cfg m = Serial q"
    "unsettled s i \<Longrightarrow> \<exists>j \<le> i. unsettled s j \<and> (tk_phase (pool_tasks s ! j) = Running \<or>
      (\<exists>p. tk_phase (pool_tasks s ! j) = Waiting p \<and> (\<forall>k. p = Some k \<longrightarrow> \<not> unsettled s k)) \<or>
      (\<exists>k. tk_phase (pool_tasks s ! j) = Joined k \<and> \<not> unsettled s k))"
proof -
  show "task_lane W cfg m \<noteq> Free \<Longrightarrow>
      length (filter (\<lambda>t. tk_phase t = Running \<and> tk_lane t = task_lane W cfg m) (pool_tasks s)) \<le> 1"
    by (rule at_most_one) (use executions_exclusive [OF assms] in auto)
qed (use pool_progress [OF assms] task_lane_run in blast)+

text \<open>
  C22. However the deliveries of the embedded runner arrive, start and settle: of the deliveries
  that wait in one run's queue and carry no key and are no bypassing wake, at most one executes at
  a time; of the deliveries under one idempotency key, at most one; and while any delivery has
  not settled, one can go on (none waits for ever on another that waits).
\<close>

theorem run_deliveries_serialized:
  assumes "pool_reached markMessageCompleted s"
  shows "(task_lane W cfg m \<noteq> Free \<longrightarrow>
      length (filter (\<lambda>t. tk_phase t = Running \<and> tk_lane t = task_lane W cfg m) (pool_tasks s)) \<le> 1) \<and>
    (m_idempotencyKey m = None \<and> runQueueFor W (qc_tenantId cfg) (m_data m) = Some q \<and>
      (\<forall>v. WorkflowInvokePayload_safeParse W (m_data m) = Some v \<longrightarrow> \<not> mayBypassRunQueue W v) \<longrightarrow>
      task_lane W cfg m = Serial q) \<and>
    (\<forall>i. unsettled s i \<longrightarrow> (\<exists>j \<le> i. unsettled s j \<and> (tk_phase (pool_tasks s ! j) = Running \<or>
      (\<exists>p. tk_phase (pool_tasks s ! j) = Waiting p \<and> (\<forall>k. p = Some k \<longrightarrow> \<not> unsettled s k)) \<or>
      (\<exists>k. tk_phase (pool_tasks s ! j) = Joined k \<and> \<not> unsettled s k))))"
  using run_deliveries_serialized_facts [OF assms] by blast


definition two_deliveries :: pool where
  "two_deliveries = set_phase 0 Running (arrive (Serial ''wfrun:t:r'') (arrive (Serial ''wfrun:t:r'') empty_pool))"

lemma two_deliveries_reached: "pool_reached markMessageCompleted two_deliveries"
proof -
  let ?s = "arrive (Serial ''wfrun:t:r'') (arrive (Serial ''wfrun:t:r'') empty_pool)"
  have s: "pool_reached markMessageCompleted ?s"
    using pool_next [OF pool_next [OF pool_empty task_arrives] task_arrives] .
  have "pool_moves markMessageCompleted ?s two_deliveries" unfolding two_deliveries_def
    by (rule task_starts [where p = None]) (simp_all add: empty_pool_def Let_def)
  with s show ?thesis by (rule pool_next)
qed

theorem run_deliveries_serialized_witness:
  "length (filter (\<lambda>t. tk_phase t = Running \<and> tk_lane t = Serial ''wfrun:t:r'') (pool_tasks two_deliveries)) = 1"
proof -
  let ?W = "example_queue_sdk\<lparr>messageRunSpecVersion := (\<lambda>_. None)\<rparr>"
  let ?cfg = "\<lparr>qc_tenantId = ''t'', qc_deploymentId = ''d'', qc_embedded = True, qc_queueNamespace = None\<rparr>"
  have "task_lane ?W ?cfg example_message = Serial ''wfrun:t:r''"
    by (simp add: task_lane_def runQueueFor_def isSingleOrchestratorRunMessage_def example_queue_sdk_def
        world_sdk.defs queue_sdk.defs example_sdk_def example_message_def bodyRunId_def runQueueName_def
        mayBypassRunQueue_def isHookWake_def)
  with run_deliveries_serialized(1) [OF two_deliveries_reached, of ?W ?cfg example_message] show ?thesis
    by (simp add: two_deliveries_def set_phase_def empty_pool_def Let_def)
qed

end
