(* ===== verification/Containment.thy ===== *)
theory Containment
  imports Dispatcher_Spec Queue_Spec
begin

text \<open>
  What the dispatcher remembers in memory: the failure streaks behind the decision to give a run
  up, and the keys of completed messages.
\<close>

section \<open>Failure streaks\<close>

text \<open>What happened to the deliveries of the runs, one event per delivery that counts.\<close>

datatype delivery_event = Executor_failed string timestamp | Streak_ended string

fun tracker_step :: "tracker \<Rightarrow> delivery_event \<Rightarrow> (string \<times> streak) list \<Rightarrow> (string \<times> streak) list" where
  "tracker_step T (Executor_failed k t) sks = snd (tracker_record T t k sks)"
| "tracker_step T (Streak_ended k) sks = tracker_reset k sks"

definition streaks_after :: "tracker \<Rightarrow> delivery_event list \<Rightarrow> (string \<times> streak) list" where
  "streaks_after T evs = fold (tracker_step T) evs []"

fun ev_key :: "delivery_event \<Rightarrow> string" where
  "ev_key (Executor_failed k t) = k"
| "ev_key (Streak_ended k) = k"

text \<open>The reference: the times of a run's failures since the last delivery that ended its streak.\<close>

fun failing_step :: "string \<Rightarrow> delivery_event \<Rightarrow> timestamp list \<Rightarrow> timestamp list" where
  "failing_step k (Executor_failed k' t) ts = (if k' = k then ts @ [t] else ts)"
| "failing_step k (Streak_ended k') ts = (if k' = k then [] else ts)"

definition failing :: "string \<Rightarrow> delivery_event list \<Rightarrow> timestamp list" where
  "failing k evs = fold (failing_step k) evs []"

definition streak_of :: "timestamp list \<Rightarrow> streak option" where
  "streak_of ts = (if ts = [] then None else Some \<lparr>sk_count = int (length ts), sk_firstAt = hd ts\<rparr>)"

text \<open>The streak a failure at \<open>t\<close> leads to.\<close>

definition advanced :: "timestamp \<Rightarrow> streak option \<Rightarrow> streak" where
  "advanced t p = (case p of Some x \<Rightarrow> \<lparr>sk_count = sk_count x + 1, sk_firstAt = sk_firstAt x\<rparr>
     | None \<Rightarrow> \<lparr>sk_count = 1, sk_firstAt = t\<rparr>)"

lemma advanced_streak: "streak_of (ts @ [t]) = Some (advanced t (streak_of ts))"
  by (cases ts) (simp_all add: streak_of_def advanced_def)

lemma tracker_record_eq:
  "fst (tracker_record T t k sks) = (let x = advanced t (map_of sks k) in (sk_count x, max 0 (t - sk_firstAt x),
     tr_limit T \<le> sk_count x \<and> tr_minSpanMs T \<le> max 0 (t - sk_firstAt x)))"
  by (simp add: tracker_record_def advanced_def Let_def)

lemma record_streaks:
  "snd (tracker_record T t k sks) = (let kept = map_set k (advanced t (map_of sks k)) (map_delete k sks)
     in if tr_trackedRuns T < length kept then map_delete (fst (hd kept)) kept else kept)"
proof -
  have "(case xs of [] \<Rightarrow> xs | oldest # _ \<Rightarrow> map_delete (fst oldest) xs) = map_delete (fst (hd xs)) xs"
    if "xs \<noteq> []" for xs :: "(string \<times> streak) list" using that by (cases xs) auto
  then show ?thesis by (simp add: tracker_record_def Let_def advanced_def)
qed

lemma record_keys:
  "map fst (snd (tracker_record T t k sks)) = (let ks = set_delete k (map fst sks) @ [k]
     in if tr_trackedRuns T < length ks then set_delete (hd ks) ks else ks)"
proof -
  define kept where "kept = map_set k (advanced t (map_of sks k)) (map_delete k sks)"
  have keys: "map fst kept = set_delete k (map fst sks) @ [k]" by (simp add: kept_def map_delete_keys)
  have "kept \<noteq> []" by (simp add: kept_def)
  then have "hd (map fst kept) = fst (hd kept)" "length (map fst kept) = length kept"
    by (simp_all add: hd_map)
  then show ?thesis unfolding record_streaks kept_def [symmetric] Let_def keys [symmetric] by (simp add: map_delete_keys)
qed

lemma map_of_record:
  assumes "map_of (snd (tracker_record T t k sks)) k' = Some x"
  shows "x = (if k' = k then advanced t (map_of sks k) else the (map_of sks k')) \<and> (k' \<noteq> k \<longrightarrow> map_of sks k' \<noteq> None)"
  using assms unfolding record_streaks Let_def by (auto simp del: map_set_deleted split: if_splits)

lemma failing_snoc [simp]: "failing k (evs @ [e]) = failing_step k e (failing k evs)"
  by (simp add: failing_def)

lemma streaks_snoc [simp]: "streaks_after T (evs @ [e]) = tracker_step T e (streaks_after T evs)"
  by (simp add: streaks_after_def)

text \<open>A remembered streak is a part of the real one: eviction may forget its beginning.\<close>

lemma streak_sound:
  "map_of (streaks_after T evs) k = Some x \<Longrightarrow>
     \<exists>xs ys. failing k evs = xs @ ys \<and> streak_of ys = Some x"
proof (induction evs arbitrary: x rule: rev_induct)
  case Nil
  then show ?case by (simp add: streaks_after_def)
next
  case (snoc e evs)
  show ?case
  proof (cases e)
    case (Streak_ended k')
    with snoc show ?thesis by (auto simp: tracker_reset_def split: if_splits)
  next
    case (Executor_failed k' t)
    note x = map_of_record [of T t k' "streaks_after T evs" k x]
    show ?thesis
    proof (cases "k' = k")
      case True
      then have x': "x = advanced t (map_of (streaks_after T evs) k)" using x snoc.prems Executor_failed by simp
      show ?thesis
      proof (cases "map_of (streaks_after T evs) k")
        case None
        then show ?thesis using x' True Executor_failed advanced_streak [of "[]" t]
          by (intro exI [of _ "failing k evs"] exI [of _ "[t]"]) (simp add: streak_of_def)
      next
        case (Some y)
        then obtain xs ys where "failing k evs = xs @ ys" "streak_of ys = Some y" using snoc.IH by blast
        then show ?thesis using x' Some True Executor_failed advanced_streak [of ys t]
          by (intro exI [of _ xs] exI [of _ "ys @ [t]"]) simp
      qed
    next
      case False
      then show ?thesis using x snoc Executor_failed by auto
    qed
  qed
qed

text \<open>With room for every run, nothing is forgotten.\<close>

lemma streaks_keys:
  "set (map fst (streaks_after T evs)) \<subseteq> ev_key ` set evs \<and> distinct (map fst (streaks_after T evs))"
proof (induction evs rule: rev_induct)
  case Nil
  then show ?case by (simp add: streaks_after_def)
next
  case (snoc e evs)
  show ?case
  proof (cases e)
    case (Executor_failed k t)
    with snoc show ?thesis
      by (auto simp: record_keys Let_def set_delete_def simp del: set_map)
  qed (use snoc in \<open>auto simp: tracker_reset_def map_delete_keys set_delete_def simp del: set_map\<close>)
qed

lemma streak_exact:
  assumes "card (ev_key ` set evs) \<le> tr_trackedRuns T"
  shows "map_of (streaks_after T evs) k = streak_of (failing k evs)"
  using assms
proof (induction evs arbitrary: k rule: rev_induct)
  case Nil
  then show ?case by (simp add: streaks_after_def failing_def streak_of_def)
next
  case (snoc e evs)
  let ?sks = "streaks_after T evs"
  have "card (ev_key ` set evs) \<le> card (ev_key ` set (evs @ [e]))" by (rule card_mono) auto
  with snoc.prems have IH: "map_of ?sks k = streak_of (failing k evs)" for k by (intro snoc.IH) simp
  show ?case
  proof (cases e)
    case (Streak_ended k')
    then show ?thesis by (simp add: tracker_reset_def IH) (simp add: streak_of_def)
  next
    case (Executor_failed k' t)
    have "length (set_delete k' (map fst ?sks) @ [k']) = card (set (set_delete k' (map fst ?sks) @ [k']))"
      using streaks_keys [of T evs] by (intro distinct_card [symmetric]) (simp add: set_delete_def)
    also have "\<dots> \<le> card (ev_key ` set (evs @ [e]))"
      using streaks_keys [of T evs] Executor_failed by (intro card_mono) (auto simp del: set_map)
    finally have "length (map_set k' (advanced t (map_of ?sks k')) (map_delete k' ?sks)) \<le> tr_trackedRuns T"
      using snoc.prems by (simp add: map_delete_keys [symmetric])
    then have "snd (tracker_record T t k' ?sks) = map_set k' (advanced t (map_of ?sks k')) (map_delete k' ?sks)"
      unfolding record_streaks Let_def by auto
    then show ?thesis by (simp add: Executor_failed IH advanced_streak del: map_set_deleted)
  qed
qed

section \<open>The streaks of a history of dispatches\<close>

text \<open>What the executor answered to the post of a dispatch, if there was one and its answer was read.\<close>

definition executor_answer :: "deps \<Rightarrow> dispatcher \<Rightarrow> dispatcher \<Rightarrow> vqs_result option" where
  "executor_answer D s s' = (case drop (length (posted s)) (posted s') of
     [q] \<Rightarrow> (case dp_post D (renewal_aborts D) q of Inr result \<Rightarrow> Some result | Inl _ \<Rightarrow> None)
   | _ \<Rightarrow> None)"

fun executor_failing :: "vqs_result option \<Rightarrow> bool" where
  "executor_failing (Some (Vqs_error status txt retryable)) \<longleftrightarrow> retryable \<and> 500 \<le> status"
| "executor_failing _ \<longleftrightarrow> False"

fun gave_up :: "error + dispatch_outcome \<Rightarrow> bool" where
  "gave_up (Inr (Dead_letter (Executor_failing status n spanMs txt))) \<longleftrightarrow> True"
| "gave_up _ \<longleftrightarrow> False"

definition streak_key :: "message \<Rightarrow> run_id \<Rightarrow> string" where
  "streak_key m r = m_tenantId m @ '':'' @ r"

text \<open>
  The events a dispatch adds to the history of its run, read off the executor's answer: an answer
  that the delivery is done or to be repeated later ends the streak, a 5xx extends it, and a run
  that is given up starts over. Nothing else counts.
\<close>

definition dispatch_events :: "deps \<Rightarrow> message \<Rightarrow> dispatcher \<Rightarrow> error + dispatch_outcome \<Rightarrow> dispatcher \<Rightarrow> delivery_event list" where
  "dispatch_events D m s x s' = (case run_of m of None \<Rightarrow> [] | Some r \<Rightarrow> (case executor_answer D s s' of
     None \<Rightarrow> []
   | Some Vqs_completed \<Rightarrow> [Streak_ended (streak_key m r)]
   | Some (Vqs_reschedule n) \<Rightarrow> [Streak_ended (streak_key m r)]
   | Some (Vqs_error status txt retryable) \<Rightarrow> if retryable \<and> 500 \<le> status
       then Executor_failed (streak_key m r) (dp_now D) # (if gave_up x then [Streak_ended (streak_key m r)] else []) else []))"

text \<open>
  The histories of a dispatcher with the tracker \<open>T\<close>: it starts with no streak, dispatches messages,
  one after another in the order of their answers, and does anything else that leaves the streaks alone.
\<close>

inductive dispatch_history :: "tracker \<Rightarrow> delivery_event list \<Rightarrow> dispatcher \<Rightarrow> bool" for T where
  started: "streaks s = [] \<Longrightarrow> dispatch_history T [] s"
| elsewhere: "dispatch_history T evs s \<Longrightarrow> streaks s' = streaks s \<Longrightarrow> dispatch_history T evs s'"
| dispatched: "dispatch_history T evs s \<Longrightarrow> dp_tracker D = Some T \<Longrightarrow>
     run (dispatchMessage D jobName queueName m d) s = (x, s') \<Longrightarrow>
     dispatch_history T (evs @ dispatch_events D m s x s') s'"

lemma failure_key_run: "failure_key m (Some r) = Some (streak_key m r)"
  by (simp add: failure_key_def streak_key_def)

lemma reset_after_reenqueue:
  "run (reenqueue D jobName m n) s = (x, s') \<Longrightarrow> streaks s' = streaks s"
  using run_addDelayedDelivery [of "dp_sdk D" "dp_accepts D" "dp_now D" jobName m n
      "case m_idempotencyKey m of Some k \<Rightarrow> k | None \<Rightarrow> m_messageId m" s]
  by (auto simp: reenqueue_def split: if_splits)

text \<open>What follows the executor's answer, as events, and when the run is given up.\<close>

lemma after_post_streaks:
  assumes run: "run (after_post D jobName m d (Some r) result) s = (x, s')" and T: "dp_tracker D = Some T"
  shows "streaks s' = fold (tracker_step T) (case result of
        Vqs_error status txt retryable \<Rightarrow> if retryable \<and> 500 \<le> status
          then Executor_failed (streak_key m r) (dp_now D) # (if gave_up x then [Streak_ended (streak_key m r)] else []) else []
      | _ \<Rightarrow> [Streak_ended (streak_key m r)]) (streaks s)"
    and "gave_up x \<longleftrightarrow> executor_failing (Some result) \<and>
      snd (snd (fst (tracker_record T (dp_now D) (streak_key m r) (streaks s))))"
proof -
  obtain count spanMs exhausted sks where rec:
    "tracker_record T (dp_now D) (streak_key m r) (streaks s) = ((count, spanMs, exhausted), sks)"
    by (metis prod.collapse)
  note defs = after_post_def failure_key_run Let_def run_simps T rec
  show "streaks s' = fold (tracker_step T) (case result of
        Vqs_error status txt retryable \<Rightarrow> if retryable \<and> 500 \<le> status
          then Executor_failed (streak_key m r) (dp_now D) # (if gave_up x then [Streak_ended (streak_key m r)] else []) else []
      | _ \<Rightarrow> [Streak_ended (streak_key m r)]) (streaks s)"
    using run by (cases result) (auto simp: defs split: prod.splits sum.splits if_splits dest: reset_after_reenqueue)
  show "gave_up x \<longleftrightarrow> executor_failing (Some result) \<and>
      snd (snd (fst (tracker_record T (dp_now D) (streak_key m r) (streaks s))))"
    using run by (cases result) (auto simp: defs split: prod.splits sum.splits if_splits)
qed

lemma after_post_no_run:
  assumes "run (after_post D jobName m d None result) s = (x, s')"
  shows "streaks s' = streaks s \<and> \<not> gave_up x"
  using assms
  by (cases result) (auto simp: after_post_def failure_key_def Let_def run_simps split: prod.splits sum.splits if_splits
      dest: reset_after_reenqueue)

lemma after_post_posted:
  "run (after_post D jobName m d r result) s = (x, s') \<Longrightarrow> posted s' = posted s"
  by (drule run_after_post) auto

lemma dispatch_streaks:
  assumes "run (dispatchMessage D jobName queueName m d) s = (x, s')" and T: "dp_tracker D = Some T"
  shows "streaks s' = fold (tracker_step T) (dispatch_events D m s x s') (streaks s)"
    and "gave_up x \<longleftrightarrow> (\<exists>r. run_of m = Some r \<and> executor_failing (executor_answer D s s') \<and>
      snd (snd (fst (tracker_record T (dp_now D) (streak_key m r) (streaks s)))))"
proof -
  have "streaks s' = fold (tracker_step T) (dispatch_events D m s x s') (streaks s) \<and>
    (gave_up x \<longleftrightarrow> (\<exists>r. run_of m = Some r \<and> executor_failing (executor_answer D s s') \<and>
      snd (snd (fst (tracker_record T (dp_now D) (streak_key m r) (streaks s))))))"
    using assms(1)
  proof (cases rule: dispatch_shape)
    case (post q u)
    have su: "streaks u = streaks s" "posted u = posted s @ [q]" by (simp_all add: post(5))
    show ?thesis
    proof (cases "dp_post D (renewal_aborts D) q")
      case (Inl e)
      then show ?thesis using post(6) su by (simp add: executor_answer_def dispatch_events_def split: option.split)
    next
      case (Inr result)
      then have after: "run (after_post D jobName m d (run_of m) result) u = (x, s')" using post(6) by simp
      have answer: "executor_answer D s s' = Some result"
        using after_post_posted [OF after] su Inr by (simp add: executor_answer_def)
      show ?thesis
      proof (cases "run_of m")
        case None
        then show ?thesis using after_post_no_run [of D jobName m d result u x s'] after su
          by (simp add: dispatch_events_def)
      next
        case (Some r)
        note facts = after_post_streaks [OF after [unfolded Some] T, unfolded su]
        have "streaks s' = fold (tracker_step T) (dispatch_events D m s x s') (streaks s)"
          using facts(1) by (cases result) (simp_all add: dispatch_events_def Some answer)
        then show ?thesis unfolding facts(2) by (simp add: Some answer)
      qed
    qed
  qed (auto simp: executor_answer_def dispatch_events_def split: option.split)
  then show "streaks s' = fold (tracker_step T) (dispatch_events D m s x s') (streaks s)"
    and "gave_up x \<longleftrightarrow> (\<exists>r. run_of m = Some r \<and> executor_failing (executor_answer D s s') \<and>
      snd (snd (fst (tracker_record T (dp_now D) (streak_key m r) (streaks s)))))" by blast+
qed

lemma history_streaks: "dispatch_history T evs s \<Longrightarrow> streaks s = streaks_after T evs"
proof (induction rule: dispatch_history.induct)
  case (dispatched evs s D jobName queueName m d x s')
  then show ?case using dispatch_streaks(1) [OF dispatched.hyps(3,2)] by (simp add: streaks_after_def)
qed (simp_all add: streaks_after_def)

text \<open>The streak a failure leads to is a part of the real one, and all of it when nothing was forgotten.\<close>

definition over :: "tracker \<Rightarrow> timestamp \<Rightarrow> timestamp list \<Rightarrow> bool" where
  "over T t ts \<longleftrightarrow> tr_limit T \<le> int (length ts) \<and> tr_minSpanMs T \<le> max 0 (t - hd ts)"

lemma exhausted_sound:
  assumes "snd (snd (fst (tracker_record T t k (streaks_after T evs))))"
  shows "\<exists>xs ys. failing k (evs @ [Executor_failed k t]) = xs @ ys \<and> ys \<noteq> [] \<and> over T t ys"
proof -
  define x where "x = advanced t (map_of (streaks_after T evs) k)"
  have x: "tr_limit T \<le> sk_count x" "tr_minSpanMs T \<le> max 0 (t - sk_firstAt x)"
    using assms by (simp_all add: tracker_record_eq x_def Let_def)
  have "\<exists>xs ys. failing k (evs @ [Executor_failed k t]) = xs @ ys \<and> streak_of ys = Some x"
  proof (cases "map_of (streaks_after T evs) k")
    case None
    then show ?thesis using advanced_streak [of "[]" t]
      by (intro exI [of _ "failing k evs"] exI [of _ "[t]"]) (simp add: streak_of_def x_def)
  next
    case (Some y)
    then obtain xs ys where "failing k evs = xs @ ys" "streak_of ys = Some y"
      using streak_sound [of T evs k y] by auto
    then show ?thesis using Some advanced_streak [of ys t]
      by (intro exI [of _ xs] exI [of _ "ys @ [t]"]) (simp add: x_def)
  qed
  then show ?thesis using x by (fastforce simp: streak_of_def over_def split: if_splits)
qed

lemma exhausted_exact:
  assumes "card (ev_key ` set evs) \<le> tr_trackedRuns T"
  shows "snd (snd (fst (tracker_record T t k (streaks_after T evs)))) \<longleftrightarrow> over T t (failing k (evs @ [Executor_failed k t]))"
  using streak_exact [OF assms, of k] advanced_streak [of "failing k evs" t]
  by (simp add: tracker_record_eq Let_def over_def) (auto simp: streak_of_def advanced_def add.commute split: if_splits)

text \<open>
  C25. After any history of dispatches, a dispatch dead-letters a run over its executor's 5xx
  answers only if the executor has just answered so and the run has then failed at least \<open>limit\<close>
  deliveries in a row, with no answer in between that ended the streak, over at least
  \<open>minSpanMs\<close>. The beginning of a streak may be forgotten when more runs fail than the tracker
  holds; as long as the history names no more runs than that, the dispatch dead-letters the run
  exactly when the executor answered so and the whole streak has that length and span. Answers
  that are neither done nor 5xx (a refused post, a 4xx) neither extend nor end a streak.
\<close>

theorem run_given_up_only_after_streak:
  fixes s s' :: dispatcher
  assumes "dispatch_history T evs s" and "dp_tracker D = Some T"
    and "run (dispatchMessage D jobName queueName m d) s = (x, s')"
  shows "(gave_up x \<longrightarrow> executor_failing (executor_answer D s s') \<and> (\<exists>r xs ys. run_of m = Some r \<and>
       failing (streak_key m r) (evs @ [Executor_failed (streak_key m r) (dp_now D)]) = xs @ ys \<and>
       ys \<noteq> [] \<and> tr_limit T \<le> int (length ys) \<and> tr_minSpanMs T \<le> max 0 (dp_now D - hd ys))) \<and>
    (card (ev_key ` set evs) \<le> tr_trackedRuns T \<longrightarrow>
     (gave_up x \<longleftrightarrow> executor_failing (executor_answer D s s') \<and> (\<exists>r. run_of m = Some r \<and>
       (let ts = failing (streak_key m r) (evs @ [Executor_failed (streak_key m r) (dp_now D)]) in
        tr_limit T \<le> int (length ts) \<and> tr_minSpanMs T \<le> max 0 (dp_now D - hd ts)))))"
  using dispatch_streaks(2) [OF assms(3,2)] exhausted_sound [of T "dp_now D" _ evs] exhausted_exact [of evs T "dp_now D"]
  unfolding history_streaks [OF assms(1)] over_def Let_def by blast


section \<open>The bounded caches\<close>

definition default_tracker :: tracker where
  "default_tracker = \<lparr>tr_limit = 5, tr_minSpanMs = 60000, tr_trackedRuns = 10000\<rparr>"

interpretation streak_keys: recency "\<lambda>_. True" 10000 "map fst" "\<lambda>k sks. snd (tracker_record default_tracker t k sks)" for t
proof
  fix k and c :: "(string \<times> streak) list"
  assume "distinct (map fst c)" "length (map fst c) \<le> 10000"
  from evict_newest [OF this, of k]
  show "map fst (snd (tracker_record default_tracker t k c)) = newest 10000 (set_delete k (map fst c) @ [k])"
    by (simp add: record_keys Let_def default_tracker_def)
qed simp

interpretation dedup_keys: recency "\<lambda>_. True" DEDUP_LIMIT "\<lambda>c. c" "markCompleted DEDUP_LIMIT"
proof
  fix k :: string and c :: "string list"
  assume "distinct c" "length c \<le> DEDUP_LIMIT"
  from evict_newest [OF this, of k]
  show "markCompleted DEDUP_LIMIT k c = newest DEDUP_LIMIT (set_delete k c @ [k])"
    by (cases "set_delete k c @ [k]") (auto simp: markCompleted_def Let_def)
qed (simp add: DEDUP_LIMIT_def)

lemma bounded_reset: "streak_keys.bounded sks \<Longrightarrow> streak_keys.bounded (tracker_reset k sks)"
  by (auto simp: streak_keys.bounded_def tracker_reset_def map_delete_keys set_delete_def
      intro: order.trans [OF length_filter_le] simp: list_all_iff)

text \<open>
  The caches of the dispatcher are bounded. However deliveries fail and streaks end, it
  tracks at most 10,000 runs, each once, the one that failed last among them; and it remembers
  exactly the 10,000 most recently completed message keys.
\<close>

theorem dispatcher_caches_bounded:
  "length (streaks_after default_tracker evs) \<le> 10000 \<and> distinct (map fst (streaks_after default_tracker evs))"
  "k \<in> fst ` set (streaks_after default_tracker (evs @ [Executor_failed k t]))"
  "fold (markCompleted DEDUP_LIMIT) ks [] = newest DEDUP_LIMIT (remdups ks)"
proof -
  have step: "streak_keys.bounded (streaks_after default_tracker evs)" for evs
  proof (induction evs rule: rev_induct)
    case Nil
    then show ?case by (simp add: streaks_after_def streak_keys.bounded_def)
  next
    case (snoc e evs)
    then show ?case by (cases e) (simp_all add: bounded_reset streak_keys.bounded_touch)
  qed
  show "length (streaks_after default_tracker evs) \<le> 10000 \<and> distinct (map fst (streaks_after default_tracker evs))"
    using step [of evs] by (simp add: streak_keys.bounded_def)
  show "k \<in> fst ` set (streaks_after default_tracker (evs @ [Executor_failed k t]))"
    using streak_keys.touched_present [OF step, of k t evs] by simp
  show "fold (markCompleted DEDUP_LIMIT) ks [] = newest DEDUP_LIMIT (remdups ks)"
    using dedup_keys.holds_newest [of "[]" ks] by (simp add: list_all_iff)
qed

end
