(* ===== verification/Dispatch_Examples.thy ===== *)
theory Dispatch_Examples
  imports Containment Evaluate
begin

text \<open>A dispatcher at which the properties are exercised.\<close>

definition example_deps :: "vqs_result \<Rightarrow> deps" where
  "example_deps answer = \<lparr>dp_sdk = example_queue_sdk,
     dp_activate = (\<lambda>_ _. Inr (Activated \<lparr>ac_leaseId = ''l'', ac_endpointPort = Some 3000, ac_endpointUrl = None\<rparr>)),
     dp_lookup = createRunLookup, dp_post = (\<lambda>_ _. Inr answer), dp_renewals = [], dp_runtimeSecret = ''s'',
     dp_leaseRenewIntervalMs = 60000, dp_activationLeaseTtlMs = 180000, dp_accepts = (\<lambda>_. True),
     dp_tracker = Some default_tracker, dp_letterError = (\<lambda>_. None), dp_joined = (\<lambda>_. None), dp_now = 100000\<rparr>"

definition example_host :: "run_row list \<Rightarrow> dispatcher" where
  "example_host rows = \<lparr>runs = rows, events = [], eventSlots = [], steps = [], hooks = [], waits = [],
     startHookAdmissions = [], db_now = 0, pendingFence = None, graphile_jobs = [], graphile_readable = True,
     streams = [], checkpoints = [], deadline_columns = [], locks = [], notifications = [],
     dead_letters = [], tasks = [], job_queues = [], jobs = [], added = [],
     streaks = [], delivery_lane = [], wake_lane = [], dedup_completed = [], dedup_inflight = [], lease_log = [], posted = []\<rparr>"

definition example_run_message :: message where
  "example_run_message = example_message\<lparr>m_data := Some (JObject [(''runId'', JString ''wrun_1'')])\<rparr>"

definition example_job :: claimed_job where
  "example_job = \<lparr>cj_attempts = Some 49, cj_maxAttempts = Some 49, cj_flags = []\<rparr>"

lemmas dispatch_defs = dispatchMessage_def resolveAffinity_def after_post_def reset_streak_def failure_key_def
  example_deps_def example_host_def example_run_message_def example_message_def readRunId_def bodyRunId_def
  createRunLookup_def quarantined_def has_row_def example_run_def run_simps

lemma example_run_id: "readRunId example_run_message = Some ''wrun_1''"
  by (simp add: example_run_message_def readRunId_def bodyRunId_def)

lemma example_lookup: "dp_lookup (example_deps x) = createRunLookup"
  by (simp add: example_deps_def)

lemma example_row:
  "find (\<lambda>x. r_tenantId x = m_tenantId example_run_message \<and> r_runId x = ''wrun_1'') (runs (example_host [example_run st])) =
     Some (example_run st)"
  by (simp add: example_host_def example_run_def example_run_message_def example_message_def)

definition routed :: "dispatcher" where
  "routed = snd (run (dispatchMessage (example_deps Vqs_completed) FLOW_JOB_NAME ''q'' example_run_message
     \<lparr>d_attempt = 1, d_deliveryCount = 1\<rparr>) (example_host [example_run Run_running\<lparr>r_deploymentId := ''home''\<rparr>]))"

theorem dispatch_routed_witness:
  "\<exists>q l. posted routed = [q] \<and> vq_deploymentId q = ''home'' \<and> lease_log routed = [Lease_taken ''home'' l, Lease_released l]"
proof -
  let ?s = "example_host [example_run Run_running\<lparr>r_deploymentId := ''home''\<rparr>]"
  let ?run = "run (dispatchMessage (example_deps Vqs_completed) FLOW_JOB_NAME ''q'' example_run_message
     \<lparr>d_attempt = 1, d_deliveryCount = 1\<rparr>) ?s"
  have "?run = (fst ?run, routed)" by (simp add: routed_def)
  from dispatch_routed [OF example_lookup example_run_id _ this]
  have "\<exists>q l. posted routed = posted ?s \<or> posted routed = posted ?s @ [q] \<and> vq_deploymentId q = ''home'' \<and>
      lease_log routed = lease_log ?s @ [Lease_taken ''home'' l, Lease_released l]"
    by (auto simp: example_host_def example_run_def example_run_message_def example_message_def run_ended_def
        quarantined_def has_row_def)
  moreover have "posted routed \<noteq> []" unfolding routed_def by (simp add: dispatch_defs Let_def)
  ultimately show ?thesis by (auto simp: example_host_def)
qed

text \<open>The last attempt of a delivery the executor cannot be reached for becomes a dead letter.\<close>

theorem no_delivery_lost_witness:
  "dead_letters (snd (run (makeHandler (example_deps (Vqs_error 0 ''refused'' True)) FLOW_JOB_NAME
     (encode_message example_run_message) example_job) (example_host [example_run Run_running]))) \<noteq> [] \<and>
   delivery_lane (snd (run (makeHandler (example_deps (Vqs_error 0 ''refused'' True)) FLOW_JOB_NAME
     (encode_message example_run_message) example_job) (example_host [example_run Run_running]))) = []"
proof -
  let ?D = "example_deps (Vqs_error 0 ''refused'' True)" and ?s = "example_host [example_run Run_running]"
  let ?run = "run (makeHandler ?D FLOW_JOB_NAME (encode_message example_run_message) example_job) ?s"
  obtain queueName where job: "read_job ?D (encode_message example_run_message) = Inr (example_run_message, queueName)"
    by (simp add: read_job_def parse_message_def encode_message_def example_run_message_def example_message_def
        example_deps_def example_queue_sdk_def world_sdk.defs queue_sdk.defs)
  have lanes: "lane_ok (delivery_lane ?s)" "lane_ok (wake_lane ?s)" by (simp_all add: example_host_def lane_ok_def)
  have run: "?run = (fst ?run, snd ?run)" by simp
  note lost = no_delivery_lost [OF lanes createRunLookup_database [OF example_lookup] run, unfolded job sum.case prod.case]
  have "readIsFinalAttempt example_job" "dp_letterError ?D l = None" for l
    by (simp_all add: readIsFinalAttempt_def example_job_def example_deps_def)
  with conjunct2 [OF conjunct2 [OF lost]] have "accounted ?D example_job example_run_message FLOW_JOB_NAME queueName ?s (snd ?run)"
    by (cases "fst ?run") auto
  moreover have "\<not> unroutable ?D example_run_message ?s" "\<not> remembered example_run_message ?s" "\<not> joined ?D example_run_message ?s"
    by (simp_all add: unroutable_def remembered_def joined_def example_run_id example_deps_def createRunLookup_def example_host_def
        example_run_def quarantined_def has_row_def example_run_message_def example_message_def)
  moreover have "added (snd ?run) = added ?s"
    unfolding makeHandler_def job sum.case prod.case
    by (simp add: dedup_run_def dispatch_defs Let_def settle_outcome_def onDeadLetter_def readIsFinalAttempt_def
        example_job_def DEDUP_LIMIT_def)
  moreover have "dp_post ?D b q \<noteq> Inr Vqs_completed" for b q by (simp add: example_deps_def)
  ultimately have "dead_letters (snd ?run) \<noteq> []" by (auto simp: accounted_def)
  with lost show ?thesis by (simp add: example_host_def)
qed

theorem fairness_counts_witness:
  "in_flight (lane_acquire ''t'' [(''t'', 1)]) = {#''t'', ''t''#} \<and>
   tenantFlag ''t'' \<in> set (forbiddenFlags 1 ((example_host [])\<lparr>delivery_lane := [(''t'', 1)]\<rparr>))"
proof -
  let ?s = "(example_host [])\<lparr>delivery_lane := [(''t'', 1)]\<rparr>"
  have ok: "lane_ok (delivery_lane ?s)" "lane_ok (wake_lane ?s)" by (simp_all add: lane_ok_def example_host_def)
  show ?thesis
    using fairness_counts [OF ok, of 1 "''t''"] by (simp add: in_flight_def)
qed

text \<open>Five failures in a row over a minute give the run up; the fourth does not.\<close>

definition failing_deps :: "timestamp \<Rightarrow> deps" where
  "failing_deps t = (example_deps (Vqs_error 503 ''x'' True))\<lparr>dp_now := t\<rparr>"

definition failing_host :: "(string \<times> streak) list \<Rightarrow> dispatcher" where
  "failing_host sks = (example_host [example_run Run_running])\<lparr>streaks := sks\<rparr>"

definition fails_at :: "timestamp \<Rightarrow> dispatch_outcome dio" where
  "fails_at t = dispatchMessage (failing_deps t) FLOW_JOB_NAME ''q'' example_run_message \<lparr>d_attempt = 5, d_deliveryCount = 5\<rparr>"

lemma failing_facts:
  "dp_tracker (failing_deps t) = Some default_tracker" "dp_now (failing_deps t) = t"
  "run_of example_run_message = Some ''wrun_1''" "streak_key example_run_message ''wrun_1'' = ''t:wrun_1''"
  by (simp_all add: failing_deps_def example_deps_def run_of_def readRunId_def bodyRunId_def streak_key_def
      example_run_message_def example_message_def)

lemma fails_at_posts: "executor_answer (failing_deps t) (failing_host sks) (snd (run (fails_at t) (failing_host sks))) =
    Some (Vqs_error 503 ''x'' True)"
  by (simp add: fails_at_def failing_host_def failing_deps_def executor_answer_def dispatch_defs Let_def split: prod.split)

lemma one_streak:
  "tracker_record default_tracker t k [] = ((1, 0, False), [(k, \<lparr>sk_count = 1, sk_firstAt = t\<rparr>)])"
  "tracker_record default_tracker t k [(k, x)] = ((sk_count x + 1, max 0 (t - sk_firstAt x),
     5 \<le> sk_count x + 1 \<and> 60000 \<le> max 0 (t - sk_firstAt x)), [(k, \<lparr>sk_count = sk_count x + 1, sk_firstAt = sk_firstAt x\<rparr>)])"
  by (simp_all add: tracker_record_def Let_def map_delete_def map_set_def default_tracker_def)

lemma history_fails:
  assumes "dispatch_history default_tracker evs (failing_host sks)"
    and rec: "tracker_record default_tracker t ''t:wrun_1'' sks = ((n, spanMs, False), sks')"
  shows "dispatch_history default_tracker (evs @ [Executor_failed ''t:wrun_1'' t]) (failing_host sks')"
proof -
  let ?run = "run (fails_at t) (failing_host sks)"
  have run: "?run = (fst ?run, snd ?run)" by simp
  have no: "\<not> gave_up (fst ?run)"
    using dispatch_streaks(2) [OF run [unfolded fails_at_def] failing_facts(1)] rec
    by (simp add: failing_facts failing_host_def fails_at_def)
  have ev: "dispatch_events (failing_deps t) example_run_message (failing_host sks) (fst ?run) (snd ?run) = [Executor_failed ''t:wrun_1'' t]"
    by (simp add: dispatch_events_def failing_facts fails_at_posts no)
  have "streaks (snd ?run) = streaks (failing_host sks')"
    using dispatch_streaks(1) [OF run [unfolded fails_at_def] failing_facts(1)] rec ev
    by (simp add: failing_host_def fails_at_def)
  moreover have "dispatch_history default_tracker (evs @ [Executor_failed ''t:wrun_1'' t]) (snd ?run)"
    using dispatched [OF assms(1) failing_facts(1) run [unfolded fails_at_def]] ev by (simp add: fails_at_def)
  ultimately show ?thesis using elsewhere by metis
qed

definition four_failures :: "delivery_event list" where
  "four_failures = map (Executor_failed ''t:wrun_1'') [40000, 50000, 60000, 70000]"

lemma four_failures_history:
  "dispatch_history default_tracker four_failures (failing_host [(''t:wrun_1'', \<lparr>sk_count = 4, sk_firstAt = 40000\<rparr>)])"
proof -
  let ?k = "''t:wrun_1''"
  have again: "dispatch_history default_tracker (evs @ [Executor_failed ?k t]) (failing_host [(?k, \<lparr>sk_count = n + 1, sk_firstAt = u\<rparr>)])"
    if "dispatch_history default_tracker evs (failing_host [(?k, \<lparr>sk_count = n, sk_firstAt = u\<rparr>)])" "n < 4" for evs t n u
    using that(2) by (intro history_fails [OF that(1)]) (simp add: one_streak)
  have "dispatch_history default_tracker [] (failing_host [])" by (rule started) (simp add: failing_host_def)
  from history_fails [OF this one_streak(1)]
  have "dispatch_history default_tracker [Executor_failed ?k 40000] (failing_host [(?k, \<lparr>sk_count = 1, sk_firstAt = 40000\<rparr>)])"
    by simp
  from again [OF again [OF again [OF this, of 50000], of 60000], of 70000] show ?thesis by (simp add: four_failures_def)
qed

theorem run_given_up_only_after_streak_witness:
  "gave_up (fst (run (fails_at 100000) (failing_host [(''t:wrun_1'', \<lparr>sk_count = 4, sk_firstAt = 40000\<rparr>)])))"
proof -
  let ?s = "failing_host [(''t:wrun_1'', \<lparr>sk_count = 4, sk_firstAt = 40000\<rparr>)]"
  let ?run = "run (fails_at 100000) ?s"
  have "?run = (fst ?run, snd ?run)" by simp
  note given = run_given_up_only_after_streak [OF four_failures_history failing_facts(1) this [unfolded fails_at_def], THEN conjunct2]
  have "failing ''t:wrun_1'' (four_failures @ [Executor_failed ''t:wrun_1'' 100000]) = [40000, 50000, 60000, 70000, 100000]"
    by (simp add: failing_def four_failures_def)
  moreover have "ev_key ` set four_failures = {''t:wrun_1''}" by (simp add: four_failures_def)
  ultimately show ?thesis
    using given by (simp add: failing_facts fails_at_posts [unfolded fails_at_def] fails_at_def default_tracker_def)
qed

end
