(* ===== verification/Retention.thy ===== *)
theory Retention
  imports Store Evaluate
begin

text \<open>
  Expiry of ended runs and their streams (\<open>src/retention.ts\<close>). A lineage (the runs that share a
  retention root) expires as a whole: nothing of it goes while one of its runs is unfinished,
  persistent or not yet due, or while one of its hooks holds its token.
\<close>

section \<open>What is due\<close>

definition same_lineage :: "run_row \<Rightarrow> run_row \<Rightarrow> bool" where
  "same_lineage x y \<longleftrightarrow> r_tenantId y = r_tenantId x \<and> r_retentionRootRunId y = r_retentionRootRunId x"

text \<open>\<open>not exists (... lineage ...)\<close>, with the deadline's own condition as \<open>late\<close>.\<close>

definition lineage_over :: "(run_row \<Rightarrow> bool) \<Rightarrow> store \<Rightarrow> run_row \<Rightarrow> bool" where
  "lineage_over past s x \<longleftrightarrow>
     \<not> list_ex (\<lambda>y. same_lineage x y \<and> (\<not> run_ended y \<or> r_retentionClass y = Persistent \<or> \<not> past y)) (runs s)"

text \<open>\<open>not exists (... capabilities join owners ...)\<close>: no hook of the lineage retains its token.\<close>

definition holds_token :: "store \<Rightarrow> hook_row \<Rightarrow> bool" where
  "holds_token s h \<longleftrightarrow> (case h_tokenRetentionUntil h of None \<Rightarrow> False | Some u \<Rightarrow> db_now s < u)"

definition tokens_over :: "store \<Rightarrow> run_row \<Rightarrow> bool" where
  "tokens_over s x \<longleftrightarrow> \<not> list_ex (\<lambda>h. holds_token s h \<and> list_ex (\<lambda>o'. r_tenantId o' = h_tenantId h \<and>
     r_runId o' = h_runId h \<and> same_lineage x o') (runs s)) (hooks s)"

definition reached :: "store \<Rightarrow> timestamp option \<Rightarrow> bool" where
  "reached s d \<longleftrightarrow> (case d of None \<Rightarrow> False | Some t \<Rightarrow> t \<le> db_now s)"

definition aged :: "int \<Rightarrow> store \<Rightarrow> run_row \<Rightarrow> bool" where
  "aged retentionMs s x \<longleftrightarrow> ended_at x < db_now s - retentionMs"

text \<open>A run whose part of the store a sweep may take; \<open>past\<close> is the deadline of the sweep.\<close>

definition due :: "(store \<Rightarrow> run_row \<Rightarrow> bool) \<Rightarrow> store \<Rightarrow> run_row \<Rightarrow> bool" where
  "due past s x \<longleftrightarrow> run_ended x \<and> past s x \<and> lineage_over (past s) s x \<and> tokens_over s x"

definition stream_expired :: "store \<Rightarrow> run_row \<Rightarrow> bool" where
  "stream_expired s x = reached s (expireAfter (deadlines_of s x))"

definition detail_expired :: "store \<Rightarrow> run_row \<Rightarrow> bool" where
  "detail_expired s x = reached s (detailExpireAfter (deadlines_of s x))"

section \<open>Stream chunks\<close>

definition run_of_chunk :: "store \<Rightarrow> chunk_row \<Rightarrow> run_row option" where
  "run_of_chunk s k = find (\<lambda>x. r_tenantId x = k_tenantId k \<and> Some (r_runId x) = k_runId k) (runs s)"

definition chunk_due :: "(store \<Rightarrow> run_row \<Rightarrow> bool) \<Rightarrow> store \<Rightarrow> chunk_row \<Rightarrow> bool" where
  "chunk_due past s k \<longleftrightarrow> \<not> k_eof k \<and> (case run_of_chunk s k of None \<Rightarrow> False | Some x \<Rightarrow> due past s x)"

text \<open>The victims of one batch: ordered by the run's deadline, then by key; \<open>at\<close> is that deadline.\<close>

definition chunk_victims ::
  "(store \<Rightarrow> run_row \<Rightarrow> bool) \<Rightarrow> (store \<Rightarrow> run_row \<Rightarrow> timestamp) \<Rightarrow> nat \<Rightarrow> store \<Rightarrow> chunk_row list" where
  "chunk_victims past at n s = take n
     (sort_key (\<lambda>k. case run_of_chunk s k of None \<Rightarrow> 0 | Some x \<Rightarrow> at s x)
       (sort_key k_tenantId (sort_key k_streamId (sort_key k_chunkId (filter (chunk_due past s) (streams s))))))"

definition delete_chunk_batch ::
  "(store \<Rightarrow> run_row \<Rightarrow> bool) \<Rightarrow> (store \<Rightarrow> run_row \<Rightarrow> timestamp) \<Rightarrow> nat \<Rightarrow> store \<Rightarrow> nat \<times> store" where
  "delete_chunk_batch past at n s =
     (let victims = map chunk_key (chunk_victims past at n s)
      in (length (filter (\<lambda>k. chunk_key k \<in> set victims) (streams s)),
          s\<lparr>streams := delete_where (\<lambda>k. chunk_key k \<in> set victims) (streams s)\<rparr>))"

text \<open>The rehydration checkpoints of due runs.\<close>

definition delete_due_checkpoints :: "(store \<Rightarrow> run_row \<Rightarrow> bool) \<Rightarrow> store \<Rightarrow> store" where
  "delete_due_checkpoints past s = s\<lparr>checkpoints := delete_where
     (\<lambda>p. list_ex (\<lambda>x. r_tenantId x = cp_tenantId p \<and> Some (r_runId x) = cp_runId p \<and> due past s x) (runs s))
     (checkpoints s)\<rparr>"

record retention_result =
  rr_deleted :: nat
  rr_batches :: nat
  rr_hitBatchLimit :: bool
  rr_lockAcquired :: bool

definition emptyRetention :: "bool \<Rightarrow> retention_result" where
  "emptyRetention locked = \<lparr>rr_deleted = 0, rr_batches = 0, rr_hitBatchLimit = False, rr_lockAcquired = locked\<rparr>"

text \<open>
  The loop \<open>for (batches = 1; batches <= maxBatches; ...)\<close>: \<open>n\<close> batches are left. A batch answers
  with the rows it deleted and the rows it selected; a batch that selected fewer than its limit is
  the last. \<open>after\<close> runs once at the end.
\<close>

fun batches :: "(nat \<times> nat) sio \<Rightarrow> unit sio \<Rightarrow> nat \<Rightarrow> nat \<Rightarrow> nat \<Rightarrow> nat \<Rightarrow> retention_result sio" where
  "batches batch after limit deleted count 0 = bindP after (\<lambda>_.
     Ret \<lparr>rr_deleted = deleted, rr_batches = count, rr_hitBatchLimit = True, rr_lockAcquired = True\<rparr>)"
| "batches batch after limit deleted count (Suc n) = bindP batch (\<lambda>(gone, selected).
     if selected < limit then bindP after (\<lambda>_.
       Ret \<lparr>rr_deleted = deleted + gone, rr_batches = Suc count, rr_hitBatchLimit = False, rr_lockAcquired = True\<rparr>)
     else batches batch after limit (deleted + gone) (Suc count) n)"

definition locked_batches :: "int \<Rightarrow> (nat \<times> nat) sio \<Rightarrow> unit sio \<Rightarrow> int \<Rightarrow> int \<Rightarrow> retention_result sio" where
  "locked_batches key batch after limit maxBatches =
     bindP (stmt (try_lock key)) (\<lambda>lockAcquired.
       if \<not> lockAcquired then Ret (emptyRetention False)
       else finallyP (batches batch after (nat limit) 0 0 (nat maxBatches)) (exec (unlock key)))"

definition STREAM_RETENTION_LOCK_KEY :: int where "STREAM_RETENTION_LOCK_KEY = 0x65767274"
definition RUN_RETENTION_LOCK_KEY :: int where "RUN_RETENTION_LOCK_KEY = 0x65767272"

definition chunk_batch ::
  "(store \<Rightarrow> run_row \<Rightarrow> bool) \<Rightarrow> (store \<Rightarrow> run_row \<Rightarrow> timestamp) \<Rightarrow> int \<Rightarrow> (nat \<times> nat) sio" where
  "chunk_batch past at limit = bindP (stmt (delete_chunk_batch past at (nat limit))) (\<lambda>n. Ret (n, n))"

definition pruneTerminalStreamChunks :: "int \<Rightarrow> int \<Rightarrow> int \<Rightarrow> retention_result sio" where
  "pruneTerminalStreamChunks retentionMs batchSize maxBatches =
     bindP (throw_if (retentionMs < 0 \<or> 2 ^ 53 - 1 < retentionMs) TypeError) (\<lambda>_.
     bindP (throw_if (\<not> positive_safe batchSize \<or> \<not> positive_safe maxBatches) TypeError) (\<lambda>_.
       locked_batches STREAM_RETENTION_LOCK_KEY (chunk_batch (aged retentionMs) (\<lambda>s. ended_at) batchSize)
         (exec (delete_due_checkpoints (aged retentionMs))) batchSize maxBatches))"

definition pruneExpiredStreamChunks :: "int \<Rightarrow> int \<Rightarrow> retention_result sio" where
  "pruneExpiredStreamChunks batchSize maxBatches =
     bindP (throw_if (\<not> positive_safe batchSize \<or> \<not> positive_safe maxBatches) TypeError) (\<lambda>_.
       locked_batches STREAM_RETENTION_LOCK_KEY
         (chunk_batch stream_expired (\<lambda>s x. the (expireAfter (deadlines_of s x))) batchSize)
         (exec (delete_due_checkpoints stream_expired)) batchSize maxBatches)"

section \<open>Whole runs\<close>

definition run_victims :: "nat \<Rightarrow> store \<Rightarrow> (tenant_id \<times> run_id) list" where
  "run_victims n s = map run_key (take n (sort_key (\<lambda>x. the (detailExpireAfter (deadlines_of s x)))
     (sort_key r_tenantId (sort_key r_runId (filter (due detail_expired s) (runs s))))))"

definition of_victim :: "(tenant_id \<times> run_id) list \<Rightarrow> tenant_id \<Rightarrow> run_id option \<Rightarrow> bool" where
  "of_victim victims t r = (case r of None \<Rightarrow> False | Some x \<Rightarrow> (t, x) \<in> set victims)"

definition delete_graph :: "(tenant_id \<times> run_id) list \<Rightarrow> store \<Rightarrow> store" where
  "delete_graph victims s = s\<lparr>
     checkpoints := delete_where (\<lambda>p. of_victim victims (cp_tenantId p) (cp_runId p)) (checkpoints s),
     streams := delete_where (\<lambda>k. of_victim victims (k_tenantId k) (k_runId k) \<and> \<not> k_eof k) (streams s),
     events := delete_where (\<lambda>e. (e_tenantId e, e_runId e) \<in> set victims) (events s),
     eventSlots := delete_where (\<lambda>e. (sl_tenantId e, sl_runId e) \<in> set victims) (eventSlots s),
     steps := delete_where (\<lambda>e. (s_tenantId e, s_runId e) \<in> set victims) (steps s),
     hooks := delete_where (\<lambda>h. (h_tenantId h, h_runId h) \<in> set victims) (hooks s),
     waits := delete_where (\<lambda>w. (w_tenantId w, w_runId w) \<in> set victims) (waits s)\<rparr>"

definition delete_runs :: "(tenant_id \<times> run_id) list \<Rightarrow> store \<Rightarrow> nat \<times> store" where
  "delete_runs victims s =
     (length (filter (\<lambda>x. run_key x \<in> set victims) (runs s)),
      s\<lparr>runs := delete_where (\<lambda>x. run_key x \<in> set victims) (runs s),
        deadline_columns := filter (\<lambda>(key, d). key \<notin> set victims) (deadline_columns s)\<rparr>)"

definition delete_orphan_hooks :: "store \<Rightarrow> store" where
  "delete_orphan_hooks s = s\<lparr>hooks := delete_where (\<lambda>h.
     (case h_tokenRetentionUntil h of None \<Rightarrow> False | Some u \<Rightarrow> u \<le> db_now s) \<and>
     \<not> list_ex (\<lambda>x. run_key x = (h_tenantId h, h_runId h)) (runs s)) (hooks s)\<rparr>"

definition delete_orphan_checkpoints :: "store \<Rightarrow> store" where
  "delete_orphan_checkpoints s = s\<lparr>checkpoints := delete_where (\<lambda>p.
     \<not> list_ex (\<lambda>x. r_tenantId x = cp_tenantId p \<and> Some (r_runId x) = cp_runId p) (runs s)) (checkpoints s)\<rparr>"

definition run_batch :: "int \<Rightarrow> (nat \<times> nat) sio" where
  "run_batch limit = txn (
     bindP (query (run_victims (nat limit))) (\<lambda>victims.
     bindP (if victims \<noteq> [] then bindP (exec (delete_graph victims)) (\<lambda>_. stmt (delete_runs victims)) else Ret 0) (\<lambda>gone.
     bindP (exec delete_orphan_hooks) (\<lambda>_.
     bindP (exec delete_orphan_checkpoints) (\<lambda>_.
       Ret (gone, length victims))))))"

definition pruneExpiredWorkflowRuns :: "int \<Rightarrow> int \<Rightarrow> retention_result sio" where
  "pruneExpiredWorkflowRuns batchSize maxBatches =
     bindP (throw_if (\<not> positive_safe batchSize \<or> \<not> positive_safe maxBatches) TypeError) (\<lambda>_.
       locked_batches RUN_RETENTION_LOCK_KEY (run_batch batchSize) (Ret ()) batchSize maxBatches)"

section \<open>Reclassifying a run\<close>

definition this_key :: "tenant_id \<Rightarrow> run_id \<Rightarrow> run_row \<Rightarrow> bool" where
  "this_key t r x \<longleftrightarrow> run_key x = (t, r)"

definition setWorkflowRunRetentionClass :: "tenant_id \<Rightarrow> run_id \<Rightarrow> string \<Rightarrow> (bool \<times> retention_class) sio" where
  "setWorkflowRunRetentionClass t r cls =
     bindP (case assertValidTenantId t of Inl e \<Rightarrow> Throw e | Inr _ \<Rightarrow> Ret ()) (\<lambda>_.
     case resolveRunRetentionClass (Some cls) None of
       Inl e \<Rightarrow> Throw e
     | Inr k \<Rightarrow> bindP (stmt (\<lambda>s. (length (filter (this_key t r) (runs s)) = 1,
           s\<lparr>runs := update_where (this_key t r) (\<lambda>x. x\<lparr>r_retentionClass := k\<rparr>) (runs s),
             deadline_columns := map (\<lambda>x. (run_key x, set_run_retention_deadlines (x\<lparr>r_retentionClass := k\<rparr>)))
               (filter (this_key t r) (runs s)) @ deadline_columns s\<rparr>))) (\<lambda>updated. Ret (updated, k)))"

section \<open>What a sweep of whole runs takes\<close>

text \<open>
  A later state of a sweep that took the runs in \<open>gone\<close>: all of them were due, and every row that
  names one is gone with it, except EOF rows; every other row is there, but for hooks of runs that
  no longer exist.
\<close>

definition swept_by :: "(tenant_id \<times> run_id) set \<Rightarrow> store \<Rightarrow> store \<Rightarrow> bool" where
  "swept_by gone s s' \<longleftrightarrow> (\<forall>x \<in> set (runs s). run_key x \<in> gone \<longrightarrow> due detail_expired s x) \<and>
     db_now s' = db_now s \<and> runs s' = filter (\<lambda>x. run_key x \<notin> gone) (runs s) \<and>
     (\<forall>x \<in> set (runs s'). deadlines_of s' x = deadlines_of s x) \<and>
     events s' = filter (\<lambda>e. (e_tenantId e, e_runId e) \<notin> gone) (events s) \<and>
     eventSlots s' = filter (\<lambda>e. (sl_tenantId e, sl_runId e) \<notin> gone) (eventSlots s) \<and>
     steps s' = filter (\<lambda>e. (s_tenantId e, s_runId e) \<notin> gone) (steps s) \<and>
     waits s' = filter (\<lambda>e. (w_tenantId e, w_runId e) \<notin> gone) (waits s) \<and>
     streams s' = filter (\<lambda>k. k_eof k \<or> (case k_runId k of None \<Rightarrow> True | Some r \<Rightarrow> (k_tenantId k, r) \<notin> gone)) (streams s) \<and>
     (\<forall>h \<in> set (hooks s). (h_tenantId h, h_runId h) \<in> run_key ` set (runs s') \<longrightarrow> h \<in> set (hooks s'))"

lemma swept_byD:
  assumes "swept_by gone s s'"
  shows "x \<in> set (runs s) \<Longrightarrow> run_key x \<in> gone \<Longrightarrow> due detail_expired s x" "db_now s' = db_now s"
    "runs s' = filter (\<lambda>x. run_key x \<notin> gone) (runs s)" "x \<in> set (runs s') \<Longrightarrow> deadlines_of s' x = deadlines_of s x"
    "h \<in> set (hooks s) \<Longrightarrow> (h_tenantId h, h_runId h) \<in> run_key ` set (runs s') \<Longrightarrow> h \<in> set (hooks s')"
  using assms unfolding swept_by_def by blast+

text \<open>What is due later in the sweep was due before it.\<close>

lemma due_later:
  assumes sweep: "swept_by gone s s'" and "x \<in> set (runs s')" and "due detail_expired s' x"
  shows "due detail_expired s x"
proof -
  note D = swept_byD [OF sweep]
  have past: "detail_expired s' y = detail_expired s y" if "y \<in> set (runs s')" for y
    using D(4) [OF that] D(2) by (simp add: detail_expired_def reached_def cong: option.case_cong)
  have kept: "y \<in> set (runs s')" if "y \<in> set (runs s)" "\<not> due detail_expired s y" for y
    using D(1) that unfolding D(3) by auto
  have x: "run_ended x" "detail_expired s x" "lineage_over (detail_expired s') s' x" "tokens_over s' x"
    using assms(2,3) past by (auto simp: due_def)
  have "lineage_over (detail_expired s) s x"
  proof (rule ccontr)
    assume "\<not> lineage_over (detail_expired s) s x"
    then obtain y where y: "y \<in> set (runs s)" "same_lineage x y"
      "\<not> run_ended y \<or> r_retentionClass y = Persistent \<or> \<not> detail_expired s y"
      by (auto simp: lineage_over_def list_ex_iff)
    then have "\<not> due detail_expired s y"
      by (auto simp: due_def lineage_over_def list_ex_iff same_lineage_def)
    with kept y(1) have "y \<in> set (runs s')" by blast
    with y past x(3) show False by (auto simp: lineage_over_def list_ex_iff)
  qed
  moreover have "tokens_over s x"
  proof (rule ccontr)
    assume "\<not> tokens_over s x"
    then obtain h y where h: "h \<in> set (hooks s)" "holds_token s h" "y \<in> set (runs s)"
      "r_tenantId y = h_tenantId h" "r_runId y = h_runId h" "same_lineage x y"
      by (auto simp: tokens_over_def list_ex_iff)
    moreover have "same_lineage y y" by (simp add: same_lineage_def)
    ultimately have "\<not> tokens_over s y" by (auto simp: tokens_over_def list_ex_iff)
    then have "\<not> due detail_expired s y" by (simp add: due_def)
    with kept h(3) have y: "y \<in> set (runs s')" by blast
    then have "h \<in> set (hooks s')" using D(5) [OF h(1)] h(4,5) by (force simp: run_key_def)
    moreover have "holds_token s' h" using h(2) D(2) by (simp add: holds_token_def cong: option.case_cong)
    ultimately show False using x(4) y h(4-6) by (auto simp: tokens_over_def list_ex_iff)
  qed
  ultimately show ?thesis using x(1,2) by (simp add: due_def)
qed

lemma swept_by_refl: "swept_by {} s s"
  by (simp add: swept_by_def split: option.split)

lemma swept_by_trans:
  assumes "swept_by g a b" and "swept_by h b c"
  shows "swept_by (g \<union> h) a c"
proof -
  note A = swept_byD [OF assms(1)] and B = swept_byD [OF assms(2)]
  have "due detail_expired a x" if "x \<in> set (runs a)" "run_key x \<in> g \<union> h" for x
  proof (cases "run_key x \<in> g")
    case False
    with that have "x \<in> set (runs b)" "run_key x \<in> h" by (auto simp: A(3))
    then show ?thesis using B(1) due_later [OF assms(1)] by blast
  qed (use A(1) that in blast)
  moreover have sub: "set (runs c) \<subseteq> set (runs b)" by (auto simp: B(3))
  moreover have "k \<in> set (hooks c)"
    if "k \<in> set (hooks a)" "(h_tenantId k, h_runId k) \<in> run_key ` set (runs c)" for k
    using A(5) [OF that(1)] B(5) that(2) sub by blast
  moreover have "deadlines_of c x = deadlines_of a x" if "x \<in> set (runs c)" for x
    using A(4) B(4) that sub by force
  ultimately show ?thesis
    using assms A(2) B(2) unfolding swept_by_def
    by (simp add: filter_filter conj_commute) (auto intro!: filter_cong split: option.splits)
qed

lemma map_of_other_keys: "key \<notin> K \<Longrightarrow> map_of (filter (\<lambda>(k, v). k \<notin> K) xs) key = map_of xs key"
  by (induction xs) auto

lemma victims_due: "key \<in> set (run_victims n s) \<Longrightarrow> x \<in> set (runs s) \<Longrightarrow> run_key x = key \<Longrightarrow>
    distinct (map run_key (runs s)) \<Longrightarrow> due detail_expired s x"
proof -
  assume "key \<in> set (run_victims n s)" "x \<in> set (runs s)" "run_key x = key" "distinct (map run_key (runs s))"
  then obtain y where "y \<in> set (runs s)" "due detail_expired s y" "run_key y = run_key x"
    by (auto simp: run_victims_def dest!: in_set_takeD)
  with \<open>x \<in> set (runs s)\<close> \<open>distinct (map run_key (runs s))\<close> show ?thesis
    by (metis distinct_map_unique)
qed

definition deleted_state :: "nat \<Rightarrow> store \<Rightarrow> store" where
  "deleted_state n s = delete_orphan_checkpoints (delete_orphan_hooks
     (let victims = run_victims n s in if victims = [] then s else snd (delete_runs victims (delete_graph victims s))))"

lemma run_run_batch:
  "run (run_batch limit) s = (Inr (if run_victims (nat limit) s = [] then 0
     else fst (delete_runs (run_victims (nat limit) s) (delete_graph (run_victims (nat limit) s) s)),
     length (run_victims (nat limit) s)), deleted_state (nat limit) s)"
  by (simp add: run_batch_def run_simps deleted_state_def Let_def)

lemma batch_swept:
  assumes "distinct (map run_key (runs s))"
  shows "swept_by (set (run_victims n s)) s (deleted_state n s)"
proof -
  let ?V = "run_victims n s"
  define s1 where "s1 = (if ?V = [] then s else snd (delete_runs ?V (delete_graph ?V s)))"
  have s1: "runs s1 = filter (\<lambda>x. run_key x \<notin> set ?V) (runs s)" "db_now s1 = db_now s"
    "deadline_columns s1 = filter (\<lambda>(k, d). k \<notin> set ?V) (deadline_columns s)"
    "hooks s1 = filter (\<lambda>h. (h_tenantId h, h_runId h) \<notin> set ?V) (hooks s)"
    "events s1 = filter (\<lambda>e. (e_tenantId e, e_runId e) \<notin> set ?V) (events s)"
    "eventSlots s1 = filter (\<lambda>e. (sl_tenantId e, sl_runId e) \<notin> set ?V) (eventSlots s)"
    "steps s1 = filter (\<lambda>e. (s_tenantId e, s_runId e) \<notin> set ?V) (steps s)"
    "waits s1 = filter (\<lambda>e. (w_tenantId e, w_runId e) \<notin> set ?V) (waits s)"
    "streams s1 = filter (\<lambda>k. k_eof k \<or> (case k_runId k of None \<Rightarrow> True | Some r \<Rightarrow> (k_tenantId k, r) \<notin> set ?V)) (streams s)"
    by (auto simp: s1_def delete_runs_def delete_graph_def delete_where_def of_victim_def case_prod_beta
        intro!: filter_cong split: option.splits)
  have final: "deleted_state n s = delete_orphan_checkpoints (delete_orphan_hooks s1)"
    by (simp add: deleted_state_def s1_def Let_def)
  have "h \<in> set (hooks (deleted_state n s))"
    if "h \<in> set (hooks s)" "(h_tenantId h, h_runId h) \<in> run_key ` set (runs s1)" for h
    using that by (force simp: final delete_orphan_checkpoints_def delete_orphan_hooks_def delete_where_def s1(1,4) list_ex_iff)
  moreover have "deadlines_of (deleted_state n s) x = deadlines_of s x" if "x \<in> set (runs s1)" for x
    using that by (simp add: deadlines_of_def final delete_orphan_checkpoints_def delete_orphan_hooks_def s1(1,3)
        map_of_other_keys run_key_def)
  moreover have "due detail_expired s x" if "x \<in> set (runs s)" "run_key x \<in> set ?V" for x
    using victims_due that assms by blast
  ultimately show ?thesis
    unfolding swept_by_def
    by (simp add: final delete_orphan_checkpoints_def delete_orphan_hooks_def s1)
qed

text \<open>One batch in numbers: what it counts, its bound, and that a short batch leaves nothing due.\<close>

lemma batch_counts:
  assumes "distinct (map run_key (runs s))"
  shows "run (run_batch limit) s = (Inr (length (runs s) - length (runs (deleted_state (nat limit) s)),
      length (run_victims (nat limit) s)), deleted_state (nat limit) s)"
    and "length (runs s) - length (runs (deleted_state (nat limit) s)) \<le> nat limit"
    and "length (run_victims (nat limit) s) < nat limit \<Longrightarrow> x \<in> set (runs (deleted_state (nat limit) s)) \<Longrightarrow>
      \<not> due detail_expired (deleted_state (nat limit) s) x"
proof -
  let ?V = "run_victims (nat limit) s" and ?s = "deleted_state (nat limit) s"
  let ?gone = "filter (\<lambda>x. run_key x \<in> set ?V) (runs s)"
  note sweep = batch_swept [OF assms, of "nat limit"]
  have "length (runs s) = length ?gone + length (runs ?s)"
    unfolding swept_byD(3) [OF sweep] by (simp add: sum_length_filter_compl)
  then have gone: "length (runs s) - length (runs ?s) = length ?gone" by simp
  show "run (run_batch limit) s = (Inr (length (runs s) - length (runs ?s), length ?V), ?s)"
    unfolding gone run_run_batch by (auto simp: delete_runs_def delete_graph_def)
  have "length ?gone = card (run_key ` set ?gone)"
    using assms by (metis distinct_card distinct_map_filter length_map set_map)
  also have "\<dots> \<le> card (set ?V)" by (rule card_mono) auto
  also have "\<dots> \<le> length ?V" by (rule card_length)
  also have "\<dots> \<le> nat limit" by (simp add: run_victims_def)
  finally show "length (runs s) - length (runs ?s) \<le> nat limit" by (simp only: gone)
  assume short: "length ?V < nat limit" and x: "x \<in> set (runs ?s)"
  have "set ?V = run_key ` set (filter (due detail_expired s) (runs s))"
    using short by (simp add: run_victims_def min_def split: if_splits)
  moreover have "x \<in> set (runs s)" "run_key x \<notin> set ?V" using x unfolding swept_byD(3) [OF sweep] by auto
  ultimately have "\<not> due detail_expired s x" by auto
  with due_later [OF sweep x] show "\<not> due detail_expired ?s x" by blast
qed

lemma run_batches:
  assumes "distinct (map run_key (runs s))"
  shows "\<exists>res s' gone. run (batches (run_batch limit) (Ret ()) (nat limit) deleted count n) s = (Inr res, s') \<and>
    swept_by gone s s' \<and> rr_deleted res = deleted + (length (runs s) - length (runs s')) \<and>
    rr_deleted res \<le> deleted + nat limit * n \<and> rr_lockAcquired res \<and> locks s' = locks s \<and>
    (\<not> rr_hitBatchLimit res \<longrightarrow> (\<forall>x \<in> set (runs s'). \<not> due detail_expired s' x))"
  using assms
proof (induction n arbitrary: s deleted count)
  case 0
  then show ?case using swept_by_refl [of s] by (auto simp: run_simps intro!: exI [of _ "{}"])
next
  case (Suc n)
  let ?s = "deleted_state (nat limit) s" and ?V = "run_victims (nat limit) s"
  let ?d = "length (runs s) - length (runs ?s)"
  note one = batch_counts [OF Suc.prems, of limit] and sweep = batch_swept [OF Suc.prems, of "nat limit"]
  have locks: "locks ?s = locks s"
    by (simp add: deleted_state_def delete_orphan_checkpoints_def delete_orphan_hooks_def delete_runs_def delete_graph_def Let_def)
  have fewer: "length (runs ?s) \<le> length (runs s)" unfolding swept_byD(3) [OF sweep] by simp
  show ?case
  proof (cases "length ?V < nat limit")
    case True
    with one sweep locks show ?thesis by (auto simp: run_simps intro!: exI [of _ "set ?V"])
  next
    case False
    have "distinct (map run_key (runs ?s))"
      unfolding swept_byD(3) [OF sweep] using Suc.prems by (rule distinct_map_filter)
    from Suc.IH [OF this, of "deleted + ?d" "Suc count"] obtain res s' gone where
      rest: "run (batches (run_batch limit) (Ret ()) (nat limit) (deleted + ?d) (Suc count) n) ?s = (Inr res, s')"
      "swept_by gone ?s s'" "rr_deleted res = deleted + ?d + (length (runs ?s) - length (runs s'))"
      "rr_deleted res \<le> deleted + ?d + nat limit * n" "rr_lockAcquired res" "locks s' = locks ?s"
      "\<not> rr_hitBatchLimit res \<longrightarrow> (\<forall>x \<in> set (runs s'). \<not> due detail_expired s' x)" by blast
    have "length (runs s') \<le> length (runs ?s)" unfolding swept_byD(3) [OF rest(2)] by simp
    with rest(3) fewer have "rr_deleted res = deleted + (length (runs s) - length (runs s'))" by linarith
    moreover have "rr_deleted res \<le> deleted + nat limit * Suc n"
      using rest(4) one(2) unfolding mult_Suc_right by linarith
    moreover have "run (batches (run_batch limit) (Ret ()) (nat limit) deleted count (Suc n)) s = (Inr res, s')"
      using one(1) False rest(1) by (simp add: run_simps)
    moreover have "locks s' = locks s" using rest(6) locks by simp
    ultimately show ?thesis using rest(5,7) swept_by_trans [OF sweep rest(2)] by blast
  qed
qed

text \<open>The sweep under its lock: refused while another holds it, and the lock is given back.\<close>

lemma run_pruneRuns:
  assumes "distinct (map run_key (runs s))" and "positive_safe batchSize" and "positive_safe maxBatches"
  shows "\<exists>res s' gone. run (pruneExpiredWorkflowRuns batchSize maxBatches) s = (Inr res, s') \<and> swept_by gone s s' \<and>
    rr_deleted res = length (runs s) - length (runs s') \<and> rr_deleted res \<le> nat batchSize * nat maxBatches \<and>
    locks s' = locks s \<and> (rr_lockAcquired res \<longleftrightarrow> RUN_RETENTION_LOCK_KEY \<notin> set (locks s)) \<and>
    (rr_lockAcquired res \<and> \<not> rr_hitBatchLimit res \<longrightarrow> (\<forall>x \<in> set (runs s'). \<not> due detail_expired s' x))"
proof (cases "RUN_RETENTION_LOCK_KEY \<in> set (locks s)")
  case True
  then show ?thesis
    using assms(2,3) swept_by_refl [of s]
    by (auto simp: pruneExpiredWorkflowRuns_def locked_batches_def run_simps try_lock_def emptyRetention_def intro!: exI [of _ "{}"])
next
  case False
  let ?s = "s\<lparr>locks := RUN_RETENTION_LOCK_KEY # locks s\<rparr>"
  have "distinct (map run_key (runs ?s))" using assms(1) by simp
  from run_batches [OF this, of batchSize 0 0 "nat maxBatches"]
  obtain res s' gone where body: "run (batches (run_batch batchSize) (Ret ()) (nat batchSize) 0 0 (nat maxBatches)) ?s = (Inr res, s')"
    "swept_by gone ?s s'" "rr_deleted res = 0 + (length (runs ?s) - length (runs s'))"
    "rr_deleted res \<le> 0 + nat batchSize * nat maxBatches" "rr_lockAcquired res" "locks s' = locks ?s"
    "\<not> rr_hitBatchLimit res \<longrightarrow> (\<forall>x \<in> set (runs s'). \<not> due detail_expired s' x)"
    by blast
  let ?s' = "unlock RUN_RETENTION_LOCK_KEY s'"
  have same: "due detail_expired (a\<lparr>locks := l\<rparr>) = due detail_expired a" for a l
    by (simp add: fun_eq_iff due_def detail_expired_def [abs_def] reached_def [abs_def] deadlines_of_def lineage_over_def
        tokens_over_def holds_token_def cong: option.case_cong)
  have sweep: "swept_by gone s ?s'"
    using body(2) unfolding swept_by_def same by (simp add: unlock_def deadlines_of_def)
  have "run (pruneExpiredWorkflowRuns batchSize maxBatches) s = (Inr res, ?s')"
    using False assms(2,3) body(1) by (simp add: pruneExpiredWorkflowRuns_def locked_batches_def run_simps try_lock_def)
  moreover have "locks ?s' = locks s" "runs ?s' = runs s'" using body(6) by (simp_all add: unlock_def)
  moreover have "due detail_expired ?s' = due detail_expired s'" by (simp add: unlock_def same)
  ultimately show ?thesis using sweep body False by auto
qed

section \<open>Safety and completeness of the sweep\<close>

text \<open>A run that keeps its lineage: unfinished, persistent, not past its deadline, or with a hook that holds its token.\<close>

definition still_needed :: "store \<Rightarrow> run_row \<Rightarrow> bool" where
  "still_needed s y \<longleftrightarrow> \<not> run_ended y \<or> r_retentionClass y = Persistent \<or> \<not> detail_expired s y \<or>
     list_ex (\<lambda>h. holds_token s h \<and> (h_tenantId h, h_runId h) = run_key y) (hooks s)"

lemma needed_not_swept:
  assumes "swept_by gone s s'" and "x \<in> set (runs s)" and "y \<in> set (runs s)"
    and "r_tenantId y = r_tenantId x" and "r_retentionRootRunId y = r_retentionRootRunId x" and "still_needed s y"
  shows "run_key x \<notin> gone" and "x \<in> set (runs s')"
proof -
  have "\<not> due detail_expired s x"
    using assms(3-6)
    by (force simp: due_def still_needed_def lineage_over_def tokens_over_def list_ex_iff same_lineage_def run_key_def)
  then show key: "run_key x \<notin> gone" using swept_byD(1) [OF assms(1,2)] by blast
  then show "x \<in> set (runs s')" using assms(2) swept_byD(3) [OF assms(1)] by simp
qed

text \<open>
  C18. A sweep of expired runs takes nothing of a lineage that is still needed. A run that has not
  ended, is persistent, is not past its deadline, or shares its retention root with such a run or
  with a run whose hook still holds its token, keeps its row, its events, steps, waits, slot row,
  hooks and stream chunks, whatever batches the sweep makes; and every EOF row survives the sweep.
\<close>

theorem pruning_keeps_live_lineages:
  assumes "distinct (map run_key (runs s))" and "positive_safe batchSize" and "positive_safe maxBatches"
    and "x \<in> set (runs s)" and "y \<in> set (runs s)"
    and "r_tenantId y = r_tenantId x" and "r_retentionRootRunId y = r_retentionRootRunId x" and "still_needed s y"
  shows "\<exists>res s'. run (pruneExpiredWorkflowRuns batchSize maxBatches) s = (Inr res, s') \<and> x \<in> set (runs s') \<and>
    filter (\<lambda>e. (e_tenantId e, e_runId e) = run_key x) (events s') = filter (\<lambda>e. (e_tenantId e, e_runId e) = run_key x) (events s) \<and>
    filter (\<lambda>e. (s_tenantId e, s_runId e) = run_key x) (steps s') = filter (\<lambda>e. (s_tenantId e, s_runId e) = run_key x) (steps s) \<and>
    filter (\<lambda>e. (w_tenantId e, w_runId e) = run_key x) (waits s') = filter (\<lambda>e. (w_tenantId e, w_runId e) = run_key x) (waits s) \<and>
    filter (\<lambda>e. (sl_tenantId e, sl_runId e) = run_key x) (eventSlots s') =
      filter (\<lambda>e. (sl_tenantId e, sl_runId e) = run_key x) (eventSlots s) \<and>
    (\<forall>h \<in> set (hooks s). (h_tenantId h, h_runId h) = run_key x \<longrightarrow> h \<in> set (hooks s')) \<and>
    filter (\<lambda>k. k_eof k \<or> (k_tenantId k, k_runId k) = (r_tenantId x, Some (r_runId x))) (streams s') =
      filter (\<lambda>k. k_eof k \<or> (k_tenantId k, k_runId k) = (r_tenantId x, Some (r_runId x))) (streams s)"
proof -
  obtain res s' gone where r: "run (pruneExpiredWorkflowRuns batchSize maxBatches) s = (Inr res, s')" "swept_by gone s s'"
    using run_pruneRuns [OF assms(1-3)] by blast
  note x = needed_not_swept [OF r(2) assms(4-8)]
  have "\<forall>h \<in> set (hooks s). (h_tenantId h, h_runId h) = run_key x \<longrightarrow> h \<in> set (hooks s')"
    using swept_byD(5) [OF r(2)] x(2) by force
  with r x show ?thesis
    unfolding swept_by_def
    by (intro exI [of _ res] exI [of _ s'] conjI) (auto intro!: filter_cong simp: run_key_def)
qed

text \<open>
  A sweep deletes at most \<open>batchSize * maxBatches\<close> runs and reports exactly how many it deleted;
  it works only under its advisory lock and gives the lock back; and when it reports that it did
  not reach its batch limit, no expired run is left.
\<close>

theorem pruning_complete:
  assumes "distinct (map run_key (runs s))" and "positive_safe batchSize" and "positive_safe maxBatches"
  shows "\<exists>res s'. run (pruneExpiredWorkflowRuns batchSize maxBatches) s = (Inr res, s') \<and>
    rr_deleted res = length (runs s) - length (runs s') \<and> rr_deleted res \<le> nat batchSize * nat maxBatches \<and>
    locks s' = locks s \<and> (rr_lockAcquired res \<longleftrightarrow> RUN_RETENTION_LOCK_KEY \<notin> set (locks s)) \<and>
    (rr_lockAcquired res \<and> \<not> rr_hitBatchLimit res \<longrightarrow> \<not> list_ex (due detail_expired s') (runs s'))"
  using run_pruneRuns [OF assms] by (auto simp: list_ex_iff)

section \<open>Examples\<close>

text \<open>A completed run past its deadline, whose child is still running.\<close>

definition expired_parent :: run_row where
  "expired_parent = (example_run Run_completed_st)\<lparr>r_runId := ''wrun_0'', r_retentionRootRunId := ''wrun_1''\<rparr>"

definition example_lineage :: "run_row list \<Rightarrow> store" where
  "example_lineage rs = \<lparr>runs = rs, events = [], eventSlots = [], steps = [], hooks = [], waits = [],
     startHookAdmissions = [], db_now = 1000, pendingFence = None, graphile_jobs = [], graphile_readable = True,
     streams = [], checkpoints = [],
     deadline_columns = [((''t'', ''wrun_0''), \<lparr>compactAfter = Some 1, expireAfter = Some 2, detailExpireAfter = Some 3\<rparr>)],
     locks = [], notifications = []\<rparr>"

theorem pruning_keeps_live_lineages_witness:
  "\<exists>res s'. run (pruneExpiredWorkflowRuns 10 10) (example_lineage [expired_parent, example_run Run_running]) = (Inr res, s') \<and>
     expired_parent \<in> set (runs s')"
proof -
  have "still_needed (example_lineage [expired_parent, example_run Run_running]) (example_run Run_running)"
    "r_retentionRootRunId (example_run Run_running) = r_retentionRootRunId expired_parent"
    "r_tenantId (example_run Run_running) = r_tenantId expired_parent"
    by (simp_all add: still_needed_def run_ended_def expired_parent_def example_run_def)
  moreover have "distinct (map run_key (runs (example_lineage [expired_parent, example_run Run_running])))"
    by (simp add: example_lineage_def run_key_def expired_parent_def example_run_def)
  ultimately show ?thesis
    using pruning_keeps_live_lineages [of "example_lineage [expired_parent, example_run Run_running]" 10 10 expired_parent
        "example_run Run_running"]
    by (auto simp: positive_safe_def example_lineage_def)
qed

theorem pruning_complete_witness:
  "\<exists>res s'. run (pruneExpiredWorkflowRuns 10 10) (example_lineage [expired_parent]) = (Inr res, s') \<and>
     rr_deleted res = length [expired_parent] - length (runs s') \<and> rr_lockAcquired res"
  using pruning_complete [of "example_lineage [expired_parent]" 10 10] by (auto simp: positive_safe_def example_lineage_def)

end
