(* ===== verification/Reconciliation.thy ===== *)
theory Reconciliation
  imports Retention Dispatcher_Spec
begin

text \<open>
  Host-driven settlement of runs: \<open>src/reconciliation.ts\<close>. One transaction over the tables of
  \<open>host\<close>; the deadline trigger and the trigger that resolves the dead letters of a run that ends
  (\<open>migrations/0017\<close>) run on the updated rows. \<open>stringify\<close> is \<open>JSON.stringify\<close> on the
  three fields of the error breadcrumb.
\<close>

datatype disposition = Fail | Cancel | Quarantine

record reconcile_options =
  ro_tenantId :: tenant_id
  ro_runIds :: "run_id list option"
  ro_deploymentIds :: "string list option"
  ro_disposition :: disposition
  ro_reason :: string
  ro_errorCode :: "string option"

record reconciled_run =
  rc_runId :: run_id
  rc_workflowName :: string
  rc_deploymentId :: string
  rc_previousStatus :: run_status

definition DEFAULT_ERROR_CODE :: string where "DEFAULT_ERROR_CODE = ''RUN_ORPHANED''"

definition selected :: "reconcile_options \<Rightarrow> run_row \<Rightarrow> bool" where
  "selected ops x \<longleftrightarrow> r_tenantId x = ro_tenantId ops \<and> active x \<and>
     (case ro_runIds ops of None \<Rightarrow> True | Some ids \<Rightarrow> r_runId x \<in> set ids) \<and>
     (case ro_deploymentIds ops of None \<Rightarrow> True | Some ids \<Rightarrow> r_deploymentId x \<in> set ids)"

definition reconciled :: "run_row \<Rightarrow> reconciled_run" where
  "reconciled x = \<lparr>rc_runId = r_runId x, rc_workflowName = r_workflowName x, rc_deploymentId = r_deploymentId x,
     rc_previousStatus = r_status x\<rparr>"

definition settled_row :: "(string \<Rightarrow> string \<Rightarrow> string) \<Rightarrow> reconcile_options \<Rightarrow> timestamp \<Rightarrow> run_row \<Rightarrow> run_row" where
  "settled_row stringify ops t x =
     (let code = (case ro_errorCode ops of Some c \<Rightarrow> c | None \<Rightarrow> DEFAULT_ERROR_CODE) in
      if ro_disposition ops = Fail
      then x\<lparr>r_status := Run_failed_st, r_completedAt := Some t, r_updatedAt := t, r_errorCode := Some code,
             r_errorJson := Some (stringify (ro_reason ops) code)\<rparr>
      else x\<lparr>r_status := Run_cancelled_st, r_completedAt := Some t, r_updatedAt := t\<rparr>)"

text \<open>The trigger's update, for the row that changed its status.\<close>

definition resolve_dead_letters_on_terminal_run :: "run_row \<Rightarrow> 's host_scheme \<Rightarrow> 's host_scheme" where
  "resolve_dead_letters_on_terminal_run x s = s\<lparr>dead_letters := update_where (unresolved (r_tenantId x) (r_runId x))
     (\<lambda>d. d\<lparr>dl_resolvedAt := Some (db_now s)\<rparr>) (dead_letters s)\<rparr>"

text \<open>The \<open>UPDATE ... RETURNING\<close>, with the triggers on every updated row.\<close>

definition update_selected :: "(string \<Rightarrow> string \<Rightarrow> string) \<Rightarrow> reconcile_options \<Rightarrow> 's host_scheme \<Rightarrow>
    reconciled_run list \<times> 's host_scheme" where
  "update_selected stringify ops s =
     (let new = settled_row stringify ops (db_now s) in
      (map reconciled (filter (selected ops) (runs s)),
       fold resolve_dead_letters_on_terminal_run (filter (selected ops) (runs s))
         (s\<lparr>runs := update_where (selected ops) new (runs s),
            deadline_columns := map (\<lambda>x. (run_key x, set_run_retention_deadlines (new x))) (filter (selected ops) (runs s)) @
              deadline_columns s\<rparr>)))"

definition delete_settled_hooks :: "tenant_id \<Rightarrow> run_id list \<Rightarrow> 's host_scheme \<Rightarrow> 's host_scheme" where
  "delete_settled_hooks t ids s = s\<lparr>hooks := delete_where (\<lambda>h. h_tenantId h = t \<and> h_runId h \<in> set ids \<and>
     (case h_tokenRetentionUntil h of None \<Rightarrow> True | Some u \<Rightarrow> u \<le> db_now s)) (hooks s)\<rparr>"

definition delete_settled_waits :: "tenant_id \<Rightarrow> run_id list \<Rightarrow> 's host_scheme \<Rightarrow> 's host_scheme" where
  "delete_settled_waits t ids s = s\<lparr>waits := delete_where (\<lambda>w. w_tenantId w = t \<and> w_runId w \<in> set ids) (waits s)\<rparr>"

definition settleRuns :: "(string \<Rightarrow> string \<Rightarrow> string) \<Rightarrow> reconcile_options \<Rightarrow> ('s host_scheme, error, reconciled_run list) prog" where
  "settleRuns stringify ops =
     bindP (stmt (update_selected stringify ops)) (\<lambda>rows.
     if rows = [] then Ret []
     else let ids = map rc_runId rows in
       bindP (exec (delete_settled_hooks (ro_tenantId ops) ids)) (\<lambda>_.
       bindP (exec (delete_settled_waits (ro_tenantId ops) ids)) (\<lambda>_. Ret rows)))"

definition reconcile_letter :: "reconcile_options \<Rightarrow> run_row \<Rightarrow> dead_letter" where
  "reconcile_letter ops x =
     (let messageId = ''msg_reconcile_'' @ r_runId x;
          message = \<lparr>m_attempt = 1, m_deliveryOffset = None, m_attemptOffset = None, m_messageId = messageId,
            m_idempotencyKey = None, m_headers = None, m_id = r_workflowName x,
            m_data = Some (JObject [(''runId'', JString (r_runId x))]), m_tenantId = ro_tenantId ops,
            m_deploymentId = r_deploymentId x,
            m_queueNamespace = (if r_queueNamespace x = Some [] then None else r_queueNamespace x)\<rparr>
      in \<lparr>dl_tenantId = ro_tenantId ops, dl_deploymentId = r_deploymentId x, dl_runId = Some (r_runId x),
          dl_messageId = messageId, dl_jobName = Some ''host_reconciliation'',
          dl_queueName = Some (runQueueName (ro_tenantId ops) (r_runId x)), dl_attempt = 0,
          dl_reason = Host_reason (ro_reason ops), dl_payload = encode_message message, dl_resolvedAt = None\<rparr>)"

definition quarantineRuns :: "reconcile_options \<Rightarrow> ('s host_scheme, error, reconciled_run list) prog" where
  "quarantineRuns ops =
     bindP (query (\<lambda>s. filter (\<lambda>x. selected ops x \<and> \<not> quarantined (r_tenantId x) (r_runId x) s) (runs s))) (\<lambda>rows.
     mapM (\<lambda>x. bindP (exec (\<lambda>s. s\<lparr>dead_letters := dead_letters s @ [reconcile_letter ops x]\<rparr>)) (\<lambda>_. Ret (reconciled x))) rows)"

definition reconcileWorkflowRuns :: "(string \<Rightarrow> string \<Rightarrow> string) \<Rightarrow> reconcile_options \<Rightarrow>
    ('s host_scheme, error, reconciled_run list) prog" where
  "reconcileWorkflowRuns stringify ops =
     (case assertValidTenantId (ro_tenantId ops) of Inl e \<Rightarrow> Throw e
      | Inr _ \<Rightarrow>
         if ro_runIds ops = None \<and> ro_deploymentIds ops = None then Throw TypeError
         else if ro_reason ops = [] then Throw TypeError
         else if ro_runIds ops = Some [] \<and> ro_deploymentIds ops = None then Ret []
         else if ro_deploymentIds ops = Some [] \<and> ro_runIds ops = None then Ret []
         else txn (if ro_disposition ops = Quarantine then quarantineRuns ops else settleRuns stringify ops))"

section \<open>Properties\<close>

definition accepted :: "reconcile_options \<Rightarrow> bool" where
  "accepted ops \<longleftrightarrow> assertValidTenantId (ro_tenantId ops) = Inr () \<and> ro_reason ops \<noteq> [] \<and>
     (ro_runIds ops \<noteq> None \<or> ro_deploymentIds ops \<noteq> None)"

lemma fold_resolve:
  fixes s :: "'s host_scheme"
  shows "fold resolve_dead_letters_on_terminal_run xs s = s\<lparr>dead_letters :=
     update_where (\<lambda>d. \<exists>x \<in> set xs. unresolved (r_tenantId x) (r_runId x) d)
       (\<lambda>d. d\<lparr>dl_resolvedAt := Some (db_now s)\<rparr>) (dead_letters s)\<rparr>"
proof (induction xs arbitrary: s)
  case (Cons x xs)
  have step: "resolve_dead_letters_on_terminal_run x s = s\<lparr>dead_letters :=
      update_where (unresolved (r_tenantId x) (r_runId x)) (\<lambda>d. d\<lparr>dl_resolvedAt := Some (db_now s)\<rparr>) (dead_letters s)\<rparr>"
    by (simp add: resolve_dead_letters_on_terminal_run_def)
  have "update_where P f (update_where Q f ds) = update_where (\<lambda>d. Q d \<or> P d) f ds"
    if "\<And>d. Q d \<Longrightarrow> \<not> P (f d)" for P Q f and ds :: "dead_letter list"
    using that by (auto simp: update_where_def)
  then show ?case by (simp add: Cons step) (simp add: unresolved_def)
qed (simp add: update_where_def)

lemma empty_selector:
  "ro_runIds ops = Some [] \<or> ro_deploymentIds ops = Some [] \<Longrightarrow> \<not> selected ops x"
  by (auto simp: selected_def)

lemma run_settleRuns:
  fixes s :: "'s host_scheme"
  shows "run (settleRuns stringify ops) s =
    (Inr (map reconciled (filter (selected ops) (runs s))),
     let ids = map r_runId (filter (selected ops) (runs s)) in
     s\<lparr>runs := update_where (selected ops) (settled_row stringify ops (db_now s)) (runs s),
       deadline_columns := map (\<lambda>x. (run_key x, set_run_retention_deadlines (settled_row stringify ops (db_now s) x)))
         (filter (selected ops) (runs s)) @ deadline_columns s,
       dead_letters := update_where (\<lambda>d. \<exists>x \<in> set (runs s). selected ops x \<and> unresolved (r_tenantId x) (r_runId x) d)
         (\<lambda>d. d\<lparr>dl_resolvedAt := Some (db_now s)\<rparr>) (dead_letters s),
       hooks := delete_where (\<lambda>h. h_tenantId h = ro_tenantId ops \<and> h_runId h \<in> set ids \<and>
         (case h_tokenRetentionUntil h of None \<Rightarrow> True | Some u \<Rightarrow> u \<le> db_now s)) (hooks s),
       waits := delete_where (\<lambda>w. w_tenantId w = ro_tenantId ops \<and> w_runId w \<in> set ids) (waits s)\<rparr>)"
proof -
  show ?thesis
  proof (cases "filter (selected ops) (runs s) = []")
    case True
    then have "update_where (\<lambda>d. \<exists>x \<in> set (runs s). selected ops x \<and> unresolved (r_tenantId x) (r_runId x) d) f ds = ds"
      for f and ds :: "dead_letter list" by (simp add: update_where_def filter_empty_conv map_idI)
    with True show ?thesis by (simp add: settleRuns_def run_simps update_selected_def Let_def delete_where_def)
  next
    case False
    then show ?thesis
      by (simp add: settleRuns_def run_simps update_selected_def Let_def fold_resolve delete_settled_hooks_def
          delete_settled_waits_def comp_def reconciled_def Bex_def conj_assoc cong: option.case_cong)
  qed
qed

lemma run_mapM_exec:
  "run (mapM (\<lambda>x. bindP (exec (f x)) (\<lambda>_. Ret (g x))) xs) s = (Inr (map g xs), fold f xs s)"
  by (induction xs arbitrary: s) (simp_all add: run_simps)

lemma run_reconcile:
  assumes "accepted ops"
  shows "run (reconcileWorkflowRuns stringify ops) s =
    run (if ro_disposition ops = Quarantine then quarantineRuns ops else settleRuns stringify ops) s"
proof -
  have none: "filter (selected ops) (runs s) = [] \<Longrightarrow> run (settleRuns stringify ops) s = (Inr [], s)"
    by (simp add: settleRuns_def run_simps update_selected_def Let_def update_where_def filter_empty_conv map_idI)
  have none': "filter (selected ops) (runs s) = [] \<Longrightarrow> run (quarantineRuns ops) s = (Inr [], s)"
    by (simp add: quarantineRuns_def run_simps filter_empty_conv)
  show ?thesis
  proof (cases "ro_runIds ops = Some [] \<and> ro_deploymentIds ops = None \<or> ro_deploymentIds ops = Some [] \<and> ro_runIds ops = None")
    case True
    then have "filter (selected ops) (runs s) = []" using empty_selector by (auto simp: filter_empty_conv)
    with none none' True assms show ?thesis by (auto simp: reconcileWorkflowRuns_def accepted_def)
  next
    case False
    then have eq: "reconcileWorkflowRuns stringify ops =
        txn (if ro_disposition ops = Quarantine then quarantineRuns ops else settleRuns stringify ops)"
      using assms by (auto simp: reconcileWorkflowRuns_def accepted_def)
    obtain v s' where "run (if ro_disposition ops = Quarantine then quarantineRuns ops else settleRuns stringify ops) s = (Inr v, s')"
      by (cases "ro_disposition ops = Quarantine") (auto simp: run_settleRuns quarantineRuns_def run_simps run_mapM_exec)
    then show ?thesis unfolding eq run_txn by simp
  qed
qed

lemma settled_fields [simp]:
  "r_runId (settled_row f ops t x) = r_runId x" "r_tenantId (settled_row f ops t x) = r_tenantId x"
  "r_completedAt (settled_row f ops t x) = Some t" "run_ended (settled_row f ops t x)"
  "run_key (settled_row f ops t x) = run_key x" "\<not> selected ops' (settled_row f ops t x)"
  by (simp_all add: settled_row_def Let_def run_ended_def run_key_def selected_def active_def)

lemma reconcile_settles_facts:
  fixes s s' :: dispatcher
  assumes "accepted ops" and "ro_disposition ops \<noteq> Quarantine" and keys: "distinct (map run_key (runs s))"
    and run: "run (reconcileWorkflowRuns stringify ops) s = (x, s')"
  shows "x = Inr (map reconciled (filter (selected ops) (runs s)))"
    "list_all2 (\<lambda>a b. if selected ops a
       then run_key b = run_key a \<and> run_ended b \<and> r_completedAt b = Some (db_now s) \<and>
         deadlines_of (store.truncate s') b = set_run_retention_deadlines b
       else b = a) (runs s) (runs s')"
    "hooks s' = filter (\<lambda>h. \<not> ((\<exists>a \<in> set (runs s). selected ops a \<and> run_key a = (h_tenantId h, h_runId h)) \<and>
       (case h_tokenRetentionUntil h of None \<Rightarrow> True | Some u \<Rightarrow> u \<le> db_now s))) (hooks s)"
    "waits s' = filter (\<lambda>w. \<not> (\<exists>a \<in> set (runs s). selected ops a \<and> run_key a = (w_tenantId w, w_runId w))) (waits s)"
    "events s' = events s \<and> eventSlots s' = eventSlots s \<and> steps s' = steps s"
    "list_all2 (\<lambda>d e. e = (if \<exists>a \<in> set (runs s). selected ops a \<and> unresolved (r_tenantId a) (r_runId a) d
       then d\<lparr>dl_resolvedAt := Some (db_now s)\<rparr> else d)) (dead_letters s) (dead_letters s')"
    "a \<in> set (runs s) \<Longrightarrow> selected ops a \<Longrightarrow> \<not> quarantined (r_tenantId a) (r_runId a) s'"
    "fst (run (reconcileWorkflowRuns stringify ops) s') = Inr []"
    "dp_lookup D = createRunLookup \<Longrightarrow> a \<in> set (runs s) \<Longrightarrow> selected ops a \<Longrightarrow>
       m_tenantId m = r_tenantId a \<Longrightarrow> readRunId m = Some (r_runId a) \<Longrightarrow> r_runId a \<noteq> [] \<Longrightarrow>
       run (dispatchMessage D jobName queueName m d) s' = (Inr Dispatch_completed, s')"
proof -
  let ?new = "settled_row stringify ops (db_now s)"
  let ?sel = "filter (selected ops) (runs s)"
  have eq: "run (reconcileWorkflowRuns stringify ops) s = run (settleRuns stringify ops) s"
    using run_reconcile [OF assms(1)] assms(2) by simp
  have s': "s' = snd (run (settleRuns stringify ops) s)" and x: "x = fst (run (settleRuns stringify ops) s)"
    using run eq by simp_all
  show "x = Inr (map reconciled ?sel)" by (simp add: x run_settleRuns)
  have runs': "runs s' = update_where (selected ops) ?new (runs s)"
    by (simp add: s' run_settleRuns update_selected_def Let_def)
  have cols: "deadline_columns s' = map (\<lambda>x. (run_key x, set_run_retention_deadlines (?new x))) ?sel @ deadline_columns s"
    by (simp add: s' run_settleRuns update_selected_def Let_def)
  have deadlines: "deadlines_of (store.truncate s') (?new a) = set_run_retention_deadlines (?new a)"
    if a: "a \<in> set (runs s)" "selected ops a" for a
  proof -
    have "distinct (map run_key ?sel)" using keys by (simp add: distinct_map_filter)
    then have "map_of (map (\<lambda>x. (run_key x, set_run_retention_deadlines (?new x))) ?sel) (run_key a) =
        Some (set_run_retention_deadlines (?new a))"
      using a by (intro map_of_is_SomeI) (auto simp: comp_def)
    then show ?thesis by (simp add: deadlines_of_def store.defs cols map_add_def run_key_def)
  qed
  show "list_all2 (\<lambda>a b. if selected ops a
       then run_key b = run_key a \<and> run_ended b \<and> r_completedAt b = Some (db_now s) \<and>
         deadlines_of (store.truncate s') b = set_run_retention_deadlines b
       else b = a) (runs s) (runs s')"
    unfolding runs' update_where_def using deadlines by (auto simp: list_all2_conv_all_nth)
  have sel: "t = ro_tenantId ops \<and> r \<in> set (map r_runId ?sel) \<longleftrightarrow>
      (\<exists>a \<in> set (runs s). selected ops a \<and> run_key a = (t, r))" for t r
    by (auto simp: run_key_def selected_def)
  have "hooks s' = delete_where (\<lambda>h. h_tenantId h = ro_tenantId ops \<and> h_runId h \<in> set (map r_runId ?sel) \<and>
       (case h_tokenRetentionUntil h of None \<Rightarrow> True | Some u \<Rightarrow> u \<le> db_now s)) (hooks s)"
    by (simp add: s' run_settleRuns Let_def)
  then show "hooks s' = filter (\<lambda>h. \<not> ((\<exists>a \<in> set (runs s). selected ops a \<and> run_key a = (h_tenantId h, h_runId h)) \<and>
       (case h_tokenRetentionUntil h of None \<Rightarrow> True | Some u \<Rightarrow> u \<le> db_now s))) (hooks s)"
    unfolding delete_where_def sel [symmetric] by (simp add: conj_assoc)
  have "waits s' = delete_where (\<lambda>w. w_tenantId w = ro_tenantId ops \<and> w_runId w \<in> set (map r_runId ?sel)) (waits s)"
    by (simp add: s' run_settleRuns Let_def)
  then show "waits s' = filter (\<lambda>w. \<not> (\<exists>a \<in> set (runs s). selected ops a \<and> run_key a = (w_tenantId w, w_runId w))) (waits s)"
    unfolding delete_where_def sel .
  show "events s' = events s \<and> eventSlots s' = eventSlots s \<and> steps s' = steps s"
    by (simp add: s' run_settleRuns Let_def)
  have letters: "dead_letters s' = update_where (\<lambda>d. \<exists>x \<in> set (runs s). selected ops x \<and> unresolved (r_tenantId x) (r_runId x) d)
      (\<lambda>d. d\<lparr>dl_resolvedAt := Some (db_now s)\<rparr>) (dead_letters s)" by (simp add: s' run_settleRuns Let_def)
  then show "list_all2 (\<lambda>d e. e = (if \<exists>a \<in> set (runs s). selected ops a \<and> unresolved (r_tenantId a) (r_runId a) d
       then d\<lparr>dl_resolvedAt := Some (db_now s)\<rparr> else d)) (dead_letters s) (dead_letters s')"
    by (auto simp: update_where_def list_all2_conv_all_nth)
  show "\<not> quarantined (r_tenantId a) (r_runId a) s'" if "a \<in> set (runs s)" "selected ops a" for a
    using that by (auto simp: quarantined_def letters table_simps unresolved_def)
  have "filter (selected ops) (runs s') = []" by (auto simp: runs' table_simps filter_empty_conv)
  then show "fst (run (reconcileWorkflowRuns stringify ops) s') = Inr []"
    using run_reconcile [OF assms(1), of stringify s'] assms(2) by (simp add: run_settleRuns)
  assume D: "dp_lookup D = createRunLookup" and a: "a \<in> set (runs s)" "selected ops a"
    and m: "m_tenantId m = r_tenantId a" "readRunId m = Some (r_runId a)" "r_runId a \<noteq> []"
  have keys': "distinct (map run_key (runs s'))"
    using keys map_key_update_where [of "selected ops" run_key ?new "runs s"] by (simp add: runs')
  have "?new a \<in> set (runs s')" using a by (auto simp: runs' table_simps)
  then have "find (\<lambda>x. run_key x = run_key (?new a)) (runs s') = Some (?new a)"
    using keys' by (intro find_unique_key) auto
  then have row: "find (\<lambda>x. r_tenantId x = m_tenantId m \<and> r_runId x = r_runId a) (runs s') = Some (?new a)"
    using m by (simp add: run_key_def)
  then have "unroutable D m s'" using unroutable_lookup [OF D m(2,3), of s'] by simp
  then show "run (dispatchMessage D jobName queueName m d) s' = (Inr Dispatch_completed, s')"
    by (rule dispatch_dropped)
qed

text \<open>
  C27. A \<open>fail\<close> or \<open>cancel\<close> settles exactly the tenant's active runs the selectors name: each gets
  a terminal status, its completion time and the deadlines of the database trigger, loses its
  waits and those of its hooks whose retention has lapsed, its dead letters are resolved, and
  nothing else changes: no event is forged, no other run, hook, wait or letter is touched. A second call finds nothing to settle, and no
  message of a settled run is dispatched any more.
\<close>

theorem reconcile_settles:
  fixes s s' :: dispatcher
  assumes "accepted ops" and "ro_disposition ops \<noteq> Quarantine" and "distinct (map run_key (runs s))"
    and "run (reconcileWorkflowRuns stringify ops) s = (x, s')"
  shows "x = Inr (map reconciled (filter (selected ops) (runs s))) \<and>
    list_all2 (\<lambda>a b. if selected ops a
       then run_key b = run_key a \<and> run_ended b \<and> r_completedAt b = Some (db_now s) \<and>
         deadlines_of (store.truncate s') b = set_run_retention_deadlines b
       else b = a) (runs s) (runs s') \<and>
    hooks s' = filter (\<lambda>h. \<not> ((\<exists>a \<in> set (runs s). selected ops a \<and> run_key a = (h_tenantId h, h_runId h)) \<and>
       (case h_tokenRetentionUntil h of None \<Rightarrow> True | Some u \<Rightarrow> u \<le> db_now s))) (hooks s) \<and>
    waits s' = filter (\<lambda>w. \<not> (\<exists>a \<in> set (runs s). selected ops a \<and> run_key a = (w_tenantId w, w_runId w))) (waits s) \<and>
    (events s' = events s \<and> eventSlots s' = eventSlots s \<and> steps s' = steps s) \<and>
    list_all2 (\<lambda>d e. e = (if \<exists>a \<in> set (runs s). selected ops a \<and> unresolved (r_tenantId a) (r_runId a) d
       then d\<lparr>dl_resolvedAt := Some (db_now s)\<rparr> else d)) (dead_letters s) (dead_letters s') \<and>
    fst (run (reconcileWorkflowRuns stringify ops) s') = Inr [] \<and>
    (\<forall>a \<in> set (runs s). selected ops a \<longrightarrow> \<not> quarantined (r_tenantId a) (r_runId a) s' \<and>
      (\<forall>D m jobName queueName d. dp_lookup D = createRunLookup \<and> m_tenantId m = r_tenantId a \<and>
         readRunId m = Some (r_runId a) \<and> r_runId a \<noteq> [] \<longrightarrow>
         run (dispatchMessage D jobName queueName m d) s' = (Inr Dispatch_completed, s')))"
  using reconcile_settles_facts [OF assms] by (intro conjI ballI allI impI) (elim conjE; assumption?)+


end
