(* ===== verification/Boot_Recovery.thy ===== *)
theory Boot_Recovery
  imports Reconciliation Recency
begin

text \<open>
  Recovery after a dispatcher that died: \<open>src/dispatcher/boot-recovery.ts\<close>. The sweep reads the
  active runs with what could still wake them, frees the queues the dead generation had locked,
  lets the host drop candidates, spreads the rest over waves and adds one job per run.
  \<open>forceUnlockWorkers\<close> is graphile's and a parameter, \<open>forceUnlock\<close>; \<open>unlock_laws\<close> is its documented effect.
\<close>

section \<open>The sweep's query\<close>

record recovery_run =
  rr_tenantId :: tenant_id
  rr_runId :: run_id
  rr_workflowName :: string
  rr_deploymentId :: string
  rr_queueNamespace :: "string option"

record recovery_row = recovery_run +
  rr_lockedBy :: "string option"
  rr_hasLiveJob :: bool
  rr_hasHook :: bool
  rr_hasTimer :: bool

definition deliverable :: "job_row \<Rightarrow> bool" where
  "deliverable j \<longleftrightarrow> j_attempts j < j_maxAttempts j"

definition of_task :: "string \<Rightarrow> 's host_scheme \<Rightarrow> job_row \<Rightarrow> bool" where
  "of_task name s j = has_row (\<lambda>t. t_id t = j_taskId j \<and> t_identifier t = name) (tasks s)"

definition timer_queues :: "'s host_scheme \<Rightarrow> string option list" where
  "timer_queues s = map (\<lambda>j. Option.bind (j_payload j) snd) (filter (\<lambda>j. of_task TIMER_JOB_NAME s j \<and> deliverable j) (jobs s))"

definition queue_named :: "string \<Rightarrow> 's host_scheme \<Rightarrow> queue_row option" where
  "queue_named n s = find (\<lambda>q. q_queueName q = n) (job_queues s)"

definition has_live_job :: "'s host_scheme \<Rightarrow> run_row \<Rightarrow> bool" where
  "has_live_job s x = (let n = runQueueName (r_tenantId x) (r_runId x) in
     (case queue_named n s of None \<Rightarrow> False
      | Some q \<Rightarrow> has_row (\<lambda>j. j_queueId j = Some (q_id q) \<and> deliverable j) (jobs s)) \<or>
     Some n \<in> set (timer_queues s))"

definition has_hook :: "'s host_scheme \<Rightarrow> run_row \<Rightarrow> bool" where
  "has_hook s x = has_row (\<lambda>h. h_tenantId h = r_tenantId x \<and> h_runId h = r_runId x) (hooks s)"

definition has_timer :: "'s host_scheme \<Rightarrow> run_row \<Rightarrow> bool" where
  "has_timer s x = has_row (\<lambda>w. w_tenantId w = r_tenantId x \<and> w_runId w = r_runId x \<and>
     w_status w = Wait_waiting \<and> w_resumeAt w \<noteq> None) (waits s)"

definition recovery_row_of :: "'s host_scheme \<Rightarrow> run_row \<Rightarrow> recovery_row" where
  "recovery_row_of s x = \<lparr>rr_tenantId = r_tenantId x, rr_runId = r_runId x, rr_workflowName = r_workflowName x,
     rr_deploymentId = r_deploymentId x, rr_queueNamespace = r_queueNamespace x,
     rr_lockedBy = Option.bind (queue_named (runQueueName (r_tenantId x) (r_runId x)) s) q_lockedBy,
     rr_hasLiveJob = has_live_job s x, rr_hasHook = has_hook s x, rr_hasTimer = has_timer s x\<rparr>"

definition sweepable :: "'s host_scheme \<Rightarrow> run_row \<Rightarrow> bool" where
  "sweepable s x \<longleftrightarrow> active x \<and> \<not> quarantined (r_tenantId x) (r_runId x) s"

definition recovery_rows :: "'s host_scheme \<Rightarrow> recovery_row list" where
  "recovery_rows s = map (recovery_row_of s) (sort_key r_tenantId (sort_key r_createdAt (filter (sweepable s) (runs s))))"

section \<open>Reclaiming\<close>

definition truthy :: "string option \<Rightarrow> string list" where
  "truthy x = (case x of Some v \<Rightarrow> if v \<noteq> [] then [v] else [] | None \<Rightarrow> [])"

definition unqueued_workers :: "'s host_scheme \<Rightarrow> string list" where
  "unqueued_workers s = remdups (map (the \<circ> j_lockedBy) (filter (\<lambda>j.
     (of_task FLOW_JOB_NAME s j \<or> of_task TIMER_JOB_NAME s j) \<and> j_queueId j = None \<and> j_lockedBy j \<noteq> None) (jobs s)))"

definition reclaim_workers :: "(string list \<Rightarrow> 's host_scheme \<Rightarrow> 's host_scheme) \<Rightarrow> recovery_row list \<Rightarrow>
    ('s host_scheme, error, unit) prog" where
  "reclaim_workers forceUnlock rows =
     (let queued = fold set_add (concat (map (truthy \<circ> rr_lockedBy) rows)) [] in
      bindP (query unqueued_workers) (\<lambda>unqueued.
      let old = fold set_add unqueued queued in
      if 0 < length old then exec (forceUnlock old) else Ret ()))"

definition release_queue :: "string list \<Rightarrow> queue_row \<Rightarrow> queue_row" where
  "release_queue ids q = (if q_lockedBy q \<in> Some ` set ids then q\<lparr>q_lockedBy := None, q_lockedAt := None\<rparr> else q)"

definition release_job :: "string list \<Rightarrow> job_row \<Rightarrow> job_row" where
  "release_job ids j = (if j_lockedBy j \<in> Some ` set ids then j\<lparr>j_lockedBy := None, j_lockedAt := None\<rparr> else j)"

definition unlock_laws :: "(string list \<Rightarrow> 's host_scheme \<Rightarrow> 's host_scheme) \<Rightarrow> bool" where
  "unlock_laws forceUnlock \<longleftrightarrow> (\<forall>ids s. forceUnlock ids s =
     s\<lparr>job_queues := map (release_queue ids) (job_queues s), jobs := map (release_job ids) (jobs s)\<rparr>)"

section \<open>Candidates and waves\<close>

definition recoverable :: "recovery_row \<Rightarrow> bool" where
  "recoverable x \<longleftrightarrow> \<not> rr_hasLiveJob x \<and> (\<not> rr_hasHook x \<or> rr_hasTimer x)"

definition joined_key :: "string \<Rightarrow> string \<Rightarrow> string" where
  "joined_key a b = a @ CHR 0x00 # b"

type_synonym host_filter = "recovery_run list \<Rightarrow> error + recovery_run list"

definition filter_candidates :: "host_filter option \<Rightarrow> recovery_row list \<Rightarrow> error + recovery_row list" where
  "filter_candidates filterRuns offered = (case filterRuns of None \<Rightarrow> Inr offered
     | Some f \<Rightarrow> bindE (f (map recovery_run.truncate offered)) (\<lambda>kept.
         let keep = map (\<lambda>x. joined_key (rr_tenantId x) (rr_runId x)) kept in
         Inr (filter (\<lambda>x. joined_key (rr_tenantId x) (rr_runId x) \<in> set keep) offered)))"

record pacing =
  deploymentsPerWave :: rat
  waveIntervalMs :: rat

definition effective_pacing :: "pacing option \<Rightarrow> pacing option" where
  "effective_pacing p = (case p of None \<Rightarrow> None
     | Some x \<Rightarrow> if 0 < waveIntervalMs x \<and> 0 < deploymentsPerWave x then Some x else None)"

definition deployment_key :: "('a recovery_run_scheme) \<Rightarrow> string" where
  "deployment_key x = joined_key (rr_tenantId x) (rr_deploymentId x)"

definition wave_step :: "rat \<Rightarrow> string \<Rightarrow> (string \<times> int) list \<Rightarrow> (string \<times> int) list" where
  "wave_step per d m = (if d \<in> fst ` set m then m else m @ [(d, \<lfloor>of_nat (length m) / per\<rfloor>)])"

definition waveByDeployment :: "pacing option \<Rightarrow> recovery_row list \<Rightarrow> (string \<times> int) list" where
  "waveByDeployment p rows = (case p of None \<Rightarrow> []
     | Some x \<Rightarrow> fold (wave_step (deploymentsPerWave x)) (map deployment_key rows) [])"

section \<open>Enqueueing\<close>

definition recovery_message :: "recovery_row \<Rightarrow> message" where
  "recovery_message x = \<lparr>m_attempt = 1, m_deliveryOffset = None, m_attemptOffset = None,
     m_messageId = ''msg_recover_'' @ rr_runId x, m_idempotencyKey = None, m_headers = None,
     m_id = rr_workflowName x, m_data = Some (JObject [(''runId'', JString (rr_runId x))]),
     m_tenantId = rr_tenantId x, m_deploymentId = rr_deploymentId x,
     m_queueNamespace = (case rr_queueNamespace x of Some n \<Rightarrow> if n \<noteq> [] then Some n else None | None \<Rightarrow> None)\<rparr>"

definition recovery_spec :: "timestamp \<Rightarrow> pacing option \<Rightarrow> (string \<times> int) list \<Rightarrow> recovery_row \<Rightarrow> job_spec" where
  "recovery_spec t p waves x =
     (let wave = (case map_of waves (deployment_key x) of Some w \<Rightarrow> w | None \<Rightarrow> 0) in
      \<lparr>js_jobKey = Some (''msg_recover_'' @ rr_runId x), js_jobKeyMode = None,
       js_runAt = map_option (\<lambda>q. t + \<lfloor>of_int wave * waveIntervalMs q\<rfloor>) p,
       js_queueName = Some (runQueueName (rr_tenantId x) (rr_runId x)),
       js_maxAttempts = MAX_GRAPHILE_JOB_ATTEMPTS, js_flags = Some [tenantFlag (rr_tenantId x)]\<rparr>)"

definition recover_run :: "(job_request \<Rightarrow> bool) \<Rightarrow> timestamp \<Rightarrow> pacing option \<Rightarrow> (string \<times> int) list \<Rightarrow> recovery_row \<Rightarrow>
    ('s host_scheme, error, nat) prog" where
  "recover_run accepts t p waves x =
     catchP (bindP (addJob accepts FLOW_JOB_NAME (encode_message (recovery_message x)) (recovery_spec t p waves x)) (\<lambda>_. Ret 1))
       (\<lambda>_. Ret 0)"

definition recoverActiveRunsForAllTenants :: "(string list \<Rightarrow> 's host_scheme \<Rightarrow> 's host_scheme) \<Rightarrow> (job_request \<Rightarrow> bool) \<Rightarrow>
    timestamp \<Rightarrow> pacing option \<Rightarrow> host_filter option \<Rightarrow> bool \<Rightarrow> ('s host_scheme, error, nat) prog" where
  "recoverActiveRunsForAllTenants forceUnlock accepts t pacing filterRuns reclaimOldWorkerLocks =
     bindP (query recovery_rows) (\<lambda>rows.
     bindP (if reclaimOldWorkerLocks then reclaim_workers forceUnlock rows else Ret ()) (\<lambda>_.
     case filter_candidates filterRuns (filter recoverable rows) of
       Inl e \<Rightarrow> Throw e
     | Inr candidates \<Rightarrow>
         let p = effective_pacing pacing; waves = waveByDeployment p candidates in
         bindP (mapM (recover_run accepts t p waves) candidates) (\<lambda>ns. Ret (sum_list ns))))"

definition reenqueueActiveRunsForAllTenants where
  "reenqueueActiveRunsForAllTenants forceUnlock accepts t pacing filterRuns =
     recoverActiveRunsForAllTenants forceUnlock accepts t pacing filterRuns False"

definition reclaimAndReenqueueActiveRunsForAllTenants where
  "reclaimAndReenqueueActiveRunsForAllTenants forceUnlock accepts t pacing filterRuns =
     recoverActiveRunsForAllTenants forceUnlock accepts t pacing filterRuns True"

section \<open>What the sweep does\<close>

definition recovery_request :: "timestamp \<Rightarrow> pacing option \<Rightarrow> (string \<times> int) list \<Rightarrow> recovery_row \<Rightarrow> job_request" where
  "recovery_request t p waves x = \<lparr>jr_identifier = FLOW_JOB_NAME, jr_payload = encode_message (recovery_message x),
     jr_spec = recovery_spec t p waves x\<rparr>"

lemma run_recover_all:
  fixes s :: "'s host_scheme"
  shows "run (mapM (recover_run accepts t p waves) xs) s =
     (Inr (map (\<lambda>x. if accepts (recovery_request t p waves x) then 1 else 0) xs),
      s\<lparr>added := added s @ filter accepts (map (recovery_request t p waves) xs)\<rparr>)"
  by (induction xs arbitrary: s) (simp_all add: recover_run_def run_simps recovery_request_def Let_def)

lemma sum_accepted: "sum_list (map (\<lambda>x. if P (f x) then 1 else 0) xs) = length (filter P (map f xs))"
  by (induction xs) simp_all

definition reclaimed :: "(string list \<Rightarrow> 's host_scheme \<Rightarrow> 's host_scheme) \<Rightarrow> bool \<Rightarrow> 's host_scheme \<Rightarrow> 's host_scheme" where
  "reclaimed forceUnlock reclaim s =
     (if reclaim then snd (run (reclaim_workers forceUnlock (recovery_rows s)) s) else s)"

lemma run_reclaim:
  "run (reclaim_workers forceUnlock rows) s = (Inr (), snd (run (reclaim_workers forceUnlock rows) s))"
  by (simp add: reclaim_workers_def run_simps Let_def)

lemma run_recovery:
  fixes s :: "'s host_scheme"
  shows "run (recoverActiveRunsForAllTenants forceUnlock accepts t pacing filterRuns reclaim) s =
   (case filter_candidates filterRuns (filter recoverable (recovery_rows s)) of
      Inl e \<Rightarrow> (Inl e, reclaimed forceUnlock reclaim s)
    | Inr xs \<Rightarrow>
        let p = effective_pacing pacing;
            new = filter accepts (map (recovery_request t p (waveByDeployment p xs)) xs);
            s' = reclaimed forceUnlock reclaim s
        in (Inr (length new), s'\<lparr>added := added s' @ new\<rparr>))"
proof -
  obtain s' where "run (reclaim_workers forceUnlock (recovery_rows s)) s = (Inr (), s')"
    using run_reclaim by blast
  then show ?thesis unfolding recoverActiveRunsForAllTenants_def reclaimed_def
    by (simp add: run_simps run_recover_all sum_accepted Let_def split: sum.splits)
qed

lemma fold_set_add: "set (fold set_add xs ys) = set xs \<union> set ys"
  by (induction xs arbitrary: ys) (auto simp: set_add_def)

definition old_workers :: "'s host_scheme \<Rightarrow> string list" where
  "old_workers s = fold set_add (unqueued_workers s) (fold set_add (concat (map (truthy \<circ> rr_lockedBy) (recovery_rows s))) [])"

lemma release_none [simp]: "release_queue [] = id" "release_job [] = id"
  by (auto simp: fun_eq_iff release_queue_def release_job_def)

lemma reclaimed_state:
  assumes "unlock_laws forceUnlock"
  shows "reclaimed forceUnlock True s = s\<lparr>job_queues := map (release_queue (old_workers s)) (job_queues s),
     jobs := map (release_job (old_workers s)) (jobs s)\<rparr>"
  using assms by (simp add: reclaimed_def reclaim_workers_def run_simps Let_def unlock_laws_def old_workers_def [symmetric])

section \<open>Exactly the stranded runs\<close>

definition stranded :: "'s host_scheme \<Rightarrow> run_row \<Rightarrow> bool" where
  "stranded s x \<longleftrightarrow> sweepable s x \<and> \<not> has_live_job s x \<and> (\<not> has_hook s x \<or> has_timer s x)"

lemma candidate_rows:
  "filter recoverable (recovery_rows s) =
     map (recovery_row_of s) (sort_key r_tenantId (sort_key r_createdAt (filter (stranded s) (runs s))))"
proof -
  have "recoverable \<circ> recovery_row_of s = (\<lambda>x. \<not> has_live_job s x \<and> (\<not> has_hook s x \<or> has_timer s x))"
    by (auto simp: recoverable_def recovery_row_of_def)
  moreover have "(\<lambda>x. (\<not> has_live_job s x \<and> (\<not> has_hook s x \<or> has_timer s x)) \<and> sweepable s x) = stranded s"
    by (auto simp: stranded_def)
  ultimately show ?thesis
    by (simp add: recovery_rows_def filter_map filter_sort conj_commute)
qed

lemma tenant_no_colon:
  assumes "assertValidTenantId t = Inr ()"
  shows "CHR '':'' \<notin> set t"
  using assms by (auto simp: assertValidTenantId_def list_all_iff tenant_char_def split: if_splits)

lemma cut_at_separator:
  assumes "c \<notin> set a" and "c \<notin> set a'" and "a @ c # b = a' @ c # b'"
  shows "a = a' \<and> b = b'"
proof -
  have "takeWhile (\<lambda>x. x \<noteq> c) (d @ c # e) = d" if "c \<notin> set d" for d e
    using that by (induction d) auto
  with assms have "a = a'" by metis
  with assms(3) show ?thesis by simp
qed

lemma runQueueName_inject:
  assumes "assertValidTenantId t = Inr ()" and "assertValidTenantId t' = Inr ()"
    and "runQueueName t r = runQueueName t' r'"
  shows "t = t' \<and> r = r'"
  using cut_at_separator [OF tenant_no_colon [OF assms(1)] tenant_no_colon [OF assms(2)]] assms(3)
  by (simp add: runQueueName_def)

lemma filter_candidates_subset:
  "filter_candidates f xs = Inr ys \<Longrightarrow> \<exists>P. ys = filter P xs"
  by (auto simp: filter_candidates_def Let_def split: option.splits intro: exI [of _ "\<lambda>_. True"])

definition kept_by :: "host_filter option \<Rightarrow> recovery_row list \<Rightarrow> recovery_row \<Rightarrow> bool" where
  "kept_by f offered x \<longleftrightarrow> (case f of None \<Rightarrow> True
     | Some g \<Rightarrow> (case g (map recovery_run.truncate offered) of Inl _ \<Rightarrow> False
         | Inr kept \<Rightarrow> joined_key (rr_tenantId x) (rr_runId x) \<in> (\<lambda>k. joined_key (rr_tenantId k) (rr_runId k)) ` set kept))"

lemma filter_candidates_kept:
  "filter_candidates f xs = Inr ys \<Longrightarrow> ys = filter (kept_by f xs) xs"
  by (auto simp: filter_candidates_def Let_def kept_by_def split: option.splits sum.splits cong: filter_cong)

definition recovers :: "job_request \<Rightarrow> run_row \<Rightarrow> bool" where
  "recovers q x \<longleftrightarrow> jr_identifier q = FLOW_JOB_NAME \<and>
     js_queueName (jr_spec q) = Some (runQueueName (r_tenantId x) (r_runId x)) \<and>
     (\<exists>m. parse_message (jr_payload q) = Inr m \<and> readRunId m = Some (r_runId x) \<and> m_tenantId m = r_tenantId x \<and>
        m_deploymentId m = r_deploymentId x \<and> m_id m = r_workflowName x)"

definition chosen :: "host_filter option \<Rightarrow> 's host_scheme \<Rightarrow> run_row \<Rightarrow> bool" where
  "chosen f s x \<longleftrightarrow> stranded s x \<and> kept_by f (filter recoverable (recovery_rows s)) (recovery_row_of s x)"

lemma request_recovers: "recovers (recovery_request t p waves (recovery_row_of s x)) x"
  by (simp add: recovers_def recovery_request_def recovery_spec_def recovery_row_of_def Let_def parse_message_def
      encode_message_def recovery_message_def readRunId_def bodyRunId_def)

lemma chosen_rows:
  assumes "filter_candidates f (filter recoverable (recovery_rows s)) = Inr xs"
  shows "\<exists>rs. xs = map (recovery_row_of s) rs \<and> set rs = {x \<in> set (runs s). chosen f s x} \<and>
     (distinct (map run_key (runs s)) \<longrightarrow> distinct (map run_key rs))"
proof -
  let ?rs = "sort_key r_tenantId (sort_key r_createdAt (filter (stranded s) (runs s)))"
  let ?keep = "\<lambda>x. kept_by f (filter recoverable (recovery_rows s)) (recovery_row_of s x)"
  have "xs = map (recovery_row_of s) (filter ?keep ?rs)"
    using filter_candidates_kept [OF assms] candidate_rows [of s] by (simp add: filter_map comp_def)
  moreover have "set (filter ?keep ?rs) = {x \<in> set (runs s). chosen f s x}" by (auto simp: chosen_def)
  moreover have "distinct (map run_key (filter ?keep ?rs))" if "distinct (map run_key (runs s))"
    using that by (auto simp: distinct_map inj_on_def)
  ultimately show ?thesis by blast
qed

lemma queue_released:
  "find (\<lambda>q. q_queueName q = n) (map (release_queue ids) qs) = map_option (release_queue ids) (find (\<lambda>q. q_queueName q = n) qs)"
  by (induction qs) (auto simp: release_queue_def)

lemma locked_queue_reclaimed:
  assumes "x \<in> set (runs s)" and "sweepable s x" and "queue_named (runQueueName (r_tenantId x) (r_runId x)) s = Some q"
    and "q_lockedBy q = Some w" and "w \<noteq> []"
  shows "w \<in> set (old_workers s)"
proof -
  have "recovery_row_of s x \<in> set (recovery_rows s)" using assms(1,2) by (simp add: recovery_rows_def)
  moreover have "w \<in> set (truthy (rr_lockedBy (recovery_row_of s x)))"
    using assms(3-5) by (simp add: recovery_row_of_def truthy_def)
  ultimately show ?thesis unfolding old_workers_def fold_set_add by auto
qed

lemma requests_distinct:
  assumes tenants: "\<forall>x \<in> set rs. assertValidTenantId (r_tenantId x) = Inr ()" and keys: "distinct (map run_key rs)"
  shows "distinct (map (js_queueName \<circ> jr_spec) (map (\<lambda>x. recovery_request t p waves (recovery_row_of s x)) rs))"
proof -
  let ?q = "\<lambda>x. recovery_request t p waves (recovery_row_of s x)"
  have "x = y" if xy: "x \<in> set rs" "y \<in> set rs" "js_queueName (jr_spec (?q x)) = js_queueName (jr_spec (?q y))" for x y
  proof -
    have "runQueueName (r_tenantId x) (r_runId x) = runQueueName (r_tenantId y) (r_runId y)"
      using xy(3) request_recovers [of t p waves s x] request_recovers [of t p waves s y] by (auto simp: recovers_def)
    then have "run_key x = run_key y"
      unfolding run_key_def using tenants xy(1,2) runQueueName_inject by blast
    then show ?thesis using keys xy by (auto simp: distinct_map inj_on_def)
  qed
  moreover have "distinct rs" using keys by (simp add: distinct_map)
  ultimately show ?thesis by (auto simp: distinct_map inj_on_def)
qed

lemma reclaim_frame:
  assumes "unlock_laws forceUnlock"
  obtains qs js where "reclaimed forceUnlock reclaim s = s\<lparr>job_queues := qs, jobs := js\<rparr>"
proof (cases reclaim)
  case False
  then have "reclaimed forceUnlock reclaim s = s\<lparr>job_queues := job_queues s, jobs := jobs s\<rparr>" by (simp add: reclaimed_def)
  then show ?thesis by (rule that)
next
  case True
  then show ?thesis using reclaimed_state [OF assms, of s] by (intro that) simp
qed

lemma reclaim_unlocks:
  assumes laws: "unlock_laws forceUnlock" and x: "x \<in> set (runs s)" "sweepable s x"
    and q: "queue_named (runQueueName (r_tenantId x) (r_runId x)) (reclaimed forceUnlock True s) = Some q"
  shows "q_lockedBy q \<in> {None, Some []}"
proof -
  obtain q0 where q0: "queue_named (runQueueName (r_tenantId x) (r_runId x)) s = Some q0"
      "q = release_queue (old_workers s) q0"
    using q by (auto simp: reclaimed_state [OF laws] queue_named_def queue_released)
  show ?thesis
  proof (cases "q_lockedBy q0")
    case (Some w)
    with locked_queue_reclaimed [OF x q0(1)] show ?thesis by (auto simp: q0(2) release_queue_def)
  qed (simp add: q0(2) release_queue_def image_iff)
qed

lemma stranded_runs_recovered_facts:
  fixes s s' :: "'s host_scheme"
  assumes keys: "distinct (map run_key (runs s))"
    and tenants: "\<forall>x \<in> set (runs s). assertValidTenantId (r_tenantId x) = Inr ()"
    and laws: "unlock_laws forceUnlock"
    and run: "run (recoverActiveRunsForAllTenants forceUnlock accepts t pacing filterRuns reclaim) s = (Inr n, s')"
  shows "\<exists>new. added s' = added s @ new \<and> n = length new \<and> distinct (map (js_queueName \<circ> jr_spec) new) \<and>
       (\<forall>q \<in> set new. accepts q \<and> (\<exists>x \<in> set (runs s). chosen filterRuns s x \<and> recovers q x)) \<and>
       ((\<forall>q. accepts q) \<longrightarrow> (\<forall>x \<in> set (runs s). chosen filterRuns s x \<longrightarrow> (\<exists>q \<in> set new. recovers q x)))"
    and "\<exists>qs js as. s' = s\<lparr>job_queues := qs, jobs := js, added := as\<rparr>"
    and "reclaim \<Longrightarrow> x \<in> set (runs s) \<Longrightarrow> sweepable s x \<Longrightarrow>
       queue_named (runQueueName (r_tenantId x) (r_runId x)) s' = Some q \<Longrightarrow> q_lockedBy q \<in> {None, Some []}"
proof -
  let ?p = "effective_pacing pacing" and ?s1 = "reclaimed forceUnlock reclaim s"
  obtain xs where xs: "filter_candidates filterRuns (filter recoverable (recovery_rows s)) = Inr xs"
    using run by (auto simp: run_recovery split: sum.splits)
  obtain rs where rs: "xs = map (recovery_row_of s) rs" "set rs = {x \<in> set (runs s). chosen filterRuns s x}"
    "distinct (map run_key rs)" using chosen_rows [OF xs] keys by blast
  define req where "req = (\<lambda>x. recovery_request t ?p (waveByDeployment ?p xs) (recovery_row_of s x))"
  define new where "new = filter accepts (map req rs)"
  have n: "n = length new" and s': "s' = ?s1\<lparr>added := added ?s1 @ new\<rparr>"
    using run by (auto simp: run_recovery xs new_def req_def rs(1) Let_def comp_def)
  obtain qs js where s1: "?s1 = s\<lparr>job_queues := qs, jobs := js\<rparr>" by (rule reclaim_frame [OF laws])
  then have "s' = s\<lparr>job_queues := qs, jobs := js, added := added s @ new\<rparr>" by (simp add: s')
  then show "\<exists>qs js as. s' = s\<lparr>job_queues := qs, jobs := js, added := as\<rparr>" by blast
  have "distinct (map (js_queueName \<circ> jr_spec) new)"
    unfolding new_def req_def
    by (intro distinct_map_filter requests_distinct) (use tenants rs in auto)
  moreover have "added s' = added s @ new" by (simp add: s' s1)
  moreover have "accepts q \<and> (\<exists>x \<in> set (runs s). chosen filterRuns s x \<and> recovers q x)" if "q \<in> set new" for q
    using that rs(2) request_recovers unfolding new_def req_def by fastforce
  moreover have "\<exists>q \<in> set new. recovers q x" if "\<forall>q. accepts q" "x \<in> set (runs s)" "chosen filterRuns s x" for x
    using that rs(2) request_recovers unfolding new_def req_def
    by (metis (mono_tags, lifting) filter_True image_eqI list.set_map mem_Collect_eq)
  ultimately show "\<exists>new. added s' = added s @ new \<and> n = length new \<and> distinct (map (js_queueName \<circ> jr_spec) new) \<and>
       (\<forall>q \<in> set new. accepts q \<and> (\<exists>x \<in> set (runs s). chosen filterRuns s x \<and> recovers q x)) \<and>
       ((\<forall>q. accepts q) \<longrightarrow> (\<forall>x \<in> set (runs s). chosen filterRuns s x \<longrightarrow> (\<exists>q \<in> set new. recovers q x)))"
    using n by blast
  assume "reclaim" "x \<in> set (runs s)" "sweepable s x"
    and "queue_named (runQueueName (r_tenantId x) (r_runId x)) s' = Some q"
  then show "q_lockedBy q \<in> {None, Some []}"
    using reclaim_unlocks [OF laws] by (simp add: s' queue_named_def)
qed

text \<open>
  C28. The sweep adds exactly one job for every stranded run the host keeps, and none for any
  other: a run is stranded when it is active, not quarantined, has no job or timer that graphile
  will still deliver, and either holds no hook or is inside a sleep. The job carries the run's own
  id, tenant, deployment and workflow on the run's own queue. Nothing but graphile's tables
  changes, and after a reclaim no queue of a run the sweep looked at is still locked.
\<close>

theorem stranded_runs_recovered:
  fixes s s' :: "'s host_scheme"
  assumes "distinct (map run_key (runs s))"
    and "\<forall>x \<in> set (runs s). assertValidTenantId (r_tenantId x) = Inr ()"
    and "unlock_laws forceUnlock"
    and "run (recoverActiveRunsForAllTenants forceUnlock accepts t pacing filterRuns reclaim) s = (Inr n, s')"
  shows "(\<exists>new. added s' = added s @ new \<and> n = length new \<and> distinct (map (js_queueName \<circ> jr_spec) new) \<and>
       (\<forall>q \<in> set new. accepts q \<and> (\<exists>x \<in> set (runs s). chosen filterRuns s x \<and> recovers q x)) \<and>
       ((\<forall>q. accepts q) \<longrightarrow> (\<forall>x \<in> set (runs s). chosen filterRuns s x \<longrightarrow> (\<exists>q \<in> set new. recovers q x)))) \<and>
    (\<exists>qs js as. s' = s\<lparr>job_queues := qs, jobs := js, added := as\<rparr>) \<and>
    (reclaim \<longrightarrow> (\<forall>x \<in> set (runs s). sweepable s x \<longrightarrow>
       (case queue_named (runQueueName (r_tenantId x) (r_runId x)) s' of None \<Rightarrow> True
        | Some q \<Rightarrow> q_lockedBy q \<in> {None, Some []})))"
  using stranded_runs_recovered_facts [OF assms]
  by (intro conjI impI ballI) (simp_all split: option.split)


section \<open>Waves\<close>

text \<open>The wave map after the sweep: the deployments in first-seen order, the \<open>i\<close>-th in wave \<open>i div per\<close>.\<close>

definition waves_ok :: "rat \<Rightarrow> (string \<times> int) list \<Rightarrow> bool" where
  "waves_ok per m \<longleftrightarrow> distinct (map fst m) \<and> (\<forall>i < length m. snd (m ! i) = \<lfloor>of_nat i / per\<rfloor>)"

lemma wave_step_ok: "waves_ok per m \<Longrightarrow> waves_ok per (wave_step per d m)"
  by (auto simp: waves_ok_def wave_step_def nth_append less_Suc_eq)

lemma wave_step_keys: "fst ` set (wave_step per d m) = insert d (fst ` set m)"
  by (auto simp: wave_step_def)

lemma fold_waves:
  "waves_ok per m \<Longrightarrow> waves_ok per (fold (wave_step per) ds m) \<and>
     fst ` set (fold (wave_step per) ds m) = set ds \<union> fst ` set m"
  by (induction ds arbitrary: m) (auto simp: wave_step_ok wave_step_keys)

lemma wave_size:
  assumes ok: "waves_ok (of_nat k) m" and k: "0 < k"
  shows "card {d. map_of m d = Some w} \<le> k"
proof -
  have dist: "distinct (map fst m)" using ok by (simp add: waves_ok_def)
  have "{d. map_of m d = Some w} \<subseteq> (\<lambda>i. fst (m ! i)) ` {i. i < length m \<and> int i div int k = w}"
  proof
    fix d assume "d \<in> {d. map_of m d = Some w}"
    then obtain i where "i < length m" "m ! i = (d, w)" by (metis in_set_conv_nth map_of_SomeD mem_Collect_eq)
    then show "d \<in> (\<lambda>i. fst (m ! i)) ` {i. i < length m \<and> int i div int k = w}"
      using ok by (force simp: waves_ok_def floor_divide_of_int_eq [where ?'a = rat, symmetric])
  qed
  also have "\<dots> \<subseteq> (\<lambda>i. fst (m ! i)) ` (\<lambda>r. nat w * k + r) ` {..<k}"
  proof (intro image_mono subsetI)
    fix i assume "i \<in> {i. i < length m \<and> int i div int k = w}"
    then have "i = nat w * k + i mod k" "i mod k < k"
      using k by (auto simp: zdiv_int [symmetric])
    then show "i \<in> (\<lambda>r. nat w * k + r) ` {..<k}" by blast
  qed
  finally have "card {d. map_of m d = Some w} \<le> card ((\<lambda>i. fst (m ! i)) ` (\<lambda>r. nat w * k + r) ` {..<k})"
    by (rule card_mono [rotated]) simp
  also have "\<dots> \<le> k" by (metis card_image_le card_lessThan dual_order.trans finite_imageI finite_lessThan)
  finally show ?thesis .
qed

definition request_deployment :: "job_request \<Rightarrow> (tenant_id \<times> string) option" where
  "request_deployment q = map_option (\<lambda>(m, _). (m_tenantId m, m_deploymentId m)) (jr_payload q)"

lemma tenant_no_nul:
  assumes "assertValidTenantId t = Inr ()"
  shows "CHR 0x00 \<notin> set t"
  using assms by (auto simp: assertValidTenantId_def list_all_iff tenant_char_def split: if_splits)

lemma paced_request:
  assumes p: "p = \<lparr>deploymentsPerWave = of_nat k, waveIntervalMs = of_nat v\<rparr>" and kv: "0 < k" "0 < v" and x: "x \<in> set xs"
  obtains w where "map_of (waveByDeployment (Some p) xs) (deployment_key x) = Some w" and "0 \<le> w"
    and "js_runAt (jr_spec (recovery_request t (Some p) (waveByDeployment (Some p) xs) x)) = Some (t + w * int v)"
proof -
  let ?m = "waveByDeployment (Some p) xs"
  have ok: "waves_ok (of_nat k) ?m" and keys: "fst ` set ?m = deployment_key ` set xs"
    using fold_waves [of "of_nat k" "[]" "map deployment_key xs"] by (auto simp: waveByDeployment_def p waves_ok_def)
  have "deployment_key x \<in> dom (map_of ?m)" using x by (simp add: dom_map_of_conv_image_fst keys)
  then obtain w where w: "map_of ?m (deployment_key x) = Some w" by blast
  then obtain i where "i < length ?m" "?m ! i = (deployment_key x, w)" by (metis in_set_conv_nth map_of_SomeD)
  then have "0 \<le> w" using ok by (force simp: waves_ok_def)
  moreover have "\<lfloor>of_int w * (of_nat v :: rat)\<rfloor> = w * int v" by (metis floor_of_int of_int_mult of_int_of_nat_eq)
  ultimately show thesis using w by (intro that) (auto simp: recovery_request_def recovery_spec_def p)
qed

lemma request_deployment_of [simp]:
  "request_deployment (recovery_request t p waves x) = Some (rr_tenantId x, rr_deploymentId x)"
  by (simp add: request_deployment_def recovery_request_def encode_message_def recovery_message_def)

lemma request_runAt:
  "deployment_key x = deployment_key y \<Longrightarrow>
     js_runAt (jr_spec (recovery_request t p waves x)) = js_runAt (jr_spec (recovery_request t p waves y))"
  by (simp add: recovery_request_def recovery_spec_def Let_def)

lemma recovery_requests:
  assumes laws: "unlock_laws forceUnlock" and p: "effective_pacing pacing = p"
    and run: "run (recoverActiveRunsForAllTenants forceUnlock accepts t pacing filterRuns reclaim) s = (Inr n, s')"
    and new: "added s' = added s @ new"
  obtains xs where "filter_candidates filterRuns (filter recoverable (recovery_rows s)) = Inr xs"
    and "new = filter accepts (map (recovery_request t p (waveByDeployment p xs)) xs)"
proof -
  obtain xs where xs: "filter_candidates filterRuns (filter recoverable (recovery_rows s)) = Inr xs"
    using run by (auto simp: run_recovery split: sum.splits)
  obtain qs js where "reclaimed forceUnlock reclaim s = s\<lparr>job_queues := qs, jobs := js\<rparr>" by (rule reclaim_frame [OF laws])
  then show thesis using run new p by (intro that [OF xs]) (auto simp: run_recovery xs Let_def)
qed

lemma joined_key_inject:
  "CHR 0x00 \<notin> set a \<Longrightarrow> CHR 0x00 \<notin> set a' \<Longrightarrow> joined_key a b = joined_key a' b' \<Longrightarrow> a = a' \<and> b = b'"
  unfolding joined_key_def by (rule cut_at_separator)

text \<open>The deployments of one wave, told apart by tenant and deployment.\<close>

lemma wave_deployments:
  fixes t :: timestamp
  assumes p: "p = \<lparr>deploymentsPerWave = of_nat k, waveIntervalMs = of_nat v\<rparr>" and kv: "0 < k" "0 < v"
    and tenants: "\<And>x. x \<in> set xs \<Longrightarrow> CHR 0x00 \<notin> set (rr_tenantId x)"
  defines "req \<equiv> recovery_request t (Some p) (waveByDeployment (Some p) xs)"
  shows "card ((\<lambda>x. (rr_tenantId x, rr_deploymentId x)) ` {x \<in> set xs. js_runAt (jr_spec (req x)) = Some u}) \<le> k"
    (is "card (?dep ` ?X) \<le> k")
proof -
  let ?m = "waveByDeployment (Some p) xs"
  let ?W = "{d. map_of ?m d = Some ((u - t) div int v)}"
  have "inj_on (\<lambda>(a, b). joined_key a b) (?dep ` ?X)"
  proof (rule inj_onI, clarsimp)
    fix x y assume "x \<in> set xs" "y \<in> set xs"
      and "joined_key (rr_tenantId x) (rr_deploymentId x) = joined_key (rr_tenantId y) (rr_deploymentId y)"
    then show "rr_tenantId x = rr_tenantId y \<and> rr_deploymentId x = rr_deploymentId y"
      by (rule joined_key_inject [OF tenants tenants])
  qed
  moreover have "(\<lambda>(a, b). joined_key a b) ` (?dep ` ?X) \<subseteq> ?W"
  proof clarsimp
    fix x assume x: "x \<in> set xs" "js_runAt (jr_spec (req x)) = Some u"
    obtain w where "map_of ?m (deployment_key x) = Some w" "js_runAt (jr_spec (req x)) = Some (t + w * int v)"
      using paced_request [OF p kv x(1)] unfolding req_def by metis
    moreover from this x(2) have "w = (u - t) div int v" using kv by auto
    ultimately show "map_of ?m (joined_key (rr_tenantId x) (rr_deploymentId x)) = Some ((u - t) div int v)"
      by (simp add: deployment_key_def)
  qed
  moreover have "finite ?W" by (rule finite_subset [OF _ finite_dom_map_of [of ?m]]) auto
  ultimately have "card (?dep ` ?X) \<le> card ?W" by (rule card_inj_on_le)
  also have "\<dots> \<le> k" using fold_waves [of "of_nat k" "[]"] kv
    by (intro wave_size) (auto simp: waveByDeployment_def p waves_ok_def)
  finally show ?thesis .
qed

lemma recovery_paced_facts:
  fixes s s' :: "'s host_scheme"
  assumes p: "p = \<lparr>deploymentsPerWave = of_nat k, waveIntervalMs = of_nat v\<rparr>" and kv: "0 < k" "0 < v"
    and tenants: "\<forall>x \<in> set (runs s). assertValidTenantId (r_tenantId x) = Inr ()"
    and laws: "unlock_laws forceUnlock"
    and run: "run (recoverActiveRunsForAllTenants forceUnlock accepts t (Some p) filterRuns reclaim) s = (Inr n, s')"
    and new: "added s' = added s @ new"
  shows "q \<in> set new \<Longrightarrow> \<exists>w. js_runAt (jr_spec q) = Some (t + int w * int v)"
    and "q \<in> set new \<Longrightarrow> q' \<in> set new \<Longrightarrow> request_deployment q = request_deployment q' \<Longrightarrow>
       js_runAt (jr_spec q) = js_runAt (jr_spec q')"
    and "card {request_deployment q | q. q \<in> set new \<and> js_runAt (jr_spec q) = Some u} \<le> k"
proof -
  have eff: "effective_pacing (Some p) = Some p" using kv by (simp add: effective_pacing_def p)
  obtain xs where xs: "filter_candidates filterRuns (filter recoverable (recovery_rows s)) = Inr xs"
      "new = filter accepts (map (recovery_request t (Some p) (waveByDeployment (Some p) xs)) xs)"
    by (rule recovery_requests [OF laws eff run new])
  let ?req = "recovery_request t (Some p) (waveByDeployment (Some p) xs)"
  have req: "\<exists>x \<in> set xs. q = ?req x" if "q \<in> set new" for q using that xs(2) by auto
  show "\<exists>w. js_runAt (jr_spec q) = Some (t + int w * int v)" if q: "q \<in> set new" for q
  proof -
    obtain x where x: "x \<in> set xs" "q = ?req x" using req [OF q] by blast
    obtain w where "0 \<le> w" "js_runAt (jr_spec q) = Some (t + w * int v)"
      using paced_request [OF p kv x(1)] x(2) by metis
    then show ?thesis by (metis nat_0_le)
  qed
  show "js_runAt (jr_spec q) = js_runAt (jr_spec q')"
    if q: "q \<in> set new" "q' \<in> set new" "request_deployment q = request_deployment q'" for q q'
    using req [OF q(1)] req [OF q(2)] q(3)
    by (auto intro!: request_runAt simp: deployment_key_def)
  have "CHR 0x00 \<notin> set (rr_tenantId x)" if "x \<in> set xs" for x
    using chosen_rows [OF xs(1)] tenants tenant_no_nul that by (auto simp: recovery_row_of_def)
  from wave_deployments [OF p kv this, where t = t and u = u]
  have "card (Some ` (\<lambda>x. (rr_tenantId x, rr_deploymentId x)) ` {x \<in> set xs. js_runAt (jr_spec (?req x)) = Some u}) \<le> k"
    by (simp add: card_image)
  moreover have sub: "{request_deployment q | q. q \<in> set new \<and> js_runAt (jr_spec q) = Some u} \<subseteq>
      Some ` (\<lambda>x. (rr_tenantId x, rr_deploymentId x)) ` {x \<in> set xs. js_runAt (jr_spec (?req x)) = Some u}"
    using req by fastforce
  ultimately show "card {request_deployment q | q. q \<in> set new \<and> js_runAt (jr_spec q) = Some u} \<le> k"
    using card_mono [OF _ sub] by simp
qed

text \<open>
  With pacing on, every recovered job is due a whole number of intervals after the sweep
  began, all jobs of one deployment are due together, and no more than \<open>deploymentsPerWave\<close>
  deployments are due at any one time.
\<close>

theorem recovery_paced:
  fixes s s' :: "'s host_scheme"
  assumes "p = \<lparr>deploymentsPerWave = of_nat k, waveIntervalMs = of_nat v\<rparr>" and "0 < k" and "0 < v"
    and "\<forall>x \<in> set (runs s). assertValidTenantId (r_tenantId x) = Inr ()"
    and "unlock_laws forceUnlock"
    and "run (recoverActiveRunsForAllTenants forceUnlock accepts t (Some p) filterRuns reclaim) s = (Inr n, s')"
    and "added s' = added s @ new"
  shows "(\<forall>q \<in> set new. \<exists>w. js_runAt (jr_spec q) = Some (t + int w * int v)) \<and>
    (\<forall>q \<in> set new. \<forall>q' \<in> set new. request_deployment q = request_deployment q' \<longrightarrow>
       js_runAt (jr_spec q) = js_runAt (jr_spec q')) \<and>
    (\<forall>u. card {request_deployment q | q. q \<in> set new \<and> js_runAt (jr_spec q) = Some u} \<le> k)"
  using recovery_paced_facts [OF assms] by blast


section \<open>Quarantine\<close>

lemma fold_letters:
  fixes s :: "'s host_scheme"
  shows "fold (\<lambda>x s. s\<lparr>dead_letters := dead_letters s @ [f x]\<rparr>) xs s = s\<lparr>dead_letters := dead_letters s @ map f xs\<rparr>"
  by (induction xs arbitrary: s) simp_all

lemma run_quarantineRuns:
  fixes s :: "'s host_scheme"
  shows "run (quarantineRuns ops) s =
    (let rows = filter (\<lambda>x. selected ops x \<and> \<not> quarantined (r_tenantId x) (r_runId x) s) (runs s)
     in (Inr (map reconciled rows), s\<lparr>dead_letters := dead_letters s @ map (reconcile_letter ops) rows\<rparr>))"
  by (simp add: quarantineRuns_def run_simps run_mapM_exec fold_letters Let_def)

lemma letter_unresolved: "selected ops x \<Longrightarrow> unresolved (r_tenantId x) (r_runId x) (reconcile_letter ops x)"
  by (simp add: unresolved_def reconcile_letter_def selected_def Let_def)

text \<open>The letter of a quarantined run can be replayed: its payload is the run's next delivery.\<close>

lemma letter_replayable:
  "selected ops x \<Longrightarrow> \<exists>m. parse_message (dl_payload (reconcile_letter ops x)) = Inr m \<and>
     readRunId m = Some (r_runId x) \<and> m_tenantId m = r_tenantId x \<and> m_deploymentId m = r_deploymentId x"
  by (simp add: reconcile_letter_def Let_def encode_message_def parse_message_def readRunId_def bodyRunId_def selected_def)

text \<open>
  Quarantining parks exactly the selected active runs that are not parked yet: each gets one
  dead letter that holds its next delivery, and nothing but the letters changes, so the runs stay
  as they were. A second call parks none. From then on the dispatcher drops the messages of a
  selected run and the boot sweep passes it over.
\<close>

theorem quarantine_parks:
  fixes s s' :: dispatcher
  assumes "accepted ops" and "ro_disposition ops = Quarantine" and keys: "distinct (map run_key (runs s))"
    and run: "run (reconcileWorkflowRuns stringify ops) s = (x, s')"
  shows "let rows = filter (\<lambda>x. selected ops x \<and> \<not> quarantined (r_tenantId x) (r_runId x) s) (runs s) in
    x = Inr (map reconciled rows) \<and> s' = s\<lparr>dead_letters := dead_letters s @ map (reconcile_letter ops) rows\<rparr> \<and>
    fst (run (reconcileWorkflowRuns stringify ops) s') = Inr [] \<and>
    (\<forall>a \<in> set (runs s). selected ops a \<longrightarrow> quarantined (r_tenantId a) (r_runId a) s' \<and> \<not> sweepable s' a \<and>
      (\<forall>D m jobName queueName d. dp_lookup D = createRunLookup \<and> m_tenantId m = r_tenantId a \<and>
         readRunId m = Some (r_runId a) \<and> r_runId a \<noteq> [] \<longrightarrow>
         run (dispatchMessage D jobName queueName m d) s' = (Inr Dispatch_completed, s')))"
proof -
  define rows where "rows = filter (\<lambda>x. selected ops x \<and> \<not> quarantined (r_tenantId x) (r_runId x) s) (runs s)"
  have q: "run (reconcileWorkflowRuns stringify ops) t = run (quarantineRuns ops) t" for t :: dispatcher
    using run_reconcile [OF assms(1)] assms(2) by simp
  have x: "x = Inr (map reconciled rows)" and s': "s' = s\<lparr>dead_letters := dead_letters s @ map (reconcile_letter ops) rows\<rparr>"
    using run by (simp_all add: q run_quarantineRuns rows_def Let_def)
  have parked: "quarantined (r_tenantId a) (r_runId a) s'" if "a \<in> set (runs s)" "selected ops a" for a
  proof (cases "quarantined (r_tenantId a) (r_runId a) s")
    case False
    then have "a \<in> set rows" using that by (simp add: rows_def)
    then show ?thesis using letter_unresolved [OF that(2)] by (auto simp: quarantined_def table_simps s')
  qed (auto simp: quarantined_def table_simps s')
  have "fst (run (reconcileWorkflowRuns stringify ops) s') = Inr []"
    using parked by (auto simp: q run_quarantineRuns Let_def s' filter_empty_conv)
  moreover have "run (dispatchMessage D jobName queueName m d) s' = (Inr Dispatch_completed, s')"
    if a: "a \<in> set (runs s)" "selected ops a" and "dp_lookup D = createRunLookup" "m_tenantId m = r_tenantId a"
      "readRunId m = Some (r_runId a)" "r_runId a \<noteq> []" for a D m jobName queueName d
  proof -
    have "find (\<lambda>x. run_key x = run_key a) (runs s) = Some a" using keys a by (intro find_unique_key) auto
    then have "find (\<lambda>x. r_tenantId x = m_tenantId m \<and> r_runId x = r_runId a) (runs s') = Some a"
      using that by (simp add: run_key_def s')
    then have "unroutable D m s'" using unroutable_lookup [of D m "r_runId a" s'] that parked [OF a] by simp
    then show ?thesis by (rule dispatch_dropped)
  qed
  ultimately show ?thesis using x s' parked unfolding rows_def [symmetric] Let_def by (auto simp: sweepable_def)
qed

end
