(* ===== verification/Reads.thy ===== *)
theory Reads
  imports Keys Log_Invariant Paging
begin

text \<open>
  The read side of \<open>src/storage.ts\<close>: runs, events, hooks and steps, and the event list with the
  snapshot a fenced writer goes by. A result is the row with the JSON columns as fallbacks
  (\<open>parseErrorJson\<close> answers \<open>null\<close>, so the error column has none); the schema that \<open>@workflow/world\<close> parses it with is a parameter of the operation. A cursor that is the
  empty string counts as none, as the code's \<open>map\<close> helper has it.
\<close>

section \<open>Pages\<close>

datatype sort_order = Asc | Desc

record 'r page =
  pg_data :: "'r list"
  pg_cursor :: "string option"
  pg_hasMore :: bool

definition given :: "string option \<Rightarrow> string option" where
  "given c = (if c = Some [] then None else c)"

definition past_cursor :: "sort_order \<Rightarrow> string option \<Rightarrow> string \<Rightarrow> bool" where
  "past_cursor order cursor i = (case given cursor of None \<Rightarrow> True
     | Some c \<Rightarrow> (case order of Asc \<Rightarrow> c < i | Desc \<Rightarrow> i < c))"

definition ordered :: "sort_order \<Rightarrow> ('r \<Rightarrow> string) \<Rightarrow> 'r list \<Rightarrow> 'r list" where
  "ordered order key rows = (case order of Asc \<Rightarrow> sort_key key rows | Desc \<Rightarrow> rev (sort_key key rows))"

text \<open>\<open>SELECT ... ORDER BY key LIMIT limit + 1\<close> and what the code makes of it.\<close>

definition select_page :: "sort_order \<Rightarrow> ('r \<Rightarrow> string) \<Rightarrow> ('r \<Rightarrow> bool) \<Rightarrow> nat \<Rightarrow> string option \<Rightarrow> 'r list \<Rightarrow> 'r page" where
  "select_page order key P limit cursor rows =
     (let all = take (limit + 1) (ordered order key (filter (\<lambda>r. P r \<and> past_cursor order cursor (key r)) rows));
          vals = take limit all
      in \<lparr>pg_data = vals, pg_cursor = (if vals = [] then None else Some (key (last vals))), pg_hasMore = limit < length all\<rparr>)"

fun mapE :: "('a \<Rightarrow> 'e + 'b) \<Rightarrow> 'a list \<Rightarrow> 'e + 'b list" where
  "mapE f [] = Inr []"
| "mapE f (x # xs) = bindE (f x) (\<lambda>y. bindE (mapE f xs) (\<lambda>ys. Inr (y # ys)))"

definition returnE :: "'e + 'a \<Rightarrow> ('s, 'e, 'a) prog" where
  "returnE x = (case x of Inl e \<Rightarrow> Throw e | Inr a \<Rightarrow> Ret a)"

lemma run_returnE [run_simps]: "run (returnE x) s = (x, s)"
  by (simp add: returnE_def split: sum.split)

definition present_page :: "('r \<Rightarrow> error + 'v) \<Rightarrow> 'r page \<Rightarrow> error + 'v page" where
  "present_page present p = bindE (mapE present (pg_data p)) (\<lambda>vs.
     Inr \<lparr>pg_data = vs, pg_cursor = pg_cursor p, pg_hasMore = pg_hasMore p\<rparr>)"

definition or_else :: "'a option \<Rightarrow> 'a option \<Rightarrow> 'a option" where
  "or_else a b = (case a of None \<Rightarrow> b | Some x \<Rightarrow> Some x)"

section \<open>Runs\<close>

type_synonym run_schema = "run_row \<Rightarrow> error + run_row"

definition filterRunData :: "resolve_data \<Rightarrow> run_row \<Rightarrow> run_row" where
  "filterRunData rd x = (if rd = Resolve_none then x\<lparr>r_input := None, r_output := None\<rparr> else x)"

definition present_run :: "run_schema \<Rightarrow> resolve_data \<Rightarrow> run_row \<Rightarrow> error + run_row" where
  "present_run parse rd x = bindE (parse (x\<lparr>r_output := or_else (r_output x) (r_outputJson x),
       r_input := or_else (r_input x) (r_inputJson x),
       r_executionContext := or_else (r_executionContext x) (r_executionContextJson x)\<rparr>))
     (\<lambda>v. Inr (filterRunData rd v))"

definition runs_get :: "run_schema \<Rightarrow> ctx \<Rightarrow> run_id \<Rightarrow> resolve_data \<Rightarrow> run_row io" where
  "runs_get parse c i rd = bindP (query (\<lambda>s. find (\<lambda>x. r_tenantId x = tenantId c \<and> r_runId x = i) (runs s))) (\<lambda>found.
     case found of None \<Rightarrow> Throw (WorkflowRunNotFoundError i) | Some x \<Rightarrow> returnE (present_run parse rd x))"

definition runs_getMany :: "run_schema \<Rightarrow> ctx \<Rightarrow> run_id list \<Rightarrow> resolve_data \<Rightarrow> run_row option list io" where
  "runs_getMany parse c ids rd =
     (let uniqueIds = fold (\<lambda>i u. if i \<in> set u then u else u @ [i]) ids [] in
      if uniqueIds = [] then Ret []
      else bindP (query (\<lambda>s. filter (\<lambda>x. r_tenantId x = tenantId c \<and> r_runId x \<in> set uniqueIds) (runs s))) (\<lambda>vals.
        returnE (bindE (mapE (\<lambda>x. bindE (present_run parse rd x) (\<lambda>v. Inr (r_runId x, v))) vals) (\<lambda>kvs.
          let runsById = fold (\<lambda>(k, v) m. m(k \<mapsto> v)) kvs Map.empty in Inr (map runsById ids)))))"

datatype status_filter = Any_status | Is_status run_status | In_statuses "run_status list"

record runs_query =
  rq_limit :: "nat option"
  rq_cursor :: "string option"
  rq_workflowName :: "string option"
  rq_status :: status_filter

fun status_matches :: "status_filter \<Rightarrow> run_status \<Rightarrow> bool" where
  "status_matches Any_status x = True"
| "status_matches (Is_status y) x = (x = y)"
| "status_matches (In_statuses ys) x = (x \<in> set ys)"

definition runs_match :: "ctx \<Rightarrow> runs_query \<Rightarrow> run_row \<Rightarrow> bool" where
  "runs_match c q x \<longleftrightarrow> r_tenantId x = tenantId c \<and>
     (case given (rq_workflowName q) of None \<Rightarrow> True | Some w \<Rightarrow> r_workflowName x = w) \<and>
     status_matches (rq_status q) (r_status x)"

definition limit_or :: "nat \<Rightarrow> nat option \<Rightarrow> nat" where
  "limit_or n l = (case l of None \<Rightarrow> n | Some m \<Rightarrow> m)"

definition runs_list :: "run_schema \<Rightarrow> ctx \<Rightarrow> runs_query \<Rightarrow> resolve_data \<Rightarrow> ('s st_scheme, error, run_row page) prog" where
  "runs_list parse c q rd = bindP (query (\<lambda>s. select_page Desc r_runId (runs_match c q) (limit_or 20 (rq_limit q)) (rq_cursor q) (runs s)))
     (\<lambda>p. returnE (present_page (present_run parse rd) p))"

section \<open>Events\<close>

type_synonym event_schema = "event_row \<Rightarrow> error + event_row"

definition read_event :: "event_schema \<Rightarrow> ctx \<Rightarrow> resolve_data \<Rightarrow> event_row \<Rightarrow> error + event_row" where
  "read_event parse c rd e = bindE (parse (e\<lparr>e_eventData := or_else (e_eventData e) (e_eventDataJson e)\<rparr>))
     (\<lambda>v. Inr (stripEventDataRefs (sdk c) v rd))"

definition events_get :: "event_schema \<Rightarrow> ctx \<Rightarrow> run_id \<Rightarrow> event_id \<Rightarrow> resolve_data \<Rightarrow> event_row io" where
  "events_get parse c r i rd = bindP (query (\<lambda>s. find (\<lambda>e. of_run (tenantId c) r e \<and> e_eventId e = i) (events s))) (\<lambda>found.
     case found of None \<Rightarrow> Throw PlainError | Some e \<Rightarrow> returnE (read_event parse c rd e))"

record list_params =
  lp_limit :: "nat option"
  lp_cursor :: "string option"
  lp_sortOrder :: "sort_order option"

definition order_of :: "list_params \<Rightarrow> sort_order" where
  "order_of lp = (case lp_sortOrder lp of None \<Rightarrow> Asc | Some x \<Rightarrow> x)"

definition events_page :: "ctx \<Rightarrow> run_id \<Rightarrow> list_params \<Rightarrow> st \<Rightarrow> event_row page" where
  "events_page c r lp s = select_page (order_of lp) e_eventId (of_run (tenantId c) r) (limit_or 100 (lp_limit lp)) (lp_cursor lp) (events s)"

definition events_list :: "event_schema \<Rightarrow> ctx \<Rightarrow> run_id \<Rightarrow> list_params \<Rightarrow> resolve_data \<Rightarrow> event_row page io" where
  "events_list parse c r lp rd = bindP (query (events_page c r lp)) (\<lambda>p. returnE (present_page (read_event parse c rd) p))"

definition events_listByCorrelationId :: "event_schema \<Rightarrow> ctx \<Rightarrow> run_id \<Rightarrow> string \<Rightarrow> list_params \<Rightarrow> resolve_data \<Rightarrow> event_row page io" where
  "events_listByCorrelationId parse c r cid lp rd =
     bindP (query (\<lambda>s. select_page (order_of lp) e_eventId (\<lambda>e. of_run (tenantId c) r e \<and> e_correlationId e = Some cid)
       (limit_or 100 (lp_limit lp)) (lp_cursor lp) (events s)))
     (\<lambda>p. returnE (present_page (read_event parse c rd) p))"

section \<open>Hooks and steps\<close>

type_synonym hook_schema = "hook_row \<Rightarrow> error + hook_row"

definition filterHookData :: "resolve_data \<Rightarrow> hook_row \<Rightarrow> hook_row" where
  "filterHookData rd h = (if rd = Resolve_none then h\<lparr>h_metadata := None\<rparr> else h)"

definition parse_hook :: "hook_schema \<Rightarrow> hook_row \<Rightarrow> error + hook_row" where
  "parse_hook parse h = parse (h\<lparr>h_metadata := or_else (h_metadata h) (h_metadataJson h)\<rparr>)"

definition present_hook :: "hook_schema \<Rightarrow> resolve_data \<Rightarrow> hook_row \<Rightarrow> error + hook_row" where
  "present_hook parse rd h = bindE (parse_hook parse h) (\<lambda>v.
     Inr (filterHookData rd (v\<lparr>h_isWebhook := or_else (h_isWebhook v) (Some True)\<rparr>)))"

definition hooks_get :: "hook_schema \<Rightarrow> ctx \<Rightarrow> string \<Rightarrow> resolve_data \<Rightarrow> hook_row io" where
  "hooks_get parse c i rd = bindP (query (\<lambda>s. find (\<lambda>h. h_tenantId h = tenantId c \<and> h_hookId h = i \<and> available c s h) (hooks s))) (\<lambda>found.
     case found of None \<Rightarrow> Throw (HookNotFoundError i) | Some h \<Rightarrow> returnE (present_hook parse rd h))"

definition hooks_getByToken :: "hook_schema \<Rightarrow> ctx \<Rightarrow> string \<Rightarrow> resolve_data \<Rightarrow> hook_row io" where
  "hooks_getByToken parse c token rd = bindP (query (\<lambda>s. find (\<lambda>h. h_tenantId h = tenantId c \<and> hookTokenEquals c token h \<and> available c s h) (hooks s)))
     (\<lambda>found. case found of None \<Rightarrow> Throw (HookNotFoundError token) | Some h \<Rightarrow> returnE (present_hook parse rd h))"

definition hooks_list :: "hook_schema \<Rightarrow> ctx \<Rightarrow> run_id option \<Rightarrow> list_params \<Rightarrow> resolve_data \<Rightarrow> hook_row page io" where
  "hooks_list parse c r lp rd = bindP (query (\<lambda>s. select_page (order_of lp) h_hookId
       (\<lambda>h. h_tenantId h = tenantId c \<and> available c s h \<and> (case given r of None \<Rightarrow> True | Some i \<Rightarrow> h_runId h = i))
       (limit_or 100 (lp_limit lp)) (lp_cursor lp) (hooks s)))
     (\<lambda>p. returnE (present_page (\<lambda>h. bindE (parse_hook parse h) (\<lambda>v. Inr (filterHookData rd v))) p))"

type_synonym step_schema = "step_row \<Rightarrow> error + step_row"

definition filterStepData :: "resolve_data \<Rightarrow> step_row \<Rightarrow> step_row" where
  "filterStepData rd x = (if rd = Resolve_none then x\<lparr>s_input := None, s_output := None\<rparr> else x)"

definition present_step :: "step_schema \<Rightarrow> resolve_data \<Rightarrow> step_row \<Rightarrow> error + step_row" where
  "present_step parse rd x = bindE (parse (x\<lparr>s_output := or_else (s_output x) (s_outputJson x),
       s_input := or_else (s_input x) (s_inputJson x)\<rparr>)) (\<lambda>v. Inr (filterStepData rd v))"

definition steps_get :: "step_schema \<Rightarrow> ctx \<Rightarrow> run_id \<Rightarrow> string \<Rightarrow> resolve_data \<Rightarrow> step_row io" where
  "steps_get parse c r i rd = bindP (query (\<lambda>s. find (\<lambda>x. s_tenantId x = tenantId c \<and> s_runId x = r \<and> s_stepId x = i) (steps s))) (\<lambda>found.
     case found of None \<Rightarrow> Throw PlainError | Some x \<Rightarrow> returnE (present_step parse rd x))"

definition steps_list :: "step_schema \<Rightarrow> ctx \<Rightarrow> run_id \<Rightarrow> list_params \<Rightarrow> resolve_data \<Rightarrow> step_row page io" where
  "steps_list parse c r lp rd = bindP (query (\<lambda>s. select_page Desc s_stepId (\<lambda>x. s_tenantId x = tenantId c \<and> s_runId x = r)
       (limit_or 20 (lp_limit lp)) (lp_cursor lp) (steps s)))
     (\<lambda>p. returnE (present_page (present_step parse rd) p))"

section \<open>The event list with its snapshot\<close>

record snapshot =
  sn_seq :: nat
  sn_seqInBand :: int

text \<open>The highest slot and the in-band count, read in one statement; a body that is no number is
  PostgreSQL's cast error.\<close>

definition readEventLogSnapshot :: "ctx \<Rightarrow> run_id \<Rightarrow> st \<Rightarrow> error + snapshot option" where
  "readEventLogSnapshot c r s =
     (case find (\<lambda>q. sl_tenantId q = tenantId c \<and> sl_runId q = r) (eventSlots s) of
        None \<Rightarrow> Inr None
      | Some q \<Rightarrow>
         (let prefix = EVENT_ID_PREFIX (sdk c);
              ids = filter (\<lambda>i. take (length prefix) i = prefix) (run_ids (tenantId c) r s) in
          case max_list ids of
            None \<Rightarrow> Inr (Some \<lparr>sn_seq = 0, sn_seqInBand = sl_seqInBand q\<rparr>)
          | Some m \<Rightarrow> (case undec (drop (length prefix) m) of
               None \<Rightarrow> Inl (PgError ''22P02'' [])
             | Some n \<Rightarrow> Inr (Some \<lparr>sn_seq = n, sn_seqInBand = sl_seqInBand q\<rparr>))))"

definition read_snapshot :: "ctx \<Rightarrow> run_id \<Rightarrow> snapshot option io" where
  "read_snapshot c r = bindP (query (readEventLogSnapshot c r)) returnE"

definition snapshot_list :: "event_schema \<Rightarrow> ctx \<Rightarrow> run_id \<Rightarrow> list_params \<Rightarrow> resolve_data \<Rightarrow>
    (event_row page \<times> snapshot option) io" where
  "snapshot_list parse c r lp rd =
     bindP (read_snapshot c r) (\<lambda>snap.
     bindP (events_list parse c r lp rd) (\<lambda>p.
     if snap = None \<and> list_ex (\<lambda>e. eventIdToSlot (sdk c) (e_eventId e) \<noteq> None) (pg_data p)
     then bindP (read_snapshot c r) (\<lambda>snap'.
       if snap' \<noteq> None then bindP (events_list parse c r lp rd) (\<lambda>p'. Ret (p', snap')) else Ret (p, None))
     else Ret (p, snap)))"

section \<open>Batched and single reads\<close>

lemma mapE_total: "(\<And>x. x \<in> set xs \<Longrightarrow> f x = Inr (g x)) \<Longrightarrow> mapE f xs = Inr (map g xs)"
  by (induction xs) auto

lemma unique_ids: "set (fold (\<lambda>i u. if i \<in> set u then u else u @ [i]) ids acc) = set acc \<union> set ids"
proof (induction ids arbitrary: acc)
  case (Cons i ids)
  show ?case by (simp add: Cons.IH insert_absorb)
qed simp

lemma unique_ids_empty: "fold (\<lambda>i u. if i \<in> set u then u else u @ [i]) ids [] = [] \<longleftrightarrow> ids = []"
  unfolding set_empty [symmetric] unique_ids by simp

lemma rows_by_id:
  assumes "distinct (map key rows)"
  shows "fold (\<lambda>(k, v) m. m(k \<mapsto> v)) (map (\<lambda>x. (key x, g x)) rows) m i =
     (case find (\<lambda>x. key x = i) rows of Some x \<Rightarrow> Some (g x) | None \<Rightarrow> m i)"
  using assms
proof (induction rows arbitrary: m)
  case (Cons x rows)
  from Cons.prems have "find (\<lambda>y. key y = key x) rows = None" by (auto simp: find_None_iff image_iff)
  with Cons show ?case by (auto split: option.split)
qed simp

text \<open>
  Reading runs in a batch gives, for every id in the order asked and however often it is
  asked for, exactly what reading it alone gives, and \<open>null\<close> where the single read reports that
  the run does not exist.
\<close>

theorem getMany_reads_each:
  assumes keys: "distinct (map run_key (runs s))" and parse: "\<forall>x. \<exists>v. parse x = Inr v"
  shows "run (runs_getMany parse c ids rd) s =
    (Inr (map (\<lambda>i. case fst (run (runs_get parse c i rd) s) of Inr v \<Rightarrow> Some v | Inl e \<Rightarrow> None) ids), s) \<and>
    (\<forall>i. (\<exists>e. fst (run (runs_get parse c i rd) s) = Inl e) \<longleftrightarrow>
      fst (run (runs_get parse c i rd) s) = Inl (WorkflowRunNotFoundError i))"
proof -
  have "\<exists>v. present_run parse rd x = Inr v" for x using parse by (force simp: present_run_def)
  then obtain g where g: "present_run parse rd x = Inr (g x)" for x by metis
  let ?row = "\<lambda>i. find (\<lambda>x. r_tenantId x = tenantId c \<and> r_runId x = i) (runs s)"
  have get: "fst (run (runs_get parse c i rd) s) =
      (case ?row i of None \<Rightarrow> Inl (WorkflowRunNotFoundError i) | Some x \<Rightarrow> Inr (g x))" for i
    by (simp add: runs_get_def run_simps g split: option.split)
  let ?sel = "\<lambda>x. r_tenantId x = tenantId c \<and> r_runId x \<in> set ids"
  have "distinct (map r_runId (filter ?sel (runs s)))"
    using keys by (auto simp: distinct_map inj_on_def run_key_def)
  note by_id = rows_by_id [OF this, of g Map.empty]
  have found: "find (\<lambda>x. r_runId x = i) (filter ?sel xs) = find (\<lambda>x. r_tenantId x = tenantId c \<and> r_runId x = i) xs"
    if "i \<in> set ids" for i xs using that by (induction xs) auto
  have rows: "map (fold (\<lambda>(k, v) m. m(k \<mapsto> v)) (map (\<lambda>x. (r_runId x, g x)) (filter ?sel (runs s))) Map.empty) ids =
      map (\<lambda>i. case ?row i of Some x \<Rightarrow> Some (g x) | None \<Rightarrow> None) ids"
    by (intro map_cong refl) (simp only: by_id found)
  have many: "run (runs_getMany parse c ids rd) s =
      (Inr (map (fold (\<lambda>(k, v) m. m(k \<mapsto> v)) (map (\<lambda>x. (r_runId x, g x)) (filter ?sel (runs s))) Map.empty) ids), s)"
    by (simp add: runs_getMany_def Let_def unique_ids unique_ids_empty run_simps g mapE_total [where g = "\<lambda>x. (r_runId x, g x)"])
  show ?thesis unfolding many get rows by (auto split: option.split)
qed

section \<open>Following the cursors\<close>

lemma filter_after:
  assumes "sorted_wrt lt (map key xs)" and "\<And>a b. lt a b \<Longrightarrow> \<not> lt b a" and "0 < k" and "k \<le> length xs"
  shows "filter (\<lambda>r. lt (key (xs ! (k - 1))) (key r)) xs = drop k xs"
proof -
  let ?P = "\<lambda>r. lt (key (xs ! (k - 1))) (key r)"
  have le: "\<not> ?P (xs ! i)" if "i < k" for i
  proof (cases "i = k - 1")
    case False
    then have "lt (key (xs ! i)) (key (xs ! (k - 1)))"
      using assms(1,4) that by (auto simp: sorted_wrt_iff_nth_less)
    then show ?thesis by (rule assms(2))
  qed (use assms(2) in blast)
  have gt: "?P (xs ! i)" if "k \<le> i" "i < length xs" for i
    using assms(1,3) that by (auto simp: sorted_wrt_iff_nth_less)
  have "filter ?P (take k xs) = []" using le assms(4) by (auto simp: filter_empty_conv in_set_conv_nth)
  moreover have "filter ?P (drop k xs) = drop k xs"
    using gt assms(4) by (auto simp: filter_id_conv in_set_conv_nth)
  ultimately show ?thesis by (metis append_take_drop_id filter_append self_append_conv2)
qed

definition before :: "sort_order \<Rightarrow> string \<Rightarrow> string \<Rightarrow> bool" where
  "before order a b = (case order of Asc \<Rightarrow> a < b | Desc \<Rightarrow> b < a)"

lemma ordered_filter: "ordered order key (filter P xs) = filter P (ordered order key xs)"
  by (cases order) (simp_all add: ordered_def filter_sort rev_filter [symmetric])

lemma set_ordered [simp]: "set (ordered order key xs) = set xs"
  by (cases order) (simp_all add: ordered_def)

lemma length_ordered [simp]: "length (ordered order key xs) = length xs"
  by (cases order) (simp_all add: ordered_def)

lemma ordered_strict:
  assumes "distinct (map key xs)"
  shows "sorted_wrt (before order) (map key (ordered order key xs))"
proof -
  have "distinct (map key (sort_key key xs))" using assms by (auto simp: distinct_map)
  then have "sorted_wrt (<) (map key (sort_key key xs))" by (simp add: strict_sorted_iff)
  moreover have "before Asc = (<)" "before Desc = (\<lambda>a b. b < a)" by (simp_all add: fun_eq_iff before_def)
  ultimately show ?thesis by (cases order) (simp_all add: ordered_def rev_map [symmetric] sorted_wrt_rev)
qed

text \<open>What a client sees of a page: the rows, and the cursor to go on with when there are more.\<close>

definition next_of :: "'r page \<Rightarrow> 'r list \<times> string option" where
  "next_of p = (pg_data p, if pg_hasMore p then pg_cursor p else None)"

type_synonym 'r listing = "sort_order \<times> ('r \<Rightarrow> string) \<times> ('r \<Rightarrow> bool) \<times> nat \<times> 'r list"

definition listing_page :: "'r listing \<Rightarrow> string option \<Rightarrow> 'r list \<times> string option" where
  "listing_page = (\<lambda>(order, key, P, limit, rows) cursor. next_of (select_page order key P limit cursor rows))"

definition listing_rows :: "'r listing \<Rightarrow> 'r list" where
  "listing_rows = (\<lambda>(order, key, P, limit, rows). ordered order key (filter P rows))"

definition listing_ok :: "'r listing \<Rightarrow> bool" where
  "listing_ok = (\<lambda>(order, key, P, limit, rows). 0 < limit \<and> distinct (map key (filter P rows)) \<and>
     [] \<notin> key ` set (filter P rows))"

definition listing_at :: "'r listing \<Rightarrow> nat \<Rightarrow> string option" where
  "listing_at l k = (if k = 0 then None else case l of (order, key, P, limit, rows) \<Rightarrow> Some (key (listing_rows l ! (k - 1))))"

lemma next_of_select:
  "next_of (select_page order key P limit cursor rows) =
     (let ys = ordered order key (filter (\<lambda>r. P r \<and> past_cursor order cursor (key r)) rows)
      in (take limit ys, if limit < length ys then if limit = 0 then None else Some (key (last (take limit ys))) else None))"
  by (auto simp: select_page_def next_of_def Let_def min_def simp del: length_ordered)

lemma listing_page_at:
  assumes ok: "listing_ok l" and k: "k \<le> length (listing_rows l)" and l: "l = (order, key, P, limit, rows)"
  shows "listing_page l (listing_at l k) = (take limit (drop k (listing_rows l)),
     if k + limit < length (listing_rows l) then listing_at l (k + limit) else None)"
proof -
  let ?xs = "listing_rows l"
  have xs: "?xs = ordered order key (filter P rows)" by (simp add: listing_rows_def l)
  have limit: "0 < limit" using ok by (simp add: listing_ok_def l)
  have strict: "sorted_wrt (before order) (map key ?xs)"
    unfolding xs using ok by (intro ordered_strict) (simp add: listing_ok_def l)
  have nonempty: "key (?xs ! i) \<noteq> []" if "i < length ?xs" for i
  proof -
    have "?xs ! i \<in> set (filter P rows)" using nth_mem [OF that] unfolding xs by simp
    then show ?thesis using ok by (force simp: listing_ok_def l)
  qed
  have "past_cursor order (listing_at l k) i \<longleftrightarrow> k = 0 \<or> before order (key (?xs ! (k - 1))) i" for i
    using nonempty [of "k - 1"] k
    by (cases order) (auto simp: past_cursor_def listing_at_def given_def before_def l split: option.split)
  then have "ordered order key (filter (\<lambda>r. P r \<and> past_cursor order (listing_at l k) (key r)) rows) =
      filter (\<lambda>r. k = 0 \<or> before order (key (?xs ! (k - 1))) (key r)) ?xs"
    by (simp add: xs ordered_filter filter_filter conj_commute)
  also have "\<dots> = drop k ?xs"
  proof (cases "k = 0")
    case False
    have asym: "before order a b \<Longrightarrow> \<not> before order b a" for a b by (auto simp: before_def split: sort_order.splits)
    show ?thesis using filter_after [OF strict asym _ k] False by simp
  qed simp
  finally have rows: "ordered order key (filter (\<lambda>r. P r \<and> past_cursor order (listing_at l k) (key r)) rows) = drop k ?xs" .
  have last: "last (take limit (drop k ?xs)) = ?xs ! (k + limit - 1)" if "k + limit < length ?xs"
    using that limit by (subst last_conv_nth) (auto simp: min_def)
  have "listing_at l (k + limit) = Some (key (?xs ! (k + limit - 1)))" using limit by (simp add: listing_at_def l)
  moreover have "listing_page l (listing_at l k) =
      (take limit (drop k ?xs), if limit < length (drop k ?xs) then Some (key (last (take limit (drop k ?xs)))) else None)"
    using limit next_of_select [of order key P limit "listing_at l k" rows, unfolded rows]
    by (simp add: listing_page_def l Let_def)
  ultimately show ?thesis using limit last by (simp add: less_diff_conv add.commute)
qed


interpretation listings: paged listing_ok listing_page listing_rows listing_at "\<lambda>(order, key, P, limit, rows). limit"
proof (unfold_locales, goal_cases)
  case (4 l k)
  obtain order key P limit rows where "l = (order, key, P, limit, rows)" by (cases l)
  then show ?case using listing_page_at [OF 4] by simp
qed (auto simp: listing_ok_def listing_at_def split: prod.splits)

lemma read_pages_map:
  assumes "\<And>c. page' c = map_prod (map f) id (page c)"
  shows "read_pages page' n c = map_option (map f) (read_pages page n c)"
proof (induction n arbitrary: c)
  case (Suc n)
  obtain xs d where "page c = (xs, d)" by fastforce
  then show ?case by (cases d) (simp_all add: assms [of c] Suc option.map_comp comp_def)
qed simp

text \<open>What a client sees of a call that answers with a page.\<close>

definition client_page :: "(string option \<Rightarrow> ('s, error, 'v page) prog) \<Rightarrow> 's \<Rightarrow> string option \<Rightarrow> 'v list \<times> string option" where
  "client_page list_at s cursor = (case fst (run (list_at cursor) s) of Inr p \<Rightarrow> next_of p | Inl e \<Rightarrow> ([], None))"

lemma client_reads_all:
  assumes list: "\<And>cursor. run (list_at cursor) s =
      (present_page present (select_page order key P limit cursor rows), s)"
    and present: "\<And>x. present x = Inr (f x)"
    and ok: "0 < limit" "distinct (map key (filter P rows))" "[] \<notin> key ` set (filter P rows)"
  shows "read_pages (client_page list_at s) (Suc (length (filter P rows) div limit)) None =
     Some (map f (ordered order key (filter P rows)))"
proof -
  let ?l = "(order, key, P, limit, rows)"
  have page: "client_page list_at s cursor = map_prod (map f) id (listing_page ?l cursor)" for cursor
    by (simp add: client_page_def list present_page_def listing_page_def next_of_def mapE_total [OF present])
  have "read_pages (listing_page ?l) (Suc (length (filter P rows) div limit)) None = Some (ordered order key (filter P rows))"
    using listings.read_all [of ?l] ok by (simp add: listing_ok_def listing_rows_def del: read_pages.simps)
  then show ?thesis unfolding read_pages_map [OF page] by simp
qed

text \<open>
  A client that follows the cursors reads every row of the listing exactly once and in order,
  whatever the page size, and stops: the events of a run (oldest or newest first) and the tenant's
  runs that match a filter (newest first). The ids are the keys of their tables; the rows may not
  change meanwhile.
\<close>

theorem listings_complete:
  assumes events: "distinct (map e_eventId (filter (of_run (tenantId c) r) (events s)))"
      "[] \<notin> e_eventId ` set (events s)"
    and runs: "distinct (map run_key (runs s))" "[] \<notin> r_runId ` set (runs s)"
    and event: "\<And>e. parse_event e = Inr (f e)" and run: "\<And>x. parse_run x = Inr (g x)"
    and limit: "0 < n"
  shows "read_pages (client_page (\<lambda>cursor. events_list parse_event c r \<lparr>lp_limit = Some n, lp_cursor = cursor, lp_sortOrder = order\<rparr> rd) s)
      (Suc (length (filter (of_run (tenantId c) r) (events s)) div n)) None =
     Some (map (\<lambda>e. stripEventDataRefs (sdk c) (f (e\<lparr>e_eventData := or_else (e_eventData e) (e_eventDataJson e)\<rparr>)) rd)
       (ordered (case order of None \<Rightarrow> Asc | Some x \<Rightarrow> x) e_eventId (filter (of_run (tenantId c) r) (events s)))) \<and>
    read_pages (client_page (\<lambda>cursor. runs_list parse_run c (q\<lparr>rq_limit := Some n, rq_cursor := cursor\<rparr>) rd) s)
      (Suc (length (filter (runs_match c q) (runs s)) div n)) None =
     Some (map (\<lambda>x. filterRunData rd (g (x\<lparr>r_output := or_else (r_output x) (r_outputJson x),
         r_input := or_else (r_input x) (r_inputJson x),
         r_executionContext := or_else (r_executionContext x) (r_executionContextJson x)\<rparr>)))
       (rev (sort_key r_runId (filter (runs_match c q) (runs s)))))"
proof (rule conjI)
  show "read_pages (client_page (\<lambda>cursor. events_list parse_event c r \<lparr>lp_limit = Some n, lp_cursor = cursor, lp_sortOrder = order\<rparr> rd) s)
      (Suc (length (filter (of_run (tenantId c) r) (events s)) div n)) None =
     Some (map (\<lambda>e. stripEventDataRefs (sdk c) (f (e\<lparr>e_eventData := or_else (e_eventData e) (e_eventDataJson e)\<rparr>)) rd)
       (ordered (case order of None \<Rightarrow> Asc | Some x \<Rightarrow> x) e_eventId (filter (of_run (tenantId c) r) (events s))))"
    by (rule client_reads_all [where present = "read_event parse_event c rd"])
      (use events limit in \<open>auto simp: events_list_def events_page_def run_simps order_of_def limit_or_def read_event_def event\<close>)
  have match: "runs_match c (q\<lparr>rq_limit := l, rq_cursor := cur\<rparr>) = runs_match c q" for l cur
    by (simp add: fun_eq_iff runs_match_def)
  have "distinct (map r_runId (filter (runs_match c q) (runs s)))"
    using runs(1) by (auto simp: distinct_map inj_on_def run_key_def runs_match_def)
  then have "read_pages (client_page (\<lambda>cursor. runs_list parse_run c (q\<lparr>rq_limit := Some n, rq_cursor := cursor\<rparr>) rd) s)
      (Suc (length (filter (runs_match c q) (runs s)) div n)) None =
     Some (map (\<lambda>x. filterRunData rd (g (x\<lparr>r_output := or_else (r_output x) (r_outputJson x),
         r_input := or_else (r_input x) (r_inputJson x),
         r_executionContext := or_else (r_executionContext x) (r_executionContextJson x)\<rparr>)))
       (ordered Desc r_runId (filter (runs_match c q) (runs s))))"
    using runs(2) limit
    by (intro client_reads_all [where present = "present_run parse_run rd"])
      (auto simp: runs_list_def run_simps match limit_or_def present_run_def run)
  then show "read_pages (client_page (\<lambda>cursor. runs_list parse_run c (q\<lparr>rq_limit := Some n, rq_cursor := cursor\<rparr>) rd) s)
      (Suc (length (filter (runs_match c q) (runs s)) div n)) None =
     Some (map (\<lambda>x. filterRunData rd (g (x\<lparr>r_output := or_else (r_output x) (r_outputJson x),
         r_input := or_else (r_input x) (r_inputJson x),
         r_executionContext := or_else (r_executionContext x) (r_executionContextJson x)\<rparr>)))
       (rev (sort_key r_runId (filter (runs_match c q) (runs s)))))"
    by (simp add: ordered_def del: read_pages.simps)
qed

section \<open>Among concurrent writers\<close>

text \<open>A program executed while its environment moves the state along \<open>R\<close> before each of its statements.\<close>

inductive exec_env :: "('s \<Rightarrow> 's \<Rightarrow> bool) \<Rightarrow> ('s, 'e, 'a) prog \<Rightarrow> 's \<Rightarrow> 'e + 'a \<Rightarrow> 's \<Rightarrow> bool" for R where
  env_ret: "exec_env R (Ret a) s (Inr a) s"
| env_throw: "exec_env R (Throw e) s (Inl e) s"
| env_atomic: "R s t \<Longrightarrow> f t = (p, u) \<Longrightarrow> exec_env R p u x v \<Longrightarrow> exec_env R (Atomic f) s x v"

inductive_simps env_Ret [simp]: "exec_env R (Ret a) s x v"
inductive_simps env_Throw [simp]: "exec_env R (Throw e) s x v"
inductive_simps env_Atomic: "exec_env R (Atomic f) s x v"

lemma env_bind_query:
  "exec_env R (bindP (query f) k) s x v \<longleftrightarrow> (\<exists>t. R s t \<and> exec_env R (k (f t)) t x v)"
  by (auto simp: query_def env_Atomic)

lemma env_returnE [simp]: "exec_env R (bindP (returnE y) k) s x v \<longleftrightarrow>
    (case y of Inl e \<Rightarrow> x = Inl e \<and> v = s | Inr a \<Rightarrow> exec_env R (k a) s x v)"
  by (auto simp: returnE_def split: sum.split)

lemma env_returned [simp]: "exec_env R (returnE y) s x v \<longleftrightarrow> x = y \<and> v = s"
  by (auto simp: returnE_def split: sum.split)

text \<open>What the writers of events do, as \<open>log_pool\<close> shows of any number of \<open>create\<close> calls.\<close>

definition writers :: "world_sdk \<Rightarrow> st \<Rightarrow> st \<Rightarrow> bool" where
  "writers W s t \<longleftrightarrow> grows s t \<and> log_inv W t"

lemma env_read_snapshot:
  "exec_env R (bindP (read_snapshot c r) k) s x v \<longleftrightarrow> (\<exists>t. R s t \<and>
     (case readEventLogSnapshot c r t of Inl e \<Rightarrow> x = Inl e \<and> v = t | Inr snap \<Rightarrow> exec_env R (k snap) t x v))"
  by (simp add: read_snapshot_def bindP_assoc env_bind_query)

lemma env_events_list:
  "exec_env R (bindP (events_list parse c r lp rd) k) s x v \<longleftrightarrow> (\<exists>t. R s t \<and>
     (case present_page (read_event parse c rd) (events_page c r lp t) of Inl e \<Rightarrow> x = Inl e \<and> v = t
      | Inr p \<Rightarrow> exec_env R (k p) t x v))"
  by (simp add: events_list_def bindP_assoc env_bind_query)

lemma no_snapshot: "readEventLogSnapshot c r s = Inr None \<longleftrightarrow> \<not> slotted (tenantId c) r s"
proof -
  have "slotted (tenantId c) r s \<longleftrightarrow> find (\<lambda>q. sl_tenantId q = tenantId c \<and> sl_runId q = r) (eventSlots s) \<noteq> None"
    by (auto simp: slotted_def has_row_def list_ex_iff find_None_iff)
  then show ?thesis by (auto simp: readEventLogSnapshot_def Let_def split: option.splits)
qed

lemma env_read_snapshotE:
  assumes "exec_env R (bindP (read_snapshot c r) k) s (Inr y) v"
  obtains t snap where "R s t" and "readEventLogSnapshot c r t = Inr snap" and "exec_env R (k snap) t (Inr y) v"
proof -
  from assms obtain t where "R s t" and t: "case readEventLogSnapshot c r t of
      Inl e \<Rightarrow> Inr y = Inl e \<and> v = t | Inr snap \<Rightarrow> exec_env R (k snap) t (Inr y) v"
    unfolding env_read_snapshot by blast
  then show thesis by (cases "readEventLogSnapshot c r t") (auto intro: that)
qed

lemma env_events_listE:
  assumes "exec_env R (bindP (events_list parse c r lp rd) k) s (Inr y) v"
  obtains t p where "R s t" and "present_page (read_event parse c rd) (events_page c r lp t) = Inr p"
    and "exec_env R (k p) t (Inr y) v"
proof -
  from assms obtain t where "R s t" and t: "case present_page (read_event parse c rd) (events_page c r lp t) of
      Inl e \<Rightarrow> Inr y = Inl e \<and> v = t | Inr p \<Rightarrow> exec_env R (k p) t (Inr y) v"
    unfolding env_events_list by blast
  then show thesis
    by (cases "present_page (read_event parse c rd) (events_page c r lp t)") (auto intro: that)
qed

text \<open>The states the answer was read in: the snapshot's first, then the page's, or the other way round.\<close>

lemma snapshot_list_cases:
  assumes "exec_env R (snapshot_list parse c r lp rd) s (Inr (p, snap)) v"
  obtains (listed) t0 t u where "R\<^sup>*\<^sup>* s t0" and "R t0 t" and "R t u" and "readEventLogSnapshot c r t = Inr snap"
      and "present_page (read_event parse c rd) (events_page c r lp u) = Inr p"
      and "snap = None \<longrightarrow> \<not> list_ex (\<lambda>e. eventIdToSlot (sdk c) (e_eventId e) \<noteq> None) (pg_data p)"
  | (unnumbered) t u w where "R s t" and "R t u" and "R u w" and "snap = None" and "readEventLogSnapshot c r w = Inr None"
      and "present_page (read_event parse c rd) (events_page c r lp u) = Inr p"
proof -
  let ?numbered = "\<lambda>p. list_ex (\<lambda>e. eventIdToSlot (sdk c) (e_eventId e) \<noteq> None) (pg_data p)"
  let ?rest = "\<lambda>snap1 p1. if snap1 = None \<and> ?numbered p1
       then bindP (read_snapshot c r) (\<lambda>snap'.
         if snap' \<noteq> None then bindP (events_list parse c r lp rd) (\<lambda>p'. Ret (p', snap')) else Ret (p1, None))
       else Ret (p1, snap1)"
  have "exec_env R (bindP (read_snapshot c r) (\<lambda>snap1. bindP (events_list parse c r lp rd) (?rest snap1)))
      s (Inr (p, snap)) v"
    using assms by (simp only: snapshot_list_def)
  then obtain t snap1 where t: "R s t" "readEventLogSnapshot c r t = Inr snap1"
    and page: "exec_env R (bindP (events_list parse c r lp rd) (?rest snap1)) t (Inr (p, snap)) v"
    by (rule env_read_snapshotE)
  from page obtain u p1 where u: "R t u" "present_page (read_event parse c rd) (events_page c r lp u) = Inr p1"
    and rest: "exec_env R (?rest snap1 p1) u (Inr (p, snap)) v"
    by (rule env_events_listE)
  show thesis
  proof (cases "snap1 = None \<and> ?numbered p1")
    case False
    with rest t u show ?thesis by (intro listed [of s t u]) auto
  next
    case True
    with rest obtain w snap' where w: "R u w" "readEventLogSnapshot c r w = Inr snap'"
      and last: "exec_env R (if snap' \<noteq> None then bindP (events_list parse c r lp rd) (\<lambda>p'. Ret (p', snap'))
        else Ret (p1, None)) w (Inr (p, snap)) v"
      by (auto elim: env_read_snapshotE)
    show ?thesis
    proof (cases "snap' = None")
      case True
      with last w t u show ?thesis by (intro unnumbered [of t u w]) auto
    next
      case False
      have "R\<^sup>*\<^sup>* s u" using t(1) u(1) by (meson r_into_rtranclp rtranclp_trans)
      moreover obtain u' p' where "R w u'" "present_page (read_event parse c rd) (events_page c r lp u') = Inr p'"
        and "exec_env R (Ret (p', snap')) u' (Inr (p, snap)) v"
        using last False by (auto elim: env_events_listE)
      ultimately show ?thesis using False w by (intro listed [of u w u']) auto
    qed
  qed
qed

lemma mapE_ids: "mapE f xs = Inr ys \<Longrightarrow> (\<And>x y. f x = Inr y \<Longrightarrow> key y = key x) \<Longrightarrow> map key ys = map key xs"
  by (induction xs arbitrary: ys) auto

lemma page_ids:
  assumes "present_page (read_event parse c rd) q = Inr p"
    and "\<And>e v. read_event parse c rd e = Inr v \<Longrightarrow> e_eventId v = e_eventId e"
  shows "map e_eventId (pg_data p) = map e_eventId (pg_data q)" and "pg_hasMore p = pg_hasMore q"
proof -
  obtain vs where vs: "mapE (read_event parse c rd) (pg_data q) = Inr vs" 
      and p: "p = \<lparr>pg_data = vs, pg_cursor = pg_cursor q, pg_hasMore = pg_hasMore q\<rparr>"
    using assms(1) by (cases "mapE (read_event parse c rd) (pg_data q)") (auto simp: present_page_def)
  show "map e_eventId (pg_data p) = map e_eventId (pg_data q)" using mapE_ids [OF vs assms(2)] p by simp
  show "pg_hasMore p = pg_hasMore q" by (simp add: p)
qed

lemma whole_page:
  "\<not> pg_hasMore (select_page order key P limit cursor rows) \<Longrightarrow>
     set (pg_data (select_page order key P limit cursor rows)) = {r \<in> set rows. P r \<and> past_cursor order cursor (key r)}"
  by (auto simp: select_page_def Let_def not_less)

text \<open>
  C26. The list that feeds a fenced writer never pairs a newer count with an older listing. Among
  writers that append events, the snapshot it answers with was taken no later than its page was
  read: a page with nothing left behind it holds every event the run had when the snapshot was
  taken, past the cursor. An answer without a snapshot holds no slot-numbered event.
\<close>

theorem snapshot_not_ahead_of_page:
  assumes list: "exec_env (writers (sdk c)) (snapshot_list parse c r lp rd) s (Inr (p, snap)) v"
    and ids: "\<And>e v. read_event parse c rd e = Inr v \<Longrightarrow> e_eventId v = e_eventId e"
    and legacy: "\<And>u. eventIdToSlot (sdk c) (''wevt_'' @ u) = None"
  shows "case snap of
      Some n \<Rightarrow> \<exists>t. (writers (sdk c))\<^sup>+\<^sup>+ s t \<and> readEventLogSnapshot c r t = Inr (Some n) \<and> (\<not> pg_hasMore p \<longrightarrow>
        {e_eventId e | e. e \<in> set (events t) \<and> of_run (tenantId c) r e \<and> past_cursor (order_of lp) (lp_cursor lp) (e_eventId e)}
          \<subseteq> set (map e_eventId (pg_data p)))
    | None \<Rightarrow> \<forall>e \<in> set (pg_data p). eventIdToSlot (sdk c) (e_eventId e) = None"
  using list
proof (cases rule: snapshot_list_cases)
  case (listed t0 t u)
  have page: "set (map e_eventId (pg_data p)) = e_eventId ` set (pg_data (events_page c r lp u))"
      "pg_hasMore p = pg_hasMore (events_page c r lp u)"
    using page_ids [OF listed(5) ids] by simp_all
  have "set (events t) \<subseteq> set (events u)" using listed(3) by (auto simp: writers_def grows_def)
  moreover have "(writers (sdk c))\<^sup>+\<^sup>+ s t" using listed(1,2) by (meson rtranclp_into_tranclp1)
  ultimately show ?thesis using listed(4,6) unfolding page
    by (auto simp: events_page_def whole_page list_ex_iff split: option.split)
next
  case (unnumbered t u w)
  have "\<not> slotted (tenantId c) r w" using unnumbered(5) by (simp add: no_snapshot)
  then have legacy_ids: "\<forall>i \<in> set (run_ids (tenantId c) r w). legacy_id i"
    using unnumbered(3) by (auto simp: writers_def log_inv_def)
  have "e_eventId e \<in> set (run_ids (tenantId c) r w)" if "e \<in> set (pg_data p)" for e
  proof -
    have "e_eventId e \<in> e_eventId ` set (pg_data (events_page c r lp u))"
      using page_ids(1) [OF unnumbered(6) ids] that by (metis image_eqI image_set)
    then have "e_eventId e \<in> set (run_ids (tenantId c) r u)"
      by (auto simp: events_page_def select_page_def Let_def run_ids_def dest!: in_set_takeD)
    then show ?thesis using unnumbered(3) by (auto simp: writers_def grows_def run_ids_def)
  qed
  then show ?thesis using legacy_ids legacy unnumbered(4) by (auto simp: legacy_id_def dest!: bspec)
qed

end
