(* ===== verification/Recovery.thy ===== *)
theory Recovery
  imports Reads Queue
begin

text \<open>
  What an embedded World does when it starts: \<open>reenqueueTenantRuns\<close> of \<open>src/recovery.ts\<close>, over
  \<open>storage.runs.list\<close> and \<open>queue.queue\<close>, and \<open>start\<close> of \<open>src/index.ts\<close>, which calls it. The loop over
  the pages has fuel, and \<open>None\<close> is a loop that has not ended; the theorem shows that one page more
  than the runs fill is enough. Log lines are left out.
\<close>

definition bare_invoke :: "run_id \<Rightarrow> json" where
  "bare_invoke r = JObject [(''runId'', JString r)]"

text \<open>The counters are the calls made, which number the fresh message ids, and the runs enqueued.\<close>

fun reenqueue_runs :: "(nat \<Rightarrow> string \<Rightarrow> json \<Rightarrow> ('s, error, string) prog) \<Rightarrow> string \<Rightarrow> run_row list \<Rightarrow> nat \<times> nat \<Rightarrow>
    ('s, error, nat \<times> nat) prog" where
  "reenqueue_runs enqueue prefix [] acc = Ret acc"
| "reenqueue_runs enqueue prefix (x # xs) (k, reenqueued) =
     bindP (catchP (bindP (enqueue k (prefix @ r_workflowName x) (bare_invoke (r_runId x))) (\<lambda>_. Ret (reenqueued + 1)))
       (\<lambda>e. Ret reenqueued)) (\<lambda>n. reenqueue_runs enqueue prefix xs (Suc k, n))"

fun reenqueue_pages :: "(runs_query \<Rightarrow> resolve_data \<Rightarrow> ('s, error, run_row page) prog) \<Rightarrow>
    (nat \<Rightarrow> string \<Rightarrow> json \<Rightarrow> ('s, error, string) prog) \<Rightarrow> string \<Rightarrow> run_status \<Rightarrow> nat \<Rightarrow> string option \<Rightarrow> nat \<times> nat \<Rightarrow>
    ('s, error, (nat \<times> nat) option) prog" where
  "reenqueue_pages list enqueue prefix status 0 cursor acc = Ret None"
| "reenqueue_pages list enqueue prefix status (Suc fuel) cursor acc =
     bindP (list \<lparr>rq_limit = None, rq_cursor = cursor, rq_workflowName = None, rq_status = Is_status status\<rparr> Resolve_none) (\<lambda>page.
     bindP (reenqueue_runs enqueue prefix (pg_data page) acc) (\<lambda>acc'.
     if pg_hasMore page then reenqueue_pages list enqueue prefix status fuel (pg_cursor page) acc' else Ret (Some acc')))"

definition reenqueueTenantRuns :: "'a queue_sdk_scheme \<Rightarrow> (runs_query \<Rightarrow> resolve_data \<Rightarrow> ('s, error, run_row page) prog) \<Rightarrow>
    (nat \<Rightarrow> string \<Rightarrow> json \<Rightarrow> ('s, error, string) prog) \<Rightarrow> nat \<Rightarrow> ('s, error, nat option) prog" where
  "reenqueueTenantRuns W list enqueue fuel =
     bindP (returnE (getQueueTopicPrefix W None)) (\<lambda>workflowQueuePrefix.
     bindP (reenqueue_pages list enqueue workflowQueuePrefix Run_pending fuel None (0, 0)) (\<lambda>pending.
     case pending of None \<Rightarrow> Ret None
     | Some acc \<Rightarrow> bindP (reenqueue_pages list enqueue workflowQueuePrefix Run_running fuel None acc) (\<lambda>running.
         Ret (map_option snd running))))"

definition no_options :: send_options where
  "no_options = \<lparr>so_idempotencyKey = None, so_headers = None, so_delaySeconds = None, so_deploymentId = None\<rparr>"

definition world_start :: "'a queue_sdk_scheme \<Rightarrow> (job_request \<Rightarrow> bool) \<Rightarrow> timestamp \<Rightarrow> queue_config \<Rightarrow> (nat \<Rightarrow> string) \<Rightarrow> run_schema \<Rightarrow>
    ctx \<Rightarrow> nat \<Rightarrow> ('s host_scheme, error, unit) prog \<Rightarrow> ('s host_scheme, error, unit option) prog" where
  "world_start W accepts t cfg ulid parse c fuel queue_start =
     bindP queue_start (\<lambda>_.
     if \<not> qc_embedded cfg then Ret (Some ())
     else bindP (reenqueueTenantRuns W (runs_list parse c)
       (\<lambda>k name message. queue_send W accepts True t cfg (ulid k) name message no_options) fuel) (\<lambda>reenqueued.
       Ret (map_option (\<lambda>_. ()) reenqueued)))"

section \<open>One page after the other\<close>

definition any_with :: "run_status \<Rightarrow> runs_query" where
  "any_with status = \<lparr>rq_limit = None, rq_cursor = None, rq_workflowName = None, rq_status = Is_status status\<rparr>"

definition status_listing :: "ctx \<Rightarrow> run_status \<Rightarrow> 's st_scheme \<Rightarrow> run_row listing" where
  "status_listing c status s = (Desc, r_runId, runs_match c (any_with status), 20, runs s)"

text \<open>The tenant's runs of a status, newest first.\<close>

definition with_status :: "ctx \<Rightarrow> run_status \<Rightarrow> 's st_scheme \<Rightarrow> run_row list" where
  "with_status c status s = rev (sort_key r_runId (filter (\<lambda>x. r_tenantId x = tenantId c \<and> r_status x = status) (runs s)))"

lemma listing_rows_status: "listing_rows (status_listing c status s) = with_status c status s"
proof -
  have "runs_match c (any_with status) = (\<lambda>x. r_tenantId x = tenantId c \<and> r_status x = status)"
    by (simp add: fun_eq_iff runs_match_def any_with_def given_def)
  then show ?thesis by (simp add: listing_rows_def status_listing_def with_status_def ordered_def)
qed

lemma next_more: "0 < limit \<Longrightarrow> pg_hasMore (select_page order key P limit cursor rows) \<longleftrightarrow>
    snd (next_of (select_page order key P limit cursor rows)) \<noteq> None"
  by (auto simp: next_of_def select_page_def Let_def simp del: length_ordered)

lemma status_page:
  assumes "listing_ok (status_listing c status s)" and "k \<le> length (with_status c status s)"
  defines "p \<equiv> select_page Desc r_runId (runs_match c (any_with status)) 20 (listing_at (status_listing c status s) k) (runs s)"
  shows "pg_data p = take 20 (drop k (with_status c status s))"
    and "pg_hasMore p \<longleftrightarrow> k + 20 < length (with_status c status s)"
    and "pg_hasMore p \<Longrightarrow> pg_cursor p = listing_at (status_listing c status s) (k + 20)"
proof -
  have page: "next_of p = (take 20 (drop k (with_status c status s)),
      if k + 20 < length (with_status c status s) then listing_at (status_listing c status s) (k + 20) else None)"
    using listing_page_at [OF assms(1) _ status_listing_def, unfolded listing_rows_status, OF assms(2)]
    by (simp add: p_def listing_page_def status_listing_def)
  then show "pg_data p = take 20 (drop k (with_status c status s))" by (simp add: next_of_def)
  have "listing_at (status_listing c status s) (k + 20) \<noteq> None" by (simp add: listing_at_def status_listing_def)
  with page show more: "pg_hasMore p \<longleftrightarrow> k + 20 < length (with_status c status s)"
    unfolding p_def next_more [OF zero_less_numeral] by simp
  show "pg_hasMore p \<Longrightarrow> pg_cursor p = listing_at (status_listing c status s) (k + 20)"
    using page more by (simp add: next_of_def)
qed

lemma status_listing_added [simp]:
  "status_listing c status (s\<lparr>added := a\<rparr>) = status_listing c status s"
  "with_status c status (s\<lparr>added := a\<rparr>) = with_status c status s"
  by (simp_all add: status_listing_def with_status_def)

definition sent :: "(job_request \<Rightarrow> bool) \<Rightarrow> (nat \<Rightarrow> run_row \<Rightarrow> job_request) \<Rightarrow> nat \<Rightarrow> run_row list \<Rightarrow> job_request list" where
  "sent accepts job k xs = filter accepts (map (\<lambda>(i, x). job i x) (enumerate k xs))"

lemma sent_Cons: "sent accepts job k (x # xs) = (if accepts (job k x) then [job k x] else []) @ sent accepts job (Suc k) xs"
  by (simp add: sent_def)

lemma sent_append: "sent accepts job k (xs @ ys) = sent accepts job k xs @ sent accepts job (k + length xs) ys"
  by (simp add: sent_def enumerate_append_eq)

text \<open>The contract of the sender: it appends the job of the call when graphile takes it, and fails otherwise.\<close>

locale sender =
  fixes ok :: bool and send :: "nat \<Rightarrow> string \<Rightarrow> json \<Rightarrow> ('s host_scheme, error, string) prog"
    and job :: "nat \<Rightarrow> run_row \<Rightarrow> job_request" and accepts :: "job_request \<Rightarrow> bool" and prefix :: string
  assumes send_adds: "ok \<Longrightarrow> accepts (job k x) \<Longrightarrow> \<exists>i. run (send k (prefix @ r_workflowName x) (bare_invoke (r_runId x))) s =
      (Inr i, s\<lparr>added := added s @ [job k x]\<rparr>)"
    and send_fails: "ok \<Longrightarrow> \<not> accepts (job k x) \<Longrightarrow> \<exists>e. run (send k (prefix @ r_workflowName x) (bare_invoke (r_runId x))) s = (Inl e, s)"
    and job_of: "r_runId x = r_runId y \<Longrightarrow> r_workflowName x = r_workflowName y \<Longrightarrow> job k x = job k y"
begin

lemma run_resends:
  "ok \<Longrightarrow> run (reenqueue_runs send prefix xs (k, n)) s =
     (Inr (k + length xs, n + length (sent accepts job k xs)), s\<lparr>added := added s @ sent accepts job k xs\<rparr>)"
proof (induction xs arbitrary: k n s)
  case Nil
  show ?case by (simp add: sent_def)
next
  case (Cons x xs)
  show ?case
  proof (cases "accepts (job k x)")
    case True
    then obtain i where "run (send k (prefix @ r_workflowName x) (bare_invoke (r_runId x))) s =
        (Inr i, s\<lparr>added := added s @ [job k x]\<rparr>)" using send_adds Cons.prems by blast
    with True Cons show ?thesis by (simp add: run_simps sent_Cons)
  next
    case False
    then obtain e where "run (send k (prefix @ r_workflowName x) (bare_invoke (r_runId x))) s = (Inl e, s)"
      using send_fails Cons.prems by blast
    with False Cons show ?thesis by (simp add: run_simps sent_Cons)
  qed
qed

lemma sent_shown:
  assumes "\<And>x. r_runId (g x) = r_runId x" and "\<And>x. r_workflowName (g x) = r_workflowName x"
  shows "sent accepts job k (map g xs) = sent accepts job k xs"
proof (induction xs arbitrary: k)
  case (Cons x xs)
  have "job k (g x) = job k x" by (rule job_of) (simp_all add: assms)
  with Cons show ?case by (simp add: sent_Cons)
qed (simp add: sent_def)

lemma run_pages:
  assumes shown: "\<And>x. present_run parse Resolve_none x = Inr (g x)"
    and ids: "\<And>x. r_runId (g x) = r_runId x" "\<And>x. r_workflowName (g x) = r_workflowName x" and ok
  shows "listing_ok (status_listing c status s) \<Longrightarrow> k \<le> length (with_status c status s) \<Longrightarrow>
     length (with_status c status s) < k + fuel * 20 \<Longrightarrow>
     run (reenqueue_pages (runs_list parse c) send prefix status fuel (listing_at (status_listing c status s) k) (i, n)) s =
       (Inr (Some (i + length (drop k (with_status c status s)), n + length (sent accepts job i (drop k (with_status c status s))))),
        s\<lparr>added := added s @ sent accepts job i (drop k (with_status c status s))\<rparr>)"
proof (induction fuel arbitrary: k i n s)
  case (Suc fuel)
  let ?l = "status_listing c status s" and ?rows = "with_status c status s"
  let ?p = "select_page Desc r_runId (runs_match c (any_with status)) 20 (listing_at ?l k) (runs s)"
  note page = status_page [OF Suc.prems(1,2)]
  have match: "runs_match c \<lparr>rq_limit = None, rq_cursor = cursor, rq_workflowName = None, rq_status = Is_status status\<rparr> =
      runs_match c (any_with status)" for cursor
    by (simp add: fun_eq_iff runs_match_def any_with_def)
  have list: "run (runs_list parse c \<lparr>rq_limit = None, rq_cursor = listing_at ?l k, rq_workflowName = None,
      rq_status = Is_status status\<rparr> Resolve_none) s =
      (Inr \<lparr>pg_data = map g (pg_data ?p), pg_cursor = pg_cursor ?p, pg_hasMore = pg_hasMore ?p\<rparr>, s)"
    by (simp add: runs_list_def run_simps match limit_or_def present_page_def mapE_total [OF shown])
  let ?now = "take 20 (drop k ?rows)" and ?t = "s\<lparr>added := added s @ sent accepts job i (take 20 (drop k ?rows))\<rparr>"
  have step: "run (reenqueue_pages (runs_list parse c) send prefix status (Suc fuel) (listing_at ?l k) (i, n)) s =
      run (if pg_hasMore ?p then reenqueue_pages (runs_list parse c) send prefix status fuel (pg_cursor ?p)
            (i + length ?now, n + length (sent accepts job i ?now)) else Ret (Some (i + length ?now, n + length (sent accepts job i ?now)))) ?t"
    by (simp add: run_simps list run_resends [OF \<open>ok\<close>] sent_shown [OF ids] page(1))
  show ?case
  proof (cases "k + 20 < length ?rows")
    case True
    then have "run (reenqueue_pages (runs_list parse c) send prefix status fuel (listing_at ?l (k + 20))
        (i + length ?now, n + length (sent accepts job i ?now))) ?t =
      (Inr (Some (i + length ?now + length (drop (k + 20) ?rows), n + length (sent accepts job i ?now) + length (sent accepts job (i + length ?now) (drop (k + 20) ?rows)))),
       ?t\<lparr>added := added ?t @ sent accepts job (i + length ?now) (drop (k + 20) ?rows)\<rparr>)"
      using Suc.prems Suc.IH [of ?t "k + 20" "i + length ?now" "n + length (sent accepts job i ?now)"] by simp
    moreover have rows: "drop k ?rows = ?now @ drop (k + 20) ?rows" by (metis append_take_drop_id drop_drop add.commute)
    then have "sent accepts job i (drop k ?rows) = sent accepts job i ?now @ sent accepts job (i + length ?now) (drop (k + 20) ?rows)"
      by (metis sent_append)
    moreover have "length (drop k ?rows) = length ?now + length (drop (k + 20) ?rows)" using rows by (metis length_append)
    ultimately show ?thesis using True page unfolding step by (simp add: ac_simps)
  next
    case False
    then have "?now = drop k ?rows" by simp
    with False page show ?thesis unfolding step by simp
  qed
qed simp

end

section \<open>The World's start\<close>

text \<open>
  What the start relies on in \<open>@workflow/world\<close>: a queue name made of the default prefix and a
  workflow name parses back to the workflow name, and parsing a bare invocation adds no hook input
  to it.
\<close>

definition bare_laws :: "'a queue_sdk_scheme \<Rightarrow> string \<Rightarrow> bool" where
  "bare_laws W prefix \<longleftrightarrow> message_laws W \<and> 0 < SPEC_VERSION_SINGLE_ORCHESTRATOR W \<and>
     getQueueTopicPrefix W None = Inr prefix \<and> (\<forall>w. parseQueueName W (prefix @ w) = Inr w) \<and>
     (\<forall>r v. WorkflowInvokePayload_safeParse W (Some (bare_invoke r)) = Some v \<longrightarrow>
        field ''hookInput'' (Some v) = None \<and> field ''hookResumeTiming'' (Some v) = None)"

definition recovered_job :: "'a queue_sdk_scheme \<Rightarrow> queue_config \<Rightarrow> (nat \<Rightarrow> string) \<Rightarrow> nat \<Rightarrow> run_row \<Rightarrow> job_request" where
  "recovered_job W cfg ulid k x = \<lparr>jr_identifier = getJobQueueName W cfg,
     jr_payload = encode_message \<lparr>m_attempt = 1, m_deliveryOffset = None, m_attemptOffset = None,
       m_messageId = ''msg_'' @ ulid k, m_idempotencyKey = None, m_headers = None, m_id = r_workflowName x,
       m_data = Some (bare_invoke (r_runId x)), m_tenantId = qc_tenantId cfg, m_deploymentId = qc_deploymentId cfg,
       m_queueNamespace = qc_queueNamespace cfg\<rparr>,
     jr_spec = \<lparr>js_jobKey = Some (''msg_'' @ ulid k), js_jobKeyMode = None, js_runAt = None,
       js_queueName = Some (runQueueName (qc_tenantId cfg) (r_runId x)),
       js_maxAttempts = MAX_GRAPHILE_JOB_ATTEMPTS, js_flags = Some [tenantFlag (qc_tenantId cfg)]\<rparr>\<rparr>"

lemma run_send_bare:
  assumes "bare_laws W prefix"
  shows "run (queue_send W accepts True t cfg (ulid k) (prefix @ r_workflowName x) (bare_invoke (r_runId x)) no_options) s =
     (if accepts (recovered_job W cfg ulid k x)
      then (Inr (''msg_'' @ ulid k), s\<lparr>added := added s @ [recovered_job W cfg ulid k x]\<rparr>) else (Inl PlainError, s))"
proof -
  let ?body = "Some (bare_invoke (r_runId x))"
  have "messageRunSpecVersion W ?body = None"
    using assms by (simp add: bare_laws_def message_laws_def bare_invoke_def)
  then have single: "\<not> isSingleOrchestratorRunMessage W ?body"
    using assms by (simp add: isSingleOrchestratorRunMessage_def bare_laws_def)
  have queue: "runQueueFor W (qc_tenantId cfg) ?body = Some (runQueueName (qc_tenantId cfg) (r_runId x))"
    using single by (simp add: runQueueFor_def bodyRunId_def bare_invoke_def)
  have place: "run (placeInvoke W cfg (bare_invoke (r_runId x)) (''msg_'' @ ulid k) no_options) s =
      (Inr \<lparr>pl_jobKey = ''msg_'' @ ulid k, pl_jobKeyMode = None,
         pl_runQueue = Some (runQueueName (qc_tenantId cfg) (r_runId x)), pl_bypassingWake = False\<rparr>, s)"
  proof (cases "WorkflowInvokePayload_safeParse W ?body")
    case None
    then show ?thesis by (simp add: placeInvoke_def no_options_def queue jobKeyModeFor_def)
  next
    case (Some v)
    then have "\<not> mayBypassRunQueue W v"
      using assms by (simp add: bare_laws_def mayBypassRunQueue_def isHookWake_def)
    with Some show ?thesis
      by (auto simp: placeInvoke_def no_options_def queue jobKeyModeFor_def bypassesRunQueue_def Let_def
          split: option.split json.split)
  qed
  have "runQueueName (qc_tenantId cfg) (r_runId x) \<noteq> []" by (simp add: runQueueName_def)
  with place assms show ?thesis
    by (simp add: queue_send_def run_simps bare_laws_def addGraphileJob_def no_options_def Let_def holdsAsTimer_def
        job_message_def recovered_job_def isExactDeploymentId_def positive_offset_def)
qed

interpretation bare: sender "bare_laws W prefix"
  "\<lambda>k name message. queue_send W accepts True t cfg (ulid k) name message no_options"
  "recovered_job W cfg ulid" accepts prefix for W accepts t cfg ulid prefix
  by unfold_locales (auto simp: run_send_bare recovered_job_def)

text \<open>
  C31. An embedded World that starts enqueues every pending and then every running run of its
  tenant exactly once, newest first, however many pages they fill: a bare invocation on the run's
  own queue. What graphile refuses is passed over, the start returns all the same, and nothing else
  changes. In external mode the start enqueues nothing.
\<close>

theorem start_recovers_tenant:
  assumes laws: "bare_laws W prefix"
    and parse: "\<And>x. parse x = Inr (f x)" "\<And>x. r_runId (f x) = r_runId x" "\<And>x. r_workflowName (f x) = r_workflowName x"
    and keys: "distinct (map run_key (runs s))" "[] \<notin> r_runId ` set (runs s)"
    and queue_start: "run queue_start s0 = (Inr (), s)" and fuel: "length (runs s) div 20 < fuel"
  shows "run (world_start W accepts t cfg ulid parse c fuel queue_start) s0 =
    (Inr (Some ()), s\<lparr>added := added s @
       (if qc_embedded cfg then filter accepts (map (\<lambda>(k, x). recovered_job W cfg ulid k x)
          (enumerate 0 (with_status c Run_pending s @ with_status c Run_running s))) else [])\<rparr>)"
proof (cases "qc_embedded cfg")
  case True
  let ?g = "\<lambda>x. filterRunData Resolve_none (f (x\<lparr>r_output := or_else (r_output x) (r_outputJson x),
       r_input := or_else (r_input x) (r_inputJson x),
       r_executionContext := or_else (r_executionContext x) (r_executionContextJson x)\<rparr>))"
  let ?pend = "with_status c Run_pending s" and ?run = "with_status c Run_running s"
  have shown: "present_run parse Resolve_none x = Inr (?g x)" for x by (simp add: present_run_def parse)
  have ids: "r_runId (?g x) = r_runId x" "r_workflowName (?g x) = r_workflowName x" for x
    by (simp_all add: filterRunData_def parse)
  have ok: "listing_ok (status_listing c status s)" for status
    using keys by (auto simp: listing_ok_def status_listing_def runs_match_def run_key_def distinct_map inj_on_def)
  have "length (with_status c status s) \<le> length (runs s)" for status by (simp add: with_status_def)
  then have fits: "length (with_status c status s) < fuel * 20" for status
    using fuel by (metis div_less_iff_less_mult le_less_trans zero_less_numeral)
  have start: "listing_at (status_listing c status s) 0 = None" for status by (simp add: listing_at_def)
  note pages = bare.run_pages [OF shown ids laws, where k = 0, simplified]
  have first: "run (reenqueue_pages (runs_list parse c) (\<lambda>k name message. queue_send W accepts True t cfg (ulid k) name message no_options)
      prefix Run_pending fuel None (0, 0)) s =
      (Inr (Some (length ?pend, length (sent accepts (recovered_job W cfg ulid) 0 ?pend))),
       s\<lparr>added := added s @ sent accepts (recovered_job W cfg ulid) 0 ?pend\<rparr>)"
    using pages [OF ok fits, where i = 0 and n = 0] by (simp add: start)
  let ?s1 = "s\<lparr>added := added s @ sent accepts (recovered_job W cfg ulid) 0 ?pend\<rparr>"
  have second: "run (reenqueue_pages (runs_list parse c) (\<lambda>k name message. queue_send W accepts True t cfg (ulid k) name message no_options)
      prefix Run_running fuel None (length ?pend, n)) ?s1 =
      (Inr (Some (length ?pend + length ?run, n + length (sent accepts (recovered_job W cfg ulid) (length ?pend) ?run))),
       ?s1\<lparr>added := added ?s1 @ sent accepts (recovered_job W cfg ulid) (length ?pend) ?run\<rparr>)" for n
    using pages [of c Run_running ?s1 fuel] ok fits by (simp add: start)
  have prefix: "getQueueTopicPrefix W None = Inr prefix" using laws by (simp add: bare_laws_def)
  have "run (world_start W accepts t cfg ulid parse c fuel queue_start) s0 =
      (Inr (Some ()), ?s1\<lparr>added := added ?s1 @ sent accepts (recovered_job W cfg ulid) (length ?pend) ?run\<rparr>)"
    using True by (simp add: world_start_def reenqueueTenantRuns_def run_simps queue_start prefix first second del: append_assoc)
  then show ?thesis using True sent_append [of accepts "recovered_job W cfg ulid" 0 ?pend ?run] by (simp add: sent_def)
next
  case False
  then show ?thesis using queue_start by (simp add: world_start_def run_simps)
qed

end
