(* ===== verification/Addressing.thy ===== *)
theory Addressing
  imports Boot_Recovery Recovery
begin

text \<open>
  The form of every job the program hands to graphile, whichever component adds it: the World's
  queue, the embedded runner, the timer task, the dispatcher or the boot sweep. \<open>well_addressed\<close>
  is that form; \<open>host_program\<close> the programs that may run on the host's tables at the same time. The
  rules are those of \<open>state_order\<close>, interpreted on the list of calls, which only grows.
\<close>

section \<open>Well-addressed jobs\<close>

text \<open>
  A job either waits in the queue of the run its message names, or outside every queue: as a timer
  that records that queue and a due time, or as a hook wake that may pass the delivery holding it.
\<close>

definition hook_wake :: "'a queue_sdk_scheme \<Rightarrow> message \<Rightarrow> bool" where
  "hook_wake W m = (case WorkflowInvokePayload_safeParse W (m_data m) of
     None \<Rightarrow> False | Some v \<Rightarrow> mayBypassRunQueue W v)"

definition well_addressed :: "'a queue_sdk_scheme \<Rightarrow> job_request \<Rightarrow> bool" where
  "well_addressed W q = (js_maxAttempts (jr_spec q) = MAX_GRAPHILE_JOB_ATTEMPTS \<and> (case jr_payload q of
     None \<Rightarrow> False
   | Some (m, Some n) \<Rightarrow> runQueueOfMessage W m = Some n \<and> js_queueName (jr_spec q) = None \<and>
       js_flags (jr_spec q) = None \<and> js_runAt (jr_spec q) \<noteq> None
   | Some (m, None) \<Rightarrow>
       js_flags (jr_spec q) = Some [tenantFlag (m_tenantId m)] \<and> js_queueName (jr_spec q) = runQueueOfMessage W m \<or>
       js_flags (jr_spec q) = Some [wakeFlag (m_tenantId m)] \<and> js_queueName (jr_spec q) = None \<and> hook_wake W m))"

text \<open>What graphile hands back of such a job: its payload, or that payload moved to the timer task.\<close>

definition handed_back :: "'a queue_sdk_scheme \<Rightarrow> payload \<Rightarrow> bool" where
  "handed_back W p = (case p of Some (m, Some n) \<Rightarrow> runQueueOfMessage W m = Some n | _ \<Rightarrow> True)"

lemma handed_back_payload: "well_addressed W q \<Longrightarrow> handed_back W (jr_payload q)"
  by (auto simp: well_addressed_def handed_back_def split: option.splits)

lemma handed_back_moved:
  "well_addressed W q \<Longrightarrow> js_queueName (jr_spec q) = Some n \<Longrightarrow> handed_back W (timerPayload (jr_payload q) n)"
  by (auto simp: well_addressed_def handed_back_def timerPayload_def split: option.splits)

definition addressed :: "'a queue_sdk_scheme \<Rightarrow> 's host_scheme \<Rightarrow> bool" where
  "addressed W s = list_all (well_addressed W) (added s)"

definition calls_grow :: "'s host_scheme \<Rightarrow> 's host_scheme \<Rightarrow> bool" where
  "calls_grow s t \<longleftrightarrow> (\<exists>new. added t = added s @ new)"

interpretation addr: state_order "addressed W" calls_grow for W
  by unfold_locales (auto simp: calls_grow_def)

lemma keeps_unadded: "(\<And>s. added (f s) = added s) \<Longrightarrow> keeps (addressed W) calls_grow f"
  by (simp add: keeps_def addressed_def calls_grow_def)

lemma safe_exec_unadded: "(\<And>s. added (f s) = added s) \<Longrightarrow> safe (addressed W) calls_grow (exec f)"
  by (intro addr.safe_exec keeps_unadded)

lemma safe_stmt_unadded: "(\<And>s. added (snd (f s)) = added s) \<Longrightarrow> safe (addressed W) calls_grow (stmt f)"
  by (intro addr.safe_stmt keeps_unadded)

lemma safe_addJob:
  "well_addressed W \<lparr>jr_identifier = i, jr_payload = p, jr_spec = spec\<rparr> \<Longrightarrow>
     safe (addressed W) calls_grow (addJob accepts i p spec)"
  by (auto simp: addJob_def Let_def keeps_def addressed_def calls_grow_def intro!: addr.safe_exec)

lemma safe_finallyP:
  "safe I R p \<Longrightarrow> safe I R q \<Longrightarrow> safe I R (finallyP p q)"
  unfolding finallyP_def by (intro safe_intros)

section \<open>The World's queue\<close>

lemma queued_well_addressed:
  "js_queueName spec = runQueueOfMessage W m \<Longrightarrow> js_flags spec = Some [tenantFlag (m_tenantId m)] \<Longrightarrow>
     js_maxAttempts spec = MAX_GRAPHILE_JOB_ATTEMPTS \<Longrightarrow>
     well_addressed W \<lparr>jr_identifier = i, jr_payload = encode_message m, jr_spec = spec\<rparr>"
  by (simp add: well_addressed_def encode_message_def)

lemma timer_well_addressed:
  "runQueueOfMessage W m = Some n \<Longrightarrow> js_queueName spec = None \<Longrightarrow> js_flags spec = None \<Longrightarrow> js_runAt spec \<noteq> None \<Longrightarrow>
     js_maxAttempts spec = MAX_GRAPHILE_JOB_ATTEMPTS \<Longrightarrow>
     well_addressed W \<lparr>jr_identifier = i, jr_payload = timerPayload (encode_message m) n, jr_spec = spec\<rparr>"
  by (simp add: well_addressed_def encode_message_def timerPayload_def)

lemma wake_well_addressed:
  "js_queueName spec = None \<Longrightarrow> js_flags spec = Some [wakeFlag (m_tenantId m)] \<Longrightarrow> hook_wake W m \<Longrightarrow>
     js_maxAttempts spec = MAX_GRAPHILE_JOB_ATTEMPTS \<Longrightarrow>
     well_addressed W \<lparr>jr_identifier = i, jr_payload = encode_message m, jr_spec = spec\<rparr>"
  by (simp add: well_addressed_def encode_message_def)

lemma job_message_fields [simp]:
  "m_tenantId (job_message cfg g) = qc_tenantId cfg"
  "runQueueOfMessage W (job_message cfg g) = runQueueFor W (qc_tenantId cfg) (gj_body g)"
  by (simp_all add: job_message_def runQueueOfMessage_def readBody_def)

lemma safe_addGraphileJob:
  assumes "gj_runQueue g = runQueueFor W (qc_tenantId cfg) (gj_body g) \<and> \<not> gj_bypassingWake g \<or>
     gj_runQueue g = None \<and> gj_bypassingWake g \<and> hook_wake W (job_message cfg g)"
  shows "safe (addressed W) calls_grow (addGraphileJob W accepts utils t cfg g)"
proof (cases "gj_runQueue g")
  case None
  show ?thesis
  proof (cases "gj_bypassingWake g")
    case True
    with None assms show ?thesis unfolding addGraphileJob_def Let_def
      by (auto intro!: safe_intros safe_addJob wake_well_addressed)
  next
    case False
    with None assms show ?thesis unfolding addGraphileJob_def Let_def
      by (auto intro!: safe_intros safe_addJob queued_well_addressed)
  qed
next
  case (Some q)
  with assms have q: "runQueueFor W (qc_tenantId cfg) (gj_body g) = Some q" "\<not> gj_bypassingWake g" by auto
  then have "q \<noteq> []" by (metis runQueueFor_nonempty)
  then show ?thesis using Some q unfolding addGraphileJob_def Let_def
    by (auto intro!: safe_intros safe_addJob queued_well_addressed timer_well_addressed
        simp: holdsAsTimer_def TIMER_HORIZON_SECONDS_def split: option.splits)
qed

lemma placed_addressed:
  "rets (\<lambda>p. pl_runQueue p = runQueueFor W (qc_tenantId cfg) (Some message) \<and> \<not> pl_bypassingWake p \<or>
     pl_runQueue p = None \<and> pl_bypassingWake p \<and>
       (\<exists>v. WorkflowInvokePayload_safeParse W (Some message) = Some v \<and> mayBypassRunQueue W v))
   (placeInvoke W cfg message messageId opts)"
  by (auto simp: placeInvoke_def Let_def bypassesRunQueue_def query_def split: option.split json.split)

lemma safe_placeInvoke: "safe (addressed W) calls_grow (placeInvoke W cfg message messageId opts)"
  unfolding placeInvoke_def bypassesRunQueue_def
  by (auto simp: Let_def split: option.split json.split intro!: safe_intros addr.safe_query)

lemma safe_queue_send: "safe (addressed W) calls_grow (queue_send W accepts utils t cfg ulid queue message opts)"
  unfolding queue_send_def Let_def
  by (intro safe_intros safe_bindP_rets [OF safe_placeInvoke placed_addressed] safe_addGraphileJob)
    (auto simp: hook_wake_def job_message_def)

lemma safe_executeTask:
  "safe (addressed W) calls_grow (executeTask W number accepts fetch baseUrl utils t cfg prefix m d)"
  unfolding executeTask_def Let_def
  by (intro safe_intros) (auto split: http_result.split intro!: safe_intros safe_addGraphileJob)

section \<open>Timers and the dispatcher\<close>

lemma safe_addDelayedDelivery:
  "safe (addressed W) calls_grow (addDelayedDelivery W accepts t jobName m n key)"
proof (cases "runQueueOfMessage W m")
  case None
  then show ?thesis unfolding addDelayedDelivery_def Let_def
    by (auto intro!: safe_addJob queued_well_addressed)
next
  case (Some q)
  then have "q \<noteq> []" by (auto simp: runQueueOfMessage_def dest: runQueueFor_nonempty)
  with Some show ?thesis unfolding addDelayedDelivery_def Let_def
    by (auto intro!: safe_addJob queued_well_addressed timer_well_addressed)
qed

lemma safe_timer_handler:
  assumes "handed_back W p"
  shows "safe (addressed W) calls_grow (timer_handler W accepts flow p job)"
  using assms unfolding timer_handler_def Let_def
  by (auto simp: well_addressed_def handed_back_def encode_message_def timer_target_def parse_message_def
      intro!: safe_addJob split: option.splits sum.splits prod.splits if_splits)

lemma safe_after_post:
  "dp_sdk D = W \<Longrightarrow> safe (addressed W) calls_grow (after_post D jobName m d r result)"
  unfolding after_post_def reset_streak_def reenqueue_def Let_def
  by (auto split: vqs_result.split option.split prod.split intro!: safe_intros safe_addDelayedDelivery
      safe_exec_unadded safe_stmt_unadded)

lemma safe_dispatchMessage:
  "dp_sdk D = W \<Longrightarrow> safe (addressed W) calls_grow (dispatchMessage D jobName queueName m d)"
  unfolding dispatchMessage_def resolveAffinity_def leased_post_def Let_def
  by (auto split: affinity.split option.split sum.split activation_outcome.split
      intro!: safe_intros addr.safe_query safe_exec_unadded safe_finallyP safe_after_post)

lemma safe_makeHandler:
  "dp_sdk D = W \<Longrightarrow> safe (addressed W) calls_grow (makeHandler D jobName p j)"
  unfolding makeHandler_def dedup_run_def settle_outcome_def onDeadLetter_def Let_def
  by (auto split: option.split sum.split dispatch_outcome.split fairness_lane.split dedup_state.split
      simp: on_fairness_def dedup_enter_def
      intro!: safe_intros addr.safe_query safe_exec_unadded safe_stmt_unadded safe_finallyP safe_dispatchMessage)

section \<open>Sweeps\<close>

lemma safe_moveDelayedJobsToTimers:
  "safe (addressed W) calls_grow (moveDelayedJobsToTimers flow timer horizon)"
  unfolding moveDelayedJobsToTimers_def by (rule safe_stmt_unadded) (simp split: option.split)

lemma safe_reconcileWorkflowRuns:
  "safe (addressed W) calls_grow (reconcileWorkflowRuns stringify ops)"
  unfolding reconcileWorkflowRuns_def settleRuns_def quarantineRuns_def
  by (auto simp: update_selected_def fold_resolve delete_settled_hooks_def delete_settled_waits_def Let_def
      split: sum.split intro!: safe_intros addr.safe_txn addr.safe_query safe_exec_unadded safe_stmt_unadded)

text \<open>The queue a message of the boot sweep waits in is its run's: its body names no spec version.\<close>

lemma recovery_message_queue:
  assumes "message_laws W" and "0 < SPEC_VERSION_SINGLE_ORCHESTRATOR W"
  shows "runQueueOfMessage W (recovery_message x) = Some (runQueueName (rr_tenantId x) (rr_runId x))"
proof -
  have "messageRunSpecVersion W (Some (JObject [(''runId'', JString (rr_runId x))])) = None"
    using assms(1) by (simp add: message_laws_def)
  with assms(2) show ?thesis
    by (simp add: runQueueOfMessage_def runQueueFor_def isSingleOrchestratorRunMessage_def readBody_def
        recovery_message_def bodyRunId_def)
qed

lemma safe_recover:
  assumes "message_laws W" and "0 < SPEC_VERSION_SINGLE_ORCHESTRATOR W" and "unlock_laws forceUnlock"
  shows "safe (addressed W) calls_grow (recoverActiveRunsForAllTenants forceUnlock accepts t pacing filterRuns reclaim)"
proof -
  have "safe (addressed W) calls_grow (recover_run accepts t p waves x)" for p waves x
    unfolding recover_run_def
    by (intro safe_intros safe_addJob queued_well_addressed)
      (simp_all add: recovery_spec_def recovery_message_queue [OF assms(1,2)] Let_def, simp add: recovery_message_def)
  moreover have "keeps (addressed W) calls_grow (forceUnlock ids)" for ids
    using assms(3) by (intro keeps_unadded) (simp add: unlock_laws_def)
  ultimately show ?thesis
    unfolding recoverActiveRunsForAllTenants_def reclaim_workers_def Let_def
    by (auto split: sum.split intro!: safe_intros addr.safe_query)
qed

lemma safe_reenqueue_runs:
  "(\<And>k name message. safe I R (enqueue k name message)) \<Longrightarrow> safe I R (reenqueue_runs enqueue prefix xs acc)"
  by (induction xs arbitrary: acc) (auto intro!: safe_intros simp: split_paired_all)

lemma safe_reenqueue_pages:
  "(\<And>q rd. safe I R (list q rd)) \<Longrightarrow> (\<And>k name message. safe I R (enqueue k name message)) \<Longrightarrow>
     safe I R (reenqueue_pages list enqueue prefix status fuel cursor acc)"
  by (induction fuel arbitrary: cursor acc) (auto intro!: safe_intros safe_reenqueue_runs)

lemma safe_world_start:
  "safe (addressed W) calls_grow queue_start \<Longrightarrow>
     safe (addressed W) calls_grow (world_start W accepts t cfg ulid parse c fuel queue_start)"
  unfolding world_start_def reenqueueTenantRuns_def returnE_def runs_list_def
  by (auto intro!: safe_intros safe_reenqueue_pages safe_queue_send addr.safe_query split: sum.split option.split)

section \<open>Any number of them at once\<close>

definition void :: "('s, 'e, 'a) prog \<Rightarrow> ('s, 'e, unit) prog" where
  "void p = bindP p (\<lambda>_. Ret ())"

inductive host_program :: "queue_sdk \<Rightarrow> (dispatcher, error, unit) prog \<Rightarrow> bool" for W where
  sends: "host_program W (void (queue_send W accepts utils t cfg ulid queue message opts))"
| starts: "host_program W (void (world_start W accepts t cfg ulid parse c fuel (Ret ())))"
| executes: "host_program W (void (executeTask W number accepts fetch baseUrl utils t cfg prefix m d))"
| promotes: "handed_back W p \<Longrightarrow> host_program W (timer_handler W accepts flow p job)"
| delivers: "dp_sdk D = W \<Longrightarrow> host_program W (makeHandler D jobName p j)"
| sweeps: "host_program W (void (moveDelayedJobsToTimers flow timer horizon))"
| reconciles: "host_program W (void (reconcileWorkflowRuns stringify ops))"
| recovers_runs: "unlock_laws forceUnlock \<Longrightarrow>
    host_program W (void (recoverActiveRunsForAllTenants forceUnlock accepts t pacing filterRuns reclaim))"

lemma safe_void: "safe I R p \<Longrightarrow> safe I R (void p)"
  unfolding void_def by (intro safe_intros)

lemma host_program_safe:
  assumes "host_program W p" and "message_laws W" and "0 < SPEC_VERSION_SINGLE_ORCHESTRATOR W"
  shows "safe (addressed W) calls_grow p"
  using assms(1)
  by cases (auto intro: safe_void safe_queue_send safe_world_start safe_Ret safe_executeTask safe_timer_handler safe_makeHandler
      safe_moveDelayedJobsToTimers safe_reconcileWorkflowRuns safe_recover assms(2,3))

text \<open>
  C30. However sends, starts of Worlds, executions, timer promotions, deliveries, sweeps,
  reconciliations and boot recoveries interleave, statement by statement, every job they hand to graphile is well
  addressed: it waits in the queue of the very run its message names, or outside every queue as
  a timer that records that queue or as a hook wake; it carries its tenant's flag and the same
  retry budget. What graphile hands back of it may be promoted again, and no call is taken back.
\<close>

theorem jobs_well_addressed:
  assumes "message_laws W" and "0 < SPEC_VERSION_SINGLE_ORCHESTRATOR W"
    and "\<forall>p \<in> set ps. host_program W p"
    and "pool_steps (\<lambda>s t. added t = added s) (s, ps) (s', ps')"
    and "\<forall>q \<in> set (added s). well_addressed W q"
  shows "\<exists>new. added s' = added s @ new \<and> (\<forall>q \<in> set new. well_addressed W q \<and> handed_back W (jr_payload q))"
proof -
  have "addressed W s' \<and> calls_grow s s'"
    using assms(3,5) host_program_safe [OF _ assms(1,2)]
    by (intro addr.pool_steps_order [OF assms(4)]) (auto simp: addressed_def list_all_iff calls_grow_def)
  then show ?thesis by (auto simp: addressed_def calls_grow_def list_all_iff intro!: handed_back_payload)
qed

end
