(* ===== verification/Host_Examples.thy ===== *)
theory Host_Examples
  imports Dispatch_Examples Addressing
begin

text \<open>Concrete databases at which the properties of the timers and of the host's sweeps are exercised.\<close>

definition example_timer_job :: job_row where
  "example_timer_job = \<lparr>j_id = 7, j_taskId = 1, j_queueId = Some 5, j_payload = encode_message example_run_message,
     j_flags = None, j_key = Some ''k'', j_attempts = 0, j_maxAttempts = 49, j_runAt = 600000, j_lockedBy = None,
     j_lockedAt = None, j_revision = 0, j_updatedAt = 0\<rparr>"

definition timer_host :: dispatcher where
  "timer_host = (example_host [])\<lparr>
     tasks := [\<lparr>t_id = 1, t_identifier = FLOW_JOB_NAME\<rparr>, \<lparr>t_id = 2, t_identifier = TIMER_JOB_NAME\<rparr>],
     job_queues := [\<lparr>q_id = 5, q_queueName = ''wfrun:t:wrun_1'', q_lockedBy = None, q_lockedAt = None\<rparr>],
     jobs := [example_timer_job, example_timer_job\<lparr>j_id := 8, j_runAt := 30000\<rparr>]\<rparr>"

theorem swept_job_returns_witness:
  "\<exists>s'. run (moveDelayedJobsToTimers FLOW_JOB_NAME TIMER_JOB_NAME TIMER_HORIZON_SECONDS) timer_host = (Inr 1, s') \<and>
     to_timer 2 timer_host example_timer_job \<in> set (jobs s') \<and>
     map (js_queueName \<circ> jr_spec) (added (snd (run (timer_handler example_queue_sdk (\<lambda>_. True) FLOW_JOB_NAME
       (j_payload (to_timer 2 timer_host example_timer_job)) (Some (to_timer 2 timer_host example_timer_job))) s'))) =
     [Some ''wfrun:t:wrun_1'']"
proof -
  let ?q = "\<lparr>q_id = 5, q_queueName = ''wfrun:t:wrun_1'', q_lockedBy = None, q_lockedAt = None\<rparr>"
  have t: "task_id timer_host TIMER_JOB_NAME = Some 2" "task_id timer_host FLOW_JOB_NAME = Some 1"
    by (simp_all add: timer_host_def task_id_def FLOW_JOB_NAME_def TIMER_JOB_NAME_def)
  have j: "example_timer_job \<in> set (jobs timer_host)" by (simp add: timer_host_def)
  have q: "queue_of timer_host example_timer_job = Some ?q"
    by (simp add: queue_of_def timer_host_def example_timer_job_def)
  have q': "queue_of timer_host (example_timer_job\<lparr>j_id := 8, j_runAt := 30000\<rparr>) = Some ?q"
    by (simp add: queue_of_def timer_host_def example_timer_job_def)
  have mv: "movable FLOW_JOB_NAME TIMER_HORIZON_SECONDS timer_host example_timer_job"
    unfolding movable_def q t
    by (simp add: example_timer_job_def due_at_def TIMER_HORIZON_SECONDS_def timer_host_def example_host_def encode_message_def)
  have nmv: "\<not> movable FLOW_JOB_NAME TIMER_HORIZON_SECONDS timer_host (example_timer_job\<lparr>j_id := 8, j_runAt := 30000\<rparr>)"
    unfolding movable_def q' t
    by (simp add: example_timer_job_def due_at_def TIMER_HORIZON_SECONDS_def timer_host_def example_host_def)
  have m: "parse_message (j_payload example_timer_job) = Inr example_run_message"
    by (simp add: example_timer_job_def parse_message_def encode_message_def example_run_message_def example_message_def)
  have "task_id timer_host FLOW_JOB_NAME \<noteq> Some 2" by (simp add: t)
  note swept = swept_job_returns [OF t(1) this j mv q m surjective_pairing]
  have jobs: "jobs timer_host = [example_timer_job, example_timer_job\<lparr>j_id := 8, j_runAt := 30000\<rparr>]"
    by (simp add: timer_host_def)
  have none: "added (snd (run (moveDelayedJobsToTimers FLOW_JOB_NAME TIMER_JOB_NAME TIMER_HORIZON_SECONDS) timer_host)) = []"
    unfolding run_sweep [OF t(1)] by (simp add: timer_host_def example_host_def)
  have one: "run (moveDelayedJobsToTimers FLOW_JOB_NAME TIMER_JOB_NAME TIMER_HORIZON_SECONDS) timer_host =
      (Inr 1, snd (run (moveDelayedJobsToTimers FLOW_JOB_NAME TIMER_JOB_NAME TIMER_HORIZON_SECONDS) timer_host))"
    using conjunct1 [OF swept] mv nmv by (simp add: prod_eq_iff jobs)
  show ?thesis
    using one swept [where W = example_queue_sdk, THEN conjunct2, THEN conjunct2, THEN conjunct2] by (auto simp: none)
qed

definition example_reconcile :: reconcile_options where
  "example_reconcile = \<lparr>ro_tenantId = ''t'', ro_runIds = Some [''wrun_1''], ro_deploymentIds = None,
     ro_disposition = Fail, ro_reason = ''gone'', ro_errorCode = None\<rparr>"

theorem reconcile_settles_witness:
  "\<exists>x s'. run (reconcileWorkflowRuns (@) example_reconcile) (example_host [example_run Run_running]) = (x, s') \<and>
     x = Inr [reconciled (example_run Run_running)] \<and> list_all run_ended (runs s') \<and>
     run (dispatchMessage (example_deps Vqs_completed) FLOW_JOB_NAME ''q'' example_run_message
       \<lparr>d_attempt = 1, d_deliveryCount = 1\<rparr>) s' = (Inr Dispatch_completed, s')"
proof -
  let ?s = "example_host [example_run Run_running]"
  let ?run = "run (reconcileWorkflowRuns (@) example_reconcile) ?s"
  have a: "accepted example_reconcile"
    by (simp add: accepted_def example_reconcile_def assertValidTenantId_def tenant_char_def)
  have d: "ro_disposition example_reconcile \<noteq> Quarantine" by (simp add: example_reconcile_def)
  have rows: "runs ?s = [example_run Run_running]" by (simp add: example_host_def)
  have sel: "selected example_reconcile (example_run Run_running)"
    by (simp add: selected_def example_reconcile_def example_run_def active_def)
  have "distinct (map run_key (runs ?s))" by (simp add: rows)
  note settles = reconcile_settles [OF a d this, of append, OF surjective_pairing]
  have "list_all run_ended (runs (snd ?run))"
    using settles [THEN conjunct2, THEN conjunct1] sel by (auto simp: rows list_all2_Cons1)
  moreover have "fst ?run = Inr [reconciled (example_run Run_running)]" using settles [THEN conjunct1] sel by (simp add: rows)
  moreover have "run (dispatchMessage (example_deps Vqs_completed) FLOW_JOB_NAME ''q'' example_run_message
       \<lparr>d_attempt = 1, d_deliveryCount = 1\<rparr>) (snd ?run) = (Inr Dispatch_completed, snd ?run)"
  proof -
    have "m_tenantId example_run_message = r_tenantId (example_run Run_running) \<and>
        readRunId example_run_message = Some (r_runId (example_run Run_running)) \<and> r_runId (example_run Run_running) \<noteq> []"
      by (simp add: example_run_def example_run_message_def example_message_def readRunId_def bodyRunId_def)
    moreover have "example_run Run_running \<in> set (runs ?s)" by (simp add: rows)
    ultimately show ?thesis using settles sel example_lookup by blast
  qed
  ultimately show ?thesis by (metis prod.collapse)
qed


definition example_quarantine :: reconcile_options where
  "example_quarantine = example_reconcile\<lparr>ro_disposition := Quarantine\<rparr>"

theorem quarantine_parks_witness:
  "\<exists>s'. run (reconcileWorkflowRuns (@) example_quarantine) (example_host [example_run Run_running]) =
       (Inr [reconciled (example_run Run_running)], s') \<and>
     runs s' = [example_run Run_running] \<and> quarantined ''t'' ''wrun_1'' s' \<and> \<not> sweepable s' (example_run Run_running)"
proof -
  let ?s = "example_host [example_run Run_running]"
  let ?run = "run (reconcileWorkflowRuns (@) example_quarantine) ?s"
  have a: "accepted example_quarantine"
    by (simp add: accepted_def example_quarantine_def example_reconcile_def assertValidTenantId_def tenant_char_def)
  have d: "ro_disposition example_quarantine = Quarantine" by (simp add: example_quarantine_def)
  have rows: "runs ?s = [example_run Run_running]" by (simp add: example_host_def)
  have sel: "selected example_quarantine (example_run Run_running)"
    by (simp add: selected_def example_quarantine_def example_reconcile_def example_run_def active_def)
  have ids: "r_tenantId (example_run Run_running) = ''t''" "r_runId (example_run Run_running) = ''wrun_1''"
    by (simp_all add: example_run_def)
  have fresh: "\<not> quarantined ''t'' ''wrun_1'' ?s" by (simp add: quarantined_def has_row_def example_host_def)
  have "distinct (map run_key (runs ?s))" by (simp add: rows)
  note parks = quarantine_parks [OF a d this, of append, OF surjective_pairing]
  then have "?run = (Inr [reconciled (example_run Run_running)], snd ?run)" and "runs (snd ?run) = [example_run Run_running]"
    using sel fresh by (simp_all add: Let_def rows ids prod_eq_iff)
  moreover have "quarantined ''t'' ''wrun_1'' (snd ?run) \<and> \<not> sweepable (snd ?run) (example_run Run_running)"
    using parks [unfolded Let_def, THEN conjunct2, THEN conjunct2, THEN conjunct2] sel by (simp add: rows ids)
  ultimately show ?thesis by metis
qed

section \<open>Boot recovery\<close>

definition example_unlock :: "string list \<Rightarrow> dispatcher \<Rightarrow> dispatcher" where
  "example_unlock ids s = s\<lparr>job_queues := map (release_queue ids) (job_queues s), jobs := map (release_job ids) (jobs s)\<rparr>"

lemma example_unlock_laws: "unlock_laws example_unlock"
  by (simp add: unlock_laws_def example_unlock_def)

text \<open>One run whose worker died with the queue's lock, one that has ended.\<close>

definition stranded_host :: dispatcher where
  "stranded_host = (example_host [example_run Run_running, example_run Run_completed_st\<lparr>r_runId := ''wrun_2''\<rparr>])\<lparr>
     job_queues := [\<lparr>q_id = 5, q_queueName = ''wfrun:t:wrun_1'', q_lockedBy = Some ''dead'', q_lockedAt = Some 0\<rparr>]\<rparr>"

definition example_pacing :: pacing where
  "example_pacing = \<lparr>deploymentsPerWave = of_nat 2, waveIntervalMs = of_nat 500\<rparr>"

lemma stranded_rows:
  "runs stranded_host = [example_run Run_running, example_run Run_completed_st\<lparr>r_runId := ''wrun_2''\<rparr>]"
  by (simp add: stranded_host_def example_host_def)

lemma stranded_tenants: "\<forall>x \<in> set (runs stranded_host). assertValidTenantId (r_tenantId x) = Inr ()"
  by (simp add: stranded_rows example_run_def assertValidTenantId_def tenant_char_def)

lemma example_chosen: "chosen None stranded_host (example_run Run_running)"
  by (simp add: chosen_def kept_by_def stranded_def sweepable_def active_def quarantined_def has_live_job_def has_hook_def
      queue_named_def timer_queues_def stranded_host_def example_host_def has_row_def example_run_def Let_def)

lemma example_recovery:
  obtains n s' where "run (recoverActiveRunsForAllTenants example_unlock (\<lambda>_. True) 0 (Some example_pacing) None True) stranded_host =
    (Inr n, s')"
  by (simp add: run_recovery filter_candidates_def Let_def)

theorem stranded_runs_recovered_witness:
  "\<exists>n s' q. run (recoverActiveRunsForAllTenants example_unlock (\<lambda>_. True) 0 (Some example_pacing) None True) stranded_host = (Inr n, s') \<and>
     q \<in> set (added s') \<and> recovers q (example_run Run_running)"
proof -
  obtain n s' where run: "run (recoverActiveRunsForAllTenants example_unlock (\<lambda>_. True) 0 (Some example_pacing) None True) stranded_host =
    (Inr n, s')" by (rule example_recovery)
  have "distinct (map run_key (runs stranded_host))" by (simp add: stranded_rows example_run_def run_key_def)
  from conjunct1 [OF stranded_runs_recovered [OF this stranded_tenants example_unlock_laws run]]
  obtain new where "added s' = added stranded_host @ new"
    "\<forall>x \<in> set (runs stranded_host). chosen None stranded_host x \<longrightarrow> (\<exists>q \<in> set new. recovers q x)" by auto
  then show ?thesis using run example_chosen by (auto simp: stranded_rows)
qed

theorem recovery_paced_witness:
  "\<exists>s' new. added s' = added stranded_host @ new \<and>
     run (recoverActiveRunsForAllTenants example_unlock (\<lambda>_. True) 0 (Some example_pacing) None True) stranded_host =
       (Inr (length new), s') \<and>
     card {request_deployment q | q. q \<in> set new \<and> js_runAt (jr_spec q) = Some 0} \<le> 2"
proof -
  obtain n s' where run: "run (recoverActiveRunsForAllTenants example_unlock (\<lambda>_. True) 0 (Some example_pacing) None True) stranded_host =
    (Inr n, s')" by (rule example_recovery)
  obtain qs js where "reclaimed example_unlock True stranded_host = stranded_host\<lparr>job_queues := qs, jobs := js\<rparr>"
    by (rule reclaim_frame [OF example_unlock_laws])
  then obtain new where new: "added s' = added stranded_host @ new" "n = length new"
    using run by (auto simp: run_recovery filter_candidates_def Let_def)
  have "0 < (2 :: nat)" "0 < (500 :: nat)" by simp_all
  from recovery_paced [OF example_pacing_def this stranded_tenants example_unlock_laws run new(1)]
  show ?thesis using run new by blast
qed

section \<open>Addressing\<close>

lemma example_queue_laws: "message_laws example_queue_sdk" "0 < SPEC_VERSION_SINGLE_ORCHESTRATOR example_queue_sdk"
  by (auto simp: message_laws_def example_queue_sdk_def world_sdk.defs queue_sdk.defs example_sdk_def
      split: option.splits json.splits)

text \<open>A message sent for a run.\<close>

definition example_send :: "(dispatcher, error, unit) prog" where
  "example_send = void (queue_send example_queue_sdk (\<lambda>_. True) True 0
     \<lparr>qc_tenantId = ''t'', qc_deploymentId = ''d'', qc_embedded = False, qc_queueNamespace = None\<rparr> ''01'' ''__wkf_workflow_w''
     (JObject [(''runId'', JString ''wrun_1'')])
     \<lparr>so_idempotencyKey = None, so_headers = None, so_delaySeconds = None, so_deploymentId = None\<rparr>)"

theorem jobs_well_addressed_witness:
  "\<exists>s' ps' q. pool_steps (\<lambda>s t. added t = added s) (stranded_host, [example_send]) (s', ps') \<and>
     added s' = [q] \<and> well_addressed example_queue_sdk q \<and> js_queueName (jr_spec q) = Some ''wfrun:t:wrun_1''"
proof -
  have steps: "pool_steps (\<lambda>s t. added t = added s) (stranded_host, [example_send])
      (snd (run example_send stranded_host), [finished (fst (run example_send stranded_host))])" by (rule pool_run)
  have none: "added stranded_host = []" by (simp add: stranded_host_def example_host_def)
  have "\<forall>p \<in> set [example_send]. host_program example_queue_sdk p" by (simp add: example_send_def sends)
  from jobs_well_addressed [OF example_queue_laws this steps] none
  have "\<forall>q \<in> set (added (snd (run example_send stranded_host))). well_addressed example_queue_sdk q" by auto
  moreover have "map (js_queueName \<circ> jr_spec) (added (snd (run example_send stranded_host))) = [Some ''wfrun:t:wrun_1'']"
    by (simp add: example_send_def void_def queue_send_def placeInvoke_def bypassesRunQueue_def addGraphileJob_def
        example_queue_sdk_def world_sdk.defs queue_sdk.defs example_sdk_def runQueueFor_def isSingleOrchestratorRunMessage_def
        mayBypassRunQueue_def isHookWake_def bodyRunId_def runQueueName_def none run_simps Let_def)
  ultimately show ?thesis using steps by (auto simp: map_eq_Cons_conv)
qed

section \<open>Recovery at the start\<close>

lemma example_bare_laws: "bare_laws example_queue_sdk ''__wkf_workflow_''"
  using example_queue_laws
  by (auto simp: bare_laws_def bare_invoke_def example_queue_sdk_def world_sdk.defs queue_sdk.defs)

definition example_embedded :: queue_config where
  "example_embedded = \<lparr>qc_tenantId = ''t'', qc_deploymentId = ''d'', qc_embedded = True, qc_queueNamespace = None\<rparr>"

theorem start_recovers_tenant_witness:
  "\<exists>s. run (world_start example_queue_sdk (\<lambda>_. True) 0 example_embedded (\<lambda>k. dec k) Inr example_ctx 1 (Ret ()))
      (example_host [(example_run Run_completed_st)\<lparr>r_runId := ''wrun_0''\<rparr>, example_run Run_running,
        (example_run Run_pending)\<lparr>r_runId := ''wrun_2''\<rparr>]) = (Inr (Some ()), s) \<and>
    map (js_queueName \<circ> jr_spec) (added s) = [Some ''wfrun:t:wrun_2'', Some ''wfrun:t:wrun_1'']"
proof -
  let ?s = "example_host [(example_run Run_completed_st)\<lparr>r_runId := ''wrun_0''\<rparr>, example_run Run_running,
        (example_run Run_pending)\<lparr>r_runId := ''wrun_2''\<rparr>]"
  have keys: "distinct (map run_key (runs ?s))" "[] \<notin> r_runId ` set (runs ?s)" "length (runs ?s) div 20 < 1"
    by (simp_all add: example_host_def example_run_def run_key_def)
  have rows: "with_status example_ctx Run_pending ?s = [(example_run Run_pending)\<lparr>r_runId := ''wrun_2''\<rparr>]"
    "with_status example_ctx Run_running ?s = [example_run Run_running]"
    by (simp_all add: with_status_def example_host_def example_run_def)
  have "run (Ret ()) ?s = (Inr (), ?s)" by simp
  note started = start_recovers_tenant [OF example_bare_laws refl refl refl keys(1,2) this keys(3),
      where accepts = "\<lambda>_. True" and t = 0 and cfg = example_embedded and ulid = "\<lambda>k. dec k" and c = example_ctx]
  show ?thesis unfolding started rows
    by (simp add: example_embedded_def recovered_job_def runQueueName_def example_run_def example_host_def)
qed

end
