(* ===== verification/Ownership.thy ===== *)
theory Ownership
  imports Prelude Complex_Main
begin

text \<open>
  The singleton dispatcher: \<open>src/dispatcher/ownership.ts\<close>. The advisory lock is PostgreSQL's; what
  the loop sees of it are the answers to its attempts. The heartbeat, the loss of the session and
  the release are callbacks of one process, so they are a step relation on the variables they close over.
\<close>

section \<open>The liveness budget\<close>

definition MIN_OWNERSHIP_LIVENESS_MS :: int where "MIN_OWNERSHIP_LIVENESS_MS = 3000"

record liveness_settings =
  keepalivesIdleSeconds :: int
  keepalivesIntervalSeconds :: int
  keepalivesCount :: int
  idleSessionTimeoutMs :: int
  heartbeatIntervalMs :: int

definition deriveOwnershipLiveness :: "rat \<Rightarrow> liveness_settings" where
  "deriveOwnershipLiveness livenessMs =
     (let budget = max MIN_OWNERSHIP_LIVENESS_MS \<lfloor>livenessMs\<rfloor>; third = budget div 3 in
      \<lparr>keepalivesIdleSeconds = max 1 (third div 1000), keepalivesIntervalSeconds = max 1 (third div 3000),
       keepalivesCount = 3, idleSessionTimeoutMs = budget, heartbeatIntervalMs = third\<rparr>)"

text \<open>The session parameters, in the order they are set, and those the server refuses.\<close>

definition liveness_statements :: "liveness_settings \<Rightarrow> (string \<times> int) list" where
  "liveness_statements l = [(''tcp_keepalives_idle'', keepalivesIdleSeconds l),
     (''tcp_keepalives_interval'', keepalivesIntervalSeconds l), (''tcp_keepalives_count'', keepalivesCount l),
     (''idle_session_timeout'', idleSessionTimeoutMs l)]"

fun configureSessionLiveness :: "(string \<Rightarrow> int \<Rightarrow> bool) \<Rightarrow> (string \<times> int) list \<Rightarrow> (string \<times> int) list \<times> string list" where
  "configureSessionLiveness allows [] = ([], [])"
| "configureSessionLiveness allows ((name, v) # rest) =
     (case configureSessionLiveness allows rest of (applied, unavailable) \<Rightarrow>
        if allows name v then ((name, v) # applied, unavailable) else (applied, name # unavailable))"

section \<open>Taking the lock\<close>

record holder =
  hd_pid :: int
  hd_applicationName :: "string option"

datatype ownership_error = Held_elsewhere "holder option" | Query_failed

text \<open>
  What the attempts meet: the answer to \<open>pg_try_advisory_lock\<close>, the holder that can be read (a
  failure to read one is no holder), and the clock after the attempt.
\<close>

record lock_world =
  lw_locked :: "nat \<Rightarrow> ownership_error + bool"
  lw_holder :: "nat \<Rightarrow> ownership_error + holder option"
  lw_clock :: "nat \<Rightarrow> int"

record acquisition =
  aq_result :: "ownership_error + unit"
  aq_attempts :: nat
  aq_clientReleased :: bool

partial_function (option) acquire_from :: "lock_world \<Rightarrow> int \<Rightarrow> int option \<Rightarrow> nat \<Rightarrow> acquisition option" where
  "acquire_from w startedAt waitMs attempt = (case lw_locked w attempt of
     Inl e \<Rightarrow> Some \<lparr>aq_result = Inl e, aq_attempts = attempt, aq_clientReleased = True\<rparr>
   | Inr locked \<Rightarrow>
       if locked then Some \<lparr>aq_result = Inr (), aq_attempts = attempt, aq_clientReleased = False\<rparr>
       else
         let holder = (case lw_holder w attempt of Inl _ \<Rightarrow> None | Inr h \<Rightarrow> h); waitedMs = lw_clock w attempt - startedAt in
         if (case waitMs of None \<Rightarrow> False | Some m \<Rightarrow> m \<le> waitedMs)
         then Some \<lparr>aq_result = Inl (Held_elsewhere holder), aq_attempts = attempt, aq_clientReleased = True\<rparr>
         else acquire_from w startedAt waitMs (attempt + 1))"

definition acquireDispatcherOwnership :: "lock_world \<Rightarrow> int \<Rightarrow> int option \<Rightarrow> acquisition option" where
  "acquireDispatcherOwnership w startedAt waitMs = acquire_from w startedAt waitMs 1"

section \<open>Holding it\<close>

datatype client = Checked_out | Returned | Destroyed

record session =
  lost :: bool
  released :: bool
  timer :: bool
  beating :: bool
  listening_end :: bool
  unlocking :: bool
  client :: client
  lost_calls :: nat

definition scheduleHeartbeat :: "session \<Rightarrow> session" where
  "scheduleHeartbeat s = (if lost s \<or> released s then s else s\<lparr>timer := True\<rparr>)"

definition owned :: session where
  "owned = scheduleHeartbeat \<lparr>lost = False, released = False, timer = False, beating = False, listening_end = True,
     unlocking = False, client = Checked_out, lost_calls = 0\<rparr>"

definition markLost :: "session \<Rightarrow> session" where
  "markLost s = (if lost s \<or> released s then s else s\<lparr>lost := True, timer := False, lost_calls := lost_calls s + 1\<rparr>)"

definition heartbeat :: "session \<Rightarrow> session" where
  "heartbeat s = (if lost s \<or> released s then s\<lparr>timer := False\<rparr> else s\<lparr>timer := False, beating := True\<rparr>)"

definition release :: "session \<Rightarrow> session" where
  "release s = (if released s then s
     else if lost s then s\<lparr>released := True, timer := False, listening_end := False, client := Destroyed\<rparr>
     else s\<lparr>released := True, timer := False, listening_end := False, unlocking := True\<rparr>)"

text \<open>
  The callbacks: the timer, the answer to a heartbeat (or its failure or timeout), an \<open>error\<close> or
  \<open>end\<close> event of the client, a call of \<open>release\<close>, and the answer to its unlock.
\<close>

inductive session_step :: "session \<Rightarrow> session \<Rightarrow> bool" where
  fires: "timer s \<Longrightarrow> session_step s (heartbeat s)"
| answers: "beating s \<Longrightarrow> session_step s (scheduleHeartbeat (s\<lparr>beating := False\<rparr>))"
| fails: "beating s \<Longrightarrow> session_step s (markLost (s\<lparr>beating := False\<rparr>))"
| client_error: "session_step s (markLost s)"
| client_end: "listening_end s \<Longrightarrow> session_step s (markLost (s\<lparr>listening_end := False\<rparr>))"
| releases: "session_step s (release s)"
| unlocks: "unlocking s \<Longrightarrow> session_step s (s\<lparr>unlocking := False, client := Returned\<rparr>)"
| unlock_fails: "unlocking s \<Longrightarrow> session_step s (s\<lparr>unlocking := False, client := Destroyed\<rparr>)"

inductive_cases session_stepE: "session_step s s'"

lemmas session_defs = scheduleHeartbeat_def markLost_def heartbeat_def release_def


section \<open>The budget suffices\<close>

text \<open>
  Whatever budget is configured, the owner notices that its session no longer answers before
  the server may give the lock away: after a heartbeat's answer the next one is sent one interval
  later and given up another interval later, which is still before \<open>idle_session_timeout\<close>. The
  keepalives are never zero (zero would mean the system's default of two hours), and from nine seconds on
  they give up a vanished peer within two thirds of the budget.
\<close>

theorem ownership_budget:
  fixes livenessMs :: rat
  defines "l \<equiv> deriveOwnershipLiveness livenessMs"
  shows "0 < heartbeatIntervalMs l" and "2 * heartbeatIntervalMs l < idleSessionTimeoutMs l"
    and "3000 \<le> idleSessionTimeoutMs l" and "livenessMs \<le> 3000 \<or> of_int (idleSessionTimeoutMs l) \<le> livenessMs"
    and "1 \<le> keepalivesIdleSeconds l" and "1 \<le> keepalivesIntervalSeconds l"
    and "9000 \<le> idleSessionTimeoutMs l \<Longrightarrow>
      3 * 1000 * (keepalivesIdleSeconds l + keepalivesCount l * keepalivesIntervalSeconds l) \<le> 2 * idleSessionTimeoutMs l"
proof -
  define b where "b = max 3000 \<lfloor>livenessMs\<rfloor>"
  have l: "l = \<lparr>keepalivesIdleSeconds = max 1 (b div 3 div 1000), keepalivesIntervalSeconds = max 1 (b div 3 div 3000),
      keepalivesCount = 3, idleSessionTimeoutMs = b, heartbeatIntervalMs = b div 3\<rparr>"
    by (simp add: l_def deriveOwnershipLiveness_def MIN_OWNERSHIP_LIVENESS_MS_def b_def Let_def)
  have b: "3000 \<le> b" by (simp add: b_def)
  show "0 < heartbeatIntervalMs l" "2 * heartbeatIntervalMs l < idleSessionTimeoutMs l"
    "3000 \<le> idleSessionTimeoutMs l" "1 \<le> keepalivesIdleSeconds l" "1 \<le> keepalivesIntervalSeconds l"
    using b by (simp_all add: l)
  show "livenessMs \<le> 3000 \<or> of_int (idleSessionTimeoutMs l) \<le> livenessMs"
    by (simp add: l b_def max_def)
  assume "9000 \<le> idleSessionTimeoutMs l"
  then have "9000 \<le> b" by (simp add: l)
  then show "3 * 1000 * (keepalivesIdleSeconds l + keepalivesCount l * keepalivesIntervalSeconds l) \<le> 2 * idleSessionTimeoutMs l"
  proof -
    have below: "k * (n div k) \<le> n" if "0 < k" for n k :: int
      using that by (simp add: minus_mod_eq_mult_div [symmetric])
    define u v w where "u = b div 3" and "v = u div 1000" and "w = u div 3000"
    have "3 * u \<le> b" "1000 * v \<le> u" "3000 * w \<le> u" unfolding u_def v_def w_def by (rule below, simp)+
    moreover have "3000 \<le> u" using \<open>9000 \<le> b\<close> by (simp add: u_def)
    then have "1 \<le> v" "1 \<le> w" by (simp_all add: v_def w_def)
    ultimately show ?thesis unfolding l liveness_settings.simps u_def [symmetric] v_def [symmetric] w_def [symmetric]
      by simp
  qed
qed

text \<open>Below nine seconds the whole-second floor of the interval outgrows the budget.\<close>

lemma keepalives_overrun_small_budget:
  "let l = deriveOwnershipLiveness 3000 in
     idleSessionTimeoutMs l < 1000 * (keepalivesIdleSeconds l + keepalivesCount l * keepalivesIntervalSeconds l)"
  by (simp add: deriveOwnershipLiveness_def MIN_OWNERSHIP_LIVENESS_MS_def)

section \<open>The loop ends\<close>

lemma acquire_next:
  assumes "lw_locked w i = Inr False" and "case waitMs of None \<Rightarrow> True | Some m \<Rightarrow> lw_clock w i - startedAt < m"
  shows "acquire_from w startedAt waitMs i = acquire_from w startedAt waitMs (Suc i)"
  using assms by (subst acquire_from.simps) (auto split: option.splits)

definition ended :: "lock_world \<Rightarrow> int option \<Rightarrow> nat \<Rightarrow> acquisition \<Rightarrow> bool" where
  "ended w waitMs i r \<longleftrightarrow> i \<le> aq_attempts r \<and> (\<forall>j. i \<le> j \<and> j < aq_attempts r \<longrightarrow> lw_locked w j = Inr False) \<and>
     (aq_result r = Inr () \<longleftrightarrow> lw_locked w (aq_attempts r) = Inr True) \<and>
     (aq_clientReleased r \<longleftrightarrow> aq_result r \<noteq> Inr ()) \<and> (lw_locked w (aq_attempts r) = Inr False \<longrightarrow> waitMs \<noteq> None)"

lemma ended_next: "lw_locked w i = Inr False \<Longrightarrow> ended w waitMs (i + 1) r \<Longrightarrow> ended w waitMs i r"
  unfolding ended_def by (simp add: Suc_le_eq) (metis le_neq_implies_less less_imp_le)

lemma acquire_ended:
  assumes "acquire_from w startedAt waitMs i = Some r"
  shows "ended w waitMs i r"
proof (rule acquire_from.raw_induct [OF _ assms])
  fix acquire w startedAt waitMs i r
  assume IH: "\<And>w startedAt waitMs i r. acquire w startedAt waitMs i = Some r \<Longrightarrow> ended w waitMs i r"
    and step: "(case lw_locked w i of
     Inl e \<Rightarrow> Some \<lparr>aq_result = Inl e, aq_attempts = i, aq_clientReleased = True\<rparr>
   | Inr locked \<Rightarrow>
       if locked then Some \<lparr>aq_result = Inr (), aq_attempts = i, aq_clientReleased = False\<rparr>
       else
         let holder = (case lw_holder w i of Inl _ \<Rightarrow> None | Inr h \<Rightarrow> h); waitedMs = lw_clock w i - startedAt in
         if (case waitMs of None \<Rightarrow> False | Some m \<Rightarrow> m \<le> waitedMs)
         then Some \<lparr>aq_result = Inl (Held_elsewhere holder), aq_attempts = i, aq_clientReleased = True\<rparr>
         else acquire w startedAt waitMs (i + 1)) = Some (r :: acquisition)"
  show "ended w waitMs i r"
  proof (cases "lw_locked w i")
    case (Inl e)
    with step show ?thesis by (auto simp: ended_def)
  next
    case (Inr b)
    show ?thesis
    proof (cases "b \<or> (case waitMs of None \<Rightarrow> False | Some m \<Rightarrow> m \<le> lw_clock w i - startedAt)")
      case True
      with step Inr show ?thesis by (cases b) (auto simp: ended_def Let_def split: option.splits)
    next
      case False
      with step Inr have "acquire w startedAt waitMs (i + 1) = Some r" by (simp add: Let_def)
      then have "ended w waitMs (i + 1) r" by (rule IH)
      moreover have "lw_locked w i = Inr False" using False Inr by simp
      ultimately show ?thesis by (rule ended_next [rotated])
    qed
  qed
qed

lemma acquire_timed:
  assumes clock: "\<And>i. lw_clock w i + retry \<le> lw_clock w (Suc i)" and retry: "0 < retry"
    and start: "startedAt + int k * retry \<le> lw_clock w i" and "m \<le> int (k + d) * retry"
  shows "\<exists>r. acquire_from w startedAt (Some m) i = Some r \<and> aq_attempts r \<le> i + d"
  using start assms(4)
proof (induction d arbitrary: i k)
  case 0
  then show ?case by (subst acquire_from.simps) (auto split: sum.splits)
next
  case (Suc d)
  show ?case
  proof (cases "lw_locked w i = Inr False \<and> lw_clock w i - startedAt < m")
    case True
    have "startedAt + int (Suc k) * retry \<le> lw_clock w (Suc i)" using clock [of i] Suc.prems(1) by (simp add: algebra_simps)
    from Suc.IH [OF this] Suc.prems(2) obtain r where "acquire_from w startedAt (Some m) (Suc i) = Some r"
      "aq_attempts r \<le> Suc i + d" by auto
    then show ?thesis using True by (auto simp: acquire_next)
  next
    case False
    then show ?thesis by (subst acquire_from.simps) (auto split: sum.splits)
  qed
qed

lemma acquire_waits:
  assumes "acquire_from w startedAt None i = None" and "i \<le> j"
  shows "lw_locked w j = Inr False"
proof -
  have "acquire_from w startedAt None j = None" using assms(2)
  proof (induction j rule: dec_induct)
    case (step n)
    then show ?case by (subst (asm) acquire_from.simps) (auto split: sum.splits if_splits)
  qed (rule assms(1))
  then show ?thesis by (subst (asm) acquire_from.simps) (auto split: sum.splits if_splits)
qed

lemma acquire_returns_facts:
  assumes clock: "\<And>i. lw_clock w i + retry \<le> lw_clock w (Suc i)" and retry: "0 < retry" and start: "startedAt \<le> lw_clock w 1"
  shows "0 \<le> m \<Longrightarrow> \<exists>r. acquireDispatcherOwnership w startedAt (Some m) = Some r \<and> int (aq_attempts r) \<le> m div retry + 2"
    and "(\<exists>r. acquireDispatcherOwnership w startedAt None = Some r) \<longleftrightarrow> (\<exists>i \<ge> 1. lw_locked w i \<noteq> Inr False)"
    and "acquireDispatcherOwnership w startedAt waitMs = Some r \<Longrightarrow> ended w waitMs 1 r"
proof -
  assume m: "0 \<le> m"
  have "m \<le> int (0 + (nat (m div retry) + 1)) * retry"
  proof -
    have "m div retry * retry + m mod retry = m" by (rule div_mult_mod_eq)
    moreover have "m mod retry < retry" "int (0 + (nat (m div retry) + 1)) = m div retry + 1"
      using m retry by (simp_all add: pos_imp_zdiv_nonneg_iff)
    ultimately show ?thesis by (simp only: distrib_right)
  qed
  then obtain r where "acquire_from w startedAt (Some m) 1 = Some r" "aq_attempts r \<le> 1 + (nat (m div retry) + 1)"
    using acquire_timed [OF clock retry, of startedAt 0 1 m "nat (m div retry) + 1"] start by auto
  then show "\<exists>r. acquireDispatcherOwnership w startedAt (Some m) = Some r \<and> int (aq_attempts r) \<le> m div retry + 2"
    unfolding acquireDispatcherOwnership_def using pos_imp_zdiv_nonneg_iff [OF retry, of m] m
    by (intro exI [of _ r]) auto
next
  show "(\<exists>r. acquireDispatcherOwnership w startedAt None = Some r) \<longleftrightarrow> (\<exists>i \<ge> 1. lw_locked w i \<noteq> Inr False)"
  proof
    assume "\<exists>r. acquireDispatcherOwnership w startedAt None = Some r"
    then obtain r where "ended w None 1 r" using acquire_ended unfolding acquireDispatcherOwnership_def by blast
    then show "\<exists>i \<ge> 1. lw_locked w i \<noteq> Inr False" by (auto simp: ended_def)
  next
    assume "\<exists>i \<ge> 1. lw_locked w i \<noteq> Inr False"
    then show "\<exists>r. acquireDispatcherOwnership w startedAt None = Some r"
      using acquire_waits unfolding acquireDispatcherOwnership_def by fastforce
  qed
next
  show "acquireDispatcherOwnership w startedAt waitMs = Some r \<Longrightarrow> ended w waitMs 1 r"
    unfolding acquireDispatcherOwnership_def by (rule acquire_ended)
qed

text \<open>
  Taking ownership ends. With a bounded wait it returns after at most \<open>waitMs / retry + 2\<close>
  attempts, however the lock behaves; without a bound it returns exactly when the lock is granted
  or a query fails at some attempt. It succeeds at the first attempt that is granted the lock, and
  the client goes back to the pool exactly when it does not succeed.
\<close>

theorem acquire_returns:
  assumes "\<And>i. lw_clock w i + retry \<le> lw_clock w (Suc i)" and "0 < retry" and "startedAt \<le> lw_clock w 1"
  shows "(\<forall>m \<ge> 0. \<exists>r. acquireDispatcherOwnership w startedAt (Some m) = Some r \<and> int (aq_attempts r) \<le> m div retry + 2) \<and>
    ((\<exists>r. acquireDispatcherOwnership w startedAt None = Some r) \<longleftrightarrow> (\<exists>i \<ge> 1. lw_locked w i \<noteq> Inr False)) \<and>
    (\<forall>waitMs r. acquireDispatcherOwnership w startedAt waitMs = Some r \<longrightarrow> ended w waitMs 1 r)"
  using acquire_returns_facts [OF assms] by blast


section \<open>The owning session\<close>

definition session_ok :: "session \<Rightarrow> bool" where
  "session_ok s \<longleftrightarrow> lost_calls s = (if lost s then 1 else 0) \<and> (lost s \<or> released s \<longrightarrow> \<not> timer s) \<and>
     (\<not> lost s \<and> \<not> released s \<longrightarrow> timer s \<noteq> beating s) \<and> (unlocking s \<longrightarrow> released s \<and> \<not> lost s) \<and>
     (client s = Checked_out \<longleftrightarrow> \<not> released s \<or> unlocking s) \<and> (lost s \<and> released s \<longrightarrow> client s = Destroyed)"

lemma owned_ok: "session_ok owned"
  by (simp add: session_ok_def owned_def scheduleHeartbeat_def)

lemma session_step_ok: "session_step s s' \<Longrightarrow> session_ok s \<Longrightarrow> session_ok s'"
  by (induction rule: session_step.induct) (auto simp: session_ok_def session_defs)

lemma session_watched_facts:
  assumes "session_step\<^sup>*\<^sup>* owned s"
  shows "\<not> lost s \<Longrightarrow> \<not> released s \<Longrightarrow> timer s \<noteq> beating s \<and> client s = Checked_out"
    and "lost_calls s = (if lost s then 1 else 0)"
    and "lost s \<or> released s \<Longrightarrow> \<not> timer s"
    and "released s \<Longrightarrow> \<not> unlocking s \<Longrightarrow> client s \<noteq> Checked_out"
    and "lost s \<Longrightarrow> released s \<Longrightarrow> client s = Destroyed"
    and "released s \<Longrightarrow> session_step s s' \<Longrightarrow> released s' \<and> lost s' = lost s \<and> lost_calls s' = lost_calls s \<and>
      (client s \<noteq> Checked_out \<longrightarrow> client s' = client s)"
proof -
  have ok: "session_ok s" using assms by (induction rule: rtranclp_induct) (auto intro: owned_ok session_step_ok)
  show "\<not> lost s \<Longrightarrow> \<not> released s \<Longrightarrow> timer s \<noteq> beating s \<and> client s = Checked_out"
    "lost_calls s = (if lost s then 1 else 0)" "lost s \<or> released s \<Longrightarrow> \<not> timer s"
    "released s \<Longrightarrow> \<not> unlocking s \<Longrightarrow> client s \<noteq> Checked_out" "lost s \<Longrightarrow> released s \<Longrightarrow> client s = Destroyed"
    using ok by (auto simp: session_ok_def)
  assume "released s" "session_step s s'"
  then show "released s' \<and> lost s' = lost s \<and> lost_calls s' = lost_calls s \<and> (client s \<noteq> Checked_out \<longrightarrow> client s' = client s)"
    using ok by (elim session_stepE) (auto simp: session_ok_def session_defs)
qed

text \<open>
  C29. Every session the callbacks can reach, in any order: while ownership is neither lost nor
  released, exactly one heartbeat is pending or in flight; a loss is reported exactly once, never
  after the release has begun, and ends the heartbeats; the client stays checked out until the
  release, is given back once, and a lost session's client is destroyed, never reused.
\<close>

theorem session_watched:
  assumes "session_step\<^sup>*\<^sup>* owned s"
  shows "(\<not> lost s \<and> \<not> released s \<longrightarrow> timer s \<noteq> beating s \<and> client s = Checked_out) \<and>
    lost_calls s = (if lost s then 1 else 0) \<and> (lost s \<or> released s \<longrightarrow> \<not> timer s) \<and>
    (released s \<and> \<not> unlocking s \<longrightarrow> client s \<noteq> Checked_out) \<and> (lost s \<and> released s \<longrightarrow> client s = Destroyed) \<and>
    (\<forall>s'. released s \<and> session_step s s' \<longrightarrow> released s' \<and> lost s' = lost s \<and> lost_calls s' = lost_calls s \<and>
      (client s \<noteq> Checked_out \<longrightarrow> client s' = client s))"
  using session_watched_facts [OF assms] by blast


section \<open>Examples\<close>

definition busy_lock :: lock_world where
  "busy_lock = \<lparr>lw_locked = (\<lambda>i. Inr (5 \<le> i)), lw_holder = (\<lambda>_. Inr None), lw_clock = (\<lambda>i. 1000 * int i)\<rparr>"

theorem acquire_returns_witness:
  "(\<exists>r. acquireDispatcherOwnership busy_lock 1000 (Some 2500) = Some r \<and> aq_attempts r \<le> 4 \<and> aq_result r \<noteq> Inr ()) \<and>
   (\<exists>r. acquireDispatcherOwnership busy_lock 1000 None = Some r)"
proof -
  have clock: "lw_clock busy_lock i + 1000 \<le> lw_clock busy_lock (Suc i)" for i by (simp add: busy_lock_def)
  have start: "1000 \<le> lw_clock busy_lock 1" by (simp add: busy_lock_def)
  have "0 < (1000 :: int)" by simp
  note returns = acquire_returns [OF clock this start]
  obtain r where r: "acquireDispatcherOwnership busy_lock 1000 (Some 2500) = Some r" "int (aq_attempts r) \<le> 2500 div 1000 + 2"
    using returns by (metis zero_le_numeral)
  moreover have "aq_result r \<noteq> Inr ()" using returns r by (auto simp: ended_def busy_lock_def)
  moreover have "\<exists>i \<ge> 1. lw_locked busy_lock i \<noteq> Inr False" by (intro exI [of _ 5]) (simp add: busy_lock_def)
  ultimately show ?thesis using returns by auto
qed

text \<open>The heartbeat in flight fails, then the dispatcher shuts down.\<close>

definition lost_session :: session where
  "lost_session = release (markLost ((heartbeat owned)\<lparr>beating := False\<rparr>))"

lemma lost_session_reached: "session_step\<^sup>*\<^sup>* owned lost_session"
proof -
  have "session_step owned (heartbeat owned)" by (rule fires) (simp add: owned_def scheduleHeartbeat_def)
  moreover have "session_step (heartbeat owned) (markLost ((heartbeat owned)\<lparr>beating := False\<rparr>))"
    by (rule fails) (simp add: owned_def scheduleHeartbeat_def heartbeat_def)
  ultimately show ?thesis unfolding lost_session_def by (meson releases r_into_rtranclp rtranclp_trans)
qed

theorem session_watched_witness: "lost_calls lost_session = 1 \<and> \<not> timer lost_session \<and> client lost_session = Destroyed"
proof -
  have "lost lost_session" "released lost_session"
    by (simp_all add: lost_session_def owned_def session_defs)
  then show ?thesis using session_watched [OF lost_session_reached] by simp
qed

theorem ownership_budget_witness:
  "heartbeatIntervalMs (deriveOwnershipLiveness 30000) * 2 < 30000 \<and>
   1000 * (keepalivesIdleSeconds (deriveOwnershipLiveness 30000) + 3 * keepalivesIntervalSeconds (deriveOwnershipLiveness 30000)) \<le> 20000"
  using ownership_budget(2,7) [of 30000] by (simp add: deriveOwnershipLiveness_def MIN_OWNERSHIP_LIVENESS_MS_def)

end
