(* ===== verification/Read_Examples.thy ===== *)
theory Read_Examples
  imports Reads Evaluate
begin

text \<open>The properties of the read side on concrete states.\<close>

definition example_logged :: st where
  "example_logged = (example_st Run_running Step_pending)\<lparr>
     runs := [example_run Run_running, (example_run Run_pending)\<lparr>r_runId := ''wrun_2''\<rparr>],
     events := [example_created, example_created\<lparr>e_eventId := ''evnt_0002'', e_eventType := Run_started\<rparr>]\<rparr>"

lemmas read_simps = example_logged_def example_defs eval_simps run_key_def

theorem getMany_reads_each_witness:
  "\<exists>v. fst (run (runs_getMany Inr example_ctx [''wrun_2'', ''wrun_9'', ''wrun_2''] Resolve_all) example_logged) =
      Inr [Some v, None, Some v] \<and>
    fst (run (runs_get Inr example_ctx ''wrun_2'' Resolve_all) example_logged) = Inr v \<and>
    fst (run (runs_get Inr example_ctx ''wrun_9'' Resolve_all) example_logged) = Inl (WorkflowRunNotFoundError ''wrun_9'')"
proof -
  have keys: "distinct (map run_key (runs example_logged))" by (simp add: read_simps)
  have "\<exists>v. fst (run (runs_get Inr example_ctx ''wrun_2'' Resolve_all) example_logged) = Inr v"
    "fst (run (runs_get Inr example_ctx ''wrun_9'' Resolve_all) example_logged) = Inl (WorkflowRunNotFoundError ''wrun_9'')"
    by (simp_all add: read_simps runs_get_def present_run_def returnE_def or_else_def)
  with getMany_reads_each [OF keys, of Inr example_ctx "[''wrun_2'', ''wrun_9'', ''wrun_2'']" Resolve_all]
  show ?thesis by auto
qed

theorem listings_complete_witness:
  "read_pages (client_page (\<lambda>cursor. events_list Inr example_ctx ''wrun_1''
       \<lparr>lp_limit = Some 1, lp_cursor = cursor, lp_sortOrder = Some Desc\<rparr> Resolve_all) example_logged) 3 None =
     Some (map (\<lambda>e. stripEventDataRefs example_sdk (e\<lparr>e_eventData := or_else (e_eventData e) (e_eventDataJson e)\<rparr>) Resolve_all)
       [example_created\<lparr>e_eventId := ''evnt_0002'', e_eventType := Run_started\<rparr>, example_created])"
proof -
  let ?q = "\<lparr>rq_limit = None, rq_cursor = None, rq_workflowName = None, rq_status = Any_status\<rparr>"
  have "distinct (map e_eventId (filter (of_run (tenantId example_ctx) ''wrun_1'') (events example_logged)))"
    "[] \<notin> e_eventId ` set (events example_logged)" "distinct (map run_key (runs example_logged))"
    "[] \<notin> r_runId ` set (runs example_logged)" "(0::nat) < 1"
    by (simp_all add: read_simps)
  note all = listings_complete [OF this(1-4) refl refl this(5), where q = ?q and rd = Resolve_all and order = "Some Desc"]
  have "filter (of_run ''t'' ''wrun_1'') (events example_logged) =
      [example_created, example_created\<lparr>e_eventId := ''evnt_0002'', e_eventType := Run_started\<rparr>]"
    by (simp add: read_simps)
  moreover have "ordered Desc e_eventId [example_created, example_created\<lparr>e_eventId := ''evnt_0002'', e_eventType := Run_started\<rparr>] =
      [example_created\<lparr>e_eventId := ''evnt_0002'', e_eventType := Run_started\<rparr>, example_created]"
    by (simp add: read_simps ordered_def)
  ultimately show ?thesis
    using conjunct1 [OF all] by (simp add: numeral_3_eq_3 del: read_pages.simps)
qed

lemma example_logged_inv: "log_inv example_sdk example_logged"
proof -
  have "run_ids t r example_logged = (if t = ''t'' \<and> r = ''wrun_1'' then [''evnt_0001'', ''evnt_0002''] else [])" for t r
    by (simp add: read_simps)
  moreover have "slotted t r example_logged \<longleftrightarrow> t = ''t'' \<and> r = ''wrun_1''" for t r
    by (simp add: read_simps) blast
  moreover have "dense example_sdk [''evnt_0001'', ''evnt_0002'']"
    unfolding dense_def by (rule exI [of _ 2]) (simp add: slot_id_def example_sdk_def text_defs upt_rec)
  ultimately show ?thesis by (simp add: log_inv_def) blast
qed

lemma writers_idle: "log_inv W s \<Longrightarrow> writers W s s" by (simp add: writers_def grows_refl)

definition from_start :: list_params where
  "from_start = \<lparr>lp_limit = None, lp_cursor = None, lp_sortOrder = None\<rparr>"

theorem snapshot_not_ahead_of_page_witness:
  "\<exists>t. (writers example_sdk)\<^sup>+\<^sup>+ example_logged t \<and>
     readEventLogSnapshot example_ctx ''wrun_1'' t = Inr (Some \<lparr>sn_seq = 2, sn_seqInBand = 1\<rparr>) \<and>
     {e_eventId e | e. e \<in> set (events t) \<and> of_run ''t'' ''wrun_1'' e \<and> past_cursor Asc None (e_eventId e)}
       \<subseteq> {''evnt_0001'', ''evnt_0002''}"
proof -
  let ?p = "\<lparr>pg_data = map (\<lambda>e. stripEventDataRefs example_sdk e Resolve_all) (events example_logged),
     pg_cursor = Some ''evnt_0002'', pg_hasMore = False\<rparr>"
  have idle: "writers (sdk example_ctx) example_logged example_logged"
    by (simp add: writers_idle example_logged_inv)
  have snap: "readEventLogSnapshot example_ctx ''wrun_1'' example_logged = Inr (Some \<lparr>sn_seq = 2, sn_seqInBand = 1\<rparr>)"
    by (simp add: read_simps readEventLogSnapshot_def)
  have page: "present_page (read_event Inr example_ctx Resolve_all) (events_page example_ctx ''wrun_1'' from_start example_logged) = Inr ?p"
    by (simp add: read_simps events_page_def select_page_def from_start_def order_of_def limit_or_def ordered_def
        past_cursor_def given_def present_page_def read_event_def or_else_def)
  have list: "exec_env (writers (sdk example_ctx)) (snapshot_list Inr example_ctx ''wrun_1'' from_start Resolve_all)
      example_logged (Inr (?p, Some \<lparr>sn_seq = 2, sn_seqInBand = 1\<rparr>)) example_logged"
    unfolding snapshot_list_def env_read_snapshot env_events_list
    by (intro exI [of _ example_logged] conjI idle, simp only: snap sum.case,
        intro exI [of _ example_logged] conjI idle, simp add: page)
  have ids: "e_eventId v = e_eventId e" if "read_event Inr example_ctx Resolve_all e = Inr v" for e v
    using that by (auto simp: read_event_def example_sdk_def)
  have legacy: "eventIdToSlot (sdk example_ctx) (''wevt_'' @ u) = None" for u
    by (simp add: example_sdk_def)
  have order: "order_of from_start = Asc" "lp_cursor from_start = None" by (simp_all add: from_start_def order_of_def)
  show ?thesis using snapshot_not_ahead_of_page [OF list ids legacy, unfolded order]
    by (simp add: read_simps)
qed

end
