(* ===== verification/Maintenance.thy ===== *)
theory Maintenance
  imports Retention Stream_Maintenance
begin

text \<open>
  The host's storage maintenance: \<open>src/storage-maintenance.ts\<close>. A round packs streams, prunes stream
  chunks and prunes runs, one after the other, each settled on its own; the loop ticks on an
  interval and never runs two rounds at once.
\<close>

section \<open>One round\<close>

record maintenance_options =
  mo_streamBatchSize :: int
  mo_maxBatches :: int
  mo_maxStreamsToPack :: int
  mo_runBatchSize :: int
  mo_compactSnapshots :: "bool option"

definition settle :: "('s, 'e, 'a) prog \<Rightarrow> ('s, 'e, 'e + 'a) prog" where
  "settle operation = catchP (bindP operation (\<lambda>value. Ret (Inr value))) (\<lambda>reason. Ret (Inl reason))"

lemma run_settle [run_simps]: "run (settle p) s = (Inr (fst (run p s)), snd (run p s))"
  by (simp add: settle_def run_simps split: prod.split sum.split)

definition runStorageMaintenanceOnce :: "(nat \<Rightarrow> byte list) \<Rightarrow> (byte list \<Rightarrow> byte list) \<Rightarrow> maintenance_options \<Rightarrow>
    ((error + pack_result) \<times> (error + retention_result) \<times> (error + retention_result)) sio" where
  "runStorageMaintenanceOnce allocUnsafe compactStreamChunk opts =
     bindP (settle (packTerminalStreamBlocks allocUnsafe
       (if mo_compactSnapshots opts = Some False then (\<lambda>x. x) else compactStreamChunk)
       \<lparr>po_maxStreams = mo_maxStreamsToPack opts, po_maxChunksPerBlock = None, po_maxBlockBytes = None\<rparr>)) (\<lambda>blocks.
     bindP (settle (pruneExpiredStreamChunks (mo_streamBatchSize opts) (mo_maxBatches opts))) (\<lambda>streams.
     bindP (settle (pruneExpiredWorkflowRuns (mo_runBatchSize opts) (mo_maxBatches opts))) (\<lambda>runs.
       Ret (blocks, streams, runs))))"

section \<open>The stream tasks leave the runs alone\<close>

definition runs_kept :: "store \<Rightarrow> store \<Rightarrow> bool" where
  "runs_kept s t \<longleftrightarrow> runs t = runs s \<and> events t = events s \<and> eventSlots t = eventSlots s \<and> steps t = steps s \<and>
     hooks t = hooks s \<and> waits t = waits s \<and> db_now t = db_now s \<and> deadline_columns t = deadline_columns s \<and>
     (RUN_RETENTION_LOCK_KEY \<in> set (locks t) \<longleftrightarrow> RUN_RETENTION_LOCK_KEY \<in> set (locks s))"

interpretation kept: state_order "\<lambda>_. True" runs_kept
  by unfold_locales (auto simp: runs_kept_def)

lemma keeps_streams [intro]: "(\<And>s. runs_kept s (f s)) \<Longrightarrow> keeps (\<lambda>_. True) runs_kept f"
  by (simp add: keeps_def)

lemma runs_kept_streams:
  "runs_kept s (s\<lparr>streams := a\<rparr>)" "runs_kept s (s\<lparr>checkpoints := b\<rparr>)"
  "key \<noteq> RUN_RETENTION_LOCK_KEY \<Longrightarrow> runs_kept s (unlock key s)"
  "key \<noteq> RUN_RETENTION_LOCK_KEY \<Longrightarrow> runs_kept s (snd (try_lock key s))"
  by (auto simp: runs_kept_def unlock_def try_lock_def in_set_remove1)

lemma safe_settled [safe_intros]: "safe I R p \<Longrightarrow> safe I R q \<Longrightarrow> safe I R (finallyP p q)"
  unfolding finallyP_def by (intro safe_intros)

lemma safe_liftE [safe_intros]: "safe I R (liftE x)"
  unfolding liftE_def by (intro safe_intros)

lemma insert_chunks_kept: "runs_kept s (snd (insert_chunks new s))"
  by (simp add: insert_chunks_def runs_kept_streams kept.ord_refl)

lemma compactOneStream_kept: "safe (\<lambda>_. True) runs_kept (compactOneStream allocUnsafe compact mc mb k)"
  unfolding compactOneStream_def Let_def mark_packed_def
  by (auto split: prod.split intro!: safe_intros kept.safe_txn kept.safe_stmt kept.safe_exec kept.safe_stmtE_keeps
      runs_kept_streams insert_chunks_kept)

lemma pack_kept: "safe (\<lambda>_. True) runs_kept (packTerminalStreamBlocks allocUnsafe compact opts)"
  unfolding packTerminalStreamBlocks_def Let_def
  by (intro safe_intros kept.safe_query kept.safe_stmt kept.safe_exec compactOneStream_kept keeps_streams runs_kept_streams)
    (auto simp: STREAM_BLOCK_PACK_LOCK_KEY_def RUN_RETENTION_LOCK_KEY_def)

lemma batches_safe: "safe I R batch \<Longrightarrow> safe I R after \<Longrightarrow> safe I R (batches batch after limit deleted count n)"
  by (induction n arbitrary: deleted count) (auto intro!: safe_intros)

lemma chunks_kept: "safe (\<lambda>_. True) runs_kept (pruneExpiredStreamChunks batchSize maxBatches)"
  unfolding pruneExpiredStreamChunks_def locked_batches_def chunk_batch_def delete_due_checkpoints_def delete_chunk_batch_def Let_def
  by (intro safe_intros kept.safe_stmt kept.safe_exec batches_safe keeps_streams runs_kept_streams)
    (auto simp: STREAM_RETENTION_LOCK_KEY_def RUN_RETENTION_LOCK_KEY_def runs_kept_streams)

lemma runs_kept_due: "runs_kept s t \<Longrightarrow> still_needed t = still_needed s"
  by (simp add: fun_eq_iff runs_kept_def still_needed_def detail_expired_def reached_def deadlines_of_def holds_token_def
      cong: option.case_cong)

text \<open>
  A maintenance round always returns, and what goes wrong with the streams (a block that cannot
  be unpacked, another packer that holds the lock) keeps no expired run alive: unless the run sweep
  hits its batch limit or another sweep holds its lock, no expired run is left after the round. A
  lineage that is still needed keeps its rows and events.
\<close>

theorem maintenance_round:
  assumes "distinct (map run_key (runs s))" and "positive_safe (mo_runBatchSize opts)" and "positive_safe (mo_maxBatches opts)"
  shows "\<exists>blocks streams res s'. run (runStorageMaintenanceOnce allocUnsafe compact opts) s = (Inr (blocks, streams, Inr res), s') \<and>
    rr_deleted res = length (runs s) - length (runs s') \<and> (rr_lockAcquired res \<longleftrightarrow> RUN_RETENTION_LOCK_KEY \<notin> set (locks s)) \<and>
    (rr_lockAcquired res \<and> \<not> rr_hitBatchLimit res \<longrightarrow> \<not> list_ex (due detail_expired s') (runs s')) \<and>
    (\<forall>x \<in> set (runs s). \<forall>y \<in> set (runs s). r_tenantId y = r_tenantId x \<and> r_retentionRootRunId y = r_retentionRootRunId x \<and>
       still_needed s y \<longrightarrow> x \<in> set (runs s') \<and>
       filter (\<lambda>e. (e_tenantId e, e_runId e) = run_key x) (events s') = filter (\<lambda>e. (e_tenantId e, e_runId e) = run_key x) (events s))"
proof -
  let ?pack = "packTerminalStreamBlocks allocUnsafe (if mo_compactSnapshots opts = Some False then (\<lambda>x. x) else compact)
       \<lparr>po_maxStreams = mo_maxStreamsToPack opts, po_maxChunksPerBlock = None, po_maxBlockBytes = None\<rparr>"
  let ?chunks = "pruneExpiredStreamChunks (mo_streamBatchSize opts) (mo_maxBatches opts)"
  define t where "t = snd (run ?chunks (snd (run ?pack s)))"
  have kept: "runs_kept s t"
    using kept.safe_run [OF pack_kept, of s] kept.safe_run [OF chunks_kept] unfolding t_def by (meson kept.ord_trans)
  then have "distinct (map run_key (runs t))" using assms(1) by (simp add: runs_kept_def)
  from run_pruneRuns [OF this assms(2,3)] obtain res s' gone
    where res: "run (pruneExpiredWorkflowRuns (mo_runBatchSize opts) (mo_maxBatches opts)) t = (Inr res, s')" "swept_by gone t s'"
      "rr_deleted res = length (runs t) - length (runs s')" "rr_lockAcquired res \<longleftrightarrow> RUN_RETENTION_LOCK_KEY \<notin> set (locks t)"
      "rr_lockAcquired res \<and> \<not> rr_hitBatchLimit res \<longrightarrow> (\<forall>x \<in> set (runs s'). \<not> due detail_expired s' x)" by blast
  have round: "run (runStorageMaintenanceOnce allocUnsafe compact opts) s =
      (Inr (fst (run ?pack s), fst (run ?chunks (snd (run ?pack s))), Inr res), s')"
    using res(1) by (simp add: runStorageMaintenanceOnce_def run_simps t_def [symmetric])
  have same: "runs t = runs s" "events t = events s" "still_needed t = still_needed s"
    using kept by (simp_all add: runs_kept_due, simp_all add: runs_kept_def)
  have needed: "x \<in> set (runs s') \<and> filter (\<lambda>e. (e_tenantId e, e_runId e) = run_key x) (events s') =
      filter (\<lambda>e. (e_tenantId e, e_runId e) = run_key x) (events s)"
    if "x \<in> set (runs s)" "y \<in> set (runs s)" "r_tenantId y = r_tenantId x" "r_retentionRootRunId y = r_retentionRootRunId x"
      "still_needed s y" for x y
  proof -
    note x = needed_not_swept [OF res(2), unfolded same, OF that]
    have "events s' = filter (\<lambda>e. (e_tenantId e, e_runId e) \<notin> gone) (events s)"
      using res(2) by (simp add: swept_by_def same)
    with x show ?thesis by (auto intro!: filter_cong)
  qed
  have "RUN_RETENTION_LOCK_KEY \<in> set (locks t) \<longleftrightarrow> RUN_RETENTION_LOCK_KEY \<in> set (locks s)" using kept by (simp add: runs_kept_def)
  with round res(3-5) needed same show ?thesis
    by (intro exI conjI) (assumption | auto simp: list_ex_iff)+
qed

section \<open>The loop\<close>

text \<open>
  The variables \<open>startStorageMaintenanceLoop\<close> closes over, beside the rounds that are really in
  flight, how many began, and whether \<open>stop\<close> was called and has returned. A round ends whether or not it failed.
\<close>

record maintenance_loop =
  ml_stopped :: bool
  ml_active :: bool
  ml_in_flight :: nat
  ml_began :: nat
  ml_stop_returned :: bool

definition idle_loop :: maintenance_loop where
  "idle_loop = \<lparr>ml_stopped = False, ml_active = False, ml_in_flight = 0, ml_began = 0, ml_stop_returned = False\<rparr>"

definition maintenance_tick :: "maintenance_loop \<Rightarrow> maintenance_loop" where
  "maintenance_tick l = (if ml_stopped l \<or> ml_active l then l
     else l\<lparr>ml_active := True, ml_in_flight := ml_in_flight l + 1, ml_began := ml_began l + 1\<rparr>)"

definition startStorageMaintenanceLoop :: "int \<Rightarrow> maintenance_loop option" where
  "startStorageMaintenanceLoop intervalMs = (if intervalMs = 0 then None else Some (maintenance_tick idle_loop))"

inductive maintenance_step :: "maintenance_loop \<Rightarrow> maintenance_loop \<Rightarrow> bool" where
  ticks: "maintenance_step l (maintenance_tick l)"
| round_ends: "0 < ml_in_flight l \<Longrightarrow> maintenance_step l (l\<lparr>ml_in_flight := ml_in_flight l - 1, ml_active := False\<rparr>)"
| stops: "maintenance_step l (l\<lparr>ml_stopped := True\<rparr>)"
| stop_returns: "ml_stopped l \<Longrightarrow> \<not> ml_active l \<Longrightarrow> maintenance_step l (l\<lparr>ml_stop_returned := True\<rparr>)"

definition loop_inv :: "maintenance_loop \<Rightarrow> bool" where
  "loop_inv l \<longleftrightarrow> ml_in_flight l = (if ml_active l then 1 else 0) \<and> (ml_stop_returned l \<longrightarrow> ml_stopped l \<and> \<not> ml_active l)"

lemma loop_inv_step: "maintenance_step l l' \<Longrightarrow> loop_inv l \<Longrightarrow> loop_inv l'"
  by (induction rule: maintenance_step.induct) (auto simp: loop_inv_def maintenance_tick_def split: if_splits)

lemma stopped_step:
  "maintenance_step l l' \<Longrightarrow> loop_inv l \<Longrightarrow> ml_stop_returned l \<Longrightarrow> ml_began l' = ml_began l \<and> ml_stop_returned l'"
  by (induction rule: maintenance_step.induct) (auto simp: loop_inv_def maintenance_tick_def)

text \<open>At most one round is in flight, and none begins or goes on once \<open>stop\<close> has returned.\<close>

theorem maintenance_loop_exclusive:
  assumes "startStorageMaintenanceLoop intervalMs = Some l0" and "maintenance_step\<^sup>*\<^sup>* l0 l"
  shows "ml_in_flight l \<le> 1 \<and> (ml_stop_returned l \<longrightarrow> ml_in_flight l = 0 \<and>
    (\<forall>l'. maintenance_step\<^sup>*\<^sup>* l l' \<longrightarrow> ml_began l' = ml_began l \<and> ml_in_flight l' = 0))"
proof -
  have start: "loop_inv l0" using assms(1)
    by (auto simp: startStorageMaintenanceLoop_def maintenance_tick_def idle_loop_def loop_inv_def split: if_splits)
  from assms(2) have inv: "loop_inv l" by induction (auto intro: start loop_inv_step)
  have quiet: "ml_began l' = ml_began l \<and> ml_stop_returned l' \<and> loop_inv l'"
    if "maintenance_step\<^sup>*\<^sup>* l l'" "ml_stop_returned l" for l'
    using that
  proof induction
    case base
    then show ?case using inv by simp
  next
    case (step x y)
    then show ?case using stopped_step [OF step.hyps(2)] loop_inv_step [OF step.hyps(2)] by simp
  qed
  show ?thesis
  proof (intro conjI impI allI)
    show "ml_in_flight l \<le> 1" using inv by (simp add: loop_inv_def)
    show "ml_in_flight l = 0" if "ml_stop_returned l" using inv that by (simp add: loop_inv_def)
    fix l' assume "ml_stop_returned l" and "maintenance_step\<^sup>*\<^sup>* l l'"
    then have "ml_began l' = ml_began l \<and> ml_stop_returned l' \<and> loop_inv l'" by (rule quiet [rotated])
    then show "ml_began l' = ml_began l" "ml_in_flight l' = 0" by (simp_all add: loop_inv_def)
  qed
qed

text \<open>A round that cannot pack (no stream may be packed) over a lineage whose child still runs.\<close>

theorem maintenance_round_witness:
  "\<exists>blocks streams res s'. run (runStorageMaintenanceOnce (\<lambda>n. replicate n 0) (\<lambda>x. x) \<lparr>mo_streamBatchSize = 10, mo_maxBatches = 10,
       mo_maxStreamsToPack = 0, mo_runBatchSize = 10, mo_compactSnapshots = None\<rparr>)
     (example_lineage [expired_parent, example_run Run_running]) = (Inr (blocks, streams, Inr res), s') \<and>
     rr_lockAcquired res \<and> expired_parent \<in> set (runs s')"
proof -
  let ?s = "example_lineage [expired_parent, example_run Run_running]"
  let ?o = "\<lparr>mo_streamBatchSize = 10, mo_maxBatches = 10, mo_maxStreamsToPack = 0, mo_runBatchSize = 10, mo_compactSnapshots = None\<rparr>"
  have rows: "expired_parent \<in> set (runs ?s)" "example_run Run_running \<in> set (runs ?s)" "locks ?s = []"
    "distinct (map run_key (runs ?s))"
    by (simp_all add: example_lineage_def run_key_def expired_parent_def example_run_def)
  have needed: "r_tenantId (example_run Run_running) = r_tenantId expired_parent \<and>
      r_retentionRootRunId (example_run Run_running) = r_retentionRootRunId expired_parent \<and> still_needed ?s (example_run Run_running)"
    by (simp add: still_needed_def run_ended_def expired_parent_def example_run_def)
  have "positive_safe (mo_runBatchSize ?o)" "positive_safe (mo_maxBatches ?o)" by (simp_all add: positive_safe_def)
  from maintenance_round [OF rows(4) this, of "\<lambda>n. replicate n 0" "\<lambda>x. x"] obtain blocks streams res s'
    where round: "run (runStorageMaintenanceOnce (\<lambda>n. replicate n 0) (\<lambda>x. x) ?o) ?s = (Inr (blocks, streams, Inr res), s')"
      and lock: "rr_lockAcquired res \<longleftrightarrow> RUN_RETENTION_LOCK_KEY \<notin> set (locks ?s)"
      and keep: "\<forall>x \<in> set (runs ?s). \<forall>y \<in> set (runs ?s). r_tenantId y = r_tenantId x \<and>
        r_retentionRootRunId y = r_retentionRootRunId x \<and> still_needed ?s y \<longrightarrow> x \<in> set (runs s') \<and>
        filter (\<lambda>e. (e_tenantId e, e_runId e) = run_key x) (events s') = filter (\<lambda>e. (e_tenantId e, e_runId e) = run_key x) (events ?s)"
    by (elim exE conjE) (rule that)
  have "expired_parent \<in> set (runs s')" using keep rows(1,2) needed by blast
  moreover have "rr_lockAcquired res" using lock rows(3) by simp
  ultimately show ?thesis using round by blast
qed

end
