(* ===== verification/Configuration.thy ===== *)
theory Configuration
  imports Dispatcher Ownership
begin

text \<open>
  The configuration of both processes, read from environment variables: \<open>src/dispatcher/config.ts\<close>,
  \<open>src/config.ts\<close>, \<open>src/dispatcher/secrets.ts\<close> and the table of static endpoints of
  \<open>src/dispatcher/static-activation.ts\<close>. An environment maps names to values; \<open>??\<close> takes the first
  one that is set, be it empty. Numbers are exact integers: JavaScript rounds those beyond \<open>2^53\<close>.
  The error texts are left out.
\<close>

datatype config_error =
    Missing_world_url
  | Renewal_too_slow int int
  | Bad_endpoint_entry string
  | Duplicate_endpoint string
  | Unusable_endpoint string endpoint_error
  | No_endpoint_named
  | Two_activations
  | No_activation
  | Pool_too_small int
  | Budget_too_small int
  | Invalid_compaction string
  | Invalid_runner string

type_synonym env = "string \<Rightarrow> string option"

section \<open>Numbers in text\<close>

definition js_space :: "char \<Rightarrow> bool" where
  "js_space c \<longleftrightarrow> c \<in> {CHR 0x09, CHR 0x0A, CHR 0x0B, CHR 0x0C, CHR 0x0D, CHR 0x20, CHR 0xA0}"

definition trim :: "string \<Rightarrow> string" where
  "trim v = rev (dropWhile js_space (rev (dropWhile js_space v)))"

text \<open>\<open>Number.parseInt(v, 10)\<close> when it is finite: the longest prefix of digits behind white space and a sign.\<close>

definition is_digit :: "char \<Rightarrow> bool" where
  "is_digit c \<longleftrightarrow> char_digit c \<noteq> None"

definition parse_int :: "string \<Rightarrow> int option" where
  "parse_int v =
     (let body = dropWhile js_space v;
          negative = (body \<noteq> [] \<and> hd body = CHR ''-'');
          signed = (body \<noteq> [] \<and> (hd body = CHR ''-'' \<or> hd body = CHR ''+''));
          digits = takeWhile is_digit (if signed then tl body else body)
      in case undec digits of None \<Rightarrow> None
         | Some n \<Rightarrow> if n < 2 ^ 1024 - 2 ^ 970 then Some (if negative then - int n else int n) else None)"

definition positiveNumber :: "string option \<Rightarrow> int \<Rightarrow> int" where
  "positiveNumber v fallback = (case parse_int (case v of Some x \<Rightarrow> x | None \<Rightarrow> []) of
     Some n \<Rightarrow> if 0 < n then n else fallback | None \<Rightarrow> fallback)"

definition nonNegativeNumber :: "string option \<Rightarrow> int \<Rightarrow> int" where
  "nonNegativeNumber v fallback = (case parse_int (case v of Some x \<Rightarrow> x | None \<Rightarrow> []) of
     Some n \<Rightarrow> if 0 \<le> n then n else fallback | None \<Rightarrow> fallback)"

definition optionalNonNegativeNumber :: "string option \<Rightarrow> int option" where
  "optionalNonNegativeNumber v = (case parse_int (case v of Some x \<Rightarrow> x | None \<Rightarrow> []) of
     Some n \<Rightarrow> if 0 \<le> n then Some n else None | None \<Rightarrow> None)"

section \<open>Settings\<close>

fun nullish :: "'a option list \<Rightarrow> 'a option" where
  "nullish [] = None"
| "nullish (None # xs) = nullish xs"
| "nullish (Some x # xs) = Some x"

definition truthy :: "string option \<Rightarrow> string option" where
  "truthy v = (if v = Some [] then None else v)"

definition resolveConnectionString :: "env \<Rightarrow> config_error + string" where
  "resolveConnectionString env = (case truthy (nullish [env ''WORKFLOW_WORLD_URL'', env ''EVELAND_WORKFLOW_WORLD_URL'']) of
     None \<Rightarrow> Inl Missing_world_url | Some url \<Rightarrow> Inr url)"

definition resolveStreamCompaction :: "string option \<Rightarrow> config_error + bool" where
  "resolveStreamCompaction v = (case v of None \<Rightarrow> Inr True
     | Some x \<Rightarrow> if x \<in> {[], ''on'', ''true'', ''1''} then Inr True
         else if x \<in> {''off'', ''false'', ''0''} then Inr False else Inl (Invalid_compaction x))"

datatype runner_mode = Embedded | External

definition resolveRunnerMode :: "string option \<Rightarrow> config_error + runner_mode" where
  "resolveRunnerMode v = (case v of None \<Rightarrow> Inr Embedded
     | Some x \<Rightarrow> if x = ''external'' then Inr External
         else if x = ''embedded'' \<or> x = [] then Inr Embedded else Inl (Invalid_runner x))"

definition resolveSecretWithDevFallback :: "env \<Rightarrow> string option \<Rightarrow> string \<Rightarrow> string option" where
  "resolveSecretWithDevFallback env explicit fallback = (case truthy explicit of Some v \<Rightarrow> Some v
     | None \<Rightarrow> if env ''NODE_ENV'' = Some ''development'' \<or> env ''NODE_ENV'' = Some ''test'' then Some fallback else None)"

definition resolveDispatchRuntimeSecret :: "env \<Rightarrow> string option" where
  "resolveDispatchRuntimeSecret env =
     resolveSecretWithDevFallback env (readRuntimeSecretFromEnv env) ''eveland-dev-scheduler-runtime-secret''"

section \<open>Static endpoints\<close>

fun split_on :: "'a \<Rightarrow> 'a list \<Rightarrow> 'a list list" where
  "split_on c [] = [[]]"
| "split_on c (x # xs) = (if x = c then [] # split_on c xs
     else case split_on c xs of [] \<Rightarrow> [[x]] | w # ws \<Rightarrow> (x # w) # ws)"

text \<open>\<open>in\<close> on an object literal also finds the names of \<open>Object.prototype\<close>.\<close>

definition object_prototype :: "string list" where
  "object_prototype = [''constructor'', ''__defineGetter__'', ''__defineSetter__'', ''hasOwnProperty'',
     ''__lookupGetter__'', ''__lookupSetter__'', ''isPrototypeOf'', ''propertyIsEnumerable'', ''toString'',
     ''valueOf'', ''__proto__'', ''toLocaleString'']"

text \<open>One comma-separated entry, split at its first \<open>=\<close>; \<open>None\<close> is a blank one.\<close>

definition endpoint_entry :: "string \<Rightarrow> config_error + (string \<times> string) option" where
  "endpoint_entry pair = (let entry = trim pair in
     if entry = [] then Inr None
     else let separated = (CHR ''='' \<in> set entry);
         deploymentId = (if separated then trim (takeWhile (\<lambda>c. c \<noteq> CHR ''='') entry) else []);
         origin = (if separated then trim (tl (dropWhile (\<lambda>c. c \<noteq> CHR ''='') entry)) else [])
       in if deploymentId = [] \<or> origin = [] then Inl (Bad_endpoint_entry entry) else Inr (Some (deploymentId, origin)))"

fun endpoint_entries :: "(string \<Rightarrow> url option) \<Rightarrow> string list \<Rightarrow> (string \<times> string) list \<Rightarrow> config_error + (string \<times> string) list" where
  "endpoint_entries parse_url [] endpoints = Inr endpoints"
| "endpoint_entries parse_url (pair # pairs) endpoints =
     bindE (endpoint_entry pair) (\<lambda>entry. case entry of
       None \<Rightarrow> endpoint_entries parse_url pairs endpoints
     | Some (deploymentId, origin) \<Rightarrow>
         if deploymentId \<in> fst ` set endpoints \<or> deploymentId \<in> set object_prototype then Inl (Duplicate_endpoint deploymentId)
         else (case parseEndpointUrl parse_url origin of Inl e \<Rightarrow> Inl (Unusable_endpoint deploymentId e)
           | Inr u \<Rightarrow> endpoint_entries parse_url pairs (endpoints @ [(deploymentId, u)])))"

definition parseStaticEndpoints :: "(string \<Rightarrow> url option) \<Rightarrow> string \<Rightarrow> config_error + (string \<times> string) list" where
  "parseStaticEndpoints parse_url v = bindE (endpoint_entries parse_url (split_on (CHR '','') v) []) (\<lambda>endpoints.
     if endpoints = [] then Inl No_endpoint_named else Inr endpoints)"

section \<open>The dispatcher\<close>

record dispatcher_configuration =
  dc_worldUrl :: string
  dc_apiUrl :: "string option"
  dc_staticEndpoints :: "(string \<times> string) list option"
  dc_poolSize :: int
  dc_concurrency :: int
  dc_pollIntervalMs :: int
  dc_maxInFlightPerTenant :: int
  dc_dispatchTimeoutMs :: int
  dc_leaseRenewIntervalMs :: int
  dc_activationLeaseTtlMs :: int
  dc_queueGcIntervalMs :: int
  dc_timerSweepIntervalMs :: int
  dc_bootRecoveryDeploymentsPerWave :: int
  dc_bootRecoveryWaveIntervalMs :: int
  dc_executorFailureLimit :: int
  dc_executorFailureMinSpanMs :: int
  dc_maintenanceIntervalMs :: int
  dc_maintenanceStreamBatchSize :: int
  dc_maintenanceMaxBatches :: int
  dc_maintenanceMaxStreamsToPack :: int
  dc_maintenanceRunBatchSize :: int
  dc_maintenanceCompactSnapshots :: bool
  dc_ownershipLivenessMs :: int
  dc_ownershipRetryIntervalMs :: int
  dc_ownershipWaitMs :: "int option"

definition DEFAULT_ACTIVATION_LEASE_TTL_MS :: int where "DEFAULT_ACTIVATION_LEASE_TTL_MS = 180000"
definition DEFAULT_BOOT_RECOVERY_DEPLOYMENTS_PER_WAVE :: int where "DEFAULT_BOOT_RECOVERY_DEPLOYMENTS_PER_WAVE = 4"
definition DEFAULT_BOOT_RECOVERY_WAVE_INTERVAL_MS :: int where "DEFAULT_BOOT_RECOVERY_WAVE_INTERVAL_MS = 30000"
definition MIN_DISPATCHER_POOL_SIZE :: int where "MIN_DISPATCHER_POOL_SIZE = 4"
definition DEFAULT_OWNERSHIP_LIVENESS_MS :: int where "DEFAULT_OWNERSHIP_LIVENESS_MS = 90000"
definition DEFAULT_TIMER_SWEEP_INTERVAL_MS :: int where "DEFAULT_TIMER_SWEEP_INTERVAL_MS = 30000"
definition DEFAULT_EXECUTOR_FAILURE_LIMIT :: int where "DEFAULT_EXECUTOR_FAILURE_LIMIT = 5"
definition DEFAULT_EXECUTOR_FAILURE_MIN_SPAN_MS :: int where "DEFAULT_EXECUTOR_FAILURE_MIN_SPAN_MS = 60000"

definition deriveMaxInFlightPerTenant :: "int \<Rightarrow> int" where
  "deriveMaxInFlightPerTenant cpuCoreCount = max 2 (min 16 cpuCoreCount)"

definition checked :: "bool \<Rightarrow> 'e \<Rightarrow> 'e + unit" where
  "checked ok e = (if ok then Inr () else Inl e)"

definition resolveDispatcherConfig :: "(string \<Rightarrow> url option) \<Rightarrow> int \<Rightarrow> env \<Rightarrow> config_error + dispatcher_configuration" where
  "resolveDispatcherConfig parse_url cpus env =
     bindE (case truthy (nullish [env ''WORKFLOW_WORLD_BOOTSTRAP_URL'', env ''EVELAND_WORKFLOW_WORLD_BOOTSTRAP_URL'',
         env ''WORKFLOW_WORLD_URL'', env ''EVELAND_WORKFLOW_WORLD_URL'']) of
       None \<Rightarrow> Inl Missing_world_url | Some url \<Rightarrow> Inr url) (\<lambda>worldUrl.
     let activationLeaseTtlMs = positiveNumber (env ''WORKFLOW_DISPATCHER_ACTIVATION_LEASE_TTL_MS'') DEFAULT_ACTIVATION_LEASE_TTL_MS;
         leaseRenewIntervalMs = positiveNumber (env ''WORKFLOW_DISPATCHER_LEASE_RENEW_INTERVAL_MS'')
           (max 1000 (activationLeaseTtlMs div 3)) in
     bindE (checked (leaseRenewIntervalMs < activationLeaseTtlMs) (Renewal_too_slow leaseRenewIntervalMs activationLeaseTtlMs)) (\<lambda>_.
     let apiUrl = truthy (env ''WORKFLOW_DISPATCHER_ACTIVATION_API_URL'') in
     bindE (case truthy (env ''WORKFLOW_DISPATCHER_STATIC_ENDPOINTS'') of None \<Rightarrow> Inr None
       | Some v \<Rightarrow> bindE (parseStaticEndpoints parse_url v) (\<lambda>es. Inr (Some es))) (\<lambda>staticEndpoints.
     bindE (checked (apiUrl = None \<or> staticEndpoints = None) Two_activations) (\<lambda>_.
     bindE (checked (apiUrl \<noteq> None \<or> staticEndpoints \<noteq> None) No_activation) (\<lambda>_.
     let poolSize = positiveNumber (env ''WORKFLOW_DISPATCHER_POOL_SIZE'') 10 in
     bindE (checked (MIN_DISPATCHER_POOL_SIZE \<le> poolSize) (Pool_too_small poolSize)) (\<lambda>_.
     let concurrency = positiveNumber (env ''WORKFLOW_DISPATCHER_CONCURRENCY'') (max 1 (poolSize - 2));
         ownershipLivenessMs = positiveNumber (env ''WORKFLOW_DISPATCHER_OWNERSHIP_LIVENESS_MS'') DEFAULT_OWNERSHIP_LIVENESS_MS in
     bindE (checked (MIN_OWNERSHIP_LIVENESS_MS \<le> ownershipLivenessMs) (Budget_too_small ownershipLivenessMs)) (\<lambda>_.
     bindE (resolveStreamCompaction (nullish [env ''WORKFLOW_WORLD_STREAM_COMPACTION'', env ''EVELAND_WORKFLOW_STREAM_COMPACTION'']))
       (\<lambda>compact.
     Inr \<lparr>dc_worldUrl = worldUrl, dc_apiUrl = apiUrl, dc_staticEndpoints = staticEndpoints,
       dc_poolSize = poolSize, dc_concurrency = concurrency,
       dc_pollIntervalMs = positiveNumber (env ''WORKFLOW_DISPATCHER_POLL_INTERVAL_MS'') 500,
       dc_maxInFlightPerTenant = positiveNumber (env ''WORKFLOW_DISPATCHER_MAX_INFLIGHT_PER_TENANT'') (deriveMaxInFlightPerTenant cpus),
       dc_dispatchTimeoutMs = positiveNumber (env ''WORKFLOW_DISPATCHER_DISPATCH_TIMEOUT_MS'') 900000,
       dc_leaseRenewIntervalMs = leaseRenewIntervalMs, dc_activationLeaseTtlMs = activationLeaseTtlMs,
       dc_queueGcIntervalMs = positiveNumber (env ''WORKFLOW_DISPATCHER_QUEUE_GC_INTERVAL_MS'') 300000,
       dc_timerSweepIntervalMs = positiveNumber (env ''WORKFLOW_DISPATCHER_TIMER_SWEEP_INTERVAL_MS'') DEFAULT_TIMER_SWEEP_INTERVAL_MS,
       dc_bootRecoveryDeploymentsPerWave = positiveNumber (env ''WORKFLOW_DISPATCHER_BOOT_RECOVERY_DEPLOYMENTS_PER_WAVE'')
         DEFAULT_BOOT_RECOVERY_DEPLOYMENTS_PER_WAVE,
       dc_bootRecoveryWaveIntervalMs = nonNegativeNumber (env ''WORKFLOW_DISPATCHER_BOOT_RECOVERY_WAVE_INTERVAL_MS'')
         DEFAULT_BOOT_RECOVERY_WAVE_INTERVAL_MS,
       dc_executorFailureLimit = positiveNumber (env ''WORKFLOW_DISPATCHER_EXECUTOR_FAILURE_LIMIT'') DEFAULT_EXECUTOR_FAILURE_LIMIT,
       dc_executorFailureMinSpanMs = nonNegativeNumber (env ''WORKFLOW_DISPATCHER_EXECUTOR_FAILURE_MIN_SPAN_MS'')
         DEFAULT_EXECUTOR_FAILURE_MIN_SPAN_MS,
       dc_maintenanceIntervalMs = nonNegativeNumber (env ''WORKFLOW_DISPATCHER_MAINTENANCE_INTERVAL_MS'') 60000,
       dc_maintenanceStreamBatchSize = positiveNumber (env ''WORKFLOW_DISPATCHER_MAINTENANCE_STREAM_BATCH_SIZE'') 50000,
       dc_maintenanceMaxBatches = positiveNumber (env ''WORKFLOW_DISPATCHER_MAINTENANCE_MAX_BATCHES'') 20,
       dc_maintenanceMaxStreamsToPack = positiveNumber (env ''WORKFLOW_DISPATCHER_MAINTENANCE_MAX_STREAMS_TO_PACK'') 100,
       dc_maintenanceRunBatchSize = positiveNumber (env ''WORKFLOW_DISPATCHER_MAINTENANCE_RUN_BATCH_SIZE'') 1000,
       dc_maintenanceCompactSnapshots = compact, dc_ownershipLivenessMs = ownershipLivenessMs,
       dc_ownershipRetryIntervalMs = positiveNumber (env ''WORKFLOW_DISPATCHER_OWNERSHIP_RETRY_INTERVAL_MS'') 5000,
       dc_ownershipWaitMs = optionalNonNegativeNumber (env ''WORKFLOW_DISPATCHER_OWNERSHIP_WAIT_MS'')\<rparr>))))))))"

section \<open>What a resolved configuration promises\<close>

lemma positiveNumber_pos: "0 < fallback \<Longrightarrow> 0 < positiveNumber v fallback"
  by (simp add: positiveNumber_def split: option.split)

lemma nonNegativeNumber_nonneg: "0 \<le> fallback \<Longrightarrow> 0 \<le> nonNegativeNumber v fallback"
  by (simp add: nonNegativeNumber_def split: option.split)

lemma checked_Inr [simp]: "checked ok e = Inr x \<longleftrightarrow> ok"
  by (simp add: checked_def)

lemma endpoint_entry_named: "endpoint_entry pair = Inr (Some (d, v)) \<Longrightarrow> d \<noteq> [] \<and> v \<noteq> []"
  by (auto simp: endpoint_entry_def Let_def split: if_splits)

lemma endpoint_entries_ok:
  "endpoint_entries parse_url pairs endpoints = Inr es \<Longrightarrow> distinct (map fst endpoints) \<Longrightarrow>
   list_all (\<lambda>(d, u). d \<noteq> [] \<and> (\<exists>v. parseEndpointUrl parse_url v = Inr u)) endpoints \<Longrightarrow>
   distinct (map fst es) \<and> list_all (\<lambda>(d, u). d \<noteq> [] \<and> (\<exists>v. parseEndpointUrl parse_url v = Inr u)) es"
proof (induction pairs arbitrary: endpoints)
  case (Cons pair pairs)
  from Cons.prems(1) obtain entry where entry: "endpoint_entry pair = Inr entry" by auto
  show ?case
  proof (cases entry)
    case None
    with Cons entry show ?thesis by simp
  next
    case (Some e)
    obtain d v where e: "e = (d, v)" by (cases e)
    with Cons.prems(1) entry Some obtain u where u: "d \<notin> fst ` set endpoints" "parseEndpointUrl parse_url v = Inr u"
      "endpoint_entries parse_url pairs (endpoints @ [(d, u)]) = Inr es"
      by (auto split: if_splits sum.splits)
    with Cons.prems(2,3) endpoint_entry_named [of pair d v] entry Some e show ?thesis
      by (intro Cons.IH [OF u(3)]) auto
  qed
qed auto

lemma static_endpoints_ok:
  assumes "parseStaticEndpoints parse_url v = Inr es"
  shows "es \<noteq> [] \<and> distinct (map fst es) \<and> list_all (\<lambda>(d, u). d \<noteq> [] \<and> (\<exists>v. parseEndpointUrl parse_url v = Inr u)) es"
  using assms endpoint_entries_ok [of parse_url _ "[]" es]
  by (auto simp: parseStaticEndpoints_def bindE_eq_Inr split: if_splits)

text \<open>Every number and choice of a configuration that resolves is in its range.\<close>

definition sound_config :: "(string \<Rightarrow> url option) \<Rightarrow> dispatcher_configuration \<Rightarrow> bool" where
  "sound_config parse_url k \<longleftrightarrow> dc_worldUrl k \<noteq> [] \<and>
     0 < dc_leaseRenewIntervalMs k \<and> dc_leaseRenewIntervalMs k < dc_activationLeaseTtlMs k \<and>
     4 \<le> dc_poolSize k \<and> 1 \<le> dc_concurrency k \<and> 3000 \<le> dc_ownershipLivenessMs k \<and>
     0 < dc_ownershipRetryIntervalMs k \<and> (case dc_ownershipWaitMs k of Some n \<Rightarrow> 0 \<le> n | None \<Rightarrow> True) \<and>
     0 < dc_pollIntervalMs k \<and> 0 < dc_maxInFlightPerTenant k \<and> 0 < dc_dispatchTimeoutMs k \<and>
     0 < dc_queueGcIntervalMs k \<and> 0 < dc_timerSweepIntervalMs k \<and>
     0 < dc_bootRecoveryDeploymentsPerWave k \<and> 0 \<le> dc_bootRecoveryWaveIntervalMs k \<and>
     0 < dc_executorFailureLimit k \<and> 0 \<le> dc_executorFailureMinSpanMs k \<and> 0 \<le> dc_maintenanceIntervalMs k \<and>
     0 < dc_maintenanceStreamBatchSize k \<and> 0 < dc_maintenanceMaxBatches k \<and>
     0 < dc_maintenanceMaxStreamsToPack k \<and> 0 < dc_maintenanceRunBatchSize k \<and>
     (case dc_staticEndpoints k of None \<Rightarrow> dc_apiUrl k \<noteq> None \<and> dc_apiUrl k \<noteq> Some []
      | Some es \<Rightarrow> dc_apiUrl k = None \<and> es \<noteq> [] \<and> distinct (map fst es) \<and>
         list_all (\<lambda>(d, u). d \<noteq> [] \<and> (\<exists>v. parseEndpointUrl parse_url v = Inr u)) es)"

lemma truthy_nonempty: "truthy v = Some x \<Longrightarrow> x \<noteq> []" "truthy v \<noteq> Some []"
  by (auto simp: truthy_def split: if_splits)

lemma positiveNumber_ge1: "0 < fallback \<Longrightarrow> 1 \<le> positiveNumber v fallback"
  using positiveNumber_pos [of fallback v] by simp

lemma optional_nonneg: "case optionalNonNegativeNumber v of Some n \<Rightarrow> 0 \<le> n | None \<Rightarrow> True"
  by (simp add: optionalNonNegativeNumber_def split: option.split)

lemmas default_defs = DEFAULT_ACTIVATION_LEASE_TTL_MS_def DEFAULT_BOOT_RECOVERY_DEPLOYMENTS_PER_WAVE_def
  DEFAULT_BOOT_RECOVERY_WAVE_INTERVAL_MS_def MIN_DISPATCHER_POOL_SIZE_def DEFAULT_OWNERSHIP_LIVENESS_MS_def
  DEFAULT_TIMER_SWEEP_INTERVAL_MS_def DEFAULT_EXECUTOR_FAILURE_LIMIT_def DEFAULT_EXECUTOR_FAILURE_MIN_SPAN_MS_def
  MIN_OWNERSHIP_LIVENESS_MS_def deriveMaxInFlightPerTenant_def

lemma resolved_url: "(case truthy v of None \<Rightarrow> Inl e | Some url \<Rightarrow> Inr url) = Inr w \<longleftrightarrow> truthy v = Some w"
  by (simp split: option.split)

lemma resolved_endpoints:
  assumes "(case truthy v of None \<Rightarrow> Inr None | Some x \<Rightarrow> bindE (parseStaticEndpoints parse_url x) (\<lambda>es. Inr (Some es))) = Inr statics"
    and "api = None \<or> statics = None" and "api \<noteq> None \<or> statics \<noteq> None" and "api \<noteq> Some []"
  shows "case statics of None \<Rightarrow> api \<noteq> None \<and> api \<noteq> Some []
      | Some es \<Rightarrow> api = None \<and> es \<noteq> [] \<and> distinct (map fst es) \<and>
         list_all (\<lambda>(d, u). d \<noteq> [] \<and> (\<exists>v. parseEndpointUrl parse_url v = Inr u)) es"
  using assms static_endpoints_ok [of parse_url] by (auto split: option.splits)

lemma resolve_sound:
  assumes "resolveDispatcherConfig parse_url cpus env = Inr k"
  shows "sound_config parse_url k"
  using assms
  unfolding resolveDispatcherConfig_def Let_def bindE_eq_Inr checked_Inr resolved_url default_defs
  apply (elim exE conjE)
  apply (simp only: sum.inject)
  apply hypsubst
  apply (unfold sound_config_def dispatcher_configuration.simps)
  by (intro conjI positiveNumber_pos nonNegativeNumber_nonneg positiveNumber_ge1 optional_nonneg;
      (assumption | rule truthy_nonempty, assumption | rule resolved_endpoints, assumption, assumption, assumption, rule truthy_nonempty(2) | linarith | simp))

lemma resolved_url_of:
  "resolveDispatcherConfig parse_url cpus env = Inr k \<Longrightarrow>
     truthy (nullish [env ''WORKFLOW_WORLD_BOOTSTRAP_URL'', env ''EVELAND_WORKFLOW_WORLD_BOOTSTRAP_URL'',
       env ''WORKFLOW_WORLD_URL'', env ''EVELAND_WORKFLOW_WORLD_URL'']) = Some (dc_worldUrl k)"
  unfolding resolveDispatcherConfig_def Let_def bindE_eq_Inr checked_Inr resolved_url
  by (elim exE conjE, simp only: sum.inject, hypsubst, simp only: dispatcher_configuration.simps)

text \<open>
  C35. A dispatcher configuration that resolves is fit for what it configures: its numbers are in
  range and exactly one way of activation is set; a lease kept by its renewal interval is valid at every
  renewal until the request is aborted, and at the one that aborts it; the owner's session times
  out after exactly the configured budget, with two heartbeats to spare; and when neither
  bootstrap URL variable is set (a documented setting that gives the dispatcher a database of its own choice), the
  dispatcher reads the very database the deployments write to.
\<close>

theorem resolved_config_sound:
  assumes "resolveDispatcherConfig parse_url cpus env = Inr k"
  defines "allowed \<equiv> allowedFailures (Some (dc_activationLeaseTtlMs k)) (dc_leaseRenewIntervalMs k)"
    and "session \<equiv> deriveOwnershipLiveness (of_int (dc_ownershipLivenessMs k))"
  shows "sound_config parse_url k \<and>
    (\<forall>answers. if aborted (renewals allowed answers)
       then \<exists>n \<le> length answers. int (failing_since (take n answers)) = allowed + 1 \<and>
         int (failing_since (take n answers)) * dc_leaseRenewIntervalMs k \<le> dc_activationLeaseTtlMs k
       else (int (failing_since answers) + 1) * dc_leaseRenewIntervalMs k \<le> dc_activationLeaseTtlMs k) \<and>
    idleSessionTimeoutMs session = dc_ownershipLivenessMs k \<and> 2 * heartbeatIntervalMs session < dc_ownershipLivenessMs k \<and>
    (env ''WORKFLOW_WORLD_BOOTSTRAP_URL'' = None \<and> env ''EVELAND_WORKFLOW_WORLD_BOOTSTRAP_URL'' = None \<longrightarrow>
       resolveConnectionString env = Inr (dc_worldUrl k))"
proof (intro conjI)
  show sound: "sound_config parse_url k" by (rule resolve_sound [OF assms(1)])
  then have "0 < dc_leaseRenewIntervalMs k" "dc_leaseRenewIntervalMs k \<le> dc_activationLeaseTtlMs k"
    by (simp_all add: sound_config_def)
  note valid = lease_valid [OF this, folded allowed_def]
  then show "\<forall>answers. if aborted (renewals allowed answers)
       then \<exists>n \<le> length answers. int (failing_since (take n answers)) = allowed + 1 \<and>
         int (failing_since (take n answers)) * dc_leaseRenewIntervalMs k \<le> dc_activationLeaseTtlMs k
       else (int (failing_since answers) + 1) * dc_leaseRenewIntervalMs k \<le> dc_activationLeaseTtlMs k"
    by simp
  have "3000 \<le> dc_ownershipLivenessMs k" using sound by (simp add: sound_config_def)
  then show timeout: "idleSessionTimeoutMs session = dc_ownershipLivenessMs k"
    by (simp add: session_def deriveOwnershipLiveness_def MIN_OWNERSHIP_LIVENESS_MS_def Let_def)
  show "2 * heartbeatIntervalMs session < dc_ownershipLivenessMs k"
    using ownership_budget(2) [of "of_int (dc_ownershipLivenessMs k)", folded session_def] timeout by simp
  show "env ''WORKFLOW_WORLD_BOOTSTRAP_URL'' = None \<and> env ''EVELAND_WORKFLOW_WORLD_BOOTSTRAP_URL'' = None \<longrightarrow>
      resolveConnectionString env = Inr (dc_worldUrl k)"
    using resolved_url_of [OF assms(1)] by (auto simp: resolveConnectionString_def)
qed

definition example_env :: env where
  "example_env = [''WORKFLOW_WORLD_URL'' \<mapsto> ''postgres://db'', ''WORKFLOW_DISPATCHER_STATIC_ENDPOINTS'' \<mapsto> '' a=http://h , b=http://g'',
     ''WORKFLOW_DISPATCHER_LEASE_RENEW_INTERVAL_MS'' \<mapsto> '' 50000ms'', ''WORKFLOW_DISPATCHER_POOL_SIZE'' \<mapsto> ''x'']"

definition example_url :: "string \<Rightarrow> url option" where
  "example_url v = Some \<lparr>url_protocol = ''http:'', url_username = [], url_password = [], url_pathname = ''/'',
     url_search = [], url_hash = [], url_origin = v\<rparr>"

lemma example_resolves:
  "\<exists>k. resolveDispatcherConfig example_url 8 example_env = Inr k \<and> dc_leaseRenewIntervalMs k = 50000 \<and> dc_poolSize k = 10 \<and>
     dc_staticEndpoints k = Some [(''a'', ''http://h''), (''b'', ''http://g'')]"
proof -
  have statics: "parseStaticEndpoints example_url '' a=http://h , b=http://g'' = Inr [(''a'', ''http://h''), (''b'', ''http://g'')]"
    by (simp add: parseStaticEndpoints_def endpoint_entry_def trim_def js_space_def parseEndpointUrl_def example_url_def
        object_prototype_def)
  have renew: "parse_int '' 50000ms'' = Some 50000"
    by (simp add: parse_int_def js_space_def is_digit_def char_digit_def undec_def Let_def)
  have none: "parse_int [] = None" "parse_int ''x'' = None"
    by (simp_all add: parse_int_def js_space_def is_digit_def char_digit_def undec_def)
  show ?thesis
    by (simp add: resolveDispatcherConfig_def example_env_def positiveNumber_def renew none statics default_defs truthy_def
        checked_def resolveStreamCompaction_def Let_def)
qed

theorem resolved_config_sound_witness:
  "\<exists>k. resolveDispatcherConfig example_url 8 example_env = Inr k \<and> sound_config example_url k \<and>
     dc_leaseRenewIntervalMs k = 50000 \<and> dc_poolSize k = 10 \<and>
     dc_staticEndpoints k = Some [(''a'', ''http://h''), (''b'', ''http://g'')] \<and>
     resolveConnectionString example_env = Inr (dc_worldUrl k)"
proof -
  obtain k where k: "resolveDispatcherConfig example_url 8 example_env = Inr k" "dc_leaseRenewIntervalMs k = 50000"
      "dc_poolSize k = 10" "dc_staticEndpoints k = Some [(''a'', ''http://h''), (''b'', ''http://g'')]"
    using example_resolves by blast
  have "example_env ''WORKFLOW_WORLD_BOOTSTRAP_URL'' = None" "example_env ''EVELAND_WORKFLOW_WORLD_BOOTSTRAP_URL'' = None"
    by (simp_all add: example_env_def)
  with resolved_config_sound [OF k(1)] k show ?thesis by blast
qed

end
