(* ===== verification/Activation.thy ===== *)
theory Activation
  imports Configuration
begin

text \<open>
  Waking a deployment: the client of the control plane's activation API
  (\<open>src/dispatcher/activation-client.ts\<close>) and the client for executors that are always running
  (\<open>src/dispatcher/static-activation.ts\<close>). The control plane is a function from the number of the
  request to its answer; the requests sent are kept in the state. An aborted request is one that fails.
\<close>

section \<open>Requests\<close>

definition is_unreserved :: "char \<Rightarrow> bool" where
  "is_unreserved c \<longleftrightarrow> (let n = (of_char c :: nat) in 48 \<le> n \<and> n < 58 \<or> 65 \<le> n \<and> n < 91 \<or> 97 \<le> n \<and> n < 123) \<or>
     c \<in> set ''-_.!~*()'' \<or> c = CHR 0x27"

definition hex_digit :: "nat \<Rightarrow> char" where
  "hex_digit n = (if n < 10 then char_of (48 + n) else char_of (55 + n))"

definition percent :: "nat \<Rightarrow> string" where
  "percent b = [CHR ''%'', hex_digit (b div 16), hex_digit (b mod 16)]"

definition encodeURIComponent :: "string \<Rightarrow> string" where
  "encodeURIComponent v = concat (map (\<lambda>c. if is_unreserved c then [c]
     else let n = (of_char c :: nat) in
       if n < 128 then percent n else percent (192 + n div 64) @ percent (128 + n mod 64)) v)"

record control_request =
  cr_method :: string
  cr_url :: string
  cr_headers :: "(string \<times> string) list"
  cr_body :: "json option"

record control =
  ct_requests :: "control_request list"

definition fetchP :: "(nat \<Rightarrow> error + http_response) \<Rightarrow> control_request \<Rightarrow> ('s control_scheme, error, http_response) prog" where
  "fetchP answer q = bindP (stmt (\<lambda>s. (answer (length (ct_requests s)), s\<lparr>ct_requests := ct_requests s @ [q]\<rparr>)))
     (\<lambda>x. case x of Inl e \<Rightarrow> Throw e | Inr r \<Rightarrow> Ret r)"

section \<open>The activation API\<close>

record activation_config =
  an_apiUrl :: string
  an_serviceToken :: string
  an_instanceId :: "string option"
  an_maxDrainRetries :: nat

definition api_base :: "activation_config \<Rightarrow> string" where
  "api_base cfg = (if an_apiUrl cfg \<noteq> [] \<and> last (an_apiUrl cfg) = CHR ''/'' then butlast (an_apiUrl cfg) else an_apiUrl cfg)"

definition api_headers :: "activation_config \<Rightarrow> (string \<times> string) list" where
  "api_headers cfg = [(''authorization'', ''Bearer '' @ an_serviceToken cfg), (''content-type'', ''application/json'')] @
     (case truthy (an_instanceId cfg) of Some i \<Rightarrow> [(''x-eveland-dispatcher-instance'', i)] | None \<Rightarrow> [])"

definition activation_request :: "activation_config \<Rightarrow> string \<Rightarrow> string \<Rightarrow> string \<Rightarrow> control_request" where
  "activation_request cfg deploymentId kind ownerId = \<lparr>cr_method = ''POST'',
     cr_url = api_base cfg @ ''/internal/runtime/activations'', cr_headers = api_headers cfg,
     cr_body = Some (JObject [(''deploymentId'', JString deploymentId), (''kind'', JString kind), (''ownerId'', JString ownerId)])\<rparr>"

definition release_request :: "activation_config \<Rightarrow> string \<Rightarrow> control_request" where
  "release_request cfg leaseId = \<lparr>cr_method = ''DELETE'',
     cr_url = api_base cfg @ ''/internal/runtime/activations/'' @ encodeURIComponent leaseId,
     cr_headers = api_headers cfg, cr_body = None\<rparr>"

definition renew_request :: "activation_config \<Rightarrow> string \<Rightarrow> control_request" where
  "renew_request cfg leaseId = \<lparr>cr_method = ''POST'',
     cr_url = api_base cfg @ ''/internal/runtime/activations/'' @ encodeURIComponent leaseId @ ''/renew'',
     cr_headers = api_headers cfg, cr_body = None\<rparr>"

definition readError :: "http_response \<Rightarrow> string" where
  "readError r = (case field ''error'' (rs_json r) of Some (JString e) \<Rightarrow> e
     | _ \<Rightarrow> ''Control API responded with HTTP '' @ decimal (rs_status r) @ ''.'')"

text \<open>A draining deployment answers 425; \<open>None\<close> is a drain that outlasts the retries.\<close>

fun activation_response :: "(nat \<Rightarrow> error + http_response) \<Rightarrow> control_request \<Rightarrow> nat \<Rightarrow> ('s control_scheme, error, http_response option) prog" where
  "activation_response answer q retries = bindP (fetchP answer q) (\<lambda>r.
     if rs_status r \<noteq> 425 then Ret (Some r)
     else case retries of 0 \<Rightarrow> Ret None | Suc n \<Rightarrow> activation_response answer q n)"

definition number_of :: "json option \<Rightarrow> rat option" where
  "number_of v = (case v of Some (JNumber n) \<Rightarrow> Some n | _ \<Rightarrow> None)"

definition string_of :: "json option \<Rightarrow> string option" where
  "string_of v = (case v of Some (JString n) \<Rightarrow> Some n | _ \<Rightarrow> None)"

definition release_lease :: "(nat \<Rightarrow> error + http_response) \<Rightarrow> activation_config \<Rightarrow> string \<Rightarrow> ('s control_scheme, error, unit) prog" where
  "release_lease answer cfg leaseId = catchP (bindP (fetchP answer (release_request cfg leaseId)) (\<lambda>_. Ret ())) (\<lambda>_. Ret ())"

text \<open>
  A \<open>workflow\<close> that is \<open>null\<close> is not \<open>undefined\<close>, and reading a property of it throws. A port is a
  whole number; the number of a refused protocol is left out of the message.
\<close>

definition refuse_protocol :: "(nat \<Rightarrow> error + http_response) \<Rightarrow> activation_config \<Rightarrow> string \<Rightarrow> ('s control_scheme, error, activation_outcome) prog" where
  "refuse_protocol answer cfg leaseId = bindP (release_lease answer cfg leaseId) (\<lambda>_.
     Ret (Cannot_activate 409 ''Control API selected a dispatch protocol outside this dispatcher's window.''))"

definition read_activation :: "(nat \<Rightarrow> error + http_response) \<Rightarrow> activation_config \<Rightarrow> http_response \<Rightarrow>
    ('s control_scheme, error, activation_outcome) prog" where
  "read_activation answer cfg r =
     (let value = rs_json r;
          endpointPort = number_of (field ''endpointPort'' (field ''runtimeInstance'' value));
          endpointUrl = string_of (field ''endpointUrl'' (field ''runtimeInstance'' value))
      in case string_of (field ''id'' (field ''lease'' value)) of
           None \<Rightarrow> Ret (Unavailable (rs_status r) ''Control API returned an invalid activation result.'')
         | Some leaseId \<Rightarrow>
             if endpointPort = None \<and> endpointUrl = None
             then Ret (Unavailable (rs_status r) ''Control API returned an invalid activation result.'')
             else let activated = Ret (Activated \<lparr>ac_leaseId = leaseId, ac_endpointPort = map_option floor endpointPort,
                      ac_endpointUrl = endpointUrl\<rparr>)
               in (case field ''workflow'' value of None \<Rightarrow> activated
                 | Some JNull \<Rightarrow> Throw PlainError
                 | Some workflow \<Rightarrow>
                     (case number_of (field ''selectedProtocol'' (Some workflow)) of
                        None \<Rightarrow> refuse_protocol answer cfg leaseId
                      | Some v \<Rightarrow> if DISPATCH_VERSION < v then refuse_protocol answer cfg leaseId else activated)))"

definition activate :: "(nat \<Rightarrow> error + http_response) \<Rightarrow> activation_config \<Rightarrow> string \<Rightarrow> string \<Rightarrow> string \<Rightarrow>
    ('s control_scheme, error, activation_outcome) prog" where
  "activate answer cfg deploymentId kind ownerId =
     bindP (activation_response answer (activation_request cfg deploymentId kind ownerId) (an_maxDrainRetries cfg)) (\<lambda>x.
     case x of None \<Rightarrow> Ret (Unavailable 425 ''Deployment is still draining after the activation retry budget.'')
     | Some r \<Rightarrow>
         if rs_status r = 409 then Ret (Cannot_activate 409 (readError r))
         else if \<not> response_ok r then Ret (Unavailable (rs_status r) (readError r))
         else read_activation answer cfg r)"

definition renew :: "(nat \<Rightarrow> error + http_response) \<Rightarrow> activation_config \<Rightarrow> string \<Rightarrow> ('s control_scheme, error, bool) prog" where
  "renew answer cfg leaseId = bindP (fetchP answer (renew_request cfg leaseId)) (\<lambda>r. Ret (response_ok r))"

section \<open>Executors that are always running\<close>

record static_client =
  sc_leases :: nat

fun static_table :: "(string \<Rightarrow> url option) \<Rightarrow> (string \<times> string) list \<Rightarrow> config_error + (string \<times> string) list" where
  "static_table parse_url [] = Inr []"
| "static_table parse_url ((d, v) # es) = (case parseEndpointUrl parse_url v of
     Inl e \<Rightarrow> Inl (Unusable_endpoint d e) | Inr u \<Rightarrow> bindE (static_table parse_url es) (\<lambda>t. Inr ((d, u) # t)))"

definition static_activate :: "(string \<times> string) list \<Rightarrow> string \<Rightarrow> ('s static_client_scheme, error, activation_outcome) prog" where
  "static_activate endpoints deploymentId = (case map_of endpoints deploymentId of
     None \<Rightarrow> Ret (Cannot_activate 409 (''Deployment '' @ deploymentId @ '' has no static endpoint configured.''))
   | Some u \<Rightarrow> stmt (\<lambda>s. let n = sc_leases s + 1 in
       (Activated \<lparr>ac_leaseId = ''static:'' @ deploymentId @ '':'' @ dec n, ac_endpointPort = None, ac_endpointUrl = Some u\<rparr>,
        s\<lparr>sc_leases := n\<rparr>)))"

section \<open>What a client promises the dispatcher\<close>

locale activation_client =
  fixes act :: "string \<Rightarrow> ('s, error, activation_outcome) prog"
  assumes activated_address: "run (act d) s = (Inr (Activated a), s') \<Longrightarrow> ac_endpointUrl a \<noteq> None \<or> ac_endpointPort a \<noteq> None"
begin

lemma activated_reachable: "run (act d) s = (Inr (Activated a), s') \<Longrightarrow> flowUrl parse_url a \<noteq> Inl No_endpoint"
  using activated_address [of d s a s'] by (auto simp: flowUrl_def parseEndpointUrl_def split: option.splits)

end

lemma run_fetchP [run_simps]:
  "run (fetchP answer q) s = (answer (length (ct_requests s)), s\<lparr>ct_requests := ct_requests s @ [q]\<rparr>)"
  by (simp add: fetchP_def run_simps split: sum.split)

lemma run_release_lease [run_simps]:
  "run (release_lease answer cfg l) s = (Inr (), s\<lparr>ct_requests := ct_requests s @ [release_request cfg l]\<rparr>)"
  by (simp add: release_lease_def run_simps split: sum.split)

text \<open>
  The lease an answer names, whether it comes with an address (a port or a URL), whether its
  \<open>workflow\<close> is \<open>null\<close>, and whether its protocol is spoken here.
\<close>

definition granted :: "http_response \<Rightarrow> string option" where
  "granted r = (if response_ok r then string_of (field ''id'' (field ''lease'' (rs_json r))) else None)"

definition has_address :: "http_response \<Rightarrow> bool" where
  "has_address r \<longleftrightarrow> number_of (field ''endpointPort'' (field ''runtimeInstance'' (rs_json r))) \<noteq> None \<or>
     string_of (field ''endpointUrl'' (field ''runtimeInstance'' (rs_json r))) \<noteq> None"

definition null_workflow :: "http_response \<Rightarrow> bool" where
  "null_workflow r \<longleftrightarrow> field ''workflow'' (rs_json r) = Some JNull"

definition speaks :: "http_response \<Rightarrow> bool" where
  "speaks r \<longleftrightarrow> (case field ''workflow'' (rs_json r) of None \<Rightarrow> True
     | Some w \<Rightarrow> (case number_of (field ''selectedProtocol'' (Some w)) of Some v \<Rightarrow> v \<le> DISPATCH_VERSION | None \<Rightarrow> False))"

text \<open>What becomes of the lease of the answer \<open>r\<close>: the leases \<open>returned\<close> when the call ends with \<open>x\<close>.\<close>

fun lease_settled :: "http_response \<Rightarrow> error + activation_outcome \<Rightarrow> string list \<Rightarrow> bool" where
  "lease_settled r (Inl e) returned \<longleftrightarrow> returned = [] \<and> granted r \<noteq> None \<and> has_address r \<and> null_workflow r"
| "lease_settled r (Inr (Activated a)) returned \<longleftrightarrow> returned = [] \<and> granted r = Some (ac_leaseId a) \<and> has_address r \<and> speaks r \<and>
     (ac_endpointUrl a \<noteq> None \<or> ac_endpointPort a \<noteq> None)"
| "lease_settled r (Inr out) returned \<longleftrightarrow> returned = (case granted r of Some l \<Rightarrow> if has_address r then [l] else [] | None \<Rightarrow> [])"

lemma run_read_activation:
  assumes "run (read_activation answer cfg r) s = (x, s')" and "response_ok r"
  shows "\<exists>returned. s' = s\<lparr>ct_requests := ct_requests s @ map (release_request cfg) returned\<rparr> \<and> lease_settled r x returned"
proof (cases "string_of (field ''id'' (field ''lease'' (rs_json r)))")
  case None
  with assms show ?thesis by (auto simp: read_activation_def granted_def Let_def)
next
  case (Some l)
  then have g: "granted r = Some l" using assms(2) by (simp add: granted_def)
  show ?thesis
  proof (cases "has_address r")
    case False
    then show ?thesis using assms Some by (intro exI [of _ "[]"]) (auto simp: read_activation_def has_address_def Let_def g)
  next
    case True
    then have eq: "read_activation answer cfg r =
        (if null_workflow r then Throw PlainError else if speaks r
         then Ret (Activated \<lparr>ac_leaseId = l,
           ac_endpointPort = map_option floor (number_of (field ''endpointPort'' (field ''runtimeInstance'' (rs_json r)))),
           ac_endpointUrl = string_of (field ''endpointUrl'' (field ''runtimeInstance'' (rs_json r)))\<rparr>)
         else refuse_protocol answer cfg l)"
      using Some by (auto simp: read_activation_def has_address_def null_workflow_def speaks_def Let_def not_less
          split: option.split json.split)
    show ?thesis
      using assms(1) True g unfolding eq
      by (intro exI [of _ "if null_workflow r \<or> speaks r then [] else [l]"])
        (auto simp: refuse_protocol_def run_simps has_address_def split: if_splits)
  qed
qed

declare activation_response.simps [simp del]

text \<open>The last answer, after \<open>n\<close> that said the deployment is draining.\<close>

lemma run_activation_response:
  "run (activation_response answer q retries) s = (x, s') \<Longrightarrow>
     \<exists>n \<le> retries. (\<forall>i < n. \<exists>d. answer (length (ct_requests s) + i) = Inr d \<and> rs_status d = 425) \<and>
       s' = s\<lparr>ct_requests := ct_requests s @ replicate (Suc n) q\<rparr> \<and>
       x = (case answer (length (ct_requests s) + n) of Inl e \<Rightarrow> Inl e | Inr r \<Rightarrow> Inr (if rs_status r = 425 then None else Some r))"
proof (induction retries arbitrary: s)
  case 0
  then show ?case
    by (cases "answer (length (ct_requests s))") (auto simp: activation_response.simps [of answer q 0] run_simps split: if_splits)
next
  case (Suc retries)
  let ?b = "length (ct_requests s)" and ?t = "s\<lparr>ct_requests := ct_requests s @ [q]\<rparr>"
  show ?case
  proof (cases "\<exists>r. answer ?b = Inr r \<and> rs_status r = 425")
    case False
    with Suc.prems show ?thesis
      by (intro exI [of _ 0], cases "answer ?b") (auto simp: activation_response.simps [of answer q "Suc retries"] run_simps)
  next
    case True
    then have "run (activation_response answer q retries) ?t = (x, s')"
      using Suc.prems by (auto simp: activation_response.simps [of answer q "Suc retries"] run_simps)
    from Suc.IH [OF this] obtain n where n: "n \<le> retries"
      and drained: "\<forall>i < n. \<exists>d. answer (Suc ?b + i) = Inr d \<and> rs_status d = 425"
      and x: "x = (case answer (Suc ?b + n) of Inl e \<Rightarrow> Inl e | Inr r \<Rightarrow> Inr (if rs_status r = 425 then None else Some r))"
      and s': "s' = s\<lparr>ct_requests := ct_requests s @ q # replicate (Suc n) q\<rparr>" by auto
    have "\<exists>d. answer (?b + i) = Inr d \<and> rs_status d = 425" if "i < Suc n" for i
      using that drained True by (cases i) auto
    with n x s' show ?thesis by (intro exI [of _ "Suc n"]) auto
  qed
qed

lemma run_activate:
  assumes "run (activate answer cfg d kind w) s = (x, s')"
  obtains n returned where "n \<le> an_maxDrainRetries cfg"
    and "\<forall>i < n. \<exists>q. answer (length (ct_requests s) + i) = Inr q \<and> rs_status q = 425"
    and "ct_requests s' = ct_requests s @ replicate (Suc n) (activation_request cfg d kind w) @ map (release_request cfg) returned"
    and "case answer (length (ct_requests s) + n) of Inl e \<Rightarrow> x = Inl e \<and> returned = [] | Inr r \<Rightarrow> lease_settled r x returned"
proof -
  let ?q = "activation_request cfg d kind w"
  obtain y t where first: "run (activation_response answer ?q (an_maxDrainRetries cfg)) s = (y, t)" by fastforce
  from run_activation_response [OF first] obtain n where n: "n \<le> an_maxDrainRetries cfg"
    and drained: "\<forall>i < n. \<exists>q. answer (length (ct_requests s) + i) = Inr q \<and> rs_status q = 425"
    and t: "t = s\<lparr>ct_requests := ct_requests s @ replicate (Suc n) ?q\<rparr>"
    and y: "y = (case answer (length (ct_requests s) + n) of Inl e \<Rightarrow> Inl e | Inr r \<Rightarrow> Inr (if rs_status r = 425 then None else Some r))" by blast
  have "\<exists>returned. s' = t\<lparr>ct_requests := ct_requests t @ map (release_request cfg) returned\<rparr> \<and>
      (case answer (length (ct_requests s) + n) of Inl e \<Rightarrow> x = Inl e \<and> returned = [] | Inr r \<Rightarrow> lease_settled r x returned)"
  proof (cases "answer (length (ct_requests s) + n)")
    case (Inl e)
    then show ?thesis using assms first y by (intro exI [of _ "[]"]) (simp add: activate_def run_simps)
  next
    case (Inr r)
    show ?thesis
    proof (cases "response_ok r")
      case True
      then have "rs_status r \<noteq> 425" "rs_status r \<noteq> 409" by (simp_all add: response_ok_def)
      with True Inr assms first y have "run (read_activation answer cfg r) t = (x, s')" by (simp add: activate_def run_simps)
      from run_read_activation [OF this True] Inr show ?thesis by auto
    next
      case False
      then have "granted r = None" by (simp add: granted_def)
      with False Inr assms first y show ?thesis
        by (intro exI [of _ "[]"]) (auto simp: activate_def run_simps split: if_splits)
    qed
  qed
  with t that [OF n drained] show thesis by auto
qed

interpretation api: activation_client "\<lambda>d. activate answer cfg d kind w" for answer cfg kind w
proof
  fix d a and s s' :: "'a control_scheme"
  assume "run (activate answer cfg d kind w) s = (Inr (Activated a), s')"
  then show "ac_endpointUrl a \<noteq> None \<or> ac_endpointPort a \<noteq> None" by (rule run_activate) (auto split: sum.splits)
qed

interpretation static: activation_client "static_activate endpoints" for endpoints
  by unfold_locales (auto simp: static_activate_def run_simps Let_def split: option.splits)

text \<open>
  C34. What becomes of a lease when a deployment is woken, however the call ends. The client asks at
  most one time more than the drain retries allow, and only after answers of 425. An activation it
  hands on carries the lease the control plane granted, a protocol this dispatcher speaks and an address
  to post to. When it answers anything else, a lease granted with an address was given back, and one
  granted without an address was not. When the call throws, the request itself failed, or the answer
  granted a lease with an address and a \<open>workflow\<close> that is \<open>null\<close>, and that lease was not given back
  either. So exactly those two kinds of answers leave a lease behind.
\<close>

theorem activation_settles_lease:
  assumes "run (activate answer cfg d kind w) s = (x, s')"
  shows "\<exists>n \<le> an_maxDrainRetries cfg. \<exists>returned.
    (\<forall>i < n. \<exists>q. answer (length (ct_requests s) + i) = Inr q \<and> rs_status q = 425) \<and>
    ct_requests s' = ct_requests s @ replicate (Suc n) (activation_request cfg d kind w) @ map (release_request cfg) returned \<and>
    (case answer (length (ct_requests s) + n) of
       Inl e \<Rightarrow> x = Inl e \<and> returned = []
     | Inr r \<Rightarrow> (case x of
         Inl e \<Rightarrow> returned = [] \<and> granted r \<noteq> None \<and> has_address r \<and> null_workflow r
       | Inr (Activated a) \<Rightarrow> returned = [] \<and> granted r = Some (ac_leaseId a) \<and> speaks r \<and> flowUrl parse_url a \<noteq> Inl No_endpoint
       | Inr _ \<Rightarrow> returned = (case granted r of Some l \<Rightarrow> if has_address r then [l] else [] | None \<Rightarrow> [])))"
proof -
  from assms obtain n returned where facts: "n \<le> an_maxDrainRetries cfg"
    "\<forall>i < n. \<exists>q. answer (length (ct_requests s) + i) = Inr q \<and> rs_status q = 425"
    "ct_requests s' = ct_requests s @ replicate (Suc n) (activation_request cfg d kind w) @ map (release_request cfg) returned"
    "case answer (length (ct_requests s) + n) of Inl e \<Rightarrow> x = Inl e \<and> returned = [] | Inr r \<Rightarrow> lease_settled r x returned"
    by (rule run_activate)
  have "case x of Inr (Activated a) \<Rightarrow> flowUrl parse_url a \<noteq> Inl No_endpoint | _ \<Rightarrow> True"
    using assms by (auto split: sum.split activation_outcome.split dest: api.activated_reachable)
  with facts show ?thesis
    by (intro exI [of _ n] conjI exI [of _ returned]) (auto split: sum.splits activation_outcome.splits)
qed

definition example_api :: activation_config where
  "example_api = \<lparr>an_apiUrl = ''http://api/'', an_serviceToken = ''t'', an_instanceId = None, an_maxDrainRetries = 2\<rparr>"

definition granting :: "(string \<times> json) list \<Rightarrow> http_response" where
  "granting workflow = \<lparr>rs_status = 200, rs_text = [], rs_json = Some (JObject ([(''lease'', JObject [(''id'', JString ''l 1'')]),
     (''runtimeInstance'', JObject [(''endpointPort'', JNumber 3000)])] @ workflow))\<rparr>"

definition draining :: http_response where
  "draining = \<lparr>rs_status = 425, rs_text = [], rs_json = None\<rparr>"

text \<open>After one answer that the deployment drains, a protocol from the future: the lease is given back.\<close>

theorem activation_settles_lease_witness:
  "\<exists>m s. run (activate (\<lambda>i. Inr (if i = 0 then draining else granting [(''workflow'', JObject [(''selectedProtocol'', JNumber 2)])]))
      example_api ''d'' ''wake'' ''o'') \<lparr>ct_requests = []\<rparr> = (Inr (Cannot_activate 409 m), s) \<and>
    map cr_method (ct_requests s) = [''POST'', ''POST'', ''DELETE''] \<and>
    cr_url (last (ct_requests s)) = ''http://api/internal/runtime/activations/l%201''"
proof -
  let ?future = "granting [(''workflow'', JObject [(''selectedProtocol'', JNumber 2)])]"
  let ?answer = "\<lambda>i::nat. Inr (if i = 0 then draining else ?future) :: error + http_response"
  let ?x = "run (activate ?answer example_api ''d'' ''wake'' ''o'') \<lparr>ct_requests = []\<rparr>"
  obtain m where m: "fst ?x = Inr (Cannot_activate 409 m)"
    by (simp add: activate_def activation_response.simps example_api_def draining_def granting_def run_simps response_ok_def
        read_activation_def refuse_protocol_def number_of_def string_of_def DISPATCH_VERSION_def numeral_2_eq_2)
  then have res: "?x = (Inr (Cannot_activate 409 m), snd ?x)" by (simp add: prod_eq_iff)
  from activation_settles_lease [OF res] obtain n xs where
      requests: "ct_requests (snd ?x) = replicate (Suc n) (activation_request example_api ''d'' ''wake'' ''o'') @ map (release_request example_api) xs"
    and settled: "case ?answer n of Inl e \<Rightarrow> xs = [] | Inr r \<Rightarrow>
      xs = (case granted r of Some l \<Rightarrow> if has_address r then [l] else [] | None \<Rightarrow> [])" by auto
  define r where "r = (if n = 0 then draining else ?future)"
  have xs: "xs = (case granted r of Some l \<Rightarrow> if has_address r then [l] else [] | None \<Rightarrow> [])" using settled unfolding r_def by (simp only: sum.case)
  have two: "length (ct_requests (snd ?x)) = 3"
    by (simp add: activate_def activation_response.simps example_api_def draining_def granting_def run_simps response_ok_def
        read_activation_def refuse_protocol_def number_of_def string_of_def DISPATCH_VERSION_def numeral_2_eq_2)
  have "granted r = (if n = 0 then None else Some ''l 1'')" "n \<noteq> 0 \<Longrightarrow> has_address r"
    by (auto simp: r_def granted_def has_address_def draining_def granting_def response_ok_def number_of_def string_of_def)
  with two requests xs have "n = 1" "xs = [''l 1'']" by (auto split: if_splits)
  with requests have "map cr_method (ct_requests (snd ?x)) = [''POST'', ''POST'', ''DELETE'']"
    "cr_url (last (ct_requests (snd ?x))) = ''http://api/internal/runtime/activations/l%201''"
    by (simp_all add: activation_request_def release_request_def api_base_def example_api_def encodeURIComponent_def
        is_unreserved_def percent_def hex_digit_def char_of_eq_iff)
  then show ?thesis by (intro exI [of _ m] exI [of _ "snd ?x"] conjI res)
qed

text \<open>A control plane that answers \<open>workflow: null\<close> makes the call throw, and nobody gives the lease back.\<close>

lemma null_workflow_leaks_lease:
  "\<exists>e. run (activate (\<lambda>i. Inr (granting [(''workflow'', JNull)])) example_api ''d'' ''wake'' ''o'') \<lparr>ct_requests = []\<rparr> =
     (Inl e, \<lparr>ct_requests = [activation_request example_api ''d'' ''wake'' ''o'']\<rparr>) \<and>
   granted (granting [(''workflow'', JNull)]) = Some ''l 1''"
  by (simp add: activate_def activation_response.simps example_api_def granting_def run_simps response_ok_def
      read_activation_def number_of_def string_of_def granted_def)

text \<open>So does one that grants a lease and names no address: the call answers, and nobody gives the lease back.\<close>

lemma lease_without_address_leaks:
  fixes r
  defines "r \<equiv> \<lparr>rs_status = 200, rs_text = [], rs_json = Some (JObject [(''lease'', JObject [(''id'', JString ''l 1'')])])\<rparr>"
  shows "\<exists>m. run (activate (\<lambda>i. Inr r) example_api ''d'' ''wake'' ''o'') \<lparr>ct_requests = []\<rparr> =
     (Inr (Unavailable 200 m), \<lparr>ct_requests = [activation_request example_api ''d'' ''wake'' ''o'']\<rparr>) \<and>
   granted r = Some ''l 1''"
  by (simp add: r_def activate_def activation_response.simps example_api_def run_simps response_ok_def
      read_activation_def number_of_def string_of_def granted_def)

text \<open>A deployment of a configured table is posted to at its origin; any other is never retried.\<close>

lemma static_dispatch:
  assumes "\<And>v u. parseEndpointUrl parse_url v = Inr u \<Longrightarrow> parseEndpointUrl parse_url u = Inr u"
    and "parseStaticEndpoints parse_url v = Inr es" and "(d, u) \<in> set es"
  shows "\<exists>a s'. static_table parse_url es = Inr es \<and> run (static_activate es d) s = (Inr (Activated a), s') \<and>
     flowUrl parse_url a = Inr (u @ WORKFLOW_ROUTE_BASE @ ''/flow'')"
proof -
  have ok: "distinct (map fst es)" "list_all (\<lambda>(d, u). \<exists>v. parseEndpointUrl parse_url v = Inr u) es"
    using static_endpoints_ok [OF assms(2)] by (auto simp: list_all_iff)
  have table: "static_table parse_url xs = Inr xs" if "list_all (\<lambda>(d, u). \<exists>v. parseEndpointUrl parse_url v = Inr u) xs" for xs
    using that by (induction xs) (auto dest: assms(1))
  have u: "parseEndpointUrl parse_url u = Inr u" using ok(2) assms(3) by (auto simp: list_all_iff dest: assms(1))
  have "map_of es d = Some u" using ok(1) assms(3) by simp
  with u table [OF ok(2)] show ?thesis
    by (simp add: static_activate_def run_simps Let_def flowUrl_def)
qed

end
