(* ===== verification/Service.thy ===== *)
theory Service
  imports Activation
begin

text \<open>
  The dispatcher service: \<open>src/dispatcher/service.ts\<close>. Its calls into the other components (taking the
  lock, migrations, the boot sweep, starting the runner and the maintenance loop, and giving all of
  it back) are actions that succeed or fail; what fails, and after which history, is a parameter.
  The actions are kept in the order they were made, with their outcome. The lifecycle callback is
  the host's, so emitting a phase may fail as well.
\<close>

section \<open>Settings of the service\<close>

datatype service_error = Unresolved config_error | Missing_runtime_secret | Missing_service_token | No_activation_configured

datatype activation_choice = Host_activation | Static_activation "(string \<times> string) list" | Api_activation string string

definition requiredServiceToken :: "env \<Rightarrow> service_error + string" where
  "requiredServiceToken env = (case truthy (resolveSecretWithDevFallback env (env ''WORKFLOW_DISPATCHER_ACTIVATION_TOKEN'') ''eveland-dev-gateway-token'') of
     None \<Rightarrow> Inl Missing_service_token | Some token \<Rightarrow> Inr token)"

definition resolveActivation :: "(string \<Rightarrow> url option) \<Rightarrow> dispatcher_configuration \<Rightarrow> env \<Rightarrow> service_error + activation_choice" where
  "resolveActivation parse_url config env = (case dc_staticEndpoints config of
     Some es \<Rightarrow> (case static_table parse_url es of Inl e \<Rightarrow> Inl (Unresolved e) | Inr t \<Rightarrow> Inr (Static_activation t))
   | None \<Rightarrow> (case truthy (dc_apiUrl config) of None \<Rightarrow> Inl No_activation_configured
       | Some apiUrl \<Rightarrow> bindE (requiredServiceToken env) (\<lambda>token. Inr (Api_activation apiUrl token))))"

text \<open>\<open>overrides\<close> are the host's own settings; \<open>given\<close> says that it brings its own activation client.\<close>

definition service_settings :: "(string \<Rightarrow> url option) \<Rightarrow> int \<Rightarrow> env \<Rightarrow> (dispatcher_configuration \<Rightarrow> dispatcher_configuration) \<Rightarrow> bool \<Rightarrow>
    service_error + dispatcher_configuration \<times> string \<times> activation_choice" where
  "service_settings parse_url cpus env overrides given =
     (case resolveDispatcherConfig parse_url cpus env of Inl e \<Rightarrow> Inl (Unresolved e)
      | Inr resolved \<Rightarrow> let config = overrides resolved in
          (case truthy (resolveDispatchRuntimeSecret env) of None \<Rightarrow> Inl Missing_runtime_secret
           | Some secret \<Rightarrow> bindE (if given then Inr Host_activation else resolveActivation parse_url config env)
               (\<lambda>activation. Inr (config, secret, activation))))"

section \<open>Starting and stopping\<close>

datatype phase = Ownership_acquired | Migrations_applied | Boot_recovery_completed | Ready | Ownership_lost | Stopped

datatype service_action =
    Acquire_ownership | Run_migrations | Make_worker_utils | Host_preflight | Recover_runs | Start_dispatcher | Start_maintenance
  | Emit phase
  | Stop_maintenance | Stop_dispatcher | Release_worker_utils | Release_ownership | End_pool | Shutdown_telemetry

text \<open>
  \<open>sv_lost\<close> is set when the owner's session is lost, \<open>sv_stopOnLoss\<close> once a loss stops the running service;
  \<open>sv_stopping\<close> is the memoised outcome of \<open>stop\<close>.
\<close>

record service =
  sv_done :: "(service_action \<times> bool) list"
  sv_runtime :: bool
  sv_utils :: bool
  sv_maintenance :: bool
  sv_lost :: "error option"
  sv_stopOnLoss :: bool
  sv_stopping :: "(error + unit) option"

definition fresh_service :: service where
  "fresh_service = \<lparr>sv_done = [], sv_runtime = False, sv_utils = False, sv_maintenance = False, sv_lost = None,
     sv_stopOnLoss = False, sv_stopping = None\<rparr>"

type_synonym 'a service_io = "(service, error, 'a) prog"
type_synonym failing = "(service_action \<times> bool) list \<Rightarrow> service_action \<Rightarrow> error option"

definition perform :: "failing \<Rightarrow> service_action \<Rightarrow> unit service_io" where
  "perform fails a = bindP (stmt (\<lambda>s. let f = fails (sv_done s) a in (f, s\<lparr>sv_done := sv_done s @ [(a, f = None)]\<rparr>)))
     (\<lambda>f. case f of Some e \<Rightarrow> Throw e | None \<Rightarrow> Ret ())"

definition ignoring :: "unit service_io \<Rightarrow> unit service_io" where
  "ignoring p = catchP p (\<lambda>_. Ret ())"

definition collectCleanupError :: "unit service_io \<Rightarrow> error list service_io" where
  "collectCleanupError operation = catchP (bindP operation (\<lambda>_. Ret [])) (\<lambda>e. Ret [e])"

fun throw_all :: "error list \<Rightarrow> unit service_io" where
  "throw_all [] = Ret ()"
| "throw_all [e] = Throw e"
| "throw_all (e # es) = Throw PlainError"

definition stopEverything :: "failing \<Rightarrow> unit service_io" where
  "stopEverything fails =
     bindP (query (\<lambda>s. (sv_maintenance s, sv_runtime s))) (\<lambda>(maintenance, runtime).
     bindP (if maintenance then collectCleanupError (perform fails Stop_maintenance) else Ret []) (\<lambda>e1.
     bindP (collectCleanupError (perform fails (if runtime then Stop_dispatcher else Release_worker_utils))) (\<lambda>e2.
     bindP (collectCleanupError (perform fails Release_ownership)) (\<lambda>e3.
     bindP (collectCleanupError (perform fails End_pool)) (\<lambda>e4.
     bindP (collectCleanupError (perform fails Shutdown_telemetry)) (\<lambda>e5.
     bindP (perform fails (Emit Stopped)) (\<lambda>_.
       throw_all (e1 @ e2 @ e3 @ e4 @ e5))))))))"

definition service_stop :: "failing \<Rightarrow> unit service_io" where
  "service_stop fails = bindP (query sv_stopping) (\<lambda>stopping.
     case stopping of Some (Inr u) \<Rightarrow> Ret () | Some (Inl e) \<Rightarrow> Throw e
     | None \<Rightarrow> catchP
         (bindP (stopEverything fails) (\<lambda>_. exec (\<lambda>s. s\<lparr>sv_stopping := Some (Inr ())\<rparr>)))
         (\<lambda>e. bindP (exec (\<lambda>s. s\<lparr>sv_stopping := Some (Inl e)\<rparr>)) (\<lambda>_. Throw e)))"

definition startClaiming :: "failing \<Rightarrow> unit service_io" where
  "startClaiming fails =
     bindP (perform fails Start_dispatcher) (\<lambda>_. bindP (exec (\<lambda>s. s\<lparr>sv_runtime := True\<rparr>)) (\<lambda>_.
     bindP (perform fails Start_maintenance) (\<lambda>_. bindP (exec (\<lambda>s. s\<lparr>sv_maintenance := True\<rparr>)) (\<lambda>_.
     perform fails (Emit Ready)))))"

definition service_body :: "failing \<Rightarrow> bool \<Rightarrow> unit service_io" where
  "service_body fails preflight =
     bindP (perform fails Run_migrations) (\<lambda>_.
     bindP (perform fails (Emit Migrations_applied)) (\<lambda>_.
     bindP (perform fails Make_worker_utils) (\<lambda>_. bindP (exec (\<lambda>s. s\<lparr>sv_utils := True\<rparr>)) (\<lambda>_.
     bindP (if preflight then perform fails Host_preflight else Ret ()) (\<lambda>_.
     bindP (perform fails Recover_runs) (\<lambda>_.
     bindP (perform fails (Emit Boot_recovery_completed)) (\<lambda>_.
     bindP (startClaiming fails) (\<lambda>_. bindP (exec (\<lambda>s. s\<lparr>sv_stopOnLoss := True\<rparr>)) (\<lambda>_.
     bindP (query sv_lost) (\<lambda>lost. case lost of None \<Rightarrow> Ret ()
       | Some e \<Rightarrow> bindP (ignoring (service_stop fails)) (\<lambda>_. Throw e)))))))))))"

definition failed_start :: "failing \<Rightarrow> error \<Rightarrow> unit service_io" where
  "failed_start fails e =
     bindP (query (\<lambda>s. (sv_runtime s, sv_utils s))) (\<lambda>(runtime, utils).
     bindP (if runtime then ignoring (perform fails Stop_dispatcher)
       else if utils then ignoring (perform fails Release_worker_utils) else Ret ()) (\<lambda>_.
     bindP (perform fails Release_ownership) (\<lambda>_.
     bindP (ignoring (perform fails End_pool)) (\<lambda>_.
     bindP (ignoring (perform fails Shutdown_telemetry)) (\<lambda>_. Throw e)))))"

definition startDispatcherService :: "failing \<Rightarrow> bool \<Rightarrow> unit service_io" where
  "startDispatcherService fails preflight =
     bindP (catchP (perform fails Acquire_ownership) (\<lambda>e. bindP (ignoring (perform fails End_pool)) (\<lambda>_. Throw e))) (\<lambda>_.
     bindP (perform fails (Emit Ownership_acquired)) (\<lambda>_.
       catchP (service_body fails preflight) (failed_start fails)))"

text \<open>
  \<open>onLost\<close>, which the heartbeat calls when the session is gone and whose own errors it swallows. A failed stop
  is reported, not thrown.
\<close>

definition onLost :: "failing \<Rightarrow> error \<Rightarrow> unit service_io" where
  "onLost fails e = bindP (exec (\<lambda>s. s\<lparr>sv_lost := Some e\<rparr>)) (\<lambda>_.
     bindP (perform fails (Emit Ownership_lost)) (\<lambda>_.
     bindP (query sv_stopOnLoss) (\<lambda>stopOnLoss. if stopOnLoss then ignoring (service_stop fails) else Ret ())))"

definition report_loss :: "failing \<Rightarrow> error \<Rightarrow> unit service_io" where
  "report_loss fails e = ignoring (onLost fails e)"

section \<open>Weakest preconditions\<close>

text \<open>What holds after a program: \<open>Q\<close> of its result and state, or \<open>E\<close> of its error and state.\<close>

definition wp :: "('s, 'e, 'a) prog \<Rightarrow> ('a \<Rightarrow> 's \<Rightarrow> bool) \<Rightarrow> ('e \<Rightarrow> 's \<Rightarrow> bool) \<Rightarrow> 's \<Rightarrow> bool" where
  "wp p Q E s = (case run p s of (Inr a, t) \<Rightarrow> Q a t | (Inl e, t) \<Rightarrow> E e t)"

lemma wp_Ret: "wp (Ret a) Q E = Q a" by (simp add: fun_eq_iff wp_def)
lemma wp_Throw: "wp (Throw e) Q E = E e" by (simp add: fun_eq_iff wp_def)
lemma wp_exec: "wp (exec f) Q E s = Q () (f s)" by (simp add: wp_def run_simps)
lemma wp_query: "wp (query g) Q E s = Q (g s) s" by (simp add: wp_def run_simps)

lemma wp_bindP: "wp (bindP p k) Q E s = wp p (\<lambda>a. wp (k a) Q E) E s"
  by (simp add: wp_def run_simps split: prod.split sum.split)

lemma wp_catchP: "wp (catchP p h) Q E s = wp p Q (\<lambda>e. wp (h e) Q E) s"
  by (simp add: wp_def run_simps split: prod.split sum.split)

lemmas wp_simps = wp_Ret wp_Throw wp_exec wp_query wp_bindP wp_catchP

lemma wp_True: "wp p (\<lambda>_ _. True) (\<lambda>_ _. True) s"
  by (simp add: wp_def split: prod.split sum.split)

lemma wpD: "wp p Q E s \<Longrightarrow> run p s = (Inr a, t) \<Longrightarrow> Q a t" "wp p Q E s \<Longrightarrow> run p s = (Inl e, t) \<Longrightarrow> E e t"
  by (simp_all add: wp_def)

section \<open>What was taken is given back\<close>

abbreviation noted :: "service_action \<Rightarrow> bool \<Rightarrow> service \<Rightarrow> service" where
  "noted a b s \<equiv> s\<lparr>sv_done := sv_done s @ [(a, b)]\<rparr>"

lemma run_perform: "run (perform fails a) s =
    (case fails (sv_done s) a of None \<Rightarrow> (Inr (), noted a True s) | Some e \<Rightarrow> (Inl e, noted a False s))"
  by (simp add: perform_def run_simps Let_def split: option.split)

lemma run_ignoring: "run (ignoring (perform fails a)) s = (Inr (), noted a (fails (sv_done s) a = None) s)"
  by (simp add: ignoring_def run_simps run_perform split: option.split)

lemma run_collect: "\<exists>es. run (collectCleanupError (perform fails a)) s = (Inr es, noted a (fails (sv_done s) a = None) s)"
  by (simp add: collectCleanupError_def run_simps run_perform split: option.split)

text \<open>Every statement of the service only adds to what was done.\<close>

definition adds :: "service \<Rightarrow> service \<Rightarrow> bool" where
  "adds s t \<longleftrightarrow> (\<exists>new. sv_done t = sv_done s @ new)"

interpretation history: state_order "\<lambda>_. True" adds
  by unfold_locales (auto simp: adds_def)

lemma keeps_history: "(\<And>s. \<exists>new. sv_done (f s) = sv_done s @ new) \<Longrightarrow> keeps (\<lambda>_. True) adds f"
  by (simp add: keeps_def adds_def)

definition claiming_started :: "service \<Rightarrow> bool" where
  "claiming_started s \<longleftrightarrow> (Start_dispatcher, True) \<in> set (sv_done s)"

text \<open>What the variables of the body say about the actions so far.\<close>

definition tracked :: "service \<Rightarrow> bool" where
  "tracked s \<longleftrightarrow> (sv_runtime s \<longleftrightarrow> (Start_dispatcher, True) \<in> set (sv_done s)) \<and>
     (sv_utils s \<longleftrightarrow> (Make_worker_utils, True) \<in> set (sv_done s))"

lemma run_failed_start:
  assumes "\<And>h. fails h Release_ownership = None" and "tracked s"
  shows "\<exists>t. run (failed_start fails e) s = (Inl e, t) \<and> adds s t \<and> (Release_ownership, True) \<in> set (sv_done t) \<and>
    {End_pool, Shutdown_telemetry} \<subseteq> fst ` set (sv_done t) \<and>
    ((Start_dispatcher, True) \<in> set (sv_done s) \<longrightarrow> Stop_dispatcher \<in> fst ` set (sv_done t)) \<and>
    ((Make_worker_utils, True) \<in> set (sv_done s) \<and> (Start_dispatcher, True) \<notin> set (sv_done s) \<longrightarrow>
       Release_worker_utils \<in> fst ` set (sv_done t)) \<and>
    set (sv_done t) \<subseteq> set (sv_done s) \<union> {Stop_dispatcher, Release_worker_utils, Release_ownership, End_pool, Shutdown_telemetry} \<times> UNIV"
  using assms by (auto simp: failed_start_def run_simps run_ignoring run_perform tracked_def adds_def)

text \<open>The clean-up in its order: every action is attempted, whichever of them fail.\<close>

definition stop_plan :: "service \<Rightarrow> service_action list" where
  "stop_plan s = (if sv_maintenance s then [Stop_maintenance] else []) @
     [if sv_runtime s then Stop_dispatcher else Release_worker_utils, Release_ownership, End_pool, Shutdown_telemetry, Emit Stopped]"

definition cleaned :: "service \<Rightarrow> service \<Rightarrow> bool" where
  "cleaned s t \<longleftrightarrow> (\<exists>new. t = s\<lparr>sv_done := sv_done s @ new\<rparr> \<and> map fst new = stop_plan s)"

lemma wp_perform: "wp (perform fails a) Q E s =
    (case fails (sv_done s) a of None \<Rightarrow> Q () (noted a True s) | Some e \<Rightarrow> E e (noted a False s))"
  by (simp add: wp_def run_perform split: option.split)

lemma wp_collect: "(\<And>es b. Q es (noted a b s)) \<Longrightarrow> wp (collectCleanupError (perform fails a)) Q E s"
  using run_collect [of fails a s] by (auto simp: wp_def)

lemma wp_throw_all: "Q () s \<Longrightarrow> (\<And>e. E e s) \<Longrightarrow> wp (throw_all es) Q E s"
  by (cases es rule: throw_all.cases) (simp_all add: wp_def)

lemma cleanedI: "map fst new = stop_plan s \<Longrightarrow> cleaned s (s\<lparr>sv_done := sv_done s @ new\<rparr>)"
  by (auto simp: cleaned_def)

lemma wp_stopEverything: "wp (stopEverything fails) (\<lambda>_. cleaned s) (\<lambda>_. cleaned s) s"
  unfolding stopEverything_def wp_simps
  by (cases "sv_maintenance s"; cases "sv_runtime s")
    (auto simp: wp_simps wp_perform stop_plan_def split: option.split intro!: wp_collect wp_throw_all cleanedI)

lemma run_stopEverything: "\<exists>x t. run (stopEverything fails) s = (x, t) \<and> cleaned s t"
  using wp_stopEverything [of fails s] unfolding wp_def by (auto split: prod.splits sum.splits)

text \<open>A stop cleans up once; later calls have the outcome of the first.\<close>

lemma run_service_stop:
  "\<exists>x t. run (service_stop fails) s = (x, t) \<and>
     (if sv_stopping s = None then cleaned s (t\<lparr>sv_stopping := None\<rparr>) \<and> sv_stopping t = Some x else t = s \<and> sv_stopping s = Some x)"
proof (cases "sv_stopping s")
  case None
  obtain x t where r: "run (stopEverything fails) s = (x, t)" "cleaned s t" using run_stopEverything by blast
  moreover have "t\<lparr>sv_stopping := None\<rparr> = t" using r(2) None by (auto simp: cleaned_def)
  ultimately show ?thesis using None by (cases x) (auto simp: service_stop_def run_simps)
next
  case (Some x)
  then show ?thesis by (cases x) (auto simp: service_stop_def run_simps)
qed

text \<open>The actions of a start, in their order.\<close>

definition start_plan :: "bool \<Rightarrow> service_action list" where
  "start_plan preflight = [Acquire_ownership, Emit Ownership_acquired, Run_migrations, Emit Migrations_applied, Make_worker_utils] @
     (if preflight then [Host_preflight] else []) @
     [Recover_runs, Emit Boot_recovery_completed, Start_dispatcher, Start_maintenance, Emit Ready]"

lemma tracked_cleaned: "tracked s \<Longrightarrow> cleaned s t \<Longrightarrow> tracked t"
proof -
  assume s: "tracked s" "cleaned s t"
  then obtain new where t: "t = s\<lparr>sv_done := sv_done s @ new\<rparr>" "map fst new = stop_plan s" by (auto simp: cleaned_def)
  have "a \<notin> fst ` set new" if "a = Start_dispatcher \<or> a = Make_worker_utils" for a
    using that t(2) by (auto simp: stop_plan_def simp flip: set_map)
  then show "tracked t" using s(1) t(1) by (force simp: tracked_def)
qed

lemma wp_startClaiming:
  assumes "tracked s" and "(Start_dispatcher, True) \<notin> set (sv_done s)"
    and "\<And>t. tracked t \<Longrightarrow> sv_done t = sv_done s @ [(Start_dispatcher, True), (Start_maintenance, True), (Emit Ready, True)] \<Longrightarrow>
      sv_lost t = sv_lost s \<Longrightarrow> Q () t"
    and "\<And>e t. tracked t \<Longrightarrow> E e t"
  shows "wp (startClaiming fails) Q E s"
  using assms(1,2) unfolding startClaiming_def wp_simps wp_perform
  by (auto split: option.split simp: tracked_def intro!: assms(3,4))

lemma wp_tracked_stop: "tracked s \<Longrightarrow> wp (ignoring (service_stop fails)) (\<lambda>_. tracked) E s"
proof -
  assume s: "tracked s"
  obtain x t where r: "run (service_stop fails) s = (x, t)"
    "if sv_stopping s = None then cleaned s (t\<lparr>sv_stopping := None\<rparr>) \<and> sv_stopping t = Some x else t = s \<and> sv_stopping s = Some x"
    using run_service_stop by blast
  have "tracked (t\<lparr>sv_stopping := None\<rparr>) \<Longrightarrow> tracked t" by (simp add: tracked_def)
  then have "tracked t" using s r(2) tracked_cleaned [OF s] by (auto split: if_splits)
  then show ?thesis using r(1) by (cases x) (simp_all add: wp_def ignoring_def run_simps)
qed

lemma wp_service_body:
  assumes s: "sv_done s = [(Acquire_ownership, True), (Emit Ownership_acquired, True)]" "\<not> sv_runtime s" "\<not> sv_utils s"
  shows "wp (service_body fails preflight)
    (\<lambda>_ t. sv_done t = map (\<lambda>a. (a, True)) (start_plan preflight) \<and> sv_lost s = None) (\<lambda>e. tracked) s"
  unfolding service_body_def wp_simps wp_perform
  using s by (cases preflight) (auto split: option.split simp: tracked_def wp_simps wp_perform start_plan_def
      intro!: wp_startClaiming wp_tracked_stop [unfolded tracked_def])

lemma perform_adds [safe_intros]: "safe (\<lambda>_. True) adds (perform fails a)"
  unfolding perform_def by (intro safe_intros history.safe_stmt keeps_history) (auto simp: Let_def)

lemma collect_adds [safe_intros]: "safe (\<lambda>_. True) adds p \<Longrightarrow> safe (\<lambda>_. True) adds (collectCleanupError p)"
  unfolding collectCleanupError_def by (intro safe_intros)

lemma throw_all_adds [safe_intros]: "safe I R (throw_all es)"
  by (cases es rule: throw_all.cases) auto

lemma service_stop_adds: "safe (\<lambda>_. True) adds (service_stop fails)"
  unfolding service_stop_def stopEverything_def
  by (intro safe_intros history.safe_stmt history.safe_query keeps_history) auto

lemma service_body_adds: "safe (\<lambda>_. True) adds (service_body fails preflight)"
  unfolding service_body_def startClaiming_def ignoring_def
  by (intro safe_intros history.safe_exec history.safe_query keeps_history service_stop_adds) auto

text \<open>A start that got past the lock and the callback for it.\<close>

lemma start_past_lock:
  assumes release: "\<And>h. fails h Release_ownership = None" and None: "fails [] Acquire_ownership = None"
    and callback: "fails [(Acquire_ownership, True)] (Emit Ownership_acquired) = None"
  shows "case run (startDispatcherService fails preflight) (fresh_service\<lparr>sv_lost := loss\<rparr>) of
      (Inr _, s) \<Rightarrow> sv_done s = map (\<lambda>a. (a, True)) (start_plan preflight) \<and> loss = None
    | (Inl e, s) \<Rightarrow> (Acquire_ownership, True) \<in> set (sv_done s) \<and> (Release_ownership, True) \<in> set (sv_done s) \<and>
        {End_pool, Shutdown_telemetry} \<subseteq> fst ` set (sv_done s) \<and>
        ((Start_dispatcher, True) \<in> set (sv_done s) \<longrightarrow> Stop_dispatcher \<in> fst ` set (sv_done s)) \<and>
        ((Make_worker_utils, True) \<in> set (sv_done s) \<and> (Start_dispatcher, True) \<notin> set (sv_done s) \<longrightarrow>
          Release_worker_utils \<in> fst ` set (sv_done s))"
proof -
  let ?s = "fresh_service\<lparr>sv_lost := loss\<rparr>"
  let ?s1 = "?s\<lparr>sv_done := [(Acquire_ownership, True), (Emit Ownership_acquired, True)]\<rparr>"
  have start: "run (startDispatcherService fails preflight) ?s = run (catchP (service_body fails preflight) (failed_start fails)) ?s1"
    using None callback by (simp add: startDispatcherService_def run_simps run_perform fresh_service_def)
  have body: "wp (service_body fails preflight)
      (\<lambda>_ t. sv_done t = map (\<lambda>a. (a, True)) (start_plan preflight) \<and> sv_lost ?s1 = None) (\<lambda>e. tracked) ?s1"
    by (rule wp_service_body) (simp_all add: fresh_service_def)
  obtain x t where r: "run (service_body fails preflight) ?s1 = (x, t)" by (cases "run (service_body fails preflight) ?s1")
  show ?thesis
  proof (cases x)
    case (Inr u)
    with r wpD(1) [OF body] show ?thesis unfolding start by (simp add: run_simps)
  next
    case (Inl e)
    with r wpD(2) [OF body] have t: "tracked t" by auto
    have "adds ?s1 t" using history.safe_run [OF service_body_adds, of ?s1 fails preflight] r by simp
    obtain u where u: "run (failed_start fails e) t = (Inl e, u)" "adds t u" "(Release_ownership, True) \<in> set (sv_done u)"
      "{End_pool, Shutdown_telemetry} \<subseteq> fst ` set (sv_done u)"
      "(Start_dispatcher, True) \<in> set (sv_done t) \<longrightarrow> Stop_dispatcher \<in> fst ` set (sv_done u)"
      "(Make_worker_utils, True) \<in> set (sv_done t) \<and> (Start_dispatcher, True) \<notin> set (sv_done t) \<longrightarrow>
         Release_worker_utils \<in> fst ` set (sv_done u)"
      "set (sv_done u) \<subseteq> set (sv_done t) \<union> {Stop_dispatcher, Release_worker_utils, Release_ownership, End_pool, Shutdown_telemetry} \<times> UNIV"
      using run_failed_start [where fails = fails and s = t and e = e] release t by blast
    have "set (sv_done t) \<subseteq> set (sv_done u)" using u(2) by (auto simp: adds_def)
    moreover have "(Acquire_ownership, True) \<in> set (sv_done t)" using \<open>adds ?s1 t\<close> by (auto simp: adds_def)
    moreover have "(a, True) \<in> set (sv_done u) \<longleftrightarrow> (a, True) \<in> set (sv_done t)" if "a = Start_dispatcher \<or> a = Make_worker_utils" for a
      using that u(7) calculation(1) by auto
    ultimately show ?thesis unfolding start using r Inl u(1,3-6) by (auto simp: run_simps)
  qed
qed

text \<open>
  C32. A start of the dispatcher that fails gives back what it had taken. When the lock was not granted,
  nothing else was done but to end the pool. When the host's callback throws on \<open>ownership_acquired\<close>,
  which is emitted outside the \<open>try\<close>, nothing is given back: the lock, the pool and telemetry are left
  as they are. Otherwise, wherever the start failed (the host's preflight, its other callbacks and the
  loss of the lock while starting included), the lock was released, the pool ended, telemetry shut
  down, and the runner stopped if it had begun to claim, or the worker utilities released if they were
  made. A start that succeeds did everything in order, each action once, and claims only after the boot
  sweep. The hypothesis is that \<open>release\<close> does not reject, and it does not: it catches the failing unlock.
\<close>

theorem start_gives_back:
  assumes release: "\<And>h. fails h Release_ownership = None"
  shows "case run (startDispatcherService fails preflight) (fresh_service\<lparr>sv_lost := loss\<rparr>) of
      (Inr _, s) \<Rightarrow> sv_done s = map (\<lambda>a. (a, True)) (start_plan preflight) \<and> loss = None
    | (Inl e, s) \<Rightarrow>
        if (Acquire_ownership, True) \<notin> set (sv_done s) then map fst (sv_done s) = [Acquire_ownership, End_pool]
        else if fails [(Acquire_ownership, True)] (Emit Ownership_acquired) \<noteq> None
        then sv_done s = [(Acquire_ownership, True), (Emit Ownership_acquired, False)]
        else (Release_ownership, True) \<in> set (sv_done s) \<and> {End_pool, Shutdown_telemetry} \<subseteq> fst ` set (sv_done s) \<and>
          ((Start_dispatcher, True) \<in> set (sv_done s) \<longrightarrow> Stop_dispatcher \<in> fst ` set (sv_done s)) \<and>
          ((Make_worker_utils, True) \<in> set (sv_done s) \<and> (Start_dispatcher, True) \<notin> set (sv_done s) \<longrightarrow>
            Release_worker_utils \<in> fst ` set (sv_done s))"
proof (cases "fails [] Acquire_ownership = None \<and> fails [(Acquire_ownership, True)] (Emit Ownership_acquired) = None")
  case True
  with start_past_lock [of fails preflight loss] release show ?thesis by (auto split: prod.splits sum.splits)
next
  case False
  then show ?thesis
    by (auto simp: startDispatcherService_def run_simps run_perform run_ignoring fresh_service_def split: option.splits)
qed

text \<open>The boot sweep fails: the runner was never started, and everything else is given back.\<close>

definition sweep_fails :: failing where
  "sweep_fails h a = (if a = Recover_runs then Some PlainError else None)"

theorem start_gives_back_witness:
  "\<exists>s. run (startDispatcherService sweep_fails True) (fresh_service\<lparr>sv_lost := None\<rparr>) = (Inl PlainError, s) \<and>
     (Release_ownership, True) \<in> set (sv_done s) \<and> Release_worker_utils \<in> fst ` set (sv_done s) \<and>
     (Start_dispatcher, True) \<notin> set (sv_done s)"
proof -
  let ?x = "run (startDispatcherService sweep_fails True) (fresh_service\<lparr>sv_lost := None\<rparr>)"
  have res: "fst ?x = Inl PlainError" "(Make_worker_utils, True) \<in> set (sv_done (snd ?x))" "(Acquire_ownership, True) \<in> set (sv_done (snd ?x))"
    "(Start_dispatcher, True) \<notin> set (sv_done (snd ?x))"
    by (simp_all add: startDispatcherService_def service_body_def failed_start_def sweep_fails_def run_simps run_perform run_ignoring
        fresh_service_def)
  obtain y t where x: "?x = (y, t)" by (cases ?x)
  have "sweep_fails h Release_ownership = None" "sweep_fails h (Emit Ownership_acquired) = None" for h
    by (simp_all add: sweep_fails_def)
  note release = this(1) and callback = this(2)
  from release have "case ?x of (Inr _, s) \<Rightarrow> sv_done s = map (\<lambda>a. (a, True)) (start_plan True) \<and> None = (None :: error option)
    | (Inl e, s) \<Rightarrow>
        if (Acquire_ownership, True) \<notin> set (sv_done s) then map fst (sv_done s) = [Acquire_ownership, End_pool]
        else if sweep_fails [(Acquire_ownership, True)] (Emit Ownership_acquired) \<noteq> None
        then sv_done s = [(Acquire_ownership, True), (Emit Ownership_acquired, False)]
        else (Release_ownership, True) \<in> set (sv_done s) \<and> {End_pool, Shutdown_telemetry} \<subseteq> fst ` set (sv_done s) \<and>
          ((Start_dispatcher, True) \<in> set (sv_done s) \<longrightarrow> Stop_dispatcher \<in> fst ` set (sv_done s)) \<and>
          ((Make_worker_utils, True) \<in> set (sv_done s) \<and> (Start_dispatcher, True) \<notin> set (sv_done s) \<longrightarrow>
            Release_worker_utils \<in> fst ` set (sv_done s))"
    by (rule start_gives_back)
  then show ?thesis using res callback unfolding x by (intro exI [of _ t]) simp
qed

section \<open>Losing the lock\<close>

lemma wp_started:
  assumes "sv_done s = [(Acquire_ownership, True), (Emit Ownership_acquired, True)]" "\<not> sv_runtime s" "\<not> sv_utils s"
  shows "wp (service_body fails preflight)
    (\<lambda>_ t. sv_runtime t \<and> sv_maintenance t \<and> sv_stopOnLoss t \<and> sv_stopping t = sv_stopping s) (\<lambda>_ _. True) s"
  unfolding service_body_def startClaiming_def wp_simps wp_perform
  using assms by (cases preflight) (auto split: option.split simp: wp_simps wp_perform wp_True)

lemma started_state:
  assumes "run (startDispatcherService fails preflight) fresh_service = (Inr (), s)"
  shows "sv_runtime s \<and> sv_maintenance s \<and> sv_stopOnLoss s \<and> sv_stopping s = None"
proof -
  let ?s1 = "fresh_service\<lparr>sv_done := [(Acquire_ownership, True), (Emit Ownership_acquired, True)]\<rparr>"
  have "\<not> (\<exists>a t. run (failed_start fails e) u = (Inr a, t))" for e u
    by (auto simp: failed_start_def run_simps run_perform run_ignoring split: option.splits)
  then have "run (service_body fails preflight) ?s1 = (Inr (), s)"
    using assms by (auto simp: startDispatcherService_def run_simps run_perform run_ignoring fresh_service_def
        split: option.splits prod.splits sum.splits)
  then show ?thesis using wpD(1) [OF wp_started [of ?s1 fails preflight]] by (simp add: fresh_service_def)
qed

text \<open>
  C33. A running dispatcher that loses the lock stops: the maintenance loop and the runner are stopped, the
  session and the pool given back and telemetry shut down, each attempted whichever of them fail, and
  a later \<open>stop\<close> does nothing more. This holds exactly when the host's callback for the loss returns: a
  callback that throws is swallowed by the heartbeat before the stop is asked for, and the dispatcher
  goes on claiming without the lock.
\<close>

theorem loss_stops_unless_callback_throws:
  assumes "run (startDispatcherService fails preflight) fresh_service = (Inr (), s)"
  shows "\<exists>t. run (report_loss fails e) s = (Inr (), t) \<and> sv_lost t = Some e \<and>
    (if fails (sv_done s) (Emit Ownership_lost) = None
     then \<exists>new. sv_done t = sv_done s @ (Emit Ownership_lost, True) # new \<and>
       map fst new = [Stop_maintenance, Stop_dispatcher, Release_ownership, End_pool, Shutdown_telemetry, Emit Stopped] \<and>
       snd (run (service_stop fails) t) = t
     else sv_done t = sv_done s @ [(Emit Ownership_lost, False)] \<and> sv_stopping t = None)"
proof -
  note st = started_state [OF assms]
  let ?s1 = "s\<lparr>sv_lost := Some e, sv_done := sv_done s @ [(Emit Ownership_lost, True)]\<rparr>"
  show ?thesis
  proof (cases "fails (sv_done s) (Emit Ownership_lost)")
    case None
    obtain x t where r: "run (service_stop fails) ?s1 = (x, t)" "cleaned ?s1 (t\<lparr>sv_stopping := None\<rparr>)" "sv_stopping t = Some x"
      using run_service_stop [of fails ?s1] st by auto
    then obtain new where new: "t\<lparr>sv_stopping := None\<rparr> = ?s1\<lparr>sv_done := sv_done ?s1 @ new\<rparr>" "map fst new = stop_plan ?s1"
      by (auto simp: cleaned_def)
    have "run (report_loss fails e) s = (Inr (), t)"
      using None st r(1) by (cases x) (simp_all add: report_loss_def onLost_def ignoring_def run_simps run_perform)
    moreover have "sv_done t = sv_done s @ (Emit Ownership_lost, True) # new" "sv_lost t = Some e"
      using arg_cong [OF new(1), of sv_done] arg_cong [OF new(1), of sv_lost] by simp_all
    moreover have "map fst new = [Stop_maintenance, Stop_dispatcher, Release_ownership, End_pool, Shutdown_telemetry, Emit Stopped]"
      using new(2) st by (simp add: stop_plan_def)
    moreover have "snd (run (service_stop fails) t) = t" using run_service_stop [of fails t] r(3) by auto
    ultimately show ?thesis using None by auto
  next
    case (Some f)
    then show ?thesis using st by (simp add: report_loss_def onLost_def ignoring_def run_simps run_perform)
  qed
qed

theorem loss_stops_unless_callback_throws_witness:
  "\<exists>s t. run (startDispatcherService (\<lambda>h a. if a = Emit Ownership_lost then Some PlainError else None) False) fresh_service = (Inr (), s) \<and>
     run (report_loss (\<lambda>h a. if a = Emit Ownership_lost then Some PlainError else None) PlainError) s = (Inr (), t) \<and>
     Stop_dispatcher \<notin> fst ` set (sv_done t)"
proof -
  let ?f = "\<lambda>h a. if a = Emit Ownership_lost then Some PlainError else None :: error option"
  let ?x = "run (startDispatcherService ?f False) fresh_service"
  have x: "fst ?x = Inr ()" "sv_done (snd ?x) = map (\<lambda>a. (a, True)) (start_plan False)"
    by (simp_all add: startDispatcherService_def service_body_def startClaiming_def run_simps run_perform fresh_service_def start_plan_def)
  then obtain s where s: "?x = (Inr (), s)" "sv_done s = map (\<lambda>a. (a, True)) (start_plan False)" by (metis prod.collapse)
  from loss_stops_unless_callback_throws [OF s(1), of PlainError] obtain t
    where "run (report_loss ?f PlainError) s = (Inr (), t)" "sv_done t = sv_done s @ [(Emit Ownership_lost, False)]" by auto
  with s show ?thesis by (intro exI [of _ s] exI [of _ t]) (simp add: start_plan_def)
qed

text \<open>
  A callback that throws on \<open>ready\<close> fails the start after the maintenance loop has begun, and the
  clean-up of a failed start does not stop that loop.
\<close>

lemma failed_start_keeps_maintenance:
  "\<exists>s. run (startDispatcherService (\<lambda>h a. if a = Emit Ready then Some PlainError else None) False) fresh_service = (Inl PlainError, s) \<and>
     (Start_maintenance, True) \<in> set (sv_done s) \<and> Stop_maintenance \<notin> fst ` set (sv_done s) \<and> (End_pool, True) \<in> set (sv_done s)"
  by (simp add: startDispatcherService_def service_body_def startClaiming_def failed_start_def run_simps run_perform run_ignoring
      fresh_service_def)

end
