(* ===== verification/Backfill.thy ===== *)
theory Backfill
  imports Retention Configuration "HOL-Library.Multiset"
begin

text \<open>
  Changing the retention class of a run graph that predates the classes: \<open>src/retention-backfill.ts\<close>.
  The recursive query is evaluated the way PostgreSQL does it, one round of new rows at a time; the
  rounds have fuel, one more than there are pairs of a run and a root, and the result is shown to be the least
  set the query describes. A locked row is one that another transaction holds (\<open>skip locked\<close>).
\<close>

section \<open>The selector\<close>

record backfill_selector =
  bs_tenantId :: tenant_id
  bs_rootAttribute :: string
  bs_rootValue :: string
  bs_retentionClass :: string

definition assertNonEmptyString :: "string \<Rightarrow> error + unit" where
  "assertNonEmptyString v = (if trim v = [] then Inl TypeError else Inr ())"

definition normalizeSelector :: "backfill_selector \<Rightarrow> error + retention_class" where
  "normalizeSelector sel = bindE (assertValidTenantId (bs_tenantId sel)) (\<lambda>_.
     bindE (assertNonEmptyString (bs_rootAttribute sel)) (\<lambda>_.
     bindE (assertNonEmptyString (bs_rootValue sel)) (\<lambda>_. resolveRunRetentionClass (Some (bs_retentionClass sel)) None)))"

section \<open>The graph\<close>

definition attr :: "string \<Rightarrow> run_row \<Rightarrow> string option" where
  "attr k x = map_of (r_attributes x) k"

definition graph_roots :: "backfill_selector \<Rightarrow> run_row list \<Rightarrow> (run_id \<times> run_id) list" where
  "graph_roots sel rs = map (\<lambda>x. (r_runId x, r_runId x))
     (filter (\<lambda>x. r_tenantId x = bs_tenantId sel \<and> attr (bs_rootAttribute sel) x = Some (bs_rootValue sel)) rs)"

text \<open>The condition under which a run joins the graph through a member of it.\<close>

definition joins :: "run_row \<Rightarrow> run_id \<times> run_id \<Rightarrow> bool" where
  "joins x = (\<lambda>(i, root). attr ''$parentRunId'' x = Some i \<or> attr ''$eve.parent'' x = Some i \<or>
     attr ''$rootRunId'' x = Some root \<or> attr ''$eve.root'' x = Some root)"

definition graph_round :: "backfill_selector \<Rightarrow> run_row list \<Rightarrow> (run_id \<times> run_id) list \<Rightarrow> (run_id \<times> run_id) list" where
  "graph_round sel rs g = filter (\<lambda>p. p \<notin> set g)
     (remdups (concat (map (\<lambda>x. map (\<lambda>p. (r_runId x, snd p)) (filter (joins x) g)) (filter (\<lambda>x. r_tenantId x = bs_tenantId sel) rs))))"

fun graph_rounds :: "nat \<Rightarrow> backfill_selector \<Rightarrow> run_row list \<Rightarrow> (run_id \<times> run_id) list \<Rightarrow> (run_id \<times> run_id) list" where
  "graph_rounds 0 sel rs g = g"
| "graph_rounds (Suc n) sel rs g = (let new = graph_round sel rs g in if new = [] then g else graph_rounds n sel rs (g @ new))"

definition graph :: "backfill_selector \<Rightarrow> run_row list \<Rightarrow> (run_id \<times> run_id) list" where
  "graph sel rs = graph_rounds (length rs * length rs + 1) sel rs (remdups (graph_roots sel rs))"

section \<open>The queries over the graph\<close>

text \<open>
  \<open>graph join workflow_runs as runs\<close>: a row of the answer is a run with the root it was found under. A run
  found under two roots is two rows, here as in the queries.
\<close>

definition row_at :: "tenant_id \<Rightarrow> run_row list \<Rightarrow> run_id \<Rightarrow> run_row list" where
  "row_at t rs i = filter (\<lambda>x. r_tenantId x = t \<and> r_runId x = i) rs"

definition members :: "backfill_selector \<Rightarrow> run_row list \<Rightarrow> run_row list" where
  "members sel rs = concat (map (\<lambda>(i, root). row_at (bs_tenantId sel) rs i) (graph sel rs))"

definition rooted_members :: "backfill_selector \<Rightarrow> run_row list \<Rightarrow> (run_row \<times> run_row) list" where
  "rooted_members sel rs = concat (map (\<lambda>(i, root). List.product (row_at (bs_tenantId sel) rs i) (row_at (bs_tenantId sel) rs root))
     (graph sel rs))"

definition eligible :: "retention_class \<Rightarrow> run_row \<Rightarrow> bool" where
  "eligible k x \<longleftrightarrow> r_retentionClass x \<noteq> k \<and> r_retentionClass x \<noteq> Persistent"

definition countRemaining :: "backfill_selector \<Rightarrow> retention_class \<Rightarrow> run_row list \<Rightarrow> nat" where
  "countRemaining sel k rs = length (filter (eligible k) (members sel rs))"

subsection \<open>Preview\<close>

record backfill_group =
  bg_tenantId :: tenant_id
  bg_rootTrigger :: "string option"
  bg_runType :: "string option"
  bg_workflowName :: string
  bg_status :: run_status
  bg_retentionClass :: retention_class

record backfill_preview =
  bp_matchedRoots :: nat
  bp_eligibleRuns :: nat
  bp_excludedPersistentRuns :: nat
  bp_groups :: "(backfill_group \<times> nat) list"

definition group_of :: "run_row \<times> run_row \<Rightarrow> backfill_group" where
  "group_of = (\<lambda>(x, root). \<lparr>bg_tenantId = r_tenantId x, bg_rootTrigger = attr ''$eve.trigger'' root,
     bg_runType = attr ''$eve.type'' x, bg_workflowName = r_workflowName x, bg_status = r_status x,
     bg_retentionClass = r_retentionClass x\<rparr>)"

text \<open>\<open>order by\<close>: NULL comes last, a status in the order of its enumeration, a class by its name.\<close>

fun status_rank :: "run_status \<Rightarrow> nat" where
  "status_rank Run_pending = 0"
| "status_rank Run_running = 1"
| "status_rank Run_completed_st = 2"
| "status_rank Run_failed_st = 3"
| "status_rank Run_cancelled_st = 4"

fun class_rank :: "retention_class \<Rightarrow> nat" where
  "class_rank Interactive = 0"
| "class_rank Persistent = 1"
| "class_rank Scheduled = 2"

definition nullable_sort :: "('a \<Rightarrow> string option) \<Rightarrow> 'a list \<Rightarrow> 'a list" where
  "nullable_sort f xs = sort_key (\<lambda>g. if f g = None then 1 else 0 :: nat)
     (sort_key (\<lambda>g. case f g of Some v \<Rightarrow> v | None \<Rightarrow> []) xs)"

definition group_order :: "backfill_group list \<Rightarrow> backfill_group list" where
  "group_order gs = sort_key bg_tenantId (nullable_sort bg_rootTrigger (nullable_sort bg_runType
     (sort_key bg_workflowName (sort_key (\<lambda>g. status_rank (bg_status g)) (sort_key (\<lambda>g. class_rank (bg_retentionClass g)) gs)))))"

definition preview_groups :: "backfill_selector \<Rightarrow> run_row list \<Rightarrow> (backfill_group \<times> nat) list" where
  "preview_groups sel rs = (let gs = map group_of (rooted_members sel rs)
     in map (\<lambda>g. (g, count_list gs g)) (group_order (remdups gs)))"

text \<open>The two queries run side by side on connections of their own: each reads the rows as it finds them.\<close>

definition previewWorkflowRunRetentionBackfill ::
  "backfill_selector \<Rightarrow> run_row list \<Rightarrow> run_row list \<Rightarrow> error + backfill_preview" where
  "previewWorkflowRunRetentionBackfill sel rs rs' = bindE (normalizeSelector sel) (\<lambda>k. Inr \<lparr>
     bp_matchedRoots = length (graph_roots sel rs),
     bp_eligibleRuns = length (filter (eligible k) (members sel rs)),
     bp_excludedPersistentRuns = length (filter (\<lambda>x. r_retentionClass x = Persistent) (members sel rs)),
     bp_groups = preview_groups sel rs'\<rparr>)"

subsection \<open>Mismatches\<close>

definition assertPositiveInteger :: "int \<Rightarrow> error + unit" where
  "assertPositiveInteger n = (if n \<le> 0 then Inl TypeError else Inr ())"

text \<open>A mismatch is the run and its root; it is a root-class one exactly when the two are the same run.\<close>

definition mismatched :: "retention_class \<Rightarrow> run_row \<times> run_row \<Rightarrow> bool" where
  "mismatched k = (\<lambda>(x, root). r_retentionClass x \<noteq> Persistent \<and>
     (r_runId x = r_runId root \<and> r_retentionClass x \<noteq> k \<or>
      r_runId x \<noteq> r_runId root \<and> r_retentionClass x \<noteq> r_retentionClass root))"

definition mismatch_order :: "(run_row \<times> run_row) list \<Rightarrow> (run_row \<times> run_row) list" where
  "mismatch_order ms = sort_key (\<lambda>(x, root). if r_runId x = r_runId root then 0 else 1 :: nat)
     (sort_key (\<lambda>(x, root). r_runId root) (sort_key (\<lambda>(x, root). r_runId x) ms))"

definition inspectWorkflowRunRetentionMismatches ::
  "backfill_selector \<Rightarrow> int \<Rightarrow> run_row list \<Rightarrow> error + (run_row \<times> run_row) list \<times> bool" where
  "inspectWorkflowRunRetentionMismatches sel limit rs = bindE (normalizeSelector sel) (\<lambda>k.
     bindE (assertPositiveInteger limit) (\<lambda>_.
       let rows = take (nat (limit + 1)) (mismatch_order (filter (mismatched k) (rooted_members sel rs)))
       in Inr (take (nat limit) rows, limit < int (length rows))))"

subsection \<open>One batch\<close>

record backfill_result =
  br_updatedRuns :: nat
  br_remainingRuns :: nat
  br_hitBatchLimit :: bool

text \<open>\<open>locked\<close> tells which rows another transaction holds; they are skipped and do not count towards the limit.\<close>

definition backfill_victims ::
  "(tenant_id \<times> run_id \<Rightarrow> bool) \<Rightarrow> backfill_selector \<Rightarrow> retention_class \<Rightarrow> nat \<Rightarrow> run_row list \<Rightarrow> run_row list" where
  "backfill_victims locked sel k n rs = take n (sort_key (\<lambda>x. if r_status x = Run_pending \<or> r_status x = Run_running then 0 else 1 :: nat)
     (sort_key r_createdAt (sort_key r_runId (filter (\<lambda>x. eligible k x \<and> \<not> locked (run_key x)) (members sel rs)))))"

text \<open>The update of the victims' class, with the trigger that recomputes their deadlines.\<close>

definition reclass :: "(tenant_id \<times> run_id) set \<Rightarrow> retention_class \<Rightarrow> store \<Rightarrow> store" where
  "reclass ks k s = s\<lparr>runs := update_where (\<lambda>x. run_key x \<in> ks) (\<lambda>x. x\<lparr>r_retentionClass := k\<rparr>) (runs s),
     deadline_columns := map (\<lambda>x. (run_key x, set_run_retention_deadlines (x\<lparr>r_retentionClass := k\<rparr>)))
       (filter (\<lambda>x. run_key x \<in> ks) (runs s)) @ deadline_columns s\<rparr>"

text \<open>
  The transaction. \<open>failure\<close> is the error of the counting query, if it fails: the update is rolled back and the
  error thrown.
\<close>

definition backfillWorkflowRunRetentionClass ::
  "(tenant_id \<times> run_id \<Rightarrow> bool) \<Rightarrow> error option \<Rightarrow> backfill_selector \<Rightarrow> int \<Rightarrow> store \<Rightarrow> (error + backfill_result) \<times> store" where
  "backfillWorkflowRunRetentionClass locked failure sel batchSize s =
     (case bindE (normalizeSelector sel) (\<lambda>k. bindE (assertPositiveInteger batchSize) (\<lambda>_. Inr k)) of
        Inl e \<Rightarrow> (Inl e, s)
      | Inr k \<Rightarrow> (let ks = run_key ` set (backfill_victims locked sel k (nat batchSize) (runs s));
                     s' = reclass ks k s;
                     remaining = countRemaining sel k (runs s')
                 in case failure of
                      Some e \<Rightarrow> (Inl e, s)
                    | None \<Rightarrow> (Inr \<lparr>br_updatedRuns = length (filter (\<lambda>x. run_key x \<in> ks) (runs s)), br_remainingRuns = remaining,
                        br_hitBatchLimit = 0 < remaining\<rparr>, s')))"

section \<open>The least set closed under the query\<close>

inductive in_graph :: "backfill_selector \<Rightarrow> run_row list \<Rightarrow> run_id \<times> run_id \<Rightarrow> bool" for sel rs where
  root: "p \<in> set (graph_roots sel rs) \<Longrightarrow> in_graph sel rs p"
| child: "in_graph sel rs (i, r) \<Longrightarrow> x \<in> set rs \<Longrightarrow> r_tenantId x = bs_tenantId sel \<Longrightarrow> joins x (i, r) \<Longrightarrow> in_graph sel rs (r_runId x, r)"

lemma set_graph_round:
  "set (graph_round sel rs g) = {(r_runId x, r) | x i r. x \<in> set rs \<and> r_tenantId x = bs_tenantId sel \<and> (i, r) \<in> set g \<and> joins x (i, r)} - set g"
  by (force simp: graph_round_def)

lemma graph_rounds_closed:
  assumes "set g \<subseteq> U" and "finite U" and "distinct g" and "\<And>h. set h \<subseteq> U \<Longrightarrow> set (graph_round sel rs h) \<subseteq> U"
    and "card U < length g + n"
  shows "graph_round sel rs (graph_rounds n sel rs g) = [] \<and> distinct (graph_rounds n sel rs g) \<and> set g \<subseteq> set (graph_rounds n sel rs g)"
  using assms(1,3,5)
proof (induction n arbitrary: g)
  case 0
  then have "length g \<le> card U" by (metis assms(2) card_mono distinct_card)
  with 0 show ?case by simp
next
  case (Suc n)
  show ?case
  proof (cases "graph_round sel rs g = []")
    case False
    let ?new = "graph_round sel rs g"
    have "distinct ?new" "set ?new \<inter> set g = {}" by (auto simp: graph_round_def)
    then have "distinct (g @ ?new)" using Suc.prems(2) by auto
    moreover have "set (g @ ?new) \<subseteq> U" using Suc.prems(1) assms(4) [OF Suc.prems(1)] by simp
    moreover have "card U < length (g @ ?new) + n" using Suc.prems(3) False by (cases ?new) auto
    ultimately show ?thesis using Suc.IH [of "g @ ?new"] False by (simp add: Let_def)
  qed (use Suc.prems in simp)
qed

lemma graph_rounds_sound: "\<forall>p \<in> set g. in_graph sel rs p \<Longrightarrow> p \<in> set (graph_rounds n sel rs g) \<Longrightarrow> in_graph sel rs p"
proof (induction n arbitrary: g)
  case (Suc n)
  have "\<forall>p \<in> set (g @ graph_round sel rs g). in_graph sel rs p"
    using Suc.prems(1) by (auto simp: set_graph_round intro: in_graph.child)
  from Suc.IH [OF this] Suc.prems show ?case by (cases "graph_round sel rs g = []") (auto simp: Let_def)
qed simp

lemma set_graph: "set (graph sel rs) = {p. in_graph sel rs p}" and distinct_graph: "distinct (graph sel rs)"
proof -
  let ?U = "(r_runId ` set rs) \<times> (r_runId ` set rs)" and ?g = "remdups (graph_roots sel rs)"
  have g: "set ?g \<subseteq> ?U" by (auto simp: graph_roots_def)
  have "card ?U \<le> length rs * length rs"
    by (simp add: card_cartesian_product) (meson card_image_le card_length le_trans mult_le_mono List.finite_set)
  then have closed: "graph_round sel rs (graph sel rs) = []" "set ?g \<subseteq> set (graph sel rs)" and d: "distinct (graph sel rs)"
    using graph_rounds_closed [of ?g ?U sel rs "length rs * length rs + 1"] g
    by (auto simp: graph_def set_graph_round)
  show "distinct (graph sel rs)" by (rule d)
  have "p \<in> set (graph sel rs)" if "in_graph sel rs p" for p
    using that
  proof induction
    case (root p)
    then show ?case using closed(2) by auto
  next
    case (child i r x)
    then have "(r_runId x, r) \<in> {(r_runId x, r) | x i r. x \<in> set rs \<and> r_tenantId x = bs_tenantId sel \<and> (i, r) \<in> set (graph sel rs) \<and> joins x (i, r)}"
      by blast
    moreover have "{(r_runId x, r) | x i r. x \<in> set rs \<and> r_tenantId x = bs_tenantId sel \<and> (i, r) \<in> set (graph sel rs) \<and> joins x (i, r)}
      \<subseteq> set (graph sel rs)"
      using closed(1) set_graph_round [of sel rs "graph sel rs"] by simp
    ultimately show ?case by (rule rev_subsetD)
  qed
  moreover have "in_graph sel rs p" if "p \<in> set (graph sel rs)" for p
    using graph_rounds_sound [of ?g sel rs p "length rs * length rs + 1"] that by (auto simp: graph_def intro: in_graph.root)
  ultimately show "set (graph sel rs) = {p. in_graph sel rs p}" by blast
qed

section \<open>A batch\<close>

text \<open>The class of a run decides nothing about the graph: a batch leaves the graph as it was.\<close>

definition keeps_lineage :: "(run_row \<Rightarrow> run_row) \<Rightarrow> bool" where
  "keeps_lineage f \<longleftrightarrow> (\<forall>x. r_runId (f x) = r_runId x \<and> r_tenantId (f x) = r_tenantId x \<and> r_attributes (f x) = r_attributes x)"

lemma attr_lineage: "keeps_lineage f \<Longrightarrow> attr a (f x) = attr a x"
  by (simp add: attr_def keeps_lineage_def)

lemma joins_lineage: "keeps_lineage f \<Longrightarrow> joins (f x) = joins x"
  by (simp add: joins_def attr_lineage)

lemma graph_round_lineage: "keeps_lineage f \<Longrightarrow> graph_round sel (map f rs) g = graph_round sel rs g"
  by (simp add: graph_round_def filter_map o_def joins_lineage) (simp add: keeps_lineage_def)

lemma graph_rounds_lineage: "keeps_lineage f \<Longrightarrow> graph_rounds n sel (map f rs) g = graph_rounds n sel rs g"
  by (induction n arbitrary: g) (simp_all add: graph_round_lineage Let_def)

lemma graph_roots_lineage: "keeps_lineage f \<Longrightarrow> graph_roots sel (map f rs) = graph_roots sel rs"
  by (simp add: graph_roots_def filter_map o_def attr_lineage) (simp add: keeps_lineage_def)

lemma graph_lineage: "keeps_lineage f \<Longrightarrow> graph sel (map f rs) = graph sel rs"
  by (simp add: graph_def graph_roots_lineage graph_rounds_lineage del: graph_rounds.simps)

lemma row_at_lineage: "keeps_lineage f \<Longrightarrow> row_at t (map f rs) i = map f (row_at t rs i)"
  by (simp add: row_at_def filter_map o_def keeps_lineage_def)

lemma members_lineage: "keeps_lineage f \<Longrightarrow> members sel (map f rs) = map f (members sel rs)"
  by (simp add: members_def graph_lineage row_at_lineage map_concat o_def case_prod_unfold)

lemma set_members:
  "set (members sel rs) = {x \<in> set rs. r_tenantId x = bs_tenantId sel \<and> (\<exists>root. in_graph sel rs (r_runId x, root))}"
  using set_graph [of sel rs] by (force simp: members_def row_at_def)

definition reclassed :: "(tenant_id \<times> run_id) set \<Rightarrow> retention_class \<Rightarrow> run_row \<Rightarrow> run_row" where
  "reclassed ks k x = (if run_key x \<in> ks then x\<lparr>r_retentionClass := k\<rparr> else x)"

lemma runs_reclass: "runs (reclass ks k s) = map (reclassed ks k) (runs s)"
  by (simp add: reclass_def update_where_def reclassed_def)

lemma reclassed_lineage: "keeps_lineage (reclassed ks k)"
  by (simp add: keeps_lineage_def reclassed_def)

lemma run_key_reclassed [simp]: "run_key (reclassed ks k x) = run_key x"
  by (simp add: run_key_def reclassed_def)

lemma countRemaining_reclass:
  "countRemaining sel k (map (reclassed ks k) rs) = length (filter (\<lambda>x. run_key x \<notin> ks) (filter (eligible k) (members sel rs)))"
proof -
  have "eligible k (reclassed ks k x) \<longleftrightarrow> eligible k x \<and> run_key x \<notin> ks" for x
    by (simp add: eligible_def reclassed_def)
  then show ?thesis
    by (simp add: countRemaining_def members_lineage [OF reclassed_lineage] filter_map o_def)
qed

lemma length_filter_sorted: "length (filter P (sort_key f xs)) = length (filter P xs)"
  by (simp add: filter_sort)

lemma length_filter_take: "length (filter P (take n xs)) \<le> length (filter P xs)"
proof -
  have "length (filter P xs) = length (filter P (take n xs)) + length (filter P (drop n xs))"
    using filter_append [of P "take n xs" "drop n xs"] by (simp flip: length_append)
  then show ?thesis by simp
qed

lemma victims_eligible:
  "x \<in> set (backfill_victims locked sel k n rs) \<Longrightarrow> x \<in> set (members sel rs) \<and> eligible k x \<and> \<not> locked (run_key x)"
  by (auto simp: backfill_victims_def dest!: in_set_takeD)

lemma length_victims: "length (backfill_victims locked sel k n rs) = min n (length (filter (\<lambda>x. eligible k x \<and> \<not> locked (run_key x)) (members sel rs)))"
  by (simp add: backfill_victims_def min.commute)

text \<open>A batch with nothing locked takes \<open>n\<close> rows of what remains, or all of it.\<close>

lemma batch_shrinks:
  assumes "ks = run_key ` set (backfill_victims (\<lambda>_. False) sel k n rs)"
  shows "countRemaining sel k (map (reclassed ks k) rs) \<le> countRemaining sel k rs - n"
proof -
  let ?E = "filter (eligible k) (members sel rs)" and ?V = "backfill_victims (\<lambda>_. False) sel k n rs"
  let ?rank = "\<lambda>x. if r_status x = Run_pending \<or> r_status x = Run_running then 0 else 1 :: nat"
  let ?S = "sort_key ?rank (sort_key r_createdAt (sort_key r_runId ?E))"
  have V: "?V = take n ?S" by (simp add: backfill_victims_def)
  have "length ?V = length (filter (\<lambda>x. run_key x \<in> ks) ?V)" using assms by (simp add: filter_id_conv [THEN iffD2])
  also have "\<dots> \<le> length (filter (\<lambda>x. run_key x \<in> ks) ?S)" unfolding V by (rule length_filter_take)
  also have "\<dots> = length (filter (\<lambda>x. run_key x \<in> ks) ?E)" by (simp only: length_filter_sorted)
  finally have "min n (length ?E) \<le> length (filter (\<lambda>x. run_key x \<in> ks) ?E)"
    using length_victims [of "\<lambda>_. False" sel k n rs] by simp
  moreover have "length (filter (\<lambda>x. run_key x \<in> ks) ?E) + length (filter (\<lambda>x. run_key x \<notin> ks) ?E) = length ?E"
    by (rule sum_length_filter_compl)
  moreover have "countRemaining sel k rs = length ?E" by (simp add: countRemaining_def)
  ultimately show ?thesis unfolding countRemaining_reclass by linarith
qed

section \<open>A rollout\<close>

text \<open>
  One call after another with the same selector and batch size; each finds its own rows locked. The answers and
  the last state.
\<close>

fun backfill_calls :: "(tenant_id \<times> run_id \<Rightarrow> bool) list \<Rightarrow> backfill_selector \<Rightarrow> int \<Rightarrow> store \<Rightarrow>
    (error + backfill_result) list \<times> store" where
  "backfill_calls [] sel n s = ([], s)"
| "backfill_calls (locked # ls) sel n s =
     (let (r, s1) = backfillWorkflowRunRetentionClass locked None sel n s; (rest, s') = backfill_calls ls sel n s1 in (r # rest, s'))"

text \<open>\<open>s'\<close> is \<open>s\<close> with the class of the runs \<open>ks\<close>, all of them eligible members of the graph, set and their deadlines recomputed.\<close>

definition eligible_members :: "backfill_selector \<Rightarrow> retention_class \<Rightarrow> run_row list \<Rightarrow> run_row set" where
  "eligible_members sel k rs = {x \<in> set rs. r_tenantId x = bs_tenantId sel \<and>
     (\<exists>root. in_graph sel rs (r_runId x, root)) \<and> eligible k x}"

definition backfilled :: "backfill_selector \<Rightarrow> retention_class \<Rightarrow> (tenant_id \<times> run_id) set \<Rightarrow> store \<Rightarrow> store \<Rightarrow> bool" where
  "backfilled sel k ks s s' \<longleftrightarrow> ks \<subseteq> run_key ` eligible_members sel k (runs s) \<and> runs s' = map (reclassed ks k) (runs s) \<and>
     (\<forall>x \<in> set (runs s'). deadlines_of s' x = (if run_key x \<in> ks then set_run_retention_deadlines x else deadlines_of s x)) \<and>
     s'\<lparr>runs := runs s, deadline_columns := deadline_columns s\<rparr> = s"

lemma eligible_members_eq: "eligible_members sel k rs = {x \<in> set (members sel rs). eligible k x}"
  by (auto simp: eligible_members_def set_members)

lemma deadlines_of_reclassed [simp]: "deadlines_of s (reclassed ks k x) = deadlines_of s x"
  by (simp add: deadlines_of_def reclassed_def)

lemma deadlines_reclass:
  assumes "distinct (map run_key (runs s))" and "x \<in> set (runs s)"
  shows "deadlines_of (reclass ks k s) x =
    (if run_key x \<in> ks then set_run_retention_deadlines (reclassed ks k x) else deadlines_of s x)"
proof -
  let ?new = "map (\<lambda>x. (run_key x, set_run_retention_deadlines (x\<lparr>r_retentionClass := k\<rparr>))) (filter (\<lambda>x. run_key x \<in> ks) (runs s))"
  have keys: "map fst ?new = map run_key (filter (\<lambda>x. run_key x \<in> ks) (runs s))" by (simp add: o_def)
  have d: "deadlines_of (reclass ks k s) x = (case map_of (?new @ deadline_columns s) (run_key x) of Some d \<Rightarrow> d | None \<Rightarrow> no_deadlines)"
    by (simp add: deadlines_of_def reclass_def run_key_def)
  show ?thesis
  proof (cases "run_key x \<in> ks")
    case True
    have "distinct (map fst ?new)" unfolding keys using assms(1) by (simp add: distinct_map_filter)
    moreover have "(run_key x, set_run_retention_deadlines (x\<lparr>r_retentionClass := k\<rparr>)) \<in> set ?new" using assms(2) True by auto
    ultimately have "map_of ?new (run_key x) = Some (set_run_retention_deadlines (x\<lparr>r_retentionClass := k\<rparr>))" by (rule map_of_is_SomeI)
    then show ?thesis using True unfolding d by (simp add: map_add_def reclassed_def)
  next
    case False
    then have "map_of ?new (run_key x) = None" by (auto simp: map_of_eq_None_iff)
    then show ?thesis using False unfolding d by (simp add: map_add_def deadlines_of_def run_key_def)
  qed
qed

lemma backfilled_reclass:
  assumes "distinct (map run_key (runs s))" and "ks \<subseteq> run_key ` eligible_members sel k (runs s)"
  shows "backfilled sel k ks s (reclass ks k s)"
proof -
  have "reclass ks k s\<lparr>runs := runs s, deadline_columns := deadline_columns s\<rparr> = s" by (simp add: reclass_def)
  then show ?thesis using assms(2) by (auto simp: backfilled_def runs_reclass deadlines_reclass [OF assms(1)])
qed

lemma reclassed_none [simp]: "reclassed {} k = (\<lambda>x. x)"
  by (simp add: fun_eq_iff reclassed_def)

lemma backfilled_none: "backfilled sel k {} s s"
  by (simp add: backfilled_def)

lemma eligible_members_reclassed:
  "run_key ` eligible_members sel k (map (reclassed ks k) rs) = run_key ` eligible_members sel k rs - ks"
  by (force simp: eligible_members_eq members_lineage [OF reclassed_lineage] reclassed_def eligible_def image_iff run_key_def split: if_splits)

lemma backfilled_trans:
  assumes "backfilled sel k ks s s1" and "backfilled sel k ks' s1 s'"
  shows "backfilled sel k (ks \<union> ks') s s'"
proof -
  have 1: "runs s1 = map (reclassed ks k) (runs s)" "runs s' = map (reclassed ks' k) (runs s1)"
    using assms by (simp_all add: backfilled_def)
  have "reclassed ks' k (reclassed ks k x) = reclassed (ks \<union> ks') k x" for x by (simp add: reclassed_def run_key_def)
  then have r: "runs s' = map (reclassed (ks \<union> ks') k) (runs s)" by (simp add: 1)
  have k: "ks \<union> ks' \<subseteq> run_key ` eligible_members sel k (runs s)" "ks \<inter> ks' = {}"
    using assms unfolding backfilled_def 1(1) eligible_members_reclassed by auto
  have d: "deadlines_of s' x = (if run_key x \<in> ks \<union> ks' then set_run_retention_deadlines x else deadlines_of s x)" if "x \<in> set (runs s')" for x
  proof -
    from that obtain y where y: "y \<in> set (runs s1)" "x = reclassed ks' k y" by (auto simp: 1(2))
    have "deadlines_of s1 y = (if run_key y \<in> ks then set_run_retention_deadlines y else deadlines_of s y)"
      using assms(1) y(1) by (simp add: backfilled_def)
    moreover have "deadlines_of s' x = (if run_key x \<in> ks' then set_run_retention_deadlines x else deadlines_of s1 x)"
      using assms(2) that by (simp add: backfilled_def)
    moreover have "run_key x = run_key y" using y(2) by simp
    moreover have "x = y" if "run_key y \<notin> ks'" using y(2) that by (simp add: reclassed_def)
    ultimately show ?thesis using k(2) by (cases "run_key y \<in> ks'") auto
  qed
  have s1: "s1 = s'\<lparr>runs := runs s1, deadline_columns := deadline_columns s1\<rparr>" using assms(2) by (simp add: backfilled_def)
  have "s1\<lparr>runs := runs s, deadline_columns := deadline_columns s\<rparr> = s'\<lparr>runs := runs s, deadline_columns := deadline_columns s\<rparr>"
    by (subst s1) simp
  then have "s'\<lparr>runs := runs s, deadline_columns := deadline_columns s\<rparr> = s" using assms(1) by (simp add: backfilled_def)
  then show ?thesis using r k d by (auto simp: backfilled_def)
qed

lemma card_victims: "card (run_key ` set (backfill_victims locked sel k n rs)) \<le> n"
  by (meson card_image_le card_length length_victims [THEN eq_refl] le_trans min.cobounded1 List.finite_set)

lemma length_filter_keys:
  assumes "distinct (map run_key rs)" and "finite ks"
  shows "length (filter (\<lambda>x. run_key x \<in> ks) rs) \<le> card ks"
proof -
  have "length (filter (\<lambda>x. run_key x \<in> ks) rs) = card (set (map run_key (filter (\<lambda>x. run_key x \<in> ks) rs)))"
    using assms(1) by (metis distinct_card distinct_map_filter length_map)
  also have "\<dots> \<le> card ks" using assms(2) by (intro card_mono) auto
  finally show ?thesis .
qed

lemma backfill_call:
  assumes "normalizeSelector sel = Inr k" and "0 < n" and "distinct (map run_key (runs s))"
  shows "\<exists>ks res s'. backfillWorkflowRunRetentionClass locked None sel n s = (Inr res, s') \<and> backfilled sel k ks s s' \<and>
    br_updatedRuns res \<le> nat n \<and> br_remainingRuns res = countRemaining sel k (runs s') \<and>
    (locked = (\<lambda>_. False) \<longrightarrow> countRemaining sel k (runs s') \<le> countRemaining sel k (runs s) - nat n)"
proof -
  let ?V = "backfill_victims locked sel k (nat n) (runs s)"
  let ?ks = "run_key ` set ?V"
  have "backfilled sel k ?ks s (reclass ?ks k s)"
    using assms(3) by (intro backfilled_reclass) (auto simp: eligible_members_eq dest: victims_eligible)
  moreover have "length (filter (\<lambda>x. run_key x \<in> ?ks) (runs s)) \<le> nat n"
    using length_filter_keys [OF assms(3), of ?ks] card_victims [of locked sel k "nat n" "runs s"] by simp
  moreover have "countRemaining sel k (runs (reclass ?ks k s)) \<le> countRemaining sel k (runs s) - nat n" if "locked = (\<lambda>_. False)"
    unfolding runs_reclass using that by (intro batch_shrinks) simp
  ultimately show ?thesis
    using assms(1,2) by (auto simp: backfillWorkflowRunRetentionClass_def assertPositiveInteger_def Let_def bindE_simps intro!: exI [of _ ?ks])
qed

lemma rollout:
  assumes "normalizeSelector sel = Inr k" and "0 < n" and "distinct (map run_key (runs s))" and "backfill_calls ls sel n s = (answers, s')"
  shows "\<exists>ks. backfilled sel k ks s s' \<and> (\<forall>a \<in> set answers. \<exists>res. a = Inr res \<and> br_updatedRuns res \<le> nat n) \<and>
    ((\<forall>locked \<in> set ls. locked = (\<lambda>_. False)) \<longrightarrow> countRemaining sel k (runs s') \<le> countRemaining sel k (runs s) - length ls * nat n)"
  using assms(3,4)
proof (induction ls arbitrary: s answers)
  case Nil
  then show ?case using backfilled_none by (intro exI [of _ "{}"]) auto
next
  case (Cons locked ls)
  from backfill_call [OF assms(1,2) Cons.prems(1)] obtain ks res s1
    where c: "backfillWorkflowRunRetentionClass locked None sel n s = (Inr res, s1)" "backfilled sel k ks s s1" "br_updatedRuns res \<le> nat n"
      "locked = (\<lambda>_. False) \<longrightarrow> countRemaining sel k (runs s1) \<le> countRemaining sel k (runs s) - nat n" by blast
  obtain rest where r: "backfill_calls ls sel n s1 = (rest, s')" "answers = Inr res # rest"
    using Cons.prems(2) c(1) by (auto split: prod.splits)
  have "distinct (map run_key (runs s1))" using Cons.prems(1) c(2) by (simp add: backfilled_def o_def)
  from Cons.IH [OF this r(1)] obtain ks' where ks': "backfilled sel k ks' s1 s'" "\<forall>a \<in> set rest. \<exists>res. a = Inr res \<and> br_updatedRuns res \<le> nat n"
    "(\<forall>locked \<in> set ls. locked = (\<lambda>_. False)) \<longrightarrow> countRemaining sel k (runs s') \<le> countRemaining sel k (runs s1) - length ls * nat n" by blast
  show ?case
    using backfilled_trans [OF c(2) ks'(1)] c(3,4) ks'(2,3) r(2) by (intro exI [of _ "ks \<union> ks'"]) auto
qed

text \<open>
  C36. A backfill changes only what it may: whatever rows other transactions hold, each call sets the class of at
  most its batch size of runs, all of them members of the graph (the least set of runs of the tenant that
  holds the roots and whoever names a member as parent or its root as root), none of them persistent, recomputes their
  deadlines and touches nothing else. And it converges: with no rows held, as many calls as there are batches in what
  remains give every eligible run of the graph the class.
\<close>

theorem backfill_converges:
  assumes "normalizeSelector sel = Inr k" and "0 < n" and "distinct (map run_key (runs s))" and "backfill_calls ls sel n s = (answers, s')"
  shows "\<exists>ks. backfilled sel k ks s s' \<and> (\<forall>a \<in> set answers. \<exists>res. a = Inr res \<and> br_updatedRuns res \<le> nat n) \<and>
    ((\<forall>locked \<in> set ls. locked = (\<lambda>_. False)) \<and> countRemaining sel k (runs s) \<le> length ls * nat n \<longrightarrow>
       ks = run_key ` eligible_members sel k (runs s))"
proof -
  from rollout [OF assms] obtain ks where ks: "backfilled sel k ks s s'" "\<forall>a \<in> set answers. \<exists>res. a = Inr res \<and> br_updatedRuns res \<le> nat n"
    "(\<forall>locked \<in> set ls. locked = (\<lambda>_. False)) \<longrightarrow> countRemaining sel k (runs s') \<le> countRemaining sel k (runs s) - length ls * nat n" by blast
  have runs: "runs s' = map (reclassed ks k) (runs s)" and sub: "ks \<subseteq> run_key ` eligible_members sel k (runs s)"
    using ks(1) by (simp_all add: backfilled_def)
  have "ks = run_key ` eligible_members sel k (runs s)" if "countRemaining sel k (runs s') = 0"
  proof -
    have "eligible_members sel k (runs s') = {}"
      using that by (auto simp: countRemaining_def eligible_members_eq filter_empty_conv)
    then have "run_key ` eligible_members sel k (runs s) - ks = {}" using runs eligible_members_reclassed [of sel k ks "runs s"] by simp
    with sub show ?thesis by blast
  qed
  with ks show ?thesis by (intro exI [of _ ks]) auto
qed

section \<open>What the reports say\<close>

lemma graph_root_in_graph: "in_graph sel rs (i, r) \<Longrightarrow> in_graph sel rs (r, r)"
  by (induction "(i, r)" arbitrary: i r rule: in_graph.induct) (auto simp: graph_roots_def intro: in_graph.root)

lemma set_rooted_members:
  "(x, r) \<in> set (rooted_members sel rs) \<longleftrightarrow> x \<in> set rs \<and> r \<in> set rs \<and> r_tenantId x = bs_tenantId sel \<and>
     r_tenantId r = bs_tenantId sel \<and> in_graph sel rs (r_runId x, r_runId r)"
  using set_graph [of sel rs] by (force simp: rooted_members_def row_at_def)

text \<open>
  Once nothing remains, the report of mismatches names only descendants of roots that are persistent: a backfill
  does not touch such a root, and its descendants got the class.
\<close>

lemma converged_mismatches:
  assumes "countRemaining sel k rs = 0" and "normalizeSelector sel = Inr k" and "distinct (map run_key rs)"
    and "inspectWorkflowRunRetentionMismatches sel limit rs = Inr (ms, hit)" and "(x, r) \<in> set ms"
  shows "r_runId x \<noteq> r_runId r \<and> r_retentionClass x = k \<and> r_retentionClass r = Persistent"
proof -
  have m: "(x, r) \<in> set (rooted_members sel rs)" "mismatched k (x, r)"
    using assms(2,4,5) by (auto simp: inspectWorkflowRunRetentionMismatches_def bindE_simps assertPositiveInteger_def Let_def
        mismatch_order_def split: if_splits dest!: in_set_takeD)
  have "\<forall>y \<in> set (members sel rs). \<not> eligible k y" using assms(1) by (simp add: countRemaining_def filter_empty_conv)
  moreover have "x \<in> set (members sel rs)" "r \<in> set (members sel rs)"
    using m(1) by (auto simp: set_rooted_members set_members dest: graph_root_in_graph)
  ultimately have "\<not> eligible k x" "\<not> eligible k r" by auto
  with m(2) show ?thesis by (auto simp: mismatched_def eligible_def)
qed

lemma row_at_single:
  assumes "distinct (map run_key rs)" and "(i, r) \<in> set (graph sel rs)"
  shows "length (row_at (bs_tenantId sel) rs r) = 1"
proof -
  have "in_graph sel rs (r, r)" using assms(2) set_graph graph_root_in_graph by blast
  then obtain x where x: "x \<in> set rs" "r_tenantId x = bs_tenantId sel" "r_runId x = r"
    by (cases rule: in_graph.cases) (auto simp: graph_roots_def)
  have "distinct (map run_key (row_at (bs_tenantId sel) rs r))" using assms(1) by (simp add: row_at_def distinct_map_filter)
  moreover have "set (map run_key (row_at (bs_tenantId sel) rs r)) = {(bs_tenantId sel, r)}" using x by (auto simp: row_at_def run_key_def)
  ultimately show ?thesis by (metis distinct_card length_map card.empty card_insert_disjoint finite.emptyI empty_iff One_nat_def)
qed

lemma map_fst_rooted_members:
  assumes "distinct (map run_key rs)"
  shows "map fst (rooted_members sel rs) = members sel rs"
proof -
  have one: "map fst (List.product xs ys) = xs" if "length ys = 1" for xs :: "run_row list" and ys :: "run_row list"
    using that by (cases ys) (auto simp: product_concat_map o_def map_concat)
  show ?thesis
    by (auto simp: rooted_members_def members_def map_concat o_def case_prod_unfold intro!: arg_cong [where f = concat] map_cong one
        row_at_single [OF assms])
qed

lemma length_group_order: "mset (group_order gs) = mset gs"
  by (simp add: group_order_def nullable_sort_def)

text \<open>A preview of rows that do not change meanwhile adds up: its groups count every row of the graph once.\<close>

lemma preview_adds_up:
  assumes "previewWorkflowRunRetentionBackfill sel rs rs = Inr p" and "distinct (map run_key rs)" and "normalizeSelector sel = Inr k" and "k \<noteq> Persistent"
  shows "sum_list (map snd (bp_groups p)) = length (members sel rs) \<and> bp_eligibleRuns p = countRemaining sel k rs \<and>
    bp_eligibleRuns p + bp_excludedPersistentRuns p + length (filter (\<lambda>x. r_retentionClass x = k) (members sel rs)) = length (members sel rs)"
proof -
  let ?gs = "map group_of (rooted_members sel rs)"
  have "sum_list (map snd (preview_groups sel rs)) = sum_list (map (count_list ?gs) (group_order (remdups ?gs)))"
    by (simp add: preview_groups_def Let_def o_def)
  also have "\<dots> = sum_list (map (count_list ?gs) (remdups ?gs))"
    by (metis length_group_order mset_map sum_mset_sum_list)
  also have "\<dots> = (\<Sum>g \<in> set ?gs. count_list ?gs g)" by (metis distinct_remdups set_remdups sum_list_distinct_conv_sum_set)
  also have "\<dots> = length ?gs" by (rule sum_count_set) auto
  also have "\<dots> = length (members sel rs)" by (metis length_map map_fst_rooted_members [OF assms(2)])
  finally have groups: "sum_list (map snd (preview_groups sel rs)) = length (members sel rs)" .
  have "length (filter (eligible k) xs) + length (filter (\<lambda>x. r_retentionClass x = Persistent) xs) +
      length (filter (\<lambda>x. r_retentionClass x = k) xs) = length xs" for xs
    using assms(4) by (induction xs) (auto simp: eligible_def)
  with groups assms(1,3) show ?thesis by (auto simp: previewWorkflowRunRetentionBackfill_def bindE_simps countRemaining_def)
qed

section \<open>An example\<close>

definition example_selector :: backfill_selector where
  "example_selector = \<lparr>bs_tenantId = ''t'', bs_rootAttribute = ''origin'', bs_rootValue = ''cron'', bs_retentionClass = ''ephemeral''\<rparr>"

definition example_graph :: "run_row list" where
  "example_graph = [(example_run Run_completed_st)\<lparr>r_runId := ''a'', r_attributes := [(''origin'', ''cron'')]\<rparr>,
     (example_run Run_running)\<lparr>r_runId := ''b'', r_attributes := [(''$parentRunId'', ''a'')]\<rparr>,
     (example_run Run_running)\<lparr>r_runId := ''c'', r_attributes := [(''$eve.parent'', ''b'')], r_retentionClass := Persistent\<rparr>,
     (example_run Run_running)\<lparr>r_runId := ''d'', r_attributes := []\<rparr>]"

lemma example_graph_members:
  "map (\<lambda>x. (run_key x, r_retentionClass x)) (members example_selector example_graph) =
    [((''t'', ''a''), Interactive), ((''t'', ''b''), Interactive), ((''t'', ''c''), Persistent)]"
  by code_simp

text \<open>Two calls of one run each give both eligible runs of the graph the class.\<close>

theorem backfill_converges_witness:
  "\<exists>answers s'. backfill_calls [\<lambda>_. False, \<lambda>_. False] example_selector 1 (example_lineage example_graph) = (answers, s') \<and>
     map r_retentionClass (runs s') = [Scheduled, Scheduled, Persistent, Interactive]"
proof -
  let ?s = "example_lineage example_graph" and ?ls = "[\<lambda>_. False, \<lambda>_. False] :: (tenant_id \<times> run_id \<Rightarrow> bool) list"
  obtain answers s' where c: "backfill_calls ?ls example_selector 1 ?s = (answers, s')" by (cases "backfill_calls ?ls example_selector 1 ?s")
  have rs: "runs ?s = example_graph" by (simp add: example_lineage_def)
  have n: "normalizeSelector example_selector = Inr Scheduled" by code_simp
  have d: "distinct (map run_key (runs ?s))" unfolding rs by (simp add: example_graph_def run_key_def)
  let ?E = "filter (\<lambda>p. snd p \<noteq> Scheduled \<and> snd p \<noteq> Persistent) (map (\<lambda>x. (run_key x, r_retentionClass x)) (members example_selector example_graph))"
  have "countRemaining example_selector Scheduled example_graph = length ?E"
    by (simp add: countRemaining_def filter_map o_def eligible_def [abs_def])
  then have "countRemaining example_selector Scheduled (runs ?s) \<le> length ?ls * nat 1"
    unfolding example_graph_members rs by simp
  moreover have "run_key ` eligible_members example_selector Scheduled example_graph = fst ` set ?E"
    by (force simp: eligible_members_eq eligible_def image_iff)
  then have "run_key ` eligible_members example_selector Scheduled (runs ?s) = {(''t'', ''a''), (''t'', ''b'')}"
    unfolding example_graph_members rs by auto
  ultimately have "backfilled example_selector Scheduled {(''t'', ''a''), (''t'', ''b'')} ?s s'"
    using backfill_converges [OF n _ d c] by auto
  then have "runs s' = map (reclassed {(''t'', ''a''), (''t'', ''b'')} Scheduled) example_graph" by (simp add: backfilled_def rs)
  then show ?thesis using c by (intro exI [of _ answers] exI [of _ s'])
    (simp add: example_graph_def reclassed_def run_key_def example_run_def)
qed

text \<open>The counts are of rows of the graph: a run below two matching roots counts twice.\<close>

lemma shared_run_counted_twice:
  "countRemaining example_selector Scheduled
    [(example_run Run_running)\<lparr>r_runId := ''a'', r_attributes := [(''origin'', ''cron'')], r_retentionClass := Scheduled\<rparr>,
     (example_run Run_running)\<lparr>r_runId := ''b'', r_attributes := [(''origin'', ''cron'')], r_retentionClass := Scheduled\<rparr>,
     (example_run Run_running)\<lparr>r_runId := ''c'', r_attributes := [(''$parentRunId'', ''a''), (''$eve.parent'', ''b'')]\<rparr>] = 2"
  by code_simp

end
