(* ===== verification/Migration.thy ===== *)
theory Migration
  imports Store
begin

text \<open>
  The migration runner of \<open>src/migrate.ts\<close>. Any number of processes boot at once, so \<open>runMigrations\<close> is a state
  machine: a step is one statement of one process. \<open>pg_advisory_lock\<close> waits, which is a step that is
  possible only while no session holds the lock; a session that ends, whatever it was doing, gives
  the lock up. The SQL of a migration takes effect with the row that records it or not at all.
\<close>

section \<open>The runner\<close>

definition ends_with :: "string \<Rightarrow> string \<Rightarrow> bool" where
  "ends_with suffix v \<longleftrightarrow> length suffix \<le> length v \<and> drop (length v - length suffix) v = suffix"

definition migration_files :: "string list \<Rightarrow> string list" where
  "migration_files names = sort (filter (ends_with ''.sql'') names)"

text \<open>\<open>mg_recorded\<close> is the table \<open>workflow.eveland_migrations\<close>, \<open>mg_schema\<close> the migrations whose SQL has run, in order.\<close>

record migrations =
  mg_lock :: "nat option"
  mg_recorded :: "string list"
  mg_schema :: "string list"

text \<open>Where a process stands; \<open>Migrating seen todo applied\<close> is in the loop over the files.\<close>

datatype migrator =
    Connected
  | Holding
  | Migrating "string list" "string list" "string list"
  | Unlocking "error + string list"
  | Settled "error + string list"
  | Ended

definition migrate_one :: "string \<Rightarrow> migrations \<Rightarrow> migrations" where
  "migrate_one name db = db\<lparr>mg_recorded := mg_recorded db @ [name], mg_schema := mg_schema db @ [name]\<rparr>"

inductive migrate_step :: "string list \<Rightarrow> migrations \<times> migrator list \<Rightarrow> migrations \<times> migrator list \<Rightarrow> bool" for names where
  locks: "i < length ps \<Longrightarrow> ps ! i = Connected \<Longrightarrow> mg_lock db = None \<Longrightarrow>
    migrate_step names (db, ps) (db\<lparr>mg_lock := Some i\<rparr>, ps[i := Holding])"
| lock_fails: "i < length ps \<Longrightarrow> ps ! i = Connected \<Longrightarrow> migrate_step names (db, ps) (db, ps[i := Settled (Inl e)])"
| reads: "i < length ps \<Longrightarrow> ps ! i = Holding \<Longrightarrow>
    migrate_step names (db, ps) (db, ps[i := Migrating (mg_recorded db) (migration_files names) []])"
| prepare_fails: "i < length ps \<Longrightarrow> ps ! i = Holding \<Longrightarrow> migrate_step names (db, ps) (db, ps[i := Unlocking (Inl e)])"
| skips: "i < length ps \<Longrightarrow> ps ! i = Migrating seen (f # fs) applied \<Longrightarrow> f \<in> set seen \<Longrightarrow>
    migrate_step names (db, ps) (db, ps[i := Migrating seen fs applied])"
| applies: "i < length ps \<Longrightarrow> ps ! i = Migrating seen (f # fs) applied \<Longrightarrow> f \<notin> set seen \<Longrightarrow>
    migrate_step names (db, ps) (migrate_one f db, ps[i := Migrating seen fs (applied @ [f])])"
| migration_fails: "i < length ps \<Longrightarrow> ps ! i = Migrating seen (f # fs) applied \<Longrightarrow> f \<notin> set seen \<Longrightarrow>
    migrate_step names (db, ps) (db, ps[i := Unlocking (Inl e)])"
| finishes: "i < length ps \<Longrightarrow> ps ! i = Migrating seen [] applied \<Longrightarrow>
    migrate_step names (db, ps) (db, ps[i := Unlocking (Inr applied)])"
| unlocks: "i < length ps \<Longrightarrow> ps ! i = Unlocking r \<Longrightarrow> migrate_step names (db, ps) (db\<lparr>mg_lock := None\<rparr>, ps[i := Settled r])"
| session_ends: "i < length ps \<Longrightarrow>
    migrate_step names (db, ps) (if mg_lock db = Some i then db\<lparr>mg_lock := None\<rparr> else db, ps[i := Ended])"

inductive_cases migrate_stepE: "migrate_step names (db, ps) c"

section \<open>Each migration once, in order\<close>

definition working :: "migrator \<Rightarrow> bool" where
  "working p \<longleftrightarrow> p \<noteq> Connected \<and> p \<noteq> Ended \<and> (\<forall>r. p \<noteq> Settled r)"

fun reported :: "migrator \<Rightarrow> string list" where
  "reported (Migrating seen todo applied) = applied"
| "reported (Unlocking (Inr applied)) = applied"
| "reported (Settled (Inr applied)) = applied"
| "reported _ = []"

text \<open>
  What a process knows: in the loop it has passed over a prefix of the files, and the table holds
  what it saw or, once it is past that, what it passed over; when it is through, everything.
\<close>

fun progress_ok :: "string list \<Rightarrow> migrations \<Rightarrow> migrator \<Rightarrow> bool" where
  "progress_ok files db (Migrating seen todo applied) \<longleftrightarrow> (\<exists>i k. i \<le> length files \<and> k \<le> length files \<and> todo = drop i files \<and>
     seen = take k files \<and> mg_recorded db = take (max i k) files)"
| "progress_ok files db (Unlocking (Inr applied)) \<longleftrightarrow> mg_recorded db = files"
| "progress_ok files db (Settled (Inr applied)) \<longleftrightarrow> mg_recorded db = files"
| "progress_ok files db _ \<longleftrightarrow> True"

definition migrations_ok :: "string list \<Rightarrow> nat \<Rightarrow> migrations \<times> migrator list \<Rightarrow> bool" where
  "migrations_ok files k = (\<lambda>(db, ps).
     (\<exists>n \<ge> k. n \<le> length files \<and> mg_recorded db = take n files) \<and> mg_schema db = mg_recorded db \<and>
     (\<forall>i < length ps. (working (ps ! i) \<longrightarrow> mg_lock db = Some i) \<and> progress_ok files db (ps ! i) \<and>
        set (reported (ps ! i)) \<subseteq> set (mg_recorded db)) \<and>
     (\<forall>i < length ps. \<forall>j < length ps. i \<noteq> j \<longrightarrow> set (reported (ps ! i)) \<inter> set (reported (ps ! j)) = {}))"

lemma take_Suc_snoc: "drop i xs = f # fs \<Longrightarrow> take (Suc i) xs = take i xs @ [f] \<and> fs = drop (Suc i) xs \<and> i < length xs"
  by (metis drop_Suc drop_all hd_drop_conv_nth linorder_not_le list.distinct(1) list.sel(1,3) take_Suc_conv_app_nth tl_drop)

lemma distinct_take_next:
  assumes "distinct xs" and "drop i xs = f # fs" and "f \<notin> set (take k xs)"
  shows "k \<le> i"
  by (metis assms(2,3) drop_all in_set_conv_nth length_take linorder_not_le list.distinct(1) min_less_iff_conj nth_take hd_drop_conv_nth list.sel(1))

lemma distinct_take_seen:
  assumes "distinct xs" and "drop i xs = f # fs" and "f \<in> set (take k xs)"
  shows "i < k"
proof (rule ccontr)
  assume "\<not> i < k"
  then have "f \<in> set (take i xs)" using assms(3) set_take_subset_set_take [of k i xs] by auto
  then show False using assms(1,2) take_Suc_snoc [OF assms(2)] distinct_take [OF assms(1), of "Suc i"] by auto
qed

lemma working_simps [simp]:
  "\<not> working Connected" "\<not> working Ended" "\<not> working (Settled r)" "working Holding" "working (Unlocking r)"
  "working (Migrating seen todo applied)"
  by (simp_all add: working_def)

lemma migratingI:
  "i \<le> length files \<Longrightarrow> k \<le> length files \<Longrightarrow> mg_recorded db = take (max i k) files \<Longrightarrow>
     progress_ok files db (Migrating (take k files) (drop i files) applied)"
  by auto

lemma progress_cong: "mg_recorded db' = mg_recorded db \<Longrightarrow> progress_ok files db' p = progress_ok files db p"
  by (cases "(files, db, p)" rule: progress_ok.cases) simp_all

text \<open>A step of one process that leaves the tables alone.\<close>

lemma migrations_ok_update:
  assumes ok: "migrations_ok files k (db, ps)" and i: "i < length ps"
    and db: "mg_recorded db' = mg_recorded db" "mg_schema db' = mg_schema db"
    and lock: "working p \<longrightarrow> mg_lock db' = Some i" "\<And>j. j < length ps \<Longrightarrow> j \<noteq> i \<Longrightarrow> working (ps ! j) \<Longrightarrow> mg_lock db' = Some j"
    and p: "progress_ok files db p" "set (reported p) \<subseteq> set (reported (ps ! i))"
  shows "migrations_ok files k (db', ps[i := p])"
proof -
  have rep: "set (reported (ps[i := p] ! j)) \<subseteq> set (reported (ps ! j))" if "j < length ps" for j
    using p(2) that by (cases "j = i") auto
  have "set (reported (ps[i := p] ! j)) \<inter> set (reported (ps[i := p] ! l)) = {}" if "j < length ps" "l < length ps" "j \<noteq> l" for j l
  proof -
    have "set (reported (ps ! j)) \<inter> set (reported (ps ! l)) = {}" using ok that by (simp add: migrations_ok_def)
    then show ?thesis using rep [OF that(1)] rep [OF that(2)] by blast
  qed
  moreover have "(working (ps[i := p] ! j) \<longrightarrow> mg_lock db' = Some j) \<and> progress_ok files db' (ps[i := p] ! j) \<and>
      set (reported (ps[i := p] ! j)) \<subseteq> set (mg_recorded db')" if "j < length ps" for j
  proof -
    have "set (reported (ps ! j)) \<subseteq> set (mg_recorded db)" "progress_ok files db (ps ! j)" using ok that by (auto simp: migrations_ok_def)
    then show ?thesis using that lock p(1) rep [OF that] progress_cong [OF db(1)] db(1) i by (cases "j = i") auto
  qed
  ultimately show ?thesis using ok db by (auto simp: migrations_ok_def)
qed

lemma migrations_ok_lock: "migrations_ok files k (db, ps) \<Longrightarrow> i < length ps \<Longrightarrow> working (ps ! i) \<Longrightarrow> mg_lock db = Some i"
  by (simp add: migrations_ok_def)

lemma migrations_ok_apply:
  assumes ok: "migrations_ok files k (db, ps)" and i: "i < length ps" "ps ! i = Migrating seen (f # fs) applied" "f \<notin> set seen"
    and "distinct files"
  shows "migrations_ok files k (migrate_one f db, ps[i := Migrating seen fs (applied @ [f])])"
proof -
  have lock: "mg_lock db = Some i" using migrations_ok_lock [OF ok i(1)] i(2) by (simp add: working_def)
  have "progress_ok files db (ps ! i)" using ok i(1) by (simp add: migrations_ok_def)
  then obtain m l where m: "m \<le> length files" "l \<le> length files" "drop m files = f # fs" "seen = take l files" "mg_recorded db = take (max m l) files"
    using i(2) by auto
  have "l \<le> m" using distinct_take_next [OF assms(5) m(3)] i(3) m(4) by simp
  then have rec: "mg_recorded db = take m files" using m(5) by (simp add: max_def)
  have snoc: "take (Suc m) files = take m files @ [f]" "fs = drop (Suc m) files" "m < length files" using take_Suc_snoc [OF m(3)] by auto
  have new: "mg_recorded (migrate_one f db) = take (Suc m) files" "f \<notin> set (mg_recorded db)"
    using rec snoc(1) distinct_take [OF assms(5), of "Suc m"] by (auto simp: migrate_one_def)
  from ok obtain n where "k \<le> n" "n \<le> length files" "mg_recorded db = take n files" by (auto simp: migrations_ok_def)
  then have n: "k \<le> m" using rec snoc(3) by (metis length_take min.absorb2 min.absorb4)
  let ?ps = "ps[i := Migrating seen fs (applied @ [f])]"
  have each: "(working (?ps ! j) \<longrightarrow> mg_lock (migrate_one f db) = Some j) \<and> progress_ok files (migrate_one f db) (?ps ! j) \<and>
      set (reported (?ps ! j)) \<subseteq> set (mg_recorded (migrate_one f db))" if j: "j < length ps" for j
  proof (cases "j = i")
    case True
    have "set applied \<subseteq> set (mg_recorded db)" using ok i(1,2) by (fastforce simp: migrations_ok_def)
    moreover have "progress_ok files (migrate_one f db) (Migrating seen fs (applied @ [f]))"
      unfolding m(4) snoc(2) using m(2) snoc(3) \<open>l \<le> m\<close> new(1) by (intro migratingI) (simp_all add: max_def)
    ultimately show ?thesis using True i(1) lock by (auto simp: migrate_one_def)
  next
    case False
    then have "\<not> working (ps ! j)" using migrations_ok_lock [OF ok j] lock by auto
    moreover have "progress_ok files db (ps ! j)" "set (reported (ps ! j)) \<subseteq> set (mg_recorded db)" using ok j by (auto simp: migrations_ok_def)
    moreover have "mg_recorded db \<noteq> files" using rec snoc(3) by (metis length_take min.absorb4 nat_neq_iff)
    ultimately show ?thesis using False by (cases "(files, db, ps ! j)" rule: progress_ok.cases) (auto simp: working_def migrate_one_def)
  qed
  have "set (reported (?ps ! j)) \<inter> set (reported (?ps ! l)) = {}" if "j < length ps" "l < length ps" "j \<noteq> l" for j l
  proof -
    have "set (reported (ps ! j)) \<inter> set (reported (ps ! l)) = {}" "f \<notin> set (reported (ps ! j))" "f \<notin> set (reported (ps ! l))"
      using ok that new(2) by (auto simp: migrations_ok_def)
    then show ?thesis using i that by (cases "j = i"; cases "l = i") auto
  qed
  moreover have "mg_schema (migrate_one f db) = mg_recorded (migrate_one f db)" using ok by (simp add: migrations_ok_def migrate_one_def)
  moreover have "\<exists>n \<ge> k. n \<le> length files \<and> mg_recorded (migrate_one f db) = take n files" using n new(1) snoc(3) by (intro exI [of _ "Suc m"]) simp
  ultimately show ?thesis using each by (auto simp: migrations_ok_def)
qed

lemma migrations_ok_step:
  assumes "migrate_step names (db, ps) c" and "migrations_ok (migration_files names) k (db, ps)" and "distinct names"
  shows "migrations_ok (migration_files names) k c"
proof -
  note lock = migrations_ok_lock [OF assms(2)]
  have progress: "i < length ps \<Longrightarrow> progress_ok (migration_files names) db (ps ! i)" for i using assms(2) by (simp add: migrations_ok_def)
  have files: "distinct (migration_files names)" using assms(3) by (simp add: migration_files_def)
  from assms(1) show ?thesis
  proof cases
  case (applies i seen f fs applied)
  then show ?thesis using migrations_ok_apply [OF assms(2)] files by simp
next
  case (reads i)
  from assms(2) obtain n where n: "n \<le> length (migration_files names)" "mg_recorded db = take n (migration_files names)"
    by (auto simp: migrations_ok_def)
  then have "progress_ok (migration_files names) db (Migrating (mg_recorded db) (migration_files names) [])"
    using migratingI [of 0 "migration_files names" n db] by simp
  moreover have "mg_lock db = Some i" using lock reads by simp
  ultimately show ?thesis unfolding reads(1) using reads(2,3)
    by (intro migrations_ok_update [OF assms(2)]) (auto simp del: progress_ok.simps dest: lock)
next
  case (skips i seen f fs applied)
  from progress [OF skips(2)] obtain m l where m: "m \<le> length (migration_files names)" "l \<le> length (migration_files names)"
    "drop m (migration_files names) = f # fs" "seen = take l (migration_files names)" "mg_recorded db = take (max m l) (migration_files names)"
    unfolding skips(3) by auto
  have "m < l" using distinct_take_seen [OF files m(3)] skips(4) m(4) by simp
  then have "progress_ok (migration_files names) db (Migrating seen fs applied)"
    unfolding m(4) using take_Suc_snoc [OF m(3)] m by (metis Suc_leI max.absorb2 max.absorb4 migratingI)
  moreover have "mg_lock db = Some i" using lock skips by simp
  ultimately show ?thesis unfolding skips(1) using skips(2,3)
    by (intro migrations_ok_update [OF assms(2)]) (auto simp del: progress_ok.simps dest: lock)
next
  case (finishes i seen applied)
  have "mg_recorded db = migration_files names" using progress [OF finishes(2)] unfolding finishes(3) by auto
  moreover have "mg_lock db = Some i" using lock finishes by simp
  ultimately show ?thesis unfolding finishes(1) using finishes(2,3)
    by (intro migrations_ok_update [OF assms(2)]) (auto dest: lock)
next
  case (unlocks i r)
  have "progress_ok (migration_files names) db (Settled r)" "set (reported (Settled r)) = set (reported (ps ! i))"
    using progress [OF unlocks(2)] unfolding unlocks(3) by (cases r; simp)+
  moreover have "mg_lock db = Some i" using lock unlocks by simp
  ultimately show ?thesis unfolding unlocks(1) using unlocks(2,3)
    by (intro migrations_ok_update [OF assms(2)]) (auto dest: lock)
next
  case (session_ends i)
  have others: "mg_lock db = Some j" if "j < length ps" "working (ps ! j)" for j using that by (rule lock)
  show ?thesis unfolding session_ends(1)
    by (rule migrations_ok_update [OF assms(2) session_ends(2)]) (simp_all add: others)
  qed (use lock in \<open>auto intro!: migrations_ok_update [OF assms(2)] dest: progress\<close>)
qed

lemma migrations_ok_steps:
  assumes "(migrate_step names)\<^sup>*\<^sup>* c c'" and "migrations_ok (migration_files names) k c" and "distinct names"
  shows "migrations_ok (migration_files names) k c'"
  using assms by (induction rule: rtranclp_induct) (auto intro: migrations_ok_step simp: prod.case_eq_if split_paired_all)

lemma migrations_ok_start:
  assumes "k \<le> length files" and "\<forall>p \<in> set ps. p = Connected" and "mg_recorded db = take k files" and "mg_schema db = mg_recorded db"
  shows "migrations_ok files k (db, ps)"
proof -
  have "ps ! i = Connected" if "i < length ps" for i using assms(2) that by simp
  then show ?thesis using assms(1,3,4) by (auto simp: migrations_ok_def)
qed

text \<open>
  C37. However many processes run the migrations at once, whichever of them fail or lose their session, the
  database always holds the first \<open>n\<close> migrations in the order of their names, each run exactly once and recorded;
  at most one process works on it at a time; a process that returns leaves nothing to migrate, and no
  migration is reported as applied by two of them.
\<close>

theorem migrations_once_in_order:
  assumes "distinct names" and "k \<le> length (migration_files names)" and "\<forall>p \<in> set ps. p = Connected"
    and "mg_recorded db = take k (migration_files names)" and "mg_schema db = mg_recorded db"
    and "(migrate_step names)\<^sup>*\<^sup>* (db, ps) (db', ps')"
  shows "(\<exists>n \<ge> k. mg_schema db' = take n (migration_files names) \<and> mg_recorded db' = mg_schema db') \<and>
    (\<forall>i < length ps'. \<forall>j < length ps'. working (ps' ! i) \<and> working (ps' ! j) \<longrightarrow> i = j) \<and>
    (\<forall>i < length ps'. \<forall>applied. ps' ! i = Settled (Inr applied) \<longrightarrow> mg_schema db' = migration_files names \<and>
       (\<forall>j < length ps'. i \<noteq> j \<longrightarrow> set applied \<inter> set (reported (ps' ! j)) = {}))"
proof -
  have ok: "migrations_ok (migration_files names) k (db', ps')"
    using migrations_ok_steps [OF assms(6) migrations_ok_start [OF assms(2-5)] assms(1)] .
  have "\<exists>n \<ge> k. mg_schema db' = take n (migration_files names) \<and> mg_recorded db' = mg_schema db'"
    using ok by (auto simp: migrations_ok_def)
  moreover have "i = j" if "i < length ps'" "j < length ps'" "working (ps' ! i)" "working (ps' ! j)" for i j
    using migrations_ok_lock [OF ok that(1,3)] migrations_ok_lock [OF ok that(2,4)] by simp
  moreover have "mg_schema db' = migration_files names \<and> (\<forall>j < length ps'. i \<noteq> j \<longrightarrow> set applied \<inter> set (reported (ps' ! j)) = {})"
    if i: "i < length ps'" "ps' ! i = Settled (Inr applied)" for i applied
  proof -
    have "progress_ok (migration_files names) db' (ps' ! i)" "mg_schema db' = mg_recorded db'"
      "\<forall>j < length ps'. i \<noteq> j \<longrightarrow> set (reported (ps' ! i)) \<inter> set (reported (ps' ! j)) = {}"
      using ok i(1) unfolding migrations_ok_def by blast+
    then show ?thesis using i(2) by simp
  qed
  ultimately show ?thesis by blast
qed

text \<open>One process applies the first migration and is gone; the other waits, skips it and applies the second.\<close>

definition example_names :: "string list" where
  "example_names = [''0002.sql'', ''README'', ''0001.sql'']"

definition at_migration :: "nat option \<Rightarrow> string list \<Rightarrow> migrator list \<Rightarrow> migrations \<times> migrator list" where
  "at_migration lock rs ps = (\<lparr>mg_lock = lock, mg_recorded = rs, mg_schema = rs\<rparr>, ps)"

lemma example_files: "migration_files example_names = [''0001.sql'', ''0002.sql'']"
  by code_simp

lemma example_first_process:
  "(migrate_step example_names)\<^sup>*\<^sup>* (at_migration None [] [Connected, Connected]) (at_migration None [''0001.sql''] [Ended, Connected])"
proof -
  let ?s = "migrate_step example_names" and ?fs = "migration_files example_names"
  have "?s\<^sup>*\<^sup>* (at_migration None [] [Connected, Connected]) (at_migration (Some 0) [] [Holding, Connected])"
    using r_into_rtranclp [of ?s]  migrate_step.locks [of 0 "[Connected, Connected]" "\<lparr>mg_lock = None, mg_recorded = [], mg_schema = []\<rparr>"] by (simp add: at_migration_def)
  also have "?s \<dots> (at_migration (Some 0) [] [Migrating [] ?fs [], Connected])"
    using migrate_step.reads [of 0 "[Holding, Connected]" example_names "\<lparr>mg_lock = Some 0, mg_recorded = [], mg_schema = []\<rparr>"]
    by (simp add: at_migration_def)
  also have "?s \<dots> (at_migration (Some 0) [''0001.sql''] [Migrating [] [''0002.sql''] [''0001.sql''], Connected])"
    using migrate_step.applies [of 0 "[Migrating [] ?fs [], Connected]" "[]" "''0001.sql''" "[''0002.sql'']" "[]" example_names
        "\<lparr>mg_lock = Some 0, mg_recorded = [], mg_schema = []\<rparr>"]
    by (simp add: at_migration_def migrate_one_def example_files)
  also have "?s \<dots> (at_migration None [''0001.sql''] [Ended, Connected])"
    using migrate_step.session_ends [of 0 "[Migrating [] [''0002.sql''] [''0001.sql''], Connected]" example_names
        "\<lparr>mg_lock = Some 0, mg_recorded = [''0001.sql''], mg_schema = [''0001.sql'']\<rparr>"]
    by (simp add: at_migration_def)
  finally show ?thesis by simp
qed

lemma example_second_process:
  "(migrate_step example_names)\<^sup>*\<^sup>* (at_migration None [''0001.sql''] [Ended, Connected])
     (at_migration None [''0001.sql'', ''0002.sql''] [Ended, Settled (Inr [''0002.sql''])])"
proof -
  let ?s = "migrate_step example_names" and ?fs = "migration_files example_names" and ?at = "\<lambda>p. at_migration (Some 1) [''0001.sql''] [Ended, p]"
  have "?s\<^sup>*\<^sup>* (at_migration None [''0001.sql''] [Ended, Connected]) (?at Holding)"
    using r_into_rtranclp [of ?s]  migrate_step.locks [of 1 "[Ended, Connected]" "\<lparr>mg_lock = None, mg_recorded = [''0001.sql''], mg_schema = [''0001.sql'']\<rparr>"] by (simp add: at_migration_def)
  also have "?s \<dots> (?at (Migrating [''0001.sql''] ?fs []))"
    using migrate_step.reads [of 1 "[Ended, Holding]" example_names "\<lparr>mg_lock = Some 1, mg_recorded = [''0001.sql''], mg_schema = [''0001.sql'']\<rparr>"]
    by (simp add: at_migration_def)
  also have "?s \<dots> (?at (Migrating [''0001.sql''] [''0002.sql''] []))"
    using migrate_step.skips [of 1 "[Ended, Migrating [''0001.sql''] ?fs []]" "[''0001.sql'']" "''0001.sql''" "[''0002.sql'']" "[]" example_names]
    by (simp add: at_migration_def example_files)
  also have "?s \<dots> (at_migration (Some 1) [''0001.sql'', ''0002.sql''] [Ended, Migrating [''0001.sql''] [] [''0002.sql'']])"
    using migrate_step.applies [of 1 "[Ended, Migrating [''0001.sql''] [''0002.sql''] []]" "[''0001.sql'']" "''0002.sql''" "[]" "[]" example_names
        "\<lparr>mg_lock = Some 1, mg_recorded = [''0001.sql''], mg_schema = [''0001.sql'']\<rparr>"]
    by (simp add: at_migration_def migrate_one_def)
  also have "?s \<dots> (at_migration (Some 1) [''0001.sql'', ''0002.sql''] [Ended, Unlocking (Inr [''0002.sql''])])"
    using migrate_step.finishes [of 1 "[Ended, Migrating [''0001.sql''] [] [''0002.sql'']]" "[''0001.sql'']" "[''0002.sql'']" example_names]
    by (simp add: at_migration_def)
  also have "?s \<dots> (at_migration None [''0001.sql'', ''0002.sql''] [Ended, Settled (Inr [''0002.sql''])])"
    using migrate_step.unlocks [of 1 "[Ended, Unlocking (Inr [''0002.sql''])]" "Inr [''0002.sql'']" example_names
        "\<lparr>mg_lock = Some 1, mg_recorded = [''0001.sql'', ''0002.sql''], mg_schema = [''0001.sql'', ''0002.sql'']\<rparr>"] by (simp add: at_migration_def)
  finally show ?thesis by simp
qed

theorem migrations_once_in_order_witness:
  "\<exists>db' ps'. (migrate_step example_names)\<^sup>*\<^sup>* (at_migration None [] [Connected, Connected]) (db', ps') \<and>
     ps' ! 1 = Settled (Inr [''0002.sql'']) \<and> mg_schema db' = migration_files example_names"
proof -
  let ?db = "\<lparr>mg_lock = None, mg_recorded = [''0001.sql'', ''0002.sql''], mg_schema = [''0001.sql'', ''0002.sql'']\<rparr>"
  have r: "(migrate_step example_names)\<^sup>*\<^sup>* (at_migration None [] [Connected, Connected]) (?db, [Ended, Settled (Inr [''0002.sql''])])"
    using rtranclp_trans [OF example_first_process example_second_process] by (simp add: at_migration_def)
  have "distinct example_names" by (simp add: example_names_def)
  from migrations_once_in_order [OF this, of 0 "[Connected, Connected]" "\<lparr>mg_lock = None, mg_recorded = [], mg_schema = []\<rparr>"] r
  have "mg_schema ?db = migration_files example_names" by (fastforce simp: at_migration_def)
  with r show ?thesis by (intro exI [of _ ?db] exI [of _ "[Ended, Settled (Inr [''0002.sql''])]"]) simp
qed

end
