(* ===== verification/Provisioning.thy ===== *)
theory Provisioning
  imports Store Evaluate
begin

text \<open>
  The partitions of a tenant: the second half of \<open>src/migrate.ts\<close>. A partition of a table holds the rows of
  one tenant; the catalog has its name, and the name of the partial unique index PostgreSQL made with
  it. \<open>index_name\<close> is the name the server picks for that index, which the code does not know. Statements fail with
  their SQLSTATE.
\<close>

section \<open>Quoting\<close>

definition replace_all :: "char \<Rightarrow> string \<Rightarrow> string \<Rightarrow> string" where
  "replace_all c by v = concat (map (\<lambda>x. if x = c then by else [x]) v)"

definition literal :: "string \<Rightarrow> string" where
  "literal v = [CHR 0x27] @ replace_all (CHR 0x27) [CHR 0x27, CHR 0x27] v @ [CHR 0x27]"

definition quoteIdentifier :: "string \<Rightarrow> string" where
  "quoteIdentifier v = [CHR 0x22] @ replace_all (CHR 0x22) [CHR 0x22, CHR 0x22] v @ [CHR 0x22]"

text \<open>The scanner of the server: a quoted token ends at its first quote that is not doubled.\<close>

fun scan_body :: "char \<Rightarrow> string \<Rightarrow> (string \<times> string) option" where
  "scan_body q [] = None"
| "scan_body q [c] = (if c = q then Some ([], []) else None)"
| "scan_body q (c # d # v) = (if c = q \<and> d = q then map_option (\<lambda>(t, r). (q # t, r)) (scan_body q v)
     else if c = q then Some ([], d # v) else map_option (\<lambda>(t, r). (c # t, r)) (scan_body q (d # v)))"

definition scan_quoted :: "char \<Rightarrow> string \<Rightarrow> (string \<times> string) option" where
  "scan_quoted q v = (case v of c # r \<Rightarrow> if c = q then scan_body q r else None | [] \<Rightarrow> None)"

lemma scan_body_replaced:
  "rest = [] \<or> hd rest \<noteq> q \<Longrightarrow> scan_body q (replace_all q [q, q] v @ q # rest) = Some (v, rest)"
proof (induction v)
  case Nil
  then show ?case by (cases rest) (auto simp: replace_all_def)
next
  case (Cons x v)
  have "replace_all q [q, q] (x # v) = (if x = q then [q, q] else [x]) @ replace_all q [q, q] v" by (simp add: replace_all_def)
  moreover have "scan_body q (x # w) = map_option (\<lambda>(t, r). (x # t, r)) (scan_body q w)" if "x \<noteq> q" "w \<noteq> []" for w
    using that by (cases w) auto
  ultimately show ?case using Cons by (cases "x = q") (simp_all add: Cons.IH)
qed

text \<open>Whatever a name holds, the server reads it back as one token: no value ends the quoting early.\<close>

lemma quoting_reads_back:
  "rest = [] \<or> hd rest \<noteq> CHR 0x27 \<Longrightarrow> scan_quoted (CHR 0x27) (literal v @ rest) = Some (v, rest)"
  "rest = [] \<or> hd rest \<noteq> CHR 0x22 \<Longrightarrow> scan_quoted (CHR 0x22) (quoteIdentifier v @ rest) = Some (v, rest)"
  by (simp_all add: scan_quoted_def literal_def quoteIdentifier_def scan_body_replaced)

section \<open>Partitions\<close>

definition PARTITIONED_TABLES :: "string list" where
  "PARTITIONED_TABLES = [''workflow_events'', ''workflow_stream_chunks'']"

record partition =
  pt_name :: string
  pt_table :: string
  pt_tenantId :: tenant_id
  pt_index :: "string option"

record catalog = store +
  partitions :: "partition list"

text \<open>\<open>create table ... partition of ... for values in (...)\<close>\<close>

definition create_partition :: "(string \<Rightarrow> string) \<Rightarrow> string \<Rightarrow> string \<Rightarrow> tenant_id \<Rightarrow> 's catalog_scheme \<Rightarrow> (error + unit) \<times> 's catalog_scheme" where
  "create_partition index_name name table t s =
     (if has_row (\<lambda>p. pt_name p = name) (partitions s) then (Inl (PgError ''42P07'' []), s)
      else if has_row (\<lambda>p. pt_table p = table \<and> pt_tenantId p = t) (partitions s) then (Inl (PgError ''42P17'' []), s)
      else (Inr (), s\<lparr>partitions := partitions s @ [\<lparr>pt_name = name, pt_table = table, pt_tenantId = t, 
          pt_index = (if table = ''workflow_events'' then Some (index_name name) else None)\<rparr>]\<rparr>))"

text \<open>\<open>alter index ... rename to ...\<close>\<close>

definition rename_index :: "string \<Rightarrow> string \<Rightarrow> 's catalog_scheme \<Rightarrow> (error + unit) \<times> 's catalog_scheme" where
  "rename_index current target s =
     (if \<not> has_row (\<lambda>p. pt_index p = Some current) (partitions s) then (Inl (PgError ''42P01'' []), s)
      else if has_row (\<lambda>p. pt_index p = Some target) (partitions s) then (Inl (PgError ''42P07'' []), s)
      else (Inr (), s\<lparr>partitions := update_where (\<lambda>p. pt_index p = Some current) (\<lambda>p. p\<lparr>pt_index := Some target\<rparr>) (partitions s)\<rparr>))"

text \<open>\<open>drop table if exists\<close>: the partition and the rows it holds.\<close>

definition rows_of_partition :: "string \<Rightarrow> tenant_id \<Rightarrow> 's catalog_scheme \<Rightarrow> 's catalog_scheme" where
  "rows_of_partition table t s =
     (if table = ''workflow_events'' then s\<lparr>events := delete_where (\<lambda>e. e_tenantId e = t) (events s)\<rparr>
      else if table = ''workflow_stream_chunks'' then s\<lparr>streams := delete_where (\<lambda>k. k_tenantId k = t) (streams s)\<rparr> else s)"

definition drop_partition :: "string \<Rightarrow> 's catalog_scheme \<Rightarrow> 's catalog_scheme" where
  "drop_partition name s = (case find (\<lambda>p. pt_name p = name) (partitions s) of None \<Rightarrow> s
     | Some p \<Rightarrow> rows_of_partition (pt_table p) (pt_tenantId p)
         (s\<lparr>partitions := delete_where (\<lambda>p. pt_name p = name) (partitions s)\<rparr>))"

section \<open>Operations\<close>

definition provisioned_tenant :: "tenant_id \<Rightarrow> ('s, error, unit) prog" where
  "provisioned_tenant t = (case assertValidTenantId t of Inl e \<Rightarrow> Throw e | Inr _ \<Rightarrow> Ret ())"

definition renameDedupIndex :: "world_sdk \<Rightarrow> tenant_id \<Rightarrow> ('s catalog_scheme, error, unit) prog" where
  "renameDedupIndex W t =
     (let name = derivePartitionName W ''workflow_events'' t; target = dedupIndexName W t in
      bindP (query (\<lambda>s. Option.bind (find (\<lambda>p. pt_name p = name) (partitions s)) pt_index)) (\<lambda>current.
      case current of None \<Rightarrow> Ret ()
      | Some i \<Rightarrow> if i = [] \<or> i = target then Ret () else stmtE (rename_index i target)))"

fun create_partitions :: "world_sdk \<Rightarrow> (string \<Rightarrow> string) \<Rightarrow> tenant_id \<Rightarrow> string list \<Rightarrow> ('s catalog_scheme, error, unit) prog" where
  "create_partitions W index_name t [] = Ret ()"
| "create_partitions W index_name t (table # tables) =
     bindP (catchP (stmtE (create_partition index_name (derivePartitionName W table t) table t))
       (\<lambda>e. case e of PgError code c \<Rightarrow> if code \<noteq> ''42P07'' then Throw e else Ret () | _ \<Rightarrow> Throw e)) (\<lambda>_.
     create_partitions W index_name t tables)"

definition ensureTenantPartitions :: "world_sdk \<Rightarrow> (string \<Rightarrow> string) \<Rightarrow> tenant_id \<Rightarrow> ('s catalog_scheme, error, unit) prog" where
  "ensureTenantPartitions W index_name t = bindP (provisioned_tenant t) (\<lambda>_.
     bindP (create_partitions W index_name t PARTITIONED_TABLES) (\<lambda>_. renameDedupIndex W t))"

definition dropTenantPartitions :: "world_sdk \<Rightarrow> tenant_id \<Rightarrow> ('s catalog_scheme, error, unit) prog" where
  "dropTenantPartitions W t = bindP (provisioned_tenant t) (\<lambda>_.
     bindP (mapM (\<lambda>table. exec (drop_partition (derivePartitionName W table t))) PARTITIONED_TABLES) (\<lambda>_.
     bindP (exec (\<lambda>s. s\<lparr>eventSlots := delete_where (\<lambda>x. sl_tenantId x = t) (eventSlots s)\<rparr>)) (\<lambda>_.
     bindP (exec (\<lambda>s. s\<lparr>checkpoints := delete_where (\<lambda>x. cp_tenantId x = t) (checkpoints s)\<rparr>)) (\<lambda>_.
     exec (\<lambda>s. s\<lparr>startHookAdmissions := delete_where (\<lambda>x. a_tenantId x = t) (startHookAdmissions s)\<rparr>)))))"

fun partitions_exist :: "world_sdk \<Rightarrow> tenant_id \<Rightarrow> string list \<Rightarrow> ('s catalog_scheme, error, bool) prog" where
  "partitions_exist W t [] = Ret True"
| "partitions_exist W t (table # tables) =
     bindP (query (\<lambda>s. has_row (\<lambda>p. pt_name p = derivePartitionName W table t) (partitions s))) (\<lambda>found.
     if \<not> found then Ret False else partitions_exist W t tables)"

definition tenantPartitionsExist :: "world_sdk \<Rightarrow> tenant_id \<Rightarrow> ('s catalog_scheme, error, bool) prog" where
  "tenantPartitionsExist W t = bindP (provisioned_tenant t) (\<lambda>_. partitions_exist W t PARTITIONED_TABLES)"

section \<open>A tenant's partitions\<close>

text \<open>
  What provisioning leaves behind: every partition carries the name derived from its table and tenant, no two
  the same, and an events partition has one index of its own. \<open>no_collision\<close> says that no other tenant's partitions or index have
  the names derived for this one; the derived names end in a digest.
\<close>

definition partition_ok :: "world_sdk \<Rightarrow> partition \<Rightarrow> bool" where
  "partition_ok W p \<longleftrightarrow> pt_name p = derivePartitionName W (pt_table p) (pt_tenantId p) \<and> pt_table p \<in> set PARTITIONED_TABLES \<and>
     (pt_table p = ''workflow_events'' \<longleftrightarrow> pt_index p \<noteq> None) \<and> pt_index p \<noteq> Some []"

definition catalog_ok :: "world_sdk \<Rightarrow> 's catalog_scheme \<Rightarrow> bool" where
  "catalog_ok W s \<longleftrightarrow> distinct (map pt_name (partitions s)) \<and> (\<forall>p \<in> set (partitions s). partition_ok W p) \<and>
     (\<forall>p \<in> set (partitions s). \<forall>q \<in> set (partitions s). \<forall>i. pt_index p = Some i \<and> pt_index q = Some i \<longrightarrow> p = q)"

definition no_collision :: "world_sdk \<Rightarrow> (string \<Rightarrow> string) \<Rightarrow> tenant_id \<Rightarrow> 's catalog_scheme \<Rightarrow> bool" where
  "no_collision W index_name t s \<longleftrightarrow> (\<forall>p \<in> set (partitions s). pt_tenantId p \<noteq> t \<longrightarrow>
     (\<forall>table \<in> set PARTITIONED_TABLES. pt_name p \<noteq> derivePartitionName W table t) \<and>
     pt_index p \<noteq> Some (dedupIndexName W t) \<and> pt_index p \<noteq> Some (index_name (derivePartitionName W ''workflow_events'' t))) \<and>
     index_name (derivePartitionName W ''workflow_events'' t) \<noteq> []"

lemma table_names:
  "derivePartitionName W ''workflow_events'' t \<noteq> derivePartitionName W ''workflow_stream_chunks'' u"
  "derivePartitionName W ''workflow_stream_chunks'' u \<noteq> derivePartitionName W ''workflow_events'' t"
  by (simp_all add: derivePartitionName_def Let_def)

definition partition_of :: "world_sdk \<Rightarrow> (string \<Rightarrow> string) \<Rightarrow> tenant_id \<Rightarrow> string \<Rightarrow> partition" where
  "partition_of W index_name t table = \<lparr>pt_name = derivePartitionName W table t, pt_table = table, pt_tenantId = t,
     pt_index = (if table = ''workflow_events'' then Some (index_name (derivePartitionName W table t)) else None)\<rparr>"

definition with_partition :: "world_sdk \<Rightarrow> (string \<Rightarrow> string) \<Rightarrow> tenant_id \<Rightarrow> string \<Rightarrow> 's catalog_scheme \<Rightarrow> 's catalog_scheme" where
  "with_partition W index_name t table s = (if has_row (\<lambda>p. pt_name p = derivePartitionName W table t) (partitions s) then s
     else s\<lparr>partitions := partitions s @ [partition_of W index_name t table]\<rparr>)"

lemma run_create:
  assumes "catalog_ok W s"
  shows "run (catchP (stmtE (create_partition index_name (derivePartitionName W table t) table t))
       (\<lambda>e. case e of PgError code c \<Rightarrow> if code \<noteq> ''42P07'' then Throw e else Ret () | _ \<Rightarrow> Throw e)) s =
     (Inr (), with_partition W index_name t table s)"
proof -
  have "has_row (\<lambda>p. pt_table p = table \<and> pt_tenantId p = t) (partitions s) \<Longrightarrow> has_row (\<lambda>p. pt_name p = derivePartitionName W table t) (partitions s)"
    using assms by (force simp: catalog_ok_def partition_ok_def has_row_iff)
  then show ?thesis by (auto simp: run_simps run_stmtE create_partition_def with_partition_def partition_of_def)
qed

lemma has_row_with_partition:
  "has_row (\<lambda>p. pt_name p = derivePartitionName W table t) (partitions (with_partition W index_name t table s))"
  "has_row P (partitions s) \<Longrightarrow> has_row P (partitions (with_partition W index_name t table s))"
  by (auto simp: with_partition_def has_row_iff partition_of_def)

lemma with_partition_ok:
  assumes "catalog_ok W s" and "no_collision W index_name t s" and "table \<in> set PARTITIONED_TABLES"
  shows "catalog_ok W (with_partition W index_name t table s) \<and> no_collision W index_name t (with_partition W index_name t table s)"
proof (cases "has_row (\<lambda>p. pt_name p = derivePartitionName W table t) (partitions s)")
  case False
  let ?q = "partition_of W index_name t table"
  have parts: "partitions (with_partition W index_name t table s) = partitions s @ [?q]" using False by (simp add: with_partition_def)
  have new: "\<forall>p \<in> set (partitions s). pt_name p \<noteq> pt_name ?q" using False by (auto simp: has_row_iff partition_of_def)
  have q: "partition_ok W ?q" using assms(2,3) by (simp add: partition_ok_def partition_of_def no_collision_def)
  have "pt_index p \<noteq> pt_index ?q" if p: "p \<in> set (partitions s)" "pt_index p \<noteq> None" for p
  proof
    assume same: "pt_index p = pt_index ?q"
    then have e: "table = ''workflow_events''" using p(2) by (simp add: partition_of_def split: if_splits)
    have "partition_ok W p" using assms(1) p(1) by (simp add: catalog_ok_def)
    moreover have "pt_tenantId p = t" using assms(2) p(1) same e by (auto simp: no_collision_def partition_of_def)
    ultimately show False using new p e by (auto simp: partition_ok_def partition_of_def)
  qed
  then have "\<forall>p \<in> set (partitions s @ [?q]). \<forall>r \<in> set (partitions s @ [?q]). \<forall>i. pt_index p = Some i \<and> pt_index r = Some i \<longrightarrow> p = r"
    using assms(1) unfolding catalog_ok_def by (fastforce simp del: not_None_eq)
  moreover have "distinct (map pt_name (partitions s @ [?q]))" using assms(1) new by (auto simp: catalog_ok_def)
  moreover have "\<forall>p \<in> set (partitions s @ [?q]). partition_ok W p" using assms(1) q by (simp add: catalog_ok_def)
  moreover have "no_collision W index_name t (with_partition W index_name t table s)"
    using assms(2) by (simp add: no_collision_def parts) (simp add: partition_of_def)
  ultimately show ?thesis by (simp only: catalog_ok_def parts simp_thms)
qed (use assms in \<open>simp add: with_partition_def\<close>)

text \<open>The index of the events partition is renamed, unless it has the name already.\<close>

definition with_dedup_index :: "world_sdk \<Rightarrow> tenant_id \<Rightarrow> 's catalog_scheme \<Rightarrow> 's catalog_scheme" where
  "with_dedup_index W t s = s\<lparr>partitions := update_where (\<lambda>p. pt_name p = derivePartitionName W ''workflow_events'' t)
     (\<lambda>p. p\<lparr>pt_index := Some (dedupIndexName W t)\<rparr>) (partitions s)\<rparr>"

lemma dedupIndexName_nonempty: "dedupIndexName W t \<noteq> []"
  by (simp add: dedupIndexName_def derivePartitionName_def Let_def)

lemma update_where_cong: "(\<And>x. x \<in> set xs \<Longrightarrow> P x = Q x) \<Longrightarrow> (\<And>x. x \<in> set xs \<Longrightarrow> Q x \<Longrightarrow> f x = g x) \<Longrightarrow> update_where P f xs = update_where Q g xs"
  by (simp add: update_where_def)

lemma update_where_same: "(\<And>x. x \<in> set xs \<Longrightarrow> P x \<Longrightarrow> f x = x) \<Longrightarrow> update_where P f xs = xs"
  by (simp add: update_where_def map_idI)

lemma events_partition:
  assumes "catalog_ok W s" and "no_collision W index_name t s" and "p \<in> set (partitions s)" and "pt_name p = derivePartitionName W ''workflow_events'' t"
  shows "pt_tenantId p = t" "pt_table p = ''workflow_events''" "\<exists>i. pt_index p = Some i \<and> i \<noteq> []"
proof -
  show "pt_tenantId p = t" using assms(2-4) by (auto simp: no_collision_def PARTITIONED_TABLES_def)
  have "partition_ok W p" using assms(1,3) by (simp add: catalog_ok_def)
  then show "pt_table p = ''workflow_events''" "\<exists>i. pt_index p = Some i \<and> i \<noteq> []"
    using assms(4) table_names by (auto simp: partition_ok_def PARTITIONED_TABLES_def)
qed

lemma indexed_partition:
  assumes "catalog_ok W s" and "no_collision W index_name t s" and "p \<in> set (partitions s)" and "pt_index p = Some (dedupIndexName W t)"
  shows "pt_name p = derivePartitionName W ''workflow_events'' t"
proof -
  have "pt_tenantId p = t" using assms(2-4) by (auto simp: no_collision_def)
  moreover have "partition_ok W p" using assms(1,3) by (simp add: catalog_ok_def)
  ultimately show ?thesis using assms(4) by (auto simp: partition_ok_def)
qed

lemma catalog_index_unique:
  "catalog_ok W s \<Longrightarrow> p \<in> set (partitions s) \<Longrightarrow> q \<in> set (partitions s) \<Longrightarrow> pt_index p = Some i \<Longrightarrow> pt_index q = Some i \<Longrightarrow> p = q"
  by (simp add: catalog_ok_def)

lemma run_renameDedupIndex:
  assumes ok: "catalog_ok W s" "no_collision W index_name t s" and p: "p \<in> set (partitions s)" "pt_name p = derivePartitionName W ''workflow_events'' t"
  shows "run (renameDedupIndex W t) s = (Inr (), with_dedup_index W t s)"
proof -
  let ?name = "derivePartitionName W ''workflow_events'' t" and ?target = "dedupIndexName W t"
  have names: "distinct (map pt_name (partitions s))" using ok(1) by (simp add: catalog_ok_def)
  have f: "find (\<lambda>q. pt_name q = ?name) (partitions s) = Some p" using find_unique_key [OF names p(1)] p(2) by simp
  obtain i where i: "pt_index p = Some i" "i \<noteq> []" using events_partition(3) [OF ok p] by blast
  have q: "q = p" if "q \<in> set (partitions s)" "pt_name q = ?name" for q using distinct_map_unique [OF names that(1) p(1)] that(2) p(2) by simp
  show ?thesis
  proof (cases "i = ?target")
    case True
    then have "with_dedup_index W t s = s"
      unfolding with_dedup_index_def using i(1) q by (subst update_where_same) auto
    then show ?thesis using f i True by (simp add: renameDedupIndex_def Let_def run_simps)
  next
    case False
    have iff: "pt_index x = Some i \<longleftrightarrow> pt_name x = ?name" if "x \<in> set (partitions s)" for x
      using q [OF that] catalog_index_unique [OF ok(1) that p(1) _ i(1)] p(2) i(1) by metis
    then have "update_where (\<lambda>p. pt_index p = Some i) (\<lambda>p. p\<lparr>pt_index := Some ?target\<rparr>) (partitions s) =
        update_where (\<lambda>p. pt_name p = ?name) (\<lambda>p. p\<lparr>pt_index := Some ?target\<rparr>) (partitions s)"
      by (intro update_where_cong) simp_all
    moreover have "has_row (\<lambda>p. pt_index p = Some i) (partitions s)" using p(1) i(1) by (auto simp: has_row_iff)
    moreover have "\<not> has_row (\<lambda>p. pt_index p = Some ?target) (partitions s)"
      using indexed_partition [OF ok] q i(1) False by (force simp: has_row_iff)
    ultimately show ?thesis using f i False
      by (simp add: renameDedupIndex_def Let_def run_simps run_stmtE rename_index_def with_dedup_index_def)
  qed
qed

lemma with_dedup_index_ok:
  assumes "catalog_ok W s" and "no_collision W index_name t s"
  shows "catalog_ok W (with_dedup_index W t s) \<and> no_collision W index_name t (with_dedup_index W t s)"
proof -
  let ?name = "derivePartitionName W ''workflow_events'' t"
  define g :: "partition \<Rightarrow> partition" where "g = (\<lambda>p. if pt_name p = ?name then p\<lparr>pt_index := Some (dedupIndexName W t)\<rparr> else p)"
  have parts: "partitions (with_dedup_index W t s) = map g (partitions s)" by (simp add: with_dedup_index_def update_where_def g_def)
  have keep: "pt_name (g p) = pt_name p" "pt_table (g p) = pt_table p" "pt_tenantId (g p) = pt_tenantId p" for p by (simp_all add: g_def)
  have "distinct (map pt_name (map g (partitions s)))" using assms(1) by (simp add: catalog_ok_def o_def keep)
  moreover have "partition_ok W (g p)" if "p \<in> set (partitions s)" for p
    using assms(1) that events_partition [OF assms that] by (auto simp: catalog_ok_def partition_ok_def g_def dedupIndexName_nonempty)
  moreover have "g p = g q" if "p \<in> set (partitions s)" "q \<in> set (partitions s)" "pt_index (g p) = Some i" "pt_index (g q) = Some i" for p q i
  proof (cases "pt_name p = ?name \<or> pt_name q = ?name")
    case True
    then have "pt_name p = pt_name q"
      using that indexed_partition [OF assms] by (auto simp: g_def split: if_splits)
    then show ?thesis using assms(1) that(1,2) by (metis catalog_ok_def distinct_map_unique)
  next
    case False
    then show ?thesis using that catalog_index_unique [OF assms(1) that(1,2)] by (auto simp: g_def)
  qed
  ultimately have "catalog_ok W (with_dedup_index W t s)" unfolding catalog_ok_def parts by auto
  moreover have "no_collision W index_name t (with_dedup_index W t s)"
  proof -
    have "g p = p" if "p \<in> set (partitions s)" "pt_tenantId p \<noteq> t" for p using events_partition(1) [OF assms that(1)] that(2) by (auto simp: g_def)
    then have "\<forall>q \<in> set (map g (partitions s)). pt_tenantId q \<noteq> t \<longrightarrow> q \<in> set (partitions s)" by (auto simp: keep)
    then show ?thesis using assms(2) unfolding no_collision_def parts by blast
  qed
  ultimately show ?thesis ..
qed

definition ensured :: "world_sdk \<Rightarrow> (string \<Rightarrow> string) \<Rightarrow> tenant_id \<Rightarrow> 's catalog_scheme \<Rightarrow> 's catalog_scheme" where
  "ensured W index_name t s = with_dedup_index W t (with_partition W index_name t ''workflow_stream_chunks''
     (with_partition W index_name t ''workflow_events'' s))"

lemma run_ensureTenantPartitions:
  assumes "assertValidTenantId t = Inr ()" and "catalog_ok W s" and "no_collision W index_name t s"
  shows "run (ensureTenantPartitions W index_name t) s = (Inr (), ensured W index_name t s)"
    and "catalog_ok W (ensured W index_name t s) \<and> no_collision W index_name t (ensured W index_name t s)"
proof -
  let ?s1 = "with_partition W index_name t ''workflow_events'' s"
  let ?s2 = "with_partition W index_name t ''workflow_stream_chunks'' ?s1"
  have 1: "catalog_ok W ?s1" "no_collision W index_name t ?s1" using with_partition_ok [OF assms(2,3)] by (auto simp: PARTITIONED_TABLES_def)
  have 2: "catalog_ok W ?s2" "no_collision W index_name t ?s2" using with_partition_ok [OF 1] by (auto simp: PARTITIONED_TABLES_def)
  have "has_row (\<lambda>p. pt_name p = derivePartitionName W ''workflow_events'' t) (partitions ?s2)"
    by (intro has_row_with_partition)
  then obtain p where p: "p \<in> set (partitions ?s2)" "pt_name p = derivePartitionName W ''workflow_events'' t" by (auto simp: has_row_iff)
  show "run (ensureTenantPartitions W index_name t) s = (Inr (), ensured W index_name t s)"
    using run_renameDedupIndex [OF 2 p] assms(1)
    by (simp add: ensureTenantPartitions_def provisioned_tenant_def PARTITIONED_TABLES_def run_bindP run_create [OF assms(2)] run_create [OF 1(1)] ensured_def)
  show "catalog_ok W (ensured W index_name t s) \<and> no_collision W index_name t (ensured W index_name t s)"
    unfolding ensured_def by (rule with_dedup_index_ok [OF 2])
qed

lemma has_row_dedup_index: "has_row (\<lambda>p. pt_name p = n) (partitions (with_dedup_index W t s)) = has_row (\<lambda>p. pt_name p = n) (partitions s)"
proof -
  have "map pt_name (partitions (with_dedup_index W t s)) = map pt_name (partitions s)"
    by (simp add: with_dedup_index_def map_key_update_where)
  then have "pt_name ` set (partitions (with_dedup_index W t s)) = pt_name ` set (partitions s)" by (metis set_map)
  moreover have "has_row (\<lambda>p. pt_name p = n) xs \<longleftrightarrow> n \<in> pt_name ` set xs" for xs :: "partition list" by (auto simp: has_row_iff)
  ultimately show ?thesis by simp
qed

lemma ensured_partitions:
  "table \<in> set PARTITIONED_TABLES \<Longrightarrow> has_row (\<lambda>p. pt_name p = derivePartitionName W table t) (partitions (ensured W index_name t s))"
  using has_row_with_partition(1) [of W "''workflow_events''" t index_name s]
  by (auto simp: PARTITIONED_TABLES_def ensured_def has_row_dedup_index intro: has_row_with_partition)

lemma ensured_index:
  assumes "p \<in> set (partitions (ensured W index_name t s))" and "pt_name p = derivePartitionName W ''workflow_events'' t"
  shows "pt_index p = Some (dedupIndexName W t)"
  using assms by (auto simp: ensured_def with_dedup_index_def update_where_def split: if_splits)

lemma partition_eqI: "pt_index p = i \<Longrightarrow> p\<lparr>pt_index := i\<rparr> = (p :: partition)"
  by (cases p) simp

text \<open>Provisioning twice is provisioning once.\<close>

lemma ensured_again: "ensured W index_name t (ensured W index_name t s) = ensured W index_name t s"
proof -
  let ?e = "ensured W index_name t s"
  have "with_partition W index_name t table ?e = ?e" if "table \<in> set PARTITIONED_TABLES" for table
    using ensured_partitions [OF that, of W t index_name s] by (simp add: with_partition_def)
  moreover have "with_dedup_index W t ?e = ?e"
    unfolding with_dedup_index_def using ensured_index [of _ W index_name t s] by (subst update_where_same) (auto intro: partition_eqI)
  ultimately show ?thesis by (subst ensured_def) (simp add: PARTITIONED_TABLES_def)
qed

text \<open>What is left of a table when a tenant's rows go.\<close>

definition others :: "('r \<Rightarrow> tenant_id) \<Rightarrow> tenant_id \<Rightarrow> 'r list \<Rightarrow> 'r list" where
  "others k t = filter (\<lambda>x. k x \<noteq> t)"

lemma delete_others: "delete_where (\<lambda>x. k x = t) xs = others k t xs"
  by (simp add: delete_where_def others_def)

lemma drop_found:
  assumes "catalog_ok W s" and "p \<in> set (partitions s)"
  shows "drop_partition (pt_name p) s = rows_of_partition (pt_table p) (pt_tenantId p) (s\<lparr>partitions := delete_where (\<lambda>q. pt_name q = pt_name p) (partitions s)\<rparr>)"
  using find_unique_key [of pt_name "partitions s" p] assms by (simp add: drop_partition_def catalog_ok_def)

definition dropped :: "tenant_id \<Rightarrow> 's catalog_scheme \<Rightarrow> 's catalog_scheme" where
  "dropped t s = s\<lparr>events := others e_tenantId t (events s), streams := others k_tenantId t (streams s),
     eventSlots := others sl_tenantId t (eventSlots s), checkpoints := others cp_tenantId t (checkpoints s),
     startHookAdmissions := others a_tenantId t (startHookAdmissions s), partitions := others pt_tenantId t (partitions s)\<rparr>"

lemma run_dropTenantPartitions:
  assumes "assertValidTenantId t = Inr ()" and ok: "catalog_ok W s" "no_collision W index_name t s"
    and there: "\<forall>table \<in> set PARTITIONED_TABLES. has_row (\<lambda>p. pt_name p = derivePartitionName W table t) (partitions s)"
  shows "run (dropTenantPartitions W t) s = (Inr (), dropped t s)"
proof -
  let ?e = "derivePartitionName W ''workflow_events'' t" and ?c = "derivePartitionName W ''workflow_stream_chunks'' t"
  obtain p q where p: "p \<in> set (partitions s)" "pt_name p = ?e" and q: "q \<in> set (partitions s)" "pt_name q = ?c"
    using there by (auto simp: PARTITIONED_TABLES_def has_row_iff)
  have names: "distinct (map pt_name (partitions s))" and rows: "\<And>r. r \<in> set (partitions s) \<Longrightarrow> partition_ok W r" using ok(1) by (auto simp: catalog_ok_def)
  have pe: "pt_table p = ''workflow_events''" "pt_tenantId p = t" using events_partition [OF ok p] by auto
  have qc: "pt_table q = ''workflow_stream_chunks''" "pt_tenantId q = t"
    using rows [OF q(1)] q ok(2) table_names by (auto simp: partition_ok_def PARTITIONED_TABLES_def no_collision_def)
  have own: "pt_tenantId r = t \<longleftrightarrow> pt_name r = ?e \<or> pt_name r = ?c" if "r \<in> set (partitions s)" for r
    using rows [OF that] ok(2) that by (auto simp: partition_ok_def PARTITIONED_TABLES_def no_collision_def)
  let ?s1 = "s\<lparr>events := others e_tenantId t (events s), partitions := others pt_name ?e (partitions s)\<rparr>"
  have 1: "drop_partition ?e s = ?s1" using drop_found [OF ok(1) p(1)] p(2) pe by (simp add: rows_of_partition_def delete_others)
  have "find (\<lambda>r. pt_name r = ?c) (partitions ?s1) = Some q"
    using find_unique_key [of pt_name "others pt_name ?e (partitions s)" q] names q table_names
    by (simp add: others_def distinct_map_filter)
  then have 2: "drop_partition ?c ?s1 = ?s1\<lparr>streams := others k_tenantId t (streams s),
      partitions := others pt_name ?c (others pt_name ?e (partitions s))\<rparr>"
    using qc by (simp add: drop_partition_def rows_of_partition_def delete_others)
  have 3: "others pt_name ?c (others pt_name ?e (partitions s)) = others pt_tenantId t (partitions s)"
    using own by (auto simp: others_def intro!: filter_cong)
  show ?thesis using assms(1)
    by (simp add: dropTenantPartitions_def provisioned_tenant_def PARTITIONED_TABLES_def run_simps 1 2 3 delete_others dropped_def)
qed

lemma run_tenantPartitionsExist:
  assumes "assertValidTenantId t = Inr ()"
  shows "run (tenantPartitionsExist W t) s = (Inr (\<forall>table \<in> set PARTITIONED_TABLES. has_row (\<lambda>p. pt_name p = derivePartitionName W table t) (partitions s)), s)"
  using assms by (simp add: tenantPartitionsExist_def provisioned_tenant_def PARTITIONED_TABLES_def run_simps)

lemma ensured_frame:
  "ensured W index_name t s\<lparr>partitions := partitions s\<rparr> = s"
  by (simp add: ensured_def with_dedup_index_def with_partition_def)

lemma filter_update_where_in:
  "(\<And>r. r \<in> set xs \<Longrightarrow> P r \<Longrightarrow> \<not> Q r \<and> \<not> Q (f r)) \<Longrightarrow> filter Q (update_where P f xs) = filter Q xs"
  by (induction xs) (auto simp: update_where_def)

lemma ensured_others:
  assumes "no_collision W index_name t s"
  shows "others pt_tenantId t (partitions (ensured W index_name t s)) = others pt_tenantId t (partitions s)"
proof -
  let ?u = "with_partition W index_name t ''workflow_stream_chunks'' (with_partition W index_name t ''workflow_events'' s)"
  have add: "others pt_tenantId t (partitions (with_partition W index_name t table u)) = others pt_tenantId t (partitions u)" for table and u :: "'a catalog_scheme"
    by (simp add: with_partition_def others_def partition_of_def)
  have "pt_tenantId p = t" if "p \<in> set (partitions ?u)" "pt_name p = derivePartitionName W ''workflow_events'' t" for p
    using assms that by (auto simp: with_partition_def partition_of_def no_collision_def PARTITIONED_TABLES_def split: if_splits)
  then have "others pt_tenantId t (partitions (with_dedup_index W t ?u)) = others pt_tenantId t (partitions ?u)"
    unfolding with_dedup_index_def others_def by (auto intro!: filter_update_where_in)
  then show ?thesis by (simp add: ensured_def add)
qed

text \<open>
  C40. Provisioning a tenant gives it the partition of every partitioned table, and its events partition the
  index name that the storage layer matches; it changes no row and no other tenant's partition, and
  doing it again changes nothing. Dropping the tenant takes exactly its partitions with their
  rows, its slot rows, stream checkpoints and admissions, and nothing of another tenant; its runs, steps, hooks and waits stay.
\<close>

theorem tenant_provisioned_and_dropped:
  assumes "assertValidTenantId t = Inr ()" and "catalog_ok W s" and "no_collision W index_name t s"
  shows "\<exists>s1. run (ensureTenantPartitions W index_name t) s = (Inr (), s1) \<and> catalog_ok W s1 \<and>
    run (tenantPartitionsExist W t) s1 = (Inr True, s1) \<and> run (ensureTenantPartitions W index_name t) s1 = (Inr (), s1) \<and>
    (\<exists>p \<in> set (partitions s1). pt_name p = derivePartitionName W ''workflow_events'' t \<and> pt_index p = Some (dedupIndexName W t)) \<and>
    s1\<lparr>partitions := partitions s\<rparr> = s \<and> others pt_tenantId t (partitions s1) = others pt_tenantId t (partitions s) \<and>
    run (dropTenantPartitions W t) s1 = (Inr (), dropped t s) \<and> run (tenantPartitionsExist W t) (dropped t s) = (Inr False, dropped t s)"
proof -
  let ?s1 = "ensured W index_name t s"
  have e: "run (ensureTenantPartitions W index_name t) s = (Inr (), ?s1)" and ok: "catalog_ok W ?s1" "no_collision W index_name t ?s1"
    using run_ensureTenantPartitions [OF assms] by auto
  have there: "\<forall>table \<in> set PARTITIONED_TABLES. has_row (\<lambda>p. pt_name p = derivePartitionName W table t) (partitions ?s1)"
    using ensured_partitions by blast
  then obtain p where "p \<in> set (partitions ?s1)" "pt_name p = derivePartitionName W ''workflow_events'' t"
    by (auto simp: PARTITIONED_TABLES_def has_row_iff)
  moreover from this have "pt_index p = Some (dedupIndexName W t)" by (rule ensured_index)
  moreover have "dropped t ?s1 = dropped t s"
    using arg_cong [OF ensured_frame [of s W index_name t], of "dropped t"] ensured_others [OF assms(3)] by (simp add: dropped_def)
  then have "run (dropTenantPartitions W t) ?s1 = (Inr (), dropped t s)"
    using run_dropTenantPartitions [OF assms(1) ok there] by simp
  moreover have "\<not> has_row (\<lambda>p. pt_name p = derivePartitionName W ''workflow_events'' t) (partitions (dropped t s))"
    using assms(3) by (auto simp: dropped_def others_def has_row_iff no_collision_def PARTITIONED_TABLES_def)
  moreover have "run (ensureTenantPartitions W index_name t) ?s1 = (Inr (), ?s1)"
    using run_ensureTenantPartitions(1) [OF assms(1) ok] by (simp add: ensured_again)
  ultimately show ?thesis
    using e ok there ensured_frame [of s W index_name t] ensured_others [OF assms(3)]
    by (intro exI [of _ ?s1]) (auto simp: run_tenantPartitionsExist [OF assms(1)] PARTITIONED_TABLES_def)
qed

section \<open>Examples\<close>

definition empty_catalog :: catalog where
  "empty_catalog = \<lparr>runs = [], events = [], eventSlots = [], steps = [], hooks = [], waits = [],
     startHookAdmissions = [], db_now = 1000, pendingFence = None, graphile_jobs = [], graphile_readable = True,
     streams = [], checkpoints = [], deadline_columns = [], locks = [], notifications = [], partitions = []\<rparr>"

definition server_index :: "string \<Rightarrow> string" where
  "server_index name = name @ ''_correlation_id_type_idx''"

theorem tenant_provisioned_and_dropped_witness:
  "\<exists>s1. run (ensureTenantPartitions example_sdk server_index ''t'') empty_catalog = (Inr (), s1) \<and>
     run (tenantPartitionsExist example_sdk ''t'') s1 = (Inr True, s1) \<and>
     run (dropTenantPartitions example_sdk ''t'') s1 = (Inr (), empty_catalog)"
proof -
  have "assertValidTenantId ''t'' = Inr ()" by (simp add: assertValidTenantId_def tenant_char_def)
  moreover have "catalog_ok example_sdk empty_catalog" "no_collision example_sdk server_index ''t'' empty_catalog"
    by (simp_all add: catalog_ok_def no_collision_def empty_catalog_def server_index_def)
  moreover have "dropped ''t'' empty_catalog = empty_catalog" by (simp add: dropped_def empty_catalog_def others_def)
  ultimately show ?thesis using tenant_provisioned_and_dropped [of "''t''" example_sdk empty_catalog server_index] by auto
qed

text \<open>
  Provisioning a tenant from two places at once can fail: both find the index under the name the server gave
  it, one renames it, and the other's rename finds no index of that name.
\<close>

theorem concurrent_provisioning_fails:
  "\<exists>s. pool_steps (\<lambda>_ _. False) (empty_catalog, [ensureTenantPartitions example_sdk server_index ''t'', ensureTenantPartitions example_sdk server_index ''t''])
     (s, [Ret (), Throw (PgError ''42P01'' [])])"
proof -
  let ?ps = "[ensureTenantPartitions example_sdk server_index ''t'', ensureTenantPartitions example_sdk server_index ''t'']"
  have "snd (pool_exec [0, 0, 1, 1, 0, 1, 0, 1] (empty_catalog, ?ps)) = [Ret (), Throw (PgError ''42P01'' [])]"
    by (simp add: ensureTenantPartitions_def provisioned_tenant_def PARTITIONED_TABLES_def renameDedupIndex_def Let_def create_partition_def rename_index_def
        stmtE_def query_def empty_catalog_def server_index_def has_row_def eval_simps step_simps cong: lazy Atomic_lazy split del: if_split)
  then show ?thesis using pool_exec_steps [of "\<lambda>_ _. False" "(empty_catalog, ?ps)" "[0, 0, 1, 1, 0, 1, 0, 1]"]
    by (metis prod.collapse)
qed

end
