(* ===== verification/Queue_Lifecycle.thy ===== *)
theory Queue_Lifecycle
  imports Configuration
begin

text \<open>
  Starting and closing the embedded runner: the variables \<open>startPromise\<close>, \<open>runnerStart\<close>, \<open>runner\<close>,
  \<open>workerUtils\<close> and \<open>closing\<close> of \<open>createQueue\<close> in \<open>src/queue.ts\<close>, and the asynchronous functions that share them.

  JavaScript runs a function until its next \<open>await\<close>, so the state machine has one event per stretch of
  code between two awaits; an event carries the answer the code was waiting for. Events come in any
  order. An event that is not possible in a state gives \<open>None\<close>. Two counters have no variable
  in the code: the worker pools and the worker utilities that are alive.
\<close>

section \<open>Where the executor listens\<close>

record loopback_url =
  lu_protocol :: string
  lu_hostname :: string
  lu_port :: string

record loopback_target =
  hosts :: "string list"
  port :: string

text \<open>
  \<open>su_port\<close> is the configured port as it is printed; \<open>su_createWorkflowBaseUrl\<close> is the runtime's and
  \<open>su_parse\<close> is \<open>new URL\<close>, which throws on text that is no URL.
\<close>

record surroundings =
  su_runner :: runner_mode
  su_env :: env
  su_port :: "string option"
  su_createWorkflowBaseUrl :: "string \<Rightarrow> string"
  su_parse :: "string \<Rightarrow> loopback_url option"

definition localhost :: "surroundings \<Rightarrow> string \<Rightarrow> string" where
  "localhost su p = su_createWorkflowBaseUrl su (''http://localhost:'' @ p)"

text \<open>\<open>detected\<close> is what \<open>getWorkflowPort\<close> answers: a failure, no port, or the port.\<close>

definition getExecutionBaseUrl :: "surroundings \<Rightarrow> unit + string option \<Rightarrow> unit + string option" where
  "getExecutionBaseUrl su detected = (case truthy (su_env su ''WORKFLOW_LOCAL_BASE_URL'') of
     Some url \<Rightarrow> Inr (Some url)
   | None \<Rightarrow> (case su_port su of Some p \<Rightarrow> Inr (Some (localhost su p))
   | None \<Rightarrow> (case truthy (su_env su ''PORT'') of Some p \<Rightarrow> Inr (Some (localhost su p))
   | None \<Rightarrow> bindE detected (\<lambda>d. Inr (map_option (localhost su) d)))))"

definition getLoopbackHosts :: "string \<Rightarrow> string list" where
  "getLoopbackHosts hostname =
     (if hostname = ''localhost'' then [''127.0.0.1'', ''::1'']
      else if hostname = ''[::1]'' then [''::1'']
      else if hostname = ''127.0.0.1'' \<or> hostname = ''::1'' then [hostname] else [])"

definition getLoopbackTarget :: "surroundings \<Rightarrow> string option \<Rightarrow> unit + loopback_target option" where
  "getLoopbackTarget su baseUrl = (case truthy baseUrl of
     None \<Rightarrow> Inr None
   | Some text \<Rightarrow> (case su_parse su text of
       None \<Rightarrow> Inl ()
     | Some url \<Rightarrow> (let hs = getLoopbackHosts (lu_hostname url) in
         if hs = [] then Inr None
         else Inr (Some \<lparr>hosts = hs, port = (if lu_port url \<noteq> [] then lu_port url
                else if lu_protocol url = ''https:'' then ''443'' else ''80'')\<rparr>))))"

text \<open>\<open>up\<close> are the hosts that accept a connection on the target's port.\<close>

fun canConnectToLoopbackTarget :: "string list \<Rightarrow> string list \<Rightarrow> bool" where
  "canConnectToLoopbackTarget up [] = False"
| "canConnectToLoopbackTarget up (host # rest) = (host \<in> set up \<or> canConnectToLoopbackTarget up rest)"

section \<open>The state\<close>

text \<open>
  An attempt is what \<open>runnerStart\<close> holds: the flag of its abort controller, whether its promise is the one
  of \<open>deferRunnerStart\<close>, and what it waits for. \<open>Settled ok\<close> has run its code; its \<open>finally\<close> is still to come.
\<close>

datatype attempt_phase =
    Resolving
  | Probing loopback_target
  | Polling loopback_target
  | Sleeping loopback_target
  | Running_up
  | Settled bool

record attempt =
  at_aborted :: bool
  at_deferred :: bool
  at_phase :: attempt_phase

text \<open>\<open>Idle\<close> is a \<open>startPromise\<close> of null, \<open>Started\<close> one that is resolved.\<close>

datatype start_phase = Idle | Making_utils | Migrating_schema | Attempting | Started

datatype close_phase =
    Open | Awaiting_attempt | Awaiting_start | Stopping_runner | Releasing_utils | Closing_local_world | Closed | Close_failed

record lifecycle =
  q_closing :: bool
  q_utils :: bool
  q_live_utils :: nat
  q_runner :: bool
  q_live_runners :: nat
  q_attempt :: "attempt option"
  q_start :: start_phase
  q_waiting :: nat
  q_resumable :: nat
  q_close :: close_phase

definition fresh_queue :: lifecycle where
  "fresh_queue = \<lparr>q_closing = False, q_utils = False, q_live_utils = 0, q_runner = False, q_live_runners = 0,
     q_attempt = None, q_start = Idle, q_waiting = 0, q_resumable = 0, q_close = Open\<rparr>"

section \<open>Starting\<close>

definition at_phase_set :: "attempt \<Rightarrow> attempt_phase \<Rightarrow> lifecycle \<Rightarrow> lifecycle" where
  "at_phase_set a ph s = s\<lparr>q_attempt := Some (a\<lparr>at_phase := ph\<rparr>)\<rparr>"

definition startRunnerUnlessAborted :: "attempt \<Rightarrow> lifecycle \<Rightarrow> lifecycle" where
  "startRunnerUnlessAborted a s = at_phase_set a (if at_aborted a then Settled True else Running_up) s"

definition fresh_attempt :: attempt where
  "fresh_attempt = \<lparr>at_aborted = False, at_deferred = False, at_phase = Resolving\<rparr>"

definition startRunnerWhenExecutorIsReady :: "surroundings \<Rightarrow> lifecycle \<Rightarrow> lifecycle" where
  "startRunnerWhenExecutorIsReady su s =
     (if su_runner su = External then s
      else if q_closing s \<or> q_runner s \<or> q_attempt s \<noteq> None then s
      else s\<lparr>q_attempt := Some fresh_attempt\<rparr>)"

text \<open>The body of \<open>startPromise\<close> ends: the callers that wait for it go on, or fail with it.\<close>

definition start_resolved :: "lifecycle \<Rightarrow> lifecycle" where
  "start_resolved s = s\<lparr>q_start := Started, q_resumable := q_resumable s + q_waiting s, q_waiting := 0\<rparr>"

definition start_rejected :: "lifecycle \<Rightarrow> lifecycle" where
  "start_rejected s = s\<lparr>q_start := Idle, q_waiting := 0\<rparr>"

definition start :: "lifecycle \<Rightarrow> lifecycle" where
  "start s = (if q_closing s then s else
     (let s = (if q_start s = Idle then s\<lparr>q_start := Making_utils\<rparr> else s) in
      if q_start s = Started then s\<lparr>q_resumable := q_resumable s + 1\<rparr> else s\<lparr>q_waiting := q_waiting s + 1\<rparr>))"

definition utils_made :: "bool \<Rightarrow> lifecycle \<Rightarrow> lifecycle" where
  "utils_made ok s = (if ok then s\<lparr>q_utils := True, q_live_utils := q_live_utils s + 1, q_start := Migrating_schema\<rparr>
     else start_rejected s)"

definition schema_migrated :: "surroundings \<Rightarrow> bool \<Rightarrow> lifecycle \<Rightarrow> lifecycle" where
  "schema_migrated su ok s = (if ok then
       (let s' = startRunnerWhenExecutorIsReady su s in
        if q_attempt s = None \<and> q_attempt s' \<noteq> None then s'\<lparr>q_start := Attempting\<rparr> else start_resolved s')
     else start_rejected s)"

definition start_resumes :: "surroundings \<Rightarrow> lifecycle \<Rightarrow> lifecycle" where
  "start_resumes su s = (let s' = s\<lparr>q_resumable := q_resumable s - 1\<rparr> in
     if \<not> q_closing s \<and> \<not> q_runner s \<and> q_attempt s = None then startRunnerWhenExecutorIsReady su s' else s')"

section \<open>An attempt to start the runner\<close>

definition base_url_known :: "surroundings \<Rightarrow> unit + string option \<Rightarrow> attempt \<Rightarrow> lifecycle \<Rightarrow> lifecycle" where
  "base_url_known su detected a s =
     (case bindE (getExecutionBaseUrl su detected) (getLoopbackTarget su) of
        Inl _ \<Rightarrow> at_phase_set a (Settled False) s
      | Inr None \<Rightarrow> startRunnerUnlessAborted a s
      | Inr (Some t) \<Rightarrow> at_phase_set a (Probing t) s)"

text \<open>Whoever awaits the promise of an attempt, once it is settled: the body of \<open>startPromise\<close>, and \<open>close\<close>.\<close>

definition attempt_awaited :: "bool \<Rightarrow> lifecycle \<Rightarrow> lifecycle" where
  "attempt_awaited ok s = (if q_start s = Attempting then (if ok then start_resolved s else start_rejected s) else s)"

definition deferRunnerStart :: "attempt \<Rightarrow> loopback_target \<Rightarrow> lifecycle \<Rightarrow> lifecycle" where
  "deferRunnerStart a t s = attempt_awaited True (s\<lparr>q_attempt := Some (a\<lparr>at_deferred := True, at_phase := Polling t\<rparr>)\<rparr>)"

definition probed :: "bool \<Rightarrow> attempt \<Rightarrow> loopback_target \<Rightarrow> lifecycle \<Rightarrow> lifecycle" where
  "probed reachable a t s = (if reachable then startRunnerUnlessAborted a s
     else if at_aborted a then at_phase_set a (Settled True) s else deferRunnerStart a t s)"

definition polled :: "bool \<Rightarrow> attempt \<Rightarrow> loopback_target \<Rightarrow> lifecycle \<Rightarrow> lifecycle" where
  "polled reachable a t s = (if reachable then startRunnerUnlessAborted a s else at_phase_set a (Sleeping t) s)"

definition slept :: "attempt \<Rightarrow> loopback_target \<Rightarrow> lifecycle \<Rightarrow> lifecycle" where
  "slept a t s = (if at_aborted a then startRunnerUnlessAborted a s else at_phase_set a (Polling t) s)"

definition setupListeners :: "bool \<Rightarrow> attempt \<Rightarrow> lifecycle \<Rightarrow> lifecycle" where
  "setupListeners ok a s = at_phase_set a (Settled ok)
     (if ok then s\<lparr>q_runner := True, q_live_runners := q_live_runners s + 1\<rparr> else s)"

text \<open>
  The \<open>finally\<close> clears \<open>runnerStart\<close>. A deferred promise has caught its failure; the other one passes it on,
  to \<open>close\<close> too when that is waiting for it.
\<close>

definition attempt_settles :: "bool \<Rightarrow> attempt \<Rightarrow> lifecycle \<Rightarrow> lifecycle" where
  "attempt_settles ok a s = (let s' = s\<lparr>q_attempt := None\<rparr> in
     if at_deferred a then s'
     else attempt_awaited ok (if \<not> ok \<and> q_close s = Awaiting_attempt then s'\<lparr>q_close := Close_failed\<rparr> else s'))"

section \<open>Closing\<close>

definition close :: "lifecycle \<Rightarrow> lifecycle" where
  "close s = s\<lparr>q_closing := True, q_attempt := map_option (\<lambda>a. a\<lparr>at_aborted := True\<rparr>) (q_attempt s),
     q_close := (if q_attempt s = None then Awaiting_start else Awaiting_attempt)\<rparr>"

definition local_world_next :: "lifecycle \<Rightarrow> lifecycle" where
  "local_world_next s = s\<lparr>q_start := Idle, q_close := Closing_local_world\<rparr>"

definition utils_next :: "lifecycle \<Rightarrow> lifecycle" where
  "utils_next s = (if q_utils s then s\<lparr>q_close := Releasing_utils\<rparr> else local_world_next s)"

definition runner_next :: "lifecycle \<Rightarrow> lifecycle" where
  "runner_next s = (if q_runner s then s\<lparr>q_close := Stopping_runner\<rparr> else utils_next s)"

definition runner_stopped :: "bool \<Rightarrow> lifecycle \<Rightarrow> lifecycle" where
  "runner_stopped ok s = (if ok then utils_next (s\<lparr>q_runner := False, q_live_runners := q_live_runners s - 1\<rparr>)
     else s\<lparr>q_close := Close_failed\<rparr>)"

definition utils_released :: "bool \<Rightarrow> lifecycle \<Rightarrow> lifecycle" where
  "utils_released ok s = (if ok then local_world_next (s\<lparr>q_utils := False, q_live_utils := q_live_utils s - 1\<rparr>)
     else s\<lparr>q_close := Close_failed\<rparr>)"

definition local_world_closed :: "bool \<Rightarrow> lifecycle \<Rightarrow> lifecycle" where
  "local_world_closed ok s = s\<lparr>q_close := (if ok then Closed else Close_failed)\<rparr>"

section \<open>Histories\<close>

text \<open>
  \<open>Start_called\<close> is a call of \<open>start\<close>, by the World or by \<open>queue\<close>; \<open>Start_resumed\<close> a caller whose promise is resolved.
  \<open>Schema_migrated\<close> answers the connection, the lock and \<open>migrate\<close> together: no variable changes in between.
  \<open>close\<close> is called once, because the World's \<open>close\<close> is guarded by its flag \<open>closed\<close>.
\<close>

datatype queue_event =
    Start_called | Start_resumed | Utils_made bool | Schema_migrated bool
  | Base_url_known "unit + string option" | Probed "string list" | Slept | Run_answered bool | Attempt_settled
  | Close_called | Close_resumed | Runner_stopped bool | Utils_released bool | Local_world_closed bool

fun queue_next :: "surroundings \<Rightarrow> queue_event \<Rightarrow> lifecycle \<Rightarrow> lifecycle option" where
  "queue_next su Start_called s = Some (start s)"
| "queue_next su Start_resumed s = (if 0 < q_resumable s then Some (start_resumes su s) else None)"
| "queue_next su (Utils_made ok) s = (if q_start s = Making_utils then Some (utils_made ok s) else None)"
| "queue_next su (Schema_migrated ok) s = (if q_start s = Migrating_schema then Some (schema_migrated su ok s) else None)"
| "queue_next su (Base_url_known detected) s = (case q_attempt s of None \<Rightarrow> None
     | Some a \<Rightarrow> if at_phase a = Resolving then Some (base_url_known su detected a s) else None)"
| "queue_next su (Probed up) s = (case q_attempt s of None \<Rightarrow> None
     | Some a \<Rightarrow> (case at_phase a of
         Probing t \<Rightarrow> Some (probed (canConnectToLoopbackTarget up (hosts t)) a t s)
       | Polling t \<Rightarrow> Some (polled (canConnectToLoopbackTarget up (hosts t)) a t s)
       | _ \<Rightarrow> None))"
| "queue_next su Slept s = (case q_attempt s of None \<Rightarrow> None
     | Some a \<Rightarrow> (case at_phase a of Sleeping t \<Rightarrow> Some (slept a t s) | _ \<Rightarrow> None))"
| "queue_next su (Run_answered ok) s = (case q_attempt s of None \<Rightarrow> None
     | Some a \<Rightarrow> if at_phase a = Running_up then Some (setupListeners ok a s) else None)"
| "queue_next su Attempt_settled s = (case q_attempt s of None \<Rightarrow> None
     | Some a \<Rightarrow> (case at_phase a of Settled ok \<Rightarrow> Some (attempt_settles ok a s) | _ \<Rightarrow> None))"
| "queue_next su Close_called s = (if q_close s = Open then Some (close s) else None)"
| "queue_next su Close_resumed s =
     (if q_close s = Awaiting_attempt \<and> q_attempt s = None then Some (s\<lparr>q_close := Awaiting_start\<rparr>)
      else if q_close s = Awaiting_start \<and> q_start s \<in> {Idle, Started} then Some (runner_next s) else None)"
| "queue_next su (Runner_stopped ok) s = (if q_close s = Stopping_runner then Some (runner_stopped ok s) else None)"
| "queue_next su (Utils_released ok) s = (if q_close s = Releasing_utils then Some (utils_released ok s) else None)"
| "queue_next su (Local_world_closed ok) s = (if q_close s = Closing_local_world then Some (local_world_closed ok s) else None)"

fun queue_history :: "surroundings \<Rightarrow> queue_event list \<Rightarrow> lifecycle \<Rightarrow> lifecycle option" where
  "queue_history su [] s = Some s"
| "queue_history su (ev # evs) s = Option.bind (queue_next su ev s) (queue_history su evs)"

lemmas lifecycle_defs = start_def start_resolved_def start_rejected_def utils_made_def schema_migrated_def start_resumes_def
  startRunnerWhenExecutorIsReady_def startRunnerUnlessAborted_def at_phase_set_def base_url_known_def probed_def polled_def slept_def
  setupListeners_def attempt_settles_def attempt_awaited_def deferRunnerStart_def fresh_attempt_def
  close_def runner_next_def utils_next_def local_world_next_def runner_stopped_def utils_released_def local_world_closed_def

section \<open>The invariant\<close>

text \<open>
  A worker pool is alive exactly when \<open>runner\<close> holds it. An attempt that has not settled has no runner;
  the body of \<open>startPromise\<close> awaits only an attempt that is not deferred. Once closing, an attempt is aborted and awaited.
\<close>

definition attempt_ok :: "lifecycle \<Rightarrow> bool" where
  "attempt_ok s \<longleftrightarrow> (0 < q_resumable s \<longrightarrow> q_start s = Started \<or> q_closing s) \<and> (case q_attempt s of None \<Rightarrow> q_start s \<noteq> Attempting
     | Some a \<Rightarrow> (q_runner s \<longrightarrow> at_phase a = Settled True) \<and>
         (q_start s = Attempting \<longrightarrow> \<not> at_deferred a) \<and> q_start s \<in> {Attempting, Started} \<and>
         (q_closing s \<longrightarrow> at_aborted a \<and> q_close s = Awaiting_attempt))"

definition close_ok :: "lifecycle \<Rightarrow> bool" where
  "close_ok s \<longleftrightarrow> (q_closing s \<longleftrightarrow> q_close s \<noteq> Open) \<and>
     (q_close s \<in> {Stopping_runner, Releasing_utils, Closing_local_world, Closed} \<longrightarrow> q_start s \<in> {Idle, Started}) \<and>
     (q_close s \<in> {Releasing_utils, Closing_local_world, Closed} \<longrightarrow> \<not> q_runner s) \<and>
     (q_close s = Stopping_runner \<longrightarrow> q_runner s) \<and>
     (q_close s = Releasing_utils \<longrightarrow> q_utils s) \<and>
     (q_close s \<in> {Closing_local_world, Closed} \<longrightarrow> \<not> q_utils s)"

definition lifecycle_ok :: "surroundings \<Rightarrow> lifecycle \<Rightarrow> bool" where
  "lifecycle_ok su s \<longleftrightarrow> attempt_ok s \<and> close_ok s \<and> q_live_runners s = of_bool (q_runner s) \<and> (q_utils s \<longrightarrow> 0 < q_live_utils s) \<and>
     (su_runner su = External \<longrightarrow> q_attempt s = None \<and> \<not> q_runner s)"

lemmas ok_defs = lifecycle_ok_def attempt_ok_def close_ok_def

lemma lifecycle_ok_fresh: "lifecycle_ok su fresh_queue"
  by (simp add: ok_defs fresh_queue_def)

lemma ok_start_side:
  assumes ok: "lifecycle_ok su s"
  shows "lifecycle_ok su (start s)" "0 < q_resumable s \<Longrightarrow> lifecycle_ok su (start_resumes su s)"
    "q_start s = Making_utils \<Longrightarrow> lifecycle_ok su (utils_made b s)"
    "q_start s = Migrating_schema \<Longrightarrow> lifecycle_ok su (schema_migrated su b s)"
proof -
  show "lifecycle_ok su (start s)"
    using ok by (cases "q_attempt s"; cases "q_start s"; cases "q_closing s") (simp_all add: ok_defs start_def)
  show "lifecycle_ok su (start_resumes su s)" if "0 < q_resumable s"
    using ok that by (cases "q_attempt s"; cases "q_start s"; cases "q_close s")
      (simp_all add: ok_defs start_resumes_def startRunnerWhenExecutorIsReady_def fresh_attempt_def Let_def)
  show "lifecycle_ok su (utils_made b s)" if "q_start s = Making_utils"
    using ok that by (cases "q_attempt s"; cases b; cases "q_close s") (simp_all add: ok_defs lifecycle_defs Let_def)
  show "lifecycle_ok su (schema_migrated su b s)" if "q_start s = Migrating_schema"
    using ok that by (cases "q_attempt s"; cases b; cases "q_close s") (simp_all add: ok_defs lifecycle_defs Let_def)
qed

lemma ok_phase:
  assumes "lifecycle_ok su s" and "q_attempt s = Some a" and "\<not> (\<exists>b. at_phase a = Settled b)"
  shows "lifecycle_ok su (at_phase_set a ph s)"
  using assms by (cases "q_close s"; cases "q_start s") (simp_all add: ok_defs at_phase_set_def)

lemma ok_attempt_side:
  assumes ok: "lifecycle_ok su s" and a: "q_attempt s = Some a"
  shows "at_phase a = Resolving \<Longrightarrow> lifecycle_ok su (base_url_known su d a s)"
    "at_phase a = Probing t \<Longrightarrow> lifecycle_ok su (probed b a t s)"
    "at_phase a = Polling t \<Longrightarrow> lifecycle_ok su (polled b a t s)"
    "at_phase a = Sleeping t \<Longrightarrow> lifecycle_ok su (slept a t s)"
    "at_phase a = Running_up \<Longrightarrow> lifecycle_ok su (setupListeners b a s)"
    "at_phase a = Settled b \<Longrightarrow> lifecycle_ok su (attempt_settles b a s)"
proof -
  show "lifecycle_ok su (base_url_known su d a s)" if "at_phase a = Resolving"
    using ok_phase [OF ok a] that
    by (simp add: base_url_known_def startRunnerUnlessAborted_def split: sum.split option.split)
  show "lifecycle_ok su (polled b a t s)" if "at_phase a = Polling t"
    using ok_phase [OF ok a] that by (simp add: polled_def startRunnerUnlessAborted_def)
  show "lifecycle_ok su (slept a t s)" if "at_phase a = Sleeping t"
    using ok_phase [OF ok a] that by (simp add: slept_def startRunnerUnlessAborted_def)
  show "lifecycle_ok su (probed b a t s)" if "at_phase a = Probing t"
  proof (cases "\<not> b \<and> \<not> at_aborted a")
    case True
    with ok a that show ?thesis
      by (cases "q_close s"; cases "q_start s") (simp_all add: probed_def deferRunnerStart_def attempt_awaited_def start_resolved_def ok_defs)
  next
    case False
    with ok_phase [OF ok a] that show ?thesis by (auto simp: probed_def startRunnerUnlessAborted_def)
  qed
  show "lifecycle_ok su (setupListeners b a s)" if "at_phase a = Running_up"
    using ok a that by (cases b; cases "q_close s"; cases "q_start s") (simp_all add: ok_defs setupListeners_def at_phase_set_def)
  show "lifecycle_ok su (attempt_settles b a s)" if "at_phase a = Settled b"
    using ok a that by (cases b; cases "at_deferred a"; cases "q_close s"; cases "q_start s")
      (simp_all add: ok_defs attempt_settles_def attempt_awaited_def start_resolved_def start_rejected_def)
qed

lemma ok_close_side:
  assumes ok: "lifecycle_ok su s"
  shows "q_close s = Open \<Longrightarrow> lifecycle_ok su (close s)"
    "q_close s = Awaiting_attempt \<Longrightarrow> q_attempt s = None \<Longrightarrow> lifecycle_ok su (s\<lparr>q_close := Awaiting_start\<rparr>)"
    "q_close s = Awaiting_start \<Longrightarrow> q_start s \<in> {Idle, Started} \<Longrightarrow> lifecycle_ok su (runner_next s)"
    "q_close s = Stopping_runner \<Longrightarrow> lifecycle_ok su (runner_stopped b s)"
    "q_close s = Releasing_utils \<Longrightarrow> lifecycle_ok su (utils_released b s)"
    "q_close s = Closing_local_world \<Longrightarrow> lifecycle_ok su (local_world_closed b s)"
proof -
  show "lifecycle_ok su (close s)" if "q_close s = Open"
    using ok that by (cases "q_attempt s") (simp_all add: ok_defs close_def)
  show "lifecycle_ok su (s\<lparr>q_close := Awaiting_start\<rparr>)" if "q_close s = Awaiting_attempt" "q_attempt s = None"
    using ok that by (simp add: ok_defs)
  show "lifecycle_ok su (runner_next s)" if "q_close s = Awaiting_start" "q_start s \<in> {Idle, Started}"
    using ok that by (cases "q_attempt s"; cases "q_start s"; cases "su_runner su") (simp_all add: ok_defs runner_next_def utils_next_def local_world_next_def)
  show "lifecycle_ok su (runner_stopped b s)" if "q_close s = Stopping_runner"
    using ok that by (cases "q_attempt s"; cases b) (simp_all add: ok_defs runner_stopped_def utils_next_def local_world_next_def)
  show "lifecycle_ok su (utils_released b s)" if "q_close s = Releasing_utils"
    using ok that by (cases "q_attempt s"; cases b) (simp_all add: ok_defs utils_released_def local_world_next_def)
  show "lifecycle_ok su (local_world_closed b s)" if "q_close s = Closing_local_world"
    using ok that by (cases "q_attempt s"; cases b) (simp_all add: ok_defs local_world_closed_def)
qed

lemma lifecycle_ok_event:
  assumes "lifecycle_ok su s" and "queue_next su ev s = Some s'"
  shows "lifecycle_ok su s'"
  using assms(2) ok_start_side [OF assms(1)] ok_attempt_side [OF assms(1)] ok_close_side [OF assms(1)]
  by (cases ev) (auto split: if_splits option.splits attempt_phase.splits)

lemma history_invariant:
  assumes "\<And>s ev s'. P s \<Longrightarrow> queue_next su ev s = Some s' \<Longrightarrow> P s'"
  shows "queue_history su evs s = Some s' \<Longrightarrow> P s \<Longrightarrow> P s'"
  by (induction evs arbitrary: s) (auto simp: bind_eq_Some_conv intro: assms)

lemma lifecycle_ok_history: "queue_history su evs s = Some s' \<Longrightarrow> lifecycle_ok su s \<Longrightarrow> lifecycle_ok su s'"
  by (rule history_invariant [where P = "lifecycle_ok su"]) (auto intro: lifecycle_ok_event)

lemma history_append:
  "queue_history su (evs @ evs') s = Option.bind (queue_history su evs s) (queue_history su evs')"
  by (induction evs arbitrary: s) (auto split: Option.bind_splits)

section \<open>After the close\<close>

text \<open>No pool is coming up and none will: the runner may only be stopped.\<close>

definition quiet :: "surroundings \<Rightarrow> nat \<Rightarrow> lifecycle \<Rightarrow> bool" where
  "quiet su n s \<longleftrightarrow> lifecycle_ok su s \<and> q_closing s \<and> q_live_runners s \<le> n \<and>
     (case q_attempt s of None \<Rightarrow> True | Some a \<Rightarrow> at_phase a \<noteq> Running_up)"

lemma live_runners_updates [simp]:
  "q_live_runners (start s) = q_live_runners s" "q_closing (start s) = q_closing s"
  "q_live_runners (start_resolved s) = q_live_runners s" "q_closing (start_resolved s) = q_closing s" "q_attempt (start_resolved s) = q_attempt s"
  "q_live_runners (start_rejected s) = q_live_runners s" "q_closing (start_rejected s) = q_closing s" "q_attempt (start_rejected s) = q_attempt s"
  "q_live_runners (attempt_awaited b s) = q_live_runners s" "q_closing (attempt_awaited b s) = q_closing s" "q_attempt (attempt_awaited b s) = q_attempt s"
  "q_live_runners (at_phase_set a ph s) = q_live_runners s" "q_closing (at_phase_set a ph s) = q_closing s"
  "q_attempt (at_phase_set a ph s) = Some (a\<lparr>at_phase := ph\<rparr>)"
  by (simp_all add: start_def start_resolved_def start_rejected_def attempt_awaited_def at_phase_set_def Let_def)

lemma closing_no_attempt: "q_closing s \<Longrightarrow> startRunnerWhenExecutorIsReady su s = s"
  by (simp add: startRunnerWhenExecutorIsReady_def)

lemma closing_aborted: "lifecycle_ok su s \<Longrightarrow> q_closing s \<Longrightarrow> q_attempt s = Some a \<Longrightarrow> at_aborted a \<and> q_close s = Awaiting_attempt"
  by (simp add: ok_defs)

lemma closing_start: "q_closing s \<Longrightarrow> start s = s"
  by (simp add: start_def)

lemma quiet_event:
  assumes q: "quiet su n s" and e: "queue_next su ev s = Some s'"
  shows "quiet su n s'"
proof (cases "q_attempt s")
  case None
  with q e have "q_closing s' \<and> q_live_runners s' \<le> n \<and> q_attempt s' = None"
    by (cases ev) (auto simp: quiet_def closing_start closing_no_attempt start_resumes_def utils_made_def schema_migrated_def Let_def
        close_def runner_next_def utils_next_def local_world_next_def runner_stopped_def utils_released_def local_world_closed_def
        split: if_splits)
  with lifecycle_ok_event [OF _ e] q show ?thesis by (simp add: quiet_def)
next
  case (Some a)
  then have "at_aborted a" "q_close s = Awaiting_attempt" using q closing_aborted by (auto simp: quiet_def)
  with q e Some have "q_closing s' \<and> q_live_runners s' \<le> n \<and> (case q_attempt s' of None \<Rightarrow> True | Some a \<Rightarrow> at_phase a \<noteq> Running_up)"
    by (cases ev; cases "at_phase a")
      (auto simp: quiet_def closing_start closing_no_attempt start_resumes_def utils_made_def schema_migrated_def Let_def
        base_url_known_def probed_def polled_def slept_def startRunnerUnlessAborted_def attempt_settles_def
        split: if_splits sum.splits option.splits)
  with lifecycle_ok_event [OF _ e] q show ?thesis by (simp add: quiet_def)
qed

text \<open>The worker utilities in use: the ones in \<open>workerUtils\<close>, and those a later start wrote over.\<close>

definition made :: "queue_event list \<Rightarrow> nat" where
  "made evs = length (filter (\<lambda>ev. ev = Utils_made True) evs)"

lemma made_simps [simp]: "made [] = 0" "made (evs @ [ev]) = made evs + of_bool (ev = Utils_made True)"
  by (simp_all add: made_def)

definition utils_counted :: "nat \<Rightarrow> lifecycle \<Rightarrow> bool" where
  "utils_counted n s \<longleftrightarrow> q_live_utils s = of_bool (q_utils s) + (n - 1) \<and> (n = 0 \<longrightarrow> \<not> q_utils s) \<and>
     (\<not> q_utils s \<and> 0 < n \<longrightarrow> q_closing s \<and> q_attempt s = None \<and> q_start s \<in> {Idle, Started})"

lemma utils_updates [simp]:
  "q_utils (start s) = q_utils s" "q_live_utils (start s) = q_live_utils s"
  "q_utils (start_resolved s) = q_utils s" "q_live_utils (start_resolved s) = q_live_utils s"
  "q_utils (start_rejected s) = q_utils s" "q_live_utils (start_rejected s) = q_live_utils s"
  "q_utils (attempt_awaited b s) = q_utils s" "q_live_utils (attempt_awaited b s) = q_live_utils s"
  "q_utils (at_phase_set a ph s) = q_utils s" "q_live_utils (at_phase_set a ph s) = q_live_utils s"
  "q_utils (startRunnerWhenExecutorIsReady su s) = q_utils s" "q_live_utils (startRunnerWhenExecutorIsReady su s) = q_live_utils s"
  by (simp_all add: start_def start_resolved_def start_rejected_def attempt_awaited_def at_phase_set_def
      startRunnerWhenExecutorIsReady_def Let_def)

lemma closing_phases:
  assumes "lifecycle_ok su s"
  shows "q_close s = Releasing_utils \<Longrightarrow> q_utils s \<and> q_closing s \<and> q_attempt s = None \<and> q_start s \<in> {Idle, Started}"
    and "q_close s = Closed \<Longrightarrow> q_live_runners s = 0 \<and> q_attempt s = None \<and> \<not> q_utils s \<and> q_closing s"
  using assms by (cases "q_attempt s", simp_all add: ok_defs)+

lemma utils_counted_event:
  assumes c: "utils_counted n s" and ok: "lifecycle_ok su s" and e: "queue_next su ev s = Some s'"
  shows "utils_counted (n + of_bool (ev = Utils_made True)) s'"
proof (cases "ev = Utils_made True \<or> (ev = Utils_released True)")
  case True
  with c closing_phases(1) [OF ok] e show ?thesis
    by (cases n; cases "q_utils s") (auto simp: utils_counted_def utils_made_def utils_released_def local_world_next_def split: if_splits)
next
  case False
  with e have same: "q_utils s' = q_utils s" "q_live_utils s' = q_live_utils s"
    by (cases ev; auto simp: start_resumes_def utils_made_def schema_migrated_def Let_def base_url_known_def probed_def polled_def
        slept_def startRunnerUnlessAborted_def deferRunnerStart_def setupListeners_def attempt_settles_def
        close_def runner_next_def utils_next_def local_world_next_def runner_stopped_def utils_released_def local_world_closed_def
        split: if_splits sum.splits option.splits attempt_phase.splits)+
  have "q_closing s' \<and> q_attempt s' = None \<and> q_start s' \<in> {Idle, Started}"
    if "q_closing s" "q_attempt s = None" "q_start s \<in> {Idle, Started}"
    using that e by (cases ev) (auto simp: closing_start closing_no_attempt start_resumes_def Let_def
        close_def runner_next_def utils_next_def local_world_next_def runner_stopped_def utils_released_def local_world_closed_def
        split: if_splits)
  with c False same show ?thesis by (auto simp: utils_counted_def)
qed

lemma utils_counted_history:
  "queue_history su evs fresh_queue = Some s \<Longrightarrow> utils_counted (made evs) s"
proof (induction evs arbitrary: s rule: rev_induct)
  case Nil
  then show ?case by (auto simp: utils_counted_def fresh_queue_def)
next
  case (snoc ev evs)
  then obtain r where r: "queue_history su evs fresh_queue = Some r" "queue_next su ev r = Some s"
    by (auto simp: history_append bind_eq_Some_conv)
  with utils_counted_event [OF snoc.IH [OF r(1)] lifecycle_ok_history [OF r(1) lifecycle_ok_fresh] r(2)]
  show ?case by simp
qed

text \<open>
  C38. However starts, answers and the close of an embedded World interleave: at most one worker pool is
  alive and it is the one the queue holds; in external mode there is none; once \<open>close\<close> is called and no pool is
  coming up, none ever does; a close that returned has stopped the pool, let no attempt behind and
  released the worker utilities. Worker utilities that are alive beside those are exactly the ones
  that a repeated start wrote over.
\<close>

theorem no_runner_outlives_close:
  assumes "queue_history su evs fresh_queue = Some s"
  shows "q_live_runners s = of_bool (q_runner s) \<and>
    (su_runner su = External \<longrightarrow> q_live_runners s = 0 \<and> q_attempt s = None) \<and>
    (q_closing s \<and> (\<forall>a. q_attempt s = Some a \<longrightarrow> at_phase a \<noteq> Running_up) \<longrightarrow>
      (\<forall>evs' s'. queue_history su evs' s = Some s' \<longrightarrow> q_live_runners s' \<le> q_live_runners s)) \<and>
    (q_close s = Closed \<longrightarrow> q_live_runners s = 0 \<and> q_attempt s = None \<and> \<not> q_utils s \<and>
      (\<forall>evs' s'. queue_history su evs' s = Some s' \<longrightarrow> q_live_runners s' = 0)) \<and>
    q_live_utils s = of_bool (q_utils s) + (made evs - 1)"
proof -
  have ok: "lifecycle_ok su s" by (rule lifecycle_ok_history [OF assms lifecycle_ok_fresh])
  have stays: "q_live_runners s' \<le> q_live_runners s"
    if "queue_history su evs' s = Some s'" "q_closing s" "\<forall>a. q_attempt s = Some a \<longrightarrow> at_phase a \<noteq> Running_up" for evs' s'
  proof -
    have "quiet su (q_live_runners s) s" using ok that by (simp add: quiet_def split: option.split)
    with that(1) have "quiet su (q_live_runners s) s'"
      by (rule history_invariant [where P = "quiet su (q_live_runners s)", rotated]) (rule quiet_event)
    then show ?thesis by (simp add: quiet_def)
  qed
  have closed: "q_live_runners s = 0 \<and> q_attempt s = None \<and> \<not> q_utils s \<and> q_closing s" if "q_close s = Closed"
    using closing_phases(2) [OF ok] that by simp
  have "\<forall>evs' s'. queue_history su evs' s = Some s' \<longrightarrow> q_live_runners s' = 0" if "q_close s = Closed"
    using stays closed [OF that] by fastforce
  moreover have "q_live_utils s = of_bool (q_utils s) + (made evs - 1)"
    using utils_counted_history [OF assms] by (simp add: utils_counted_def)
  ultimately show ?thesis using ok closed stays by (auto simp: lifecycle_ok_def)
qed

text \<open>A World whose executor listens on port 3000 of this host.\<close>

definition demo_surroundings :: surroundings where
  "demo_surroundings = \<lparr>su_runner = Embedded, su_env = (\<lambda>_. None), su_port = Some ''3000'', su_createWorkflowBaseUrl = (\<lambda>b. b),
     su_parse = (\<lambda>_. Some \<lparr>lu_protocol = ''http:'', lu_hostname = ''localhost'', lu_port = ''3000''\<rparr>)\<rparr>"

text \<open>The executor is not up yet, so the start is deferred; the close comes while it is polled.\<close>

definition deferred_then_closed :: "queue_event list" where
  "deferred_then_closed = [Start_called, Utils_made True, Schema_migrated True, Base_url_known (Inr None), Probed [], Start_resumed,
     Close_called, Probed [''::1''], Attempt_settled, Close_resumed, Close_resumed, Utils_released True, Local_world_closed True]"

lemmas demo_simps = demo_surroundings_def deferred_then_closed_def fresh_queue_def lifecycle_defs getExecutionBaseUrl_def
  getLoopbackTarget_def getLoopbackHosts_def localhost_def truthy_def

lemma no_runner_outlives_close_witness:
  "\<exists>s. queue_history demo_surroundings deferred_then_closed fresh_queue = Some s \<and> q_close s = Closed \<and>
     q_live_runners s = 0 \<and> q_attempt s = None \<and> q_live_utils s = 0"
proof -
  obtain s where s: "queue_history demo_surroundings deferred_then_closed fresh_queue = Some s" "q_close s = Closed"
    by (simp add: demo_simps)
  with no_runner_outlives_close [OF s(1)] show ?thesis by (auto simp: made_def deferred_then_closed_def)
qed

section \<open>The close settles\<close>

fun start_rank :: "start_phase \<Rightarrow> nat" where
  "start_rank Making_utils = 3" | "start_rank Migrating_schema = 2" | "start_rank Attempting = 1"
| "start_rank Idle = 0" | "start_rank Started = 0"

fun phase_rank :: "attempt_phase \<Rightarrow> nat" where
  "phase_rank Resolving = 5" | "phase_rank (Probing t) = 4" | "phase_rank (Polling t) = 4" | "phase_rank (Sleeping t) = 3"
| "phase_rank Running_up = 2" | "phase_rank (Settled b) = 1"

fun closing_rank :: "close_phase \<Rightarrow> nat" where
  "closing_rank Open = 6" | "closing_rank Awaiting_attempt = 5" | "closing_rank Awaiting_start = 4" | "closing_rank Stopping_runner = 3"
| "closing_rank Releasing_utils = 2" | "closing_rank Closing_local_world = 1" | "closing_rank Closed = 0" | "closing_rank Close_failed = 0"

definition rank :: "lifecycle \<Rightarrow> nat" where
  "rank s = start_rank (q_start s) + q_waiting s + q_resumable s + closing_rank (q_close s) +
     (case q_attempt s of None \<Rightarrow> 0 | Some a \<Rightarrow> phase_rank (at_phase a))"

lemma rank_awaited: "rank (start_resolved s) \<le> rank s" "rank (start_rejected s) \<le> rank s" "rank (attempt_awaited b s) \<le> rank s"
  by (simp_all add: rank_def start_resolved_def start_rejected_def attempt_awaited_def)

lemma rank_settles:
  assumes "q_attempt s = Some a" and "at_phase a = Settled b"
  shows "rank (attempt_settles b a s) < rank s"
proof -
  have "rank (s\<lparr>q_attempt := None\<rparr>) < rank s" "rank (s\<lparr>q_attempt := None, q_close := Close_failed\<rparr>) < rank s"
    using assms by (simp_all add: rank_def)
  then show ?thesis using rank_awaited(3) [THEN le_less_trans] by (simp add: attempt_settles_def Let_def)
qed

lemma rank_phase:
  "q_attempt s = Some a \<Longrightarrow> phase_rank ph < phase_rank (at_phase a) \<Longrightarrow> rank (at_phase_set a ph s) < rank s"
  by (simp add: rank_def at_phase_set_def)

lemma rank_listeners:
  "q_attempt s = Some a \<Longrightarrow> at_phase a = Running_up \<Longrightarrow> rank (setupListeners b a s) < rank s"
  by (simp add: rank_def setupListeners_def at_phase_set_def)

lemma closing_event_lowers:
  assumes ok: "lifecycle_ok su s" and c: "q_closing s" and e: "queue_next su ev s = Some s'" and ev: "ev \<noteq> Start_called"
  shows "rank s' < rank s"
proof (cases "\<exists>ok. ev = Utils_made ok \<or> ev = Schema_migrated ok \<or> ev = Start_resumed")
  case True
  with c e show ?thesis
    by (auto simp: utils_made_def schema_migrated_def start_resumes_def closing_no_attempt rank_def start_resolved_def
        start_rejected_def Let_def split: if_splits)
next
  case start: False
  show ?thesis
  proof (cases "q_attempt s")
    case None
    with start c e ev ok show ?thesis
      by (cases ev) (auto simp: rank_def close_def runner_next_def utils_next_def local_world_next_def runner_stopped_def
          utils_released_def local_world_closed_def lifecycle_ok_def close_ok_def split: if_splits)
  next
    case (Some a)
    with ok c have a: "at_aborted a" "q_close s = Awaiting_attempt" using closing_aborted by blast+
    with start Some e ev show ?thesis
      by (cases ev; cases "at_phase a")
        (auto simp: rank_phase rank_settles rank_listeners base_url_known_def probed_def polled_def slept_def startRunnerUnlessAborted_def
          split: if_splits sum.splits option.splits)
  qed
qed

lemma closing_stays:
  assumes "q_closing s" and "queue_next su ev s = Some s'"
  shows "q_closing s'"
  using assms
  by (cases ev) (auto simp: closing_start closing_no_attempt start_resumes_def utils_made_def schema_migrated_def Let_def
      base_url_known_def probed_def polled_def slept_def startRunnerUnlessAborted_def setupListeners_def attempt_settles_def
      deferRunnerStart_def close_def runner_next_def utils_next_def local_world_next_def runner_stopped_def utils_released_def
      local_world_closed_def split: if_splits sum.splits option.splits attempt_phase.splits)

lemma closing_can_go_on:
  assumes ok: "lifecycle_ok su s" and c: "q_closing s" and "q_close s \<notin> {Closed, Close_failed}"
  shows "\<exists>ev. ev \<noteq> Start_called \<and> queue_next su ev s \<noteq> None"
proof (cases "q_attempt s")
  case None
  then have "q_start s \<noteq> Attempting" using ok by (simp add: lifecycle_ok_def attempt_ok_def)
  have "q_close s \<noteq> Open" using ok c by (simp add: lifecycle_ok_def close_ok_def)
  let ?evs = "[Utils_made True, Schema_migrated True, Close_resumed, Runner_stopped True, Utils_released True, Local_world_closed True]"
  have "\<exists>ev \<in> set ?evs. queue_next su ev s \<noteq> None"
    using None assms(3) \<open>q_start s \<noteq> Attempting\<close> \<open>q_close s \<noteq> Open\<close> by (cases "q_close s"; cases "q_start s") simp_all
  moreover have "Start_called \<notin> set ?evs" by simp
  ultimately show ?thesis by metis
next
  case (Some a)
  let ?evs = "[Base_url_known (Inr None), Probed [], Slept, Run_answered True, Attempt_settled]"
  have "\<exists>ev \<in> set ?evs. queue_next su ev s \<noteq> None" using Some by (cases "at_phase a") simp_all
  moreover have "Start_called \<notin> set ?evs" by simp
  ultimately show ?thesis by metis
qed

lemma closing_bounded:
  "queue_history su evs s = Some s' \<Longrightarrow> lifecycle_ok su s \<Longrightarrow> q_closing s \<Longrightarrow>
     length (filter (\<lambda>ev. ev \<noteq> Start_called) evs) + rank s' \<le> rank s"
proof (induction evs arbitrary: s)
  case (Cons ev evs)
  then obtain r where r: "queue_next su ev s = Some r" "queue_history su evs r = Some s'" by (auto simp: bind_eq_Some_conv)
  have rest: "length (filter (\<lambda>ev. ev \<noteq> Start_called) evs) + rank s' \<le> rank r"
    by (rule Cons.IH [OF r(2) lifecycle_ok_event [OF Cons.prems(2) r(1)] closing_stays [OF Cons.prems(3) r(1)]])
  show ?case
  proof (cases "ev = Start_called")
    case True
    with r rest Cons.prems(3) show ?thesis by (simp add: closing_start)
  next
    case False
    with closing_event_lowers [OF Cons.prems(2,3) r(1)] rest show ?thesis by simp
  qed
qed simp

text \<open>
  C39. Once it is called, \<open>close\<close> settles, whatever was under way: it is never stuck before it has returned or
  failed, calls of \<open>start\<close> change nothing any more, and at most \<open>rank s\<close> answers are taken until nothing is left to do,
  also when the executor the runner waits for never comes up.
\<close>

theorem close_settles:
  assumes "queue_history su evs fresh_queue = Some s" and "q_closing s"
  shows "(q_close s \<notin> {Closed, Close_failed} \<longrightarrow> (\<exists>ev. ev \<noteq> Start_called \<and> queue_next su ev s \<noteq> None)) \<and>
    queue_next su Start_called s = Some s \<and>
    (\<forall>evs' s'. queue_history su evs' s = Some s' \<longrightarrow> length (filter (\<lambda>ev. ev \<noteq> Start_called) evs') \<le> rank s)"
proof -
  have ok: "lifecycle_ok su s" by (rule lifecycle_ok_history [OF assms(1) lifecycle_ok_fresh])
  show ?thesis
    using closing_can_go_on [OF ok assms(2)] closing_bounded [OF _ ok assms(2)] closing_start [OF assms(2)]
    by (auto dest: add_leD1)
qed

lemma close_settles_witness:
  "\<exists>s. queue_history demo_surroundings (take 7 deferred_then_closed) fresh_queue = Some s \<and> q_close s = Awaiting_attempt \<and>
     (\<exists>ev. ev \<noteq> Start_called \<and> queue_next demo_surroundings ev s \<noteq> None) \<and>
     (\<forall>evs. queue_history demo_surroundings evs s \<noteq> None \<longrightarrow> length (filter (\<lambda>ev. ev \<noteq> Start_called) evs) \<le> 9)"
proof -
  obtain s where s: "queue_history demo_surroundings (take 7 deferred_then_closed) fresh_queue = Some s"
      "q_close s = Awaiting_attempt" "q_closing s" "rank s = 9"
    by (simp add: demo_simps rank_def)
  with close_settles [OF s(1,3)] show ?thesis by auto
qed

section \<open>What a close can leave behind\<close>

text \<open>
  The promise of an attempt is awaited without a \<open>catch\<close>: when the runner fails to come up while \<open>close\<close>
  waits for it, \<open>close\<close> fails with it, and the worker utilities are never released: the World does not call it twice.
\<close>

lemma failed_close_keeps_utils:
  "\<exists>evs s. queue_history demo_surroundings evs fresh_queue = Some s \<and> q_close s = Close_failed \<and> q_live_utils s = 1"
  by (rule exI [of _ "[Start_called, Utils_made True, Schema_migrated True, Base_url_known (Inr None), Probed [''::1''],
    Close_called, Run_answered False, Attempt_settled]"]) (simp add: demo_simps)

text \<open>A start that fails after the worker utilities were made keeps them; the next start writes over them.\<close>

lemma retried_start_leaks_utils:
  "\<exists>evs s. queue_history demo_surroundings evs fresh_queue = Some s \<and> q_close s = Closed \<and> q_live_utils s = 1"
  by (rule exI [of _ "[Start_called, Utils_made True, Schema_migrated False, Start_called, Utils_made True, Schema_migrated True,
    Base_url_known (Inr None), Probed [''::1''], Run_answered True, Attempt_settled, Close_called, Close_resumed,
    Runner_stopped True, Utils_released True, Local_world_closed True]"]) (simp add: demo_simps)

end
