(* ===== verification/Timer_Sweep.thy ===== *)
theory Timer_Sweep
  imports Queue
begin

text \<open>
  Who runs the sweep over delayed deliveries: the dispatcher, at start and on an interval
  (\<open>sweepTimers\<close> of \<open>src/dispatcher/runner.ts\<close>), and an embedded runner once after it came up
  (\<open>moveLegacyDelaysToTimers\<close> of \<open>src/queue.ts\<close>). \<open>gc\<close> is graphile's \<open>GC_JOB_QUEUES\<close>, which may fail; the statements of the
  sweep itself are those of \<open>Timers\<close>.
\<close>

record sweeping_host = host +
  sw_sweeping :: bool
  sw_timerTaskRegistered :: bool

type_synonym 's sweep_io = "('s sweeping_host_scheme, error, unit) prog"

definition collectQueues :: "'s sweep_io \<Rightarrow> 's sweep_io" where
  "collectQueues gc = catchP gc (\<lambda>_. Ret ())"

definition sweep_round :: "int \<Rightarrow> string \<Rightarrow> string \<Rightarrow> rat \<Rightarrow> 's sweep_io \<Rightarrow> 's sweep_io" where
  "sweep_round fresh flow timer horizon gc =
     bindP (query sw_timerTaskRegistered) (\<lambda>registered.
     bindP (if registered then Ret ()
            else bindP (registerTimerTask fresh timer) (\<lambda>_. exec (\<lambda>s. s\<lparr>sw_timerTaskRegistered := True\<rparr>))) (\<lambda>_.
     bindP (moveDelayedJobsToTimers flow timer horizon) (\<lambda>moved.
     if 0 < moved then collectQueues gc else Ret ())))"

definition sweepTimers :: "int \<Rightarrow> string \<Rightarrow> string \<Rightarrow> rat \<Rightarrow> 's sweep_io \<Rightarrow> 's sweep_io" where
  "sweepTimers fresh flow timer horizon gc =
     bindP (stmt (\<lambda>s. (sw_sweeping s, s\<lparr>sw_sweeping := True\<rparr>))) (\<lambda>sweeping.
     if sweeping then Ret ()
     else bindP (catchP (sweep_round fresh flow timer horizon gc) (\<lambda>_. Ret ()))
            (\<lambda>_. exec (\<lambda>s. s\<lparr>sw_sweeping := False\<rparr>)))"

text \<open>\<open>utils\<close> says whether the queue still has its worker utilities.\<close>

definition moveLegacyDelaysToTimers :: "int \<Rightarrow> string \<Rightarrow> string \<Rightarrow> rat \<Rightarrow> bool \<Rightarrow> ('s host_scheme, error, unit) prog \<Rightarrow>
    ('s host_scheme, error, unit) prog" where
  "moveLegacyDelaysToTimers fresh flow timer horizon utils gc =
     catchP (bindP (registerTimerTask fresh timer) (\<lambda>_.
       bindP (moveDelayedJobsToTimers flow timer horizon) (\<lambda>moved.
       if 0 < moved \<and> utils then gc else Ret ()))) (\<lambda>_. Ret ())"

section \<open>A sweep leaves nothing to move\<close>

definition swept :: "string \<Rightarrow> rat \<Rightarrow> 's host_scheme \<Rightarrow> bool" where
  "swept flow horizon s \<longleftrightarrow> filter (movable flow horizon s) (jobs s) = []"

lemma task_id_registered:
  "task_id (s\<lparr>tasks := insert_unless (\<lambda>t. t_identifier t = n) \<lparr>t_id = i, t_identifier = n\<rparr> (tasks s)\<rparr>) n \<noteq> None"
  by (auto simp: task_id_def insert_unless_def has_row_iff find_None_iff)

lemma run_register: "run (registerTimerTask fresh n) s =
    (Inr (), s\<lparr>tasks := insert_unless (\<lambda>t. t_identifier t = n) \<lparr>t_id = fresh, t_identifier = n\<rparr> (tasks s)\<rparr>)"
  by (simp add: registerTimerTask_def run_simps)

lemma swept_after_move:
  assumes "task_id s timer = Some i" and "task_id s flow \<noteq> Some i"
  shows "swept flow horizon (snd (run (moveDelayedJobsToTimers flow timer horizon) s))"
proof -
  have "\<not> movable flow horizon s (to_timer i s x)" for x
    using assms(2) by (simp add: movable_def)
  then show ?thesis using assms(1) by (auto simp: swept_def run_sweep update_where_def filter_empty_conv)
qed

text \<open>
  An embedded start never fails for its delayed deliveries, and leaves none on a run queue, whatever graphile's
  clean-up answers, as long as that keeps the jobs and tasks.
\<close>

lemma legacy_delays_moved:
  assumes distinct: "\<And>i. task_id s' timer = Some i \<Longrightarrow> task_id s' flow \<noteq> Some i"
    and s': "s' = snd (run (registerTimerTask fresh timer) s)"
    and gc: "\<And>r. swept flow horizon r \<Longrightarrow> swept flow horizon (snd (run gc r))"
  shows "fst (run (moveLegacyDelaysToTimers fresh flow timer horizon utils gc) s) = Inr () \<and>
    swept flow horizon (snd (run (moveLegacyDelaysToTimers fresh flow timer horizon utils gc) s))"
proof -
  obtain i where i: "task_id s' timer = Some i" using task_id_registered by (fastforce simp: s' run_register)
  let ?r = "snd (run (moveDelayedJobsToTimers flow timer horizon) s')"
  have "swept flow horizon ?r" by (rule swept_after_move [OF i distinct [OF i]])
  moreover from this have "swept flow horizon (snd (run gc ?r))" by (rule gc)
  ultimately show ?thesis using i s'
    by (auto simp: moveLegacyDelaysToTimers_def run_simps run_register run_sweep split: prod.splits sum.splits)
qed

text \<open>The same of the dispatcher's sweep, which gives its flag back so that the next interval sweeps again.\<close>

lemma dispatcher_swept:
  assumes idle: "\<not> sw_sweeping s" "sw_timerTaskRegistered s" and i: "task_id s timer = Some i" "task_id s flow \<noteq> Some i"
    and gc: "\<And>r. swept flow horizon r \<Longrightarrow> swept flow horizon (snd (run gc r))"
  shows "fst (run (sweepTimers fresh flow timer horizon gc) s) = Inr () \<and>
    \<not> sw_sweeping (snd (run (sweepTimers fresh flow timer horizon gc) s)) \<and>
    swept flow horizon (snd (run (sweepTimers fresh flow timer horizon gc) s))"
proof -
  let ?s = "s\<lparr>sw_sweeping := True\<rparr>"
  let ?r = "snd (run (moveDelayedJobsToTimers flow timer horizon) ?s)"
  have frame: "swept flow horizon (r\<lparr>sw_sweeping := b\<rparr>) = swept flow horizon r"
      "swept flow horizon (r\<lparr>sw_sweeping := b, jobs := js\<rparr>) = swept flow horizon (r\<lparr>jobs := js\<rparr>)"
    for r :: "'a sweeping_host_scheme" and b js
    by (simp_all add: swept_def movable_def [abs_def] task_id_def queue_of_def)
  have t: "task_id ?s timer = Some i" "task_id ?s flow \<noteq> Some i" using i by (simp_all add: task_id_def)
  have "swept flow horizon ?r" by (rule swept_after_move [OF t])
  moreover from this have "swept flow horizon (snd (run gc ?r))" by (rule gc)
  ultimately show ?thesis using idle t(1)
    by (auto simp: sweepTimers_def sweep_round_def collectQueues_def run_simps run_sweep frame split: prod.splits sum.splits)
qed

end
