(* ===== verification/World_Setup.thy ===== *)
theory World_Setup
  imports Configuration
begin

text \<open>
  The World of a deployment as \<open>createWorld\<close> of \<open>src/index.ts\<close> sets it up: its configuration, resolved from the caller's
  settings and the environment, and its \<open>close\<close>. \<open>resolveQueueNamespace\<close> is the runtime's. A number that is
  not finite is \<open>None\<close>, as in \<open>parse_int\<close>: \<open>createWorld\<close> replaces both kinds alike.
\<close>

section \<open>Configuration\<close>

record world_config =
  wc_connectionString :: "string option"
  wc_maxPoolSize :: "int option"
  wc_pool :: bool
  wc_tenantId :: "string option"
  wc_deploymentId :: "string option"
  wc_runner :: "runner_mode option"
  wc_queueNamespace :: "string option"
  wc_port :: "int option"
  wc_queueConcurrency :: "rat option option"
  wc_streamFlushIntervalMs :: "rat option"
  wc_compactStreamSnapshots :: "bool option"

record resolved_world_config =
  rc_tenantId :: tenant_id
  rc_deploymentId :: string
  rc_runner :: runner_mode
  rc_queueNamespace :: "string option"
  rc_port :: "int option"
  rc_queueConcurrency :: "rat option"
  rc_streamFlushIntervalMs :: "rat option"
  rc_compactStreamSnapshots :: bool

datatype world_setup_error = Required string | Bad_tenant | Bad_setting config_error

definition required :: "string option \<Rightarrow> string \<Rightarrow> world_setup_error + string" where
  "required v name = (case truthy v of None \<Rightarrow> Inl (Required name) | Some x \<Rightarrow> Inr x)"

definition getDefaultMaxPoolSize :: "env \<Rightarrow> int option" where
  "getDefaultMaxPoolSize env = (case parse_int (case env ''WORKFLOW_POSTGRES_MAX_POOL_SIZE'' of Some v \<Rightarrow> v | None \<Rightarrow> []) of
     Some n \<Rightarrow> if 0 < n then Some n else None | None \<Rightarrow> None)"

definition setting :: "config_error + 'a \<Rightarrow> world_setup_error + 'a" where
  "setting r = (case r of Inl e \<Rightarrow> Inl (Bad_setting e) | Inr v \<Rightarrow> Inr v)"

definition resolveConfig :: "(string option \<Rightarrow> string option) \<Rightarrow> env \<Rightarrow> world_config \<Rightarrow> world_setup_error + resolved_world_config" where
  "resolveConfig resolveQueueNamespace env config =
     bindE (required (nullish [wc_tenantId config, env ''WORKFLOW_WORLD_TENANT_ID'', env ''EVELAND_PROJECT_ID''])
       ''WORKFLOW_WORLD_TENANT_ID'') (\<lambda>tenantId.
     bindE (case assertValidTenantId tenantId of Inl _ \<Rightarrow> Inl Bad_tenant | Inr u \<Rightarrow> Inr u) (\<lambda>_.
     bindE (required (nullish [wc_deploymentId config, env ''WORKFLOW_WORLD_DEPLOYMENT_ID'', env ''EVELAND_DEPLOYMENT_ID''])
       ''WORKFLOW_WORLD_DEPLOYMENT_ID'') (\<lambda>deploymentId.
     bindE (case wc_runner config of Some r \<Rightarrow> Inr r
       | None \<Rightarrow> setting (resolveRunnerMode (nullish [env ''WORKFLOW_WORLD_RUNNER'', env ''EVELAND_WORKFLOW_RUNNER'']))) (\<lambda>runner.
     bindE (case wc_compactStreamSnapshots config of Some b \<Rightarrow> Inr b
       | None \<Rightarrow> setting (resolveStreamCompaction (nullish [env ''WORKFLOW_WORLD_STREAM_COMPACTION'', env ''EVELAND_WORKFLOW_STREAM_COMPACTION''])))
       (\<lambda>compact.
     Inr \<lparr>rc_tenantId = tenantId, rc_deploymentId = deploymentId, rc_runner = runner,
       rc_queueNamespace = resolveQueueNamespace (wc_queueNamespace config), rc_port = wc_port config,
       rc_queueConcurrency = (case wc_queueConcurrency config of Some n \<Rightarrow> n
         | None \<Rightarrow> (case parse_int (case env ''WORKFLOW_POSTGRES_WORKER_CONCURRENCY'' of Some v \<Rightarrow> v | None \<Rightarrow> []) of
             Some n \<Rightarrow> if n = 0 then Some 50 else Some (of_int n) | None \<Rightarrow> Some 50)),
       rc_streamFlushIntervalMs = wc_streamFlushIntervalMs config, rc_compactStreamSnapshots = compact\<rparr>)))))"

text \<open>What \<open>createWorld\<close> opens its pool with: the caller's own pool, or a connection string and a size.\<close>

datatype world_pool = Given_pool | Own_pool string "int option"

definition createWorld :: "(string option \<Rightarrow> string option) \<Rightarrow> env \<Rightarrow> world_config \<Rightarrow>
    world_setup_error + resolved_world_config \<times> world_pool" where
  "createWorld resolveQueueNamespace env config =
     bindE (resolveConfig resolveQueueNamespace env config) (\<lambda>resolved.
     let resolved = (case rc_queueConcurrency resolved of
           Some n \<Rightarrow> if n \<le> 0 then resolved\<lparr>rc_queueConcurrency := Some 50\<rparr> else resolved
         | None \<Rightarrow> resolved\<lparr>rc_queueConcurrency := Some 50\<rparr>);
         maxPoolSize = nullish [wc_maxPoolSize config, getDefaultMaxPoolSize env] in
     if wc_pool config then Inr (resolved, Given_pool)
     else (case truthy (wc_connectionString config) of
         Some url \<Rightarrow> Inr (resolved, Own_pool url maxPoolSize)
       | None \<Rightarrow> bindE (setting (resolveConnectionString env)) (\<lambda>url. Inr (resolved, Own_pool url maxPoolSize))))"

section \<open>Closing\<close>

datatype world_action = Close_streamer | Close_queue | End_own_pool

record world_state =
  ws_closed :: bool
  ws_done :: "(world_action \<times> bool) list"

text \<open>\<open>fails\<close> says which call fails, after which history.\<close>

type_synonym world_failing = "(world_action \<times> bool) list \<Rightarrow> world_action \<Rightarrow> error option"

definition world_call :: "world_failing \<Rightarrow> world_action \<Rightarrow> (world_state, error, unit) prog" where
  "world_call fails a = bindP (stmt (\<lambda>s. let f = fails (ws_done s) a in (f, s\<lparr>ws_done := ws_done s @ [(a, f = None)]\<rparr>)))
     (\<lambda>f. case f of Some e \<Rightarrow> Throw e | None \<Rightarrow> Ret ())"

definition world_close :: "world_failing \<Rightarrow> world_pool \<Rightarrow> (world_state, error, unit) prog" where
  "world_close fails pool =
     bindP (stmt (\<lambda>s. (ws_closed s, s\<lparr>ws_closed := True\<rparr>))) (\<lambda>closed.
     if closed then Ret ()
     else bindP (world_call fails Close_streamer) (\<lambda>_.
          bindP (world_call fails Close_queue) (\<lambda>_.
          if pool = Given_pool then Ret () else world_call fails End_own_pool)))"

section \<open>What a World that is created promises\<close>

lemma valid_tenant_Inr:
  "(case assertValidTenantId t of Inl _ \<Rightarrow> Inl e | Inr u \<Rightarrow> Inr u) = Inr x \<longleftrightarrow> assertValidTenantId t = Inr ()"
  by (cases "assertValidTenantId t") auto

lemma required_Inr: "required v name = Inr x \<longleftrightarrow> truthy v = Some x"
  by (simp add: required_def split: option.split)

text \<open>
  A World that is created has a tenant whose names are valid, a deployment id, a positive concurrency and, unless
  it was given a pool, a database named by its caller or by the variables the dispatcher reads.
\<close>

lemma created_world_sound:
  assumes "createWorld ns env config = Inr (k, pool)"
  shows "assertValidTenantId (rc_tenantId k) = Inr () \<and> rc_deploymentId k \<noteq> [] \<and> (\<exists>n > 0. rc_queueConcurrency k = Some n) \<and>
    (pool = Given_pool \<longleftrightarrow> wc_pool config) \<and>
    (\<forall>url size. pool = Own_pool url size \<longrightarrow> url \<noteq> [] \<and>
       (truthy (wc_connectionString config) = Some url \<or> truthy (wc_connectionString config) = None \<and> resolveConnectionString env = Inr url))"
proof -
  from assms obtain r where r: "resolveConfig ns env config = Inr r" by (auto simp: createWorld_def)
  then have "assertValidTenantId (rc_tenantId r) = Inr ()" "rc_deploymentId r \<noteq> []"
    by (auto simp: resolveConfig_def required_Inr valid_tenant_Inr truthy_nonempty)
  moreover have "rc_tenantId k = rc_tenantId r \<and> rc_deploymentId k = rc_deploymentId r \<and> (\<exists>n > 0. rc_queueConcurrency k = Some n)"
    using assms r by (auto simp: createWorld_def Let_def split: if_splits option.splits)
  moreover have "(pool = Given_pool) = wc_pool config"
    using assms r by (auto simp: createWorld_def Let_def split: if_splits option.splits)
  moreover have "url \<noteq> [] \<and> (truthy (wc_connectionString config) = Some url \<or>
      truthy (wc_connectionString config) = None \<and> resolveConnectionString env = Inr url)" if "pool = Own_pool url size" for url size
    using assms r that truthy_nonempty
    by (auto simp: createWorld_def Let_def setting_def resolveConnectionString_def split: if_splits option.splits sum.splits)
  ultimately show ?thesis by auto
qed

text \<open>
  Closing again does nothing and reports nothing, also when the first close failed: then what stood behind the
  failing call stays open. A pool that was given is never ended.
\<close>

definition close_plan :: "world_pool \<Rightarrow> world_action list" where
  "close_plan pool = [Close_streamer, Close_queue] @ (if pool = Given_pool then [] else [End_own_pool])"

lemma world_closed_once:
  assumes "run (world_close fails pool) s = (r, s')" and "\<not> ws_closed s"
  shows "run (world_close fails' pool) s' = (Inr (), s')"
    "r = Inr () \<Longrightarrow> ws_done s' = ws_done s @ map (\<lambda>a. (a, True)) (close_plan pool)"
    "r \<noteq> Inr () \<Longrightarrow> \<exists>k < length (close_plan pool).
       ws_done s' = ws_done s @ map (\<lambda>a. (a, True)) (take k (close_plan pool)) @ [(close_plan pool ! k, False)]"
proof -
  let ?d = "ws_done s"
  have s': "ws_closed s' \<and>
      (r = Inr () \<and> ws_done s' = ?d @ map (\<lambda>a. (a, True)) (close_plan pool) \<or>
       r \<noteq> Inr () \<and> ws_done s' = ?d @ [(Close_streamer, False)] \<or>
       r \<noteq> Inr () \<and> ws_done s' = ?d @ [(Close_streamer, True), (Close_queue, False)] \<or>
       r \<noteq> Inr () \<and> pool \<noteq> Given_pool \<and> ws_done s' = ?d @ [(Close_streamer, True), (Close_queue, True), (End_own_pool, False)])"
    using assms
    by (auto simp: world_close_def world_call_def close_plan_def run_simps Let_def split: option.splits if_splits)
  then show "run (world_close fails' pool) s' = (Inr (), s')" by (simp add: world_close_def run_simps)
  from s' show "ws_done s' = ?d @ map (\<lambda>a. (a, True)) (close_plan pool)" if "r = Inr ()" using that by auto
  from s' show "\<exists>k < length (close_plan pool). ws_done s' = ?d @ map (\<lambda>a. (a, True)) (take k (close_plan pool)) @ [(close_plan pool ! k, False)]"
    if "r \<noteq> Inr ()"
    using that by (elim conjE disjE; intro exI [of _ "length (ws_done s') - length ?d - 1"])
      (simp_all add: close_plan_def)
qed

end
