(* ===== verification/Json_Text.thy ===== *)
theory Json_Text
  imports Configuration Stream_Blocks
begin

text \<open>
  A printer and a parser of JSON in one line, without white space and with whole numbers only, and that the parser
  reads back what the printer wrote: a concrete instance of the text codec that the compaction of
  stream chunks takes as a parameter. Characters that need an escape are written with four hexadecimal digits.
\<close>

section \<open>Hexadecimal digits\<close>

definition hex_char :: "nat \<Rightarrow> char" where
  "hex_char n = char_of (if n < 10 then 48 + n else 87 + n)"

definition hex_value :: "char \<Rightarrow> nat option" where
  "hex_value h = (let n = (of_char h :: nat) in
     if 48 \<le> n \<and> n < 58 then Some (n - 48) else if 97 \<le> n \<and> n < 103 then Some (n - 87) else None)"

lemma of_hex_char: "n < 16 \<Longrightarrow> (of_char (hex_char n) :: nat) = (if n < 10 then 48 + n else 87 + n)"
  by (simp add: hex_char_def of_char_of)

lemma hex_value_hex_char [simp]: "n < 16 \<Longrightarrow> hex_value (hex_char n) = Some n"
  by (simp add: hex_value_def of_hex_char Let_def)

definition hex_byte :: "nat \<Rightarrow> string" where
  "hex_byte n = [hex_char (n div 16), hex_char (n mod 16)]"

fun unhex :: "string \<Rightarrow> byte list" where
  "unhex (h # l # rest) = (case (hex_value h, hex_value l) of
     (Some a, Some b) \<Rightarrow> of_nat (16 * a + b) # unhex rest | _ \<Rightarrow> [])"
| "unhex _ = []"

definition hex :: "byte list \<Rightarrow> string" where
  "hex bs = concat (map (\<lambda>b. hex_byte (unat b)) bs)"

lemma byte_lt: "unat (b :: byte) < 256"
  using unsigned_less [of b, where ?'a = nat] by simp

lemma unhex_hex [simp]: "unhex (hex bs) = bs"
proof (induction bs)
  case (Cons b bs)
  have "unat b div 16 < 16" using byte_lt [of b] by simp
  with Cons show ?case by (simp add: hex_def hex_byte_def)
qed (simp add: hex_def)

section \<open>Printing\<close>

definition escaped :: "char \<Rightarrow> bool" where
  "escaped ch \<longleftrightarrow> (of_char ch :: nat) < 32 \<or> ch = CHR 0x22 \<or> ch = CHR 0x5C"

definition show_char :: "char \<Rightarrow> string" where
  "show_char ch = (if escaped ch then CHR 0x5C # ''u00'' @ hex_byte (of_char ch) else [ch])"

definition show_string :: "string \<Rightarrow> string" where
  "show_string s = CHR 0x22 # concat (map show_char s) @ [CHR 0x22]"

fun commas :: "string list \<Rightarrow> string" where
  "commas [] = []"
| "commas [x] = x"
| "commas (x # xs) = x @ CHR '','' # commas xs"

fun show_json :: "json \<Rightarrow> string" where
  "show_json JNull = ''null''"
| "show_json (JBool b) = (if b then ''true'' else ''false'')"
| "show_json (JNumber q) = dec (nat \<lfloor>q\<rfloor>)"
| "show_json (JString s) = show_string s"
| "show_json (JArray vs) = CHR ''['' # commas (map show_json vs) @ '']''"
| "show_json (JObject fs) = CHR ''{'' # commas (map (\<lambda>f. show_string (fst f) @ CHR '':'' # show_json (snd f)) fs) @ ''}''"

section \<open>Parsing\<close>

fun read_chars :: "string \<Rightarrow> (string \<times> string) option" where
  "read_chars [] = None"
| "read_chars (x # xs) =
     (if x = CHR 0x22 then Some ([], xs)
      else if x = CHR 0x5C then
        (case xs of u # y # z # h # l # rest \<Rightarrow>
           (case (hex_value h, hex_value l) of
              (Some a, Some b) \<Rightarrow> map_option (apfst ((#) (char_of (16 * a + b)))) (read_chars rest)
            | _ \<Rightarrow> None)
         | _ \<Rightarrow> None)
      else map_option (apfst ((#) x)) (read_chars xs))"

fun read_value :: "nat \<Rightarrow> string \<Rightarrow> (json \<times> string) option"
  and read_items :: "nat \<Rightarrow> string \<Rightarrow> (json list \<times> string) option"
  and read_fields :: "nat \<Rightarrow> string \<Rightarrow> ((string \<times> json) list \<times> string) option" where
  "read_value 0 s = None"
| "read_value (Suc n) s =
     (if take 4 s = ''null'' then Some (JNull, drop 4 s)
      else if take 4 s = ''true'' then Some (JBool True, drop 4 s)
      else if take 5 s = ''false'' then Some (JBool False, drop 5 s)
      else (case s of [] \<Rightarrow> None | x # xs \<Rightarrow>
        if x = CHR 0x22 then map_option (apfst JString) (read_chars xs)
        else if x = CHR ''['' then
          (if take 1 xs = '']'' then Some (JArray [], drop 1 xs) else map_option (apfst JArray) (read_items n xs))
        else if x = CHR ''{'' then
          (if take 1 xs = ''}'' then Some (JObject [], drop 1 xs) else map_option (apfst JObject) (read_fields n xs))
        else map_option (\<lambda>k. (JNumber (of_nat k), dropWhile is_digit s)) (undec (takeWhile is_digit s))))"
| "read_items 0 s = None"
| "read_items (Suc n) s =
     (case read_value n s of
        Some (v, x # xs) \<Rightarrow> if x = CHR '','' then map_option (apfst ((#) v)) (read_items n xs)
          else if x = CHR '']'' then Some ([v], xs) else None
      | _ \<Rightarrow> None)"
| "read_fields 0 s = None"
| "read_fields (Suc n) s =
     (case s of [] \<Rightarrow> None | q # cs \<Rightarrow> if q \<noteq> CHR 0x22 then None else
       (case read_chars cs of
          Some (k, y # ys) \<Rightarrow> if y \<noteq> CHR '':'' then None else
            (case read_value n ys of
               Some (v, x # xs) \<Rightarrow> if x = CHR '','' then map_option (apfst ((#) (k, v))) (read_fields n xs)
                 else if x = CHR ''}'' then Some ([(k, v)], xs) else None
             | _ \<Rightarrow> None)
        | _ \<Rightarrow> None))"

section \<open>What is written is read back\<close>

lemma read_show_char: "read_chars (show_char ch @ rest) = map_option (apfst ((#) ch)) (read_chars rest)"
proof (cases "escaped ch")
  case True
  have "(of_char ch :: nat) div 16 < 16" by (rule less_mult_imp_div_less) simp
  moreover have "char_of (16 * ((of_char ch :: nat) div 16) + of_char ch mod 16) = ch" by simp
  ultimately show ?thesis using True by (simp add: show_char_def hex_byte_def)
next
  case False
  then show ?thesis by (simp add: show_char_def escaped_def)
qed

lemma read_show_string: "read_chars (concat (map show_char s) @ CHR 0x22 # rest) = Some (s, rest)"
  by (induction s) (simp_all add: read_show_char)


text \<open>The numbers the printer knows, and the values made of them.\<close>

definition whole :: "rat \<Rightarrow> bool" where
  "whole q \<longleftrightarrow> q = of_nat (nat \<lfloor>q\<rfloor>)"

fun whole_numbers :: "json \<Rightarrow> bool" where
  "whole_numbers (JNumber q) = whole q"
| "whole_numbers (JArray vs) = (\<forall>v \<in> set vs. whole_numbers v)"
| "whole_numbers (JObject fs) = (\<forall>f \<in> set fs. whole_numbers (snd f))"
| "whole_numbers _ = True"

lemma is_digit_digit_char [simp]: "d < 10 \<Longrightarrow> is_digit (digit_char d)"
  by (simp add: is_digit_def)

lemma digits_dec: "list_all is_digit (dec n)"
proof (induction n rule: dec.induct)
  case (1 n)
  then show ?case by (subst dec.simps) simp
qed

lemma undec_dec [simp]: "undec (dec n) = Some n"
  by (simp add: undec_def undec_acc_dec)

text \<open>What follows a value in the text is no digit, so a number ends where it was printed.\<close>

definition ends_number :: "string \<Rightarrow> bool" where
  "ends_number rest \<longleftrightarrow> (case rest of [] \<Rightarrow> True | x # xs \<Rightarrow> \<not> is_digit x)"

lemma number_span:
  assumes "ends_number rest"
  shows "takeWhile is_digit (dec n @ rest) = dec n" "dropWhile is_digit (dec n @ rest) = rest"
proof -
  have all: "\<forall>x \<in> set (dec n). is_digit x" using digits_dec [of n] by (simp add: list_all_iff)
  have "takeWhile is_digit rest = []" "dropWhile is_digit rest = rest" using assms by (simp_all add: ends_number_def split: list.splits)
  with all show "takeWhile is_digit (dec n @ rest) = dec n" "dropWhile is_digit (dec n @ rest) = rest" by simp_all
qed

lemma ends_number_marks [simp]: "ends_number []" "ends_number (CHR '','' # r)" "ends_number (CHR '']'' # r)" "ends_number (CHR ''}'' # r)"
  by (simp_all add: ends_number_def is_digit_def char_digit_def)

lemma read_number:
  assumes "ends_number rest"
  shows "read_value (Suc n) (dec k @ rest) = Some (JNumber (of_nat k), rest)"
proof -
  obtain x xs where d: "dec k = x # xs" by (cases "dec k") simp_all
  then have x: "is_digit x" using digits_dec [of k] by simp
  have "x \<noteq> CHR ''n'' \<and> x \<noteq> CHR ''t'' \<and> x \<noteq> CHR ''f'' \<and> x \<noteq> CHR 0x22 \<and> x \<noteq> CHR ''['' \<and> x \<noteq> CHR ''{''"
    using x by (auto simp: is_digit_def char_digit_def)
  moreover have "dec k @ rest = x # xs @ rest" by (simp add: d)
  ultimately show ?thesis
    using number_span [OF assms, of k] undec_dec [of k] by (simp add: d del: undec_dec)
qed


lemma read_items_back:
  assumes "\<And>v n rest. v \<in> set vs \<Longrightarrow> ends_number rest \<Longrightarrow> length (show_json v) \<le> n \<Longrightarrow>
      read_value n (show_json v @ rest) = Some (v, rest)"
  shows "vs \<noteq> [] \<Longrightarrow> length (commas (map show_json vs)) < n \<Longrightarrow>
    read_items n (commas (map show_json vs) @ CHR '']'' # rest) = Some (vs, rest)"
  using assms
proof (induction vs arbitrary: n)
  case (Cons v vs)
  then obtain m where n: "n = Suc m" by (cases n) auto
  show ?case
  proof (cases vs)
    case Nil
    with Cons.prems n show ?thesis by simp
  next
    case (Cons w ws)
    then have printed: "commas (map show_json (v # vs)) = show_json v @ CHR '','' # commas (map show_json vs)" by simp
    have "read_items m (commas (map show_json vs) @ CHR '']'' # rest) = Some (vs, rest)"
      using Cons.prems n printed local.Cons by (intro Cons.IH) auto
    moreover have "read_value m (show_json v @ CHR '','' # commas (map show_json vs) @ CHR '']'' # rest) =
        Some (v, CHR '','' # commas (map show_json vs) @ CHR '']'' # rest)"
      using Cons.prems(2,3) n printed by simp
    ultimately show ?thesis by (simp add: n printed del: list.map)
  qed
qed simp

abbreviation show_field :: "string \<times> json \<Rightarrow> string" where
  "show_field f \<equiv> show_string (fst f) @ CHR '':'' # show_json (snd f)"

lemma read_fields_back:
  assumes "\<And>f n rest. f \<in> set fs \<Longrightarrow> ends_number rest \<Longrightarrow> length (show_json (snd f)) \<le> n \<Longrightarrow>
      read_value n (show_json (snd f) @ rest) = Some (snd f, rest)"
  shows "fs \<noteq> [] \<Longrightarrow> length (commas (map show_field fs)) < n \<Longrightarrow>
    read_fields n (commas (map show_field fs) @ CHR ''}'' # rest) = Some (fs, rest)"
  using assms
proof (induction fs arbitrary: n)
  case (Cons f fs)
  then obtain m where n: "n = Suc m" by (cases n) auto
  show ?case
  proof (cases fs)
    case Nil
    with Cons.prems n show ?thesis by (simp add: show_string_def read_show_string)
  next
    case (Cons w ws)
    then have printed: "commas (map show_field (f # fs)) = show_field f @ CHR '','' # commas (map show_field fs)" by simp
    define more_text where "more_text = commas (map show_field fs) @ CHR ''}'' # rest"
    have "read_fields m more_text = Some (fs, rest)"
      unfolding more_text_def using Cons.prems n printed local.Cons by (intro Cons.IH) auto
    moreover have "read_value m (show_json (snd f) @ CHR '','' # more_text) = Some (snd f, CHR '','' # more_text)"
      using Cons.prems(2,3) n printed by simp
    moreover have "commas (map show_field (f # fs)) @ CHR ''}'' # rest =
        CHR 0x22 # concat (map show_char (fst f)) @ CHR 0x22 # CHR '':'' # show_json (snd f) @ CHR '','' # more_text"
      unfolding printed more_text_def by (simp add: show_string_def)
    ultimately show ?thesis unfolding n by (simp only:) (simp add: read_show_string)
  qed
qed simp


lemma commas_first: "vs \<noteq> [] \<Longrightarrow> commas (map f vs) = f (hd vs) @ (if tl vs = [] then [] else CHR '','' # commas (map f (tl vs)))"
  by (cases vs; cases "tl vs") simp_all

lemma show_json_first: "show_json v \<noteq> [] \<and> (is_digit (hd (show_json v)) \<or> hd (show_json v) \<in> set ''ntf[{'' \<or> hd (show_json v) = CHR 0x22)"
proof (cases v)
  case (JNumber q)
  obtain x xs where d: "dec (nat \<lfloor>q\<rfloor>) = x # xs" by (cases "dec (nat \<lfloor>q\<rfloor>)") simp_all
  with digits_dec [of "nat \<lfloor>q\<rfloor>"] JNumber show ?thesis by simp
qed (simp_all add: show_string_def)

lemma commas_json_first:
  assumes "vs \<noteq> []"
  shows "take 1 (commas (map show_json vs) @ rest) \<noteq> '']''"
proof -
  obtain x xs where x: "show_json (hd vs) = x # xs" using show_json_first [of "hd vs"] by (cases "show_json (hd vs)") auto
  then have "x \<noteq> CHR '']''" using show_json_first [of "hd vs"] by (auto simp: is_digit_def char_digit_def)
  with x assms show ?thesis by (simp add: commas_first)
qed

lemma read_back:
  "whole_numbers v \<Longrightarrow> ends_number rest \<Longrightarrow> length (show_json v) \<le> n \<Longrightarrow> read_value n (show_json v @ rest) = Some (v, rest)"
proof (induction v arbitrary: n rest)
  case (JNumber q)
  then obtain m where "n = Suc m" by (cases n) auto
  with read_number [OF JNumber.prems(2), of m "nat \<lfloor>q\<rfloor>"] JNumber.prems(1) show ?case by (simp add: whole_def)
next
  case (JString s)
  then obtain m where "n = Suc m" by (cases n) (auto simp: show_string_def)
  then show ?case by (simp add: show_string_def read_show_string)
next
  case (JArray vs)
  then obtain m where n: "n = Suc m" by (cases n) auto
  show ?case
  proof (cases "vs = []")
    case False
    have "read_items m (commas (map show_json vs) @ CHR '']'' # rest) = Some (vs, rest)"
      using JArray n False by (intro read_items_back) auto
    with n False commas_json_first [OF False, of "CHR '']'' # rest"] show ?thesis by simp
  qed (simp add: n)
next
  case (JObject fs)
  then obtain m where n: "n = Suc m" by (cases n) auto
  show ?case
  proof (cases "fs = []")
    case False
    have "read_value k (show_json (snd f) @ r) = Some (snd f, r)"
      if "f \<in> set fs" "ends_number r" "length (show_json (snd f)) \<le> k" for f k r
      using JObject.IH [of f "snd f"] JObject.prems(1) that by (cases f) auto
    then have "read_fields m (commas (map show_field fs) @ CHR ''}'' # rest) = Some (fs, rest)"
      using JObject.prems(3) n False by (intro read_fields_back) auto
    moreover have "take 1 (commas (map show_field fs) @ CHR ''}'' # rest) \<noteq> ''}''"
      using False by (simp add: commas_first show_string_def)
    ultimately show ?thesis using n False by simp
  qed (simp add: n)
next
  case (JBool b)
  then obtain m where "n = Suc m" by (cases n) (auto split: if_splits)
  then show ?case by (cases b) simp_all
next
  case JNull
  then obtain m where "n = Suc m" by (cases n) auto
  then show ?case by simp
qed

text \<open>The printed text has no newline: control characters are escaped.\<close>

lemma newline_show_string: "CHR 0x0A \<notin> set (show_string s)"
proof -
  have hex: "hex_char k \<noteq> CHR 0x0A" if "k < 16" for k
  proof
    assume "hex_char k = CHR 0x0A"
    then have "(of_char (hex_char k) :: nat) = 10" by simp
    with of_hex_char [OF that] show False by (simp split: if_splits)
  qed
  have "(of_char ch :: nat) div 16 < 16" for ch by (rule less_mult_imp_div_less) simp
  then have "CHR 0x0A \<notin> set (show_char ch)" for ch
    using hex [of "of_char ch div 16"] hex [of "of_char ch mod 16"]
    by (cases "escaped ch") (auto simp: show_char_def hex_byte_def escaped_def)
  then show ?thesis by (auto simp: show_string_def)
qed

lemma set_commas: "set (commas xs) \<subseteq> insert (CHR '','') (\<Union>x \<in> set xs. set x)"
  by (induction xs rule: commas.induct) auto

lemma newline_show_json: "CHR 0x0A \<notin> set (show_json v)"
proof (induction v)
  case (JNumber q)
  then show ?case using digits_dec [of "nat \<lfloor>q\<rfloor>"] by (auto simp: list_all_iff is_digit_def char_digit_def)
next
  case (JArray vs)
  then show ?case using set_commas [of "map show_json vs"] by auto
next
  case (JObject fs)
  then show ?case using set_commas [of "map show_field fs"] newline_show_string by fastforce
qed (auto simp: newline_show_string)

end
