(* ===== verification/Compaction.thy ===== *)
theory Compaction
  imports Json_Text
begin

text \<open>
  Write-side compaction of eve's stream chunks: \<open>src/stream-compaction.ts\<close>. A chunk is a sequence of frames, a frame holds
  a line, and a line the JSON text of an event; the cumulative text of an append event is dropped.

  \<open>JSON.parse\<close> of UTF-8 bytes, \<open>JSON.stringify\<close> to UTF-8 bytes and the two directions of base64 are the fields of
  \<open>text_codec\<close>; \<open>None\<close> is text that \<open>JSON.parse\<close> refuses. A newline is one byte of UTF-8 and part of no other
  character, so the line is cut at byte 10. An object is its own properties in the order they are printed.
\<close>

section \<open>Text\<close>

record text_codec =
  tc_parse :: "byte list \<Rightarrow> json option"
  tc_stringify :: "json \<Rightarrow> byte list"
  tc_base64 :: "byte list \<Rightarrow> string"
  tc_unbase64 :: "string \<Rightarrow> byte list"
  tc_number :: "rat \<Rightarrow> bool"

text \<open>Array indices come first among the properties of an object, in their order.\<close>

definition index_key :: "string \<Rightarrow> nat option" where
  "index_key k = (case undec k of None \<Rightarrow> None | Some n \<Rightarrow> if dec n = k \<and> n < 2 ^ 32 - 1 then Some n else None)"

definition key_before :: "string \<Rightarrow> string \<Rightarrow> bool" where
  "key_before a b \<longleftrightarrow> a \<noteq> b \<and> (case (index_key a, index_key b) of
     (Some m, Some n) \<Rightarrow> m < n | (None, Some n) \<Rightarrow> False | _ \<Rightarrow> True)"

text \<open>The values \<open>JSON.parse\<close> makes: numbers are of the number type, properties distinct and in order.\<close>

fun json_ok :: "(rat \<Rightarrow> bool) \<Rightarrow> json \<Rightarrow> bool" where
  "json_ok number (JNumber q) = number q"
| "json_ok number (JArray vs) = (\<forall>v \<in> set vs. json_ok number v)"
| "json_ok number (JObject fs) = (sorted_wrt key_before (map fst fs) \<and> (\<forall>f \<in> set fs. json_ok number (snd f)))"
| "json_ok number _ = True"

text \<open>
  What the module relies on: printing a value and parsing it gives the value back, in one line; parsing gives
  such values; base64 is read back.
\<close>

definition codec_laws :: "text_codec \<Rightarrow> bool" where
  "codec_laws c \<longleftrightarrow>
     (\<forall>v. json_ok (tc_number c) v \<longrightarrow> tc_parse c (tc_stringify c v) = Some v \<and> 10 \<notin> set (tc_stringify c v)) \<and>
     (\<forall>b v. tc_parse c b = Some v \<longrightarrow> json_ok (tc_number c) v) \<and>
     (\<forall>x. tc_unbase64 c (tc_base64 c x) = x) \<and> tc_number c 1"

section \<open>Frames\<close>

datatype compaction_error = Value_out_of_range

definition FORMAT_TAG :: "byte list" where
  "FORMAT_TAG = bytes_of ''devl''"

definition frame_json :: "text_codec \<Rightarrow> byte list \<Rightarrow> json" where
  "frame_json c inner = JArray [JArray [JString ''Uint8Array'', JNumber 1], JString (tc_base64 c inner)]"

text \<open>\<open>writeUInt32BE\<close> throws on a length of more than 32 bits.\<close>

definition encodeFrame :: "text_codec \<Rightarrow> byte list \<Rightarrow> compaction_error + byte list" where
  "encodeFrame c inner = (let payload = tc_stringify c (frame_json c inner) in
     if 4 + length payload < 2 ^ 32 then Inr (be 4 (4 + length payload) @ FORMAT_TAG @ payload) else Inl Value_out_of_range)"

definition frame_inner :: "text_codec \<Rightarrow> byte list \<Rightarrow> byte list option" where
  "frame_inner c payload = (case tc_parse c payload of
     Some (JArray [JArray [JString t, JNumber n], JString b]) \<Rightarrow>
       if t = ''Uint8Array'' \<and> n = 1 then Some (tc_unbase64 c b) else None
   | _ \<Rightarrow> None)"

text \<open>The loop from an offset, on the bytes that follow it.\<close>

function frames_from :: "text_codec \<Rightarrow> byte list \<Rightarrow> compaction_error + byte list list option" where
  "frames_from c rest =
     (if rest = [] then Inr (Some [])
      else if length rest < 8 then Inr None
      else let len = readUIntBE (take 4 rest) in
        if len < 4 \<or> length rest < 4 + len then Inr None
        else if take 4 (drop 4 rest) \<noteq> FORMAT_TAG then Inr None
        else (case frame_inner c (take (len - 4) (drop 8 rest)) of
            None \<Rightarrow> Inr None
          | Some inner \<Rightarrow> bindE (encodeFrame c inner) (\<lambda>frame.
              if frame \<noteq> take (4 + len) rest then Inr None
              else bindE (frames_from c (drop (4 + len) rest)) (\<lambda>frames. Inr (map_option ((#) inner) frames)))))"
  by pat_completeness auto
termination
  by (relation "measure (\<lambda>(c, rest). length rest)") auto

declare frames_from.simps [simp del]

definition parseFrames :: "text_codec \<Rightarrow> byte list \<Rightarrow> compaction_error + byte list list option" where
  "parseFrames c chunk = bindE (frames_from c chunk) (\<lambda>frames. Inr (if frames = Some [] then None else frames))"

section \<open>Events\<close>

type_synonym appended_event = "(string \<times> json) list"

definition encodeEventLine :: "text_codec \<Rightarrow> appended_event \<Rightarrow> byte list" where
  "encodeEventLine c event = tc_stringify c (JObject event) @ [10]"

definition parseEventLine :: "text_codec \<Rightarrow> byte list \<Rightarrow> appended_event option" where
  "parseEventLine c inner =
     (if inner = [] \<or> last inner \<noteq> 10 then None
      else let body = butlast inner in
        if 10 \<in> set body then None
        else (case tc_parse c body of
            Some (JObject event) \<Rightarrow>
              (case (map_of event ''type'', map_of event ''data'') of
                 (Some (JString t), Some (JObject kvs)) \<Rightarrow> if encodeEventLine c event = inner then Some event else None
               | (Some (JString t), Some (JArray vs)) \<Rightarrow> if encodeEventLine c event = inner then Some event else None
               | _ \<Rightarrow> None)
          | _ \<Rightarrow> None))"

text \<open>
  The table \<open>SNAPSHOT_FIELDS\<close> is an object literal, so the names of \<open>Object.prototype\<close> are found in it too. What they
  give has no \<open>deltaKey\<close> and no \<open>soFarKey\<close>: the lookups in the data then use the name \<open>undefined\<close>, and no key equals
  the missing one. The last part is the key that is left out.
\<close>

definition SNAPSHOT_FIELDS :: "string \<Rightarrow> (string \<times> string \<times> string option) option" where
  "SNAPSHOT_FIELDS t =
     (if t = ''message.appended'' then Some (''messageDelta'', ''messageSoFar'', Some ''messageSoFar'')
      else if t = ''reasoning.appended'' then Some (''reasoningDelta'', ''reasoningSoFar'', Some ''reasoningSoFar'')
      else if t \<in> set object_prototype then Some (''undefined'', ''undefined'', None)
      else None)"

text \<open>Assigning to \<open>__proto__\<close> sets the prototype, so a property of that name is lost.\<close>

definition withoutSnapshot :: "(string \<times> json) list \<Rightarrow> string option \<Rightarrow> (string \<times> json) list" where
  "withoutSnapshot kvs soFarKey = filter (\<lambda>(k, v). Some k \<noteq> soFarKey \<and> k \<noteq> ''__proto__'') kvs"

definition is_string :: "json option \<Rightarrow> bool" where
  "is_string v \<longleftrightarrow> (case v of Some (JString s) \<Rightarrow> True | _ \<Rightarrow> False)"

definition with_data :: "json \<Rightarrow> appended_event \<Rightarrow> appended_event" where
  "with_data d event = map (\<lambda>(k, v). (k, if k = ''data'' then d else v)) event"

definition event_fields :: "appended_event \<Rightarrow> (string \<times> string \<times> string option) option" where
  "event_fields event = (case map_of event ''type'' of Some (JString t) \<Rightarrow> SNAPSHOT_FIELDS t | _ \<Rightarrow> None)"

text \<open>The callback of \<open>frames.map\<close>; \<open>None\<close> when it leaves \<open>changed\<close> alone.\<close>

definition stripped :: "text_codec \<Rightarrow> byte list \<Rightarrow> byte list option" where
  "stripped c inner = (case parseEventLine c inner of None \<Rightarrow> None
     | Some event \<Rightarrow> (case (event_fields event, map_of event ''data'') of
         (Some (deltaKey, soFarKey, dropped), Some (JObject kvs)) \<Rightarrow>
           if is_string (map_of kvs deltaKey) \<and> is_string (map_of kvs soFarKey)
           then Some (encodeEventLine c (with_data (JObject (withoutSnapshot kvs dropped)) event)) else None
       | _ \<Rightarrow> None))"

definition rebuilt :: "text_codec \<Rightarrow> byte list \<Rightarrow> byte list" where
  "rebuilt c inner = (case stripped c inner of None \<Rightarrow> inner | Some line \<Rightarrow> line)"

fun mapE :: "('a \<Rightarrow> 'e + 'b) \<Rightarrow> 'a list \<Rightarrow> 'e + 'b list" where
  "mapE f [] = Inr []"
| "mapE f (x # xs) = bindE (f x) (\<lambda>y. bindE (mapE f xs) (\<lambda>ys. Inr (y # ys)))"

definition compactStreamChunk :: "text_codec \<Rightarrow> byte list \<Rightarrow> compaction_error + byte list" where
  "compactStreamChunk c chunk = bindE (parseFrames c chunk) (\<lambda>frames. case frames of
     None \<Rightarrow> Inr chunk
   | Some inners \<Rightarrow> if list_ex (\<lambda>inner. stripped c inner \<noteq> None) inners
       then bindE (mapE (encodeFrame c) (map (rebuilt c) inners)) (\<lambda>fs. Inr (concat fs)) else Inr chunk)"

section \<open>Frames are read back\<close>

lemma frames_exact:
  "frames_from c rest = Inr (Some inners) \<Longrightarrow> \<exists>fs. mapE (encodeFrame c) inners = Inr fs \<and> concat fs = rest"
proof (induction c rest arbitrary: inners rule: frames_from.induct)
  case (1 c rest)
  show ?case
  proof (cases "rest = []")
    case True
    with 1(2) show ?thesis by (simp add: frames_from.simps [of c "[]"])
  next
    case False
    define len where "len = readUIntBE (take 4 rest)"
    from 1(2) False obtain inner more where step: "length rest \<ge> 8" "\<not> len < 4" "\<not> length rest < 4 + len"
        "take 4 (drop 4 rest) = FORMAT_TAG" "frame_inner c (take (len - 4) (drop 8 rest)) = Some inner"
        "encodeFrame c inner = Inr (take (4 + len) rest)"
        "frames_from c (drop (4 + len) rest) = Inr (Some more)" "inners = inner # more"
      by (auto simp: frames_from.simps [of c rest] Let_def len_def split: if_splits option.splits)
    have "\<exists>fs. mapE (encodeFrame c) more = Inr fs \<and> concat fs = drop (4 + len) rest"
      using 1(1) [OF False _ len_def _ _ step(5)] step by auto
    with step show ?thesis by auto
  qed
qed


lemma json_ok_frame: "codec_laws c \<Longrightarrow> json_ok (tc_number c) (frame_json c inner)"
  by (simp add: frame_json_def codec_laws_def)

lemma frame_read_back:
  assumes laws: "codec_laws c" and frame: "encodeFrame c inner = Inr frame"
  shows "frames_from c (frame @ rest) = bindE (frames_from c rest) (\<lambda>frames. Inr (map_option ((#) inner) frames))"
proof -
  define payload where "payload = tc_stringify c (frame_json c inner)"
  have f: "frame = be 4 (4 + length payload) @ FORMAT_TAG @ payload" and len: "4 + length payload < 2 ^ 32"
    using frame by (auto simp: encodeFrame_def payload_def Let_def split: if_splits)
  have tag: "length FORMAT_TAG = 4" by (simp add: FORMAT_TAG_def)
  have "readUIntBE (take 4 (frame @ rest)) = 4 + length payload"
    using len by (simp add: f)
  moreover have "tc_parse c payload = Some (frame_json c inner)"
    using laws json_ok_frame [OF laws] by (simp add: codec_laws_def payload_def)
  then have "frame_inner c payload = Some inner"
    using laws by (simp add: frame_inner_def frame_json_def codec_laws_def)
  moreover have "take (4 + (4 + length payload)) (frame @ rest) = frame" "drop (4 + (4 + length payload)) (frame @ rest) = rest"
    by (simp_all add: f tag)
  moreover have "take (4 + length payload - 4) (drop 8 (frame @ rest)) = payload" "take 4 (drop 4 (frame @ rest)) = FORMAT_TAG"
    by (simp_all add: f tag)
  moreover have "length (frame @ rest) \<ge> 8 + length payload" "frame \<noteq> []" by (auto simp: f FORMAT_TAG_def bytes_of_def)
  ultimately show ?thesis
    by (subst frames_from.simps) (simp add: frame Let_def)
qed

lemma frames_read_back:
  assumes "codec_laws c"
  shows "mapE (encodeFrame c) inners = Inr fs \<Longrightarrow> frames_from c (concat fs) = Inr (Some inners)"
proof (induction inners arbitrary: fs)
  case Nil
  then show ?case by (simp add: frames_from.simps [of c "[]"])
next
  case (Cons inner inners)
  then show ?case by (auto simp: frame_read_back [OF assms])
qed

section \<open>Stripping\<close>

lemma json_ok_without:
  "json_ok (tc_number c) (JObject kvs) \<Longrightarrow> json_ok (tc_number c) (JObject (withoutSnapshot kvs dropped))"
  by (auto simp: withoutSnapshot_def sorted_wrt_map intro: sorted_wrt_filter)

lemma json_ok_with_data:
  "json_ok (tc_number c) (JObject event) \<Longrightarrow> json_ok (tc_number c) d \<Longrightarrow> json_ok (tc_number c) (JObject (with_data d event))"
  by (auto simp: with_data_def o_def case_prod_beta)

lemma map_of_with_data:
  "map_of (with_data d event) k = (if k = ''data'' \<and> map_of event k \<noteq> None then Some d else map_of event k)"
  by (induction event) (auto simp: with_data_def)

lemma json_ok_field: "json_ok (tc_number c) (JObject event) \<Longrightarrow> map_of event k = Some v \<Longrightarrow> json_ok (tc_number c) v"
  by (force dest: map_of_SomeD)

lemma with_data_with_data [simp]: "with_data d (with_data e event) = with_data d event"
  by (simp add: with_data_def o_def case_prod_beta if_distrib cong: if_cong)

lemma parse_event_line:
  assumes "codec_laws c" and "json_ok (tc_number c) (JObject event)" and "map_of event ''type'' = Some (JString t)"
    and "map_of event ''data'' = Some (JObject kvs)"
  shows "parseEventLine c (encodeEventLine c event) = Some event"
  using assms by (simp add: parseEventLine_def encodeEventLine_def codec_laws_def del: json_ok.simps)

lemma event_line_exact:
  assumes "codec_laws c" and "parseEventLine c inner = Some event"
  shows "inner = encodeEventLine c event \<and> json_ok (tc_number c) (JObject event) \<and> (\<exists>t. map_of event ''type'' = Some (JString t))"
  using assms by (auto simp: parseEventLine_def codec_laws_def Let_def simp del: json_ok.simps
      split: if_splits option.splits json.splits)

text \<open>The reference: the event whose data lacks the snapshot.\<close>

lemma stripped_Some:
  assumes laws: "codec_laws c" and "stripped c inner = Some line"
  obtains event kvs t dk sk dropped where "inner = encodeEventLine c event" "json_ok (tc_number c) (JObject event)"
    "map_of event ''type'' = Some (JString t)" "SNAPSHOT_FIELDS t = Some (dk, sk, dropped)" "map_of event ''data'' = Some (JObject kvs)"
    "is_string (map_of kvs dk)" "is_string (map_of kvs sk)"
    "line = encodeEventLine c (with_data (JObject (withoutSnapshot kvs dropped)) event)"
proof -
  from assms(2) obtain event where e: "parseEventLine c inner = Some event" by (auto simp: stripped_def split: option.splits)
  with event_line_exact [OF laws e] assms(2) show ?thesis
    by (auto simp: stripped_def event_fields_def simp del: json_ok.simps split: option.splits json.splits prod.splits if_splits intro: that)
qed

lemma map_of_without:
  "map_of (withoutSnapshot kvs dropped) k = (if Some k = dropped \<or> k = ''__proto__'' then None else map_of kvs k)"
  by (induction kvs) (auto simp: withoutSnapshot_def)

lemma snapshot_dropped:
  "SNAPSHOT_FIELDS t = Some (dk, sk, dropped) \<Longrightarrow> dropped = Some sk \<or> dropped = None"
  by (auto simp: SNAPSHOT_FIELDS_def split: if_splits)

lemma rebuilt_idem:
  assumes laws: "codec_laws c"
  shows "rebuilt c (rebuilt c inner) = rebuilt c inner"
proof (cases "stripped c inner")
  case None
  then show ?thesis by (simp add: rebuilt_def)
next
  case (Some line)
  from laws Some obtain event kvs t dk sk dropped where e: "inner = encodeEventLine c event" "json_ok (tc_number c) (JObject event)"
    "map_of event ''type'' = Some (JString t)" "SNAPSHOT_FIELDS t = Some (dk, sk, dropped)" "map_of event ''data'' = Some (JObject kvs)"
    "is_string (map_of kvs dk)" "is_string (map_of kvs sk)"
    "line = encodeEventLine c (with_data (JObject (withoutSnapshot kvs dropped)) event)" by (rule stripped_Some)
  let ?event = "with_data (JObject (withoutSnapshot kvs dropped)) event"
  have ok: "json_ok (tc_number c) (JObject ?event)"
    using e(2) json_ok_field [OF e(2,5)] by (intro json_ok_with_data json_ok_without)
  have "parseEventLine c line = Some ?event"
    unfolding e(8) by (rule parse_event_line [OF laws ok]) (use e in \<open>auto simp: map_of_with_data\<close>)
  then have "stripped c line = None \<or> stripped c line = Some line"
    using e snapshot_dropped [OF e(4)]
    by (auto simp: stripped_def event_fields_def map_of_with_data map_of_without is_string_def withoutSnapshot_def)
  with Some show ?thesis by (auto simp: rebuilt_def)
qed


lemma stripped_none: "\<not> list_ex (\<lambda>inner. stripped c inner \<noteq> None) inners \<Longrightarrow> map (rebuilt c) inners = inners"
  by (auto simp: list_ex_iff rebuilt_def intro: map_idI)

text \<open>
  C17. Compaction of a chunk that is no sequence of eve's frames returns the chunk, byte for byte. Otherwise the chunk is
  exactly the encoding of its frames, the result reads back as the same frames in the same order, each either
  unchanged or an append event whose data lacks its cumulative text (and a property named \<open>__proto__\<close>), and
  compacting the result again changes nothing.
\<close>

theorem compaction_drops_snapshots_only:
  assumes laws: "codec_laws c" and out: "compactStreamChunk c chunk = Inr out"
  shows "(parseFrames c chunk = Inr None \<longrightarrow> out = chunk) \<and>
    (\<forall>inners. parseFrames c chunk = Inr (Some inners) \<longrightarrow>
       (\<exists>fs. mapE (encodeFrame c) inners = Inr fs \<and> concat fs = chunk) \<and>
       parseFrames c out = Inr (Some (map (rebuilt c) inners))) \<and>
    (\<forall>inner. rebuilt c inner = inner \<or> (\<exists>event t dk sk dropped kvs.
       inner = encodeEventLine c event \<and> map_of event ''type'' = Some (JString t) \<and> SNAPSHOT_FIELDS t = Some (dk, sk, dropped) \<and>
       map_of event ''data'' = Some (JObject kvs) \<and>
       rebuilt c inner = encodeEventLine c (with_data (JObject (withoutSnapshot kvs dropped)) event))) \<and>
    compactStreamChunk c out = Inr out"
proof -
  from out obtain frames where frames: "parseFrames c chunk = Inr frames" by (auto simp: compactStreamChunk_def)
  have lines: "rebuilt c inner = inner \<or> (\<exists>event t dk sk dropped kvs.
       inner = encodeEventLine c event \<and> map_of event ''type'' = Some (JString t) \<and> SNAPSHOT_FIELDS t = Some (dk, sk, dropped) \<and>
       map_of event ''data'' = Some (JObject kvs) \<and>
       rebuilt c inner = encodeEventLine c (with_data (JObject (withoutSnapshot kvs dropped)) event))" for inner
    by (cases "stripped c inner") (auto simp: rebuilt_def elim!: stripped_Some [OF laws])
  show ?thesis
  proof (cases frames)
    case None
    with frames out lines show ?thesis by (auto simp: compactStreamChunk_def)
  next
    case (Some inners)
    then have inners: "inners \<noteq> []" "frames_from c chunk = Inr (Some inners)"
      using frames by (auto simp: parseFrames_def split: if_splits)
    obtain fs where fs: "mapE (encodeFrame c) inners = Inr fs" "concat fs = chunk" using frames_exact [OF inners(2)] by blast
    have "\<exists>gs. mapE (encodeFrame c) (map (rebuilt c) inners) = Inr gs \<and> concat gs = out"
    proof (cases "list_ex (\<lambda>inner. stripped c inner \<noteq> None) inners")
      case True
      with out frames Some show ?thesis by (auto simp: compactStreamChunk_def)
    next
      case False
      with out frames Some fs stripped_none [OF False] show ?thesis by (auto simp: compactStreamChunk_def)
    qed
    then obtain gs where gs: "mapE (encodeFrame c) (map (rebuilt c) inners) = Inr gs" "concat gs = out" by blast
    have parsed: "parseFrames c out = Inr (Some (map (rebuilt c) inners))"
      using frames_read_back [OF laws gs(1)] gs(2) inners(1) by (simp add: parseFrames_def)
    have "compactStreamChunk c out = Inr out"
      using gs by (simp add: compactStreamChunk_def parsed o_def rebuilt_idem [OF laws])
    with frames Some parsed fs lines show ?thesis by auto
  qed
qed


section \<open>A concrete codec\<close>

definition plain_codec :: text_codec where
  "plain_codec = \<lparr>tc_parse = (\<lambda>b. case read_value (length b) (text_of b) of
       Some (v, []) \<Rightarrow> if json_ok whole v then Some v else None | _ \<Rightarrow> None),
     tc_stringify = (\<lambda>v. bytes_of (show_json v)), tc_base64 = hex, tc_unbase64 = unhex, tc_number = whole\<rparr>"

lemma json_ok_whole: "json_ok whole v \<Longrightarrow> whole_numbers v"
  by (induction v) auto

lemma newline_bytes: "CHR 0x0A \<notin> set s \<Longrightarrow> 10 \<notin> set (bytes_of s)"
proof
  assume "CHR 0x0A \<notin> set s" and "10 \<in> set (bytes_of s)"
  from this(2) have "char_of (unat (10 :: byte)) \<in> set (text_of (bytes_of s))" unfolding text_of_def set_map by (rule imageI)
  moreover have "char_of (10 :: nat) = CHR 0x0A"
    using char_of_char [of "CHR 0x0A", where ?'a = nat] by simp
  ultimately show False using \<open>CHR 0x0A \<notin> set s\<close> by simp
qed

lemma plain_codec_laws: "codec_laws plain_codec"
proof -
  have "read_value (length (show_json v)) (show_json v) = Some (v, [])" if "json_ok whole v" for v
    using read_back [OF json_ok_whole [OF that], of "[]"] by simp
  moreover have "json_ok whole v" if "tc_parse plain_codec b = Some v" for b v
    using that by (auto simp: plain_codec_def split: option.splits list.splits if_splits)
  ultimately show ?thesis
    by (auto simp: codec_laws_def plain_codec_def whole_def newline_bytes newline_show_json)
qed

definition demo_event :: appended_event where
  "demo_event = [(''data'', JObject [(''messageDelta'', JString ''b''), (''messageSoFar'', JString ''ab'')]),
     (''type'', JString ''message.appended'')]"

definition demo_compacted :: appended_event where
  "demo_compacted = [(''data'', JObject [(''messageDelta'', JString ''b'')]), (''type'', JString ''message.appended'')]"

lemma length_show_string: "length (show_string s) \<le> 6 * length s + 2"
proof -
  have "length (show_char ch) \<le> 6" for ch by (simp add: show_char_def hex_byte_def)
  then have "length (concat (map show_char s)) \<le> 6 * length s" by (induction s) (auto simp: add_mono)
  then show ?thesis by (simp add: show_string_def)
qed

lemma length_hex: "length (hex bs) = 2 * length bs"
  by (induction bs) (simp_all add: hex_def hex_byte_def)

lemma plain_frame_fits: "length inner < 1000 \<Longrightarrow> \<exists>frame. encodeFrame plain_codec inner = Inr frame"
  using length_show_string [of "hex inner"] length_show_string [of "''Uint8Array''"] length_dec_le [of 1 1]
  by (simp add: encodeFrame_def frame_json_def plain_codec_def Let_def length_hex)

lemma plain_frames_fit: "\<forall>inner \<in> set inners. length inner < 1000 \<Longrightarrow> \<exists>fs. mapE (encodeFrame plain_codec) inners = Inr fs"
proof (induction inners)
  case (Cons inner inners)
  with plain_frame_fits [of inner] show ?case by auto
qed simp

lemma demo_lines_fit: "length (encodeEventLine plain_codec demo_event) < 1000" "length (encodeEventLine plain_codec demo_compacted) < 1000"
  using length_show_string [of "''data''"] length_show_string [of "''messageDelta''"] length_show_string [of "''messageSoFar''"]
    length_show_string [of "''b''"] length_show_string [of "''ab''"] length_show_string [of "''type''"]
    length_show_string [of "''message.appended''"]
  by (simp_all add: encodeEventLine_def plain_codec_def demo_event_def demo_compacted_def)

lemma demo_stripped: "stripped plain_codec (encodeEventLine plain_codec demo_event) = Some (encodeEventLine plain_codec demo_compacted)"
proof -
  have ok: "json_ok (tc_number plain_codec) (JObject demo_event)"
    by (simp add: demo_event_def plain_codec_def key_before_def index_key_def undec_def char_digit_def)
  have "parseEventLine plain_codec (encodeEventLine plain_codec demo_event) = Some demo_event"
    by (rule parse_event_line [OF plain_codec_laws ok]) (auto simp: demo_event_def)
  then show ?thesis
    by (simp add: stripped_def event_fields_def demo_event_def demo_compacted_def SNAPSHOT_FIELDS_def is_string_def
        with_data_def withoutSnapshot_def)
qed

lemma compaction_drops_snapshots_only_witness:
  "\<exists>chunk out. compactStreamChunk plain_codec chunk = Inr out \<and>
     parseFrames plain_codec chunk = Inr (Some [[120], encodeEventLine plain_codec demo_event]) \<and>
     parseFrames plain_codec out = Inr (Some [[120], encodeEventLine plain_codec demo_compacted]) \<and>
     compactStreamChunk plain_codec out = Inr out"
proof -
  let ?inners = "[[120], encodeEventLine plain_codec demo_event]"
  have other: "stripped plain_codec [120] = None" by (simp add: stripped_def parseEventLine_def)
  have rebuilt: "map (rebuilt plain_codec) ?inners = [[120], encodeEventLine plain_codec demo_compacted]"
    by (simp add: rebuilt_def other demo_stripped)
  obtain fs gs where fs: "mapE (encodeFrame plain_codec) ?inners = Inr fs"
      and gs: "mapE (encodeFrame plain_codec) (map (rebuilt plain_codec) ?inners) = Inr gs"
    using plain_frames_fit [of ?inners] plain_frames_fit [of "map (rebuilt plain_codec) ?inners"] demo_lines_fit
    by (auto simp: rebuilt simp del: mapE.simps list.map)
  have frames: "parseFrames plain_codec (concat fs) = Inr (Some ?inners)"
    using frames_read_back [OF plain_codec_laws fs] by (simp add: parseFrames_def)
  then have "compactStreamChunk plain_codec (concat fs) = Inr (concat gs)"
    using gs by (simp add: compactStreamChunk_def demo_stripped del: mapE.simps)
  with compaction_drops_snapshots_only [OF plain_codec_laws this] frames rebuilt show ?thesis by metis
qed

text \<open>A property named \<open>__proto__\<close> of the data goes with the snapshot.\<close>

lemma proto_property_lost:
  "withoutSnapshot [(''__proto__'', JNull), (''messageDelta'', JString ''b''), (''messageSoFar'', JString ''ab'')] (Some ''messageSoFar'') =
     [(''messageDelta'', JString ''b'')]"
  by (simp add: withoutSnapshot_def)

end
