(* ===== verification/Spec2Isabelle.thy ===== *)
theory Spec2Isabelle
  imports Log_Invariant Keys Evolution Isolation Journal Evaluate Fence Handlers Step_Wait Hook_Spec
    Admission Stream_Reader Stream_Maintenance Host_Examples Ownership Read_Examples
    Maintenance Service Backfill Migration Provisioning Queue_Lifecycle Timer_Sweep
    World_Setup Compaction
begin

text \<open>
  \<^bold>\<open>A verification of \<open>@evelandhq/workflow-world\<close>.\<close>

  The program is a multi-tenant backend for durable workflows over PostgreSQL. Deployments append
  events to their runs' logs and read and write streams; a queue on graphile-worker carries the
  messages that make a run go on; a dispatcher on the host claims those messages, wakes the
  deployment a run belongs to and posts to it; sweeps settle, recover and prune runs. This
  development models those parts in Isabelle definitions, one group per source file, and proves
  what makes them correct.

  \<^bold>\<open>Method.\<close> Asynchronous code is a \<open>prog\<close> (theory \<open>Prog\<close>): it returns, throws, or performs one
  atomic SQL statement on the shared tables and goes on. A drizzle transaction is one statement
  that rolls back on an error. \<open>run\<close> executes a program alone; \<open>pool_step\<close> interleaves any number
  of them, with a rely-guarantee rule (\<open>safe\<close>, locale \<open>state_order\<close>) for what every interleaving
  keeps. Tables are lists of rows (records), errors are values, times are milliseconds, JavaScript
  numbers that can be fractions are rationals, words appear where the code works on 32 bits.
  \<open>Prelude\<close> holds the SQL operations on tables and the fact collections.

  \<^bold>\<open>Event storage\<close> (\<open>src/storage.ts\<close>, \<open>src/start-hook.ts\<close>, \<open>src/run-retention-policy.ts\<close>,
  \<open>src/run-retention-resolution.ts\<close>, \<open>src/delivery-liveness.ts\<close>, \<open>src/tenant.ts\<close>,
  \<open>src/drizzle/schema.ts\<close>).
  \<^item> \<open>Schema\<close>: the rows of the tables, the event request, the error classes.
  \<^item> \<open>Slots\<close>: names and tenant ids, slot allocation and the event insert, the in-band fence.
  \<^item> \<open>Retention_Policy\<close>, \<open>Start_Hook\<close>: retention classes and lineage; the start-Hook admission ledger.
  \<^item> \<open>Create_Run\<close>, \<open>Create_Entity\<close>, \<open>Create_Hook\<close>, \<open>Create\<close>: the handlers of \<open>events.create\<close> in the
    order of the code, and the function that composes them, with validation and the fence.
  \<^item> \<open>Guarantee\<close>, \<open>Log_Invariant\<close>, \<open>Keys\<close>, \<open>Evolution\<close>, \<open>Isolation\<close>, \<open>Journal\<close>: what every
    interleaving of \<open>create\<close> calls keeps (dense logs, one creation event, unique claims, terminal
    steps, tenant isolation, provenance); the theorems are stated in this root theory.
  \<^item> \<open>Fence\<close>, \<open>Handlers\<close>, \<open>Step_Wait\<close>, \<open>Hook_Spec\<close>, \<open>Admission\<close>: the effect of single calls on
    every branch, errors included. \<open>Evaluate\<close>: how concrete calls are evaluated.
  \<^item> \<open>Reads\<close>: runs, events, hooks and steps as they are read, alone, in batches and in pages (the
    contract of \<open>Paging\<close>), and the event list with its snapshot among concurrent writers.
    \<open>Read_Examples\<close> applies its theorems.
  The slot retry loop has fuel 41, one more than the attempts the code makes, and the forced
  takeover six; both count what the code counts, and running out of either is the code's own error.

  \<^bold>\<open>Streams\<close> (\<open>src/streamer.ts\<close>, \<open>src/stream-blocks.ts\<close>, \<open>src/stream-block-maintenance.ts\<close>,
  \<open>src/stream-compaction.ts\<close>). \<open>Stream_Blocks\<close> is the byte format; \<open>Store\<close> adds the stream tables, deadlines and locks to the
  state; \<open>Paging\<close> is the contract of a cursor-paged reader (a locale); \<open>Streamer\<close>, \<open>Stream_Spec\<close>
  and \<open>Stream_Reader\<close> are the operations, their refinement of an abstract stream of chunks, and the
  live reader; \<open>Stream_Maintenance\<close> is the repacking of closed streams. \<open>Compaction\<close> drops the cumulative text
  of append events from a chunk, over any codec of JSON text that keeps \<open>codec_laws\<close>; \<open>Json_Text\<close> is one. Packing takes
  the compaction of a chunk as a function.

  \<^bold>\<open>Retention\<close> (\<open>src/retention.ts\<close>, \<open>src/storage-maintenance.ts\<close>, \<open>src/retention-backfill.ts\<close>): \<open>Retention\<close> is the
  batches under the advisory lock, \<open>Maintenance\<close> the round that packs and prunes, whichever part fails, and its
  loop. \<open>Backfill\<close> evaluates the recursive query over run graphs in rounds, with one round more than there are pairs of
  runs as fuel, shows it to be the least set the query describes, and that repeated batches converge.

  \<^bold>\<open>Migrations\<close> (\<open>src/migrate.ts\<close>): \<open>Migration\<close> is the runner as a state machine of concurrent processes, \<open>Provisioning\<close> the
  partitions of a tenant and their removal.

  \<^bold>\<open>Queue\<close> (\<open>src/message.ts\<close>, \<open>src/dispatch-contract.ts\<close>, \<open>src/inflight.ts\<close>, \<open>src/timers.ts\<close>,
  \<open>src/queue.ts\<close>).
  \<^item> \<open>Recency\<close>: JavaScript's insertion-ordered sets and maps, and the locale of a bounded cache.
  \<^item> \<open>Dispatch_Contract\<close>: messages, run queues, flags, versions, the secret, delivery accounting.
    \<open>Delivery\<close>: histories of one message and what its counters say.
  \<^item> \<open>Host\<close>: the dead letters, graphile's private tables and the calls of its \<open>addJob\<close>.
    \<open>Timers\<close>: delayed deliveries and the sweep.
  \<^item> \<open>Task_Pool\<close>: promises chained per key. \<open>Queue\<close>, \<open>Queue_Spec\<close>: sending, the authenticated inbound
    handler, the embedded runner and its serialization. \<open>Recovery\<close> (\<open>src/recovery.ts\<close>, \<open>start\<close> of
    \<open>src/index.ts\<close>): an embedded World that starts enqueues its tenant's active runs, page by page.
  \<^item> \<open>Queue_Lifecycle\<close>: starting, deferring and closing the embedded runner, as a state machine with one
    event per stretch of code between two awaits; its invariant, and a rank that bounds what a close still
    waits for. \<open>Timer_Sweep\<close>: the two callers of the sweep. \<open>World_Setup\<close> (\<open>src/index.ts\<close>): the settings of a
    World, how they resolve, and its close.

  \<^bold>\<open>Dispatcher\<close> (\<open>src/dispatcher/\<close>, \<open>src/reconciliation.ts\<close>).
  \<^item> \<open>Lease\<close>: the renewal of an activation lease. \<open>Dispatcher\<close>: routing, the post, failure streaks,
    fairness, deduplication and the job handler. \<open>Dispatcher_Spec\<close>, \<open>Containment\<close>: its properties.
  \<^item> \<open>Reconciliation\<close>: settlement and quarantine of runs by the host. \<open>Boot_Recovery\<close>: the sweep after
    a dispatcher died. \<open>Ownership\<close>: the singleton lock, its heartbeat and release. \<open>Addressing\<close>: the form of
    every job any component hands to graphile, under every interleaving.
  \<^item> \<open>Configuration\<close> (\<open>src/config.ts\<close>, \<open>src/dispatcher/config.ts\<close>, \<open>secrets.ts\<close>): what a configuration that
    resolves promises the lease and the lock. \<open>Activation\<close>: the clients that wake a deployment, over HTTP
    or from a static table, as interpretations of one contract. \<open>Service\<close> (\<open>src/dispatcher/service.ts\<close>): start,
    failed start, loss of the lock and stop, with a small calculus of weakest preconditions.
  \<^item> \<open>Dispatch_Examples\<close>, \<open>Host_Examples\<close>: concrete states at which the theorems are applied.

  \<^bold>\<open>Parameters.\<close> The packages the code calls are arguments: \<open>world_sdk\<close> and \<open>queue_sdk\<close> for
  \<open>@workflow/world\<close> (with \<open>terminal_laws\<close>, \<open>slot_laws\<close>, \<open>message_laws\<close>), graphile's \<open>addJob\<close> as a
  recorded call that may be refused (\<open>accepts\<close>), \<open>forceUnlockWorkers\<close> with \<open>unlock_laws\<close>, the HTTP
  client and the control plane as functions, the parser of URLs as a function, \<open>JSON.parse\<close> by taking
  bodies as JSON values (and as \<open>text_codec\<close> where text matters), \<open>parseQueueName\<close> on the default prefix with \<open>bare_laws\<close>; the calls of the service into
  graphile, the migrations and the host's callbacks are actions that fail where a parameter says; so does the
  insert of a dead letter, and the promise a delivery joins settles as a parameter says. Every
  property with such a hypothesis is applied at a concrete instance.

  \<^bold>\<open>Choices.\<close> \<open>ORDER BY\<close> on text is the order of character codes. Results of \<open>create\<close> carry the rows,
  not their deserialised form. The trigger that resolves dead letters runs in the model where dead
  letters are part of the state (\<open>Reconciliation\<close>). Log lines and telemetry are left out.

  \<^bold>\<open>Not modelled.\<close> The construction of the components, the command line and
  telemetry (glue with no state of its own); the LISTEN connection and graphile's worker
  pool (I/O); the text of JSON bodies outside stream chunks.
\<close>

section \<open>Any number of create calls at once\<close>

text \<open>The call and the execution the witnesses below use: one call, run alone.\<close>

definition example_start :: event_req where
  "example_start = \<lparr>rq_eventType = Run_created, rq_correlationId = None, rq_specVersion = Some 8,
     rq_eventData = Some (no_data\<lparr>ed_deploymentId := Some ''d'', ed_workflowName := Some ''w''\<rparr>)\<rparr>"

definition example_calls :: "call list" where
  "example_calls = [(example_ctx, Some ''wrun_1'', example_start, no_params)]"

definition example_done :: "st \<times> event_result io list" where
  "example_done = (let x = run (create example_ctx (Some ''wrun_1'') example_start no_params) empty_st
     in (snd x, [finished (fst x)]))"

lemma example_pool: "pool_steps environment (empty_st, pool_of example_calls) (fst example_done, snd example_done)"
  using pool_run by (simp add: pool_of_def example_calls_def example_done_def Let_def)

lemma example_same_world: "same_world example_sdk example_calls"
  by (simp add: same_world_def example_calls_def)

lemma example_done_tables:
  "map e_eventId (events (fst example_done)) = [''evnt_0001'']"
  "map (\<lambda>x. (r_tenantId x, r_runId x, r_status x)) (runs (fst example_done)) = [(''t'', ''wrun_1'', Run_pending)]"
  "slotted ''t'' ''wrun_1'' (fst example_done)"
  "run_ids ''t'' ''wrun_1'' (fst example_done) = [''evnt_0001'']"
  by (simp_all add: example_done_def example_start_def eval_simps cong: lazy split del: if_split)

lemma empty_invariants: "log_inv W empty_st" "key_inv W empty_st" "journaled empty_st"
  by (simp_all add: log_inv_def key_inv_def journaled_def empty_st_def slotted_def run_ids_def
      has_row_def events_ok_def hooks_ok_def)

text \<open>Two calls on one run, statement by statement in turn: both read the same next slot.\<close>

definition example_racers :: "call list" where
  "example_racers = [(example_ctx, Some ''wrun_1'', example_req Wait_created (Some ''w2''), no_params),
     (example_ctx, Some ''wrun_1'', example_req Wait_created (Some ''w3''), no_params)]"

definition example_race :: "st \<times> event_result io list" where
  "example_race = pool_exec [0, 1, 0, 1, 0, 1, 0, 1, 0, 1, 0, 1, 0, 1, 0, 1, 1, 1]
     (example_st Run_running Step_pending, pool_of example_racers)"

lemma example_race_pool:
  "pool_steps environment (example_st Run_running Step_pending, pool_of example_racers)
     (fst example_race, snd example_race)"
  unfolding example_race_def prod.collapse by (rule pool_exec_steps)

lemma example_st_numbered:
  "log_inv example_sdk (example_st x y)" "numbered example_sdk ''t'' ''wrun_1'' (example_st x y)"
proof -
  have ids: "run_ids t r (example_st x y) = (if t = ''t'' \<and> r = ''wrun_1'' then [''evnt_0001''] else [])" for t r
    by (auto simp: example_defs run_ids_def of_run_def)
  have sl: "slotted t r (example_st x y) \<longleftrightarrow> t = ''t'' \<and> r = ''wrun_1''" for t r
    by (auto simp: example_defs slotted_def table_simps)
  have dense: "dense example_sdk [''evnt_0001'']"
    unfolding dense_def by (rule exI [of _ 1]) (simp add: slot_id_def example_sdk_def text_defs)
  then show "log_inv example_sdk (example_st x y)" by (simp add: log_inv_def ids sl)
  show "numbered example_sdk ''t'' ''wrun_1'' (example_st x y)"
    using dense by (simp add: numbered_def current_row_def ids sl)
      (simp add: example_defs table_simps example_sdk_def)
qed

text \<open>
  C1. However the statements of any number of \<open>create\<close> calls interleave (with each other and
  with the clock), the event log only grows, and a run that is \<open>numbered\<close> when the calls begin
  (its row is in the current format, it has a slot row, and its ids are its slots \<open>1..n\<close> in the
  order they were written) is so in every state reached: no gap, no duplicate, no other id.
  A run that gets its slot row meanwhile also holds exactly its slots \<open>1..n\<close>, unless it holds an
  id of the legacy form.
\<close>

theorem concurrent_log_dense:
  assumes "slot_laws W" and "same_world W calls" and "log_inv W s"
    and "pool_steps environment (s, pool_of calls) (s', ps)"
  shows "grows s s' \<and> (numbered W t r s \<longrightarrow> numbered W t r s') \<and>
    (slotted t r s' \<longrightarrow> dense W (run_ids t r s') \<or> orphaned (run_ids t r s') \<and> \<not> numbered W t r s)"
proof -
  have inv: "numbered_log W {} s' \<and> grows s s'"
    using log_pool [OF assms(1,2) _ assms(4), of "{}"] assms(3) by (simp add: numbered_log_def)
  moreover have "numbered W t r s'" if "numbered W t r s"
    using log_pool [OF assms(1,2) _ assms(4), of "{(t, r)}"] assms(3) that by (simp add: numbered_log_def)
  moreover have "dense W (run_ids t r s') \<or> orphaned (run_ids t r s')" if "slotted t r s'"
    using numbered_log_log_inv inv that unfolding log_inv_def by metis
  ultimately show ?thesis by (auto simp: numbered_def)
qed

theorem concurrent_log_dense_witness:
  "numbered example_sdk ''t'' ''wrun_1'' (fst example_race) \<and>
   map e_eventId (events (fst example_race)) = [''evnt_0001'', ''evnt_0002'', ''evnt_0003'']"
proof
  have "same_world example_sdk example_racers" by (simp add: same_world_def example_racers_def)
  then show "numbered example_sdk ''t'' ''wrun_1'' (fst example_race)"
    using concurrent_log_dense [OF example_slot_laws _ example_st_numbered(1) example_race_pool] example_st_numbered(2)
    by blast
  show "map e_eventId (events (fst example_race)) = [''evnt_0001'', ''evnt_0002'', ''evnt_0003'']"
    by (simp add: example_race_def example_racers_def pool_of_def example_defs eval_simps step_simps
        cong: lazy Atomic_lazy split del: if_split)
qed

text \<open>
  C2. In every state reachable by interleaved \<open>create\<close> calls every run row has exactly one
  \<open>run_created\<close> event, which carries the id of the first slot, and a slot row: the three are
  written together or not at all.
\<close>

theorem run_created_exactly_once:
  assumes "same_world W calls" and "key_inv W s" and "journaled s"
    and "pool_steps environment (s, pool_of calls) (s', ps)" and "x \<in> set (runs s')"
  shows "slotted (r_tenantId x) (r_runId x) s' \<and>
    (\<exists>e. filter (\<lambda>e. of_run (r_tenantId x) (r_runId x) e \<and> e_eventType e = Run_created) (events s') = [e] \<and>
      e_eventId e = slotToEventId W (FIRST_EVENT_SLOT W))"
proof -
  let ?P = "\<lambda>e. of_run (r_tenantId x) (r_runId x) e \<and> e_eventType e = Run_created"
  have key: "key_inv W s'" by (rule key_pool [OF assms(1,2,4)])
  have "journaled s'" by (rule journal_pool [OF assms(3,4)])
  with assms(5) have j: "journaled_run x s'" by (simp add: journaled_def)
  then obtain e where e: "e \<in> set (events s')" "?P e" by (auto simp: journaled_run_def)
  have "distinct (filter ?P (events s'))"
    using key by (simp add: key_inv_def events_ok_def distinct_map)
  moreover have "set (filter ?P (events s')) = {e}" using e run_created_unique [OF key] by auto
  ultimately have "filter ?P (events s') = [e]"
    by (rule distinct_set_single)
  with j e key show ?thesis by (auto simp: journaled_run_def key_inv_def events_ok_def)
qed

theorem run_created_exactly_once_witness:
  "\<exists>x e. x \<in> set (runs (fst example_done)) \<and> r_runId x = ''wrun_1'' \<and>
     filter (\<lambda>e. of_run (r_tenantId x) (r_runId x) e \<and> e_eventType e = Run_created) (events (fst example_done)) = [e] \<and>
     e_eventId e = ''evnt_0001''"
proof -
  have "slotToEventId example_sdk (FIRST_EVENT_SLOT example_sdk) = ''evnt_0001''"
    by (simp add: example_sdk_def text_defs)
  moreover obtain x where "x \<in> set (runs (fst example_done))" "r_runId x = ''wrun_1''"
    using example_done_tables(2) by (auto simp: map_eq_Cons_conv)
  ultimately show ?thesis
    using run_created_exactly_once [OF example_same_world empty_invariants(2,3) example_pool, of x] by auto
qed

text \<open>
  While any number of \<open>create\<close> calls interleave, a hook token of a tenant is claimed by at
  most one hook, and an entity (a step, hook, wait or attribute write) has at most one
  correlated creation event in a run's log.
\<close>

theorem claims_and_creations_unique:
  assumes "same_world W calls" and "key_inv W s" and "pool_steps environment (s, pool_of calls) (s', ps)"
  shows "(\<forall>h \<in> set (hooks s'). \<forall>k \<in> set (hooks s'). h_claimsToken h \<and> h_claimsToken k \<and>
        h_tenantId h = h_tenantId k \<and> h_token h = h_token k \<longrightarrow> h = k) \<and>
    (\<forall>e \<in> set (events s'). \<forall>f \<in> set (events s'). dedup_type (e_eventType e) \<and> same_correlation e f \<longrightarrow> e = f)"
proof -
  have key: "key_inv W s'" by (rule key_pool [OF assms])
  then have "distinct (map claim_key (filter h_claimsToken (hooks s')))"
    "distinct (map correlation_key (filter correlated (events s')))"
    by (simp_all add: key_inv_def hooks_ok_def events_ok_def)
  then show ?thesis
    unfolding distinct_map inj_on_def
    by (auto simp: claim_key_def correlation_key_def correlated_def same_correlation_def)
qed

theorem claims_and_creations_unique_witness:
  "{(h, k). h \<in> set (hooks (fst example_done)) \<and> k \<in> set (hooks (fst example_done)) \<and> h_claimsToken h \<and>
      h_claimsToken k \<and> h_tenantId h = h_tenantId k \<and> h_token h = h_token k \<and> h \<noteq> k} = {}"
  using claims_and_creations_unique [OF example_same_world empty_invariants(2) example_pool] by blast

text \<open>
  C3. A step that reached a terminal status keeps every column, whatever \<open>create\<close> calls
  interleave; and a step is never deleted, renamed or given another input, its attempt count
  never falls, and its \<open>startedAt\<close> stays the first one.
\<close>

theorem terminal_steps_final:
  assumes "same_world W calls" and "pool_steps environment (s, pool_of calls) (s', ps)"
    and "x \<in> set (steps s)"
  shows "(s_status x \<in> set (TERMINAL_STEP_STATUSES W) \<longrightarrow> x \<in> set (steps s')) \<and>
    (\<exists>y \<in> set (steps s'). s_stepId y = s_stepId x \<and> s_stepName y = s_stepName x \<and> s_input y = s_input x \<and>
       s_attempt x \<le> s_attempt y \<and> (s_startedAt x \<noteq> None \<longrightarrow> s_startedAt y = s_startedAt x))"
proof -
  have "evolves (step_le W) (steps s) (steps s')"
    using row_pool [OF assms(1,2)] by (simp add: table_order_def)
  from evolves_row [OF this assms(3)] obtain y where y: "y \<in> set (steps s')" "step_le W x y" by blast
  with step_le_same [OF y(2)] show ?thesis by (auto simp: step_le_def)
qed

definition example_late :: "st \<times> event_result io list" where
  "example_late = (let x = run (create example_ctx (Some ''wrun_1'') (example_req Step_failed (Some ''s1'')) no_params)
       (example_st Run_running Step_completed_st) in (snd x, [finished (fst x)]))"

lemma example_late_pool:
  "pool_steps environment (example_st Run_running Step_completed_st,
     pool_of [(example_ctx, Some ''wrun_1'', example_req Step_failed (Some ''s1''), no_params)])
     (fst example_late, snd example_late)"
  using pool_run by (simp add: pool_of_def example_late_def Let_def)

theorem terminal_steps_final_witness:
  "example_step Step_completed_st \<in> set (steps (fst example_late)) \<and> snd example_late = [Throw EntityConflictError]"
proof -
  have "same_world example_sdk [(example_ctx, Some ''wrun_1'', example_req Step_failed (Some ''s1''), no_params)]"
    by (simp add: same_world_def)
  moreover have "example_step Step_completed_st \<in> set (steps (example_st Run_running Step_completed_st))"
    by (simp add: example_st_def)
  moreover have "s_status (example_step Step_completed_st) \<in> set (TERMINAL_STEP_STATUSES example_sdk)"
    by (simp add: example_step_def example_sdk_def)
  moreover have "snd example_late = [Throw EntityConflictError]"
    by (simp add: example_late_def example_defs finished_def eval_simps cong: lazy split del: if_split)
  ultimately show ?thesis using terminal_steps_final [OF _ example_late_pool] by blast
qed

text \<open>
  C5. A run keeps its provenance under every interleaving of \<open>create\<close> calls: it is never
  deleted, its deployment, workflow, input, spec version, namespace and retention class and
  root never change, it does not return to \<open>pending\<close>, and its attributes never grow past the
  cap.
\<close>

theorem run_provenance_fixed:
  assumes "same_world W calls" and "pool_steps environment (s, pool_of calls) (s', ps)"
    and "x \<in> set (runs s)"
  shows "\<exists>y \<in> set (runs s'). r_tenantId y = r_tenantId x \<and> r_runId y = r_runId x \<and>
    r_deploymentId y = r_deploymentId x \<and> r_workflowName y = r_workflowName x \<and>
    r_input y = r_input x \<and> r_specVersion y = r_specVersion x \<and> r_queueNamespace y = r_queueNamespace x \<and>
    r_retentionClass y = r_retentionClass x \<and> r_retentionRootRunId y = r_retentionRootRunId x \<and>
    (r_status x \<noteq> Run_pending \<longrightarrow> r_status y \<noteq> Run_pending) \<and>
    length (r_attributes y) \<le> max (ATTRIBUTE_MAX_PER_RUN W) (length (r_attributes x))"
proof -
  have "evolves (run_le W) (runs s) (runs s')"
    using row_pool [OF assms(1,2)] by (simp add: table_order_def)
  from evolves_row [OF this assms(3)] obtain y where y: "y \<in> set (runs s')" "run_le W x y" by blast
  with run_le_same [OF y(2)] show ?thesis unfolding run_le_def by blast
qed

theorem run_provenance_fixed_witness:
  "\<exists>y \<in> set (runs (fst example_late)). r_deploymentId y = ''d'' \<and> r_status y \<noteq> Run_pending"
  using run_provenance_fixed [OF _ example_late_pool, of example_sdk "example_run Run_running"]
  by (auto simp: same_world_def example_run_def example_st_def)

text \<open>
  C4. \<open>create\<close> calls of some tenants, interleaved in any way, change no run, event, slot row,
  step, hook or wait of any other tenant.
\<close>

theorem tenants_isolated:
  assumes "pool_steps environment (s, pool_of calls) (s', ps)" and "t \<notin> pool_tenants calls"
  shows "tenant_view t s' = tenant_view t s"
  using tenant_pool [OF assms(1)] assms(2) by (simp add: isolated_def)

theorem tenants_isolated_witness:
  "tenant_view ''u'' (fst example_late) = tenant_view ''u'' (example_st Run_running Step_completed_st)"
  using tenants_isolated [OF example_late_pool, of "''u''"] by (simp add: pool_tenants_def)

text \<open>\<open>run_started\<close> of a pending run is a read, then an update; whatever happens in between.\<close>

lemma start_reads:
  assumes "plain_call c r q pa" and "rq_eventType q = Run_started"
    and "find (this_run c r) (runs s) = Some x" and "current_format c x"
  shows "\<exists>f. create c (Some r) q pa = Atomic f \<and>
    f s = (create_valid c r q pa (effective_spec_version c q) (Some (r_status x, r_specVersion x)), s)"
  using assms
  by (auto simp: create_def create_unfenced_def plain_call_def current_format_def check_hook_retention_def
      effective_run_id_def check_run_id_timestamp_def load_current_run_def
      getRunForValidation_def step_simps Let_def split: option.split)

lemma start_updates:
  assumes "rq_eventType q = Run_started" and "\<not> isTerminalWorkflowRunStatus (sdk c) Run_pending"
    and "\<not> isHookEventRequiringExistence (sdk c) Run_started"
  shows "\<exists>g. create_valid c r q pa v (Some (Run_pending, ver)) = Atomic g \<and> (\<forall>s. snd (g s) = set_run_started c r s)"
  using assms
  by (simp add: create_valid_def validate_terminal_def validate_step_def validate_hook_def handle_entity_def
      handle_run_started_def step_simps Let_def)
text \<open>
  C10. A cancelled run can come back to life: \<open>run_started\<close> validates the status it read, but its
  \<open>UPDATE\<close> does not check it again. For every pending run in the current format there is an
  interleaving in which a \<open>run_cancelled\<close> call runs in full between the two: it returns the
  cancelled run and its event is in the log, and the row ends up \<open>running\<close> with its \<open>completedAt\<close> set.
\<close>

theorem run_started_revives_cancelled_run:
  assumes "slot_laws (sdk c)" and "terminal_laws (sdk c)"
    and "plain_call c r q pa" and "rq_eventType q = Run_started"
    and "plain_call c r q' pa'" and "rq_eventType q' = Run_cancelled" and "rq_eventData q' = Some d"
    and "find (this_run c r) (runs s) = Some x" and "current_format c x" and "r_status x = Run_pending"
    and "\<not> isTerminalWorkflowRunStatus (sdk c) Run_pending"
    and "\<not> isHookEventRequiringExistence (sdk c) Run_started"
    and "\<not> isHookEventRequiringExistence (sdk c) Run_cancelled" and "log_at c r n s"
  shows "\<exists>s' p res. pool_steps environment (s, pool_of [(c, Some r, q, pa), (c, Some r, q', pa')]) (s', [p, Ret res]) \<and>
    er_run res = Some (cancelled_fields c x) \<and>
    events s' = events s @ [next_event c r n (rq_correlationId q') Run_cancelled (Some d) (Some (effective_spec_version c q')) s] \<and>
    find (this_run c r) (runs s') = Some (x\<lparr>r_status := Run_running, r_startedAt := Some (now c),
      r_completedAt := Some (now c), r_updatedAt := now c\<rparr>)"
proof -
  let ?p = "create c (Some r) q pa" and ?p' = "create c (Some r) q' pa'"
  let ?v = "create_valid c r q pa (effective_spec_version c q) (Some (r_status x, r_specVersion x))"
  obtain f where f: "?p = Atomic f" "f s = (?v, s)" using start_reads [OF assms(3,4,8,9)] by blast
  then have read: "pool_step environment (s, [?p, ?p']) (s, [?v, ?p'])"
    using pool_prog [of 0 "[?p, ?p']" f s ?v s environment] by simp
  obtain res u where u: "run ?p' s = (Inr res, u)" and res: "er_run res = Some (cancelled_fields c x)"
    and u_def: "u = s\<lparr>runs := update_where (\<lambda>row. this_run c r row \<and> not_terminal c (r_status row)) (cancelled_fields c) (runs s),
        hooks := delete_where (\<lambda>h. h_tenantId h = tenantId c \<and> h_runId h = r \<and> hookRetentionEnded s h) (hooks s),
        waits := delete_where (\<lambda>w. w_tenantId w = tenantId c \<and> w_runId w = r) (waits s),
        events := events s @ [next_event c r n (rq_correlationId q') Run_cancelled (Some d)
          (Some (effective_spec_version c q')) s]\<rparr>"
    using run_terminal_effect [OF assms(1,5) _ assms(7,8,9) _ assms(2) _ assms(14)] assms(6,10,11,13)
    by (auto simp: end_fields_def)
  have cancel: "pool_steps environment (s, [?v, ?p']) (u, [?v, Ret res])"
    using pool_run_at [of 1 "[?v, ?p']" ?p' environment s] u by (simp add: finished_def)
  obtain g where g: "?v = Atomic g" "snd (g u) = set_run_started c r u"
    using start_updates [OF assms(4,11,12)] assms(10) by metis
  then have start: "pool_step environment (u, [?v, Ret res]) (set_run_started c r u, [fst (g u), Ret res])"
    using pool_prog [of 0 "[?v, Ret res]" g u "fst (g u)" "set_run_started c r u" environment]
    by (simp add: prod_eq_iff)
  have steps: "pool_steps environment (s, pool_of [(c, Some r, q, pa), (c, Some r, q', pa')])
      (set_run_started c r u, [fst (g u), Ret res])"
    using pool_trans [OF pool_steps_trans [OF cancel pool_trans [OF pool_refl read]] start] by (simp add: pool_of_def)
  have "not_terminal c Run_pending" using assms(2,11) by (simp add: not_terminal_def terminal_laws_def)
  then have row: "find (this_run c r) (runs (set_run_started c r u)) = Some (x\<lparr>r_status := Run_running,
      r_startedAt := Some (now c), r_completedAt := Some (now c), r_updatedAt := now c\<rparr>)"
    using assms(8,10) find_SomeD [OF assms(8)] by (simp add: set_run_started_def u_def find_update_where find_conj cancelled_fields_def this_run_def)
  then show ?thesis using steps res by (intro exI) (auto simp: u_def set_run_started_def)
qed


theorem run_started_revives_cancelled_run_witness:
  "\<exists>s p res. pool_steps environment (example_st Run_pending Step_pending, pool_of
      [(example_ctx, Some ''wrun_1'', example_req Run_started None, no_params),
       (example_ctx, Some ''wrun_1'', example_req Run_cancelled None, no_params)]) (s, [p, Ret res]) \<and>
    map e_eventType (events s) = [Run_created, Run_cancelled] \<and>
    map_option r_status (find (this_run example_ctx ''wrun_1'') (runs s)) = Some Run_running"
proof -
  let ?st = "example_st Run_pending Step_pending"
  obtain s p res where "pool_steps environment (?st, pool_of
      [(example_ctx, Some ''wrun_1'', example_req Run_started None, no_params),
       (example_ctx, Some ''wrun_1'', example_req Run_cancelled None, no_params)]) (s, [p, Ret res])"
    "events s = [example_created, next_event example_ctx ''wrun_1'' 1 None Run_cancelled (Some no_data)
       (Some (effective_spec_version example_ctx (example_req Run_cancelled None))) ?st]"
    "map_option r_status (find (this_run example_ctx ''wrun_1'') (runs s)) = Some Run_running"
    using run_started_revives_cancelled_run [of example_ctx "''wrun_1''" "example_req Run_started None" no_params
      "example_req Run_cancelled None" no_params no_data ?st "example_run Run_pending" 1]
    by (auto simp: example_call)
  then show ?thesis by (intro exI [of _ s] exI [of _ p] exI [of _ res]) (simp add: next_event_def example_created_def)
qed

end
